(* ===== verification/Prelude.thy ===== *)
theory Prelude
  imports Complex_Main "HOL-Library.AList"
begin

text \<open>
  Shared vocabulary: Python dictionaries as insertion-ordered association lists (the operations of
  \<open>HOL-Library.AList\<close> keep the position of an existing key and append a new one, as
  \<^verbatim>\<open>dict\<close> does), bounded deques, decimal rendering of integers, and the generic lemmas
  the component theories share.
\<close>

named_theorems dict_simps \<open>lookups and key sets of updated dictionaries\<close>
named_theorems frame_simps \<open>fields an operation leaves unchanged\<close>

section \<open>Dictionaries\<close>

type_synonym ('k, 'v) dict = "('k \<times> 'v) list"

definition dget :: "('k, 'v) dict \<Rightarrow> 'k \<Rightarrow> 'v option" where
  "dget d k = map_of d k"

definition dset :: "('k, 'v) dict \<Rightarrow> 'k \<Rightarrow> 'v \<Rightarrow> ('k, 'v) dict" where
  "dset d k v = AList.update k v d"

definition ddel :: "('k, 'v) dict \<Rightarrow> 'k \<Rightarrow> ('k, 'v) dict" where
  "ddel d k = AList.delete k d"

definition keys :: "('k, 'v) dict \<Rightarrow> 'k list" where
  "keys d = map fst d"

definition wf_dict :: "('k, 'v) dict \<Rightarrow> bool" where
  "wf_dict d \<longleftrightarrow> distinct (keys d)"

lemma dget_Nil [simp]: "dget [] k = None"
  by (simp add: dget_def)

lemma dget_Cons: "dget ((k, v) # d) x = (if x = k then Some v else dget d x)"
  by (simp add: dget_def)

lemma dget_dset [dict_simps]: "dget (dset d k v) x = (if x = k then Some v else dget d x)"
  by (simp add: dget_def dset_def update_conv')

lemma dget_ddel [dict_simps]: "dget (ddel d k) x = (if x = k then None else dget d x)"
  by (simp add: dget_def ddel_def delete_conv')

lemma set_keys_dset [dict_simps]: "set (keys (dset d k v)) = insert k (set (keys d))"
  using dom_update [of k v d] by (simp add: keys_def dset_def dom_map_of_conv_image_fst)

lemma set_keys_ddel [dict_simps]: "set (keys (ddel d k)) = set (keys d) - {k}"
  by (simp add: keys_def ddel_def delete_keys)

lemma wf_dict_Nil [simp]: "wf_dict []"
  by (simp add: wf_dict_def keys_def)

lemma wf_dset [simp, intro]: "wf_dict d \<Longrightarrow> wf_dict (dset d k v)"
  by (simp add: wf_dict_def keys_def dset_def distinct_update)

lemma wf_ddel [simp, intro]: "wf_dict d \<Longrightarrow> wf_dict (ddel d k)"
  by (simp add: wf_dict_def keys_def ddel_def distinct_delete)

lemma dget_Some_in: "dget d k = Some v \<Longrightarrow> (k, v) \<in> set d"
  by (simp add: dget_def map_of_SomeD)

lemma in_dget: "wf_dict d \<Longrightarrow> (k, v) \<in> set d \<Longrightarrow> dget d k = Some v"
  by (simp add: dget_def wf_dict_def keys_def)

lemma dget_None_iff: "dget d k = None \<longleftrightarrow> k \<notin> set (keys d)"
  by (simp add: dget_def keys_def map_of_eq_None_iff)

lemma dget_keys: "dget d k = Some v \<Longrightarrow> k \<in> set (keys d)"
  by (metis dget_None_iff option.distinct(1))

lemma dset_new: "k \<notin> set (keys d) \<Longrightarrow> dset d k v = d @ [(k, v)]"
  by (induction d) (auto simp: dset_def keys_def)

lemma length_dset_new: "dget d k = None \<Longrightarrow> length (dset d k v) = Suc (length d)"
  by (simp add: dset_new dget_None_iff)

lemma length_dset_old: "dget d k \<noteq> None \<Longrightarrow> length (dset d k v) = length d"
  by (induction d) (auto simp: dset_def dget_def split: if_splits)

lemma length_ddel_le: "length (ddel d k) \<le> length d"
  by (simp add: ddel_def length_delete_le)

lemma ddel_filter: "ddel d k = filter (\<lambda>(k', v). k' \<noteq> k) d"
  unfolding ddel_def AList.delete_eq by (rule filter_cong) auto

lemma in_ddel: "(k', v) \<in> set (ddel d k) \<longleftrightarrow> k' \<noteq> k \<and> (k', v) \<in> set d"
  by (auto simp: ddel_filter)

lemma in_dset: "(k', v') \<in> set (dset d k v) \<Longrightarrow> k' = k \<and> v' = v \<or> (k', v') \<in> set d"
  by (induction d) (auto simp: dset_def split: if_splits)

lemma values_dset: "snd ` set (dset d k v) \<subseteq> insert v (snd ` set d)"
  by (force dest: in_dset)

lemma values_ddel: "snd ` set (ddel d k) \<subseteq> snd ` set d"
  by (auto simp: ddel_filter)

lemma dget_value: "dget d k = Some v \<Longrightarrow> v \<in> snd ` set d"
  by (force dest: dget_Some_in)

lemma map_values_dset:
  "wf_dict d \<Longrightarrow> dget d k = Some v \<Longrightarrow> g k w = g k v \<Longrightarrow>
   map (\<lambda>(k, v). (k, g k v)) (dset d k w) = map (\<lambda>(k, v). (k, g k v)) d"
  by (induction d) (auto simp: dset_def dget_def wf_dict_def keys_def split: if_splits)

text \<open>Sums over the items of a dictionary.\<close>

definition dsum :: "('k \<Rightarrow> 'v \<Rightarrow> 'm::comm_monoid_add) \<Rightarrow> ('k, 'v) dict \<Rightarrow> 'm" where
  "dsum f d = sum_list (map (\<lambda>(k, v). f k v) d)"

lemma dsum_Nil [simp]: "dsum f [] = 0"
  by (simp add: dsum_def)

lemma dsum_new: "dget d k = None \<Longrightarrow> dsum f (dset d k v) = dsum f d + f k v"
  by (simp add: dset_new dget_None_iff dsum_def)

lemma dsum_old: "dget d k = Some v \<Longrightarrow> dsum f (dset d k w) + f k v = dsum f d + f k w"
  by (induction d) (auto simp: dset_def dget_def dsum_def ac_simps split: if_splits)

lemma dsum_del: "wf_dict d \<Longrightarrow> dget d k = Some v \<Longrightarrow> dsum f (ddel d k) + f k v = dsum f d"
proof (induction d)
  case (Cons x d)
  have "k \<notin> set (keys d) \<Longrightarrow> ddel d k = d" by (force simp: ddel_filter filter_id_conv keys_def)
  then show ?case using Cons by (cases x) (auto simp: ddel_def dget_Cons dsum_def wf_dict_def keys_def ac_simps dest: dget_keys split: if_splits)
qed simp

section \<open>Sequences\<close>

text \<open>\<^verbatim>\<open>xs[-n:]\<close> for positive \<open>n\<close>: the last \<open>n\<close> elements; also what a
  \<^verbatim>\<open>deque(maxlen=n)\<close> keeps.\<close>

definition take_last :: "nat \<Rightarrow> 'a list \<Rightarrow> 'a list" where
  "take_last n xs = drop (length xs - n) xs"

definition deque_append :: "nat \<Rightarrow> 'a list \<Rightarrow> 'a \<Rightarrow> 'a list" where
  "deque_append cap xs x = take_last cap (xs @ [x])"

lemma length_take_last [simp]: "length (take_last n xs) = min n (length xs)"
  by (simp add: take_last_def)

lemma length_deque_append: "length (deque_append cap xs x) \<le> cap"
  by (simp add: deque_append_def)

lemma set_take_last: "set (take_last n xs) \<subseteq> set xs"
  by (simp add: take_last_def set_drop_subset)

lemma set_deque_append: "set (deque_append cap xs x) \<subseteq> insert x (set xs)"
  using set_take_last [of cap "xs @ [x]"] by (auto simp: deque_append_def)

lemma last_deque_append: "0 < cap \<Longrightarrow> last (deque_append cap xs x) = x"
  by (simp add: deque_append_def take_last_def)

section \<open>Decimal rendering of integers\<close>

definition digit_char :: "int \<Rightarrow> char" where
  "digit_char d = ''0123456789'' ! nat d"

function dec_nonneg :: "int \<Rightarrow> string" where
  "dec_nonneg n = (if n < 10 then [digit_char n] else dec_nonneg (n div 10) @ [digit_char (n mod 10)])"
  by pat_completeness auto
termination by (relation "measure nat") auto

declare dec_nonneg.simps [simp del]

definition str_of_int :: "int \<Rightarrow> string" where
  "str_of_int n = (if n < 0 then CHR ''-'' # dec_nonneg (- n) else dec_nonneg n)"

lemma digit_char_inj:
  assumes "0 \<le> a" "a < 10" "0 \<le> b" "b < 10" "digit_char a = digit_char b"
  shows "a = b"
proof -
  have "distinct ''0123456789''" by simp
  moreover have "nat a < length ''0123456789''" "nat b < length ''0123456789''" using assms by simp_all
  ultimately have "nat a = nat b"
    using assms(5) unfolding digit_char_def by (simp only: nth_eq_iff_index_eq)
  then show ?thesis using assms by simp
qed

lemma digit_char_not_dash: "d < 10 \<Longrightarrow> digit_char d \<noteq> CHR ''-''"
proof -
  assume "d < 10"
  then have "nat d < length ''0123456789''" by simp
  then have "digit_char d \<in> set ''0123456789''" unfolding digit_char_def by (rule nth_mem)
  then show ?thesis by auto
qed

lemma dash_notin_dec: "CHR ''-'' \<notin> set (dec_nonneg n)"
proof (induction n rule: dec_nonneg.induct)
  case (1 n)
  then show ?case
    using digit_char_not_dash [of n] digit_char_not_dash [of "n mod 10"]
    by (subst dec_nonneg.simps) auto
qed

lemma dec_nonneg_ne_Nil [simp]: "dec_nonneg n \<noteq> []"
  by (subst dec_nonneg.simps) simp

lemma dec_nonneg_inj: "0 \<le> a \<Longrightarrow> 0 \<le> b \<Longrightarrow> dec_nonneg a = dec_nonneg b \<Longrightarrow> a = b"
proof (induction a arbitrary: b rule: dec_nonneg.induct)
  case (1 a)
  have sa: "dec_nonneg a = (if a < 10 then [] else dec_nonneg (a div 10)) @ [digit_char (a mod 10)]"
    if "0 \<le> a" for a using that by (subst dec_nonneg.simps) simp
  from "1.prems" have eq: "(if a < 10 then [] else dec_nonneg (a div 10)) = (if b < 10 then [] else dec_nonneg (b div 10))"
    and d: "digit_char (a mod 10) = digit_char (b mod 10)"
    by (simp_all add: sa)
  have m: "a mod 10 = b mod 10" by (rule digit_char_inj [OF _ _ _ _ d]) auto
  show ?case
  proof (cases "a < 10")
    case True
    with eq have "b < 10" using dec_nonneg_ne_Nil [of "b div 10"] by (metis (full_types))
    with True m "1.prems" show ?thesis by simp
  next
    case False
    with eq have b: "\<not> b < 10" "dec_nonneg (a div 10) = dec_nonneg (b div 10)"
      by (auto split: if_splits)
    then have "a div 10 = b div 10" using "1.IH" [of "b div 10"] False "1.prems" by simp
    with m show ?thesis by (metis mult_div_mod_eq)
  qed
qed

text \<open>The last dash of \<open>s - n\<close> separates the two parts when \<open>n\<close> is not negative.\<close>

lemma dash_split_unique:
  assumes "CHR ''-'' \<notin> set u" and "CHR ''-'' \<notin> set v" and "s @ CHR ''-'' # u = t @ CHR ''-'' # v"
  shows "s = t \<and> u = v"
proof -
  have "takeWhile (\<lambda>c. c \<noteq> CHR ''-'') (rev (w @ CHR ''-'' # x)) = rev x" if "CHR ''-'' \<notin> set x" for w x
    using that by (subst rev_append) (auto simp: takeWhile_tail takeWhile_append takeWhile_eq_all_conv)
  from this [OF assms(1), of s] this [OF assms(2), of t] assms(3) have "rev u = rev v" by metis
  with assms(3) show ?thesis by simp
qed

end
