(* ===== verification/Float64.thy ===== *)
theory Float64
  imports Prelude
begin

text \<open>
  Python's \<^verbatim>\<open>float\<close> is IEEE 754 binary64. A finite double is represented by the
  rational number it denotes, and every arithmetic operation is the exact operation followed by
  \<open>rnd\<close>, round-to-nearest ties-to-even with a 53 bit significand and gradual underflow (the
  quantum never goes below 2^-1074). Overflow to an infinity (a magnitude above 2^1024) is not
  modelled; the code's tests for NaN and infinities are modelled on the type \<open>pyfloat\<close>.
\<close>

section \<open>Rounding to binary64\<close>

function bit_length :: "int \<Rightarrow> int" where
  "bit_length n = (if n \<le> 0 then 0 else 1 + bit_length (n div 2))"
  by pat_completeness auto
termination by (relation "measure nat") auto

declare bit_length.simps [simp del]

definition pow2 :: "int \<Rightarrow> rat" where
  "pow2 e = 2 powi e"

definition binade :: "rat \<Rightarrow> int" where
  "binade x = (let (n, d) = quotient_of \<bar>x\<bar>;
                   k = bit_length n - bit_length d
               in if pow2 k \<le> \<bar>x\<bar> then k else k - 1)"

definition qexp :: "rat \<Rightarrow> int" where
  "qexp x = max (binade x - 52) (- 1074)"

definition round_half_even :: "rat \<Rightarrow> int" where
  "round_half_even x =
     (let f = \<lfloor>x\<rfloor>; r = x - of_int f
      in if r < 1 / 2 then f
         else if 1 / 2 < r then f + 1
         else if even f then f else f + 1)"

definition rnd :: "rat \<Rightarrow> rat" where
  "rnd x = (if x = 0 then 0 else of_int (round_half_even (x / pow2 (qexp x))) * pow2 (qexp x))"

definition fadd :: "rat \<Rightarrow> rat \<Rightarrow> rat" where "fadd x y = rnd (x + y)"
definition fsub :: "rat \<Rightarrow> rat \<Rightarrow> rat" where "fsub x y = rnd (x - y)"
definition fmul :: "rat \<Rightarrow> rat \<Rightarrow> rat" where "fmul x y = rnd (x * y)"
definition fdiv :: "rat \<Rightarrow> rat \<Rightarrow> rat" where "fdiv x y = rnd (x / y)"

definition is_double :: "rat \<Rightarrow> bool" where
  "is_double x \<longleftrightarrow> rnd x = x"

subsection \<open>Powers of two\<close>

lemma pow2_pos [simp]: "0 < pow2 e"
  by (simp add: pow2_def)

lemma pow2_neq_0 [simp]: "pow2 e \<noteq> 0"
  by (simp add: pow2_def)

lemma pow2_add: "pow2 (a + b) = pow2 a * pow2 b"
  by (simp add: pow2_def power_int_add)

lemma pow2_diff: "pow2 (a - b) = pow2 a / pow2 b"
  by (simp add: pow2_def power_int_diff)

lemma pow2_le_iff [simp]: "pow2 a \<le> pow2 b \<longleftrightarrow> a \<le> b"
proof
  show "a \<le> b" if "pow2 a \<le> pow2 b"
  proof (rule ccontr)
    assume "\<not> a \<le> b"
    then have "pow2 b < pow2 a" unfolding pow2_def by (intro power_int_strict_increasing) auto
    with that show False by simp
  qed
  show "pow2 a \<le> pow2 b" if "a \<le> b"
    unfolding pow2_def using that by (intro power_int_increasing) auto
qed

lemma pow2_less_iff [simp]: "pow2 a < pow2 b \<longleftrightarrow> a < b"
  by (meson linorder_not_le pow2_le_iff)

lemma pow2_nonneg_int: "0 \<le> e \<Longrightarrow> pow2 e = of_int (2 ^ nat e)"
  by (simp add: pow2_def power_int_def)

lemma pow2_0 [simp]: "pow2 0 = 1" and pow2_1 [simp]: "pow2 1 = 2"
  by (simp_all add: pow2_def)

subsection \<open>The binade of a number\<close>

lemma bit_length_nonneg: "0 \<le> bit_length n"
  by (induction n rule: bit_length.induct) (subst bit_length.simps, auto)

lemma bit_length_bounds:
  "0 < n \<Longrightarrow> pow2 (bit_length n - 1) \<le> of_int n \<and> of_int n < pow2 (bit_length n)"
proof (induction n rule: bit_length.induct)
  case (1 n)
  show ?case
  proof (cases "n = 1")
    case True
    then show ?thesis by (simp add: bit_length.simps)
  next
    case False
    with "1.prems" have pos: "0 < n div 2" by simp
    define l where "l = bit_length (n div 2)"
    have l: "bit_length n = 1 + l" using "1.prems" by (subst bit_length.simps) (simp add: l_def)
    have ih: "pow2 (l - 1) \<le> of_int (n div 2)" "of_int (n div 2) < pow2 l"
      using "1.IH" "1.prems" pos by (auto simp: l_def)
    have "0 \<le> l" by (simp add: l_def bit_length_nonneg)
    moreover have "l \<noteq> 0" using ih(2) pos by (auto simp: not_less dest!: leD) 
    ultimately have l1: "1 \<le> l" by simp
    have two: "pow2 l = 2 * pow2 (l - 1)" "pow2 (l + 1) = 2 * pow2 l"
      using pow2_add [of 1 "l - 1"] pow2_add [of l 1] by simp_all
    have lo: "pow2 l \<le> of_int n"
    proof -
      have "pow2 l \<le> of_int (2 * (n div 2))" using two(1) ih(1) by simp
      also have "\<dots> \<le> of_int n" by (simp only: of_int_le_iff)
      finally show ?thesis .
    qed
    have hi: "of_int n < pow2 (l + 1)"
    proof -
      have "of_int (n div 2) < (of_int (2 ^ nat l) :: rat)"
        using ih(2) l1 by (simp add: pow2_nonneg_int)
      then have "n div 2 < 2 ^ nat l" by (simp only: of_int_less_iff)
      then have "n < 2 * 2 ^ nat l" by linarith
      then have "of_int n < (of_int (2 * 2 ^ nat l) :: rat)" by (simp only: of_int_less_iff)
      then show ?thesis using two(2) l1 by (simp add: pow2_nonneg_int)
    qed
    show ?thesis using lo hi by (simp add: l add.commute)
  qed
qed

lemma binade_bounds:
  assumes "x \<noteq> 0"
  shows "pow2 (binade x) \<le> \<bar>x\<bar>" and "\<bar>x\<bar> < pow2 (binade x + 1)"
proof -
  obtain n d where q: "quotient_of \<bar>x\<bar> = (n, d)" by (cases "quotient_of \<bar>x\<bar>")
  have d: "0 < d" using quotient_of_denom_pos [OF q] .
  have x: "\<bar>x\<bar> = of_int n / of_int d" using quotient_of_div [OF q] .
  have n: "0 < n" using assms x d by (metis abs_of_nonneg abs_zero divide_nonpos_pos leD leI of_int_0_less_iff of_int_le_0_iff zero_less_abs_iff)
  define k where "k = bit_length n - bit_length d"
  have nb: "pow2 (bit_length n - 1) \<le> of_int n" "of_int n < pow2 (bit_length n)"
    and db: "pow2 (bit_length d - 1) \<le> of_int d" "of_int d < pow2 (bit_length d)"
    using bit_length_bounds [OF n] bit_length_bounds [OF d] by auto
  have d': "(0 :: rat) < of_int d" using d by simp
  have up: "\<bar>x\<bar> < pow2 (k + 1)"
  proof -
    have "pow2 (bit_length n) = pow2 (k + 1) * pow2 (bit_length d - 1)"
      unfolding pow2_add [symmetric] by (simp add: k_def)
    also have "\<dots> \<le> pow2 (k + 1) * of_int d" using db(1) by simp
    finally show ?thesis using nb(2) d' by (simp add: x pos_divide_less_eq)
  qed
  have lo: "pow2 (k - 1) \<le> \<bar>x\<bar>"
  proof -
    have "pow2 (k - 1) * of_int d \<le> pow2 (k - 1) * pow2 (bit_length d)" using db(2) by simp
    also have "\<dots> = pow2 (bit_length n - 1)"
      unfolding pow2_add [symmetric] by (simp add: k_def)
    finally show ?thesis using nb(1) d' by (simp add: x pos_le_divide_eq)
  qed
  have b: "binade x = (if pow2 k \<le> \<bar>x\<bar> then k else k - 1)"
    by (simp add: binade_def q k_def Let_def)
  show "pow2 (binade x) \<le> \<bar>x\<bar>" using lo by (simp add: b)
  show "\<bar>x\<bar> < pow2 (binade x + 1)" using up by (simp add: b)
qed

lemma binade_unique:
  assumes "pow2 e \<le> \<bar>x\<bar>" and "\<bar>x\<bar> < pow2 (e + 1)"
  shows "binade x = e"
proof -
  have "x \<noteq> 0" using assms(1) pow2_pos [of e] by (auto simp del: pow2_pos)
  note b = binade_bounds [OF this]
  have "pow2 e < pow2 (binade x + 1)" and "pow2 (binade x) < pow2 (e + 1)"
    using assms b by linarith+
  then show ?thesis by simp
qed

lemma binade_mono: "x \<noteq> 0 \<Longrightarrow> \<bar>x\<bar> \<le> \<bar>y\<bar> \<Longrightarrow> binade x \<le> binade y"
proof -
  assume "x \<noteq> 0" and le: "\<bar>x\<bar> \<le> \<bar>y\<bar>"
  then have "y \<noteq> 0" by auto
  have "pow2 (binade x) < pow2 (binade y + 1)"
    using binade_bounds(1) [OF \<open>x \<noteq> 0\<close>] binade_bounds(2) [OF \<open>y \<noteq> 0\<close>] le by linarith
  then show ?thesis by simp
qed

lemma binade_minus [simp]: "binade (- x) = binade x"
  by (simp add: binade_def)

lemma qexp_minus [simp]: "qexp (- x) = qexp x"
  by (simp add: qexp_def)

subsection \<open>Rounding to an integer\<close>

lemma round_half_even_of_int [simp]: "round_half_even (of_int n) = n"
  by (simp add: round_half_even_def)

lemma round_half_even_error: "\<bar>of_int (round_half_even x) - x\<bar> \<le> 1 / 2"
proof -
  have "of_int \<lfloor>x\<rfloor> \<le> x" "x < of_int \<lfloor>x\<rfloor> + 1" by linarith+
  then show ?thesis by (auto simp: round_half_even_def Let_def)
qed

lemma round_half_even_mono:
  assumes "x \<le> y" shows "round_half_even x \<le> round_half_even y"
proof (cases "\<lfloor>x\<rfloor> = \<lfloor>y\<rfloor>")
  case True
  then show ?thesis using assms by (auto simp: round_half_even_def Let_def)
next
  case False
  then have "\<lfloor>x\<rfloor> + 1 \<le> \<lfloor>y\<rfloor>" using floor_mono [OF assms] by linarith
  then show ?thesis by (auto simp: round_half_even_def Let_def)
qed

lemma round_half_even_minus: "round_half_even (- x) = - round_half_even x"
proof (cases "x = of_int \<lfloor>x\<rfloor>")
  case True
  then show ?thesis
    using round_half_even_of_int [of "\<lfloor>x\<rfloor>"] round_half_even_of_int [of "- \<lfloor>x\<rfloor>"] by simp
next
  case False
  then have f: "\<lfloor>- x\<rfloor> = - \<lfloor>x\<rfloor> - 1"
    by (intro floor_unique) (use floor_correct [of x] in \<open>auto simp: less_le\<close>)
  show ?thesis unfolding round_half_even_def Let_def f by auto
qed

lemma round_half_even_ge_int: "of_int n \<le> x \<Longrightarrow> n \<le> round_half_even x"
  using round_half_even_mono [of "of_int n" x] by simp

lemma round_half_even_le_int: "x \<le> of_int n \<Longrightarrow> round_half_even x \<le> n"
  using round_half_even_mono [of x "of_int n"] by simp

subsection \<open>Properties of the rounding\<close>

lemma rnd_0 [simp]: "rnd 0 = 0"
  by (simp add: rnd_def)

lemma rnd_minus: "rnd (- x) = - rnd x"
  by (simp add: rnd_def round_half_even_minus)

lemma rnd_ge_pow2:
  assumes "pow2 e \<le> x" and "qexp x \<le> e"
  shows "pow2 e \<le> rnd x"
proof -
  have x0: "x \<noteq> 0" using assms(1) pow2_pos [of e] by (auto simp del: pow2_pos)
  define n :: int where "n = 2 ^ nat (e - qexp x)"
  have n: "of_int n * pow2 (qexp x) = pow2 e"
    using assms(2) pow2_add [of "e - qexp x" "qexp x"] by (simp add: n_def pow2_nonneg_int)
  have "of_int n \<le> x / pow2 (qexp x)" using assms(1) n by (simp add: pos_le_divide_eq)
  then have "n \<le> round_half_even (x / pow2 (qexp x))" by (rule round_half_even_ge_int)
  then have "of_int n * pow2 (qexp x) \<le> of_int (round_half_even (x / pow2 (qexp x))) * pow2 (qexp x)"
    by simp
  then show ?thesis using n x0 by (simp add: rnd_def)
qed

lemma rnd_le_pow2:
  assumes "x \<le> pow2 e" and "qexp x \<le> e"
  shows "rnd x \<le> pow2 e"
proof (cases "x = 0")
  case True
  then show ?thesis by (simp add: less_imp_le)
next
  case x0: False
  define n :: int where "n = 2 ^ nat (e - qexp x)"
  have n: "of_int n * pow2 (qexp x) = pow2 e"
    using assms(2) pow2_add [of "e - qexp x" "qexp x"] by (simp add: n_def pow2_nonneg_int)
  have "x / pow2 (qexp x) \<le> of_int n" using assms(1) n by (simp add: pos_divide_le_eq)
  then have "round_half_even (x / pow2 (qexp x)) \<le> n" by (rule round_half_even_le_int)
  then have "of_int (round_half_even (x / pow2 (qexp x))) * pow2 (qexp x) \<le> of_int n * pow2 (qexp x)"
    by simp
  then show ?thesis using n x0 by (simp add: rnd_def)
qed

lemma rnd_nonneg: "0 \<le> x \<Longrightarrow> 0 \<le> rnd x"
proof -
  assume "0 \<le> x"
  then have "0 \<le> x / pow2 (qexp x)" by (simp add: less_imp_le)
  then have "0 \<le> round_half_even (x / pow2 (qexp x))"
    using round_half_even_ge_int [of 0] by simp
  then show ?thesis by (simp add: rnd_def less_imp_le)
qed

lemma rnd_mono_pos:
  assumes "0 < x" and "x \<le> y"
  shows "rnd x \<le> rnd y"
proof (cases "qexp x = qexp y")
  case True
  have "x / pow2 (qexp x) \<le> y / pow2 (qexp x)" using assms(2) by (simp add: divide_right_mono less_imp_le)
  from round_half_even_mono [OF this]
  have "of_int (round_half_even (x / pow2 (qexp x))) * pow2 (qexp x) \<le>
        of_int (round_half_even (y / pow2 (qexp x))) * pow2 (qexp x)" by simp
  with True assms show ?thesis by (simp add: rnd_def)
next
  case False
  have y: "0 < y" using assms by linarith
  have "binade x \<le> binade y" using assms by (intro binade_mono) auto
  with False have lt: "binade x < binade y" and qy: "qexp y = binade y - 52" and "- 1074 < binade y - 52"
    by (auto simp: qexp_def max_def split: if_splits)
  have "x < pow2 (binade x + 1)" using binade_bounds(2) [of x] assms by simp
  also have "\<dots> \<le> pow2 (binade y)" using lt by simp
  finally have "rnd x \<le> pow2 (binade y)"
    using lt \<open>- 1074 < binade y - 52\<close> by (intro rnd_le_pow2) (auto simp: qexp_def)
  also have "\<dots> \<le> rnd y"
    using binade_bounds(1) [of y] y qy by (intro rnd_ge_pow2) auto
  finally show ?thesis .
qed

lemma rnd_mono: "x \<le> y \<Longrightarrow> rnd x \<le> rnd y"
proof -
  assume le: "x \<le> y"
  consider "0 < x" | "x \<le> 0" "0 \<le> y" | "y < 0" by linarith
  then show ?thesis
  proof cases
    case 1
    then show ?thesis using le by (rule rnd_mono_pos)
  next
    case 2
    then show ?thesis using rnd_nonneg [of "- x"] rnd_nonneg [of y] by (simp add: rnd_minus)
  next
    case 3
    then show ?thesis using rnd_mono_pos [of "- y" "- x"] le by (simp add: rnd_minus)
  qed
qed

lemma rnd_nonpos: "x \<le> 0 \<Longrightarrow> rnd x \<le> 0"
  using rnd_mono [of x 0] by simp

lemma rnd_exact:
  assumes "\<bar>m\<bar> < 2 ^ 53" and "- 1074 \<le> e"
  shows "rnd (of_int m * pow2 e) = of_int m * pow2 e"
proof (cases "m = 0")
  case True
  then show ?thesis by simp
next
  case False
  define x where "x = of_int m * pow2 e"
  have x0: "x \<noteq> 0" using False by (simp add: x_def)
  have "\<bar>x\<bar> = of_int \<bar>m\<bar> * pow2 e" by (simp add: x_def abs_mult less_imp_le)
  also have "\<dots> < pow2 53 * pow2 e"
  proof -
    have "(of_int \<bar>m\<bar> :: rat) < of_int (2 ^ 53)" using assms(1) by (simp only: of_int_less_iff)
    then show ?thesis by (simp add: pow2_def)
  qed
  finally have "\<bar>x\<bar> < pow2 (e + 53)" by (simp add: pow2_add mult.commute)
  then have "pow2 (binade x) < pow2 (e + 53)" using binade_bounds(1) [OF x0] by linarith
  then have q: "qexp x \<le> e" using assms(2) by (simp add: qexp_def)
  have "x / pow2 (qexp x) = of_int m * pow2 (e - qexp x)" by (simp add: x_def pow2_diff)
  also have "\<dots> = of_int (m * 2 ^ nat (e - qexp x))" using q by (simp add: pow2_nonneg_int)
  finally have r: "x / pow2 (qexp x) = of_int (m * 2 ^ nat (e - qexp x))" .
  have "rnd x = of_int (m * 2 ^ nat (e - qexp x)) * pow2 (qexp x)"
    unfolding rnd_def r round_half_even_of_int using x0 by simp
  also have "\<dots> = x" unfolding r [symmetric] by simp
  finally show ?thesis by (simp add: x_def)
qed

lemma rnd_rnd [simp]: "rnd (rnd x) = rnd x"
proof (cases "x = 0")
  case True
  then show ?thesis by simp
next
  case x0: False
  define q k where "q = qexp x" and "k = round_half_even (x / pow2 q)"
  have r: "rnd x = of_int k * pow2 q" using x0 by (simp add: rnd_def q_def k_def)
  have q: "- 1074 \<le> q" by (simp add: q_def qexp_def)
  have "\<bar>x / pow2 q\<bar> \<le> of_int (2 ^ 53)"
  proof -
    have "\<bar>x\<bar> < pow2 (binade x + 1)" using binade_bounds(2) [OF x0] .
    also have "\<dots> \<le> pow2 (53 + q)" by (simp add: q_def qexp_def)
    finally have "\<bar>x\<bar> \<le> pow2 53 * pow2 q" by (simp add: pow2_add less_imp_le)
    then show ?thesis by (simp add: abs_divide pos_divide_le_eq pow2_def)
  qed
  then have "x / pow2 q \<le> of_int (2 ^ 53)" and "of_int (- (2 ^ 53)) \<le> x / pow2 q"
    by linarith+
  then have "k \<le> 2 ^ 53" and "- (2 ^ 53) \<le> k"
    unfolding k_def by (auto intro: round_half_even_le_int round_half_even_ge_int)
  then have "\<bar>k\<bar> \<le> 2 ^ 53" by linarith
  then consider "\<bar>k\<bar> < 2 ^ 53" | "k = 2 ^ 52 * 2" | "k = - (2 ^ 52) * 2" by force
  then show ?thesis
  proof cases
    case 1
    then show ?thesis unfolding r by (rule rnd_exact) (rule q)
  next
    case 2
    then have "of_int k * pow2 q = of_int (2 ^ 52) * pow2 (q + 1)" by (simp add: pow2_add)
    then show ?thesis unfolding r using q by (simp only:) (rule rnd_exact, auto)
  next
    case 3
    then have "of_int k * pow2 q = of_int (- (2 ^ 52)) * pow2 (q + 1)" by (simp add: pow2_add)
    then show ?thesis unfolding r using q by (simp only:) (rule rnd_exact, auto)
  qed
qed


lemma rnd_of_int: "\<bar>m\<bar> < 2 ^ 53 \<Longrightarrow> rnd (of_int m) = of_int m"
  using rnd_exact [of m 0] by simp

lemma rnd_of_nat: "n < 2 ^ 53 \<Longrightarrow> rnd (of_nat n) = of_nat n"
  using rnd_of_int [of "int n"] by simp

lemma rnd_error: "\<bar>rnd x - x\<bar> \<le> pow2 (qexp x) / 2"
proof (cases "x = 0")
  case True
  then show ?thesis by (simp add: less_imp_le)
next
  case False
  define q where "q = pow2 (qexp x)"
  have "q > 0" by (simp add: q_def)
  have "rnd x - x = (of_int (round_half_even (x / q)) - x / q) * q"
    using False \<open>q > 0\<close> by (simp add: rnd_def q_def left_diff_distrib)
  then have "\<bar>rnd x - x\<bar> = \<bar>of_int (round_half_even (x / q)) - x / q\<bar> * q"
    using \<open>q > 0\<close> by (simp add: abs_mult)
  also have "\<dots> \<le> 1 / 2 * q"
    using round_half_even_error [of "x / q"] \<open>q > 0\<close> by (intro mult_right_mono) auto
  finally show ?thesis by (simp add: q_def)
qed

section \<open>Arithmetic over a monotone rounding\<close>

text \<open>
  What the proofs use of rounding: it is monotone, odd, idempotent, and keeps zero. The lemmas about
  the operations are proved once from these laws.
\<close>

locale rounding =
  fixes r :: "rat \<Rightarrow> rat"
  assumes mono: "x \<le> y \<Longrightarrow> r x \<le> r y"
    and idem: "r (r x) = r x"
    and odd: "r (- x) = - r x"
begin

lemma zero: "r 0 = 0"
  using odd [of 0] by simp

lemma nonneg: "0 \<le> x \<Longrightarrow> 0 \<le> r x"
  using mono [of 0 x] zero by simp

lemma nonpos: "x \<le> 0 \<Longrightarrow> r x \<le> 0"
  using mono [of x 0] zero by simp

lemma sub_nonneg: "y \<le> x \<Longrightarrow> 0 \<le> r (x - y)"
  by (rule nonneg) simp

lemma mul_nonneg: "0 \<le> x \<Longrightarrow> 0 \<le> y \<Longrightarrow> 0 \<le> r (x * y)"
  by (rule nonneg) simp

lemma div_nonneg: "0 \<le> x \<Longrightarrow> 0 \<le> y \<Longrightarrow> 0 \<le> r (x / y)"
  by (rule nonneg) simp

lemma sub_swap: "r (x - y) = - r (y - x)"
  using odd [of "y - x"] by simp

lemma add_ge: "r x = x \<Longrightarrow> 0 \<le> d \<Longrightarrow> x \<le> r (x + d)"
  using mono [of x "x + d"] by simp

lemma sub_le: "r x = x \<Longrightarrow> 0 \<le> d \<Longrightarrow> r (x - d) \<le> x"
  using mono [of "x - d" x] by simp

lemma div_le_one: "r 1 = 1 \<Longrightarrow> 0 \<le> x \<Longrightarrow> x \<le> y \<Longrightarrow> r (x / y) \<le> 1"
  using mono [of "x / y" 1] zero by (cases "y = 0") (auto simp: divide_le_eq_1)

lemma fold_add_nonneg: "(\<And>x. x \<in> set xs \<Longrightarrow> 0 \<le> x) \<Longrightarrow> 0 \<le> a \<Longrightarrow> 0 \<le> foldl (\<lambda>s x. r (s + x)) a xs"
proof (induction xs arbitrary: a)
  case Nil
  then show ?case by simp
next
  case (Cons x xs)
  have "0 \<le> r (a + x)" using Cons.prems by (intro nonneg) auto
  with Cons show ?case by simp
qed

end

interpretation fp: rounding rnd
  by unfold_locales (simp_all add: rnd_mono rnd_minus)

lemmas float_defs = fadd_def fsub_def fmul_def fdiv_def

lemma fadd_0_left [simp]: "fadd 0 x = rnd x"
  by (simp add: fadd_def)

lemma rnd_1 [simp]: "rnd 1 = 1"
  using rnd_of_int [of 1] by simp

lemma is_double_fadd [simp]: "is_double (fadd x y)" and is_double_fsub [simp]: "is_double (fsub x y)"
  and is_double_fmul [simp]: "is_double (fmul x y)" and is_double_fdiv [simp]: "is_double (fdiv x y)"
  by (simp_all add: is_double_def float_defs)

lemma is_double_minus [simp]: "is_double (- x) \<longleftrightarrow> is_double x"
  by (simp add: is_double_def rnd_minus)

lemma is_double_0 [simp]: "is_double 0"
  by (simp add: is_double_def)

lemma fsub_minus: "fsub x y = - fsub y x"
  by (simp add: fsub_def fp.sub_swap [of x y])

lemma fmul_minus_left: "fmul (- x) y = - fmul x y"
  by (simp add: fmul_def rnd_minus)

lemma fmul_nonneg: "0 \<le> x \<Longrightarrow> 0 \<le> y \<Longrightarrow> 0 \<le> fmul x y"
  by (simp add: fmul_def fp.mul_nonneg)

lemma fdiv_nonneg: "0 \<le> x \<Longrightarrow> 0 \<le> y \<Longrightarrow> 0 \<le> fdiv x y"
  by (simp add: fdiv_def fp.div_nonneg)

lemma fsub_nonneg: "y \<le> x \<Longrightarrow> 0 \<le> fsub x y"
  by (simp add: fsub_def fp.sub_nonneg)

lemma fadd_nonneg: "0 \<le> x \<Longrightarrow> 0 \<le> y \<Longrightarrow> 0 \<le> fadd x y"
  by (simp add: fadd_def fp.nonneg)

lemma fadd_ge: "is_double x \<Longrightarrow> 0 \<le> d \<Longrightarrow> x \<le> fadd x d"
  by (simp add: fadd_def is_double_def fp.add_ge)

lemma fsub_le: "is_double x \<Longrightarrow> 0 \<le> d \<Longrightarrow> fsub x d \<le> x"
  by (simp add: fsub_def is_double_def fp.sub_le)

lemma fadd_mono: "a \<le> b \<Longrightarrow> c \<le> d \<Longrightarrow> fadd a c \<le> fadd b d"
  by (simp add: fadd_def rnd_mono)

text \<open>Python's \<^verbatim>\<open>sum\<close> over floats: a left fold from 0.\<close>

definition fsum :: "rat list \<Rightarrow> rat" where
  "fsum xs = foldl fadd 0 xs"

text \<open>\<^verbatim>\<open>round(x, n)\<close>: the exact value to the nearest decimal with that many places, ties to even, as a double.\<close>

definition round_digits :: "nat \<Rightarrow> rat \<Rightarrow> rat" where
  "round_digits n x = rnd (of_int (round_half_even (x * 10 ^ n)) / 10 ^ n)"

lemma fsum_nonneg: "(\<And>x. x \<in> set xs \<Longrightarrow> 0 \<le> x) \<Longrightarrow> 0 \<le> fsum xs"
  unfolding fsum_def fadd_def [abs_def] by (rule fp.fold_add_nonneg) auto

section \<open>Inputs that may be NaN or infinite\<close>

datatype pyfloat = Fin rat | PInf | NInf | NaN

fun finite_value :: "pyfloat \<Rightarrow> rat option" where
  "finite_value (Fin x) = Some x"
| "finite_value _ = None"

lemma double_multiple:
  assumes "is_double x" obtains m where "x = of_int m * pow2 (- 1074)"
proof (cases "x = 0")
  case True
  then show ?thesis by (intro that [of 0]) simp
next
  case False
  define k where "k = round_half_even (x / pow2 (qexp x))"
  have "x = of_int k * pow2 (qexp x)" using assms False by (simp add: is_double_def rnd_def k_def)
  also have "pow2 (qexp x) = pow2 (qexp x + 1074) * pow2 (- 1074)" by (simp add: pow2_add [symmetric])
  also have "pow2 (qexp x + 1074) = of_int (2 ^ nat (qexp x + 1074))" by (intro pow2_nonneg_int) (simp add: qexp_def)
  finally show ?thesis by (intro that [of "k * 2 ^ nat (qexp x + 1074)"]) simp
qed

text \<open>Two different doubles have a difference that does not round to zero.\<close>

lemma fsub_pos: assumes "is_double x" "is_double y" "x < y" shows "0 < fsub y x"
proof -
  obtain m where m: "x = of_int m * pow2 (- 1074)" using double_multiple [OF assms(1)] .
  obtain n where n: "y = of_int n * pow2 (- 1074)" using double_multiple [OF assms(2)] .
  have "m < n" using assms(3) by (simp add: m n)
  then have "of_int 1 * pow2 (- 1074) \<le> of_int (n - m) * pow2 (- 1074)" by (intro mult_right_mono) (simp_all add: less_imp_le)
  also have "\<dots> = y - x" by (simp add: m n algebra_simps)
  finally have "rnd (of_int 1 * pow2 (- 1074)) \<le> fsub y x" unfolding fsub_def by (rule rnd_mono)
  then have "pow2 (- 1074) \<le> fsub y x" using rnd_exact [of 1 "- 1074"] by simp
  from pow2_pos this show ?thesis by (rule less_le_trans)
qed

lemma fsub_pos_iff: "is_double x \<Longrightarrow> is_double y \<Longrightarrow> 0 < fsub y x \<longleftrightarrow> x < y"
  using fsub_pos [of x y] fsub_nonneg [of y x] fsub_minus [of x y] by (cases "x < y") (auto simp: not_less)

end
