(* ===== verification/Paper_Math.thy ===== *)
theory Paper_Math
  imports Float64
begin

text \<open>
  The pure formulas of \<^verbatim>\<open>src/trading/paper_math.py\<close>: entry slippage, stop and target
  prices, sizing, fees, PnL, R multiple, ATR, the funding schedule and the funding payment. Every
  float operation of the source is one rounded operation of \<open>Float64\<close>, in the source's
  order of evaluation.
\<close>

section \<open>Constants\<close>

definition LONG :: string where "LONG = ''LONG''"
definition SHORT :: string where "SHORT = ''SHORT''"
definition TP :: string where "TP = ''TP''"
definition SL :: string where "SL = ''SL''"
definition END_OF_BACKTEST :: string where "END_OF_BACKTEST = ''END_OF_BACKTEST''"

lemma exit_reasons_distinct [simp]:
  "TP \<noteq> SL" "SL \<noteq> TP" "TP \<noteq> END_OF_BACKTEST" "END_OF_BACKTEST \<noteq> TP" "SL \<noteq> END_OF_BACKTEST"
  "END_OF_BACKTEST \<noteq> SL" "LONG \<noteq> SHORT" "SHORT \<noteq> LONG"
  by (simp_all add: TP_def SL_def END_OF_BACKTEST_def LONG_def SHORT_def)

section \<open>Prices\<close>

definition apply_entry_slippage :: "rat \<Rightarrow> string \<Rightarrow> rat \<Rightarrow> rat" where
  "apply_entry_slippage last_price direction slippage_bps =
     (if last_price \<le> 0 then 0
      else let pct = fdiv slippage_bps 10000
           in if direction = LONG then fmul last_price (fadd 1 pct)
              else fmul last_price (fsub 1 pct))"

definition compute_sl_distance :: "rat \<Rightarrow> rat \<Rightarrow> rat \<Rightarrow> rat \<Rightarrow> rat \<Rightarrow> rat" where
  "compute_sl_distance atr price sl_atr_multiplier max_sl_distance_pct min_sl_distance_pct =
     (if atr \<le> 0 \<or> price \<le> 0 then 0
      else let raw = fmul sl_atr_multiplier atr;
               cap = fmul max_sl_distance_pct price;
               flr = fmul min_sl_distance_pct price
           in max (min raw cap) flr)"

definition compute_sl_price :: "rat \<Rightarrow> rat \<Rightarrow> string \<Rightarrow> rat" where
  "compute_sl_price entry_fill sl_distance direction =
     (if direction = LONG then fsub entry_fill sl_distance else fadd entry_fill sl_distance)"

definition compute_tp_price :: "rat \<Rightarrow> rat \<Rightarrow> rat \<Rightarrow> string \<Rightarrow> rat" where
  "compute_tp_price entry_fill sl_distance tp_r_multiple direction =
     (if direction = LONG then fadd entry_fill (fmul tp_r_multiple sl_distance)
      else fsub entry_fill (fmul tp_r_multiple sl_distance))"

definition compute_qty :: "rat \<Rightarrow> rat \<Rightarrow> rat \<Rightarrow> rat" where
  "compute_qty equity risk_pct sl_distance =
     (if sl_distance \<le> 0 \<or> equity \<le> 0 then 0 else fdiv (fmul equity risk_pct) sl_distance)"

section \<open>Fees, PnL, R multiple\<close>

definition compute_entry_fee :: "rat \<Rightarrow> rat \<Rightarrow> rat \<Rightarrow> rat" where
  "compute_entry_fee entry_fill qty fee_taker = fmul (fmul entry_fill qty) fee_taker"

definition compute_exit_fee :: "rat \<Rightarrow> rat \<Rightarrow> rat \<Rightarrow> rat \<Rightarrow> string \<Rightarrow> rat" where
  "compute_exit_fee exit_price qty fee_taker fee_maker exit_reason =
     (let rate = (if exit_reason = TP then fee_maker else fee_taker)
      in fmul (fmul exit_price qty) rate)"

definition compute_pnl_gross :: "rat \<Rightarrow> rat \<Rightarrow> rat \<Rightarrow> string \<Rightarrow> rat" where
  "compute_pnl_gross entry_fill exit_price qty direction =
     (if direction = LONG then fmul (fsub exit_price entry_fill) qty
      else fmul (fsub entry_fill exit_price) qty)"

definition compute_r_multiple :: "rat \<Rightarrow> rat \<Rightarrow> rat \<Rightarrow> string \<Rightarrow> rat" where
  "compute_r_multiple entry_fill exit_price sl_price direction =
     (let r_dist = \<bar>fsub entry_fill sl_price\<bar>
      in if r_dist \<le> 0 then 0
         else if direction = LONG then fdiv (fsub exit_price entry_fill) r_dist
         else fdiv (fsub entry_fill exit_price) r_dist)"

section \<open>Average true range\<close>

record candle =
  c_sec :: int
  c_ts_ms :: int
  c_open :: rat
  c_high :: rat
  c_low :: rat
  c_close :: rat

definition true_range :: "candle \<Rightarrow> candle \<Rightarrow> rat" where
  "true_range prev cur =
     max (max (fsub (c_high cur) (c_low cur)) \<bar>fsub (c_high cur) (c_close prev)\<bar>)
         \<bar>fsub (c_low cur) (c_close prev)\<bar>"

text \<open>The loop \<^verbatim>\<open>for i in range(start, len(candles))\<close> runs over the indices from
  \<open>len - atr_period\<close>; a period of zero or less gives no true range, hence \<^verbatim>\<open>None\<close>.\<close>

definition compute_atr :: "candle list \<Rightarrow> int \<Rightarrow> rat option" where
  "compute_atr candles atr_period =
     (if int (length candles) < atr_period + 1 then None
      else let start = nat (int (length candles) - atr_period);
               trs = map (\<lambda>i. true_range (candles ! (i - 1)) (candles ! i)) [start..<length candles]
           in if trs = [] then None
              else Some (fdiv (fsum trs) (of_nat (length trs))))"

section \<open>Funding\<close>

definition HOUR_MS :: int where "HOUR_MS = 3600000"
definition DAY_MS :: int where "DAY_MS = 86400000"
definition FUNDING_MS :: int where "FUNDING_MS = 28800000"

text \<open>
  The source goes through \<^verbatim>\<open>datetime\<close>: one millisecond is added, the hour of the day is
  compared with 0, 8 and 16, and the first greater one (else midnight of the next day) is returned
  in milliseconds. Days are 86400 s in UTC, so day and hour are integer divisions.
\<close>

fun first_hour_after :: "int list \<Rightarrow> int \<Rightarrow> int option" where
  "first_hour_after [] hour = None"
| "first_hour_after (h # hs) hour = (if hour < h then Some h else first_hour_after hs hour)"

definition next_funding_ts_ms :: "int \<Rightarrow> int" where
  "next_funding_ts_ms ts_ms =
     (let dt = ts_ms + 1;
          day = dt div DAY_MS;
          hour = (dt mod DAY_MS) div HOUR_MS
      in case first_hour_after [0, 8, 16] hour of
           Some h \<Rightarrow> day * DAY_MS + h * HOUR_MS
         | None \<Rightarrow> (day + 1) * DAY_MS)"

definition compute_funding_delta :: "rat \<Rightarrow> rat \<Rightarrow> string \<Rightarrow> rat" where
  "compute_funding_delta rate notional direction =
     (let signed = fmul rate notional in if direction = LONG then signed else - signed)"

section \<open>Properties of the formulas\<close>

lemma apply_entry_slippage_nonpos: "p \<le> 0 \<Longrightarrow> apply_entry_slippage p d b = 0"
  by (simp add: apply_entry_slippage_def)

lemma is_double_entry [simp]: "is_double (apply_entry_slippage p d b)"
  by (simp add: apply_entry_slippage_def Let_def)

lemma entry_slippage_adverse:
  assumes "is_double p" and "0 \<le> b"
  shows "0 < p \<Longrightarrow> p \<le> apply_entry_slippage p LONG b"
    and "0 < p \<Longrightarrow> d \<noteq> LONG \<Longrightarrow> apply_entry_slippage p d b \<le> p"
proof -
  have pct: "0 \<le> fdiv b 10000" using assms(2) by (simp add: fdiv_nonneg)
  have one: "1 \<le> fadd 1 (fdiv b 10000)" "fsub 1 (fdiv b 10000) \<le> 1"
    using pct fadd_ge [of 1] fsub_le [of 1] by (simp_all add: is_double_def)
  show "p \<le> apply_entry_slippage p LONG b" if "0 < p"
    using rnd_mono [of p "p * fadd 1 (fdiv b 10000)"] that one(1) assms(1)
    by (simp add: apply_entry_slippage_def fmul_def is_double_def Let_def)
  show "apply_entry_slippage p d b \<le> p" if "0 < p" "d \<noteq> LONG"
    using rnd_mono [of "p * fsub 1 (fdiv b 10000)" p] that one(2) assms(1)
    by (simp add: apply_entry_slippage_def fmul_def is_double_def Let_def)
qed

lemma sl_distance_clamped:
  assumes "0 < atr" "0 < price" and "lo \<le> hi"
  shows "fmul lo price \<le> compute_sl_distance atr price m hi lo"
    and "compute_sl_distance atr price m hi lo \<le> fmul hi price"
proof -
  have "lo * price \<le> hi * price" using assms by simp
  then have "fmul lo price \<le> fmul hi price" unfolding fmul_def by (rule rnd_mono)
  then show "fmul lo price \<le> compute_sl_distance atr price m hi lo"
    and "compute_sl_distance atr price m hi lo \<le> fmul hi price"
    using assms by (auto simp: compute_sl_distance_def Let_def)
qed

lemma sl_distance_nonneg:
  assumes "0 \<le> m" and "0 \<le> hi"
  shows "0 \<le> compute_sl_distance atr price m hi lo"
proof (cases "atr \<le> 0 \<or> price \<le> 0")
  case True
  then show ?thesis by (simp add: compute_sl_distance_def)
next
  case False
  then have "0 \<le> fmul m atr" "0 \<le> fmul hi price" using assms by (simp_all add: fmul_nonneg)
  then have "0 \<le> min (fmul m atr) (fmul hi price)" by simp
  also have "\<dots> \<le> max (min (fmul m atr) (fmul hi price)) (fmul lo price)" by (rule max.cobounded1)
  finally show ?thesis using False by (simp add: compute_sl_distance_def Let_def)
qed

lemma bracket_long:
  assumes "is_double e" "0 \<le> d" "0 \<le> k"
  shows "compute_sl_price e d LONG \<le> e" and "e \<le> compute_tp_price e d k LONG"
  using assms by (simp_all add: compute_sl_price_def compute_tp_price_def fsub_le fadd_ge fmul_nonneg)

lemma bracket_short:
  assumes "is_double e" "0 \<le> d" "0 \<le> k" "dir \<noteq> LONG"
  shows "e \<le> compute_sl_price e d dir" and "compute_tp_price e d k dir \<le> e"
  using assms by (simp_all add: compute_sl_price_def compute_tp_price_def fsub_le fadd_ge fmul_nonneg)

text \<open>A stop exit never gains and a target exit never loses, before fees.\<close>

lemma pnl_gross_sign_long:
  assumes "0 \<le> q"
  shows "x \<le> e \<Longrightarrow> compute_pnl_gross e x q LONG \<le> 0" and "e \<le> x \<Longrightarrow> 0 \<le> compute_pnl_gross e x q LONG"
proof -
  show "0 \<le> compute_pnl_gross e x q LONG" if "e \<le> x"
    using that assms by (simp add: compute_pnl_gross_def fmul_nonneg fsub_nonneg)
  show "compute_pnl_gross e x q LONG \<le> 0" if "x \<le> e"
  proof -
    have "0 \<le> fmul (fsub e x) q" using that assms by (simp add: fmul_nonneg fsub_nonneg)
    moreover have "fmul (fsub x e) q = - fmul (fsub e x) q" by (simp add: fsub_minus [of x e] fmul_minus_left)
    ultimately show ?thesis by (simp add: compute_pnl_gross_def)
  qed
qed

lemma pnl_gross_mirror: "d \<noteq> LONG \<Longrightarrow> compute_pnl_gross e x q d = - compute_pnl_gross e x q LONG"
  by (simp add: compute_pnl_gross_def fsub_minus [of e x] fmul_minus_left)

lemma funding_mirror: "d \<noteq> LONG \<Longrightarrow> compute_funding_delta r n d = - compute_funding_delta r n LONG"
  by (simp add: compute_funding_delta_def Let_def)

lemma true_range_nonneg: "0 \<le> true_range p c"
  by (simp add: true_range_def le_max_iff_disj)

lemma atr_nonneg: "compute_atr cs p = Some a \<Longrightarrow> 0 \<le> a"
  by (auto simp: compute_atr_def Let_def true_range_nonneg split: if_splits
      intro!: fdiv_nonneg fsum_nonneg)

lemma atr_None_iff: "compute_atr cs p = None \<longleftrightarrow> p \<le> 0 \<or> int (length cs) \<le> p"
  by (auto simp: compute_atr_def Let_def)

subsection \<open>The funding schedule in closed form\<close>

lemma next_funding_closed: "next_funding_ts_ms t = ((t + 1) div FUNDING_MS + 1) * FUNDING_MS"
proof -
  define u where "u = t + 1"
  define d r where "d = u div 86400000" and "r = u mod 86400000"
  have u: "u = d * 86400000 + r" and r: "0 \<le> r" "r < 86400000"
    by (simp_all add: d_def r_def)
  have k: "u div 28800000 = 3 * d + r div 28800000" unfolding u by (simp add: div_add1_eq [of "d * 86400000"])
  have h: "\<not> r div 3600000 < 0" "(r div 3600000 < 8) = (r < 28800000)" "(r div 3600000 < 16) = (r < 57600000)"
    using r by auto
  have q: "r div 28800000 = (if r < 28800000 then 0 else if r < 57600000 then 1 else 2)"
    using r by auto
  have "next_funding_ts_ms t = (if r < 28800000 then d * 86400000 + 28800000
      else if r < 57600000 then d * 86400000 + 57600000 else (d + 1) * 86400000)"
    unfolding next_funding_ts_ms_def HOUR_MS_def DAY_MS_def Let_def
    by (simp only: u_def [symmetric] d_def [symmetric] r_def [symmetric] first_hour_after.simps h if_False)
      simp
  also have "\<dots> = (u div 28800000 + 1) * 28800000" by (simp add: k q)
  finally show ?thesis by (simp add: u_def FUNDING_MS_def)
qed

lemma funding_bounds:
  fixes u :: int
  shows "u < (u div FUNDING_MS + 1) * FUNDING_MS" and "(u div FUNDING_MS + 1) * FUNDING_MS \<le> u + FUNDING_MS"
proof -
  have e: "u div 28800000 * 28800000 + u mod 28800000 = u" by (rule div_mult_mod_eq)
  have m: "0 \<le> u mod 28800000" "u mod 28800000 < 28800000" by simp_all
  show "u < (u div FUNDING_MS + 1) * FUNDING_MS" using e m by (simp add: FUNDING_MS_def algebra_simps)
  show "(u div FUNDING_MS + 1) * FUNDING_MS \<le> u + FUNDING_MS" using e m by (simp add: FUNDING_MS_def algebra_simps)
qed

lemma next_funding_gt: "t + 1 < next_funding_ts_ms t"
  by (simp only: next_funding_closed funding_bounds)

lemma next_funding_le: "next_funding_ts_ms t \<le> t + 1 + FUNDING_MS"
  by (simp only: next_funding_closed funding_bounds)

lemma next_funding_of_boundary: "n mod FUNDING_MS = 0 \<Longrightarrow> next_funding_ts_ms (n + 1) = n + FUNDING_MS"
  by (auto simp: next_funding_closed FUNDING_MS_def mod_eq_0_iff_dvd elim!: dvdE)

lemma next_funding_mod [simp]: "next_funding_ts_ms t mod FUNDING_MS = 0"
  by (simp add: next_funding_closed)

end
