(* ===== verification/Paper_Manager.thy ===== *)
theory Paper_Manager
  imports Paper_Math
begin

text \<open>
  \<^verbatim>\<open>src/execution/paper_position_manager.py\<close>: the paper trading position manager. The state
  is the manager object together with the SQLite tables it writes as its own connection sees them.
  Each database write consumes one entry of \<open>db_faults\<close>: the statement fails before it has an
  effect (\<open>ExecFail\<close>), takes effect but its commit fails (\<open>CommitFail\<close>; no rollback follows in
  the code, so the row stays visible in the open transaction), or succeeds. An exhausted list
  means success. The wall clock is an argument and reads the same value throughout one handler.
\<close>

section \<open>Configuration, positions, trades\<close>

record paper_config =
  initial_equity :: rat
  risk_pct :: rat
  atr_period :: int
  sl_atr_multiplier :: rat
  tp_r_multiple :: rat
  max_sl_distance_pct :: rat
  min_sl_distance_pct :: rat
  entry_slippage_bps :: rat
  fee_taker :: rat
  fee_maker :: rat
  include_funding :: bool
  max_positions_per_symbol :: int
  max_positions_global :: int
  stale_price_ms :: int
  config_profile_tag :: string
  candle_cap_min :: int

record ohlcv_sample =
  o_symbol :: string
  o_sec :: int
  o_ts_ms :: int
  o_open :: rat
  o_high :: rat
  o_low :: rat
  o_close :: pyfloat

record paper_position =
  p_id :: string
  p_symbol :: string
  p_direction :: string
  p_entry_ts_ms :: int
  p_entry_bucket_sec :: int
  p_entry_price :: rat
  p_qty :: rat
  p_sl_price :: rat
  p_tp_price :: rat
  p_entry_fee :: rat
  p_funding_paid :: rat

record trade_result =
  t_position_id :: string
  t_symbol :: string
  t_direction :: string
  t_entry_ts_ms :: int
  t_entry_price :: rat
  t_qty :: rat
  t_sl_price :: rat
  t_tp_price :: rat
  t_exit_ts_ms :: int
  t_exit_price :: rat
  t_exit_reason :: string
  t_fee_paid :: rat
  t_funding_paid :: rat
  t_pnl_gross :: rat
  t_pnl_net :: rat
  t_r_multiple :: rat
  t_entry_bucket_sec :: int

section \<open>The database\<close>

record exit_columns =
  x_exit_ts_ms :: int
  x_exit_price :: rat
  x_exit_reason :: string
  x_exit_fee :: rat
  x_pnl_gross :: rat
  x_pnl_net :: rat
  x_r_multiple :: rat
  x_closed_at_ms :: int

text \<open>A row of \<^verbatim>\<open>paper_positions\<close>: the position columns as inserted, the configuration columns, and
  the exit columns, \<open>None\<close> while the status is \<^verbatim>\<open>OPEN\<close>.\<close>

record position_row =
  r_pos :: paper_position
  r_status :: string
  r_config_profile_tag :: string
  r_risk_pct :: rat
  r_max_positions_global :: int
  r_max_positions_per_symbol :: int
  r_initial_equity :: rat
  r_entry_slippage_bps :: rat
  r_created_at_ms :: int
  r_exit :: "exit_columns option"

record event_row =
  e_position_id :: "string option"
  e_symbol :: string
  e_event_type :: string
  e_reason :: "string option"
  e_source_seq :: "int option"
  e_ts_ms :: int
  e_created_at_ms :: int

datatype db_outcome = DbOk | ExecFail | CommitFail

record paper_db =
  db_rows :: "position_row list"
  db_events :: "event_row list"
  db_faults :: "db_outcome list"

fun next_outcome :: "db_outcome list \<Rightarrow> db_outcome \<times> db_outcome list" where
  "next_outcome [] = (DbOk, [])"
| "next_outcome (f # fs) = (f, fs)"

text \<open>\<open>db_write db f\<close> runs one statement with effect \<open>f\<close> and its commit; the result says whether
  the code's \<^verbatim>\<open>try\<close> block ran to its end.\<close>

definition db_write :: "paper_db \<Rightarrow> (paper_db \<Rightarrow> paper_db) \<Rightarrow> paper_db \<times> bool" where
  "db_write db f =
     (let (out, rest) = next_outcome (db_faults db); db' = db\<lparr>db_faults := rest\<rparr>
      in case out of DbOk \<Rightarrow> (f db', True)
                   | ExecFail \<Rightarrow> (db', False)
                   | CommitFail \<Rightarrow> (f db', False))"

definition STATUS_OPEN :: string where "STATUS_OPEN = ''OPEN''"
definition STATUS_CLOSED :: string where "STATUS_CLOSED = ''CLOSED''"

text \<open>\<^verbatim>\<open>INSERT OR IGNORE\<close> on the primary key \<^verbatim>\<open>position_id\<close>.\<close>

definition insert_position_row :: "position_row \<Rightarrow> paper_db \<Rightarrow> paper_db" where
  "insert_position_row r db =
     (if \<exists>r'\<in>set (db_rows db). p_id (r_pos r') = p_id (r_pos r) then db
      else db\<lparr>db_rows := db_rows db @ [r]\<rparr>)"

text \<open>\<^verbatim>\<open>UPDATE \<dots> WHERE position_id=? AND status='OPEN'\<close>.\<close>

definition close_position_rows :: "string \<Rightarrow> exit_columns \<Rightarrow> paper_db \<Rightarrow> paper_db" where
  "close_position_rows pid x db =
     db\<lparr>db_rows := map (\<lambda>r. if p_id (r_pos r) = pid \<and> r_status r = STATUS_OPEN
                             then r\<lparr>r_status := STATUS_CLOSED, r_exit := Some x\<rparr> else r) (db_rows db)\<rparr>"

text \<open>\<^verbatim>\<open>INSERT OR IGNORE\<close> under \<^verbatim>\<open>UNIQUE(position_id, event_type, source_seq)\<close>, where a NULL column
  never equals another.\<close>

definition same_event_key :: "event_row \<Rightarrow> event_row \<Rightarrow> bool" where
  "same_event_key a b \<longleftrightarrow> e_position_id a \<noteq> None \<and> e_position_id a = e_position_id b \<and>
     e_event_type a = e_event_type b \<and> e_source_seq a \<noteq> None \<and> e_source_seq a = e_source_seq b"

definition insert_event_row :: "event_row \<Rightarrow> paper_db \<Rightarrow> paper_db" where
  "insert_event_row e db =
     (if \<exists>e'\<in>set (db_events db). same_event_key e e' then db
      else db\<lparr>db_events := db_events db @ [e]\<rparr>)"

section \<open>The manager\<close>

record paper_state =
  positions :: "(string, paper_position) dict"
  candles :: "string \<rightharpoonup> candle list"
  active :: "(string, candle) dict"
  last_price :: "string \<rightharpoonup> rat"
  last_price_mono_ms :: "string \<rightharpoonup> int"
  last_funding_rate :: "string \<rightharpoonup> rat"
  next_funding_ms :: "string \<rightharpoonup> int"
  realized_equity :: rat
  closed_trades :: "trade_result list"
  last_rejection_reason :: "string option"
  db :: paper_db

definition init_state :: "paper_config \<Rightarrow> paper_db \<Rightarrow> paper_state" where
  "init_state cfg d =
     \<lparr>positions = [], candles = Map.empty, active = [], last_price = Map.empty,
      last_price_mono_ms = Map.empty, last_funding_rate = Map.empty, next_funding_ms = Map.empty,
      realized_equity = initial_equity cfg, closed_trades = [], last_rejection_reason = None, db = d\<rparr>"

definition candle_cap :: "paper_config \<Rightarrow> nat" where
  "candle_cap cfg = nat (max (atr_period cfg * 4) (candle_cap_min cfg))"

subsection \<open>Accessors\<close>

definition position_upnl :: "paper_position \<Rightarrow> rat \<Rightarrow> rat" where
  "position_upnl pos px =
     (if p_direction pos = LONG then fmul (fsub px (p_entry_price pos)) (p_qty pos)
      else fmul (fsub (p_entry_price pos) px) (p_qty pos))"

fun mtm_fold :: "(string \<rightharpoonup> rat) \<Rightarrow> (string, paper_position) dict \<Rightarrow> rat \<Rightarrow> rat" where
  "mtm_fold px [] eq = eq"
| "mtm_fold px ((symbol, pos) # ps) eq =
     (case px symbol of
        None \<Rightarrow> mtm_fold px ps eq
      | Some p \<Rightarrow> mtm_fold px ps (fadd eq (fsub (position_upnl pos p) (p_funding_paid pos))))"

definition equity :: "paper_state \<Rightarrow> rat" where
  "equity s = mtm_fold (last_price s) (positions s) (realized_equity s)"

definition get_open_position_qty :: "paper_state \<Rightarrow> string \<Rightarrow> rat" where
  "get_open_position_qty s symbol =
     (case dget (positions s) symbol of Some pos \<Rightarrow> p_qty pos | None \<Rightarrow> 0)"

definition get_open_position_count :: "paper_state \<Rightarrow> nat" where
  "get_open_position_count s = length (positions s)"

subsection \<open>Database writes\<close>

definition write_position_open :: "paper_config \<Rightarrow> int \<Rightarrow> paper_position \<Rightarrow> paper_state \<Rightarrow> paper_state \<times> bool" where
  "write_position_open cfg wall pos s =
     (let row = \<lparr>r_pos = pos, r_status = STATUS_OPEN, r_config_profile_tag = config_profile_tag cfg,
                 r_risk_pct = risk_pct cfg, r_max_positions_global = max_positions_global cfg,
                 r_max_positions_per_symbol = max_positions_per_symbol cfg,
                 r_initial_equity = initial_equity cfg, r_entry_slippage_bps = entry_slippage_bps cfg,
                 r_created_at_ms = wall, r_exit = None\<rparr>;
          (d, ok) = db_write (db s) (insert_position_row row)
      in (s\<lparr>db := d\<rparr>, ok))"

definition write_position_close :: "int \<Rightarrow> trade_result \<Rightarrow> rat \<Rightarrow> paper_state \<Rightarrow> paper_state \<times> bool" where
  "write_position_close wall trade exit_fee s =
     (let x = \<lparr>x_exit_ts_ms = t_exit_ts_ms trade, x_exit_price = t_exit_price trade,
               x_exit_reason = t_exit_reason trade, x_exit_fee = exit_fee,
               x_pnl_gross = t_pnl_gross trade, x_pnl_net = t_pnl_net trade,
               x_r_multiple = t_r_multiple trade, x_closed_at_ms = wall\<rparr>;
          (d, ok) = db_write (db s) (close_position_rows (t_position_id trade) x)
      in (s\<lparr>db := d\<rparr>, ok))"

definition write_event ::
  "int \<Rightarrow> string option \<Rightarrow> string \<Rightarrow> string \<Rightarrow> string option \<Rightarrow> int option \<Rightarrow> int \<Rightarrow> paper_state \<Rightarrow> paper_state" where
  "write_event wall pid symbol event_type reason source_seq ts_ms s =
     (let row = \<lparr>e_position_id = pid, e_symbol = symbol, e_event_type = event_type, e_reason = reason,
                 e_source_seq = source_seq, e_ts_ms = ts_ms, e_created_at_ms = wall\<rparr>
      in s\<lparr>db := fst (db_write (db s) (insert_event_row row))\<rparr>)"

subsection \<open>Startup recovery\<close>

definition load_row :: "(string, paper_position) dict \<Rightarrow> position_row \<Rightarrow> (string, paper_position) dict" where
  "load_row ps r = dset ps (p_symbol (r_pos r)) (r_pos r)"

definition open_rows :: "paper_db \<Rightarrow> position_row list" where
  "open_rows d = filter (\<lambda>r. r_status r = STATUS_OPEN) (db_rows d)"

text \<open>The columns are typed in the model, so the per-row conversions cannot fail; \<open>read_ok\<close> says
  whether the SELECT itself succeeds.\<close>

definition on_startup :: "bool \<Rightarrow> paper_state \<Rightarrow> paper_state \<times> nat" where
  "on_startup read_ok s =
     (if \<not> read_ok then (s, 0)
      else let rows = open_rows (db s)
           in (s\<lparr>positions := foldl load_row (positions s) rows\<rparr>, length rows))"

subsection \<open>Exits\<close>

definition build_trade :: "paper_config \<Rightarrow> paper_position \<Rightarrow> string \<Rightarrow> int \<Rightarrow> rat \<Rightarrow> string \<Rightarrow> trade_result" where
  "build_trade cfg pos symbol ts_ms exit_price reason =
     (let pnl_gross = compute_pnl_gross (p_entry_price pos) exit_price (p_qty pos) (p_direction pos);
          exit_fee = compute_exit_fee exit_price (p_qty pos) (fee_taker cfg) (fee_maker cfg) reason;
          total_fee = fadd (p_entry_fee pos) exit_fee;
          pnl_net = fsub (fsub pnl_gross total_fee) (p_funding_paid pos);
          r_mult = compute_r_multiple (p_entry_price pos) exit_price (p_sl_price pos) (p_direction pos)
      in \<lparr>t_position_id = p_id pos, t_symbol = symbol, t_direction = p_direction pos,
          t_entry_ts_ms = p_entry_ts_ms pos, t_entry_price = p_entry_price pos, t_qty = p_qty pos,
          t_sl_price = p_sl_price pos, t_tp_price = p_tp_price pos, t_exit_ts_ms = ts_ms,
          t_exit_price = exit_price, t_exit_reason = reason, t_fee_paid = total_fee,
          t_funding_paid = p_funding_paid pos, t_pnl_gross = pnl_gross, t_pnl_net = pnl_net,
          t_r_multiple = r_mult, t_entry_bucket_sec = p_entry_bucket_sec pos\<rparr>)"

definition close_position :: "paper_config \<Rightarrow> int \<Rightarrow> string \<Rightarrow> int \<Rightarrow> rat \<Rightarrow> string \<Rightarrow> paper_state \<Rightarrow> paper_state" where
  "close_position cfg wall symbol ts_ms exit_price reason s =
     (case dget (positions s) symbol of
        None \<Rightarrow> s
      | Some pos \<Rightarrow>
          (let trade = build_trade cfg pos symbol ts_ms exit_price reason;
               exit_fee = compute_exit_fee exit_price (p_qty pos) (fee_taker cfg) (fee_maker cfg) reason;
               (s1, ok) = write_position_close wall trade exit_fee s
           in if \<not> ok then s1
              else let s2 = s1\<lparr>positions := ddel (positions s1) symbol,
                               closed_trades := closed_trades s1 @ [trade],
                               realized_equity := fadd (realized_equity s1) (t_pnl_net trade)\<rparr>
                   in write_event wall (Some (t_position_id trade)) symbol ''EXIT'' (Some reason)
                        (Some (ts_ms div 1000)) ts_ms s2))"

definition check_exits_on_candle :: "paper_config \<Rightarrow> int \<Rightarrow> candle \<Rightarrow> string \<Rightarrow> paper_state \<Rightarrow> paper_state" where
  "check_exits_on_candle cfg wall c symbol s =
     (case dget (positions s) symbol of
        None \<Rightarrow> s
      | Some pos \<Rightarrow>
          if c_sec c \<le> p_entry_bucket_sec pos then s
          else if p_direction pos = LONG then
            (let hit_sl = c_low c \<le> p_sl_price pos; hit_tp = p_tp_price pos \<le> c_high c
             in if hit_sl then close_position cfg wall symbol (c_ts_ms c) (p_sl_price pos) SL s
                else if hit_tp then close_position cfg wall symbol (c_ts_ms c) (p_tp_price pos) TP s
                else s)
          else
            (let hit_sl = p_sl_price pos \<le> c_high c; hit_tp = c_low c \<le> p_tp_price pos
             in if hit_sl then close_position cfg wall symbol (c_ts_ms c) (p_sl_price pos) SL s
                else if hit_tp then close_position cfg wall symbol (c_ts_ms c) (p_tp_price pos) TP s
                else s))"

definition finalize_active :: "paper_config \<Rightarrow> int \<Rightarrow> string \<Rightarrow> paper_state \<Rightarrow> paper_state" where
  "finalize_active cfg wall symbol s =
     (case dget (active s) symbol of
        None \<Rightarrow> s
      | Some b \<Rightarrow>
          (let s1 = s\<lparr>active := ddel (active s) symbol\<rparr>;
               dq = (case candles s1 symbol of None \<Rightarrow> [] | Some l \<Rightarrow> l);
               s2 = s1\<lparr>candles := (candles s1)(symbol \<mapsto> deque_append (candle_cap cfg) dq b)\<rparr>
           in check_exits_on_candle cfg wall b symbol s2))"

definition apply_funding :: "string \<Rightarrow> paper_state \<Rightarrow> paper_state" where
  "apply_funding symbol s =
     (case dget (positions s) symbol of
        None \<Rightarrow> s
      | Some pos \<Rightarrow>
          (let rate = (case last_funding_rate s symbol of Some r \<Rightarrow> r | None \<Rightarrow> 0);
               notional = fmul (p_entry_price pos) (p_qty pos);
               pos' = pos\<lparr>p_funding_paid :=
                 fadd (p_funding_paid pos) (compute_funding_delta rate notional (p_direction pos))\<rparr>
           in s\<lparr>positions := dset (positions s) symbol pos'\<rparr>))"

subsection \<open>Feeds\<close>

definition on_ws_tick :: "string \<Rightarrow> pyfloat option \<Rightarrow> int \<Rightarrow> paper_state \<Rightarrow> paper_state" where
  "on_ws_tick symbol price mono_ms s =
     (case price of
        Some (Fin p) \<Rightarrow>
          if p \<le> 0 then s
          else s\<lparr>last_price := (last_price s)(symbol \<mapsto> p),
                 last_price_mono_ms := (last_price_mono_ms s)(symbol \<mapsto> mono_ms)\<rparr>
      | _ \<Rightarrow> s)"

text \<open>\<^verbatim>\<open>float(funding_rate or 0.0)\<close>: a missing rate counts as zero.\<close>

definition on_ticker :: "string \<Rightarrow> rat option \<Rightarrow> paper_state \<Rightarrow> paper_state" where
  "on_ticker symbol funding_rate s =
     s\<lparr>last_funding_rate := (last_funding_rate s)(symbol \<mapsto> (case funding_rate of Some r \<Rightarrow> r | None \<Rightarrow> 0))\<rparr>"

definition CANDLE_SEC :: int where "CANDLE_SEC = 5"

definition new_bucket :: "int \<Rightarrow> ohlcv_sample \<Rightarrow> rat \<Rightarrow> candle" where
  "new_bucket bucket_sec ev close =
     \<lparr>c_sec = bucket_sec, c_ts_ms = bucket_sec * 1000, c_open = o_open ev, c_high = o_high ev,
      c_low = o_low ev, c_close = close\<rparr>"

definition merge_sample :: "candle \<Rightarrow> ohlcv_sample \<Rightarrow> rat \<Rightarrow> candle" where
  "merge_sample b ev close =
     b\<lparr>c_high := (if c_high b < o_high ev then o_high ev else c_high b),
       c_low := (if o_low ev < c_low b then o_low ev else c_low b),
       c_close := close\<rparr>"

definition candle_step :: "paper_config \<Rightarrow> int \<Rightarrow> ohlcv_sample \<Rightarrow> rat \<Rightarrow> paper_state \<Rightarrow> paper_state" where
  "candle_step cfg wall ev close s =
     (let symbol = o_symbol ev;
          bucket_sec = o_sec ev div CANDLE_SEC * CANDLE_SEC
      in case dget (active s) symbol of
           None \<Rightarrow> s\<lparr>active := dset (active s) symbol (new_bucket bucket_sec ev close)\<rparr>
         | Some b \<Rightarrow>
             if c_sec b < bucket_sec then
               (let s1 = finalize_active cfg wall symbol s
                in s1\<lparr>active := dset (active s1) symbol (new_bucket bucket_sec ev close)\<rparr>)
             else if bucket_sec = c_sec b then
               s\<lparr>active := dset (active s) symbol (merge_sample b ev close)\<rparr>
             else s)"

text \<open>The funding loop: each pass moves the symbol's next funding time at least two milliseconds
  forward, so it ends once that time is past the sample.\<close>

function funding_loop :: "bool \<Rightarrow> string \<Rightarrow> int \<Rightarrow> int \<Rightarrow> paper_state \<Rightarrow> paper_state \<times> int" where
  "funding_loop incl symbol ts_ms nf s =
     (if nf \<le> ts_ms
      then funding_loop incl symbol ts_ms (next_funding_ts_ms (nf + 1))
             (if incl then apply_funding symbol s else s)
      else (s, nf))"
  by pat_completeness auto
termination
proof (relation "measure (\<lambda>(incl, symbol, ts_ms, nf, s). nat (ts_ms + 1 - nf))", goal_cases)
  case (2 incl symbol ts_ms nf s)
  then show ?case using next_funding_gt [of "nf + 1"] by simp
qed simp

declare funding_loop.simps [simp del]

definition funding_step :: "paper_config \<Rightarrow> string \<Rightarrow> int \<Rightarrow> paper_state \<Rightarrow> paper_state" where
  "funding_step cfg symbol ts_ms s =
     (let nf = (case next_funding_ms s symbol of None \<Rightarrow> next_funding_ts_ms ts_ms | Some n \<Rightarrow> n);
          (s1, nf') = funding_loop (include_funding cfg) symbol ts_ms nf s
      in s1\<lparr>next_funding_ms := (next_funding_ms s1)(symbol \<mapsto> nf')\<rparr>)"

definition on_ohlcv :: "paper_config \<Rightarrow> int \<Rightarrow> int \<Rightarrow> ohlcv_sample \<Rightarrow> paper_state \<Rightarrow> paper_state" where
  "on_ohlcv cfg wall mono_now ev s =
     (case o_close ev of
        Fin close \<Rightarrow>
          if close \<le> 0 then s
          else let symbol = o_symbol ev;
                   s1 = candle_step cfg wall ev close s;
                   s2 = funding_step cfg symbol (o_ts_ms ev) s1
               in s2\<lparr>last_price := (last_price s2)(symbol \<mapsto> close),
                     last_price_mono_ms :=
                       (case last_price_mono_ms s2 symbol of
                          None \<Rightarrow> (last_price_mono_ms s2)(symbol \<mapsto> mono_now)
                        | Some _ \<Rightarrow> last_price_mono_ms s2)\<rparr>
      | _ \<Rightarrow> s)"

subsection \<open>Entry\<close>

definition set_rejection :: "string \<Rightarrow> paper_state \<Rightarrow> paper_state" where
  "set_rejection reason s = s\<lparr>last_rejection_reason := Some reason\<rparr>"

definition reject :: "int \<Rightarrow> string \<Rightarrow> int \<Rightarrow> string \<Rightarrow> paper_state \<Rightarrow> paper_state \<times> bool" where
  "reject wall symbol signal_ts_ms reason s =
     (write_event wall None symbol ''REJECT'' (Some reason) (Some signal_ts_ms) signal_ts_ms
        (set_rejection reason s), False)"

definition paper_position_id :: "string \<Rightarrow> int \<Rightarrow> string" where
  "paper_position_id symbol signal_ts_ms = ''paper-'' @ symbol @ ''-'' @ str_of_int signal_ts_ms"

definition build_position :: "paper_config \<Rightarrow> string \<Rightarrow> string \<Rightarrow> int \<Rightarrow> rat \<Rightarrow> rat \<Rightarrow> rat \<Rightarrow> paper_position" where
  "build_position cfg symbol direction signal_ts_ms entry_fill sl_distance qty =
     \<lparr>p_id = paper_position_id symbol signal_ts_ms, p_symbol = symbol, p_direction = direction,
      p_entry_ts_ms = signal_ts_ms,
      p_entry_bucket_sec = signal_ts_ms div 1000 div CANDLE_SEC * CANDLE_SEC,
      p_entry_price = entry_fill, p_qty = qty,
      p_sl_price = compute_sl_price entry_fill sl_distance direction,
      p_tp_price = compute_tp_price entry_fill sl_distance (tp_r_multiple cfg) direction,
      p_entry_fee = compute_entry_fee entry_fill qty (fee_taker cfg), p_funding_paid = 0\<rparr>"

text \<open>The part of \<^verbatim>\<open>on_entry\<close> from the sizing on, once slippage and stop distance are known.\<close>

definition open_sized :: "paper_config \<Rightarrow> int \<Rightarrow> string \<Rightarrow> string \<Rightarrow> int \<Rightarrow> rat \<Rightarrow> rat \<Rightarrow> paper_state \<Rightarrow> paper_state \<times> bool" where
  "open_sized cfg wall symbol direction signal_ts_ms entry_fill sl_distance s =
     (let qty = compute_qty (equity s) (risk_pct cfg) sl_distance
      in if qty \<le> 0 then reject wall symbol signal_ts_ms ''invalid_qty'' s
         else let pos = build_position cfg symbol direction signal_ts_ms entry_fill sl_distance qty;
                  (s1, ok) = write_position_open cfg wall pos s
              in if \<not> ok then (set_rejection ''db_write_failed'' s1, False)
                 else (write_event wall (Some (p_id pos)) symbol ''ENTRY'' None (Some signal_ts_ms) signal_ts_ms
                         (s1\<lparr>positions := dset (positions s1) symbol pos\<rparr>), True))"

definition on_entry ::
  "paper_config \<Rightarrow> int \<Rightarrow> string \<Rightarrow> string \<Rightarrow> int \<Rightarrow> pyfloat option \<Rightarrow> int \<Rightarrow> paper_state \<Rightarrow> paper_state \<times> bool" where
  "on_entry cfg wall symbol direction signal_ts_ms price now_mono s0 =
     (let s = s0\<lparr>last_rejection_reason := None\<rparr>; rej = reject wall symbol signal_ts_ms
      in case last_price_mono_ms s symbol of
           None \<Rightarrow> rej ''stale_price'' s
         | Some last_mono \<Rightarrow>
           if stale_price_ms cfg < now_mono - last_mono then rej ''stale_price'' s
           else case Option.bind price finite_value of
             None \<Rightarrow> rej ''invalid_price'' s
           | Some px \<Rightarrow>
             if px \<le> 0 then rej ''invalid_price'' s
             else if dget (positions s) symbol \<noteq> None then rej ''per_symbol_max_position'' s
             else if max_positions_global cfg \<le> int (length (positions s)) then rej ''global_limit_full'' s
             else if max_positions_per_symbol cfg < 1 then rej ''per_symbol_max_position'' s
             else case compute_atr (case candles s symbol of None \<Rightarrow> [] | Some l \<Rightarrow> l) (atr_period cfg) of
               None \<Rightarrow> rej ''atr_not_ready'' s
             | Some atr \<Rightarrow>
               if atr \<le> 0 then rej ''atr_not_ready'' s
               else let entry_fill = apply_entry_slippage px direction (entry_slippage_bps cfg)
                    in if entry_fill \<le> 0 then (set_rejection ''invalid_price'' s, False)
                       else let sl_distance = compute_sl_distance atr entry_fill (sl_atr_multiplier cfg)
                                                (max_sl_distance_pct cfg) (min_sl_distance_pct cfg)
                            in if sl_distance \<le> 0 then rej ''invalid_sl_distance'' s
                               else open_sized cfg wall symbol direction signal_ts_ms entry_fill sl_distance s)"

subsection \<open>Finalization\<close>

definition final_price :: "(string \<rightharpoonup> rat) \<Rightarrow> string \<Rightarrow> paper_state \<Rightarrow> rat" where
  "final_price last_prices symbol s =
     (let px = (case last_prices symbol of Some p \<Rightarrow> if p \<le> 0 then last_price s symbol else Some p
                                          | None \<Rightarrow> last_price s symbol)
      in case px of Some p \<Rightarrow> p
                  | None \<Rightarrow> (case dget (positions s) symbol of Some pos \<Rightarrow> p_entry_price pos | None \<Rightarrow> 0))"

definition finalize :: "paper_config \<Rightarrow> int \<Rightarrow> int \<Rightarrow> (string \<rightharpoonup> rat) \<Rightarrow> paper_state \<Rightarrow> paper_state" where
  "finalize cfg wall last_ts_ms last_prices s =
     (let s1 = foldl (\<lambda>s symbol. finalize_active cfg wall symbol s) s (keys (active s))
      in foldl (\<lambda>s symbol. close_position cfg wall symbol last_ts_ms (final_price last_prices symbol s)
                             END_OF_BACKTEST s) s1 (keys (positions s1)))"

end
