(* ===== verification/Paper_Invariants.thy ===== *)
theory Paper_Invariants
  imports Paper_Manager
begin

text \<open>
  Runs of the paper manager of \<open>Paper_Manager\<close> as sequences of events, and the invariants every
  reachable state satisfies: one locale lists what has to be shown of a predicate, and each invariant
  is an interpretation of it (positions keyed by symbol and limited in number, realized equity equal
  to the booked trades, stop and target on the right sides of the entry, database rows mirroring the
  positions in memory).
\<close>

section \<open>What the database writes leave alone\<close>

lemma write_event_frame [frame_simps]:
  "positions (write_event w p sy t r q ts s) = positions s"
  "candles (write_event w p sy t r q ts s) = candles s"
  "active (write_event w p sy t r q ts s) = active s"
  "last_price (write_event w p sy t r q ts s) = last_price s"
  "last_price_mono_ms (write_event w p sy t r q ts s) = last_price_mono_ms s"
  "last_funding_rate (write_event w p sy t r q ts s) = last_funding_rate s"
  "next_funding_ms (write_event w p sy t r q ts s) = next_funding_ms s"
  "realized_equity (write_event w p sy t r q ts s) = realized_equity s"
  "closed_trades (write_event w p sy t r q ts s) = closed_trades s"
  by (simp_all add: write_event_def Let_def)

lemma db_rows_insert_event [simp]: "db_rows (insert_event_row e d) = db_rows d"
  by (simp add: insert_event_row_def)

lemma db_faults_effects [simp]:
  "db_faults (insert_event_row e d) = db_faults d"
  "db_faults (insert_position_row r d) = db_faults d"
  "db_faults (close_position_rows i x d) = db_faults d"
  by (simp_all add: insert_event_row_def insert_position_row_def close_position_rows_def)

lemma set_faults_write:
  "(\<And>d. db_faults (f d) = db_faults d) \<Longrightarrow> set (db_faults (fst (db_write d f))) \<subseteq> set (db_faults d)"
  by (cases "db_faults d") (auto simp: db_write_def Let_def split: db_outcome.splits)

lemma db_rows_write_event [simp]: "db_rows (db (write_event w p sy t r q ts s)) = db_rows (db s)"
  by (auto simp: write_event_def db_write_def Let_def split: db_outcome.splits prod.splits)

lemma db_faults_write_event: "set (db_faults (db (write_event w p sy t r q ts s))) \<subseteq> set (db_faults (db s))"
  by (simp add: write_event_def Let_def set_faults_write)

lemma reject_frame [frame_simps]:
  "positions (fst (reject w sy ts r s)) = positions s"
  "candles (fst (reject w sy ts r s)) = candles s"
  "active (fst (reject w sy ts r s)) = active s"
  "last_price (fst (reject w sy ts r s)) = last_price s"
  "last_price_mono_ms (fst (reject w sy ts r s)) = last_price_mono_ms s"
  "realized_equity (fst (reject w sy ts r s)) = realized_equity s"
  "closed_trades (fst (reject w sy ts r s)) = closed_trades s"
  "db_rows (db (fst (reject w sy ts r s))) = db_rows (db s)"
  "snd (reject w sy ts r s) = False"
  by (simp_all add: reject_def set_rejection_def frame_simps)

lemma last_rejection_write_event [frame_simps]:
  "last_rejection_reason (write_event w p sy t r q ts s) = last_rejection_reason s"
  by (simp add: write_event_def Let_def)

lemma reject_reason [frame_simps]: "last_rejection_reason (fst (reject w sy ts r s)) = Some r"
  by (simp add: reject_def set_rejection_def frame_simps)

text \<open>The three outcomes of closing a position.\<close>

lemma close_position_cases [consumes 0, case_names absent failed closed]:
  obtains
    (absent) "dget (positions s) symbol = None" "close_position cfg wall symbol ts px reason s = s"
  | (failed) pos x d where "dget (positions s) symbol = Some pos"
      "db_write (db s) (close_position_rows (p_id pos) x) = (d, False)"
      "close_position cfg wall symbol ts px reason s = s\<lparr>db := d\<rparr>"
  | (closed) pos x d tr where "dget (positions s) symbol = Some pos"
      "db_write (db s) (close_position_rows (p_id pos) x) = (d, True)"
      "tr = build_trade cfg pos symbol ts px reason"
      "close_position cfg wall symbol ts px reason s =
         write_event wall (Some (p_id pos)) symbol ''EXIT'' (Some reason) (Some (ts div 1000)) ts
           (s\<lparr>db := d, positions := ddel (positions s) symbol, closed_trades := closed_trades s @ [tr],
              realized_equity := fadd (realized_equity s) (t_pnl_net tr)\<rparr>)"
proof (cases "dget (positions s) symbol")
  case None
  then show ?thesis by (intro absent) (simp_all add: close_position_def)
next
  case (Some pos)
  define tr where "tr = build_trade cfg pos symbol ts px reason"
  define fee where "fee = compute_exit_fee px (p_qty pos) (fee_taker cfg) (fee_maker cfg) reason"
  define x where "x = \<lparr>x_exit_ts_ms = t_exit_ts_ms tr, x_exit_price = t_exit_price tr,
               x_exit_reason = t_exit_reason tr, x_exit_fee = fee,
               x_pnl_gross = t_pnl_gross tr, x_pnl_net = t_pnl_net tr,
               x_r_multiple = t_r_multiple tr, x_closed_at_ms = wall\<rparr>"
  obtain d ok where w: "db_write (db s) (close_position_rows (p_id pos) x) = (d, ok)"
    by (cases "db_write (db s) (close_position_rows (p_id pos) x)")
  have id: "t_position_id tr = p_id pos" by (simp add: tr_def build_trade_def Let_def)
  have wc: "write_position_close wall tr fee s = (s\<lparr>db := d\<rparr>, ok)"
    using w by (simp add: write_position_close_def Let_def id x_def)
  show ?thesis
  proof (cases ok)
    case True
    show ?thesis
      by (rule closed [OF Some, of x d tr])
        (use w True wc in \<open>simp_all add: close_position_def Some tr_def [symmetric] fee_def [symmetric] Let_def id\<close>)
  next
    case False
    show ?thesis
      by (rule failed [OF Some, of x d])
        (use w False wc in \<open>simp_all add: close_position_def Some tr_def [symmetric] fee_def [symmetric] Let_def\<close>)
  qed
qed

section \<open>The manager's events and runs\<close>

datatype paper_event =
    WsTick string "pyfloat option" int
  | Ticker string "rat option"
  | Ohlcv int int ohlcv_sample
  | Entry int string string int "pyfloat option" int
  | Finalize int int "string \<rightharpoonup> rat"

fun paper_step :: "paper_config \<Rightarrow> paper_event \<Rightarrow> paper_state \<Rightarrow> paper_state" where
  "paper_step cfg (WsTick symbol price mono_ms) s = on_ws_tick symbol price mono_ms s"
| "paper_step cfg (Ticker symbol rate) s = on_ticker symbol rate s"
| "paper_step cfg (Ohlcv wall mono_now ev) s = on_ohlcv cfg wall mono_now ev s"
| "paper_step cfg (Entry wall symbol direction ts price now_mono) s =
     fst (on_entry cfg wall symbol direction ts price now_mono s)"
| "paper_step cfg (Finalize wall ts prices) s = finalize cfg wall ts prices s"

fun paper_run :: "paper_config \<Rightarrow> paper_event list \<Rightarrow> paper_state \<Rightarrow> paper_state" where
  "paper_run cfg [] s = s"
| "paper_run cfg (e # es) s = paper_run cfg es (paper_step cfg e s)"

inductive reachable :: "paper_config \<Rightarrow> paper_state \<Rightarrow> paper_state \<Rightarrow> bool" for cfg s0 where
  start: "reachable cfg s0 s0"
| step: "reachable cfg s0 s \<Longrightarrow> reachable cfg s0 (paper_step cfg e s)"

lemma reachable_run: "reachable cfg s0 s \<Longrightarrow> reachable cfg s0 (paper_run cfg es s)"
  by (induction es arbitrary: s) (auto intro: reachable.step)

text \<open>
  An entry is fresh when its position id is not yet in the table: a repeated one is swallowed by
  \<^verbatim>\<open>INSERT OR IGNORE\<close>. A run whose events are admitted where they happen, and a run of fresh events.
\<close>

definition fresh_id :: "string \<Rightarrow> int \<Rightarrow> paper_state \<Rightarrow> bool" where
  "fresh_id symbol ts s \<longleftrightarrow> (\<forall>r\<in>set (db_rows (db s)). p_id (r_pos r) \<noteq> paper_position_id symbol ts)"

fun fresh_event :: "paper_event \<Rightarrow> paper_state \<Rightarrow> bool" where
  "fresh_event (Entry wall symbol direction ts price now_mono) s = fresh_id symbol ts s"
| "fresh_event _ s = True"

fun admitted_run :: "(paper_event \<Rightarrow> paper_state \<Rightarrow> bool) \<Rightarrow> paper_config \<Rightarrow> paper_event list \<Rightarrow> paper_state \<Rightarrow> bool" where
  "admitted_run admits cfg [] s = True"
| "admitted_run admits cfg (e # es) s = (admits e s \<and> admitted_run admits cfg es (paper_step cfg e s))"

section \<open>Invariants of the manager\<close>

text \<open>
  What has to be shown of a predicate so that every operation keeps it: it depends only on the
  positions, the trades, the realized equity and the position rows, and it survives the three
  elementary changes of those (a funding payment, a close, an open, each with the outcome of its
  database write). Which entries may open a position is part of the contract (\<open>admits\<close>): it depends
  on the position rows only.
\<close>

definition exit_price_ok :: "paper_position \<Rightarrow> rat \<Rightarrow> string \<Rightarrow> bool" where
  "exit_price_ok pos px reason \<longleftrightarrow> reason = SL \<and> px = p_sl_price pos \<or> reason = TP \<and> px = p_tp_price pos \<or>
     reason = END_OF_BACKTEST"

locale manager_invariant =
  fixes cfg :: paper_config and admits :: "paper_event \<Rightarrow> paper_state \<Rightarrow> bool" and P :: "paper_state \<Rightarrow> bool"
  assumes frame: "\<lbrakk>P s; positions s' = positions s; realized_equity s' = realized_equity s;
      closed_trades s' = closed_trades s; db_rows (db s') = db_rows (db s);
      set (db_faults (db s')) \<subseteq> set (db_faults (db s))\<rbrakk> \<Longrightarrow> P s'"
    and admits_frame: "db_rows (db s') = db_rows (db s) \<Longrightarrow> admits e s \<Longrightarrow> admits e s'"
    and funding: "P s \<Longrightarrow> P (apply_funding symbol s)"
    and close_failed: "\<lbrakk>P s; dget (positions s) symbol = Some pos;
      db_write (db s) (close_position_rows (p_id pos) x) = (d, False)\<rbrakk> \<Longrightarrow> P (s\<lparr>db := d\<rparr>)"
    and closed: "\<lbrakk>P s; dget (positions s) symbol = Some pos;
      db_write (db s) (close_position_rows (p_id pos) x) = (d, True);
      exit_price_ok pos px reason; tr = build_trade cfg pos symbol ts px reason\<rbrakk> \<Longrightarrow>
      P (s\<lparr>db := d, positions := ddel (positions s) symbol, closed_trades := closed_trades s @ [tr],
           realized_equity := fadd (realized_equity s) (t_pnl_net tr)\<rparr>)"
    and open_failed: "\<lbrakk>P s; r_pos row = pos; r_status row = STATUS_OPEN;
      db_write (db s) (insert_position_row row) = (d, False)\<rbrakk> \<Longrightarrow> P (s\<lparr>db := d\<rparr>)"
    and opened: "\<lbrakk>P s; dget (positions s) symbol = None;
      int (length (positions s)) < max_positions_global cfg; admits (Entry wall symbol direction ts price mono_ms) s;
      pos = build_position cfg symbol direction ts fill sld q; is_double fill; 0 < fill; 0 < sld; 0 < q;
      r_pos row = pos; r_status row = STATUS_OPEN;
      db_write (db s) (insert_position_row row) = (d, True)\<rbrakk> \<Longrightarrow>
      P (s\<lparr>db := d, positions := dset (positions s) symbol pos\<rparr>)"
begin

lemma write_event_keeps: "P s \<Longrightarrow> P (write_event w p sy t r q ts s)"
  by (rule frame [of s]) (simp_all add: frame_simps db_faults_write_event)

lemma reject_keeps: "P s \<Longrightarrow> P (fst (reject w sy ts r s))"
  unfolding reject_def fst_conv
  by (rule write_event_keeps, rule frame [of s]) (simp_all add: set_rejection_def)

lemma close_position_keeps:
  "P s \<Longrightarrow> (\<And>pos. dget (positions s) symbol = Some pos \<Longrightarrow> exit_price_ok pos px reason) \<Longrightarrow>
   P (close_position cfg wall symbol ts px reason s)"
  by (cases rule: close_position_cases [of s symbol cfg wall ts px reason])
    (simp_all add: close_failed write_event_keeps closed)

lemma check_exits_keeps: "P s \<Longrightarrow> P (check_exits_on_candle cfg wall c symbol s)"
  by (auto simp: check_exits_on_candle_def Let_def exit_price_ok_def split: option.split
      intro!: close_position_keeps)

lemma finalize_active_keeps: "P s \<Longrightarrow> P (finalize_active cfg wall symbol s)"
  unfolding finalize_active_def Let_def
  by (auto split: option.split intro!: check_exits_keeps frame [of s])

lemma active_update_keeps: "P s \<Longrightarrow> P (s\<lparr>active := a\<rparr>)"
  by (rule frame [of s]) simp_all

lemma candle_step_keeps: "P s \<Longrightarrow> P (candle_step cfg wall ev close s)"
  by (simp add: candle_step_def Let_def active_update_keeps finalize_active_keeps split: option.split)

lemma funding_loop_keeps: "P s \<Longrightarrow> P (fst (funding_loop incl symbol ts nf s))"
proof (induction incl symbol ts nf s rule: funding_loop.induct)
  case (1 incl symbol ts nf s)
  then show ?case by (subst funding_loop.simps) (simp add: funding)
qed

lemma funding_step_keeps: "P s \<Longrightarrow> P (funding_step cfg symbol ts s)"
proof -
  assume "P s"
  define nf where "nf = (case next_funding_ms s symbol of None \<Rightarrow> next_funding_ts_ms ts | Some n \<Rightarrow> n)"
  obtain s1 n where l: "funding_loop (include_funding cfg) symbol ts nf s = (s1, n)" by fastforce
  have "P s1" using funding_loop_keeps [OF \<open>P s\<close>, of "include_funding cfg" symbol ts nf] by (simp add: l)
  then show ?thesis
    by (simp add: funding_step_def nf_def [symmetric] Let_def l) (erule frame, simp_all)
qed

lemma on_ohlcv_keeps: "P s \<Longrightarrow> P (on_ohlcv cfg wall mono_now ev s)"
proof (cases "o_close ev")
  case (Fin close)
  assume "P s"
  then have "P (funding_step cfg (o_symbol ev) (o_ts_ms ev) (candle_step cfg wall ev close s))"
    by (intro funding_step_keeps candle_step_keeps)
  then show ?thesis using \<open>P s\<close> unfolding on_ohlcv_def Let_def Fin
    by (auto split: option.split intro: frame)
qed (simp_all add: on_ohlcv_def)

lemma on_ws_tick_keeps: "P s \<Longrightarrow> P (on_ws_tick symbol price mono_ms s)"
  unfolding on_ws_tick_def by (auto split: option.split pyfloat.split intro: frame [of s])

lemma on_ticker_keeps: "P s \<Longrightarrow> P (on_ticker symbol rate s)"
  unfolding on_ticker_def by (rule frame [of s]) simp_all

lemma finalize_keeps: "P s \<Longrightarrow> P (finalize cfg wall ts prices s)"
proof -
  have fa: "P (foldl (\<lambda>s symbol. finalize_active cfg wall symbol s) s ks)" if "P s" for ks s
    using that by (induction ks arbitrary: s) (auto intro: finalize_active_keeps)
  have fc: "P (foldl (\<lambda>s symbol. close_position cfg wall symbol ts (final_price prices symbol s) END_OF_BACKTEST s) s ks)"
    if "P s" for ks s
    using that
  proof (induction ks arbitrary: s)
    case Nil
    then show ?case by simp
  next
    case (Cons k ks)
    have "P (close_position cfg wall k ts (final_price prices k s) END_OF_BACKTEST s)"
      by (rule close_position_keeps [OF Cons.prems]) (simp add: exit_price_ok_def)
    then show ?case using Cons.IH by simp
  qed
  show "P s \<Longrightarrow> P (finalize cfg wall ts prices s)" unfolding finalize_def Let_def by (intro fc fa)
qed

lemma open_sized_keeps:
  assumes "P s" "dget (positions s) symbol = None" "int (length (positions s)) < max_positions_global cfg"
    and "admits (Entry wall symbol direction ts price mono_ms) s" "is_double fill" "0 < fill" "0 < sld"
  shows "P (fst (open_sized cfg wall symbol direction ts fill sld s))"
proof -
  define q where "q = compute_qty (equity s) (risk_pct cfg) sld"
  show ?thesis
  proof (cases "q \<le> 0")
    case True
    then show ?thesis using assms(1) by (simp add: open_sized_def q_def [symmetric] reject_keeps)
  next
    case False
    define pos where "pos = build_position cfg symbol direction ts fill sld q"
    define row where "row = \<lparr>r_pos = pos, r_status = STATUS_OPEN, r_config_profile_tag = config_profile_tag cfg,
                 r_risk_pct = risk_pct cfg, r_max_positions_global = max_positions_global cfg,
                 r_max_positions_per_symbol = max_positions_per_symbol cfg,
                 r_initial_equity = initial_equity cfg, r_entry_slippage_bps = entry_slippage_bps cfg,
                 r_created_at_ms = wall, r_exit = None\<rparr>"
    obtain d ok where w: "db_write (db s) (insert_position_row row) = (d, ok)"
      by (cases "db_write (db s) (insert_position_row row)")
    have wo: "write_position_open cfg wall pos s = (s\<lparr>db := d\<rparr>, ok)"
      using w by (simp add: write_position_open_def Let_def row_def)
    have r: "r_pos row = pos" "r_status row = STATUS_OPEN" by (simp_all add: row_def)
    show ?thesis
    proof (cases ok)
      case True
      then have "P (s\<lparr>db := d, positions := dset (positions s) symbol pos\<rparr>)"
        using opened [OF assms(1-4) pos_def assms(5-7) _ r] w False by simp
      then show ?thesis
        using False True wo by (simp add: open_sized_def q_def [symmetric] pos_def [symmetric] Let_def write_event_keeps)
    next
      case no: False
      then have "P (s\<lparr>db := d\<rparr>)" using open_failed [OF assms(1) r] w by simp
      then have "P (set_rejection ''db_write_failed'' (s\<lparr>db := d\<rparr>))"
        by (rule frame) (simp_all add: set_rejection_def)
      then show ?thesis
        using False no wo by (simp add: open_sized_def q_def [symmetric] pos_def [symmetric] Let_def)
    qed
  qed
qed

lemma on_entry_keeps:
  assumes P: "P s" and fresh: "admits (Entry wall symbol direction ts price now_mono) s"
  shows "P (fst (on_entry cfg wall symbol direction ts price now_mono s))"
proof -
  define s' where "s' = s\<lparr>last_rejection_reason := None\<rparr>"
  have P': "P s'" by (rule frame [OF P]) (simp_all add: s'_def)
  have f': "admits (Entry wall symbol direction ts price now_mono) s'" by (rule admits_frame [OF _ fresh]) (simp add: s'_def)
  have set_rej: "P (set_rejection r s')" for r by (rule frame [OF P']) (simp_all add: set_rejection_def)
  show ?thesis
    unfolding on_entry_def Let_def s'_def [symmetric]
    by (auto split: option.split simp: reject_keeps [OF P'] set_rej not_le
        intro!: open_sized_keeps [OF P' _ _ f'])
qed

lemma step_keeps: "P s \<Longrightarrow> admits e s \<Longrightarrow> P (paper_step cfg e s)"
  by (cases e) (simp_all add: on_ws_tick_keeps on_ticker_keeps on_ohlcv_keeps on_entry_keeps finalize_keeps)

lemma run_keeps: "admitted_run admits cfg es s \<Longrightarrow> P s \<Longrightarrow> P (paper_run cfg es s)"
  by (induction es arbitrary: s) (simp_all add: step_keeps)

lemma reachable_keeps: "reachable cfg s0 s \<Longrightarrow> (\<And>e s. admits e s) \<Longrightarrow> P s0 \<Longrightarrow> P s"
  by (induction rule: reachable.induct) (simp_all add: step_keeps)

end

section \<open>Positions are keyed by symbol and limited in number\<close>

definition keyed :: "(string, paper_position) dict \<Rightarrow> bool" where
  "keyed ps \<longleftrightarrow> wf_dict ps \<and> (\<forall>k p. (k, p) \<in> set ps \<longrightarrow> p_symbol p = k)"

definition within_limit :: "paper_config \<Rightarrow> paper_state \<Rightarrow> bool" where
  "within_limit cfg s \<longleftrightarrow> keyed (positions s) \<and> length (positions s) \<le> nat (max_positions_global cfg)"

lemma keyed_Nil [simp]: "keyed []"
  by (simp add: keyed_def)

lemma keyed_symbol: "keyed ps \<Longrightarrow> dget ps k = Some p \<Longrightarrow> p_symbol p = k"
  by (auto simp: keyed_def dest: dget_Some_in)

lemma keyed_ddel: "keyed ps \<Longrightarrow> keyed (ddel ps k)"
  by (auto simp: keyed_def in_ddel)

lemma keyed_dset: "keyed ps \<Longrightarrow> p_symbol p = k \<Longrightarrow> keyed (dset ps k p)"
  by (auto simp: keyed_def dest: in_dset)

lemma apply_funding_cases:
  obtains (absent) "apply_funding symbol s = s"
  | (paid) pos amount where "dget (positions s) symbol = Some pos"
      "apply_funding symbol s = s\<lparr>positions := dset (positions s) symbol (pos\<lparr>p_funding_paid := amount\<rparr>)\<rparr>"
  by (cases "dget (positions s) symbol") (auto simp: apply_funding_def Let_def)

lemma build_position_simps [simp]:
  "p_symbol (build_position cfg sy dr ts e d q) = sy"
  "p_direction (build_position cfg sy dr ts e d q) = dr"
  "p_id (build_position cfg sy dr ts e d q) = paper_position_id sy ts"
  "p_funding_paid (build_position cfg sy dr ts e d q) = 0"
  "p_entry_price (build_position cfg sy dr ts e d q) = e"
  "p_qty (build_position cfg sy dr ts e d q) = q"
  "p_entry_ts_ms (build_position cfg sy dr ts e d q) = ts"
  "p_entry_fee (build_position cfg sy dr ts e d q) = compute_entry_fee e q (fee_taker cfg)"
  "p_sl_price (build_position cfg sy dr ts e d q) = compute_sl_price e d dr"
  "p_tp_price (build_position cfg sy dr ts e d q) = compute_tp_price e d (tp_r_multiple cfg) dr"
  by (simp_all add: build_position_def)

interpretation limit: manager_invariant cfg "\<lambda>_ _. True" "within_limit cfg" for cfg
proof unfold_locales
  fix s symbol
  assume w: "within_limit cfg s"
  show "within_limit cfg (apply_funding symbol s)"
  proof (cases rule: apply_funding_cases [of symbol s])
    case absent
    with w show ?thesis by simp
  next
    case (paid pos amount)
    with w keyed_symbol [of "positions s" symbol pos] show ?thesis
      by (simp add: within_limit_def keyed_dset length_dset_old)
  qed
qed (auto simp: within_limit_def keyed_ddel keyed_dset length_dset_new
     intro: order.trans [OF length_ddel_le])

section \<open>Accounting\<close>

definition accounted :: "paper_config \<Rightarrow> paper_state \<Rightarrow> bool" where
  "accounted cfg s \<longleftrightarrow> realized_equity s = foldl fadd (initial_equity cfg) (map t_pnl_net (closed_trades s))"

interpretation accounts: manager_invariant cfg "\<lambda>_ _. True" "accounted cfg" for cfg
proof unfold_locales
  fix s symbol
  assume "accounted cfg s"
  then show "accounted cfg (apply_funding symbol s)"
    by (cases rule: apply_funding_cases [of symbol s]) (simp_all add: accounted_def)
qed (auto simp: accounted_def)

section \<open>Brackets of open positions, signs of closed trades\<close>

definition bracketed :: "paper_position \<Rightarrow> bool" where
  "bracketed p \<longleftrightarrow> 0 < p_qty p \<and> 0 < p_entry_price p \<and>
     (if p_direction p = LONG then p_sl_price p \<le> p_entry_price p \<and> p_entry_price p \<le> p_tp_price p
      else p_entry_price p \<le> p_sl_price p \<and> p_tp_price p \<le> p_entry_price p)"

definition trade_ok :: "trade_result \<Rightarrow> bool" where
  "trade_ok t \<longleftrightarrow> 0 < t_qty t \<and>
     (t_exit_reason t = SL \<and> t_exit_price t = t_sl_price t \<and> t_pnl_gross t \<le> 0 \<or>
      t_exit_reason t = TP \<and> t_exit_price t = t_tp_price t \<and> 0 \<le> t_pnl_gross t \<or>
      t_exit_reason t = END_OF_BACKTEST)"

definition book_ok :: "paper_config \<Rightarrow> paper_state \<Rightarrow> bool" where
  "book_ok cfg s \<longleftrightarrow> 0 \<le> tp_r_multiple cfg \<longrightarrow>
     (\<forall>p\<in>snd ` set (positions s). bracketed p) \<and> (\<forall>t\<in>set (closed_trades s). trade_ok t)"

lemma build_trade_ok:
  assumes "bracketed p" and "exit_price_ok p px reason"
  shows "trade_ok (build_trade cfg p symbol ts px reason)"
  using assms pnl_gross_sign_long [of "p_qty p"] pnl_gross_mirror [of "p_direction p" "p_entry_price p"]
  by (auto simp: trade_ok_def build_trade_def bracketed_def exit_price_ok_def Let_def split: if_splits)

lemma bracketed_build:
  assumes "is_double e" "0 < e" "0 < d" "0 < q" "0 \<le> tp_r_multiple cfg"
  shows "bracketed (build_position cfg symbol dir ts e d q)"
  using assms bracket_long [of e d "tp_r_multiple cfg"] bracket_short [of e d "tp_r_multiple cfg" dir]
  by (simp add: bracketed_def)

interpretation book: manager_invariant cfg "\<lambda>_ _. True" "book_ok cfg" for cfg
proof unfold_locales
  fix s symbol
  assume b: "book_ok cfg s"
  show "book_ok cfg (apply_funding symbol s)"
  proof (cases rule: apply_funding_cases [of symbol s])
    case absent
    with b show ?thesis by simp
  next
    case (paid pos amount)
    have "bracketed (pos\<lparr>p_funding_paid := amount\<rparr>) = bracketed pos" by (simp add: bracketed_def)
    with b paid dget_value [OF paid(1)] show ?thesis
      by (auto simp: book_ok_def dest!: in_dset)
  qed
next
  fix s symbol pos x d px reason tr ts
  assume "book_ok cfg s" "dget (positions s) symbol = Some pos" "exit_price_ok pos px reason"
    "tr = build_trade cfg pos symbol ts px reason"
  then show "book_ok cfg (s\<lparr>db := d, positions := ddel (positions s) symbol, closed_trades := closed_trades s @ [tr],
           realized_equity := fadd (realized_equity s) (t_pnl_net tr)\<rparr>)"
    using dget_value [of "positions s" symbol pos]
    by (auto simp: book_ok_def in_ddel intro!: build_trade_ok)
next
  fix s symbol ts pos direction fill sld q d
  assume "book_ok cfg s" "pos = build_position cfg symbol direction ts fill sld q" "is_double fill" "0 < fill"
    "0 < sld" "0 < q"
  then show "book_ok cfg (s\<lparr>db := d, positions := dset (positions s) symbol pos\<rparr>)"
    using bracketed_build [of fill sld q cfg symbol direction ts]
    by (auto simp: book_ok_def dest!: in_dset)
qed (auto simp: book_ok_def)

section \<open>The database mirrors the open positions\<close>

definition persisted :: "paper_position \<Rightarrow> paper_position" where
  "persisted p = p\<lparr>p_funding_paid := 0\<rparr>"

definition persisted_view :: "(string, paper_position) dict \<Rightarrow> (string, paper_position) dict" where
  "persisted_view ps = map (\<lambda>(k, p). (k, persisted p)) ps"

definition open_view :: "paper_db \<Rightarrow> (string, paper_position) dict" where
  "open_view d = map (\<lambda>r. (p_symbol (r_pos r), r_pos r)) (open_rows d)"

definition row_ids :: "paper_db \<Rightarrow> string list" where
  "row_ids d = map (\<lambda>r. p_id (r_pos r)) (db_rows d)"

definition db_synced :: "paper_state \<Rightarrow> bool" where
  "db_synced s \<longleftrightarrow> CommitFail \<notin> set (db_faults (db s)) \<and>
     keyed (positions s) \<and> distinct (row_ids (db s)) \<and> open_view (db s) = persisted_view (positions s)"

lemma persisted_simps [simp]:
  "p_id (persisted p) = p_id p" "p_symbol (persisted p) = p_symbol p"
  "persisted (p\<lparr>p_funding_paid := a\<rparr>) = persisted p"
  by (simp_all add: persisted_def)

lemma persisted_view_dset_new: "dget ps k = None \<Longrightarrow> persisted_view (dset ps k p) = persisted_view ps @ [(k, persisted p)]"
  by (simp add: dget_None_iff dset_new persisted_view_def)

lemma persisted_view_ddel: "persisted_view (ddel ps k) = filter (\<lambda>(k', p). k' \<noteq> k) (persisted_view ps)"
  by (simp add: persisted_view_def ddel_filter filter_map o_def case_prod_unfold)

lemma persisted_view_funding:
  "wf_dict ps \<Longrightarrow> dget ps k = Some p \<Longrightarrow> persisted_view (dset ps k (p\<lparr>p_funding_paid := a\<rparr>)) = persisted_view ps"
  unfolding persisted_view_def by (rule map_values_dset) simp_all

lemma row_ids_close [simp]: "row_ids (close_position_rows i x d) = row_ids d"
  by (auto simp: row_ids_def close_position_rows_def)

lemma open_rows_close: "open_rows (close_position_rows i x d) = filter (\<lambda>r. p_id (r_pos r) \<noteq> i) (open_rows d)"
proof -
  have "filter (\<lambda>r. r_status r = STATUS_OPEN)
      (map (\<lambda>r. if p_id (r_pos r) = i \<and> r_status r = STATUS_OPEN
            then r\<lparr>r_status := STATUS_CLOSED, r_exit := Some x\<rparr> else r) rs) =
    filter (\<lambda>r. p_id (r_pos r) \<noteq> i) (filter (\<lambda>r. r_status r = STATUS_OPEN) rs)" for rs
    by (induction rs) (auto simp: STATUS_OPEN_def STATUS_CLOSED_def)
  then show ?thesis by (simp add: open_rows_def close_position_rows_def)
qed

lemma open_view_close:
  assumes "distinct (row_ids d)" and "(k, p) \<in> set (open_view d)" and "distinct (keys (open_view d))"
  shows "open_view (close_position_rows (p_id p) x d) = filter (\<lambda>(k', q). k' \<noteq> k) (open_view d)"
proof -
  obtain r where r: "r \<in> set (open_rows d)" "k = p_symbol (r_pos r)" "p = r_pos r"
    using assms(2) by (auto simp: open_view_def)
  have ids: "inj_on (\<lambda>r. p_id (r_pos r)) (set (open_rows d))"
    using assms(1) by (auto simp: row_ids_def open_rows_def distinct_map inj_on_def)
  have syms: "inj_on (\<lambda>r. p_symbol (r_pos r)) (set (open_rows d))"
    using assms(3) by (auto simp: keys_def open_view_def o_def distinct_map inj_on_def)
  have "filter (\<lambda>r'. p_id (r_pos r') \<noteq> p_id p) (open_rows d) = filter (\<lambda>r'. p_symbol (r_pos r') \<noteq> k) (open_rows d)"
    using r ids syms by (auto intro!: filter_cong dest: inj_onD)
  then show ?thesis by (simp add: open_view_def open_rows_close filter_map o_def)
qed

lemma db_write_ok: "db_write d f = (d', True) \<Longrightarrow> \<exists>fs. set fs \<subseteq> set (db_faults d) \<and> d' = f (d\<lparr>db_faults := fs\<rparr>)"
  by (cases "db_faults d") (auto simp: db_write_def Let_def split: db_outcome.splits)

lemma db_write_failed:
  "db_write d f = (d', False) \<Longrightarrow> CommitFail \<notin> set (db_faults d) \<Longrightarrow>
   \<exists>fs. set fs \<subseteq> set (db_faults d) \<and> d' = d\<lparr>db_faults := fs\<rparr>"
  by (cases "db_faults d") (auto simp: db_write_def Let_def split: db_outcome.splits)

lemma views_frame:
  "db_rows d = db_rows d' \<Longrightarrow> open_view d = open_view d'"
  "db_rows d = db_rows d' \<Longrightarrow> row_ids d = row_ids d'"
  by (simp_all add: open_view_def open_rows_def row_ids_def)

lemma views_faults [simp]:
  "open_view (d\<lparr>db_faults := fs\<rparr>) = open_view d" "row_ids (d\<lparr>db_faults := fs\<rparr>) = row_ids d"
  by (rule views_frame, simp)+

lemma views_insert:
  assumes "p_id (r_pos r) \<notin> set (row_ids d)" and "r_status r = STATUS_OPEN"
  shows "open_view (insert_position_row r d) = open_view d @ [(p_symbol (r_pos r), r_pos r)]"
    and "row_ids (insert_position_row r d) = row_ids d @ [p_id (r_pos r)]"
proof -
  have "\<not> (\<exists>r'\<in>set (db_rows d). p_id (r_pos r') = p_id (r_pos r))"
    using assms(1) unfolding row_ids_def set_map by (metis (no_types, lifting) imageI)
  then have "insert_position_row r d = d\<lparr>db_rows := db_rows d @ [r]\<rparr>"
    by (simp add: insert_position_row_def)
  then show "open_view (insert_position_row r d) = open_view d @ [(p_symbol (r_pos r), r_pos r)]"
    and "row_ids (insert_position_row r d) = row_ids d @ [p_id (r_pos r)]"
    using assms(2) by (simp_all add: open_view_def open_rows_def row_ids_def)
qed

lemma keys_persisted_view [simp]: "keys (persisted_view ps) = keys ps"
  by (simp add: keys_def persisted_view_def case_prod_unfold)

lemma persisted_in_view: "dget ps k = Some p \<Longrightarrow> (k, persisted p) \<in> set (persisted_view ps)"
  by (force simp: persisted_view_def dest: dget_Some_in)

interpretation sync: manager_invariant cfg fresh_event db_synced for cfg
proof unfold_locales
  fix s s' :: paper_state
  assume "db_synced s" "positions s' = positions s" "db_rows (db s') = db_rows (db s)"
    "set (db_faults (db s')) \<subseteq> set (db_faults (db s))"
  then show "db_synced s'" using views_frame [of "db s'" "db s"] by (auto simp: db_synced_def)
next
  fix s s' :: paper_state and e
  show "db_rows (db s') = db_rows (db s) \<Longrightarrow> fresh_event e s \<Longrightarrow> fresh_event e s'" by (cases e) (simp_all add: fresh_id_def)
next
  fix s symbol
  assume b: "db_synced s"
  show "db_synced (apply_funding symbol s)"
  proof (cases rule: apply_funding_cases [of symbol s])
    case absent
    with b show ?thesis by simp
  next
    case (paid pos amount)
    with b keyed_symbol [of "positions s" symbol pos] show ?thesis
      by (simp add: db_synced_def keyed_dset persisted_view_funding keyed_def [of "positions s"])
  qed
next
  fix s symbol pos x d
  assume b: "db_synced s" "db_write (db s) (close_position_rows (p_id pos) x) = (d, False)"
  then show "db_synced (s\<lparr>db := d\<rparr>)" by (auto simp: db_synced_def dest!: db_write_failed)
next
  fix s symbol pos x d px reason tr ts
  assume b: "db_synced s" and p: "dget (positions s) symbol = Some pos"
    and w: "db_write (db s) (close_position_rows (p_id pos) x) = (d, True)"
    and tr: "tr = build_trade cfg pos symbol ts px reason"
  obtain fs where fs: "set fs \<subseteq> set (db_faults (db s))"
    and d: "d = close_position_rows (p_id pos) x ((db s)\<lparr>db_faults := fs\<rparr>)" using db_write_ok [OF w] by blast
  have v: "open_view d = filter (\<lambda>(k', q). k' \<noteq> symbol) (persisted_view (positions s))"
    using b open_view_close [of "(db s)\<lparr>db_faults := fs\<rparr>" symbol "persisted pos" x] persisted_in_view [OF p]
    by (simp add: d db_synced_def keyed_def wf_dict_def)
  show "db_synced (s\<lparr>db := d, positions := ddel (positions s) symbol, closed_trades := closed_trades s @ [tr],
           realized_equity := fadd (realized_equity s) (t_pnl_net tr)\<rparr>)"
    using b fs by (auto simp: db_synced_def v [unfolded d] persisted_view_ddel keyed_ddel d)
next
  fix s pos row d
  assume "db_synced s" "db_write (db s) (insert_position_row row) = (d, False)"
  then show "db_synced (s\<lparr>db := d\<rparr>)" by (auto simp: db_synced_def dest!: db_write_failed)
next
  fix s symbol wall direction ts price mono_ms pos fill sld q row d
  assume b: "db_synced s" and n: "dget (positions s) symbol = None" and f: "fresh_event (Entry wall symbol direction ts price mono_ms) s"
    and pos: "pos = build_position cfg symbol direction ts fill sld q"
    and row: "r_pos row = pos" "r_status row = STATUS_OPEN"
    and w: "db_write (db s) (insert_position_row row) = (d, True)"
  obtain fs where fs: "set fs \<subseteq> set (db_faults (db s))"
    and d: "d = insert_position_row row ((db s)\<lparr>db_faults := fs\<rparr>)" using db_write_ok [OF w] by blast
  have new: "p_id (r_pos row) \<notin> set (row_ids ((db s)\<lparr>db_faults := fs\<rparr>))"
    using f by (auto simp: fresh_id_def row_ids_def row pos)
  have p: "persisted pos = pos" by (simp add: pos build_position_def persisted_def)
  show "db_synced (s\<lparr>db := d, positions := dset (positions s) symbol pos\<rparr>)"
    using b fs n views_insert [OF new row(2)] new
    by (auto simp: db_synced_def d keyed_dset persisted_view_dset_new p row) (simp_all add: pos keyed_dset)
qed

subsection \<open>Recovery after a restart\<close>

lemma foldl_load_rows:
  "distinct (map (\<lambda>r. p_symbol (r_pos r)) rs) \<Longrightarrow>
   foldl load_row [] rs = map (\<lambda>r. (p_symbol (r_pos r), r_pos r)) rs"
proof (induction rs rule: rev_induct)
  case Nil
  then show ?case by simp
next
  case (snoc r rs)
  then show ?case by (simp add: load_row_def dset_new keys_def o_def)
qed

lemma startup_loads_view:
  assumes "distinct (keys (open_view (db s)))" and "positions s = []"
  shows "on_startup True s = (s\<lparr>positions := open_view (db s)\<rparr>, length (open_view (db s)))"
  using assms by (simp add: on_startup_def Let_def foldl_load_rows open_view_def keys_def o_def)

lemma recovery_positions:
  assumes "db_synced s"
  shows "positions (fst (on_startup True (init_state cfg (db s)))) = persisted_view (positions s)"
proof -
  have "distinct (keys (open_view (db s)))" using assms by (simp add: db_synced_def keyed_def wf_dict_def)
  then show ?thesis using startup_loads_view [of "init_state cfg (db s)"] assms
    by (simp add: init_state_def db_synced_def)
qed

end
