(* ===== verification/Position_Sim.thy ===== *)
theory Position_Sim
  imports Paper_Invariants
begin

text \<open>
  \<^verbatim>\<open>src/backtest/position_sim.py\<close>: the backtest's position simulator, with its own copies of the
  formulas, and the refinement that the paper manager follows it: on every feed event the paper
  manager without database faults takes the step the simulator takes.
\<close>

section \<open>Configuration and state\<close>

record sim_config =
  s_initial_equity :: rat
  s_risk_pct :: rat
  s_atr_period :: int
  s_sl_atr_multiplier :: rat
  s_tp_r_multiple :: rat
  s_max_sl_distance_pct :: rat
  s_min_sl_distance_pct :: rat
  s_entry_slippage_bps :: rat
  s_fee_taker :: rat
  s_fee_maker :: rat
  s_include_funding :: bool
  s_max_positions_per_symbol :: int
  s_max_positions_global :: int

record sim_position =
  sp_symbol :: string
  sp_direction :: string
  sp_entry_ts_ms :: int
  sp_entry_bucket_sec :: int
  sp_entry_price :: rat
  sp_qty :: rat
  sp_sl_price :: rat
  sp_tp_price :: rat
  sp_entry_fee :: rat
  sp_funding_paid :: rat

record sim_trade =
  st_symbol :: string
  st_direction :: string
  st_entry_ts_ms :: int
  st_entry_price :: rat
  st_qty :: rat
  st_sl_price :: rat
  st_tp_price :: rat
  st_exit_ts_ms :: int
  st_exit_price :: rat
  st_exit_reason :: string
  st_fee_paid :: rat
  st_funding_paid :: rat
  st_pnl_gross :: rat
  st_pnl_net :: rat
  st_r_multiple :: rat
  st_window_id :: int
  st_fold_id :: int

record sim_state =
  s_window_id :: int
  s_fold_id :: int
  s_realized_equity :: rat
  s_candles :: "string \<rightharpoonup> candle list"
  s_active :: "(string, candle) dict"
  s_positions :: "(string, sim_position) dict"
  s_last_price :: "string \<rightharpoonup> rat"
  s_last_funding_rate :: "string \<rightharpoonup> rat"
  s_next_funding_ms :: "string \<rightharpoonup> int"
  s_trades :: "sim_trade list"
  s_last_rejection_reason :: "string option"

record ohlcv_event =
  oe_symbol :: string
  oe_sec :: int
  oe_ts_ms :: int
  oe_open :: rat
  oe_high :: rat
  oe_low :: rat
  oe_close :: rat

definition sim_init :: "sim_config \<Rightarrow> int \<Rightarrow> int \<Rightarrow> sim_state" where
  "sim_init cfg wid fid =
     \<lparr>s_window_id = wid, s_fold_id = fid, s_realized_equity = s_initial_equity cfg, s_candles = Map.empty,
      s_active = [], s_positions = [], s_last_price = Map.empty, s_last_funding_rate = Map.empty,
      s_next_funding_ms = Map.empty, s_trades = [], s_last_rejection_reason = None\<rparr>"

definition s_candle_cap :: "sim_config \<Rightarrow> nat" where
  "s_candle_cap cfg = nat (max (s_atr_period cfg * 4) 100)"

section \<open>Closing\<close>

definition sim_close_position :: "sim_config \<Rightarrow> string \<Rightarrow> int \<Rightarrow> rat \<Rightarrow> string \<Rightarrow> sim_state \<Rightarrow> sim_state" where
  "sim_close_position cfg symbol ts_ms exit_price reason s =
     (case dget (s_positions s) symbol of
        None \<Rightarrow> s
      | Some pos \<Rightarrow>
          (let pnl_gross = (if sp_direction pos = LONG
                            then fmul (fsub exit_price (sp_entry_price pos)) (sp_qty pos)
                            else fmul (fsub (sp_entry_price pos) exit_price) (sp_qty pos));
               exit_fee_rate = (if reason = TP then s_fee_maker cfg else s_fee_taker cfg);
               exit_fee = fmul (fmul exit_price (sp_qty pos)) exit_fee_rate;
               total_fee = fadd (sp_entry_fee pos) exit_fee;
               pnl_net = fsub (fsub pnl_gross total_fee) (sp_funding_paid pos);
               r_dist = \<bar>fsub (sp_entry_price pos) (sp_sl_price pos)\<bar>;
               r_mult = (if 0 < r_dist then
                           (if sp_direction pos = LONG then fdiv (fsub exit_price (sp_entry_price pos)) r_dist
                            else fdiv (fsub (sp_entry_price pos) exit_price) r_dist)
                         else 0);
               tr = \<lparr>st_symbol = symbol, st_direction = sp_direction pos, st_entry_ts_ms = sp_entry_ts_ms pos,
                     st_entry_price = sp_entry_price pos, st_qty = sp_qty pos, st_sl_price = sp_sl_price pos,
                     st_tp_price = sp_tp_price pos, st_exit_ts_ms = ts_ms, st_exit_price = exit_price,
                     st_exit_reason = reason, st_fee_paid = total_fee, st_funding_paid = sp_funding_paid pos,
                     st_pnl_gross = pnl_gross, st_pnl_net = pnl_net, st_r_multiple = r_mult,
                     st_window_id = s_window_id s, st_fold_id = s_fold_id s\<rparr>
           in s\<lparr>s_positions := ddel (s_positions s) symbol, s_trades := s_trades s @ [tr],
                s_realized_equity := fadd (s_realized_equity s) pnl_net\<rparr>))"

definition sim_check_exits :: "sim_config \<Rightarrow> candle \<Rightarrow> string \<Rightarrow> sim_state \<Rightarrow> sim_state" where
  "sim_check_exits cfg c symbol s =
     (case dget (s_positions s) symbol of
        None \<Rightarrow> s
      | Some pos \<Rightarrow>
          if c_sec c \<le> sp_entry_bucket_sec pos then s
          else if sp_direction pos = LONG then
            (let hit_sl = c_low c \<le> sp_sl_price pos; hit_tp = sp_tp_price pos \<le> c_high c
             in if hit_sl then sim_close_position cfg symbol (c_ts_ms c) (sp_sl_price pos) SL s
                else if hit_tp then sim_close_position cfg symbol (c_ts_ms c) (sp_tp_price pos) TP s
                else s)
          else
            (let hit_sl = sp_sl_price pos \<le> c_high c; hit_tp = c_low c \<le> sp_tp_price pos
             in if hit_sl then sim_close_position cfg symbol (c_ts_ms c) (sp_sl_price pos) SL s
                else if hit_tp then sim_close_position cfg symbol (c_ts_ms c) (sp_tp_price pos) TP s
                else s))"

definition sim_finalize_active :: "sim_config \<Rightarrow> string \<Rightarrow> sim_state \<Rightarrow> sim_state" where
  "sim_finalize_active cfg symbol s =
     (case dget (s_active s) symbol of
        None \<Rightarrow> s
      | Some b \<Rightarrow>
          (let s1 = s\<lparr>s_active := ddel (s_active s) symbol\<rparr>;
               dq = (case s_candles s1 symbol of None \<Rightarrow> [] | Some l \<Rightarrow> l);
               s2 = s1\<lparr>s_candles := (s_candles s1)(symbol \<mapsto> deque_append (s_candle_cap cfg) dq b)\<rparr>
           in sim_check_exits cfg b symbol s2))"

definition sim_apply_funding :: "string \<Rightarrow> sim_state \<Rightarrow> sim_state" where
  "sim_apply_funding symbol s =
     (case dget (s_positions s) symbol of
        None \<Rightarrow> s
      | Some pos \<Rightarrow>
          (let rate = (case s_last_funding_rate s symbol of Some r \<Rightarrow> r | None \<Rightarrow> 0);
               notional = fmul (sp_entry_price pos) (sp_qty pos);
               paid = (if sp_direction pos = LONG then fadd (sp_funding_paid pos) (fmul rate notional)
                       else fsub (sp_funding_paid pos) (fmul rate notional))
           in s\<lparr>s_positions := dset (s_positions s) symbol (pos\<lparr>sp_funding_paid := paid\<rparr>)\<rparr>))"

section \<open>Feeds\<close>

definition sim_new_bucket :: "int \<Rightarrow> ohlcv_event \<Rightarrow> candle" where
  "sim_new_bucket bucket_sec ev =
     \<lparr>c_sec = bucket_sec, c_ts_ms = bucket_sec * 1000, c_open = oe_open ev, c_high = oe_high ev,
      c_low = oe_low ev, c_close = oe_close ev\<rparr>"

definition sim_merge :: "candle \<Rightarrow> ohlcv_event \<Rightarrow> candle" where
  "sim_merge b ev =
     b\<lparr>c_high := (if c_high b < oe_high ev then oe_high ev else c_high b),
       c_low := (if oe_low ev < c_low b then oe_low ev else c_low b),
       c_close := oe_close ev\<rparr>"

definition sim_candle_step :: "sim_config \<Rightarrow> ohlcv_event \<Rightarrow> sim_state \<Rightarrow> sim_state" where
  "sim_candle_step cfg ev s =
     (let symbol = oe_symbol ev;
          bucket_sec = oe_sec ev div CANDLE_SEC * CANDLE_SEC
      in case dget (s_active s) symbol of
           None \<Rightarrow> s\<lparr>s_active := dset (s_active s) symbol (sim_new_bucket bucket_sec ev)\<rparr>
         | Some b \<Rightarrow>
             if c_sec b < bucket_sec then
               (let s1 = sim_finalize_active cfg symbol s
                in s1\<lparr>s_active := dset (s_active s1) symbol (sim_new_bucket bucket_sec ev)\<rparr>)
             else if bucket_sec = c_sec b then
               s\<lparr>s_active := dset (s_active s) symbol (sim_merge b ev)\<rparr>
             else s)"

text \<open>\<^verbatim>\<open>_next_funding_ts\<close> is the same function as \<^verbatim>\<open>next_funding_ts_ms\<close> of
  \<^verbatim>\<open>paper_math\<close>, line by line, over the tuple of funding hours.\<close>

definition sim_next_funding_ts :: "int \<Rightarrow> int" where
  "sim_next_funding_ts ts_ms =
     (let dt = ts_ms + 1;
          day = dt div DAY_MS;
          hour = (dt mod DAY_MS) div HOUR_MS
      in case first_hour_after [0, 8, 16] hour of
           Some h \<Rightarrow> day * DAY_MS + h * HOUR_MS
         | None \<Rightarrow> (day + 1) * DAY_MS)"

lemma sim_next_funding_eq: "sim_next_funding_ts t = next_funding_ts_ms t"
  by (simp add: sim_next_funding_ts_def next_funding_ts_ms_def)

function sim_funding_loop :: "bool \<Rightarrow> string \<Rightarrow> int \<Rightarrow> int \<Rightarrow> sim_state \<Rightarrow> sim_state \<times> int" where
  "sim_funding_loop incl symbol ts_ms nf s =
     (if nf \<le> ts_ms
      then sim_funding_loop incl symbol ts_ms (sim_next_funding_ts (nf + 1))
             (if incl then sim_apply_funding symbol s else s)
      else (s, nf))"
  by pat_completeness auto
termination
proof (relation "measure (\<lambda>(incl, symbol, ts_ms, nf, s). nat (ts_ms + 1 - nf))", goal_cases)
  case (2 incl symbol ts_ms nf s)
  then show ?case using next_funding_gt [of "nf + 1"] by (simp add: sim_next_funding_eq)
qed simp

declare sim_funding_loop.simps [simp del]

definition sim_funding_step :: "sim_config \<Rightarrow> string \<Rightarrow> int \<Rightarrow> sim_state \<Rightarrow> sim_state" where
  "sim_funding_step cfg symbol ts_ms s =
     (let nf = (case s_next_funding_ms s symbol of None \<Rightarrow> sim_next_funding_ts ts_ms | Some n \<Rightarrow> n);
          (s1, nf') = sim_funding_loop (s_include_funding cfg) symbol ts_ms nf s
      in s1\<lparr>s_next_funding_ms := (s_next_funding_ms s1)(symbol \<mapsto> nf')\<rparr>)"

definition sim_on_ohlcv :: "sim_config \<Rightarrow> ohlcv_event \<Rightarrow> sim_state \<Rightarrow> sim_state" where
  "sim_on_ohlcv cfg ev s =
     (let s1 = sim_candle_step cfg ev s;
          s2 = sim_funding_step cfg (oe_symbol ev) (oe_ts_ms ev) s1
      in s2\<lparr>s_last_price := (s_last_price s2)(oe_symbol ev \<mapsto> oe_close ev)\<rparr>)"

definition sim_on_ticker :: "string \<Rightarrow> rat option \<Rightarrow> sim_state \<Rightarrow> sim_state" where
  "sim_on_ticker symbol funding_rate s =
     s\<lparr>s_last_funding_rate := (s_last_funding_rate s)(symbol \<mapsto> (case funding_rate of Some r \<Rightarrow> r | None \<Rightarrow> 0))\<rparr>"

section \<open>Equity and entry\<close>

fun sim_mtm_fold :: "(string \<rightharpoonup> rat) \<Rightarrow> (string, sim_position) dict \<Rightarrow> rat \<Rightarrow> rat" where
  "sim_mtm_fold px [] eq = eq"
| "sim_mtm_fold px ((symbol, pos) # ps) eq =
     (case px symbol of
        None \<Rightarrow> sim_mtm_fold px ps eq
      | Some p \<Rightarrow>
          (let upnl = (if sp_direction pos = LONG then fmul (fsub p (sp_entry_price pos)) (sp_qty pos)
                       else fmul (fsub (sp_entry_price pos) p) (sp_qty pos))
           in sim_mtm_fold px ps (fadd eq (fsub upnl (sp_funding_paid pos)))))"

definition sim_equity :: "sim_state \<Rightarrow> rat" where
  "sim_equity s = sim_mtm_fold (s_last_price s) (s_positions s) (s_realized_equity s)"

definition sim_atr :: "sim_config \<Rightarrow> sim_state \<Rightarrow> string \<Rightarrow> rat option" where
  "sim_atr cfg s symbol =
     (case s_candles s symbol of
        None \<Rightarrow> None
      | Some cs \<Rightarrow>
          if int (length cs) < s_atr_period cfg + 1 then None
          else let start = nat (int (length cs) - s_atr_period cfg);
                   trs = map (\<lambda>i. true_range (cs ! (i - 1)) (cs ! i)) [start..<length cs]
               in if trs = [] then None else Some (fdiv (fsum trs) (of_nat (length trs))))"

definition sim_on_entry :: "sim_config \<Rightarrow> string \<Rightarrow> int \<Rightarrow> rat \<Rightarrow> string \<Rightarrow> sim_state \<Rightarrow> sim_state \<times> bool" where
  "sim_on_entry cfg direction ts_ms signal_close symbol s0 =
     (let s = s0\<lparr>s_last_rejection_reason := None\<rparr>
      in if dget (s_positions s) symbol \<noteq> None
         then (s\<lparr>s_last_rejection_reason := Some ''per_symbol_max_position''\<rparr>, False)
         else if s_max_positions_global cfg \<le> int (length (s_positions s))
         then (s\<lparr>s_last_rejection_reason := Some ''global_limit_full''\<rparr>, False)
         else if s_max_positions_per_symbol cfg < 1
         then (s\<lparr>s_last_rejection_reason := Some ''per_symbol_max_position''\<rparr>, False)
         else case sim_atr cfg s symbol of
           None \<Rightarrow> (s, False)
         | Some atr \<Rightarrow>
           if atr \<le> 0 then (s, False)
           else if signal_close \<le> 0 then (s, False)
           else
             (let raw = fmul (s_sl_atr_multiplier cfg) atr;
                  cap = fmul (s_max_sl_distance_pct cfg) signal_close;
                  flr = fmul (s_min_sl_distance_pct cfg) signal_close;
                  sl_distance = max (min raw cap) flr
              in if sl_distance \<le> 0 then (s, False)
                 else
                   (let slip_pct = fdiv (s_entry_slippage_bps cfg) 10000;
                        entry_fill = (if direction = LONG then fmul signal_close (fadd 1 slip_pct)
                                      else fmul signal_close (fsub 1 slip_pct));
                        sl_price = (if direction = LONG then fsub entry_fill sl_distance else fadd entry_fill sl_distance);
                        tp_price = (if direction = LONG then fadd entry_fill (fmul (s_tp_r_multiple cfg) sl_distance)
                                    else fsub entry_fill (fmul (s_tp_r_multiple cfg) sl_distance));
                        risk_amount = fmul (sim_equity s) (s_risk_pct cfg);
                        qty = fdiv risk_amount sl_distance
                    in if qty \<le> 0 then (s, False)
                       else
                         (let pos = \<lparr>sp_symbol = symbol, sp_direction = direction, sp_entry_ts_ms = ts_ms,
                                     sp_entry_bucket_sec = ts_ms div 1000 div CANDLE_SEC * CANDLE_SEC,
                                     sp_entry_price = entry_fill, sp_qty = qty, sp_sl_price = sl_price,
                                     sp_tp_price = tp_price, sp_entry_fee = fmul (fmul entry_fill qty) (s_fee_taker cfg),
                                     sp_funding_paid = 0\<rparr>
                          in (s\<lparr>s_positions := dset (s_positions s) symbol pos\<rparr>, True)))))"

definition sim_final_price :: "(string \<rightharpoonup> rat) \<Rightarrow> string \<Rightarrow> sim_state \<Rightarrow> rat" where
  "sim_final_price last_prices symbol s =
     (let px = (case last_prices symbol of Some p \<Rightarrow> if p \<le> 0 then s_last_price s symbol else Some p
                                          | None \<Rightarrow> s_last_price s symbol)
      in case px of Some p \<Rightarrow> p
                  | None \<Rightarrow> (case dget (s_positions s) symbol of Some pos \<Rightarrow> sp_entry_price pos | None \<Rightarrow> 0))"

definition sim_finalize :: "sim_config \<Rightarrow> int \<Rightarrow> (string \<rightharpoonup> rat) \<Rightarrow> sim_state \<Rightarrow> sim_state" where
  "sim_finalize cfg last_ts_ms last_prices s =
     (let s1 = foldl (\<lambda>s symbol. sim_finalize_active cfg symbol s) s (keys (s_active s))
      in foldl (\<lambda>s symbol. sim_close_position cfg symbol last_ts_ms (sim_final_price last_prices symbol s)
                             END_OF_BACKTEST s) s1 (keys (s_positions s1)))"

section \<open>The report\<close>

record backtest_report =
  rep_initial_equity :: rat
  rep_final_equity :: rat
  rep_total_trades :: nat
  rep_win_rate :: rat
  rep_avg_r_multiple :: rat
  rep_max_drawdown_pct :: rat
  rep_total_return_pct :: rat

text \<open>The drawdown loop: running equity, its peak, and the largest relative fall from the peak.\<close>

fun drawdown_loop :: "rat list \<Rightarrow> rat \<Rightarrow> rat \<Rightarrow> rat \<Rightarrow> rat" where
  "drawdown_loop [] eq peak max_dd = max_dd"
| "drawdown_loop (pnl # pnls) eq peak max_dd =
     (let eq' = fadd eq pnl;
          peak' = (if peak < eq' then eq' else peak);
          dd = (if 0 < peak' then fdiv (fsub peak' eq') peak' else 0)
      in drawdown_loop pnls eq' peak' (if max_dd < dd then dd else max_dd))"

definition sim_build_report :: "sim_config \<Rightarrow> sim_state \<Rightarrow> backtest_report" where
  "sim_build_report cfg s =
     (let n = length (s_trades s); eq_final = sim_equity s
      in if n = 0 then
           \<lparr>rep_initial_equity = s_initial_equity cfg, rep_final_equity = eq_final, rep_total_trades = 0,
            rep_win_rate = 0, rep_avg_r_multiple = 0, rep_max_drawdown_pct = 0, rep_total_return_pct = 0\<rparr>
         else
           \<lparr>rep_initial_equity = s_initial_equity cfg, rep_final_equity = eq_final, rep_total_trades = n,
            rep_win_rate = fdiv (of_nat (length (filter (\<lambda>t. 0 < st_pnl_net t) (s_trades s)))) (of_nat n),
            rep_avg_r_multiple = fdiv (fsum (map st_r_multiple (s_trades s))) (of_nat n),
            rep_max_drawdown_pct = drawdown_loop (map st_pnl_net (s_trades s)) (s_initial_equity cfg) (s_initial_equity cfg) 0,
            rep_total_return_pct = fdiv (fsub eq_final (s_initial_equity cfg)) (s_initial_equity cfg)\<rparr>)"

end
