(* ===== verification/Sim_Refinement.thy ===== *)
theory Sim_Refinement
  imports Position_Sim
begin

text \<open>
  The paper manager refines the backtest simulator: forgetting its database, ids and tick clocks,
  each feed event and the finalization take the step the simulator takes, as long as no database
  write fails. The entry does not: the two derive the stop distance from different prices.
\<close>

section \<open>The abstraction\<close>

definition abs_config :: "paper_config \<Rightarrow> sim_config" where
  "abs_config cfg =
     \<lparr>s_initial_equity = initial_equity cfg, s_risk_pct = risk_pct cfg, s_atr_period = atr_period cfg,
      s_sl_atr_multiplier = sl_atr_multiplier cfg, s_tp_r_multiple = tp_r_multiple cfg,
      s_max_sl_distance_pct = max_sl_distance_pct cfg, s_min_sl_distance_pct = min_sl_distance_pct cfg,
      s_entry_slippage_bps = entry_slippage_bps cfg, s_fee_taker = fee_taker cfg, s_fee_maker = fee_maker cfg,
      s_include_funding = include_funding cfg, s_max_positions_per_symbol = max_positions_per_symbol cfg,
      s_max_positions_global = max_positions_global cfg\<rparr>"

definition abs_position :: "paper_position \<Rightarrow> sim_position" where
  "abs_position p =
     \<lparr>sp_symbol = p_symbol p, sp_direction = p_direction p, sp_entry_ts_ms = p_entry_ts_ms p,
      sp_entry_bucket_sec = p_entry_bucket_sec p, sp_entry_price = p_entry_price p, sp_qty = p_qty p,
      sp_sl_price = p_sl_price p, sp_tp_price = p_tp_price p, sp_entry_fee = p_entry_fee p,
      sp_funding_paid = p_funding_paid p\<rparr>"

definition abs_trade :: "trade_result \<Rightarrow> sim_trade" where
  "abs_trade t =
     \<lparr>st_symbol = t_symbol t, st_direction = t_direction t, st_entry_ts_ms = t_entry_ts_ms t,
      st_entry_price = t_entry_price t, st_qty = t_qty t, st_sl_price = t_sl_price t,
      st_tp_price = t_tp_price t, st_exit_ts_ms = t_exit_ts_ms t, st_exit_price = t_exit_price t,
      st_exit_reason = t_exit_reason t, st_fee_paid = t_fee_paid t, st_funding_paid = t_funding_paid t,
      st_pnl_gross = t_pnl_gross t, st_pnl_net = t_pnl_net t, st_r_multiple = t_r_multiple t,
      st_window_id = 0, st_fold_id = 0\<rparr>"

definition abs_positions :: "(string, paper_position) dict \<Rightarrow> (string, sim_position) dict" where
  "abs_positions ps = map (\<lambda>(k, p). (k, abs_position p)) ps"

definition abs_state :: "paper_state \<Rightarrow> sim_state" where
  "abs_state s =
     \<lparr>s_window_id = 0, s_fold_id = 0, s_realized_equity = realized_equity s, s_candles = candles s,
      s_active = active s, s_positions = abs_positions (positions s), s_last_price = last_price s,
      s_last_funding_rate = last_funding_rate s, s_next_funding_ms = next_funding_ms s,
      s_trades = map abs_trade (closed_trades s), s_last_rejection_reason = last_rejection_reason s\<rparr>"

definition abs_sample :: "ohlcv_sample \<Rightarrow> rat \<Rightarrow> ohlcv_event" where
  "abs_sample ev close =
     \<lparr>oe_symbol = o_symbol ev, oe_sec = o_sec ev, oe_ts_ms = o_ts_ms ev, oe_open = o_open ev,
      oe_high = o_high ev, oe_low = o_low ev, oe_close = close\<rparr>"

definition no_faults :: "paper_state \<Rightarrow> bool" where
  "no_faults s \<longleftrightarrow> db_faults (db s) = []"

section \<open>Lookups and updates under the abstraction\<close>

lemma dget_abs [simp]: "dget (abs_positions ps) k = map_option abs_position (dget ps k)"
  by (induction ps) (auto simp: abs_positions_def dget_Cons)

lemma ddel_abs [simp]: "ddel (abs_positions ps) k = abs_positions (ddel ps k)"
  by (induction ps) (auto simp: abs_positions_def ddel_filter)

lemma dset_abs [simp]: "dset (abs_positions ps) k (abs_position p) = abs_positions (dset ps k p)"
  by (induction ps) (auto simp: abs_positions_def dset_def)

lemma keys_abs [simp]: "keys (abs_positions ps) = keys ps"
  by (simp add: abs_positions_def keys_def case_prod_beta)

lemma length_abs [simp]: "length (abs_positions ps) = length ps"
  by (simp add: abs_positions_def)

lemma abs_fields [simp]:
  "s_active (abs_state s) = active s" "s_candles (abs_state s) = candles s"
  "s_positions (abs_state s) = abs_positions (positions s)" "s_last_price (abs_state s) = last_price s"
  "s_last_funding_rate (abs_state s) = last_funding_rate s" "s_next_funding_ms (abs_state s) = next_funding_ms s"
  "s_realized_equity (abs_state s) = realized_equity s" "s_window_id (abs_state s) = 0" "s_fold_id (abs_state s) = 0"
  "s_trades (abs_state s) = map abs_trade (closed_trades s)"
  "s_last_rejection_reason (abs_state s) = last_rejection_reason s"
  by (simp_all add: abs_state_def)

lemma abs_position_fields [simp]:
  "sp_direction (abs_position p) = p_direction p" "sp_entry_price (abs_position p) = p_entry_price p"
  "sp_qty (abs_position p) = p_qty p" "sp_sl_price (abs_position p) = p_sl_price p"
  "sp_tp_price (abs_position p) = p_tp_price p" "sp_entry_bucket_sec (abs_position p) = p_entry_bucket_sec p"
  "sp_entry_fee (abs_position p) = p_entry_fee p" "sp_funding_paid (abs_position p) = p_funding_paid p"
  "sp_entry_ts_ms (abs_position p) = p_entry_ts_ms p"
  by (simp_all add: abs_position_def)

lemma abs_sample_fields [simp]:
  "oe_symbol (abs_sample ev c) = o_symbol ev" "oe_sec (abs_sample ev c) = o_sec ev"
  "oe_ts_ms (abs_sample ev c) = o_ts_ms ev" "oe_close (abs_sample ev c) = c"
  by (simp_all add: abs_sample_def)

lemma write_ok: "db_faults d = [] \<Longrightarrow> snd (db_write d f)" "db_faults d = [] \<Longrightarrow> fst (db_write d f) = f d"
  by (cases d; simp add: db_write_def)+

lemma abs_write_event [simp]: "abs_state (write_event w p sy t r q ts s) = abs_state s"
  by (simp add: abs_state_def frame_simps)

lemma no_faults_write_event: "no_faults s \<Longrightarrow> no_faults (write_event w p sy t r q ts s)"
  by (simp add: no_faults_def write_event_def write_ok)

section \<open>Exits\<close>

lemma abs_build_trade:
  "abs_trade (build_trade cfg pos symbol ts px reason) =
   (let pnl_gross = (if p_direction pos = LONG then fmul (fsub px (p_entry_price pos)) (p_qty pos)
                     else fmul (fsub (p_entry_price pos) px) (p_qty pos));
        exit_fee = fmul (fmul px (p_qty pos)) (if reason = TP then fee_maker cfg else fee_taker cfg);
        total_fee = fadd (p_entry_fee pos) exit_fee;
        pnl_net = fsub (fsub pnl_gross total_fee) (p_funding_paid pos);
        r_dist = \<bar>fsub (p_entry_price pos) (p_sl_price pos)\<bar>
    in \<lparr>st_symbol = symbol, st_direction = p_direction pos, st_entry_ts_ms = p_entry_ts_ms pos,
        st_entry_price = p_entry_price pos, st_qty = p_qty pos, st_sl_price = p_sl_price pos,
        st_tp_price = p_tp_price pos, st_exit_ts_ms = ts, st_exit_price = px, st_exit_reason = reason,
        st_fee_paid = total_fee, st_funding_paid = p_funding_paid pos, st_pnl_gross = pnl_gross, st_pnl_net = pnl_net,
        st_r_multiple = (if 0 < r_dist then (if p_direction pos = LONG then fdiv (fsub px (p_entry_price pos)) r_dist
                           else fdiv (fsub (p_entry_price pos) px) r_dist) else 0),
        st_window_id = 0, st_fold_id = 0\<rparr>)"
  by (auto simp: abs_trade_def build_trade_def Let_def compute_pnl_gross_def compute_exit_fee_def compute_r_multiple_def)

lemma abs_close_position:
  assumes "no_faults s"
  shows "abs_state (close_position cfg wall symbol ts px reason s) =
      sim_close_position (abs_config cfg) symbol ts px reason (abs_state s)"
    and "no_faults (close_position cfg wall symbol ts px reason s)"
proof -
  have "abs_state (close_position cfg wall symbol ts px reason s) =
      sim_close_position (abs_config cfg) symbol ts px reason (abs_state s) \<and>
      no_faults (close_position cfg wall symbol ts px reason s)"
  proof (cases rule: close_position_cases [of s symbol cfg wall ts px reason])
    case absent
    then show ?thesis using assms by (simp add: sim_close_position_def)
  next
    case (failed pos x d)
    then show ?thesis using assms write_ok(1) [of "db s"] by (metis no_faults_def snd_conv)
  next
    case (closed pos x d tr)
    have d: "d = close_position_rows (p_id pos) x (db s)"
      using closed(2) write_ok(2) [of "db s" "close_position_rows (p_id pos) x"] assms by (simp add: no_faults_def)
    have t: "st_pnl_net (abs_trade tr) = t_pnl_net tr" by (simp add: abs_trade_def)
    have "sim_close_position (abs_config cfg) symbol ts px reason (abs_state s) =
        (abs_state s)\<lparr>s_positions := ddel (s_positions (abs_state s)) symbol,
           s_trades := s_trades (abs_state s) @ [abs_trade tr],
           s_realized_equity := fadd (s_realized_equity (abs_state s)) (st_pnl_net (abs_trade tr))\<rparr>"
      unfolding closed(3) abs_build_trade
      by (simp add: sim_close_position_def closed(1) Let_def abs_config_def)
    also have "\<dots> = abs_state (close_position cfg wall symbol ts px reason s)"
      unfolding closed(4) t by (simp add: abs_state_def frame_simps)
    finally have "abs_state (close_position cfg wall symbol ts px reason s) =
      sim_close_position (abs_config cfg) symbol ts px reason (abs_state s)" by (rule sym)
    moreover have "no_faults (close_position cfg wall symbol ts px reason s)"
      unfolding closed(4) using assms by (intro no_faults_write_event) (simp add: no_faults_def d)
    ultimately show ?thesis ..
  qed
  then show "abs_state (close_position cfg wall symbol ts px reason s) =
      sim_close_position (abs_config cfg) symbol ts px reason (abs_state s)"
    "no_faults (close_position cfg wall symbol ts px reason s)" by blast+
qed

lemma abs_check_exits:
  assumes "no_faults s"
  shows "abs_state (check_exits_on_candle cfg wall c symbol s) = sim_check_exits (abs_config cfg) c symbol (abs_state s)"
    and "no_faults (check_exits_on_candle cfg wall c symbol s)"
  using assms
  by (simp_all add: check_exits_on_candle_def sim_check_exits_def Let_def abs_close_position split: option.splits)

lemma candle_cap_abs: "candle_cap_min cfg = 100 \<Longrightarrow> s_candle_cap (abs_config cfg) = candle_cap cfg"
  by (simp add: s_candle_cap_def candle_cap_def abs_config_def)

lemma abs_push:
  "abs_state (s\<lparr>active := a\<rparr>) = (abs_state s)\<lparr>s_active := a\<rparr>"
  "abs_state (s\<lparr>candles := c\<rparr>) = (abs_state s)\<lparr>s_candles := c\<rparr>"
  "abs_state (s\<lparr>positions := p\<rparr>) = (abs_state s)\<lparr>s_positions := abs_positions p\<rparr>"
  "abs_state (s\<lparr>next_funding_ms := n\<rparr>) = (abs_state s)\<lparr>s_next_funding_ms := n\<rparr>"
  "abs_state (s\<lparr>last_price := l, last_price_mono_ms := m\<rparr>) = (abs_state s)\<lparr>s_last_price := l\<rparr>"
  by (simp_all add: abs_state_def)

lemma no_faults_updates [simp]:
  "no_faults (s\<lparr>active := a\<rparr>) = no_faults s" "no_faults (s\<lparr>candles := c\<rparr>) = no_faults s"
  "no_faults (s\<lparr>next_funding_ms := n\<rparr>) = no_faults s" "no_faults (s\<lparr>positions := p\<rparr>) = no_faults s"
  "no_faults (s\<lparr>last_price := l, last_price_mono_ms := m\<rparr>) = no_faults s"
  "no_faults (s\<lparr>last_funding_rate := f\<rparr>) = no_faults s"
  by (simp_all add: no_faults_def)

lemma abs_finalize_active:
  assumes "no_faults s" and "candle_cap_min cfg = 100"
  shows "abs_state (finalize_active cfg wall symbol s) = sim_finalize_active (abs_config cfg) symbol (abs_state s)"
    and "no_faults (finalize_active cfg wall symbol s)"
  using assms
  by (simp_all add: finalize_active_def sim_finalize_active_def Let_def candle_cap_abs abs_push abs_check_exits split: option.splits)

section \<open>Feeds\<close>

lemma abs_new_bucket: "sim_new_bucket b (abs_sample ev c) = new_bucket b ev c"
  by (simp add: sim_new_bucket_def new_bucket_def abs_sample_def)

lemma abs_merge: "sim_merge b (abs_sample ev c) = merge_sample b ev c"
  by (simp add: sim_merge_def merge_sample_def abs_sample_def)

lemma abs_candle_step:
  assumes "no_faults s" and "candle_cap_min cfg = 100"
  shows "abs_state (candle_step cfg wall ev c s) = sim_candle_step (abs_config cfg) (abs_sample ev c) (abs_state s)"
    and "no_faults (candle_step cfg wall ev c s)"
proof -
  have "s_active (sim_finalize_active (abs_config cfg) symbol (abs_state s)) = active (finalize_active cfg wall symbol s)" for symbol
    using abs_fields(1) [of "finalize_active cfg wall symbol s"] assms by (simp add: abs_finalize_active)
  with assms show "abs_state (candle_step cfg wall ev c s) = sim_candle_step (abs_config cfg) (abs_sample ev c) (abs_state s)"
    by (simp add: candle_step_def sim_candle_step_def Let_def abs_new_bucket abs_merge abs_push
        abs_finalize_active split: option.splits)
  show "no_faults (candle_step cfg wall ev c s)"
    using assms by (simp add: candle_step_def Let_def abs_finalize_active split: option.splits)
qed

lemma abs_apply_funding: "abs_state (apply_funding symbol s) = sim_apply_funding symbol (abs_state s)"
proof (cases "dget (positions s) symbol")
  case None
  then show ?thesis by (simp add: apply_funding_def sim_apply_funding_def)
next
  case (Some pos)
  have u: "(abs_position pos)\<lparr>sp_funding_paid := x\<rparr> = abs_position (pos\<lparr>p_funding_paid := x\<rparr>)" for x
    by (simp add: abs_position_def)
  have "fsub a b = fadd a (- b)" for a b by (simp add: fsub_def fadd_def)
  then show ?thesis
    by (simp add: apply_funding_def sim_apply_funding_def Some Let_def compute_funding_delta_def u abs_push)
qed

lemma no_faults_apply_funding [simp]: "no_faults (apply_funding symbol s) = no_faults s"
  by (simp add: apply_funding_def Let_def split: option.splits)

lemma abs_funding_loop:
  "sim_funding_loop incl symbol ts nf (abs_state s) =
     (abs_state (fst (funding_loop incl symbol ts nf s)), snd (funding_loop incl symbol ts nf s))"
proof (induction incl symbol ts nf s rule: funding_loop.induct)
  case (1 incl symbol ts nf s)
  then show ?case
    by (subst sim_funding_loop.simps, subst (1 2) funding_loop.simps)
      (cases "nf \<le> ts"; cases incl; simp add: sim_next_funding_eq abs_apply_funding)
qed

lemma no_faults_funding_loop: "no_faults s \<Longrightarrow> no_faults (fst (funding_loop incl symbol ts nf s))"
proof (induction incl symbol ts nf s rule: funding_loop.induct)
  case (1 incl symbol ts nf s)
  then show ?case by (subst funding_loop.simps) simp
qed

lemma abs_funding_step:
  "abs_state (funding_step cfg symbol ts s) = sim_funding_step (abs_config cfg) symbol ts (abs_state s)"
  unfolding funding_step_def sim_funding_step_def sim_next_funding_eq
  by (simp add: abs_funding_loop abs_push Let_def split_beta abs_config_def)

lemma no_faults_funding_step: "no_faults s \<Longrightarrow> no_faults (funding_step cfg symbol ts s)"
  by (simp add: funding_step_def split_beta Let_def no_faults_funding_loop)

lemma abs_on_ohlcv:
  assumes "no_faults s" "candle_cap_min cfg = 100" "o_close ev = Fin c" "0 < c"
  shows "abs_state (on_ohlcv cfg wall mono_now ev s) = sim_on_ohlcv (abs_config cfg) (abs_sample ev c) (abs_state s)"
    and "no_faults (on_ohlcv cfg wall mono_now ev s)"
proof -
  show "abs_state (on_ohlcv cfg wall mono_now ev s) = sim_on_ohlcv (abs_config cfg) (abs_sample ev c) (abs_state s)"
    using assms
    by (simp add: on_ohlcv_def sim_on_ohlcv_def Let_def abs_candle_step(1) abs_funding_step abs_push flip: abs_fields)
  show "no_faults (on_ohlcv cfg wall mono_now ev s)"
    using assms by (simp add: on_ohlcv_def Let_def no_faults_funding_step abs_candle_step)
qed

lemma abs_on_ticker: "abs_state (on_ticker symbol rate s) = sim_on_ticker symbol rate (abs_state s)"
  by (simp add: on_ticker_def sim_on_ticker_def abs_state_def)

section \<open>Finalization\<close>

lemma abs_final_price: "sim_final_price pr symbol (abs_state s) = final_price pr symbol s"
  by (simp add: sim_final_price_def final_price_def Let_def split: option.splits)

lemma abs_finalize:
  assumes "no_faults s" "candle_cap_min cfg = 100"
  shows "abs_state (finalize cfg wall ts pr s) = sim_finalize (abs_config cfg) ts pr (abs_state s)"
    and "no_faults (finalize cfg wall ts pr s)"
proof -
  have a: "no_faults t \<Longrightarrow>
      abs_state (foldl (\<lambda>s symbol. finalize_active cfg wall symbol s) t ks) =
        foldl (\<lambda>s symbol. sim_finalize_active (abs_config cfg) symbol s) (abs_state t) ks \<and>
      no_faults (foldl (\<lambda>s symbol. finalize_active cfg wall symbol s) t ks)" for t ks
    using assms(2) by (induction ks arbitrary: t) (simp_all add: abs_finalize_active(1) abs_finalize_active(2))
  have b: "no_faults t \<Longrightarrow>
      abs_state (foldl (\<lambda>s symbol. close_position cfg wall symbol ts (final_price pr symbol s) END_OF_BACKTEST s) t ks) =
        foldl (\<lambda>s symbol. sim_close_position (abs_config cfg) symbol ts (sim_final_price pr symbol s) END_OF_BACKTEST s) (abs_state t) ks \<and>
      no_faults (foldl (\<lambda>s symbol. close_position cfg wall symbol ts (final_price pr symbol s) END_OF_BACKTEST s) t ks)" for t ks
    by (induction ks arbitrary: t) (simp_all add: abs_close_position(1) abs_close_position(2) abs_final_price)
  define t where "t = foldl (\<lambda>s symbol. finalize_active cfg wall symbol s) s (keys (active s))"
  have t: "abs_state t = foldl (\<lambda>s symbol. sim_finalize_active (abs_config cfg) symbol s) (abs_state s) (keys (active s))"
    "no_faults t" using a [OF assms(1)] by (simp_all add: t_def)
  have k: "keys (s_positions (abs_state t)) = keys (positions t)" by simp
  show "abs_state (finalize cfg wall ts pr s) = sim_finalize (abs_config cfg) ts pr (abs_state s)"
    using b [OF t(2)] k by (simp add: finalize_def sim_finalize_def Let_def flip: t_def t(1) del: abs_fields(3))
  show "no_faults (finalize cfg wall ts pr s)"
    using b [OF t(2)] by (simp add: finalize_def Let_def flip: t_def)
qed

section \<open>Runs\<close>

text \<open>A simulation between two event machines: the abstraction of the concrete step is the abstract
  step on the abstracted event, as long as a side condition holds, and the concrete step keeps it.\<close>

locale simulation =
  fixes cstep :: "'e \<Rightarrow> 's \<Rightarrow> 's" and astep :: "'f \<Rightarrow> 't \<Rightarrow> 't"
    and absS :: "'s \<Rightarrow> 't" and absE :: "'e \<Rightarrow> 'f" and okS :: "'s \<Rightarrow> bool" and okE :: "'e \<Rightarrow> bool"
  assumes step_abs: "okS s \<Longrightarrow> okE e \<Longrightarrow> absS (cstep e s) = astep (absE e) (absS s)"
    and step_ok: "okS s \<Longrightarrow> okE e \<Longrightarrow> okS (cstep e s)"
begin

lemma run_ok: "okS s \<Longrightarrow> list_all okE es \<Longrightarrow> okS (fold cstep es s)"
  by (induction es arbitrary: s) (simp_all add: step_ok)

lemma run_abs: "okS s \<Longrightarrow> list_all okE es \<Longrightarrow> absS (fold cstep es s) = fold astep (map absE es) (absS s)"
  by (induction es arbitrary: s) (simp_all add: step_ok step_abs)

end

text \<open>The market feeds of both machines: completed one second samples, funding rates and the end of
  the stream.\<close>

datatype feed =
    FeedOhlcv ohlcv_sample rat
  | FeedTicker string "rat option"
  | FeedEnd int "string \<rightharpoonup> rat"

fun paper_feed :: "paper_config \<Rightarrow> int \<Rightarrow> int \<Rightarrow> feed \<Rightarrow> paper_state \<Rightarrow> paper_state" where
  "paper_feed cfg wall mono_now (FeedOhlcv ev c) s = on_ohlcv cfg wall mono_now (ev\<lparr>o_close := Fin c\<rparr>) s"
| "paper_feed cfg wall mono_now (FeedTicker symbol rate) s = on_ticker symbol rate s"
| "paper_feed cfg wall mono_now (FeedEnd ts pr) s = finalize cfg wall ts pr s"

fun sim_feed :: "sim_config \<Rightarrow> feed \<Rightarrow> sim_state \<Rightarrow> sim_state" where
  "sim_feed cfg (FeedOhlcv ev c) s = sim_on_ohlcv cfg (abs_sample ev c) s"
| "sim_feed cfg (FeedTicker symbol rate) s = sim_on_ticker symbol rate s"
| "sim_feed cfg (FeedEnd ts pr) s = sim_finalize cfg ts pr s"

fun feed_ok :: "feed \<Rightarrow> bool" where
  "feed_ok (FeedOhlcv ev c) = (0 < c)"
| "feed_ok _ = True"

lemma no_faults_on_ticker: "no_faults (on_ticker symbol rate s) = no_faults s"
  by (simp add: on_ticker_def)

lemma abs_sample_close [simp]: "abs_sample (ev\<lparr>o_close := x\<rparr>) c = abs_sample ev c"
  by (simp add: abs_sample_def)

lemma paper_feed_abs:
  assumes "candle_cap_min cfg = 100" "no_faults s" "feed_ok e"
  shows "abs_state (paper_feed cfg wall mono_now e s) = sim_feed (abs_config cfg) e (abs_state s)"
    and "no_faults (paper_feed cfg wall mono_now e s)"
  using assms by (cases e; simp add: abs_on_ohlcv abs_on_ticker abs_finalize no_faults_on_ticker)+

interpretation paper_sim: simulation "paper_feed (cfg\<lparr>candle_cap_min := 100\<rparr>) wall mono_now" "sim_feed (abs_config cfg)"
  abs_state id no_faults feed_ok for cfg :: paper_config and wall mono_now
proof unfold_locales
  fix s :: paper_state and e
  have c: "abs_config (cfg\<lparr>candle_cap_min := 100\<rparr>) = abs_config cfg" by (simp add: abs_config_def)
  assume "no_faults s" "feed_ok e"
  then show "abs_state (paper_feed (cfg\<lparr>candle_cap_min := 100\<rparr>) wall mono_now e s) = sim_feed (abs_config cfg) (id e) (abs_state s)"
    "no_faults (paper_feed (cfg\<lparr>candle_cap_min := 100\<rparr>) wall mono_now e s)"
    using paper_feed_abs [of "cfg\<lparr>candle_cap_min := 100\<rparr>" s e wall mono_now] by (simp_all add: c)
qed

end
