(* ===== verification/Paper_Properties.thy ===== *)
theory Paper_Properties
  imports Paper_Invariants
begin

text \<open>
  The properties of the paper position manager, each with a run that satisfies its hypotheses. The
  demo configuration uses powers of two so that the float operations of the run are exact.
\<close>

section \<open>A run that opens and closes a position\<close>

definition demo_config :: paper_config where
  "demo_config = \<lparr>initial_equity = 1024, risk_pct = 1 / 64, atr_period = 1, sl_atr_multiplier = 1 / 2,
     tp_r_multiple = 2, max_sl_distance_pct = 1, min_sl_distance_pct = 0, entry_slippage_bps = 0,
     fee_taker = 1 / 1024, fee_maker = 0, include_funding = True, max_positions_per_symbol = 1,
     max_positions_global = 2, stale_price_ms = 5000, config_profile_tag = ''PAPER_TEST'', candle_cap_min = 100\<rparr>"

definition demo_db :: "db_outcome list \<Rightarrow> paper_db" where
  "demo_db fs = \<lparr>db_rows = [], db_events = [], db_faults = fs\<rparr>"

definition demo_start :: paper_state where
  "demo_start = init_state demo_config (demo_db [])"

definition demo_bar :: "int \<Rightarrow> rat \<Rightarrow> rat \<Rightarrow> rat \<Rightarrow> paper_event" where
  "demo_bar sec hi lo cl = Ohlcv 0 0 \<lparr>o_symbol = ''B'', o_sec = sec, o_ts_ms = sec * 1000, o_open = cl,
     o_high = hi, o_low = lo, o_close = Fin cl\<rparr>"

definition demo_open :: "paper_event list" where
  "demo_open = [demo_bar 0 64 60 62, demo_bar 5 66 62 64, demo_bar 10 66 62 64,
     Entry 7 ''B'' LONG 12000 (Some (Fin 64)) 100]"

definition demo_close :: "paper_event list" where
  "demo_close = [demo_bar 15 65 58 60, demo_bar 20 61 59 60]"

definition demo_final :: paper_state where
  "demo_final = paper_run demo_config (demo_open @ demo_close) demo_start"

text \<open>One evaluation of the run checks the freshness of its entries and reads off the outcome.\<close>

fun paper_exec :: "paper_config \<Rightarrow> paper_event list \<Rightarrow> paper_state \<Rightarrow> paper_state option" where
  "paper_exec cfg [] s = Some s"
| "paper_exec cfg (e # es) s = (if fresh_event e s then paper_exec cfg es (paper_step cfg e s) else None)"

lemma paper_exec_reachable:
  "paper_exec cfg es s = Some s' \<Longrightarrow> reachable cfg s0 s \<Longrightarrow> reachable cfg s0 s' \<and> s' = paper_run cfg es s"
  by (induction es arbitrary: s) (auto split: if_splits intro: reachable.step)

lemma paper_exec_admitted: "paper_exec cfg es s = Some s' \<Longrightarrow> admitted_run fresh_event cfg es s"
  by (induction es arbitrary: s) (auto split: if_splits)

definition demo_summary :: "paper_state \<Rightarrow> (string \<times> rat \<times> rat) list \<times> (string \<times> paper_position) list \<times> nat" where
  "demo_summary s = (map (\<lambda>t. (t_exit_reason t, t_exit_price t, t_pnl_net t)) (closed_trades s), positions s,
     length (db_rows (db s)))"

lemma demo_exec:
  "map_option demo_summary (paper_exec demo_config (demo_open @ demo_close) demo_start) =
   Some ([(SL, 62, - 1087 / 64)], [], 1)"
  by code_simp

lemma demo_final_facts:
  "reachable demo_config demo_start demo_final" "demo_summary demo_final = ([(SL, 62, - 1087 / 64)], [], 1)"
proof -
  obtain s where s: "paper_exec demo_config (demo_open @ demo_close) demo_start = Some s"
    "demo_summary s = ([(SL, 62, - 1087 / 64)], [], 1)" using demo_exec by auto
  have e: "s = demo_final" and r: "reachable demo_config demo_start s"
    using paper_exec_reachable [OF s(1) reachable.start] unfolding demo_final_def by blast+
  show "reachable demo_config demo_start demo_final" using r unfolding e .
  show "demo_summary demo_final = ([(SL, 62, - 1087 / 64)], [], 1)" using s(2) unfolding e .
qed

lemma demo_final_one_trade: "length (closed_trades demo_final) = 1"
proof -
  have "map (\<lambda>t. (t_exit_reason t, t_exit_price t, t_pnl_net t)) (closed_trades demo_final) = [(SL, 62, - 1087 / 64)]"
    using demo_final_facts(2) by (simp add: demo_summary_def)
  from arg_cong [OF this, of length] show ?thesis by (simp only: length_map length_Cons list.size One_nat_def add_0)
qed

lemma demo_tp: "0 \<le> tp_r_multiple demo_config"
  by (simp add: demo_config_def)

definition demo_held :: paper_state where
  "demo_held = paper_run demo_config demo_open demo_start"

lemma demo_held_exec:
  "map_option (\<lambda>s. (map (\<lambda>(k, p). (k, p_sl_price p, p_tp_price p, p_qty p)) (positions s), keys (active s)))
     (paper_exec demo_config demo_open demo_start) = Some ([(''B'', 62, 68, 8)], [''B''])"
  by code_simp

lemma demo_held_facts:
  "reachable demo_config demo_start demo_held" "admitted_run fresh_event demo_config demo_open demo_start"
  "map (\<lambda>(k, p). (k, p_sl_price p, p_tp_price p, p_qty p)) (positions demo_held) = [(''B'', 62, 68, 8)]"
proof -
  obtain s where s: "paper_exec demo_config demo_open demo_start = Some s"
    "map (\<lambda>(k, p). (k, p_sl_price p, p_tp_price p, p_qty p)) (positions s) = [(''B'', 62, 68, 8)]"
    using demo_held_exec by auto
  have e: "s = demo_held" and r: "reachable demo_config demo_start s"
    using paper_exec_reachable [OF s(1) reachable.start] unfolding demo_held_def by blast+
  show "reachable demo_config demo_start demo_held" using r unfolding e .
  show "admitted_run fresh_event demo_config demo_open demo_start" by (rule paper_exec_admitted [OF s(1)])
  show "map (\<lambda>(k, p). (k, p_sl_price p, p_tp_price p, p_qty p)) (positions demo_held) = [(''B'', 62, 68, 8)]"
    using s(2) unfolding e .
qed

section \<open>Accounting\<close>

text \<open>C1: in every reachable state of the manager the realized equity is the initial equity plus
  the net PnL of the closed trades, added in closing order with the rounding of each addition: no
  operation changes the equity without booking a trade, and no trade is booked twice or lost.\<close>

theorem paper_accounting:
  assumes "reachable cfg (init_state cfg d) s"
  shows "realized_equity s = foldl fadd (initial_equity cfg) (map t_pnl_net (closed_trades s))"
proof -
  have "accounted cfg (init_state cfg d)" by (simp add: accounted_def init_state_def)
  from accounts.reachable_keeps [OF assms TrueI this] show ?thesis by (simp add: accounted_def)
qed

theorem paper_accounting_witness:
  "realized_equity demo_final = foldl fadd (initial_equity demo_config) (map t_pnl_net (closed_trades demo_final)) \<and>
   length (closed_trades demo_final) = 1"
  using paper_accounting [of demo_config "demo_db []" demo_final] demo_final_facts(1) demo_final_one_trade
  by (simp add: demo_start_def)

text \<open>Lemma: in every reachable state each symbol has at most one open position, stored under its own
  symbol, and the number of open positions never exceeds the global limit of the configuration.\<close>

theorem paper_position_limit:
  assumes "reachable cfg (init_state cfg d) s"
  shows "distinct (keys (positions s)) \<and> (\<forall>(k, p)\<in>set (positions s). p_symbol p = k) \<and>
    length (positions s) \<le> nat (max_positions_global cfg)"
proof -
  have "within_limit cfg (init_state cfg d)" by (simp add: within_limit_def init_state_def)
  from limit.reachable_keeps [OF assms TrueI this] show ?thesis
    by (auto simp: within_limit_def keyed_def wf_dict_def)
qed

theorem paper_position_limit_witness:
  "length (positions demo_held) = 1 \<and> 1 \<le> nat (max_positions_global demo_config) \<and> distinct (keys (positions demo_held))"
  using paper_position_limit [of demo_config "demo_db []" demo_held] demo_held_facts
  by (auto simp: demo_start_def)

text \<open>C12: with a non-negative target multiple, in every reachable state every open position has a
  positive size and its stop and target on the losing and winning side of the entry, and every closed
  trade left at exactly its stop with no gross gain, at exactly its target with no gross loss, or at
  the end of the run.\<close>

theorem paper_book_sound:
  assumes "reachable cfg (init_state cfg d) s" and "0 \<le> tp_r_multiple cfg"
  shows "(\<forall>(k, p)\<in>set (positions s). bracketed p) \<and> (\<forall>t\<in>set (closed_trades s). trade_ok t)"
proof -
  have "book_ok cfg (init_state cfg d)" by (simp add: book_ok_def init_state_def)
  from book.reachable_keeps [OF assms(1) TrueI this] assms(2) show ?thesis by (auto simp: book_ok_def)
qed

theorem paper_book_sound_witness:
  "positions demo_held \<noteq> [] \<and> closed_trades demo_final \<noteq> [] \<and>
   list_all (\<lambda>(k, p). bracketed p) (positions demo_held) \<and> list_all trade_ok (closed_trades demo_final)"
  using paper_book_sound [of demo_config "demo_db []" demo_held] paper_book_sound [of demo_config "demo_db []" demo_final]
    demo_held_facts demo_final_facts(1) demo_final_one_trade demo_tp
  by (auto simp: demo_start_def list_all_iff)

section \<open>The database and restarts\<close>

lemma repeated_rows: "\<not> fresh_id symbol ts s \<Longrightarrow> db_rows (db (fst (on_entry cfg wall symbol direction ts price now_mono s))) = db_rows (db s)"
proof -
  have w: "db_rows (fst (db_write d (insert_position_row row))) = db_rows d"
    if "\<exists>r \<in> set (db_rows d). p_id (r_pos r) = p_id (r_pos row)" for d row
    using that by (cases "db_faults d") (auto simp: db_write_def Let_def insert_position_row_def split: db_outcome.splits)
  assume r: "\<not> fresh_id symbol ts s"
  have s: "db_rows (db (fst (open_sized cfg wall symbol direction ts fill sld t))) = db_rows (db s)" if "db t = db s" for fill sld t
    using r that w [of "db s"]
    by (auto simp: open_sized_def Let_def split_beta write_position_open_def frame_simps reject_def set_rejection_def fresh_id_def build_position_def)
  show ?thesis
    by (auto simp: on_entry_def Let_def reject_def set_rejection_def frame_simps s split: option.split)
qed

lemma entered_position:
  "snd (on_entry cfg wall symbol direction ts price now_mono s) \<Longrightarrow>
   dget (positions s) symbol = None \<and> dget (positions (fst (on_entry cfg wall symbol direction ts price now_mono s))) symbol \<noteq> None"
proof -
  have o: "snd (open_sized cfg wall symbol direction ts fill sld t) \<Longrightarrow>
      \<exists>p. dget (positions (fst (open_sized cfg wall symbol direction ts fill sld t))) symbol = Some p" for fill sld t
    by (auto simp: open_sized_def Let_def split_beta frame_simps dget_dset)
  show "snd (on_entry cfg wall symbol direction ts price now_mono s) \<Longrightarrow> ?thesis"
    unfolding on_entry_def Let_def by (auto simp: frame_simps o split: option.splits if_splits)
qed

definition recovered :: "paper_config \<Rightarrow> paper_state \<Rightarrow> (string, paper_position) dict" where
  "recovered cfg s = positions (fst (on_startup True (init_state cfg (db s))))"

lemma recovered_rows: "db_rows (db s) = db_rows (db s') \<Longrightarrow> recovered cfg s = recovered cfg s'"
  by (simp add: recovered_def on_startup_def Let_def init_state_def open_rows_def)

text \<open>C2: if no commit fails after its statement took effect (statements may fail outright), then after
  any run from an empty database in which no entry carries the symbol and the signal time of a row that is already in the table, a
  fresh manager started on that database loads exactly the open positions, in the same order and with every field, except that the
  funding paid so far is lost: it is written as zero at entry and never updated. The condition is needed: an entry after such
  a run that repeats the symbol and the signal time of a row and is accepted opens a position that is held in memory and that a restart
  does not load.\<close>

theorem paper_recovery:
  assumes "CommitFail \<notin> set fs" and "admitted_run fresh_event cfg es (init_state cfg (demo_db fs))"
  defines "s \<equiv> paper_run cfg es (init_state cfg (demo_db fs))"
  shows "recovered cfg' s = map (\<lambda>(k, p). (k, p\<lparr>p_funding_paid := 0\<rparr>)) (positions s)
    \<and> (case on_entry cfg wall symbol direction ts price now_mono s of (s', entered) \<Rightarrow>
          entered \<and> \<not> fresh_id symbol ts s \<longrightarrow> dget (positions s') symbol \<noteq> None \<and> dget (recovered cfg' s') symbol = None)"
proof -
  have "db_synced (init_state cfg (demo_db fs))" using assms(1)
    by (simp add: db_synced_def init_state_def demo_db_def row_ids_def open_view_def open_rows_def persisted_view_def)
  from sync.run_keeps [OF assms(2) this] recovery_positions [of s cfg']
  have r: "recovered cfg' s = persisted_view (positions s)" by (simp add: s_def recovered_def)
  have "dget (recovered cfg' s) symbol = None" if "dget (positions s) symbol = None"
    using that by (simp add: r dget_None_iff)
  then have "dget (recovered cfg' (fst (on_entry cfg wall symbol direction ts price now_mono s))) symbol = None"
    if "\<not> fresh_id symbol ts s" "dget (positions s) symbol = None"
    using that recovered_rows [OF repeated_rows] by metis
  then show ?thesis
    using r entered_position [of cfg wall symbol direction ts price now_mono s] by (auto simp: persisted_view_def persisted_def [abs_def])
qed

theorem paper_recovery_witness:
  "positions demo_held \<noteq> [] \<and> recovered demo_config demo_held = map (\<lambda>(k, p). (k, p\<lparr>p_funding_paid := 0\<rparr>)) (positions demo_held)"
  using paper_recovery [of "[]" demo_config demo_open demo_config] demo_held_facts
  by (auto simp: demo_start_def demo_held_def)

text \<open>Lemma: a failed commit breaks that agreement, because the code neither rolls back nor retries: there is
  a run in which the entry is reported as rejected and no position is held, while the table holds an
  open row, which a restart turns into a position.\<close>

theorem paper_commit_failure_ghost:
  "\<exists>s. reachable demo_config (init_state demo_config (demo_db [CommitFail])) s \<and>
     positions s = [] \<and> last_rejection_reason s = Some ''db_write_failed'' \<and>
     positions (fst (on_startup True (init_state demo_config (db s)))) \<noteq> []"
proof -
  let ?s0 = "init_state demo_config (demo_db [CommitFail])"
  have e: "map_option (\<lambda>s. (positions s, last_rejection_reason s,
       keys (positions (fst (on_startup True (init_state demo_config (db s)))))))
     (paper_exec demo_config demo_open ?s0) = Some ([], Some ''db_write_failed'', [''B''])"
    by code_simp
  then obtain s where s: "paper_exec demo_config demo_open ?s0 = Some s" "positions s = []"
    "last_rejection_reason s = Some ''db_write_failed''"
    "keys (positions (fst (on_startup True (init_state demo_config (db s))))) = [''B'']" by auto
  from s(4) have "positions (fst (on_startup True (init_state demo_config (db s)))) \<noteq> []"
    by (auto simp: keys_def)
  with s paper_exec_reachable [OF s(1) reachable.start] show ?thesis by blast
qed

end
