(* ===== verification/Paper_Lifecycle.thy ===== *)
theory Paper_Lifecycle
  imports Paper_Properties
begin

text \<open>
  The life of one position in the paper manager: when \<^verbatim>\<open>on_entry\<close> opens it and what it opens, when a
  finished candle closes it and at which price, and how often funding is charged.
\<close>

section \<open>Entry\<close>

text \<open>What \<open>on_entry\<close> asks before it sizes a position: the price is fresh, finite and positive, the symbol is
  free, the limits hold, the ATR is there, and slippage and stop distance come out positive.\<close>

definition entry_quote :: "paper_config \<Rightarrow> string \<Rightarrow> string \<Rightarrow> pyfloat option \<Rightarrow> int \<Rightarrow> paper_state \<Rightarrow> (rat \<times> rat) option" where
  "entry_quote cfg symbol direction price now_mono s =
     (case (last_price_mono_ms s symbol, Option.bind price finite_value,
            compute_atr (case candles s symbol of None \<Rightarrow> [] | Some l \<Rightarrow> l) (atr_period cfg)) of
        (Some last_mono, Some px, Some atr) \<Rightarrow>
          (let fill = apply_entry_slippage px direction (entry_slippage_bps cfg);
               sld = compute_sl_distance atr fill (sl_atr_multiplier cfg) (max_sl_distance_pct cfg) (min_sl_distance_pct cfg)
           in if now_mono - last_mono \<le> stale_price_ms cfg \<and> 0 < px \<and> dget (positions s) symbol = None \<and>
                 int (length (positions s)) < max_positions_global cfg \<and> 1 \<le> max_positions_per_symbol cfg \<and>
                 0 < atr \<and> 0 < fill \<and> 0 < sld
              then Some (fill, sld) else None)
      | _ \<Rightarrow> None)"

lemma on_entry_quote:
  "on_entry cfg wall symbol direction ts price now_mono s =
     (case entry_quote cfg symbol direction price now_mono s of
        Some (fill, sld) \<Rightarrow> open_sized cfg wall symbol direction ts fill sld (s\<lparr>last_rejection_reason := None\<rparr>)
      | None \<Rightarrow> on_entry cfg wall symbol direction ts price now_mono s)"
  by (auto simp: entry_quote_def on_entry_def Let_def not_le not_less split: option.splits)

lemma on_entry_no_quote:
  assumes "entry_quote cfg symbol direction price now_mono s = None"
  shows "snd (on_entry cfg wall symbol direction ts price now_mono s) = False"
    and "positions (fst (on_entry cfg wall symbol direction ts price now_mono s)) = positions s"
    and "last_rejection_reason (fst (on_entry cfg wall symbol direction ts price now_mono s)) \<noteq> None"
  using assms
  by (auto simp: entry_quote_def on_entry_def Let_def frame_simps set_rejection_def split: option.splits if_splits)

definition entry_qty :: "paper_config \<Rightarrow> rat \<Rightarrow> paper_state \<Rightarrow> rat" where
  "entry_qty cfg sld s = compute_qty (equity s) (risk_pct cfg) sld"

lemma equity_rejection [simp]: "equity (s\<lparr>last_rejection_reason := r\<rparr>) = equity s"
  by (simp add: equity_def)

lemma write_position_open_outcome:
  assumes "write_position_open cfg wall pos s = (s', ok)"
  shows "ok \<longleftrightarrow> fst (next_outcome (db_faults (db s))) = DbOk" "positions s' = positions s"
  using assms
  by (cases "db_faults (db s)"; auto simp: write_position_open_def db_write_def Let_def split: db_outcome.splits)+

lemma open_sized_outcome:
  assumes "open_sized cfg wall symbol direction ts fill sld s = (s', ok)"
  shows "(ok \<longleftrightarrow> 0 < entry_qty cfg sld s \<and> fst (next_outcome (db_faults (db s))) = DbOk) \<and>
    positions s' = (if ok then dset (positions s) symbol
           (build_position cfg symbol direction ts fill sld (entry_qty cfg sld s)) else positions s) \<and>
    (\<not> ok \<longrightarrow> last_rejection_reason s' \<noteq> None)"
proof (cases "0 < entry_qty cfg sld s")
  case False
  then have "open_sized cfg wall symbol direction ts fill sld s = reject wall symbol ts ''invalid_qty'' s"
    by (simp add: open_sized_def entry_qty_def Let_def not_less)
  with assms False have "s' = fst (reject wall symbol ts ''invalid_qty'' s)" "ok = snd (reject wall symbol ts ''invalid_qty'' s)"
    by simp_all
  with False show ?thesis by (simp add: frame_simps)
next
  case True
  let ?pos = "build_position cfg symbol direction ts fill sld (entry_qty cfg sld s)"
  obtain s1 ok1 where w: "write_position_open cfg wall ?pos s = (s1, ok1)" by fastforce
  note o = write_position_open_outcome [OF w]
  have "open_sized cfg wall symbol direction ts fill sld s =
    (if \<not> ok1 then (set_rejection ''db_write_failed'' s1, False)
     else (write_event wall (Some (p_id ?pos)) symbol ''ENTRY'' None (Some ts) ts
             (s1\<lparr>positions := dset (positions s1) symbol ?pos\<rparr>), True))"
    using True w by (simp add: open_sized_def entry_qty_def Let_def)
  with assms o True show ?thesis by (cases ok1) (auto simp: frame_simps set_rejection_def)
qed

text \<open>C35: an entry succeeds exactly when the quote conditions hold, the size computed from the current
  mark-to-market equity is positive and the database accepted the row; then exactly one position, built
  from the quote, is added under the symbol. In every other case the positions are unchanged and a
  rejection reason is recorded.\<close>

theorem paper_entry_decision:
  assumes "on_entry cfg wall symbol direction ts price now_mono s = (s', ok)"
  shows "(ok \<longleftrightarrow> (\<exists>fill sld. entry_quote cfg symbol direction price now_mono s = Some (fill, sld) \<and>
           0 < entry_qty cfg sld s \<and> fst (next_outcome (db_faults (db s))) = DbOk)) \<and>
    (if ok then \<exists>fill sld. entry_quote cfg symbol direction price now_mono s = Some (fill, sld) \<and>
           positions s' = positions s @ [(symbol, build_position cfg symbol direction ts fill sld (entry_qty cfg sld s))]
     else positions s' = positions s \<and> last_rejection_reason s' \<noteq> None)"
proof -
  let ?s = "s\<lparr>last_rejection_reason := None\<rparr>"
  consider (quote) fill sld where "entry_quote cfg symbol direction price now_mono s = Some (fill, sld)"
    | (none) "entry_quote cfg symbol direction price now_mono s = None" by fastforce
  then show ?thesis
  proof cases
    case quote
    then have "open_sized cfg wall symbol direction ts fill sld ?s = (s', ok)"
      using assms on_entry_quote [of cfg wall symbol direction ts price now_mono s] by simp
    note o = open_sized_outcome [OF this]
    have "dget (positions s) symbol = None"
      using quote by (auto simp: entry_quote_def Let_def split: option.splits if_splits)
    then have new: "dset (positions s) symbol q = positions s @ [(symbol, q)]" for q
      by (simp add: dset_new dget_None_iff)
    have q: "entry_qty cfg sld ?s = entry_qty cfg sld s" by (simp add: entry_qty_def)
    show ?thesis using quote o by (cases ok) (simp_all add: new q)
  next
    case none
    with on_entry_no_quote [OF none, of wall ts] assms show ?thesis by simp
  qed
qed

definition demo_candle :: "int \<Rightarrow> rat \<Rightarrow> rat \<Rightarrow> rat \<Rightarrow> candle" where
  "demo_candle sec hi lo cl = \<lparr>c_sec = sec, c_ts_ms = sec * 1000, c_open = cl, c_high = hi, c_low = lo, c_close = cl\<rparr>"

definition demo_ready :: paper_state where
  "demo_ready = demo_start\<lparr>candles := [''B'' \<mapsto> [demo_candle 0 64 60 62, demo_candle 5 66 62 64]],
     last_price := [''B'' \<mapsto> 64], last_price_mono_ms := [''B'' \<mapsto> 0]\<rparr>"

lemma demo_ready_entry:
  "snd (on_entry demo_config 7 ''B'' SHORT 12000 (Some (Fin 64)) 100 demo_ready)"
  by code_simp

theorem paper_entry_decision_witness:
  "\<exists>fill sld. entry_quote demo_config ''B'' SHORT (Some (Fin 64)) 100 demo_ready = Some (fill, sld) \<and>
     positions (fst (on_entry demo_config 7 ''B'' SHORT 12000 (Some (Fin 64)) 100 demo_ready)) =
       positions demo_ready @ [(''B'', build_position demo_config ''B'' SHORT 12000 fill sld (entry_qty demo_config sld demo_ready))]"
  using paper_entry_decision [of demo_config 7 "''B''" SHORT 12000 "Some (Fin 64)" 100 demo_ready
      "fst (on_entry demo_config 7 ''B'' SHORT 12000 (Some (Fin 64)) 100 demo_ready)" True] demo_ready_entry
  by (simp add: prod_eq_iff)

section \<open>Exit\<close>

definition stop_hit :: "paper_position \<Rightarrow> candle \<Rightarrow> bool" where
  "stop_hit p c \<longleftrightarrow> (if p_direction p = LONG then c_low c \<le> p_sl_price p else p_sl_price p \<le> c_high c)"

definition target_hit :: "paper_position \<Rightarrow> candle \<Rightarrow> bool" where
  "target_hit p c \<longleftrightarrow> (if p_direction p = LONG then p_tp_price p \<le> c_high c else c_low c \<le> p_tp_price p)"

definition candle_exit :: "paper_position \<Rightarrow> candle \<Rightarrow> (rat \<times> string) option" where
  "candle_exit p c =
     (if c_sec c \<le> p_entry_bucket_sec p then None
      else if stop_hit p c then Some (p_sl_price p, SL)
      else if target_hit p c then Some (p_tp_price p, TP) else None)"

lemma check_exits_exit:
  "dget (positions s) symbol = Some p \<Longrightarrow>
   check_exits_on_candle cfg wall c symbol s =
     (case candle_exit p c of None \<Rightarrow> s | Some (px, r) \<Rightarrow> close_position cfg wall symbol (c_ts_ms c) px r s)"
  by (auto simp: check_exits_on_candle_def candle_exit_def stop_hit_def target_hit_def Let_def)

lemma close_position_effect:
  assumes "dget (positions s) symbol = Some p"
  shows "\<exists>done. (done \<longleftrightarrow> fst (next_outcome (db_faults (db s))) = DbOk) \<and>
    (let s' = close_position cfg wall symbol ts px reason s; tr = build_trade cfg p symbol ts px reason in
     if done then positions s' = ddel (positions s) symbol \<and> closed_trades s' = closed_trades s @ [tr] \<and>
        realized_equity s' = fadd (realized_equity s) (t_pnl_net tr)
     else positions s' = positions s \<and> closed_trades s' = closed_trades s \<and> realized_equity s' = realized_equity s)"
  using assms
  by (cases "db_faults (db s)")
    (auto simp: close_position_def Let_def frame_simps write_position_close_def db_write_def split: db_outcome.splits)

text \<open>C36: a finished candle never closes a position entered in the same or a later bucket; otherwise a candle
  that touches the stop closes it at the stop price even if it also touches the target, one that only
  touches the target closes it at the target price, and any other leaves the state as it is. The close
  is all or nothing: with the database commit the position is removed, its trade booked and the equity
  moved by its net PnL, without it positions, trades and equity stay as they were.\<close>

theorem paper_exit_rule:
  assumes "dget (positions s) symbol = Some p" and "s' = check_exits_on_candle cfg wall c symbol s"
  shows "case candle_exit p c of
      None \<Rightarrow> s' = s
    | Some (px, r) \<Rightarrow>
        (let tr = build_trade cfg p symbol (c_ts_ms c) px r in
         if fst (next_outcome (db_faults (db s))) = DbOk
         then positions s' = ddel (positions s) symbol \<and> closed_trades s' = closed_trades s @ [tr] \<and>
              realized_equity s' = fadd (realized_equity s) (t_pnl_net tr)
         else positions s' = positions s \<and> closed_trades s' = closed_trades s \<and>
              realized_equity s' = realized_equity s)"
  using close_position_effect [OF assms(1), of cfg wall "c_ts_ms c"] assms(2)
  by (auto simp: check_exits_exit [OF assms(1)] Let_def split: option.split)

definition demo_position :: paper_position where
  "demo_position = build_position demo_config ''B'' LONG 12000 64 2 8"

lemma demo_candle_exit: "candle_exit demo_position (demo_candle 15 70 58 60) = Some (62, SL)"
  by code_simp

theorem paper_exit_rule_witness:
  "closed_trades (check_exits_on_candle demo_config 9 (demo_candle 15 70 58 60) ''B''
      (demo_start\<lparr>positions := [(''B'', demo_position)]\<rparr>)) =
   [build_trade demo_config demo_position ''B'' 15000 62 SL]"
  using paper_exit_rule [of "demo_start\<lparr>positions := [(''B'', demo_position)]\<rparr>" "''B''" demo_position _
      demo_config 9 "demo_candle 15 70 58 60", OF _ refl]
  by (simp add: dget_Cons demo_candle_exit Let_def demo_start_def init_state_def demo_db_def)
    (simp add: demo_candle_def)

section \<open>Funding\<close>

lemma funding_loop_closed:
  "nf mod FUNDING_MS = 0 \<Longrightarrow>
   funding_loop incl symbol ts nf s =
     (let k = (if nf \<le> ts then nat ((ts - nf) div FUNDING_MS) + 1 else 0)
      in ((if incl then (apply_funding symbol ^^ k) s else s), nf + int k * FUNDING_MS))"
proof (induction incl symbol ts nf s rule: funding_loop.induct)
  case (1 incl symbol ts nf s)
  show ?case
  proof (cases "nf \<le> ts")
    case False
    then show ?thesis by (subst funding_loop.simps) simp
  next
    case True
    have nx: "next_funding_ts_ms (nf + 1) = nf + FUNDING_MS" using "1.prems" by (rule next_funding_of_boundary)
    have pos: "0 < FUNDING_MS" by (simp add: FUNDING_MS_def)
    define k where "k = (if nf + FUNDING_MS \<le> ts then nat ((ts - (nf + FUNDING_MS)) div FUNDING_MS) + 1 else 0)"
    have k: "nat ((ts - nf) div FUNDING_MS) = k"
    proof (cases "nf + FUNDING_MS \<le> ts")
      case le: True
      have "(ts - nf) div FUNDING_MS = (ts - (nf + FUNDING_MS)) div FUNDING_MS + 1"
        using div_add_self2 [of FUNDING_MS "ts - (nf + FUNDING_MS)"] pos by (simp add: algebra_simps)
      moreover have "0 \<le> (ts - (nf + FUNDING_MS)) div FUNDING_MS" using le pos by (simp add: pos_imp_zdiv_nonneg_iff)
      ultimately show ?thesis using le by (simp add: k_def nat_add_distrib)
    next
      case gt: False
      with True have "(ts - nf) div FUNDING_MS = 0" by (intro div_pos_pos_trivial) auto
      with gt show ?thesis by (simp add: k_def)
    qed
    have ih: "funding_loop incl symbol ts (nf + FUNDING_MS) (if incl then apply_funding symbol s else s) =
      ((if incl then (apply_funding symbol ^^ k) (apply_funding symbol s) else s), nf + FUNDING_MS + int k * FUNDING_MS)"
      using "1.IH" [OF True] "1.prems" nx by (simp add: k_def Let_def)
    show ?thesis
      unfolding funding_loop.simps [of incl symbol ts nf s] if_P [OF True] nx ih Let_def k
      by (simp add: funpow_swap1 algebra_simps)
  qed
qed

text \<open>Lemma: the loop charges funding once for every boundary of the eight hour schedule from the symbol's
  next funding time up to and including the sample, and leaves the first boundary after the sample as
  the next one; with funding switched off only the time moves. It always ends.\<close>

theorem paper_funding_schedule:
  assumes "next_funding_ms s symbol = Some nf" and "nf mod FUNDING_MS = 0"
  shows "let k = (if nf \<le> ts then nat ((ts - nf) div FUNDING_MS) + 1 else 0);
             s' = funding_step cfg symbol ts s
         in positions s' = (if include_funding cfg then positions ((apply_funding symbol ^^ k) s) else positions s) \<and>
            (\<exists>n. next_funding_ms s' symbol = Some n \<and> n = nf + int k * FUNDING_MS \<and> ts < n \<and> (nf \<le> ts \<longrightarrow> n \<le> ts + FUNDING_MS))"
proof -
  define k where "k = (if nf \<le> ts then nat ((ts - nf) div FUNDING_MS) + 1 else 0)"
  have pos: "0 < FUNDING_MS" by (simp add: FUNDING_MS_def)
  have b: "ts < nf + int k * FUNDING_MS \<and> (nf \<le> ts \<longrightarrow> nf + int k * FUNDING_MS \<le> ts + FUNDING_MS)"
  proof (cases "nf \<le> ts")
    case True
    then have "int k = (ts - nf) div FUNDING_MS + 1"
      using pos by (simp add: k_def pos_imp_zdiv_nonneg_iff)
    then show ?thesis using funding_bounds [of "ts - nf"] by simp
  qed (simp add: k_def)
  show ?thesis
    using assms b funding_loop_closed [OF assms(2), of "include_funding cfg" symbol ts s]
    by (simp add: funding_step_def k_def [symmetric] Let_def)
qed

theorem paper_funding_schedule_witness:
  "next_funding_ms (funding_step demo_config ''B'' 60000000 (demo_start\<lparr>next_funding_ms := [''B'' \<mapsto> 28800000]\<rparr>)) ''B''
   = Some 86400000"
  using paper_funding_schedule [of "demo_start\<lparr>next_funding_ms := [''B'' \<mapsto> 28800000]\<rparr>" "''B''" 28800000 60000000 demo_config]
  by (simp add: FUNDING_MS_def Let_def)

text \<open>Lemma: the next funding time is the first multiple of eight hours that is at least two milliseconds
  away. The documented one is the first multiple strictly after the argument: one millisecond before
  a boundary the code skips that boundary.\<close>

theorem funding_time_closed_form:
  "next_funding_ts_ms t mod FUNDING_MS = 0 \<and> t + 1 < next_funding_ts_ms t \<and>
   (\<forall>m. m mod FUNDING_MS = 0 \<and> t + 1 < m \<longrightarrow> next_funding_ts_ms t \<le> m) \<and>
   next_funding_ts_ms (k * FUNDING_MS - 1) = (k + 1) * FUNDING_MS"
proof -
  have "next_funding_ts_ms t \<le> m" if m: "m mod FUNDING_MS = 0" "t + 1 < m" for m
  proof -
    obtain j where j: "m = FUNDING_MS * j" using m(1) by auto
    have "next_funding_ts_ms t \<le> t + 1 + FUNDING_MS" by (rule next_funding_le)
    with m(2) j have "FUNDING_MS * ((t + 1) div FUNDING_MS + 1) < FUNDING_MS * (j + 1)"
      by (simp add: next_funding_closed algebra_simps)
    then have "(t + 1) div FUNDING_MS + 1 \<le> j" by (simp add: FUNDING_MS_def)
    then have "FUNDING_MS * ((t + 1) div FUNDING_MS + 1) \<le> FUNDING_MS * j" by (simp add: FUNDING_MS_def)
    then show ?thesis by (simp add: next_funding_closed j mult.commute)
  qed
  moreover have "next_funding_ts_ms (k * FUNDING_MS - 1) = (k + 1) * FUNDING_MS"
    by (simp add: next_funding_closed FUNDING_MS_def)
  ultimately show ?thesis using next_funding_gt [of t] next_funding_mod [of t] by auto
qed

theorem funding_time_closed_form_witness:
  "next_funding_ts_ms 28799999 = 57600000 \<and> next_funding_ts_ms 28799998 = 28800000"
proof -
  note a = funding_time_closed_form [of 28799999 1]
  have "next_funding_ts_ms (1 * FUNDING_MS - 1) = (1 + 1) * FUNDING_MS" using a by blast
  moreover have "next_funding_ts_ms 28799998 = 28800000" by code_simp
  ultimately show ?thesis by (simp add: FUNDING_MS_def)
qed

end
