(* ===== verification/Sim_Properties.thy ===== *)
theory Sim_Properties
  imports Sim_Refinement Paper_Lifecycle
begin

text \<open>
  What the refinement gives: equal books after any feed, where the entries agree and where they do
  not.
\<close>

section \<open>Equal books on equal feeds\<close>

text \<open>C4: with the default candle history and no failing database write, after any sequence of one second
  samples with positive finite closes, funding rates and finalizations, the positions, candles, funding
  times, trades and realized equity of the paper manager are those of the backtest simulator fed the
  same events from the corresponding state.\<close>

theorem sim_feed_parity:
  assumes "candle_cap_min cfg = 100" "no_faults s" "list_all feed_ok es"
  shows "abs_state (fold (paper_feed cfg wall mono_now) es s) = fold (sim_feed (abs_config cfg)) es (abs_state s)"
proof -
  have "cfg\<lparr>candle_cap_min := 100\<rparr> = cfg" using assms(1) by (cases cfg) simp
  with paper_sim.run_abs [OF assms(2,3), of cfg wall mono_now] show ?thesis by simp
qed

definition demo_feed :: "feed list" where
  "demo_feed = [FeedTicker ''B'' (Some (1 / 8)),
     FeedOhlcv \<lparr>o_symbol = ''B'', o_sec = 15, o_ts_ms = 15000, o_open = 64, o_high = 67, o_low = 63, o_close = NaN\<rparr> 66,
     FeedEnd 20000 Map.empty]"

definition demo_short :: paper_state where
  "demo_short = demo_start\<lparr>positions := [(''B'', demo_position)]\<rparr>"

lemma demo_feed_trades:
  "map (\<lambda>t. (st_exit_reason t, st_exit_price t)) (s_trades (fold (sim_feed (abs_config demo_config)) demo_feed (abs_state demo_short))) =
     [(END_OF_BACKTEST, 66)]"
  by code_simp

theorem sim_feed_parity_witness:
  "abs_state (fold (paper_feed demo_config 7 0) demo_feed demo_short) =
     fold (sim_feed (abs_config demo_config)) demo_feed (abs_state demo_short) \<and>
   s_trades (abs_state (fold (paper_feed demo_config 7 0) demo_feed demo_short)) \<noteq> []"
proof -
  have "candle_cap_min demo_config = 100" "no_faults demo_short" "list_all feed_ok demo_feed"
    by (simp_all add: demo_config_def demo_short_def demo_start_def init_state_def demo_db_def no_faults_def demo_feed_def)
  from sim_feed_parity [OF this, of 7 0] demo_feed_trades show ?thesis by (metis list.simps(8) list.distinct(1))
qed

section \<open>Entries\<close>

definition without_reason :: "sim_state \<Rightarrow> sim_state" where
  "without_reason s = s\<lparr>s_last_rejection_reason := None\<rparr>"

lemma abs_reject [simp]:
  "without_reason (abs_state (fst (reject w sy ts r s))) = without_reason (abs_state s)"
  "without_reason (abs_state (set_rejection r s)) = without_reason (abs_state s)"
  "without_reason (abs_state (s\<lparr>last_rejection_reason := q\<rparr>)) = without_reason (abs_state s)"
  "without_reason ((abs_state s)\<lparr>s_last_rejection_reason := q\<rparr>) = without_reason (abs_state s)"
  by (simp_all add: without_reason_def abs_state_def reject_def set_rejection_def frame_simps write_event_def Let_def)

lemma sim_atr_abs:
  "sim_atr (abs_config cfg) (abs_state s) symbol =
     compute_atr (case candles s symbol of None \<Rightarrow> [] | Some l \<Rightarrow> l) (atr_period cfg)"
  by (auto simp: sim_atr_def compute_atr_def abs_config_def Let_def split: option.splits)

lemma sim_mtm_abs: "sim_mtm_fold px (abs_positions ps) eq = mtm_fold px ps eq"
proof (induction ps arbitrary: eq)
  case Nil
  then show ?case by (simp add: abs_positions_def)
next
  case (Cons kp ps)
  obtain k p where kp: "kp = (k, p)" by (cases kp)
  have "abs_positions (kp # ps) = (k, abs_position p) # abs_positions ps" by (simp add: abs_positions_def kp)
  then show ?case by (simp add: Cons.IH kp position_upnl_def split: option.splits)
qed

lemma sim_equity_abs: "sim_equity (abs_state s) = equity s"
  by (simp add: sim_equity_def equity_def sim_mtm_abs)

text \<open>Lemma: for an entry whose price is fresh and whose stop distance is the same at the signal price
  as at the slipped fill, the paper manager accepts exactly when the simulator accepts, and leaves the
  same state behind up to the recorded rejection reason.\<close>

lemma abs_config_fields:
  "s_max_positions_global (abs_config cfg) = max_positions_global cfg"
  "s_max_positions_per_symbol (abs_config cfg) = max_positions_per_symbol cfg"
  "s_sl_atr_multiplier (abs_config cfg) = sl_atr_multiplier cfg" "s_tp_r_multiple (abs_config cfg) = tp_r_multiple cfg"
  "s_max_sl_distance_pct (abs_config cfg) = max_sl_distance_pct cfg"
  "s_min_sl_distance_pct (abs_config cfg) = min_sl_distance_pct cfg"
  "s_entry_slippage_bps (abs_config cfg) = entry_slippage_bps cfg" "s_risk_pct (abs_config cfg) = risk_pct cfg"
  "s_fee_taker (abs_config cfg) = fee_taker cfg"
  by (simp_all add: abs_config_def)

lemma qty_agrees:
  "0 \<le> r \<Longrightarrow> 0 < d \<Longrightarrow> compute_qty e r d \<le> 0 \<longleftrightarrow> fdiv (fmul e r) d \<le> 0"
  "0 < d \<Longrightarrow> \<not> compute_qty e r d \<le> 0 \<Longrightarrow> compute_qty e r d = fdiv (fmul e r) d"
proof -
  assume r: "0 \<le> r" "0 < d"
  have "fdiv (fmul e r) d \<le> 0" if "e \<le> 0"
    using that r by (simp add: fdiv_def fmul_def rnd_nonpos divide_nonpos_pos mult_nonpos_nonneg)
  then show "compute_qty e r d \<le> 0 \<longleftrightarrow> fdiv (fmul e r) d \<le> 0" using r by (auto simp: compute_qty_def)
next
  assume "0 < d" "\<not> compute_qty e r d \<le> 0"
  then show "compute_qty e r d = fdiv (fmul e r) d" by (auto simp: compute_qty_def split: if_splits)
qed

lemma abs_open_sized:
  assumes "no_faults s" "0 \<le> risk_pct cfg" "0 < sld"
  shows "let qty = fdiv (fmul (equity s) (risk_pct cfg)) sld;
             pos = abs_position (build_position cfg symbol direction ts fill sld qty);
             r = open_sized cfg wall symbol direction ts fill sld s
         in without_reason (abs_state (fst r)) =
              without_reason (if qty \<le> 0 then abs_state s
                else (abs_state s)\<lparr>s_positions := dset (s_positions (abs_state s)) symbol pos\<rparr>) \<and>
            snd r = (0 < qty)"
proof (cases "compute_qty (equity s) (risk_pct cfg) sld \<le> 0")
  case True
  then have "fdiv (fmul (equity s) (risk_pct cfg)) sld \<le> 0" using qty_agrees(1) assms by blast
  with True show ?thesis by (simp add: open_sized_def Let_def frame_simps)
next
  case False
  note q = qty_agrees(2) [OF assms(3) False] qty_agrees(1) [OF assms(2,3), of "equity s"]
  obtain s1 ok where w: "write_position_open cfg wall (build_position cfg symbol direction ts fill sld
      (fdiv (fmul (equity s) (risk_pct cfg)) sld)) s = (s1, ok)" by force
  have ok: ok using write_position_open_outcome(1) [OF w] assms(1) by (simp add: no_faults_def)
  have a: "abs_state (s1\<lparr>positions := ps\<rparr>) = (abs_state s)\<lparr>s_positions := abs_positions ps\<rparr>" for ps
    using w by (auto simp: write_position_open_def Let_def abs_state_def split: prod.splits)
  have "positions s1 = positions s" using write_position_open_outcome(2) [OF w] .
  with False q w ok show ?thesis by (simp add: open_sized_def Let_def a)
qed

theorem sim_entry_parity:
  fixes s :: paper_state and cfg :: paper_config and direction symbol :: string and px :: rat
  defines "fill \<equiv> apply_entry_slippage px direction (entry_slippage_bps cfg)"
  assumes "no_faults s" "0 < px" "0 < fill" "0 \<le> risk_pct cfg"
    and "last_price_mono_ms s symbol = Some m" "now_mono - m \<le> stale_price_ms cfg"
    and "\<And>atr. compute_atr (case candles s symbol of None \<Rightarrow> [] | Some l \<Rightarrow> l) (atr_period cfg) = Some atr \<Longrightarrow>
         compute_sl_distance atr fill (sl_atr_multiplier cfg) (max_sl_distance_pct cfg) (min_sl_distance_pct cfg) =
         compute_sl_distance atr px (sl_atr_multiplier cfg) (max_sl_distance_pct cfg) (min_sl_distance_pct cfg)"
  shows "without_reason (abs_state (fst (on_entry cfg wall symbol direction ts (Some (Fin px)) now_mono s))) =
      without_reason (fst (sim_on_entry (abs_config cfg) direction ts px symbol (abs_state s))) \<and>
    snd (on_entry cfg wall symbol direction ts (Some (Fin px)) now_mono s) =
      snd (sim_on_entry (abs_config cfg) direction ts px symbol (abs_state s))"
proof -
  have r: "(abs_state s)\<lparr>s_last_rejection_reason := q\<rparr> = abs_state (s\<lparr>last_rejection_reason := q\<rparr>)" for q
    by (simp add: abs_state_def)
  show ?thesis
proof (cases "dget (positions s) symbol = None \<and> int (length (positions s)) < max_positions_global cfg \<and>
    1 \<le> max_positions_per_symbol cfg \<and> (\<exists>atr. compute_atr (case candles s symbol of None \<Rightarrow> [] | Some l \<Rightarrow> l) (atr_period cfg) = Some atr \<and>
      0 < atr \<and> 0 < compute_sl_distance atr px (sl_atr_multiplier cfg) (max_sl_distance_pct cfg) (min_sl_distance_pct cfg))")
  case True
  then obtain atr where atr: "compute_atr (case candles s symbol of None \<Rightarrow> [] | Some l \<Rightarrow> l) (atr_period cfg) = Some atr" "0 < atr"
    and g: "dget (positions s) symbol = None" "int (length (positions s)) < max_positions_global cfg" "1 \<le> max_positions_per_symbol cfg"
    and d: "0 < compute_sl_distance atr px (sl_atr_multiplier cfg) (max_sl_distance_pct cfg) (min_sl_distance_pct cfg)" by auto
  define sld where "sld = compute_sl_distance atr px (sl_atr_multiplier cfg) (max_sl_distance_pct cfg) (min_sl_distance_pct cfg)"
  define s' where "s' = s\<lparr>last_rejection_reason := None\<rparr>"
  have sld: "compute_sl_distance atr fill (sl_atr_multiplier cfg) (max_sl_distance_pct cfg) (min_sl_distance_pct cfg) = sld" "0 < sld"
    "max (min (fmul (sl_atr_multiplier cfg) atr) (fmul (max_sl_distance_pct cfg) px)) (fmul (min_sl_distance_pct cfg) px) = sld"
    using assms(8) [OF atr(1)] d assms(3) atr(2) by (simp_all add: sld_def compute_sl_distance_def Let_def)
  have n: "no_faults s'" using assms(2) by (simp add: no_faults_def s'_def)
  have e: "equity s' = equity s" by (simp add: s'_def)
  have p: "on_entry cfg wall symbol direction ts (Some (Fin px)) now_mono s =
      open_sized cfg wall symbol direction ts fill sld s'"
    using assms(3-7) atr g sld by (simp add: on_entry_def Let_def fill_def [symmetric] s'_def)
  have s'_fields: "candles s' = candles s" "positions s' = positions s" by (simp_all add: s'_def)
  have f: "(if direction = LONG then fmul px (fadd 1 (fdiv (entry_slippage_bps cfg) 10000))
      else fmul px (fsub 1 (fdiv (entry_slippage_bps cfg) 10000))) = fill"
    using assms(3) by (simp add: fill_def apply_entry_slippage_def Let_def)
  have q: "sim_on_entry (abs_config cfg) direction ts px symbol (abs_state s) =
     (let qty = fdiv (fmul (equity s') (risk_pct cfg)) sld
      in if qty \<le> 0 then (abs_state s', False)
         else ((abs_state s')\<lparr>s_positions := dset (s_positions (abs_state s')) symbol
                 (abs_position (build_position cfg symbol direction ts fill sld qty))\<rparr>, True))"
    using atr g sld assms(3) f
    by (cases "direction = LONG"; simp add: sim_on_entry_def Let_def r [of None, folded s'_def] sim_atr_abs sim_equity_abs s'_fields abs_config_fields
        abs_position_def build_position_def compute_sl_price_def compute_tp_price_def compute_entry_fee_def del: max.bounded_iff)
  show ?thesis unfolding p q using abs_open_sized [OF n assms(5) sld(2), of symbol direction ts fill wall]
    by (auto simp: Let_def)
next
  case False
  let ?bars = "case candles s symbol of None \<Rightarrow> [] | Some l \<Rightarrow> l"
  let ?sld = "\<lambda>atr. compute_sl_distance atr px (sl_atr_multiplier cfg) (max_sl_distance_pct cfg) (min_sl_distance_pct cfg)"
  note defs = on_entry_def sim_on_entry_def r frame_simps sim_atr_abs abs_config_fields
  consider (taken) "dget (positions s) symbol \<noteq> None"
    | (full) "dget (positions s) symbol = None" "max_positions_global cfg \<le> int (length (positions s))"
    | (per) "dget (positions s) symbol = None" "int (length (positions s)) < max_positions_global cfg" "max_positions_per_symbol cfg < 1"
    | (cold) "dget (positions s) symbol = None" "int (length (positions s)) < max_positions_global cfg" "1 \<le> max_positions_per_symbol cfg"
        "compute_atr ?bars (atr_period cfg) = None"
    | (flat) atr where "dget (positions s) symbol = None" "int (length (positions s)) < max_positions_global cfg" "1 \<le> max_positions_per_symbol cfg"
        "compute_atr ?bars (atr_period cfg) = Some atr" "atr \<le> 0"
    | (stop) atr where "dget (positions s) symbol = None" "int (length (positions s)) < max_positions_global cfg" "1 \<le> max_positions_per_symbol cfg"
        "compute_atr ?bars (atr_period cfg) = Some atr" "0 < atr" "?sld atr \<le> 0"
    using False by (metis not_le not_less option.exhaust)
  then show ?thesis
  proof cases
    case stop
    have "max (min (fmul (sl_atr_multiplier cfg) atr) (fmul (max_sl_distance_pct cfg) px)) (fmul (min_sl_distance_pct cfg) px) \<le> 0"
      using stop(5,6) assms(3) by (simp add: compute_sl_distance_def Let_def del: max.bounded_iff)
    with stop show ?thesis using assms(3-7) assms(8) [OF stop(4)] by (simp add: defs Let_def fill_def [symmetric])
  qed (use assms(3-7) in \<open>simp_all add: defs Let_def fill_def [symmetric]\<close>)
qed
qed

theorem sim_entry_parity_witness:
  "without_reason (abs_state (fst (on_entry demo_config 7 ''B'' SHORT 12000 (Some (Fin 64)) 100 demo_ready))) =
      without_reason (fst (sim_on_entry (abs_config demo_config) SHORT 12000 64 ''B'' (abs_state demo_ready))) \<and>
    snd (sim_on_entry (abs_config demo_config) SHORT 12000 64 ''B'' (abs_state demo_ready))"
proof -
  have fill: "apply_entry_slippage 64 SHORT (entry_slippage_bps demo_config) = 64" by code_simp
  have m: "last_price_mono_ms demo_ready ''B'' = Some 0" "100 - 0 \<le> stale_price_ms demo_config" "0 \<le> risk_pct demo_config"
    by (simp_all add: demo_ready_def demo_config_def)
  have n: "no_faults demo_ready"
    by (simp add: demo_ready_def demo_start_def init_state_def demo_db_def no_faults_def)
  show ?thesis
    using sim_entry_parity [of demo_ready 64 SHORT demo_config "''B''" 0 100 7 12000] n m demo_ready_entry
    by (simp add: fill)
qed

text \<open>Lemma: with slippage the two do not agree in general, although the paper module claims the same
  formulas: when the percentage cap on the stop distance binds, the paper manager takes it of the
  slipped fill and the simulator of the signal price, so the same signal on the same books opens
  positions with different stops and sizes.\<close>

definition slip_config :: paper_config where
  "slip_config = demo_config\<lparr>entry_slippage_bps := 625 / 4, sl_atr_multiplier := 8, max_sl_distance_pct := 1 / 8\<rparr>"

theorem sim_entry_differs:
  "\<exists>p q. dget (positions (fst (on_entry slip_config 7 ''B'' LONG 12000 (Some (Fin 64)) 100 demo_ready))) ''B'' = Some p \<and>
     dget (s_positions (fst (sim_on_entry (abs_config slip_config) LONG 12000 64 ''B'' (abs_state demo_ready)))) ''B'' = Some q \<and>
     p_entry_price p = sp_entry_price q \<and> p_sl_price p \<noteq> sp_sl_price q \<and> p_qty p \<noteq> sp_qty q"
proof -
  have "map_option (\<lambda>p. (p_entry_price p, p_sl_price p, p_qty p < 2))
      (dget (positions (fst (on_entry slip_config 7 ''B'' LONG 12000 (Some (Fin 64)) 100 demo_ready))) ''B'') =
      Some (65, 455 / 8, True)"
    by code_simp
  moreover have "map_option (\<lambda>q. (sp_entry_price q, sp_sl_price q, sp_qty q))
      (dget (s_positions (fst (sim_on_entry (abs_config slip_config) LONG 12000 64 ''B'' (abs_state demo_ready)))) ''B'') =
      Some (65, 57, 2)"
    by code_simp
  ultimately show ?thesis by auto
qed

end
