(* ===== verification/Sim_Report.thy ===== *)
theory Sim_Report
  imports Position_Sim
begin

text \<open>
  What the numbers of the simulator's \<^verbatim>\<open>build_report\<close> mean.
\<close>

section \<open>The report\<close>

text \<open>The equity after each trade and the greatest equity seen so far.\<close>

definition equity_curve :: "rat \<Rightarrow> rat list \<Rightarrow> nat \<Rightarrow> rat" where
  "equity_curve eq pnls k = foldl fadd eq (take k pnls)"

definition equity_peak :: "rat \<Rightarrow> rat list \<Rightarrow> nat \<Rightarrow> rat" where
  "equity_peak eq pnls k = Max (equity_curve eq pnls ` {..k})"

definition fall_from_peak :: "rat \<Rightarrow> rat list \<Rightarrow> nat \<Rightarrow> rat" where
  "fall_from_peak eq pnls k =
     (if 0 < equity_peak eq pnls k
      then fdiv (fsub (equity_peak eq pnls k) (equity_curve eq pnls k)) (equity_peak eq pnls k) else 0)"

lemma curve_Suc: "equity_curve eq (pnl # pnls) (Suc k) = equity_curve (fadd eq pnl) pnls k"
  by (simp add: equity_curve_def)

lemma Max_insert_max: "finite A \<Longrightarrow> Max (insert (max a b) A) = Max (insert a (insert b A))"
  for a b :: "'a :: linorder"
  by (cases "A = {}") (simp_all add: max.assoc)

lemma drawdown_loop_Max:
  "drawdown_loop pnls eq peak mdd =
     Max (insert mdd ((\<lambda>k. let p = Max (insert peak (equity_curve eq pnls ` {1..k}))
            in if 0 < p then fdiv (fsub p (equity_curve eq pnls k)) p else 0) ` {1..length pnls}))"
proof (induction pnls arbitrary: eq peak mdd)
  case Nil
  then show ?case by simp
next
  case (Cons pnl pnls)
  let ?eq = "fadd eq pnl" and ?peak = "if peak < fadd eq pnl then fadd eq pnl else peak"
  let ?dd = "if 0 < ?peak then fdiv (fsub ?peak ?eq) ?peak else 0"
  let ?f = "\<lambda>eq peak pnls k. let p = Max (insert peak (equity_curve eq pnls ` {1..k}))
            in if 0 < p then fdiv (fsub p (equity_curve eq pnls k)) p else 0"
  have im: "{1..Suc n} = insert 1 (Suc ` {1..n})" for n by (simp add: image_Suc_atLeastAtMost atLeastAtMost_insertL)
  have shift: "?f eq peak (pnl # pnls) (Suc k) = ?f ?eq ?peak pnls k" for k
  proof -
    have c: "equity_curve eq (pnl # pnls) 1 = ?eq" by (simp add: equity_curve_def)
    have "insert peak (equity_curve eq (pnl # pnls) ` {1..Suc k}) =
        insert peak (insert ?eq (equity_curve ?eq pnls ` {1..k}))"
      unfolding im by (simp only: image_insert image_image curve_Suc c)
    moreover have "Max (insert peak (insert ?eq (equity_curve ?eq pnls ` {1..k}))) =
        Max (insert ?peak (equity_curve ?eq pnls ` {1..k}))"
      by (cases "k = 0") (auto simp: max_def)
    ultimately show ?thesis by (simp add: curve_Suc Let_def)
  qed
  have one: "?f eq peak (pnl # pnls) 1 = ?dd"
    by (auto simp: equity_curve_def max_def Let_def)
  have "drawdown_loop (pnl # pnls) eq peak mdd = drawdown_loop pnls ?eq ?peak (max mdd ?dd)"
    by (simp add: Let_def max_def)
  also have "\<dots> = Max (insert (max mdd ?dd) (?f ?eq ?peak pnls ` {1..length pnls}))" by (rule Cons.IH)
  also have "\<dots> = Max (insert mdd (insert ?dd (?f ?eq ?peak pnls ` {1..length pnls})))"
    by (rule Max_insert_max) simp
  also have "insert ?dd (?f ?eq ?peak pnls ` {1..length pnls}) = ?f eq peak (pnl # pnls) ` {1..length (pnl # pnls)}"
    unfolding length_Cons im by (simp only: image_insert image_image shift one)
  finally show ?case .
qed

text \<open>Lemma: the drawdown the report gives is the largest, over all trades, of the relative fall of the
  equity after that trade from its greatest value so far, where the equity starts at the initial equity
  and adds the net PnL of one closed trade after the other; it is never negative, and it is zero
  exactly when no trade left the equity measurably below its peak.\<close>

theorem report_drawdown:
  "let eq0 = s_initial_equity cfg; pnls = map st_pnl_net (s_trades s); dd = rep_max_drawdown_pct (sim_build_report cfg s)
   in dd = Max (insert 0 (fall_from_peak eq0 pnls ` {1..length pnls})) \<and> 0 \<le> dd \<and>
      (dd = 0) = list_all (\<lambda>k. fall_from_peak eq0 pnls k \<le> 0) [1..<Suc (length pnls)]"
proof -
  let ?eq0 = "s_initial_equity cfg" and ?pnls = "map st_pnl_net (s_trades s)"
  have p: "Max (insert ?eq0 (equity_curve ?eq0 ?pnls ` {1..k})) = equity_peak ?eq0 ?pnls k" for k
  proof -
    have "{..k} = insert 0 {1..k}" by auto
    then show ?thesis by (simp add: equity_peak_def) (simp add: equity_curve_def)
  qed
  have dd: "rep_max_drawdown_pct (sim_build_report cfg s) = Max (insert 0 (fall_from_peak ?eq0 ?pnls ` {1..length ?pnls}))"
  proof (cases "s_trades s = []")
    case False
    then have "rep_max_drawdown_pct (sim_build_report cfg s) = drawdown_loop ?pnls ?eq0 ?eq0 0"
      by (simp add: sim_build_report_def Let_def)
    then show ?thesis unfolding drawdown_loop_Max Let_def p fall_from_peak_def .
  qed (simp add: sim_build_report_def)
  have z: "(Max (insert 0 A) = (0::rat)) = (\<forall>x\<in>A. x \<le> 0)" "(0::rat) \<le> Max (insert 0 A)" if "finite A" for A
    using that by (auto simp: Max_eq_iff intro: Max_ge)
  show ?thesis unfolding Let_def dd
    using z [of "fall_from_peak ?eq0 ?pnls ` {1..length ?pnls}"] by (auto simp: list_all_iff)
qed

text \<open>Lemma: the win rate is between zero and one, the number of trades is the number of closed
  trades, and a report without trades has all its ratios zero.\<close>

theorem report_rates:
  "let r = sim_build_report cfg s
   in 0 \<le> rep_win_rate r \<and> rep_win_rate r \<le> 1 \<and> rep_total_trades r = length (s_trades s) \<and>
      rep_final_equity r = sim_equity s"
proof -
  have "0 \<le> fdiv (of_nat m) (of_nat n) \<and> fdiv (of_nat m) (of_nat n) \<le> 1" if "m \<le> n" for m n :: nat
    using that rnd_mono [of "of_nat m / of_nat n" 1] rnd_of_nat [of 1]
    by (cases "n = 0") (simp_all add: fdiv_def rnd_nonneg divide_le_eq)
  then show ?thesis by (simp add: sim_build_report_def Let_def)
qed

end
