(* ===== verification/L2_Buffer.thy ===== *)
theory L2_Buffer
  imports Float64 "HOL-Library.Monad_Syntax"
begin

text \<open>
  \<^verbatim>\<open>src/data_layer/l2_buffer.py\<close> and \<^verbatim>\<open>src/data_layer/obi.py\<close>: the order book held in preallocated numpy
  arrays of 5000 entries per column with a count of the active ones. \<open>np.searchsorted\<close> and
  \<open>np.sum\<close> are library code and stay parameters (\<open>ss\<close>, \<open>npsum\<close>); slices, clipping and the broadcast
  rule of slice assignment are written out, and an assignment of the wrong length raises. The book's
  reentrant lock makes each operation atomic, so the operations are functions of the book.
\<close>

section \<open>Constants and data\<close>

definition MAX_BUFFER :: nat where "MAX_BUFFER = 5000"
definition TRIM_BLOCK :: nat where "TRIM_BLOCK = 1000"

text \<open>One side of the book: the price column, the quantity column and the active length.\<close>

record side_book =
  sb_price :: "rat list"
  sb_qty :: "rat list"
  sb_len :: nat

record pre_diff =
  d_seq :: int
  d_epoch :: int

record l2_book =
  l2_symbol :: string
  bids :: side_book
  asks :: side_book
  seq_epoch :: "string \<rightharpoonup> int"
  expected_seq :: "string \<rightharpoonup> int"
  pre_sync_queue :: "string \<rightharpoonup> pre_diff list"
  trim_log_counter :: "string \<rightharpoonup> int"

definition empty_side :: side_book where
  "empty_side = \<lparr>sb_price = replicate 5000 0, sb_qty = replicate 5000 0, sb_len = 0\<rparr>"

definition new_book :: "string \<Rightarrow> l2_book" where
  "new_book symbol = \<lparr>l2_symbol = symbol, bids = empty_side, asks = empty_side, seq_epoch = Map.empty,
     expected_seq = Map.empty, pre_sync_queue = Map.empty, trim_log_counter = Map.empty\<rparr>"

text \<open>A \<^verbatim>\<open>defaultdict(int)\<close> lookup.\<close>

definition dd_int :: "(string \<rightharpoonup> int) \<Rightarrow> string \<Rightarrow> int" where
  "dd_int m k = (case m k of Some v \<Rightarrow> v | None \<Rightarrow> 0)"

section \<open>Slices\<close>

definition slice :: "rat list \<Rightarrow> nat \<Rightarrow> nat \<Rightarrow> rat list" where
  "slice a i j = take (j - i) (drop i a)"

text \<open>\<^verbatim>\<open>a[i:j] = src\<close>: the slice is clipped to the array; the source has its length, or one element that
  is broadcast, or the assignment raises.\<close>

definition slice_assign :: "rat list \<Rightarrow> nat \<Rightarrow> nat \<Rightarrow> rat list \<Rightarrow> rat list option" where
  "slice_assign a i j src =
     (let m = length (slice a i j)
      in if length src = m then Some (take i a @ src @ drop (i + m) a)
         else if length src = 1 then Some (take i a @ replicate m (hd src) @ drop (i + m) a)
         else None)"

section \<open>Locating a level\<close>

text \<open>\<^verbatim>\<open>np.searchsorted(-bids_price[:len], -price)\<close> for bids, \<^verbatim>\<open>np.searchsorted(asks_price[:len], price)\<close>
  for asks, and the found flag.\<close>

definition locate :: "(rat list \<Rightarrow> rat \<Rightarrow> nat) \<Rightarrow> bool \<Rightarrow> side_book \<Rightarrow> rat \<Rightarrow> nat \<times> bool" where
  "locate ss isbid sb price =
     (if 0 < sb_len sb
      then let idx = (if isbid then ss (map uminus (take (sb_len sb) (sb_price sb))) (- price)
                      else ss (take (sb_len sb) (sb_price sb)) price)
           in (idx, idx < sb_len sb \<and> sb_price sb ! idx = price)
      else (0, False))"

text \<open>The counting loop: how many of the batch's entries for a side are not in the book.\<close>

definition count_new :: "(rat list \<Rightarrow> rat \<Rightarrow> nat) \<Rightarrow> bool \<Rightarrow> side_book \<Rightarrow> (string \<times> rat \<times> rat) list \<Rightarrow> nat" where
  "count_new ss isbid sb entries =
     length (filter (\<lambda>(side, price, qty). qty \<noteq> 0 \<and> (side = ''bid'') = isbid \<and> \<not> snd (locate ss isbid sb price)) entries)"

section \<open>Trimming\<close>

text \<open>The inner loop of \<open>trim\<close> cuts blocks off the end of the active part; it returns the length that is left
  and the number of entries cut.\<close>

function trim_blocks :: "nat \<Rightarrow> nat \<Rightarrow> nat \<Rightarrow> side_book \<Rightarrow> side_book \<times> nat \<times> nat" where
  "trim_blocks batch_new arr_len trimmed sb =
     (if arr_len + batch_new < MAX_BUFFER then (sb, arr_len, trimmed)
      else let trim_n = min TRIM_BLOCK arr_len
           in if trim_n = 0 then (sb, arr_len, trimmed)
              else let zero = (\<lambda>a. take (arr_len - trim_n) a @ replicate (length (slice a (arr_len - trim_n) arr_len)) 0 @
                                   drop arr_len a)
                   in trim_blocks batch_new (arr_len - trim_n) (trimmed + trim_n)
                        (sb\<lparr>sb_price := zero (sb_price sb), sb_qty := zero (sb_qty sb)\<rparr>))"
  by pat_completeness auto
termination by (relation "measure (\<lambda>(b, n, t, sb). n)") (auto simp: TRIM_BLOCK_def)

declare trim_blocks.simps [simp del]

definition side_name :: "bool \<Rightarrow> string" where
  "side_name isbid = (if isbid then ''bids'' else ''asks'')"

definition get_side :: "bool \<Rightarrow> l2_book \<Rightarrow> side_book" where
  "get_side isbid bk = (if isbid then bids bk else asks bk)"

definition set_side :: "bool \<Rightarrow> side_book \<Rightarrow> l2_book \<Rightarrow> l2_book" where
  "set_side isbid sb bk = (if isbid then bk\<lparr>bids := sb\<rparr> else bk\<lparr>asks := sb\<rparr>)"

definition trim :: "bool \<Rightarrow> nat \<Rightarrow> l2_book \<Rightarrow> l2_book \<times> nat" where
  "trim isbid batch_new bk =
     (let sb = get_side isbid bk;
          (sb1, arr_len, trimmed) = trim_blocks batch_new (sb_len sb) 0 sb;
          bk1 = set_side isbid (sb1\<lparr>sb_len := arr_len\<rparr>) bk;
          bk2 = (if 0 < trimmed
                 then bk1\<lparr>trim_log_counter := (trim_log_counter bk1)
                            (side_name isbid \<mapsto> dd_int (trim_log_counter bk1) (side_name isbid) + 1)\<rparr>
                 else bk1)
      in (bk2, trimmed))"

text \<open>The outer loop \<^verbatim>\<open>while len + batch >= MAX_BUFFER: self.trim(...)\<close>, which need not end.\<close>

partial_function (option) trim_loop :: "bool \<Rightarrow> nat \<Rightarrow> l2_book \<Rightarrow> l2_book option" where
  "trim_loop isbid batch_new bk =
     (if sb_len (get_side isbid bk) + batch_new < MAX_BUFFER then Some bk
      else trim_loop isbid batch_new (fst (trim isbid batch_new bk)))"

section \<open>Applying one entry\<close>

text \<open>The result is \<open>None\<close> when a slice assignment raises.\<close>

definition apply_diff :: "(rat list \<Rightarrow> rat \<Rightarrow> nat) \<Rightarrow> bool \<Rightarrow> rat \<Rightarrow> rat \<Rightarrow> side_book \<Rightarrow> side_book option" where
  "apply_diff ss isbid price qty sb =
     (let (idx, found) = locate ss isbid sb price; n = sb_len sb
      in if found then
           (if qty = 0 then
              do { p <- if idx < n - 1 then slice_assign (sb_price sb) idx (n - 1) (slice (sb_price sb) (idx + 1) n) else Some (sb_price sb);
                   q <- if idx < n - 1 then slice_assign (sb_qty sb) idx (n - 1) (slice (sb_qty sb) (idx + 1) n) else Some (sb_qty sb);
                   Some (sb\<lparr>sb_price := p[n - 1 := 0], sb_qty := q[n - 1 := 0], sb_len := n - 1\<rparr>) }
            else Some (sb\<lparr>sb_qty := (sb_qty sb)[idx := qty]\<rparr>))
         else if qty = 0 then Some sb
         else if idx < MAX_BUFFER then
           do { p <- if 0 < n \<and> idx < n then slice_assign (sb_price sb) (idx + 1) (n + 1) (slice (sb_price sb) idx n) else Some (sb_price sb);
                q <- if 0 < n \<and> idx < n then slice_assign (sb_qty sb) (idx + 1) (n + 1) (slice (sb_qty sb) idx n) else Some (sb_qty sb);
                Some (sb\<lparr>sb_price := p[idx := price], sb_qty := q[idx := qty],
                        sb_len := (if n < MAX_BUFFER then n + 1 else n)\<rparr>) }
         else Some sb)"

text \<open>The second loop. \<open>False\<close>: an entry raised, and the entries before it stay applied.\<close>

fun apply_diffs :: "(rat list \<Rightarrow> rat \<Rightarrow> nat) \<Rightarrow> (string \<times> rat \<times> rat) list \<Rightarrow> l2_book \<Rightarrow> l2_book \<times> bool" where
  "apply_diffs ss [] bk = (bk, True)"
| "apply_diffs ss ((side, price, qty) # entries) bk =
     (let isbid = (side = ''bid'')
      in case apply_diff ss isbid price qty (get_side isbid bk) of
           None \<Rightarrow> (bk, False)
         | Some sb \<Rightarrow> apply_diffs ss entries (set_side isbid sb bk))"

section \<open>The buffer\<close>

type_synonym l2_state = "(string, l2_book) dict"

datatype batch_outcome = Returned bool | Raised

text \<open>\<open>apply_batch\<close>: \<open>None\<close> when the call never returns.\<close>

definition apply_batch ::
  "(rat list \<Rightarrow> rat \<Rightarrow> nat) \<Rightarrow> string \<Rightarrow> (string \<times> rat \<times> rat) list \<Rightarrow> int \<Rightarrow> l2_state \<Rightarrow> (l2_state \<times> batch_outcome) option" where
  "apply_batch ss symbol entries batch_epoch st =
     (case dget st symbol of
        None \<Rightarrow> Some (st, Returned False)
      | Some bk \<Rightarrow>
          if batch_epoch \<noteq> dd_int (seq_epoch bk) symbol then Some (st, Returned False)
          else let batch_bids = count_new ss True (bids bk) entries;
                   batch_asks = count_new ss False (asks bk) entries
               in do { bk1 <- trim_loop True batch_bids bk;
                       bk2 <- trim_loop False batch_asks bk1;
                       let (bk3, ok) = apply_diffs ss entries bk2;
                       Some (dset st symbol bk3, if ok then Returned True else Raised) })"

text \<open>A snapshot after its items have been unpacked to price and quantity; the four optional arrays as
  numpy hands them over.\<close>

record snapshot_msg =
  raw_bids :: "(rat \<times> rat) list"
  raw_asks :: "(rat \<times> rat) list"
  snap_seq :: int
  bids_price_arr :: "rat list option"
  bids_qty_arr :: "rat list option"
  asks_price_arr :: "rat list option"
  asks_qty_arr :: "rat list option"

text \<open>Filling one side: from the arrays when both are given, else entry by entry; the flag is
  \<open>False\<close> when an array has the wrong length and the assignment raises.\<close>

definition load_side :: "(rat \<times> rat) list \<Rightarrow> rat list option \<Rightarrow> rat list option \<Rightarrow> side_book \<Rightarrow> side_book \<times> bool" where
  "load_side raw parr qarr sb =
     (let n = length raw
      in case (parr, qarr) of
           (Some pa, Some qa) \<Rightarrow>
             (case slice_assign (sb_price sb) 0 n (take n pa) of
                None \<Rightarrow> (sb, False)
              | Some p \<Rightarrow>
                  (case slice_assign (sb_qty sb) 0 n (take n qa) of
                     None \<Rightarrow> (sb\<lparr>sb_price := p\<rparr>, False)
                   | Some q \<Rightarrow> (sb\<lparr>sb_price := take n p @ replicate (length p - n) 0,
                                   sb_qty := take n q @ replicate (length q - n) 0, sb_len := n\<rparr>, True)))
         | _ \<Rightarrow> (sb\<lparr>sb_price := map fst raw @ replicate (length (sb_price sb) - n) 0,
                    sb_qty := map snd raw @ replicate (length (sb_qty sb) - n) 0, sb_len := n\<rparr>, True))"

definition finish_snapshot :: "string \<Rightarrow> int \<Rightarrow> l2_book \<Rightarrow> l2_book" where
  "finish_snapshot symbol seq bk =
     (let queue = (case pre_sync_queue bk symbol of Some q \<Rightarrow> q | None \<Rightarrow> [])
      in bk\<lparr>expected_seq := (expected_seq bk)(symbol \<mapsto> seq + 1),
            pre_sync_queue := (pre_sync_queue bk)(symbol \<mapsto>
              filter (\<lambda>d. seq < d_seq d \<and> d_epoch d = dd_int (seq_epoch bk) symbol) queue)\<rparr>)"

text \<open>The result's flag is \<open>False\<close> when an assignment raises; the epoch has then already been advanced.\<close>

definition on_snapshot :: "string \<Rightarrow> snapshot_msg \<Rightarrow> l2_state \<Rightarrow> l2_state \<times> bool" where
  "on_snapshot symbol msg st =
     (let bk = (case dget st symbol of Some b \<Rightarrow> b | None \<Rightarrow> new_book symbol);
          rb = take MAX_BUFFER (raw_bids msg); ra = take MAX_BUFFER (raw_asks msg);
          bk1 = bk\<lparr>seq_epoch := (seq_epoch bk)(symbol \<mapsto> dd_int (seq_epoch bk) symbol + 1)\<rparr>;
          (sb, okb) = load_side rb (bids_price_arr msg) (bids_qty_arr msg) (bids bk1);
          bk2 = bk1\<lparr>bids := sb\<rparr>
      in if \<not> okb then (dset st symbol bk2, False)
         else (let (sa, oka) = load_side ra (asks_price_arr msg) (asks_qty_arr msg) (asks bk2);
                   bk3 = bk2\<lparr>asks := sa\<rparr>
               in if \<not> oka then (dset st symbol bk3, False)
                  else (dset st symbol (finish_snapshot symbol (snap_seq msg) bk3), True)))"

definition get_levels :: "bool \<Rightarrow> string \<Rightarrow> nat \<Rightarrow> l2_state \<Rightarrow> (rat \<times> rat) list" where
  "get_levels isbid symbol depth st =
     (case dget st symbol of
        None \<Rightarrow> []
      | Some bk \<Rightarrow> (let sb = get_side isbid bk; n = min depth (sb_len sb) in zip (take n (sb_price sb)) (take n (sb_qty sb))))"

definition get_bids :: "string \<Rightarrow> nat \<Rightarrow> l2_state \<Rightarrow> (rat \<times> rat) list" where
  "get_bids = get_levels True"

definition get_asks :: "string \<Rightarrow> nat \<Rightarrow> l2_state \<Rightarrow> (rat \<times> rat) list" where
  "get_asks = get_levels False"

definition get_obi_safe_sync :: "string \<Rightarrow> l2_state \<Rightarrow> rat list \<times> rat list \<times> rat list \<times> rat list" where
  "get_obi_safe_sync symbol st =
     (case dget st symbol of
        None \<Rightarrow> ([], [], [], [])
      | Some bk \<Rightarrow> (take (sb_len (bids bk)) (sb_price (bids bk)), take (sb_len (bids bk)) (sb_qty (bids bk)),
                   take (sb_len (asks bk)) (sb_price (asks bk)), take (sb_len (asks bk)) (sb_qty (asks bk))))"

section \<open>Order book imbalance\<close>

definition imbalance :: "rat \<Rightarrow> rat \<Rightarrow> rat" where
  "imbalance bid_vol ask_vol =
     (let total = fadd bid_vol ask_vol in if total = 0 then 0 else fdiv (fsub bid_vol ask_vol) total)"

definition get_obi :: "(rat list \<Rightarrow> rat) \<Rightarrow> string \<Rightarrow> l2_state \<Rightarrow> rat" where
  "get_obi npsum symbol st =
     (case dget st symbol of
        None \<Rightarrow> 0
      | Some bk \<Rightarrow>
          if sb_len (bids bk) = 0 \<and> sb_len (asks bk) = 0 then 0
          else let bid_vol = (if 0 < sb_len (bids bk) then npsum (take (sb_len (bids bk)) (sb_qty (bids bk))) else 0);
                   ask_vol = (if 0 < sb_len (asks bk) then npsum (take (sb_len (asks bk)) (sb_qty (asks bk))) else 0)
               in imbalance bid_vol ask_vol)"

record obi_result =
  obi_value :: rat
  obi_bid_volume :: rat
  obi_ask_volume :: rat
  obi_bid_count :: int
  obi_ask_count :: int

text \<open>\<open>OBIComputer.compute\<close>; a slice \<^verbatim>\<open>[:n]\<close> with negative \<open>n\<close> is only summed when \<open>n\<close> is positive.\<close>

definition obi_compute :: "(rat list \<Rightarrow> rat) \<Rightarrow> int \<Rightarrow> rat list \<Rightarrow> rat list \<Rightarrow> int \<Rightarrow> int \<Rightarrow> obi_result" where
  "obi_compute npsum depth bids_qty asks_qty bids_len asks_len =
     (let bid_n = min depth bids_len; ask_n = min depth asks_len;
          bid_volume = (if 0 < bid_n then npsum (take (nat bid_n) bids_qty) else 0);
          ask_volume = (if 0 < ask_n then npsum (take (nat ask_n) asks_qty) else 0)
      in \<lparr>obi_value = imbalance bid_volume ask_volume, obi_bid_volume = bid_volume, obi_ask_volume = ask_volume,
          obi_bid_count = bid_n, obi_ask_count = ask_n\<rparr>)"

definition compute_from_book :: "(rat list \<Rightarrow> rat) \<Rightarrow> int \<Rightarrow> l2_book \<Rightarrow> obi_result" where
  "compute_from_book npsum depth bk =
     obi_compute npsum depth (sb_qty (bids bk)) (sb_qty (asks bk)) (int (sb_len (bids bk))) (int (sb_len (asks bk)))"

end
