(* ===== verification/L2_Invariants.thy ===== *)
theory L2_Invariants
  imports L2_Buffer
begin

text \<open>
  The book as a map from price to quantity: the active columns of a side stay strictly ordered, best
  price first, and applying an entry is an update or a deletion in that map. What the proofs need of
  \<open>np.searchsorted\<close> is one locale, interpreted on a left bisection.
\<close>

section \<open>The library's binary search\<close>

locale searchsorted =
  fixes ss :: "rat list \<Rightarrow> rat \<Rightarrow> nat"
  assumes ss_le: "sorted_wrt (<) a \<Longrightarrow> ss a v \<le> length a"
    and ss_below: "sorted_wrt (<) a \<Longrightarrow> i < ss a v \<Longrightarrow> a ! i < v"
    and ss_above: "sorted_wrt (<) a \<Longrightarrow> ss a v \<le> i \<Longrightarrow> i < length a \<Longrightarrow> v \<le> a ! i"
begin

lemma ss_found: "sorted_wrt (<) a \<Longrightarrow> v \<in> set a \<longleftrightarrow> ss a v < length a \<and> a ! ss a v = v"
proof
  assume s: "sorted_wrt (<) a" and "v \<in> set a"
  then obtain j where j: "j < length a" "a ! j = v" by (auto simp: in_set_conv_nth)
  have "\<not> j < ss a v" using ss_below [OF s] j(2) by fastforce
  then have le: "ss a v \<le> j" by simp
  then have "v \<le> a ! ss a v" using ss_above [OF s, of v "ss a v"] j by simp
  moreover have "a ! ss a v \<le> a ! j"
    using sorted_wrt_nth_less [OF s, of "ss a v" j] le j by (cases "ss a v = j") auto
  ultimately show "ss a v < length a \<and> a ! ss a v = v" using le j by simp
qed (metis nth_mem)

lemma ss_insert:
  assumes "sorted_wrt (<) a" "v \<notin> set a"
  shows "sorted_wrt (<) (take (ss a v) a @ v # drop (ss a v) a)"
proof -
  have "x < v" if "x \<in> set (take (ss a v) a)" for x
    using that ss_below [OF assms(1)] ss_le [OF assms(1), of v] by (auto simp: in_set_conv_nth)
  moreover have "v < x" if x: "x \<in> set (drop (ss a v) a)" for x
  proof -
    from x obtain i where i: "x = a ! (ss a v + i)" "ss a v + i < length a"
      by (auto simp: in_set_conv_nth less_diff_conv add.commute)
    have "v \<le> x" using ss_above [OF assms(1), of v "ss a v + i"] i by simp
    moreover have "x \<noteq> v" using assms(2) x by (metis in_set_dropD)
    ultimately show "v < x" by simp
  qed
  moreover have "sorted_wrt (<) (take (ss a v) a @ drop (ss a v) a)" using assms(1) by simp
  ultimately show ?thesis unfolding sorted_wrt_append by fastforce
qed

end

definition bisect_left :: "rat list \<Rightarrow> rat \<Rightarrow> nat" where
  "bisect_left a v = length (takeWhile (\<lambda>x. x < v) a)"

interpretation bisect: searchsorted bisect_left
proof unfold_locales
  fix a :: "rat list" and v i assume s: "sorted_wrt (<) a"
  show "bisect_left a v \<le> length a" by (simp add: bisect_left_def length_takeWhile_le)
  show "i < bisect_left a v \<Longrightarrow> a ! i < v"
    unfolding bisect_left_def by (metis nth_mem set_takeWhileD takeWhile_nth)
  assume i: "bisect_left a v \<le> i" "i < length a"
  have "\<not> a ! bisect_left a v < v"
    unfolding bisect_left_def by (rule nth_length_takeWhile) (use i in \<open>simp add: bisect_left_def\<close>)
  moreover have "a ! bisect_left a v \<le> a ! i"
    using sorted_wrt_nth_less [OF s, of "bisect_left a v" i] i by (cases "bisect_left a v = i") auto
  ultimately show "v \<le> a ! i" by simp
qed

section \<open>A side as a map\<close>

definition price_key :: "bool \<Rightarrow> rat \<Rightarrow> rat" where
  "price_key isbid p = (if isbid then - p else p)"

definition levels :: "side_book \<Rightarrow> (rat \<times> rat) list" where
  "levels sb = zip (take (sb_len sb) (sb_price sb)) (take (sb_len sb) (sb_qty sb))"

definition level_map :: "side_book \<Rightarrow> rat \<rightharpoonup> rat" where
  "level_map sb = map_of (levels sb)"

definition wf_columns :: "side_book \<Rightarrow> bool" where
  "wf_columns sb \<longleftrightarrow> length (sb_price sb) = 5000 \<and> length (sb_qty sb) = 5000 \<and> sb_len sb \<le> 5000"

definition wf_side :: "bool \<Rightarrow> side_book \<Rightarrow> bool" where
  "wf_side isbid sb \<longleftrightarrow> wf_columns sb \<and> sorted_wrt (<) (map (price_key isbid) (map fst (levels sb)))"

definition wf_book :: "l2_book \<Rightarrow> bool" where
  "wf_book bk \<longleftrightarrow> wf_side True (bids bk) \<and> wf_side False (asks bk)"

lemma price_key_inj [simp]: "price_key b x = price_key b y \<longleftrightarrow> x = y"
  by (simp add: price_key_def)

lemma length_levels [simp]: "wf_columns sb \<Longrightarrow> length (levels sb) = sb_len sb"
  by (simp add: levels_def wf_columns_def)

lemma fst_levels [simp]: "wf_columns sb \<Longrightarrow> map fst (levels sb) = take (sb_len sb) (sb_price sb)"
  by (simp add: levels_def wf_columns_def)

lemma snd_levels: "wf_columns sb \<Longrightarrow> map snd (levels sb) = take (sb_len sb) (sb_qty sb)"
  by (simp add: levels_def wf_columns_def)

lemma wf_side_columns: "wf_side b sb \<Longrightarrow> wf_columns sb"
  by (simp add: wf_side_def)

lemma wf_side_alt: "wf_side b sb \<longleftrightarrow> wf_columns sb \<and> sorted_wrt (<) (map (price_key b) (take (sb_len sb) (sb_price sb)))"
  by (metis wf_side_def fst_levels)

lemma strict_distinct: "sorted_wrt (<) (xs :: rat list) \<Longrightarrow> distinct xs"
  by (simp add: strict_sorted_iff)

lemma wf_side_distinct: "wf_side b sb \<Longrightarrow> distinct (map fst (levels sb))"
  unfolding wf_side_def using strict_distinct distinct_map by blast

lemma dom_level_map: "dom (level_map sb) = set (map fst (levels sb))"
  by (simp add: level_map_def dom_map_of_conv_image_fst)

lemma card_dom_level_map: "wf_side b sb \<Longrightarrow> card (dom (level_map sb)) = sb_len sb"
  using wf_side_distinct [of b sb] wf_side_columns [of b sb]
  by (metis distinct_card dom_level_map length_levels length_map)

section \<open>Slice surgery\<close>

lemma slice_insert:
  assumes "n < length a" "i \<le> n"
  shows "(if 0 < n \<and> i < n then slice_assign a (i + 1) (n + 1) (slice a i n) else Some a) = Some b \<Longrightarrow>
      b[i := x] = take i (take n a) @ x # drop i (take n a) @ drop (Suc n) a"
    and "(if 0 < n \<and> i < n then slice_assign a (i + 1) (n + 1) (slice a i n) else Some a) \<noteq> None"
proof -
  have "(if 0 < n \<and> i < n then slice_assign a (i + 1) (n + 1) (slice a i n) else Some a) =
      Some (if i < n then take (i + 1) a @ take (n - i) (drop i a) @ drop (n + 1) a else a)"
    using assms by (auto simp: slice_assign_def slice_def Let_def)
  moreover have "(if i < n then take (i + 1) a @ take (n - i) (drop i a) @ drop (n + 1) a else a)[i := x] =
      take i (take n a) @ x # drop i (take n a) @ drop (Suc n) a"
  proof (cases "i < n")
    case True
    then have "take (i + 1) a = take i a @ [a ! i]" using assms by (simp add: take_Suc_conv_app_nth)
    moreover have "length (take i a) = i" using True assms by simp
    ultimately show ?thesis using True
      by (simp add: list_update_append drop_take min_def)
  next
    case False
    with assms have "i = n" by simp
    then show ?thesis using assms by (simp add: upd_conv_take_nth_drop)
  qed
  ultimately show "(if 0 < n \<and> i < n then slice_assign a (i + 1) (n + 1) (slice a i n) else Some a) = Some b \<Longrightarrow>
      b[i := x] = take i (take n a) @ x # drop i (take n a) @ drop (Suc n) a"
    "(if 0 < n \<and> i < n then slice_assign a (i + 1) (n + 1) (slice a i n) else Some a) \<noteq> None" by auto
qed

lemma slice_delete:
  assumes "n \<le> length a" "i < n"
  shows "(if i < n - 1 then slice_assign a i (n - 1) (slice a (i + 1) n) else Some a) = Some b \<Longrightarrow>
      b[n - 1 := 0] = take i (take n a) @ drop (Suc i) (take n a) @ 0 # drop n a"
    and "(if i < n - 1 then slice_assign a i (n - 1) (slice a (i + 1) n) else Some a) \<noteq> None"
proof -
  have "(if i < n - 1 then slice_assign a i (n - 1) (slice a (i + 1) n) else Some a) =
      Some (if i < n - 1 then take i a @ take (n - (i + 1)) (drop (i + 1) a) @ drop (n - 1) a else a)"
    using assms by (auto simp: slice_assign_def slice_def Let_def)
  moreover have "(if i < n - 1 then take i a @ take (n - (i + 1)) (drop (i + 1) a) @ drop (n - 1) a else a)[n - 1 := 0] =
      take i (take n a) @ drop (Suc i) (take n a) @ 0 # drop n a"
  proof (cases "i < n - 1")
    case True
    have "drop (n - 1) a = a ! (n - 1) # drop n a"
      using assms Cons_nth_drop_Suc [of "n - 1" a] by simp
    moreover have "length (take i a @ take (n - (i + 1)) (drop (i + 1) a)) = n - 1" using True assms by simp
    ultimately show ?thesis using True assms by (simp add: list_update_append drop_take min_def)
  next
    case False
    with assms have "i = n - 1" "0 < n" by auto
    then show ?thesis using assms by (simp add: upd_conv_take_nth_drop)
  qed
  ultimately show "(if i < n - 1 then slice_assign a i (n - 1) (slice a (i + 1) n) else Some a) = Some b \<Longrightarrow>
      b[n - 1 := 0] = take i (take n a) @ drop (Suc i) (take n a) @ 0 # drop n a"
    "(if i < n - 1 then slice_assign a i (n - 1) (slice a (i + 1) n) else Some a) \<noteq> None" by auto
qed

lemma zip_columns: "length p = length q \<Longrightarrow> zip (take i p @ x # drop j p) (take i q @ y # drop j q) =
    take i (zip p q) @ (x, y) # drop j (zip p q)"
  by (simp add: zip_append take_zip drop_zip)

lemma map_of_insert: "p \<notin> fst ` set xs \<Longrightarrow> map_of (xs @ (p, v) # ys) = (map_of (xs @ ys))(p \<mapsto> v)"
  by (induction xs) auto

lemma map_of_remove: "p \<notin> fst ` set xs \<Longrightarrow> p \<notin> fst ` set ys \<Longrightarrow> map_of (xs @ ys) = (map_of (xs @ (p, v) # ys))(p := None)"
proof (rule ext)
  fix x assume p: "p \<notin> fst ` set xs" "p \<notin> fst ` set ys"
  then have "map_of xs p = None" "map_of ys p = None" by (simp_all add: map_of_eq_None_iff)
  then show "map_of (xs @ ys) x = ((map_of (xs @ (p, v) # ys))(p := None)) x"
    by (cases "x = p") (auto simp: map_add_def split: option.splits)
qed

lemma side_result:
  assumes "sb_price sb = map fst L @ tp" "sb_qty sb = map snd L @ tq" "sb_len sb = length L"
    and "length (sb_price sb) = 5000" "length (sb_qty sb) = 5000"
    and "sorted_wrt (<) (map (price_key b) (map fst L))"
  shows "wf_side b sb \<and> level_map sb = map_of L"
proof -
  have "sb_len sb \<le> 5000" using assms(1,3,4) by simp
  moreover have "levels sb = L" using assms(1-3) by (simp add: levels_def zip_map_fst_snd)
  ultimately show ?thesis using assms(4-6) by (simp add: wf_side_def wf_columns_def level_map_def)
qed

lemma sorted_wrt_remove: "sorted_wrt R (xs @ x # ys) \<Longrightarrow> sorted_wrt R (xs @ ys)"
  by (simp add: sorted_wrt_append)

section \<open>One entry\<close>

definition book_update :: "(rat \<rightharpoonup> rat) \<Rightarrow> rat \<Rightarrow> rat \<Rightarrow> (rat \<rightharpoonup> rat)" where
  "book_update m price qty = m(price := (if qty = 0 then None else Some qty))"

context searchsorted
begin

lemma locate_facts:
  assumes "wf_side b sb"
  shows "snd (locate ss b sb price) \<longleftrightarrow> price \<in> set (map fst (levels sb))"
    and "fst (locate ss b sb price) \<le> sb_len sb"
    and "snd (locate ss b sb price) \<Longrightarrow> fst (locate ss b sb price) < sb_len sb \<and>
           fst (levels sb ! fst (locate ss b sb price)) = price"
    and "price \<notin> set (map fst (levels sb)) \<Longrightarrow>
         sorted_wrt (<) (map (price_key b) (take (fst (locate ss b sb price)) (map fst (levels sb)) @ price #
            drop (fst (locate ss b sb price)) (map fst (levels sb))))"
proof -
  let ?P = "take (sb_len sb) (sb_price sb)"
  let ?K = "map (price_key b) ?P"
  have w: "wf_columns sb" "sorted_wrt (<) ?K" using assms by (simp_all add: wf_side_alt)
  have len: "length ?K = sb_len sb" using w(1) by (simp add: wf_columns_def)
  have idx: "locate ss b sb price = (if 0 < sb_len sb then (ss ?K (price_key b price),
      ss ?K (price_key b price) < sb_len sb \<and> sb_price sb ! ss ?K (price_key b price) = price) else (0, False))"
    by (simp add: locate_def Let_def price_key_def [abs_def])
  have nth: "?K ! i = price_key b price \<longleftrightarrow> sb_price sb ! i = price" if "i < sb_len sb" for i
    using that len by simp
  have mem: "price_key b price \<in> set ?K \<longleftrightarrow> price \<in> set ?P" by (auto simp: image_iff)
  note f = ss_found [OF w(2), of "price_key b price"] ss_le [OF w(2), of "price_key b price"]
    ss_insert [OF w(2), of "price_key b price"]
  show fnd: "snd (locate ss b sb price) \<longleftrightarrow> price \<in> set (map fst (levels sb))"
    using f(1) nth mem len w(1) by (auto simp: idx)
  show "fst (locate ss b sb price) \<le> sb_len sb" using f(2) len by (simp add: idx)
  show "fst (locate ss b sb price) < sb_len sb \<and> fst (levels sb ! fst (locate ss b sb price)) = price"
    if "snd (locate ss b sb price)"
    using that len w(1) by (auto simp: idx levels_def wf_columns_def split: if_splits)
  show "sorted_wrt (<) (map (price_key b) (take (fst (locate ss b sb price)) (map fst (levels sb)) @ price #
            drop (fst (locate ss b sb price)) (map fst (levels sb))))" if "price \<notin> set (map fst (levels sb))"
    using f(3) that mem w(1) by (simp add: idx take_map drop_map)
qed

lemma apply_diff_ok:
  assumes w: "wf_side b sb"
    and room: "qty \<noteq> 0 \<Longrightarrow> price \<notin> set (map fst (levels sb)) \<Longrightarrow> sb_len sb < 5000"
  shows "\<exists>sb'. apply_diff ss b price qty sb = Some sb' \<and> wf_side b sb' \<and>
    level_map sb' = book_update (level_map sb) price qty"
proof -
  define L n where "L = levels sb" and "n = sb_len sb"
  obtain i found where l: "locate ss b sb price = (i, found)" by force
  note f = locate_facts [OF w, of price, unfolded l fst_conv snd_conv, folded L_def n_def]
  have c: "wf_columns sb" "length (sb_price sb) = 5000" "length (sb_qty sb) = 5000" "n \<le> 5000"
    using wf_side_columns [OF w] by (simp_all add: wf_columns_def n_def)
  have lenL: "length L = n" and P: "take n (sb_price sb) = map fst L" and Q: "take n (sb_qty sb) = map snd L"
    using c(1) by (simp_all add: L_def n_def snd_levels)
  have s: "sorted_wrt (<) (map (price_key b) (map fst L))" using w unfolding wf_side_def L_def by blast
  have m: "level_map sb = map_of L" by (simp add: level_map_def L_def)
  show ?thesis
  proof (cases found)
    case True
    then have i: "i < n" "fst (L ! i) = price" using f(3) by auto
    have split: "L = take i L @ (price, snd (L ! i)) # drop (Suc i) L"
      using id_take_nth_drop [of i L] i lenL by (metis prod.collapse)
    have d: "distinct (map fst L)" using wf_side_distinct [OF w] by (simp add: L_def)
    have nin: "price \<notin> fst ` set (take i L)" "price \<notin> fst ` set (drop (Suc i) L)"
      using d by (subst (asm) split, simp)+
    show ?thesis
    proof (cases "qty = 0")
      case z: True
      obtain p q where p: "(if i < n - 1 then slice_assign (sb_price sb) i (n - 1) (slice (sb_price sb) (i + 1) n) else Some (sb_price sb)) = Some p"
        and q: "(if i < n - 1 then slice_assign (sb_qty sb) i (n - 1) (slice (sb_qty sb) (i + 1) n) else Some (sb_qty sb)) = Some q"
        using slice_delete(2) [of n _ i] i c by fastforce
      let ?sb = "sb\<lparr>sb_price := p[n - 1 := 0], sb_qty := q[n - 1 := 0], sb_len := n - 1\<rparr>"
      let ?L = "take i L @ drop (Suc i) L"
      have pq: "sb_price ?sb = map fst ?L @ 0 # drop n (sb_price sb)" "sb_qty ?sb = map snd ?L @ 0 # drop n (sb_qty sb)"
        using slice_delete(1) [OF _ _ p] slice_delete(1) [OF _ _ q] i c
        by (simp_all add: P Q take_map drop_map)
      have len: "length (sb_price ?sb) = 5000" "length (sb_qty ?sb) = 5000" "sb_len ?sb = length ?L"
        unfolding pq using i c lenL by simp_all
      have "sorted_wrt (<) (map (price_key b) (map fst ?L))"
        using s by (subst (asm) split) (auto simp: sorted_wrt_append)
      from side_result [OF pq len(3,1,2) this] have "wf_side b ?sb" "level_map ?sb = map_of ?L" by blast+
      moreover have "map_of ?L = book_update (map_of L) price qty"
        using map_of_remove [OF nin, of "snd (L ! i)"] split z by (simp add: book_update_def)
      moreover have "apply_diff ss b price qty sb = Some ?sb"
        using p q True z by (simp add: apply_diff_def l n_def [symmetric])
      ultimately show ?thesis by (simp add: m)
    next
      case nz: False
      let ?sb = "sb\<lparr>sb_qty := (sb_qty sb)[i := qty]\<rparr>"
      let ?L = "take i L @ (price, qty) # drop (Suc i) L"
      have fst: "map fst ?L = map fst L" by (subst (3) split) simp
      have "(map snd L)[i := qty] = map snd ?L"
        using i lenL by (simp add: upd_conv_take_nth_drop take_map drop_map)
      moreover have "sb_qty sb = map snd L @ drop n (sb_qty sb)" by (metis Q append_take_drop_id)
      ultimately have q1: "(sb_qty sb)[i := qty] = map snd ?L @ drop n (sb_qty sb)"
        using i lenL by (metis length_map list_update_append1)
      have p1: "sb_price sb = map fst ?L @ drop n (sb_price sb)" unfolding fst by (metis P append_take_drop_id)
      have "length ?L = n" using i lenL by simp
      then have k: "sb_len sb = length ?L" by (simp add: n_def)
      have so: "sorted_wrt (<) (map (price_key b) (map fst ?L))" unfolding fst by (rule s)
      have e: "sb_price ?sb = sb_price sb" "sb_qty ?sb = (sb_qty sb)[i := qty]" "sb_len ?sb = sb_len sb"
        "length (sb_price ?sb) = 5000" "length (sb_qty ?sb) = 5000" using c by simp_all
      note side_result [OF trans [OF e(1) p1] trans [OF e(2) q1] trans [OF e(3) k] e(4,5) so]
      moreover have "map_of ?L = book_update (map_of L) price qty"
        using nz map_of_insert [OF nin(1), of qty "drop (Suc i) L"] map_of_insert [OF nin(1), of "snd (L ! i)" "drop (Suc i) L"] split
        by (simp add: book_update_def)
      moreover have "apply_diff ss b price qty sb = Some ?sb"
        using True nz by (simp add: apply_diff_def l)
      ultimately show ?thesis by (simp add: m)
    qed
  next
    case False
    then have nin: "price \<notin> set (map fst L)" using f(1) by simp
    show ?thesis
    proof (cases "qty = 0")
      case True
      have "book_update (map_of L) price qty = map_of L"
        using True nin by (simp add: book_update_def fun_upd_idem map_of_eq_None_iff)
      then show ?thesis using False True w by (simp add: apply_diff_def l m)
    next
      case nz: False
      have n: "n < 5000" using room nz nin by (simp add: L_def n_def)
      have i: "i \<le> n" using f(2) .
      obtain p q where p: "(if 0 < n \<and> i < n then slice_assign (sb_price sb) (i + 1) (n + 1) (slice (sb_price sb) i n) else Some (sb_price sb)) = Some p"
        and q: "(if 0 < n \<and> i < n then slice_assign (sb_qty sb) (i + 1) (n + 1) (slice (sb_qty sb) i n) else Some (sb_qty sb)) = Some q"
        using slice_insert(2) [of n _ i] i n c by fastforce
      let ?sb = "sb\<lparr>sb_price := p[i := price], sb_qty := q[i := qty], sb_len := n + 1\<rparr>"
      let ?L = "take i L @ (price, qty) # drop i L"
      have pq: "sb_price ?sb = map fst ?L @ drop (Suc n) (sb_price sb)" "sb_qty ?sb = map snd ?L @ drop (Suc n) (sb_qty sb)"
        using slice_insert(1) [OF _ _ p, of price] slice_insert(1) [OF _ _ q, of qty] i n c
        by (simp_all add: P Q take_map drop_map)
      have len: "length (sb_price ?sb) = 5000" "length (sb_qty ?sb) = 5000" "sb_len ?sb = length ?L"
        unfolding pq using i n c lenL by simp_all
      have "sorted_wrt (<) (map (price_key b) (map fst ?L))"
        using f(4) [OF nin] by (simp add: take_map drop_map)
      from side_result [OF pq len(3,1,2) this] have "wf_side b ?sb" "level_map ?sb = map_of ?L" by blast+
      moreover have "price \<notin> fst ` set (take i L)" using nin by (auto dest: in_set_takeD)
      then have "map_of ?L = book_update (map_of L) price qty"
        using nz map_of_insert [of price "take i L" qty "drop i L"] by (simp add: book_update_def)
      moreover have "apply_diff ss b price qty sb = Some ?sb"
        using p q False nz n i by (simp add: apply_diff_def l n_def [symmetric] MAX_BUFFER_def)
      ultimately show ?thesis by (simp add: m)
    qed
  qed
qed

end

end
