(* ===== verification/L2_Properties.thy ===== *)
theory L2_Properties
  imports L2_Invariants
begin

text \<open>
  Whole batches, snapshots, reads and the imbalance of the order book: a batch of at most a thousand
  entries always returns and applies every entry to the levels that survive trimming; a batch with
  five thousand new levels never returns.
\<close>

section \<open>Sides of a book\<close>

lemma wf_book_sides: "wf_book bk \<longleftrightarrow> (\<forall>b. wf_side b (get_side b bk))"
  by (auto simp: wf_book_def get_side_def all_bool_eq)

lemma get_set_side [simp]: "get_side b (set_side c sb bk) = (if b = c then sb else get_side b bk)"
  by (simp add: get_side_def set_side_def)

lemma set_side_frame [simp]:
  "l2_symbol (set_side c sb bk) = l2_symbol bk" "seq_epoch (set_side c sb bk) = seq_epoch bk"
  "expected_seq (set_side c sb bk) = expected_seq bk" "pre_sync_queue (set_side c sb bk) = pre_sync_queue bk"
  "trim_log_counter (set_side c sb bk) = trim_log_counter bk"
  by (simp_all add: set_side_def)

lemma get_side_trim_log [simp]: "get_side b (bk\<lparr>trim_log_counter := c\<rparr>) = get_side b bk"
  by (simp add: get_side_def)

section \<open>Trimming\<close>

lemma trim_blocks_spec:
  assumes "trim_blocks B n t sb = (sb1, n1, t1)" "n \<le> 5000" "length (sb_price sb) = 5000" "length (sb_qty sb) = 5000"
  shows "n1 \<le> n \<and> (n1 + B < 5000 \<or> n1 = 0) \<and> (n1 = n \<or> n1 + 1000 \<le> n \<or> n1 = 0) \<and> (n1 = n \<or> 4000 \<le> n1 + B) \<and> (n + B < 5000 \<longrightarrow> n1 = n) \<and>
    take n1 (sb_price sb1) = take n1 (sb_price sb) \<and> take n1 (sb_qty sb1) = take n1 (sb_qty sb) \<and>
    length (sb_price sb1) = 5000 \<and> length (sb_qty sb1) = 5000"
  using assms
proof (induction B n t sb rule: trim_blocks.induct)
  case (1 B n t sb)
  let ?k = "min TRIM_BLOCK n"
  define zero where "zero = (\<lambda>a :: rat list. take (n - ?k) a @ replicate (length (slice a (n - ?k) n)) 0 @ drop n a)"
  let ?sb = "sb\<lparr>sb_price := zero (sb_price sb), sb_qty := zero (sb_qty sb)\<rparr>"
  show ?case
  proof (cases "n + B < MAX_BUFFER \<or> ?k = 0")
    case True
    then have "trim_blocks B n t sb = (sb, n, t)" by (subst trim_blocks.simps) (auto simp: Let_def)
    then have e: "sb1 = sb" "n1 = n" using "1.prems"(1) by auto
    have "n + B < 5000 \<or> n = 0" using True by (auto simp: MAX_BUFFER_def TRIM_BLOCK_def)
    with "1.prems"(3,4) show ?thesis unfolding e by simp
  next
    case False
    then have k: "(?k = 0) = False" "(n + B < MAX_BUFFER) = False" by blast+
    have r: "trim_blocks B (n - ?k) (t + ?k) ?sb = (sb1, n1, t1)"
      using "1.prems"(1) unfolding trim_blocks.simps [of B n t sb] Let_def k if_False zero_def .
    have len: "length (zero a) = length a" "take m (zero a) = take m a" if "n \<le> length a" "m \<le> n - ?k" for a :: "rat list" and m
      using that by (simp_all add: slice_def zero_def)
    have "n1 \<le> n - ?k \<and> (n1 + B < 5000 \<or> n1 = 0) \<and> (n1 = n - ?k \<or> n1 + 1000 \<le> n - ?k \<or> n1 = 0) \<and> (n1 = n - ?k \<or> 4000 \<le> n1 + B) \<and> (n - ?k + B < 5000 \<longrightarrow> n1 = n - ?k) \<and>
        take n1 (sb_price sb1) = take n1 (sb_price ?sb) \<and> take n1 (sb_qty sb1) = take n1 (sb_qty ?sb) \<and>
        length (sb_price sb1) = 5000 \<and> length (sb_qty sb1) = 5000"
    proof (rule "1.IH" [OF _ refl _ zero_def r])
      show "\<not> n + B < MAX_BUFFER" "?k \<noteq> 0" using False by auto
      show "n - ?k \<le> 5000" using "1.prems" by simp
      show "length (sb_price ?sb) = 5000" "length (sb_qty ?sb) = 5000"
        using len(1) [of "sb_price sb" 0, OF _ le0] len(1) [of "sb_qty sb" 0, OF _ le0] "1.prems"(2-4)
        by simp_all
    qed
    moreover have "4000 \<le> n - ?k + B" using False by (auto simp: MAX_BUFFER_def TRIM_BLOCK_def)
    ultimately have ih: "n1 \<le> n - ?k" "n1 + B < 5000 \<or> n1 = 0" "4000 \<le> n1 + B" "n1 = n - ?k \<or> n1 + 1000 \<le> n - ?k \<or> n1 = 0"
      "take n1 (sb_price sb1) = take n1 (zero (sb_price sb))" "take n1 (sb_qty sb1) = take n1 (zero (sb_qty sb))"
      "length (sb_price sb1) = 5000" "length (sb_qty sb1) = 5000" by auto
    have "take n1 (zero (sb_price sb)) = take n1 (sb_price sb)" "take n1 (zero (sb_qty sb)) = take n1 (sb_qty sb)"
      by (rule len(2); use "1.prems" ih(1) in simp)+
    moreover have "\<not> n + B < 5000" using False by (simp add: MAX_BUFFER_def)
    moreover have "n1 \<le> n" using ih(1) by simp
    moreover have "n1 = n \<or> n1 + 1000 \<le> n \<or> n1 = 0" using ih(4) by (auto simp: TRIM_BLOCK_def min_def split: if_splits)
    ultimately show ?thesis using ih by (simp only: simp_thms)
  qed
qed

text \<open>What trimming a side leaves: the best \<open>k\<close> of its levels, and nothing else changed.\<close>

definition trimmed_to :: "bool \<Rightarrow> nat \<Rightarrow> l2_book \<Rightarrow> l2_book \<Rightarrow> bool" where
  "trimmed_to b k bk bk' \<longleftrightarrow> k \<le> sb_len (get_side b bk) \<and> sb_len (get_side b bk') = k \<and>
     levels (get_side b bk') = take k (levels (get_side b bk)) \<and> wf_side b (get_side b bk') \<and>
     get_side (\<not> b) bk' = get_side (\<not> b) bk \<and> seq_epoch bk' = seq_epoch bk \<and> expected_seq bk' = expected_seq bk \<and>
     pre_sync_queue bk' = pre_sync_queue bk \<and> l2_symbol bk' = l2_symbol bk"

lemma trimmed_to_refl: "wf_side b (get_side b bk) \<Longrightarrow> trimmed_to b (sb_len (get_side b bk)) bk bk"
  using wf_side_columns by (simp add: trimmed_to_def)

lemma trim_side_wf:
  assumes "wf_side b sb" "k \<le> sb_len sb" "take k (sb_price sb1) = take k (sb_price sb)" "take k (sb_qty sb1) = take k (sb_qty sb)"
    "length (sb_price sb1) = 5000" "length (sb_qty sb1) = 5000"
  shows "wf_side b (sb1\<lparr>sb_len := k\<rparr>)" and "levels (sb1\<lparr>sb_len := k\<rparr>) = take k (levels sb)"
proof -
  show lv: "levels (sb1\<lparr>sb_len := k\<rparr>) = take k (levels sb)"
    using assms(2-4) by (simp add: levels_def take_zip min_def)
  have c: "sb_len sb \<le> 5000" using wf_side_columns [OF assms(1)] by (simp add: wf_columns_def)
  have "sorted_wrt (<) (take k (map (price_key b) (map fst (levels sb))))"
    using assms(1) unfolding wf_side_def by (intro sorted_wrt_take) blast
  then show "wf_side b (sb1\<lparr>sb_len := k\<rparr>)"
    using assms(2,5,6) c unfolding wf_side_def lv by (simp add: wf_columns_def take_map)
qed

lemma trim_spec:
  assumes "wf_side b (get_side b bk)" "B < 5000"
  shows "\<exists>k. trimmed_to b k bk (fst (trim b B bk)) \<and> k + B < 5000 \<and>
    (k = sb_len (get_side b bk) \<or> 4000 \<le> k + B \<and> (k + 1000 \<le> sb_len (get_side b bk) \<or> k = 0))"
proof -
  let ?sb = "get_side b bk"
  obtain sb1 n1 t1 where r: "trim_blocks B (sb_len ?sb) 0 ?sb = (sb1, n1, t1)" by (metis prod_cases3)
  have c: "sb_len ?sb \<le> 5000" "length (sb_price ?sb) = 5000" "length (sb_qty ?sb) = 5000"
    using wf_side_columns [OF assms(1)] by (simp_all add: wf_columns_def)
  note s = trim_blocks_spec [OF r c]
  define bk' where "bk' = fst (trim b B bk)"
  have side: "get_side b bk' = sb1\<lparr>sb_len := n1\<rparr>" "get_side (\<not> b) bk' = get_side (\<not> b) bk"
    "seq_epoch bk' = seq_epoch bk" "expected_seq bk' = expected_seq bk"
    "pre_sync_queue bk' = pre_sync_queue bk" "l2_symbol bk' = l2_symbol bk"
    using r by (simp_all add: bk'_def trim_def Let_def)
  have "wf_side b (sb1\<lparr>sb_len := n1\<rparr>)" "levels (sb1\<lparr>sb_len := n1\<rparr>) = take n1 (levels ?sb)"
    by (rule trim_side_wf [OF assms(1)]; use s in blast)+
  then have "trimmed_to b n1 bk bk'" using s by (simp add: trimmed_to_def side)
  then show ?thesis using s assms(2) unfolding bk'_def by auto
qed

lemma trim_loop_spec:
  assumes "wf_side b (get_side b bk)" "B < 5000"
  shows "\<exists>bk' k. trim_loop b B bk = Some bk' \<and> trimmed_to b k bk bk' \<and> k + B < 5000 \<and>
      (k = sb_len (get_side b bk) \<or> k \<le> 4000 \<and> 5000 \<le> sb_len (get_side b bk) + B)"
proof (cases "sb_len (get_side b bk) + B < 5000")
  case True
  then have "trim_loop b B bk = Some bk" by (simp add: trim_loop.simps MAX_BUFFER_def)
  with True trimmed_to_refl [OF assms(1)] show ?thesis by blast
next
  case False
  obtain k where k: "trimmed_to b k bk (fst (trim b B bk))" "k + B < 5000"
    "k = sb_len (get_side b bk) \<or> 4000 \<le> k + B \<and> (k + 1000 \<le> sb_len (get_side b bk) \<or> k = 0)"
    using trim_spec [OF assms] by blast
  have "sb_len (get_side b bk) \<le> 5000" using wf_side_columns [OF assms(1)] by (simp add: wf_columns_def)
  then have k4: "k = sb_len (get_side b bk) \<or> k \<le> 4000" using k(3) by auto
  have "sb_len (get_side b (fst (trim b B bk))) = k" using k(1) by (simp add: trimmed_to_def)
  then have "trim_loop b B bk = Some (fst (trim b B bk))"
    using False k(2) by (simp add: trim_loop.simps [of _ _ bk] trim_loop.simps [of _ _ "fst (trim b B bk)"] MAX_BUFFER_def)
  with k(1,2) k4 False show ?thesis by (metis not_less)
qed

text \<open>With five thousand new levels the loop runs on for ever: an empty side still has no room.\<close>

lemma trim_loop_diverges:
  assumes "5000 \<le> B"
  shows "trim_loop b B bk = None"
proof (rule ccontr)
  assume "trim_loop b B bk \<noteq> None"
  then obtain bk' where "trim_loop b B bk = Some bk'" by auto
  then have "B < 5000"
  proof (induction b B bk bk' rule: trim_loop.raw_induct [rotated, consumes 1, case_names step])
    case (step tl b B bk bk')
    then show ?case by (auto simp: MAX_BUFFER_def split: if_splits)
  qed
  with assms show False by simp
qed

section \<open>Batches\<close>

definition side_entries :: "bool \<Rightarrow> (string \<times> rat \<times> rat) list \<Rightarrow> (rat \<times> rat) list" where
  "side_entries b entries = map snd (filter (\<lambda>(side, e). (side = ''bid'') = b) entries)"

definition update_all :: "(rat \<rightharpoonup> rat) \<Rightarrow> (rat \<times> rat) list \<Rightarrow> (rat \<rightharpoonup> rat)" where
  "update_all m es = foldl (\<lambda>m (price, qty). book_update m price qty) m es"

definition inserted_prices :: "(rat \<times> rat) list \<Rightarrow> rat set" where
  "inserted_prices es = {price. \<exists>qty. (price, qty) \<in> set es \<and> qty \<noteq> 0}"

lemma side_entries_Cons [simp]:
  "side_entries b ((side, price, qty) # es) =
     (if (side = ''bid'') = b then (price, qty) # side_entries b es else side_entries b es)"
  by (simp add: side_entries_def)

lemma inserted_Cons: "inserted_prices ((price, qty) # es) = (if qty = 0 then {} else {price}) \<union> inserted_prices es"
  by (auto simp: inserted_prices_def)

lemma finite_inserted [simp]: "finite (inserted_prices es)"
  by (rule finite_subset [of _ "fst ` set es"]) (force simp: inserted_prices_def)+

lemma card_inserted: "card (inserted_prices es) \<le> length es"
proof -
  have "inserted_prices es \<subseteq> set (map fst es)" by (force simp: inserted_prices_def)
  then have "card (inserted_prices es) \<le> card (set (map fst es))" by (simp add: card_mono)
  also have "\<dots> \<le> length (map fst es)" by (rule card_length)
  finally show ?thesis by simp
qed

lemma dom_book_update: "dom (book_update m p q) \<subseteq> dom m \<union> (if q = 0 then {} else {p})"
  by (auto simp: book_update_def)

context searchsorted
begin

lemma apply_diffs_ok:
  assumes "wf_book bk"
    and "\<And>b. finite (S b) \<and> card (S b) \<le> 5000"
    and "\<And>b. dom (level_map (get_side b bk)) \<union> inserted_prices (side_entries b es) \<subseteq> S b"
  shows "\<exists>bk'. apply_diffs ss es bk = (bk', True) \<and> wf_book bk' \<and>
    (\<forall>b. level_map (get_side b bk') = update_all (level_map (get_side b bk)) (side_entries b es)) \<and>
    seq_epoch bk' = seq_epoch bk \<and> expected_seq bk' = expected_seq bk \<and> pre_sync_queue bk' = pre_sync_queue bk \<and>
    l2_symbol bk' = l2_symbol bk"
  using assms
proof (induction es arbitrary: bk)
  case Nil
  then show ?case by (simp add: side_entries_def update_all_def)
next
  case (Cons e es)
  obtain side price qty where e: "e = (side, price, qty)" by (metis prod_cases3)
  let ?b = "side = ''bid''"
  let ?sb = "get_side ?b bk"
  have w: "wf_side ?b ?sb" using Cons.prems(1) by (simp add: wf_book_sides)
  have "sb_len ?sb < 5000" if "qty \<noteq> 0" "price \<notin> set (map fst (levels ?sb))"
  proof -
    have "price \<in> inserted_prices (side_entries ?b (e # es))" using that(1) by (simp add: e inserted_Cons)
    then have "insert price (dom (level_map ?sb)) \<subseteq> S ?b" using Cons.prems(3) [of ?b] by blast
    then have "card (insert price (dom (level_map ?sb))) \<le> card (S ?b)"
      using Cons.prems(2) [of ?b] by (intro card_mono) simp_all
    then have "card (insert price (dom (level_map ?sb))) \<le> 5000" using Cons.prems(2) [of ?b] by simp
    moreover have "finite (dom (level_map ?sb))" by (simp add: level_map_def finite_dom_map_of)
    moreover have "price \<notin> dom (level_map ?sb)" using that(2) by (simp only: dom_level_map not_False_eq_True)
    ultimately show ?thesis using card_dom_level_map [OF w] by simp
  qed
  from apply_diff_ok [OF w this] obtain sb' where sb': "apply_diff ss ?b price qty ?sb = Some sb'" "wf_side ?b sb'"
    "level_map sb' = book_update (level_map ?sb) price qty" by blast
  let ?bk = "set_side ?b sb' bk"
  have wb: "wf_book ?bk" using Cons.prems(1) sb'(2) by (auto simp: wf_book_sides)
  have sub: "dom (level_map (get_side b ?bk)) \<union> inserted_prices (side_entries b es) \<subseteq> S b" for b
  proof (cases "b = ?b")
    case True
    have "inserted_prices (side_entries b (e # es)) = (if qty = 0 then {} else {price}) \<union> inserted_prices (side_entries b es)"
      using True by (simp add: e inserted_Cons)
    moreover have "get_side b ?bk = sb'" "get_side b bk = ?sb" using True by simp_all
    ultimately show ?thesis
      using Cons.prems(3) [of b] dom_book_update [of "level_map ?sb" price qty] sb'(3) by (simp only:) blast
  next
    case False
    then have "side_entries b (e # es) = side_entries b es" "get_side b ?bk = get_side b bk" by (auto simp: e)
    then show ?thesis using Cons.prems(3) [of b] by (simp only:)
  qed
  obtain bk' where i: "apply_diffs ss es ?bk = (bk', True)" "wf_book bk'"
    "\<forall>b. level_map (get_side b bk') = update_all (level_map (get_side b ?bk)) (side_entries b es)"
    "seq_epoch bk' = seq_epoch ?bk" "expected_seq bk' = expected_seq ?bk" "pre_sync_queue bk' = pre_sync_queue ?bk"
    "l2_symbol bk' = l2_symbol ?bk" using Cons.IH [OF wb Cons.prems(2) sub] by (elim exE conjE) (rule that)
  note bk' = i(1,2) spec [OF i(3)] i(4-7) [unfolded set_side_frame]
  have "apply_diffs ss (e # es) bk = (bk', True)" using sb'(1) bk'(1) by (simp add: e Let_def)
  moreover have "level_map (get_side b bk') = update_all (level_map (get_side b bk)) (side_entries b (e # es))" for b
    using bk'(3) [of b] sb'(3) by (cases "b = ?b") (simp_all add: e update_all_def)
  ultimately show ?case using bk'(2,4-7) by blast
qed

end

lemma count_new_le: "count_new ss b sb es \<le> length es"
  by (simp add: count_new_def)

context searchsorted
begin

lemma card_after_batch:
  assumes "wf_side b sb"
  shows "card (dom (level_map sb) \<union> inserted_prices (side_entries b es)) \<le> sb_len sb + count_new ss b sb es"
proof -
  let ?new = "filter (\<lambda>(side, price, qty). qty \<noteq> 0 \<and> (side = ''bid'') = b \<and> \<not> snd (locate ss b sb price)) es"
  have "dom (level_map sb) \<union> inserted_prices (side_entries b es) \<subseteq> dom (level_map sb) \<union> set (map (fst \<circ> snd) ?new)"
    using locate_facts(1) [OF assms] unfolding dom_level_map inserted_prices_def side_entries_def by force
  then have "card (dom (level_map sb) \<union> inserted_prices (side_entries b es)) \<le> card (dom (level_map sb) \<union> set (map (fst \<circ> snd) ?new))"
    by (intro card_mono) (simp_all add: level_map_def finite_dom_map_of)
  also have "\<dots> \<le> card (dom (level_map sb)) + card (set (map (fst \<circ> snd) ?new))" by (rule card_Un_le)
  also have "\<dots> \<le> sb_len sb + length (map (fst \<circ> snd) ?new)"
    using card_length [of "map (fst \<circ> snd) ?new"] card_dom_level_map [OF assms] by simp
  finally show ?thesis by (simp add: count_new_def)
qed

lemma room_after_trim:
  assumes "wf_side b (get_side b bk)" "trimmed_to b k bk bk'" "length es \<le> 1000"
    and "k + count_new ss b (get_side b bk) es < 5000" "k = sb_len (get_side b bk) \<or> k \<le> 4000"
  shows "card (dom (map_of (take k (levels (get_side b bk)))) \<union> inserted_prices (side_entries b es)) \<le> 5000"
proof (cases "k = sb_len (get_side b bk)")
  case True
  then have "take k (levels (get_side b bk)) = levels (get_side b bk)" using wf_side_columns [OF assms(1)] by simp
  then show ?thesis using card_after_batch [OF assms(1), of es] assms(4) True by (simp add: level_map_def)
next
  case False
  have "card (dom (map_of (take k (levels (get_side b bk))))) \<le> length (take k (levels (get_side b bk)))"
    using card_length [of "map fst (take k (levels (get_side b bk)))"] by (simp add: dom_map_of_conv_image_fst)
  moreover have "length (side_entries b es) \<le> length es" by (simp add: side_entries_def)
  then have "card (inserted_prices (side_entries b es)) \<le> 1000"
    using card_inserted [of "side_entries b es"] assms(3) by linarith
  moreover have "length (take k (levels (get_side b bk))) \<le> 4000" using assms(5) False by simp
  ultimately show ?thesis
    using card_Un_le [of "dom (map_of (take k (levels (get_side b bk))))" "inserted_prices (side_entries b es)"] by linarith
qed

lemma batch_ok:
  assumes bk: "dget st symbol = Some bk" "wf_book bk" and es: "length es \<le> 1000"
  shows "\<exists>bk' k. apply_batch ss symbol es (dd_int (seq_epoch bk) symbol) st = Some (dset st symbol bk', Returned True) \<and>
    wf_book bk' \<and> seq_epoch bk' = seq_epoch bk \<and> expected_seq bk' = expected_seq bk \<and>
    (\<forall>b. level_map (get_side b bk') =
           update_all (map_of (take (k b) (levels (get_side b bk)))) (side_entries b es) \<and>
         (k b = sb_len (get_side b bk) \<or> k b \<le> 4000 \<and> 5000 \<le> sb_len (get_side b bk) + count_new ss b (get_side b bk) es))"
proof -
  let ?n = "\<lambda>b. count_new ss b (get_side b bk) es"
  have n: "?n b < 5000" for b using count_new_le [of ss b "get_side b bk" es] es by simp
  have w: "wf_side b (get_side b bk)" for b using bk(2) by (simp add: wf_book_sides)
  obtain bk1 k1 where t1: "trim_loop True (?n True) bk = Some bk1" "trimmed_to True k1 bk bk1" "k1 + ?n True < 5000"
    "k1 = sb_len (get_side True bk) \<or> k1 \<le> 4000 \<and> 5000 \<le> sb_len (get_side True bk) + ?n True"
    using trim_loop_spec [OF w n] by blast
  have a1: "get_side False bk1 = get_side False bk" using t1(2) by (simp add: trimmed_to_def)
  obtain bk2 k2 where t2: "trim_loop False (?n False) bk1 = Some bk2" "trimmed_to False k2 bk1 bk2" "k2 + ?n False < 5000"
    "k2 = sb_len (get_side False bk) \<or> k2 \<le> 4000 \<and> 5000 \<le> sb_len (get_side False bk) + ?n False"
    using trim_loop_spec [of False bk1 "?n False"] w [of False] n [of False] unfolding a1 by blast
  define k where "k = (\<lambda>b. if b then k1 else k2)"
  have lv: "levels (get_side b bk2) = take (k b) (levels (get_side b bk))" "wf_side b (get_side b bk2)" for b
    using t1(2) t2(2) a1 by (cases b; simp add: trimmed_to_def k_def)+
  have fr: "seq_epoch bk2 = seq_epoch bk" "expected_seq bk2 = expected_seq bk"
    using t1(2) t2(2) by (simp_all add: trimmed_to_def)
  have tr: "trimmed_to False k2 bk (bk2\<lparr>bids := bids bk\<rparr>)"
    using t1(2) t2(2) a1 by (simp add: trimmed_to_def get_side_def)
  have room: "card (dom (level_map (get_side b bk2)) \<union> inserted_prices (side_entries b es)) \<le> 5000" for b
    using room_after_trim [OF w t1(2) es t1(3)] room_after_trim [OF w tr es t2(3)] t1(4) t2(4)
    by (cases b) (auto simp: level_map_def lv k_def)
  have wf2: "wf_book bk2" using lv(2) by (simp add: wf_book_sides)
  define S where "S = (\<lambda>b. dom (level_map (get_side b bk2)) \<union> inserted_prices (side_entries b es))"
  have S1: "finite (S b) \<and> card (S b) \<le> 5000" for b
    using room [of b] by (simp add: S_def level_map_def finite_dom_map_of)
  have S2: "dom (level_map (get_side b bk2)) \<union> inserted_prices (side_entries b es) \<subseteq> S b" for b by (simp add: S_def)
  obtain bk3 where r: "apply_diffs ss es bk2 = (bk3, True)" "wf_book bk3"
    "\<forall>b. level_map (get_side b bk3) = update_all (level_map (get_side b bk2)) (side_entries b es)"
    "seq_epoch bk3 = seq_epoch bk2" "expected_seq bk3 = expected_seq bk2"
    using apply_diffs_ok [OF wf2 S1 S2] by blast
  have "apply_batch ss symbol es (dd_int (seq_epoch bk) symbol) st = Some (dset st symbol bk3, Returned True)"
    using bk(1) t1(1) t2(1) r(1) by (simp add: apply_batch_def Let_def get_side_def)
  moreover have "\<forall>b. level_map (get_side b bk3) = update_all (map_of (take (k b) (levels (get_side b bk)))) (side_entries b es)"
    using r(3) lv(1) by (simp add: level_map_def)
  moreover have "\<forall>b. k b = sb_len (get_side b bk) \<or> k b \<le> 4000 \<and> 5000 \<le> sb_len (get_side b bk) + ?n b"
    using t1(4) t2(4) by (simp add: k_def all_bool_eq)
  ultimately show ?thesis using r(2,4,5) fr by auto
qed

end

section \<open>Properties of batches\<close>

text \<open>C5: on a book whose sides are strictly ordered, a batch of at most a thousand entries for the
  current epoch returns \<open>True\<close>, keeps both sides ordered and within five thousand levels, and leaves
  on each side exactly the map that results from setting and deleting the batch's levels in order,
  starting from all levels of that side, or, when the side would otherwise reach five thousand levels,
  from a best-price prefix of at most four thousand of them.\<close>

theorem l2_batch_applied:
  assumes "searchsorted ss" "dget st symbol = Some bk" "wf_book bk" "length es \<le> 1000"
    and "epoch = dd_int (seq_epoch bk) symbol"
  shows "\<exists>bk' k. apply_batch ss symbol es epoch st = Some (dset st symbol bk', Returned True) \<and>
    wf_book bk' \<and> seq_epoch bk' = seq_epoch bk \<and>
    (\<forall>b. level_map (get_side b bk') =
           update_all (map_of (take (k b) (levels (get_side b bk)))) (side_entries b es) \<and>
         (k b = sb_len (get_side b bk) \<or> k b \<le> 4000 \<and> 5000 \<le> sb_len (get_side b bk) + count_new ss b (get_side b bk) es))"
  using searchsorted.batch_ok [OF assms(1-4)] unfolding assms(5) by blast

definition demo_book :: l2_book where
  "demo_book = (new_book ''B'')\<lparr>bids := empty_side\<lparr>sb_price := 100 # 99 # replicate 4998 0, sb_qty := 1 # 2 # replicate 4998 0, sb_len := 2\<rparr>\<rparr>"

definition demo_batch :: "(string \<times> rat \<times> rat) list" where
  "demo_batch = [(''bid'', 100, 0), (''bid'', 98, 3), (''ask'', 101, 4)]"

lemma demo_book_wf: "wf_book demo_book"
  by (simp add: demo_book_def wf_book_def wf_side_alt wf_columns_def new_book_def empty_side_def price_key_def)

theorem l2_batch_applied_witness:
  "\<exists>bk'. apply_batch bisect_left ''B'' demo_batch 0 [(''B'', demo_book)] = Some ([(''B'', bk')], Returned True) \<and>
     wf_book bk' \<and> level_map (bids bk') = [99 \<mapsto> 2, 98 \<mapsto> 3]"
proof -
  have e: "0 = dd_int (seq_epoch demo_book) ''B''" by (simp add: demo_book_def new_book_def dd_int_def)
  have n: "length demo_batch \<le> 1000" by (simp add: demo_batch_def)
  have len: "sb_len (get_side True demo_book) = 2" by (simp add: demo_book_def get_side_def)
  have c: "count_new bisect_left b sb demo_batch \<le> 3" for b sb
    using count_new_le [of bisect_left b sb demo_batch] by (simp add: demo_batch_def)
  have g: "dget [(''B'', demo_book)] ''B'' = Some demo_book" by (simp add: dget_Cons)
  from l2_batch_applied [OF bisect.searchsorted_axioms g demo_book_wf n e]
  obtain bk' k where bk': "apply_batch bisect_left ''B'' demo_batch 0 [(''B'', demo_book)] = Some (dset [(''B'', demo_book)] ''B'' bk', Returned True)"
    "wf_book bk'" and all: "\<forall>b. level_map (get_side b bk') =
           update_all (map_of (take (k b) (levels (get_side b demo_book)))) (side_entries b demo_batch) \<and>
         (k b = sb_len (get_side b demo_book) \<or>
          k b \<le> 4000 \<and> 5000 \<le> sb_len (get_side b demo_book) + count_new bisect_left b (get_side b demo_book) demo_batch)"
    by blast
  note all = spec [OF all, of True]
  have "k True = 2" using all len c [of True "get_side True demo_book"] by linarith
  moreover have "levels (get_side True demo_book) = [(100, 1), (99, 2)]"
    by (simp add: levels_def demo_book_def get_side_def numeral_2_eq_2)
  ultimately have "level_map (bids bk') = [99 \<mapsto> 2, 98 \<mapsto> 3]"
    using all by (auto simp: get_side_def demo_batch_def update_all_def book_update_def side_entries_def)
  then show ?thesis using bk'(1,2) by (auto simp: dset_def)
qed

text \<open>Lemma: a batch for the current epoch that brings five thousand or more bid levels the book does
  not hold never returns: the loop that makes room empties the side and then runs on with nothing left to
  cut, holding the book's lock.\<close>

theorem l2_batch_never_returns:
  assumes "dget st symbol = Some bk" "epoch = dd_int (seq_epoch bk) symbol" "5000 \<le> count_new ss True (bids bk) es"
  shows "apply_batch ss symbol es epoch st = None"
  using assms by (simp add: apply_batch_def Let_def trim_loop_diverges)

theorem l2_batch_never_returns_witness:
  "apply_batch bisect_left ''B'' (replicate 5000 (''bid'', 7, 1)) 0 [(''B'', new_book ''B'')] = None"
proof (rule l2_batch_never_returns)
  show "dget [(''B'', new_book ''B'')] ''B'' = Some (new_book ''B'')" by (simp add: dget_Cons)
  show "0 = dd_int (seq_epoch (new_book ''B'')) ''B''" by (simp add: new_book_def dd_int_def)
  show "5000 \<le> count_new bisect_left True (bids (new_book ''B'')) (replicate 5000 (''bid'', 7, 1))"
    by (simp add: count_new_def locate_def new_book_def empty_side_def)
qed

section \<open>Snapshots and reads\<close>

definition ordered_levels :: "bool \<Rightarrow> (rat \<times> rat) list \<Rightarrow> bool" where
  "ordered_levels b raw \<longleftrightarrow> sorted_wrt (<) (map (price_key b) (map fst raw))"

text \<open>The two ways of handing a side over agree when the arrays hold the same levels.\<close>

lemma load_side_ok:
  assumes "wf_columns sb" "length raw \<le> 5000" "ordered_levels b raw"
    and "parr = None \<or> qarr = None \<or> parr = Some (map fst raw) \<and> qarr = Some (map snd raw)"
  shows "\<exists>sb'. load_side raw parr qarr sb = (sb', True) \<and> wf_side b sb' \<and> levels sb' = raw"
proof -
  let ?n = "length raw"
  let ?sb = "sb\<lparr>sb_price := map fst raw @ replicate (5000 - ?n) 0, sb_qty := map snd raw @ replicate (5000 - ?n) 0, sb_len := ?n\<rparr>"
  have c: "length (sb_price sb) = 5000" "length (sb_qty sb) = 5000" using assms(1) by (simp_all add: wf_columns_def)
  have sa: "slice_assign a 0 ?n (map f raw) = Some (map f raw @ drop ?n a)" if "length a = 5000" for a f
    using that assms(2) by (simp add: slice_assign_def slice_def Let_def)
  have "load_side raw parr qarr sb = (?sb, True)"
    using assms(4,2) c sa [OF c(1), of fst] sa [OF c(2), of snd]
    by (auto simp: load_side_def Let_def split: option.splits)
  moreover have lv: "levels ?sb = raw" by (simp add: levels_def zip_map_fst_snd)
  moreover have "wf_side b ?sb"
    using assms(2,3) unfolding wf_side_def lv ordered_levels_def by (simp add: wf_columns_def)
  ultimately show ?thesis by blast
qed

lemma new_book_wf: "wf_book (new_book symbol)"
  by (simp add: wf_book_def new_book_def wf_side_alt wf_columns_def empty_side_def)

text \<open>Lemma: a snapshot whose sides are strictly ordered replaces the book by the first five thousand
  levels of each side in an ordered book, advances the epoch by exactly one (so that batches of the old
  epoch are refused), expects the next sequence number, and keeps of the queued updates those that are
  newer than the snapshot and carry the new epoch.\<close>

theorem l2_snapshot_loaded:
  assumes "\<And>bk. dget st symbol = Some bk \<Longrightarrow> wf_book bk"
    and "ordered_levels True (take 5000 (raw_bids msg))" "ordered_levels False (take 5000 (raw_asks msg))"
    and "bids_price_arr msg = None" "asks_price_arr msg = None"
  shows "\<exists>bk'. on_snapshot symbol msg st = (dset st symbol bk', True) \<and> wf_book bk' \<and>
    levels (bids bk') = take 5000 (raw_bids msg) \<and> levels (asks bk') = take 5000 (raw_asks msg) \<and>
    (let bk = (case dget st symbol of Some b \<Rightarrow> b | None \<Rightarrow> new_book symbol); ep = dd_int (seq_epoch bk) symbol + 1
     in dd_int (seq_epoch bk') symbol = ep \<and> expected_seq bk' symbol = Some (snap_seq msg + 1) \<and>
        pre_sync_queue bk' symbol = Some (filter (\<lambda>d. snap_seq msg < d_seq d \<and> d_epoch d = ep)
          (case pre_sync_queue bk symbol of Some q \<Rightarrow> q | None \<Rightarrow> [])))"
proof -
  define bk where "bk = (case dget st symbol of Some b \<Rightarrow> b | None \<Rightarrow> new_book symbol)"
  have w: "wf_columns (bids bk)" "wf_columns (asks bk)"
    using assms(1) new_book_wf [of symbol] by (auto simp: bk_def wf_book_def wf_side_def split: option.splits)
  have n: "length (take 5000 xs) \<le> 5000" for xs :: "(rat \<times> rat) list" by simp
  obtain sb where sb: "load_side (take 5000 (raw_bids msg)) (bids_price_arr msg) (bids_qty_arr msg) (bids bk) = (sb, True)"
    "wf_side True sb" "levels sb = take 5000 (raw_bids msg)"
    using load_side_ok [OF w(1) n assms(2), of "bids_price_arr msg" "bids_qty_arr msg"] assms(4) by blast
  obtain sa where sa: "load_side (take 5000 (raw_asks msg)) (asks_price_arr msg) (asks_qty_arr msg) (asks bk) = (sa, True)"
    "wf_side False sa" "levels sa = take 5000 (raw_asks msg)"
    using load_side_ok [OF w(2) n assms(3), of "asks_price_arr msg" "asks_qty_arr msg"] assms(5) by blast
  define bk1 where "bk1 = bk\<lparr>seq_epoch := (seq_epoch bk)(symbol \<mapsto> dd_int (seq_epoch bk) symbol + 1)\<rparr>"
  define bk3 where "bk3 = finish_snapshot symbol (snap_seq msg) (bk1\<lparr>bids := sb, asks := sa\<rparr>)"
  have e: "bids bk1 = bids bk" "asks (bk1\<lparr>bids := sb\<rparr>) = asks bk" by (simp_all add: bk1_def)
  have "on_snapshot symbol msg st = (dset st symbol bk3, True)"
    unfolding on_snapshot_def bk_def [symmetric] Let_def MAX_BUFFER_def bk1_def [symmetric] e sb sa bk3_def
    by (simp only: prod.case e sa not_True_eq_False if_False)
  moreover have "bids bk3 = sb" "asks bk3 = sa" by (simp_all add: bk3_def finish_snapshot_def Let_def)
  moreover have "dd_int (seq_epoch bk3) symbol = dd_int (seq_epoch bk) symbol + 1" "expected_seq bk3 symbol = Some (snap_seq msg + 1)"
    by (simp_all add: bk3_def bk1_def finish_snapshot_def Let_def dd_int_def)
  moreover have "pre_sync_queue bk3 symbol = Some (filter (\<lambda>d. snap_seq msg < d_seq d \<and> d_epoch d = dd_int (seq_epoch bk) symbol + 1)
      (case pre_sync_queue bk symbol of Some q \<Rightarrow> q | None \<Rightarrow> []))"
    by (simp add: bk3_def bk1_def finish_snapshot_def Let_def dd_int_def)
  ultimately show ?thesis using sb(2,3) sa(2,3) unfolding bk_def [symmetric] Let_def
    by (intro exI [of _ bk3]) (simp add: wf_book_def)
qed

definition demo_snapshot :: snapshot_msg where
  "demo_snapshot = \<lparr>raw_bids = [(100, 1), (99, 2)], raw_asks = [(101, 3)], snap_seq = 7, bids_price_arr = None,
     bids_qty_arr = None, asks_price_arr = None, asks_qty_arr = None\<rparr>"

theorem l2_snapshot_loaded_witness:
  "\<exists>bk'. on_snapshot ''B'' demo_snapshot [] = ([(''B'', bk')], True) \<and> wf_book bk' \<and>
     levels (bids bk') = [(100, 1), (99, 2)] \<and> expected_seq bk' ''B'' = Some 8"
proof -
  have o: "ordered_levels True (take 5000 (raw_bids demo_snapshot))" "ordered_levels False (take 5000 (raw_asks demo_snapshot))"
    "bids_price_arr demo_snapshot = None" "asks_price_arr demo_snapshot = None"
    "take 5000 (raw_bids demo_snapshot) = [(100, 1), (99, 2)]" "snap_seq demo_snapshot = 7"
    by (simp_all add: demo_snapshot_def ordered_levels_def price_key_def)
  have "\<exists>bk'. on_snapshot ''B'' demo_snapshot [] = (dset [] ''B'' bk', True) \<and> wf_book bk' \<and>
      levels (bids bk') = take 5000 (raw_bids demo_snapshot) \<and> expected_seq bk' ''B'' = Some (snap_seq demo_snapshot + 1)"
    using l2_snapshot_loaded [of "[]" "''B''" demo_snapshot, OF _ o(1-4)] unfolding Let_def dget_Nil by blast
  then show ?thesis by (simp add: o dset_def)
qed

text \<open>Lemma: reading a well-formed book gives its best levels: the first entries of the side in strict price
  order, each the quantity the book's map holds for that price, and every level left out is worse than
  every level returned.\<close>

theorem l2_reads_best:
  assumes "dget st symbol = Some bk" "wf_book bk"
  shows "let r = get_levels b symbol depth st
    in length r = min depth (sb_len (get_side b bk)) \<and> ordered_levels b r \<and>
       list_all (\<lambda>(p, q). level_map (get_side b bk) p = Some q) r \<and>
       list_all (\<lambda>(p, q). list_all (\<lambda>(p', q'). price_key b p < price_key b p') (drop (length r) (levels (get_side b bk)))) r"
proof -
  let ?sb = "get_side b bk"
  let ?L = "levels ?sb"
  have w: "wf_side b ?sb" using assms(2) by (simp add: wf_book_sides)
  have r: "get_levels b symbol depth st = take (min depth (sb_len ?sb)) ?L"
    using assms(1) by (simp add: get_levels_def Let_def levels_def take_zip)
  have len: "length ?L = sb_len ?sb" using wf_side_columns [OF w] by simp
  have s: "sorted_wrt (<) (map (price_key b) (map fst ?L))" using w unfolding wf_side_def by blast
  have o: "ordered_levels b (take k ?L)" for k
    using sorted_wrt_take [OF s, of k] by (simp only: ordered_levels_def take_map)
  have m: "level_map ?sb p = Some q" if "(p, q) \<in> set (take k ?L)" for p q k
    using wf_side_distinct [OF w] in_set_takeD [OF that] by (simp add: level_map_def)
  have "price_key b p < price_key b p'" if "(p, q) \<in> set (take k ?L)" "(p', q') \<in> set (drop k ?L)" for p q p' q' k
  proof -
    have "sorted_wrt (<) (map (price_key b) (map fst (take k ?L)) @ map (price_key b) (map fst (drop k ?L)))"
      using s by (simp only: map_append [symmetric] append_take_drop_id)
    then show ?thesis using that unfolding sorted_wrt_append by force
  qed
  then show ?thesis unfolding r Let_def using o m len by (auto simp: list_all_iff)
qed

theorem l2_reads_best_witness:
  "get_bids ''B'' 1 [(''B'', demo_book)] = [(100, 1)] \<and> ordered_levels True (get_bids ''B'' 1 [(''B'', demo_book)])"
proof -
  have "ordered_levels True (get_levels True ''B'' 1 [(''B'', demo_book)])"
    using l2_reads_best [of "[(''B'', demo_book)]" "''B''" demo_book True 1] demo_book_wf by (simp add: dget_Cons Let_def)
  then show ?thesis by (simp add: get_bids_def) (simp add: get_levels_def dget_Cons get_side_def demo_book_def Let_def)
qed

section \<open>Imbalance\<close>

lemma imbalance_bounds:
  assumes "0 \<le> x" "0 \<le> y"
  shows "\<bar>imbalance x y\<bar> \<le> 1"
proof (cases "fadd x y = 0")
  case False
  have pos: "0 < fadd x y" using False rnd_nonneg [of "x + y"] assms by (simp add: fadd_def order_less_le)
  have a: "fsub x y \<le> fadd x y" using assms rnd_mono [of "x - y" "x + y"] by (simp add: fsub_def fadd_def)
  have "rnd (y - x) \<le> rnd (x + y)" using assms by (intro rnd_mono) simp
  moreover have "rnd (y - x) = - fsub x y" using rnd_minus [of "x - y"] by (simp add: fsub_def)
  ultimately have b: "- fsub x y \<le> fadd x y" by (simp add: fadd_def)
  have one: "rnd 1 = 1" using rnd_of_nat [of 1] by simp
  have "fsub x y / fadd x y \<le> 1" "- 1 \<le> fsub x y / fadd x y"
    using a b pos by (simp_all add: divide_le_eq le_divide_eq)
  from this [THEN rnd_mono] have "\<bar>rnd (fsub x y / fadd x y)\<bar> \<le> 1" using one rnd_minus [of 1] by (simp add: abs_le_iff)
  then show ?thesis using False by (simp add: imbalance_def Let_def fdiv_def)
qed (simp add: imbalance_def)

text \<open>Lemma: whatever summation numpy uses, if it gives non-negative totals for non-negative quantities, then
  the imbalance of a book with non-negative quantities lies between minus one and one, also in the
  depth-limited form, and is zero for an empty book or an unknown symbol.\<close>

theorem obi_bounds:
  assumes "\<And>xs. (\<And>x. x \<in> set xs \<Longrightarrow> 0 \<le> x) \<Longrightarrow> 0 \<le> npsum xs"
    and "\<And>bk. dget st symbol = Some bk \<Longrightarrow> list_all (\<lambda>q. 0 \<le> q) (sb_qty (bids bk) @ sb_qty (asks bk))"
  shows "\<bar>get_obi npsum symbol st\<bar> \<le> 1 \<and>
    (case dget st symbol of None \<Rightarrow> get_obi npsum symbol st = 0
     | Some bk \<Rightarrow> \<bar>obi_value (compute_from_book npsum depth bk)\<bar> \<le> 1)"
proof -
  have n: "0 \<le> npsum (take k xs)" if "list_all (\<lambda>q. 0 \<le> q) xs" for k xs
    using that assms(1) [of "take k xs"] by (auto simp: list_all_iff dest: in_set_takeD)
  show ?thesis
  proof (cases "dget st symbol")
    case None
    then show ?thesis by (simp add: get_obi_def)
  next
    case (Some bk)
    have q: "list_all (\<lambda>q. 0 \<le> q) (sb_qty (bids bk))" "list_all (\<lambda>q. 0 \<le> q) (sb_qty (asks bk))"
      using assms(2) [OF Some] unfolding list_all_append by blast+
    have v: "0 \<le> (if c then npsum (take k (sb_qty (bids bk))) else 0)" "0 \<le> (if c then npsum (take k (sb_qty (asks bk))) else 0)" for c k
      using n [OF q(1), of k] n [OF q(2), of k] by (cases c; simp)+
    have "\<bar>get_obi npsum symbol st\<bar> \<le> 1"
    proof (cases "sb_len (bids bk) = 0 \<and> sb_len (asks bk) = 0")
      case True
      then show ?thesis by (simp add: get_obi_def Some)
    next
      case False
      show ?thesis unfolding get_obi_def Some option.case Let_def if_not_P [OF False] by (rule imbalance_bounds [OF v])
    qed
    moreover have "\<bar>obi_value (compute_from_book npsum depth bk)\<bar> \<le> 1"
      unfolding compute_from_book_def obi_compute_def Let_def obi_result.simps by (rule imbalance_bounds [OF v])
    ultimately show ?thesis by (simp add: Some)
  qed
qed

theorem obi_bounds_witness:
  "\<bar>get_obi sum_list ''B'' [(''B'', demo_book)]\<bar> \<le> 1"
proof -
  have "(\<And>x. x \<in> set xs \<Longrightarrow> 0 \<le> x) \<Longrightarrow> 0 \<le> sum_list xs" for xs :: "rat list" by (rule sum_list_nonneg)
  moreover have "list_all (\<lambda>q. 0 \<le> q) (sb_qty (bids demo_book) @ sb_qty (asks demo_book))"
    by (simp add: demo_book_def new_book_def empty_side_def list_all_iff)
  ultimately show ?thesis
    using obi_bounds [of sum_list "[(''B'', demo_book)]" "''B''" 10] by (auto simp: dget_Cons)
qed

end
