(* ===== verification/Seq_Validator.thy ===== *)
theory Seq_Validator
  imports Prelude
begin

text \<open>
  \<^verbatim>\<open>src/data_layer/seq.py\<close>: per-symbol validation of order book update numbers. The per-symbol asyncio lock
  makes each operation one step; the dictionary of locks is kept as the set of its keys. The monotonic
  clock is an argument.
\<close>

section \<open>State and operations\<close>

datatype seq_mode = BINANCE | MEXC

record seq_entry =
  last_u :: int
  epoch :: int
  last_mono_ms :: int

record seq_result =
  is_valid :: bool
  is_gap :: bool
  needs_resync :: bool
  res_last_u :: int

record seq_state =
  seq_states :: "string \<rightharpoonup> seq_entry"
  seq_locks :: "string set"
  seq_mode :: seq_mode

definition seq_result :: "bool \<Rightarrow> bool \<Rightarrow> bool \<Rightarrow> int \<Rightarrow> seq_result" where
  "seq_result v g r u = \<lparr>is_valid = v, is_gap = g, needs_resync = r, res_last_u = u\<rparr>"

definition get_lock :: "string \<Rightarrow> seq_state \<Rightarrow> seq_state" where
  "get_lock symbol s = s\<lparr>seq_locks := insert symbol (seq_locks s)\<rparr>"

definition store :: "string \<Rightarrow> seq_entry \<Rightarrow> seq_state \<Rightarrow> seq_state" where
  "store symbol e s = s\<lparr>seq_states := (seq_states s)(symbol \<mapsto> e)\<rparr>"

definition validate :: "string \<Rightarrow> int \<Rightarrow> int \<Rightarrow> int \<Rightarrow> int \<Rightarrow> seq_state \<Rightarrow> seq_state \<times> seq_result" where
  "validate symbol ep first_u final_u mono_ms s0 =
     (let s = get_lock symbol s0
      in case seq_states s symbol of
           None \<Rightarrow> (s, seq_result False False True 0)
         | Some st \<Rightarrow>
             if ep \<noteq> epoch st then (s, seq_result False False True (last_u st))
             else if seq_mode s = MEXC then
               (if first_u \<le> last_u st then (s, seq_result False False False (last_u st))
                else (store symbol \<lparr>last_u = first_u, epoch = ep, last_mono_ms = mono_ms\<rparr> s, seq_result True False False first_u))
             else if final_u \<le> last_u st then (s, seq_result False False False (last_u st))
             else if last_u st + 1 < first_u then (s, seq_result False True True (last_u st))
             else (store symbol \<lparr>last_u = final_u, epoch = ep, last_mono_ms = mono_ms\<rparr> s, seq_result True False False final_u))"

definition reset :: "string \<Rightarrow> seq_state \<Rightarrow> seq_state" where
  "reset symbol s = s\<lparr>seq_states := (seq_states s)(symbol := None), seq_locks := seq_locks s - {symbol}\<rparr>"

definition set_epoch :: "string \<Rightarrow> int \<Rightarrow> int \<Rightarrow> seq_state \<Rightarrow> seq_state" where
  "set_epoch symbol ep mono_ms s = store symbol \<lparr>last_u = 0, epoch = ep, last_mono_ms = mono_ms\<rparr> (get_lock symbol s)"

definition set_last_u :: "string \<Rightarrow> int \<Rightarrow> int \<Rightarrow> seq_state \<Rightarrow> seq_state" where
  "set_last_u symbol u mono_ms s =
     (let s' = get_lock symbol s
      in case seq_states s' symbol of
           Some st \<Rightarrow> store symbol \<lparr>last_u = u, epoch = epoch st, last_mono_ms = mono_ms\<rparr> s'
         | None \<Rightarrow> store symbol \<lparr>last_u = u, epoch = 0, last_mono_ms = mono_ms\<rparr> s')"

section \<open>Streams of updates\<close>

record update_msg =
  u_symbol :: string
  u_epoch :: int
  u_first :: int
  u_final :: int
  u_mono :: int

text \<open>Feeding a stream; the second component lists the accepted updates.\<close>

fun feed_updates :: "update_msg list \<Rightarrow> seq_state \<Rightarrow> seq_state \<times> update_msg list" where
  "feed_updates [] s = (s, [])"
| "feed_updates (m # ms) s =
     (let (s', r) = validate (u_symbol m) (u_epoch m) (u_first m) (u_final m) (u_mono m) s;
          (s'', acc) = feed_updates ms s'
      in (s'', if is_valid r then m # acc else acc))"

definition accepted_for :: "string \<Rightarrow> update_msg list \<Rightarrow> update_msg list" where
  "accepted_for symbol ms = filter (\<lambda>m. u_symbol m = symbol) ms"

text \<open>The four outcomes of one validation, for the symbol it names and for every other.\<close>

lemma validate_mode: "seq_mode (fst (validate sy ep f l t s)) = seq_mode s"
  by (auto simp: validate_def Let_def get_lock_def store_def split: option.splits)

lemma validate_other: "sy \<noteq> x \<Longrightarrow> seq_states (fst (validate sy ep f l t s)) x = seq_states s x"
  by (auto simp: validate_def Let_def get_lock_def store_def split: option.splits)

lemma validate_rejected: "\<not> is_valid (snd (validate sy ep f l t s)) \<Longrightarrow> seq_states (fst (validate sy ep f l t s)) = seq_states s"
  by (auto simp: validate_def Let_def get_lock_def store_def seq_result_def split: option.splits if_splits)

lemma validate_accepted:
  assumes "is_valid (snd (validate sy ep f l t s))"
  shows "\<exists>st. seq_states s sy = Some st \<and> ep = epoch st \<and>
    (let u = (if seq_mode s = MEXC then f else l)
     in last_u st < u \<and> (seq_mode s = BINANCE \<longrightarrow> f \<le> last_u st + 1) \<and>
        seq_states (fst (validate sy ep f l t s)) sy = Some \<lparr>last_u = u, epoch = ep, last_mono_ms = t\<rparr>)"
  using assms
  by (cases "seq_mode s")
    (auto simp: validate_def Let_def get_lock_def store_def seq_result_def split: option.splits if_splits)

lemma feed_covered:
  assumes "feed_updates ms s = (s', acc)" "seq_mode s = BINANCE" "seq_states s sy = Some st"
  shows "\<exists>st'. seq_states s' sy = Some st' \<and> epoch st' = epoch st \<and> last_u st \<le> last_u st' \<and>
    (\<forall>u. last_u st < u \<and> u \<le> last_u st' \<longrightarrow> (\<exists>m\<in>set (accepted_for sy acc). u_first m \<le> u \<and> u \<le> u_final m)) \<and>
    sorted_wrt (<) (last_u st # map u_final (accepted_for sy acc)) \<and>
    last_u st' = last (last_u st # map u_final (accepted_for sy acc))"
  using assms
proof (induction ms arbitrary: s st acc)
  case Nil
  then show ?case by (simp add: accepted_for_def)
next
  case (Cons m ms)
  obtain s1 r where v: "validate (u_symbol m) (u_epoch m) (u_first m) (u_final m) (u_mono m) s = (s1, r)" by force
  obtain acc1 where f: "feed_updates ms s1 = (s', acc1)" "acc = (if is_valid r then m # acc1 else acc1)"
    using Cons.prems(1) v by (auto simp: Let_def split: prod.splits)
  have mode: "seq_mode s1 = BINANCE" using validate_mode [of "u_symbol m" "u_epoch m" "u_first m" "u_final m" "u_mono m" s] v Cons.prems(2) by simp
  show ?case
  proof (cases "is_valid r \<and> u_symbol m = sy")
    case True
    then have st1: "seq_states s1 sy = Some \<lparr>last_u = u_final m, epoch = epoch st, last_mono_ms = u_mono m\<rparr>"
      "last_u st < u_final m" "u_first m \<le> last_u st + 1"
      using validate_accepted [of "u_symbol m" "u_epoch m" "u_first m" "u_final m" "u_mono m" s] v Cons.prems(2,3)
      by (auto simp: Let_def)
    from Cons.IH [OF f(1) mode st1(1)] obtain st' where st': "seq_states s' sy = Some st'" "epoch st' = epoch st"
      "u_final m \<le> last_u st'"
      "\<forall>u. u_final m < u \<and> u \<le> last_u st' \<longrightarrow> (\<exists>m\<in>set (accepted_for sy acc1). u_first m \<le> u \<and> u \<le> u_final m)"
      "sorted_wrt (<) (u_final m # map u_final (accepted_for sy acc1))"
      "last_u st' = last (u_final m # map u_final (accepted_for sy acc1))" by auto
    have a: "accepted_for sy acc = m # accepted_for sy acc1" using True f(2) by (simp add: accepted_for_def)
    have "\<exists>m\<in>set (accepted_for sy acc). u_first m \<le> u \<and> u \<le> u_final m" if "last_u st < u" "u \<le> last_u st'" for u
    proof (cases "u \<le> u_final m")
      case True
      then show ?thesis using that st1(3) by (intro bexI [of _ m]) (auto simp: a)
    next
      case False
      then show ?thesis using st'(4) that by (auto simp: a)
    qed
    moreover have "sorted_wrt (<) (last_u st # map u_final (accepted_for sy acc))"
      using st'(5) st1(2) by (auto simp: a)
    ultimately show ?thesis using st' st1(2) by (intro exI [of _ st']) (simp add: a)
  next
    case False
    then have "accepted_for sy acc = accepted_for sy acc1" using f(2) by (auto simp: accepted_for_def)
    moreover have "seq_states s1 sy = Some st"
      using False v Cons.prems(3) validate_other [of "u_symbol m" sy "u_epoch m" "u_first m" "u_final m" "u_mono m" s]
        validate_rejected [of "u_symbol m" "u_epoch m" "u_first m" "u_final m" "u_mono m" s] by fastforce
    ultimately show ?thesis using Cons.IH [OF f(1) mode] by simp
  qed
qed

text \<open>Lemma: in Binance mode, after any stream of updates for any symbols, the last update number of a symbol has
  only grown, the accepted updates of the symbol are in strictly increasing order, the last of them is
  the recorded one, and every update number between the start and the recorded one lies in an accepted
  update: nothing was skipped.\<close>

theorem seq_no_gap:
  assumes "feed_updates ms s = (s', acc)" "seq_mode s = BINANCE" "seq_states s sy = Some st"
  shows "\<exists>st'. seq_states s' sy = Some st' \<and> epoch st' = epoch st \<and>
    last_u st' = last (last_u st # map u_final (accepted_for sy acc)) \<and>
    sorted_wrt (<) (last_u st # map u_final (accepted_for sy acc)) \<and>
    (\<forall>u. last_u st < u \<and> u \<le> last_u st' \<longrightarrow> (\<exists>m\<in>set (accepted_for sy acc). u_first m \<le> u \<and> u \<le> u_final m))"
  using feed_covered [OF assms] by blast

definition demo_seq :: "seq_mode \<Rightarrow> seq_state" where
  "demo_seq md = set_last_u ''B'' 10 0 \<lparr>seq_states = Map.empty, seq_locks = {}, seq_mode = md\<rparr>"

definition demo_updates :: "update_msg list" where
  "demo_updates = map (\<lambda>(f, l). \<lparr>u_symbol = ''B'', u_epoch = 0, u_first = f, u_final = l, u_mono = 1\<rparr>)
     [(11, 12), (15, 16), (12, 14), (15, 15)]"

lemma demo_seq_run: "map u_final (snd (feed_updates demo_updates (demo_seq BINANCE))) = [12, 14, 15]"
  by code_simp

theorem seq_no_gap_witness:
  "\<exists>st'. seq_states (fst (feed_updates demo_updates (demo_seq BINANCE))) ''B'' = Some st' \<and> last_u st' = 15"
proof -
  have st: "seq_states (demo_seq BINANCE) ''B'' = Some \<lparr>last_u = 10, epoch = 0, last_mono_ms = 0\<rparr>" "seq_mode (demo_seq BINANCE) = BINANCE"
    by (simp_all add: demo_seq_def set_last_u_def get_lock_def store_def Let_def)
  have "accepted_for ''B'' (snd (feed_updates demo_updates (demo_seq BINANCE))) = snd (feed_updates demo_updates (demo_seq BINANCE))"
    by code_simp
  then show ?thesis
    using seq_no_gap [of demo_updates "demo_seq BINANCE" _ _ "''B''", OF prod.collapse [symmetric] st(2,1)] demo_seq_run by auto
qed

text \<open>Lemma: in MEXC mode, which the module describes as \<^emph>\<open>strict +1, gap if not\<close>, a version that skips numbers is
  accepted and no resynchronisation is asked for.\<close>

theorem seq_mexc_gap:
  "(let (s, r) = validate ''B'' 0 20 (- 1) 1 (demo_seq MEXC)
    in is_valid r \<and> \<not> is_gap r \<and> \<not> needs_resync r \<and> map_option last_u (seq_states s ''B'') = Some 20) \<and>
   map_option last_u (seq_states (demo_seq MEXC) ''B'') = Some 10"
  by (simp add: validate_def demo_seq_def set_last_u_def get_lock_def store_def seq_result_def Let_def)

end
