(* ===== verification/Token_Bucket.thy ===== *)
theory Token_Bucket
  imports Float64
begin

text \<open>
  \<^verbatim>\<open>src/data_layer/token_bucket.py\<close>: the global rate limiter. Each pass of the loop in \<^verbatim>\<open>acquire\<close> runs under the
  asyncio lock and is one step here; between two passes of one caller others may run, so histories are
  arbitrary sequences of passes. Clock readings are arguments, in seconds as doubles.
\<close>

definition RATE :: rat where "RATE = 8"
definition BURST :: rat where "BURST = 15"

record token_bucket =
  tokens :: rat
  last_mono :: rat

definition init_bucket :: "rat \<Rightarrow> token_bucket" where
  "init_bucket now = \<lparr>tokens = BURST, last_mono = now\<rparr>"

definition refill :: "rat \<Rightarrow> token_bucket \<Rightarrow> token_bucket" where
  "refill now tb =
     (let elapsed = fsub now (last_mono tb)
      in \<lparr>tokens = min BURST (fadd (tokens tb) (fmul elapsed RATE)), last_mono = now\<rparr>)"

definition get_tokens :: "rat \<Rightarrow> token_bucket \<Rightarrow> token_bucket \<times> rat" where
  "get_tokens now tb = (let tb' = refill now tb in (tb', tokens tb'))"

text \<open>One pass of the loop: granted, or the time to sleep before the next pass.\<close>

datatype attempt = Granted | Sleep rat

definition try_acquire :: "rat \<Rightarrow> rat \<Rightarrow> token_bucket \<Rightarrow> token_bucket \<times> attempt" where
  "try_acquire now n tb =
     (let tb' = refill now tb
      in if n \<le> tokens tb' then (tb'\<lparr>tokens := fsub (tokens tb') n\<rparr>, Granted)
         else (tb', Sleep (fdiv (fsub n (tokens tb')) RATE)))"

text \<open>\<^verbatim>\<open>acquire\<close> with the clock readings of its passes; \<open>None\<close> while it is still waiting after all of them.\<close>

fun acquire :: "rat list \<Rightarrow> rat \<Rightarrow> token_bucket \<Rightarrow> token_bucket \<times> bool option" where
  "acquire [] n tb = (tb, None)"
| "acquire (now # clock) n tb =
     (case try_acquire now n tb of
        (tb', Granted) \<Rightarrow> (tb', Some True)
      | (tb', Sleep w) \<Rightarrow> acquire clock n tb')"

section \<open>The rate limit\<close>

text \<open>A history: the passes of all callers in the order in which they hold the lock.\<close>

fun grants :: "(rat \<times> rat) list \<Rightarrow> token_bucket \<Rightarrow> token_bucket \<times> rat list" where
  "grants [] tb = (tb, [])"
| "grants ((now, n) # h) tb =
     (let (tb', a) = try_acquire now n tb; (tb'', gs) = grants h tb'
      in (tb'', if a = Granted then n # gs else gs))"

text \<open>What the passes add to the bucket before the cap, each the rounded product of the elapsed time and the
  rate.\<close>

fun refills :: "(rat \<times> rat) list \<Rightarrow> rat \<Rightarrow> rat list" where
  "refills [] prev = []"
| "refills ((now, n) # h) prev = fmul (fsub now prev) RATE # refills h now"

fun clock_ok :: "(rat \<times> rat) list \<Rightarrow> rat \<Rightarrow> bool" where
  "clock_ok [] prev = True"
| "clock_ok ((now, n) # h) prev = (prev \<le> now \<and> 0 \<le> n \<and> clock_ok h now)"

lemma small_rounding:
  assumes "0 \<le> x" "x < 16"
  shows "rnd x \<le> x + 1 / 2 ^ 50" "x - 1 / 2 ^ 50 \<le> rnd x"
proof -
  have "\<bar>rnd x - x\<bar> \<le> 1 / 2 ^ 50"
  proof (cases "x = 0")
    case False
    have "pow2 (binade x) \<le> x" using binade_bounds(1) [OF False] assms(1) by simp
    moreover have "pow2 4 = 16" by (simp add: pow2_def)
    ultimately have "pow2 (binade x) < pow2 4" using assms(2) by linarith
    then have "qexp x \<le> - 49" by (simp add: qexp_def)
    then have "pow2 (qexp x) \<le> pow2 (- 49)" by simp
    moreover have "pow2 (- 49) = 2 / 2 ^ 50" by (simp add: pow2_def power_int_minus)
    ultimately show ?thesis using rnd_error [of x] by simp
  qed (simp add: rnd_def)
  then show "rnd x \<le> x + 1 / 2 ^ 50" "x - 1 / 2 ^ 50 \<le> rnd x" by linarith+
qed

definition bucket_ok :: "token_bucket \<Rightarrow> bool" where
  "bucket_ok tb \<longleftrightarrow> 0 \<le> tokens tb \<and> tokens tb \<le> BURST"

lemma refill_bounds:
  assumes "bucket_ok tb" "last_mono tb \<le> now"
  defines "r \<equiv> fmul (fsub now (last_mono tb)) RATE"
  shows "bucket_ok (refill now tb)" "tokens (refill now tb) \<le> tokens tb + r + 1 / 2 ^ 50" "last_mono (refill now tb) = now"
proof -
  have r: "0 \<le> r" using assms(2) by (simp add: r_def fmul_def fsub_def RATE_def rnd_nonneg)
  have t: "tokens (refill now tb) = min BURST (rnd (tokens tb + r))"
    by (simp add: refill_def Let_def r_def fadd_def)
  have nn: "0 \<le> tokens tb + r" using assms(1) r by (simp add: bucket_ok_def)
  show "bucket_ok (refill now tb)" using rnd_nonneg [OF nn] by (simp add: bucket_ok_def t BURST_def)
  show "last_mono (refill now tb) = now" by (simp add: refill_def Let_def)
  show "tokens (refill now tb) \<le> tokens tb + r + 1 / 2 ^ 50"
  proof (cases "tokens tb + r < 16")
    case True
    then show ?thesis using small_rounding(1) [OF nn] by (simp add: t min_le_iff_disj)
  next
    case False
    then have "BURST \<le> tokens tb + r + 1 / 2 ^ 50" by (simp add: BURST_def)
    then show ?thesis by (simp add: t min_le_iff_disj)
  qed
qed

lemma try_acquire_bounds:
  assumes "bucket_ok tb" "last_mono tb \<le> now" "0 \<le> n" "try_acquire now n tb = (tb', a)"
  shows "bucket_ok tb'" "last_mono tb' = now" "a = Granted \<Longrightarrow> n \<le> BURST"
    "tokens tb' + (if a = Granted then n else 0) \<le> tokens tb + fmul (fsub now (last_mono tb)) RATE + 2 / 2 ^ 50"
proof -
  note r = refill_bounds [OF assms(1,2)]
  let ?t = "tokens (refill now tb)"
  have "bucket_ok tb' \<and> last_mono tb' = now \<and> (a = Granted \<longrightarrow> n \<le> BURST) \<and>
    tokens tb' + (if a = Granted then n else 0) \<le> tokens tb + fmul (fsub now (last_mono tb)) RATE + 2 / 2 ^ 50"
  proof (cases "n \<le> ?t")
    case True
    then have e: "tb' = (refill now tb)\<lparr>tokens := fsub ?t n\<rparr>" "a = Granted"
      using assms(4) by (auto simp: try_acquire_def Let_def)
    have d: "0 \<le> ?t - n" "?t - n < 16" "?t - n \<le> 15" using True r(1) assms(3) by (simp_all add: bucket_ok_def BURST_def)
    have "rnd (?t - n) \<le> rnd (of_nat 15)" using d(3) by (intro rnd_mono) simp
    then have "rnd (?t - n) \<le> 15" using rnd_of_nat [of 15] by simp
    moreover have "0 \<le> rnd (?t - n)" using rnd_nonneg [OF d(1)] .
    moreover have "rnd (?t - n) + n \<le> ?t + 1 / 2 ^ 50" using small_rounding(1) [OF d(1,2)] by linarith
    moreover have "n \<le> BURST" using True r(1) by (simp add: bucket_ok_def)
    ultimately show ?thesis using r(2,3) by (simp add: e bucket_ok_def BURST_def fsub_def)
  next
    case False
    then have e: "tb' = refill now tb" "a \<noteq> Granted" using assms(4) by (auto simp: try_acquire_def Let_def)
    then show ?thesis using r by simp
  qed
  then show "bucket_ok tb'" "last_mono tb' = now" "a = Granted \<Longrightarrow> n \<le> BURST"
    "tokens tb' + (if a = Granted then n else 0) \<le> tokens tb + fmul (fsub now (last_mono tb)) RATE + 2 / 2 ^ 50" by blast+
qed

text \<open>C15: over any history of acquisition passes with a clock that does not run backwards and non-negative
  requests, the tokens granted, with those left, never exceed those in the bucket at the start plus what the passes
  add, which is for each one the elapsed time times the rate as the code computes it, and 2^-49 per pass for the rounding of the
  bucket itself; no grant exceeds the burst of 15, and the bucket
  stays between zero and the burst.\<close>

theorem token_rate_limit:
  assumes "bucket_ok tb" "clock_ok h (last_mono tb)" "grants h tb = (tb', gs)"
  shows "sum_list gs + tokens tb' \<le> tokens tb + sum_list (refills h (last_mono tb)) + of_nat (length h) / 2 ^ 49 \<and>
    bucket_ok tb' \<and> list_all (\<lambda>n. n \<le> 15) gs"
  using assms
proof (induction h arbitrary: tb gs)
  case Nil
  then show ?case by simp
next
  case (Cons p h)
  obtain now n where p: "p = (now, n)" by force
  obtain tb1 a where t: "try_acquire now n tb = (tb1, a)" by force
  obtain gs1 where g: "grants h tb1 = (tb', gs1)" "gs = (if a = Granted then n # gs1 else gs1)"
    using Cons.prems(3) t by (auto simp: p split: prod.splits)
  have c: "last_mono tb \<le> now" "0 \<le> n" "clock_ok h now" using Cons.prems(2) by (simp_all add: p)
  note b = try_acquire_bounds [OF Cons.prems(1) c(1,2) t]
  have ih: "sum_list gs1 + tokens tb' \<le> tokens tb1 + sum_list (refills h now) + of_nat (length h) / 2 ^ 49 \<and>
      bucket_ok tb' \<and> list_all (\<lambda>n. n \<le> 15) gs1"
    using Cons.IH [OF b(1) _ g(1)] c(3) b(2) by simp
  have "of_nat (length (p # h)) / 2 ^ 49 = (of_nat (length h) / 2 ^ 49 + 2 / 2 ^ 50 :: rat)" by (simp add: add_divide_distrib)
  moreover have "sum_list gs = (if a = Granted then n else 0) + sum_list gs1" by (simp add: g(2))
  moreover have "sum_list (refills (p # h) (last_mono tb)) = fmul (fsub now (last_mono tb)) RATE + sum_list (refills h now)" by (simp add: p)
  ultimately have "sum_list gs + tokens tb' \<le> tokens tb + sum_list (refills (p # h) (last_mono tb)) + of_nat (length (p # h)) / 2 ^ 49"
    using ih b(4) by linarith
  then show ?case using ih b(3) by (simp add: g(2) BURST_def)
qed

definition demo_history :: "(rat \<times> rat) list" where
  "demo_history = [(0, 15), (0, 1), (1, 9), (1, 8)]"

lemma demo_history_grants:
  "snd (grants demo_history (init_bucket 0)) = [15, 8]" "sum_list (refills demo_history 0) = 8"
  by code_simp+

theorem token_rate_limit_witness:
  "sum_list (snd (grants demo_history (init_bucket 0))) \<le> 15 + 8 + 4 / 2 ^ 49 \<and> snd (grants demo_history (init_bucket 0)) = [15, 8]"
proof -
  have h: "bucket_ok (init_bucket 0)" "clock_ok demo_history (last_mono (init_bucket 0))" "last_mono (init_bucket 0) = 0"
    "tokens (init_bucket 0) = 15" "length demo_history = 4"
    by (simp_all add: bucket_ok_def init_bucket_def BURST_def demo_history_def)
  obtain tb gs where g: "grants demo_history (init_bucket 0) = (tb, gs)" by force
  from token_rate_limit [OF h(1,2) g] have "sum_list gs + tokens tb \<le> 15 + 8 + 4 / 2 ^ 49" "0 \<le> tokens tb"
    unfolding h(3-5) demo_history_grants(2) by (simp_all add: bucket_ok_def)
  then have "sum_list gs \<le> 15 + 8 + 4 / 2 ^ 49" by linarith
  then show ?thesis using demo_history_grants(1) by (simp only: g snd_conv simp_thms)
qed

end
