(* ===== verification/Pacer.thy ===== *)
theory Pacer
  imports Float64 "HOL-Library.Multiset" "HOL-Library.Product_Lexorder"
begin

text \<open>
  \<^verbatim>\<open>src/execution/pacer.py\<close>: the priority queue in front of the REST gateway, with aging and a minimum
  spacing per priority. What the pacer needs of \<open>heapq\<close> is a locale; the model's heap is the list of
  items sorted by the fields they are compared on. Each pass of the loop in \<^verbatim>\<open>pop\<close> runs under the
  asyncio lock and is one step; other tasks may run between passes.
\<close>

section \<open>The heap\<close>

record 'p pacer_item =
  base_prio :: int
  item_seq :: nat
  enqueue_ts :: rat
  payload :: 'p

definition item_key :: "'p pacer_item \<Rightarrow> int \<times> nat" where
  "item_key i = (base_prio i, item_seq i)"

definition heappush :: "'p pacer_item \<Rightarrow> 'p pacer_item list \<Rightarrow> 'p pacer_item list" where
  "heappush i h = insort_key item_key i h"

fun heappop :: "'p pacer_item list \<Rightarrow> ('p pacer_item \<times> 'p pacer_item list) option" where
  "heappop [] = None"
| "heappop (i # h) = Some (i, h)"

text \<open>The interface: a priority queue over keys, as a multiset with a minimum.\<close>

locale prio_queue =
  fixes push :: "'a \<Rightarrow> 'q \<Rightarrow> 'q" and pop :: "'q \<Rightarrow> ('a \<times> 'q) option"
    and elems :: "'q \<Rightarrow> 'a multiset" and ok :: "'q \<Rightarrow> bool" and key :: "'a \<Rightarrow> 'k :: linorder"
  assumes push_ok: "ok q \<Longrightarrow> ok (push x q)"
    and push_elems: "elems (push x q) = add_mset x (elems q)"
    and pop_None: "pop q = None \<longleftrightarrow> elems q = {#}"
    and pop_ok: "ok q \<Longrightarrow> pop q = Some (x, q') \<Longrightarrow> ok q'"
    and pop_elems: "pop q = Some (x, q') \<Longrightarrow> elems q = add_mset x (elems q')"
    and pop_min: "ok q \<Longrightarrow> pop q = Some (x, q') \<Longrightarrow> y \<in># elems q \<Longrightarrow> key x \<le> key y"
begin

lemma pop_push: "ok q \<Longrightarrow> pop q = Some (x, q') \<Longrightarrow> elems (push x q') = elems q"
  by (simp add: push_elems pop_elems)

lemma pop_size: "pop q = Some (x, q') \<Longrightarrow> size (elems q) = Suc (size (elems q'))"
  by (simp add: pop_elems)

end

definition heap_ok :: "'p pacer_item list \<Rightarrow> bool" where
  "heap_ok h \<longleftrightarrow> sorted (map item_key h)"

interpretation hq: prio_queue heappush heappop mset heap_ok item_key
proof unfold_locales
  fix x y :: "'p pacer_item" and q q'
  show "heap_ok q \<Longrightarrow> heap_ok (heappush x q)" by (simp add: heap_ok_def heappush_def sorted_insort_key)
  show "mset (heappush x q) = add_mset x (mset q)" by (simp add: heappush_def)
  show "(heappop q = None) = (mset q = {#})" by (cases q) simp_all
  show "heap_ok q \<Longrightarrow> heappop q = Some (x, q') \<Longrightarrow> heap_ok q'" by (cases q) (auto simp: heap_ok_def)
  show "heappop q = Some (x, q') \<Longrightarrow> mset q = add_mset x (mset q')" by (cases q) auto
  show "heap_ok q \<Longrightarrow> heappop q = Some (x, q') \<Longrightarrow> y \<in># mset q \<Longrightarrow> item_key x \<le> item_key y"
    by (cases q) (auto simp: heap_ok_def)
qed

section \<open>State and operations\<close>

record pacer_config =
  critical_spacing_ms :: int
  normal_spacing_ms :: int
  rebuild_spacing_ms :: int
  critical_maxsize :: int

definition default_pacer_config :: pacer_config where
  "default_pacer_config = \<lparr>critical_spacing_ms = 2, normal_spacing_ms = 20, rebuild_spacing_ms = 50, critical_maxsize = 200\<rparr>"

record 'p pacer_state =
  heap :: "'p pacer_item list"
  next_seq :: nat
  last_dispatch :: "int \<Rightarrow> rat"

definition init_pacer :: "'p pacer_state" where
  "init_pacer = \<lparr>heap = [], next_seq = 0, last_dispatch = (\<lambda>_. 0)\<rparr>"

text \<open>\<^verbatim>\<open>_min_delay\<close>, defined for the priorities 0, 1 and 2.\<close>

definition min_delay :: "pacer_config \<Rightarrow> int \<Rightarrow> rat" where
  "min_delay cfg prio = fdiv (of_int (if prio = 0 then critical_spacing_ms cfg
     else if prio = 1 then normal_spacing_ms cfg else rebuild_spacing_ms cfg)) 1000"

datatype enqueue_result = EnqOk | EnqAssertion | EnqFull

definition enqueue :: "pacer_config \<Rightarrow> rat \<Rightarrow> int \<Rightarrow> 'p \<Rightarrow> 'p pacer_state \<Rightarrow> 'p pacer_state \<times> enqueue_result" where
  "enqueue cfg wall prio pl s =
     (if prio \<noteq> 0 \<and> prio \<noteq> 1 \<and> prio \<noteq> 2 then (s, EnqAssertion)
      else if prio = 0 \<and> critical_maxsize cfg \<le> int (length (heap s)) then (s, EnqFull)
      else (s\<lparr>heap := heappush \<lparr>base_prio = prio, item_seq = next_seq s, enqueue_ts = wall, payload = pl\<rparr> (heap s),
              next_seq := Suc (next_seq s)\<rparr>, EnqOk))"

text \<open>\<^verbatim>\<open>int((time.time() - item.enqueue_ts) // 1)\<close>, not below zero.\<close>

definition age_bonus :: "rat \<Rightarrow> 'p pacer_item \<Rightarrow> int" where
  "age_bonus wall i = max 0 \<lfloor>fsub wall (enqueue_ts i)\<rfloor>"

definition effective_prio :: "rat \<Rightarrow> 'p pacer_item \<Rightarrow> int" where
  "effective_prio wall i = max 0 (min 2 (base_prio i - age_bonus wall i))"

datatype 'p pop_result = Empty | Wait | Dispatched 'p

text \<open>One pass of the loop.\<close>

definition pop_step :: "pacer_config \<Rightarrow> rat \<Rightarrow> rat \<Rightarrow> 'p pacer_state \<Rightarrow> 'p pacer_state \<times> 'p pop_result" where
  "pop_step cfg wall mono_now s =
     (case heappop (heap s) of
        None \<Rightarrow> (s, Empty)
      | Some (i, h) \<Rightarrow>
          (let effective = effective_prio wall i
           in if effective < base_prio i then (s\<lparr>heap := heappush (i\<lparr>base_prio := effective\<rparr>) h\<rparr>, Wait)
              else let since = fsub mono_now (last_dispatch s (base_prio i));
                       gap = fsub (min_delay cfg effective) since
                   in if 0 < gap then (s\<lparr>heap := heappush i h\<rparr>, Wait)
                      else (s\<lparr>heap := h, last_dispatch := (last_dispatch s)(base_prio i := mono_now)\<rparr>, Dispatched (payload i))))"

text \<open>\<^verbatim>\<open>pop\<close> undisturbed by other tasks, given the clock readings of its passes; \<open>Wait\<close> when they run out.\<close>

fun pop :: "pacer_config \<Rightarrow> (rat \<times> rat) list \<Rightarrow> 'p pacer_state \<Rightarrow> 'p pacer_state \<times> 'p pop_result" where
  "pop cfg [] s = (s, Wait)"
| "pop cfg ((wall, mono_now) # clock) s =
     (case pop_step cfg wall mono_now s of
        (s', Wait) \<Rightarrow> pop cfg clock s'
      | (s', r) \<Rightarrow> (s', r))"

definition qsize :: "'p pacer_state \<Rightarrow> nat" where
  "qsize s = length (heap s)"

definition is_empty :: "'p pacer_state \<Rightarrow> bool" where
  "is_empty s = (length (heap s) = 0)"

section \<open>Histories\<close>

datatype 'p pacer_event =
    Enqueue rat int 'p
  | Pass rat rat

text \<open>What a history hands over: the accepted payloads and the dispatches, the latter with their priority and
  time.\<close>

fun pacer_run :: "pacer_config \<Rightarrow> 'p pacer_event list \<Rightarrow> 'p pacer_state \<Rightarrow> 'p pacer_state \<times> 'p list \<times> (int \<times> rat \<times> 'p) list" where
  "pacer_run cfg [] s = (s, [], [])"
| "pacer_run cfg (Enqueue wall prio pl # es) s =
     (let (s', r) = enqueue cfg wall prio pl s; (t, ins, outs) = pacer_run cfg es s'
      in (t, if r = EnqOk then pl # ins else ins, outs))"
| "pacer_run cfg (Pass wall mono_now # es) s =
     (let (s', r) = pop_step cfg wall mono_now s; (t, ins, outs) = pacer_run cfg es s'
      in (t, ins, case r of Dispatched pl \<Rightarrow> (base_prio (hd (heap s)), mono_now, pl) # outs | _ \<Rightarrow> outs))"

section \<open>Comparing doubles by their difference\<close>

lemma is_double_rnd [simp]: "is_double (rnd x)"
  by (simp add: is_double_def rnd_rnd)

section \<open>Nothing lost, nothing duplicated, spacing kept\<close>

definition waiting :: "'p pacer_state \<Rightarrow> 'p multiset" where
  "waiting s = image_mset payload (mset (heap s))"

definition pacer_ok :: "'p pacer_state \<Rightarrow> bool" where
  "pacer_ok s \<longleftrightarrow> heap_ok (heap s) \<and> list_all (\<lambda>i. 0 \<le> base_prio i \<and> base_prio i \<le> 2) (heap s)"

lemma payload_prio [simp]: "payload (i\<lparr>base_prio := q\<rparr>) = payload i"
  by simp

lemma enqueue_waiting:
  "enqueue cfg wall prio pl s = (s', r) \<Longrightarrow>
     waiting s' = (if r = EnqOk then add_mset pl (waiting s) else waiting s) \<and> last_dispatch s' = last_dispatch s"
  by (auto simp: enqueue_def waiting_def hq.push_elems split: if_splits)

lemma pop_step_waiting:
  assumes "pop_step cfg wall mono_now s = (s', r)"
  shows "case r of Dispatched pl \<Rightarrow> waiting s = add_mset pl (waiting s') | _ \<Rightarrow> waiting s' = waiting s"
proof (cases "heap s")
  case Nil
  then show ?thesis using assms by (simp add: pop_step_def)
next
  case (Cons i h)
  then show ?thesis using assms
    by (auto simp: pop_step_def Let_def waiting_def hq.push_elems split: if_splits)
qed

text \<open>\<open>spaced cfg p prev ts\<close>: the dispatch times \<open>ts\<close> of priority \<open>p\<close>, after one at \<open>prev\<close>, are each at least the
  priority's minimum delay after the one before.\<close>

fun spaced :: "pacer_config \<Rightarrow> int \<Rightarrow> rat \<Rightarrow> rat list \<Rightarrow> bool" where
  "spaced cfg p prev [] = True"
| "spaced cfg p prev (t # ts) = (min_delay cfg p \<le> fsub t prev \<and> spaced cfg p t ts)"

lemma pop_step_dispatch:
  assumes "pop_step cfg wall mono_now s = (s', Dispatched pl)"
  shows "\<exists>i h. heap s = i # h \<and> heap s' = h \<and> pl = payload i \<and> base_prio i \<le> effective_prio wall i \<and>
    last_dispatch s' = (last_dispatch s)(base_prio i := mono_now) \<and>
    \<not> 0 < fsub (min_delay cfg (effective_prio wall i)) (fsub mono_now (last_dispatch s (base_prio i)))"
proof (cases "heap s")
  case Nil
  then show ?thesis using assms by (simp add: pop_step_def)
next
  case (Cons i h)
  then show ?thesis using assms by (auto simp: pop_step_def Let_def split: if_splits)
qed

lemma pop_step_other:
  "pop_step cfg wall mono_now s = (s', r) \<Longrightarrow> \<forall>pl. r \<noteq> Dispatched pl \<Longrightarrow> last_dispatch s' = last_dispatch s"
  by (cases "heap s") (auto simp: pop_step_def Let_def split: if_splits)

lemma effective_le: "0 \<le> base_prio i \<Longrightarrow> base_prio i \<le> 2 \<Longrightarrow> effective_prio wall i \<le> base_prio i \<and> 0 \<le> effective_prio wall i"
  by (auto simp: effective_prio_def age_bonus_def)

lemma set_heappush [simp]: "set (heappush i h) = insert i (set h)"
  by (simp add: heappush_def set_insort_key)

lemma enqueue_ok: "pacer_ok s \<Longrightarrow> enqueue cfg wall prio pl s = (s', r) \<Longrightarrow> pacer_ok s'"
  by (auto simp: pacer_ok_def enqueue_def list_all_iff intro: hq.push_ok split: if_splits)

lemma pop_step_ok:
  assumes "pacer_ok s" "pop_step cfg wall mono_now s = (s', r)"
  shows "pacer_ok s'"
proof (cases "heap s")
  case Nil
  then show ?thesis using assms by (simp add: pop_step_def)
next
  case (Cons i h)
  have h: "heap_ok h" using assms(1) hq.pop_ok [of "heap s" i h] Cons by (simp add: pacer_ok_def)
  have e: "0 \<le> effective_prio wall i" "effective_prio wall i \<le> 2"
    using assms(1) effective_le [of i wall] by (auto simp: pacer_ok_def Cons list_all_iff)
  have p: "\<forall>j\<in>set h. 0 \<le> base_prio j \<and> base_prio j \<le> 2" "0 \<le> base_prio i" "base_prio i \<le> 2"
    using assms(1) by (auto simp: pacer_ok_def Cons list_all_iff)
  have "heap s' = h \<or> heap s' = heappush i h \<or> heap s' = heappush (i\<lparr>base_prio := effective_prio wall i\<rparr>) h"
    using assms(2) by (auto simp: pop_step_def Cons Let_def split: if_splits)
  then show ?thesis using h e p by (auto simp: pacer_ok_def list_all_iff intro: hq.push_ok)
qed

text \<open>A dispatch happens under the priority the item was accepted with, its minimum delay after the last one.\<close>

lemma dispatch_spacing:
  assumes "pop_step cfg wall mono_now s = (s', Dispatched pl)" "pacer_ok s"
  shows "last_dispatch s' = (last_dispatch s)(base_prio (hd (heap s)) := mono_now)"
    and "min_delay cfg (base_prio (hd (heap s))) \<le> fsub mono_now (last_dispatch s (base_prio (hd (heap s))))"
proof -
  from pop_step_dispatch [OF assms(1)] obtain i h where i: "heap s = i # h" "base_prio i \<le> effective_prio wall i"
    "last_dispatch s' = (last_dispatch s)(base_prio i := mono_now)"
    "\<not> 0 < fsub (min_delay cfg (effective_prio wall i)) (fsub mono_now (last_dispatch s (base_prio i)))" by blast
  have "effective_prio wall i = base_prio i" using i(1,2) assms(2) effective_le [of i wall] by (simp add: pacer_ok_def)
  then show "min_delay cfg (base_prio (hd (heap s))) \<le> fsub mono_now (last_dispatch s (base_prio (hd (heap s))))"
    using i(1,4) fsub_pos_iff [of "fsub mono_now (last_dispatch s (base_prio i))" "min_delay cfg (base_prio i)"]
    by (simp add: min_delay_def fdiv_def fsub_def not_less)
  show "last_dispatch s' = (last_dispatch s)(base_prio (hd (heap s)) := mono_now)" using i(1,3) by simp
qed

text \<open>C23: over any interleaving of enqueues and passes, what was accepted is exactly what was
  dispatched plus what is still waiting, each payload as often as it was accepted, whatever the aging and
  the requeueing did in between; and successive dispatches under the same priority are at least that
  priority's minimum delay apart, counting from the last dispatch before the history.\<close>

theorem pacer_conserves:
  assumes "pacer_run cfg es s = (t, ins, outs)" "pacer_ok s"
  shows "waiting s + mset ins = mset (map (snd \<circ> snd) outs) + waiting t \<and>
    spaced cfg p (last_dispatch s p) (map (fst \<circ> snd) (filter (\<lambda>(q, _). q = p) outs)) \<and> pacer_ok t"
  using assms
proof (induction es arbitrary: s ins outs)
  case Nil
  then show ?case by simp
next
  case (Cons e es)
  show ?case
  proof (cases e)
    case (Enqueue wall prio pl)
    obtain s1 r where q: "enqueue cfg wall prio pl s = (s1, r)" by force
    obtain ins1 where r: "pacer_run cfg es s1 = (t, ins1, outs)" "ins = (if r = EnqOk then pl # ins1 else ins1)"
      using Cons.prems(1) q by (auto simp: Enqueue Let_def split: prod.splits)
    have ok: "pacer_ok s1" using enqueue_ok [OF Cons.prems(2) q] .
    have ld: "last_dispatch s1 = last_dispatch s" using enqueue_waiting [OF q] by simp
    from Cons.IH [OF r(1) ok] ld show ?thesis
      using enqueue_waiting [OF q] r(2) by auto
  next
    case (Pass wall mono_now)
    obtain s1 r where q: "pop_step cfg wall mono_now s = (s1, r)" by force
    obtain outs1 where r: "pacer_run cfg es s1 = (t, ins, outs1)"
      "outs = (case r of Dispatched pl \<Rightarrow> (base_prio (hd (heap s)), mono_now, pl) # outs1 | _ \<Rightarrow> outs1)"
      using Cons.prems(1) q by (auto simp: Pass Let_def split: prod.splits)
    have ok: "pacer_ok s1" using pop_step_ok [OF Cons.prems(2) q] .
    show ?thesis
    proof (cases "\<exists>pl. r = Dispatched pl")
      case True
      then obtain pl where pl: "r = Dispatched pl" by blast
      note d = dispatch_spacing [OF q [unfolded pl] Cons.prems(2)]
      have o: "outs = (base_prio (hd (heap s)), mono_now, pl) # outs1" using r(2) by (simp add: pl)
      have w: "waiting s = add_mset pl (waiting s1)" using pop_step_waiting [OF q] by (simp add: pl)
      note ih = Cons.IH [OF r(1) ok]
      have "spaced cfg p (last_dispatch s p) (map (fst \<circ> snd) (filter (\<lambda>(q, _). q = p) outs))"
        using ih d by (cases "base_prio (hd (heap s)) = p") (simp_all add: o comp_def)
      moreover have "waiting s + mset ins = mset (map (snd \<circ> snd) outs) + waiting t"
        using ih [THEN conjunct1] by (simp add: o w comp_def)
      moreover have "pacer_ok t" using ih by blast
      ultimately show ?thesis by blast
    next
      case False
      then have "last_dispatch s1 = last_dispatch s" "waiting s1 = waiting s" "outs = outs1"
        using pop_step_other [OF q] pop_step_waiting [OF q] r(2) by (auto split: pop_result.splits)
      with Cons.IH [OF r(1) ok] show ?thesis by simp
    qed
  qed
qed

definition demo_pacer_events :: "string pacer_event list" where
  "demo_pacer_events = [Enqueue 0 1 ''a'', Enqueue 0 0 ''b'', Pass 0 1, Pass 0 1, Pass 0 2]"

lemma demo_pacer_run:
  "(case pacer_run default_pacer_config demo_pacer_events init_pacer of (t, ins, outs) \<Rightarrow> (qsize t, ins, outs)) =
     (0, [''a'', ''b''], [(0, 1, ''b''), (1, 1, ''a'')])"
  by code_simp

theorem pacer_conserves_witness:
  "\<exists>t. pacer_run default_pacer_config demo_pacer_events init_pacer = (t, [''a'', ''b''], [(0, 1, ''b''), (1, 1, ''a'')]) \<and>
     {#''a'', ''b''#} = {#''b'', ''a''#} + waiting t"
proof -
  obtain t where t: "pacer_run default_pacer_config demo_pacer_events init_pacer = (t, [''a'', ''b''], [(0, 1, ''b''), (1, 1, ''a'')])"
    using demo_pacer_run by (auto split: prod.splits)
  have "pacer_ok init_pacer" "waiting init_pacer = ({#} :: string multiset)"
    by (simp_all add: pacer_ok_def init_pacer_def heap_ok_def waiting_def)
  with pacer_conserves [OF t, of 0] t show ?thesis by auto
qed

section \<open>Order, progress and aging\<close>

text \<open>What a pass dispatches has the least priority number in the queue, and among those the least sequence
  number.\<close>

lemma dispatch_min:
  assumes "pacer_ok s" "pop_step cfg wall mono_now s = (s', Dispatched pl)" "j \<in> set (heap s)"
  shows "base_prio (hd (heap s)) < base_prio j \<or>
    base_prio (hd (heap s)) = base_prio j \<and> item_seq (hd (heap s)) \<le> item_seq j"
proof -
  from pop_step_dispatch [OF assms(2)] obtain i h where i: "heap s = i # h" by blast
  have "item_key i \<le> item_key j"
    using hq.pop_min [of "heap s" i h j] assms(1,3) i by (simp add: pacer_ok_def)
  then show ?thesis by (auto simp: item_key_def i less_eq_prod_def)
qed

definition prio_sum :: "'p pacer_state \<Rightarrow> nat" where
  "prio_sum s = (\<Sum>i\<in>#mset (heap s). nat (base_prio i))"

text \<open>C24: when the spacing of every priority has run out at each clock reading and the queue is not empty,
  \<^verbatim>\<open>pop\<close> undisturbed by other tasks dispatches after at most as many waiting passes as the sum of the
  priorities in the queue: aging cannot keep it spinning.\<close>

theorem pacer_progress:
  assumes "pacer_ok s" "heap s \<noteq> []" "prio_sum s < length clock"
    and "list_all (\<lambda>(wall, mono_now). list_all (\<lambda>q. fsub (min_delay cfg q) (fsub mono_now (last_dispatch s q)) \<le> 0) [0, 1, 2]) clock"
  shows "\<exists>pl. snd (pop cfg clock s) = Dispatched pl \<and> pl \<in># waiting s"
  using assms
proof (induction clock arbitrary: s)
  case Nil
  then show ?case by simp
next
  case (Cons c clock)
  obtain wall mono_now where c: "c = (wall, mono_now)" by force
  obtain i h where i: "heap s = i # h" using Cons.prems(2) by (cases "heap s") auto
  obtain s' r where q: "pop_step cfg wall mono_now s = (s', r)" by force
  have b: "base_prio i = 0 \<or> base_prio i = 1 \<or> base_prio i = 2" using Cons.prems(1) by (auto simp: pacer_ok_def i)
  have g: "fsub (min_delay cfg (base_prio i)) (fsub mono_now (last_dispatch s (base_prio i))) \<le> 0"
    using Cons.prems(4) b by (auto simp: c)
  have e: "effective_prio wall i \<le> base_prio i" "0 \<le> effective_prio wall i" using b effective_le [of i wall] by auto
  show ?case
  proof (cases "effective_prio wall i < base_prio i")
    case True
    then have r: "r = Wait" "heap s' = heappush (i\<lparr>base_prio := effective_prio wall i\<rparr>) h" "last_dispatch s' = last_dispatch s"
      using q by (auto simp: pop_step_def i Let_def)
    have "prio_sum s' < prio_sum s"
      using True e by (simp add: prio_sum_def r(2) hq.push_elems i)
    moreover have "heap s' \<noteq> []" using hq.push_elems [of "i\<lparr>base_prio := effective_prio wall i\<rparr>" h] by (auto simp: r(2))
    ultimately have "\<exists>pl. snd (pop cfg clock s') = Dispatched pl \<and> pl \<in># waiting s'"
      using Cons.IH [OF pop_step_ok [OF Cons.prems(1) q]] Cons.prems(3,4) r(3) by auto
    moreover have "waiting s' = waiting s" using pop_step_waiting [OF q] r(1) by simp
    ultimately show ?thesis using q r(1) by (simp add: c)
  next
    case False
    then have "r = Dispatched (payload i)" using q g e by (auto simp: pop_step_def i Let_def)
    then show ?thesis using q by (simp add: c waiting_def i)
  qed
qed

lemma demo_pacer_clock:
  "list_all (\<lambda>q. fsub (min_delay default_pacer_config q) (fsub 1 0) \<le> 0) [0, 1, 2]"
  by code_simp

definition demo_rebuild :: "string pacer_state" where
  "demo_rebuild = fst (enqueue default_pacer_config (3 / 2) 2 ''r'' init_pacer)"

theorem pacer_progress_witness:
  "\<exists>pl. snd (pop default_pacer_config [(3, 1), (3, 1), (3, 1)] demo_rebuild) = Dispatched pl"
proof -
  have d: "heap demo_rebuild = [\<lparr>base_prio = 2, item_seq = 0, enqueue_ts = 3 / 2, payload = ''r''\<rparr>]"
    "last_dispatch demo_rebuild q = 0" for q
    by (simp_all add: demo_rebuild_def enqueue_def init_pacer_def heappush_def)
  have p: "pacer_ok demo_rebuild" "heap demo_rebuild \<noteq> []" "prio_sum demo_rebuild < length [(3 :: rat, 1 :: rat), (3, 1), (3, 1)]"
    by (simp_all add: pacer_ok_def heap_ok_def d prio_sum_def)
  have "list_all (\<lambda>(wall, mono_now). list_all (\<lambda>q. fsub (min_delay default_pacer_config q) (fsub mono_now (last_dispatch demo_rebuild q)) \<le> 0) [0, 1, 2])
     [(3 :: rat, 1), (3, 1), (3, 1)]" using demo_pacer_clock by (simp only: d list.pred_inject prod.case simp_thms)
  from pacer_progress [OF p this] show ?thesis by blast
qed

text \<open>Lemma: the bonus is applied again to the already reduced priority on every pass, so an item that has
  waited a second and a half, whose effective priority is one class better, goes up two classes: a
  rebuild item is dispatched as critical, and under the critical spacing.\<close>

theorem pacer_aging_compounds:
  "effective_prio 3 \<lparr>base_prio = 2, item_seq = 0, enqueue_ts = 3 / 2, payload = ''r''\<rparr> = 1 \<and>
   snd (snd (pacer_run default_pacer_config [Enqueue (3 / 2) 2 ''r'', Pass 3 1, Pass 3 1, Pass 3 1] init_pacer)) = [(0, 1, ''r'')]"
  by code_simp

end
