(* ===== verification/Rest_Gateway.thy ===== *)
theory Rest_Gateway
  imports Pacer
begin

text \<open>
  \<^verbatim>\<open>src/execution/rest_gateway.py\<close>: semaphores per IP, per symbol and per pool, the circuit that opens after
  repeated 429 answers, and order dispatch over the pacer. An asyncio semaphore is its counter;
  waiting on one whose counter is zero lasts until the outer timeout, since no other task releases it in
  the model of a single call. The token bucket's answers and the outcomes of the HTTP post (a stub in the
  repository) are arguments; clock readings are in seconds as doubles.
\<close>

section \<open>State\<close>

record gw_config =
  rest_outer_timeout_ms :: int
  per_ip_limit :: int
  per_symbol_limit :: int
  sem_emergency_count :: int
  sem_normal_count :: int
  circuit_429_threshold :: int
  circuit_open_seconds :: rat
  circuit_half_open_test_max :: int
  gw_pacer :: pacer_config

definition default_gw_config :: gw_config where
  "default_gw_config = \<lparr>rest_outer_timeout_ms = 3500, per_ip_limit = 15, per_symbol_limit = 2, sem_emergency_count = 3,
     sem_normal_count = 9, circuit_429_threshold = 3, circuit_open_seconds = 60, circuit_half_open_test_max = 1,
     gw_pacer = default_pacer_config\<rparr>"

record order_payload =
  pl_symbol :: "string option"
  pl_reduce_only :: "bool option"

record gateway =
  per_ip_sem :: "string \<rightharpoonup> int"
  per_symbol_sem :: "string \<rightharpoonup> int"
  sem_emergency :: int
  sem_normal :: int
  critical_bypass :: bool
  consecutive_429 :: "string \<rightharpoonup> int"
  circuit_open_until :: "string \<rightharpoonup> rat"
  half_open_probe_used :: "string \<rightharpoonup> bool"
  pacer :: "order_payload pacer_state"

definition init_gateway :: "gw_config \<Rightarrow> gateway" where
  "init_gateway cfg = \<lparr>per_ip_sem = Map.empty, per_symbol_sem = Map.empty, sem_emergency = sem_emergency_count cfg,
     sem_normal = sem_normal_count cfg, critical_bypass = False, consecutive_429 = Map.empty,
     circuit_open_until = Map.empty, half_open_probe_used = Map.empty, pacer = init_pacer\<rparr>"

text \<open>A lookup in a \<^verbatim>\<open>defaultdict\<close>.\<close>

definition dd :: "'v \<Rightarrow> ('k \<rightharpoonup> 'v) \<Rightarrow> 'k \<Rightarrow> 'v" where
  "dd v m k = (case m k of Some x \<Rightarrow> x | None \<Rightarrow> v)"

section \<open>The 429 circuit\<close>

definition record_429 :: "gw_config \<Rightarrow> rat \<Rightarrow> string \<Rightarrow> gateway \<Rightarrow> gateway" where
  "record_429 cfg now symbol g =
     (let n = dd 0 (consecutive_429 g) symbol + 1;
          g1 = g\<lparr>consecutive_429 := (consecutive_429 g)(symbol \<mapsto> n)\<rparr>
      in if circuit_429_threshold cfg \<le> n
         then g1\<lparr>circuit_open_until := (circuit_open_until g1)(symbol \<mapsto> fadd now (circuit_open_seconds cfg)),
                 half_open_probe_used := (half_open_probe_used g1)(symbol \<mapsto> False)\<rparr>
         else g1)"

definition record_success :: "string \<Rightarrow> gateway \<Rightarrow> gateway" where
  "record_success symbol g =
     g\<lparr>consecutive_429 := (consecutive_429 g)(symbol \<mapsto> 0),
       circuit_open_until := (circuit_open_until g)(symbol := None),
       half_open_probe_used := (half_open_probe_used g)(symbol \<mapsto> False)\<rparr>"

definition is_circuit_open :: "gw_config \<Rightarrow> rat \<Rightarrow> string \<Rightarrow> gateway \<Rightarrow> gateway \<times> bool" where
  "is_circuit_open cfg now symbol g =
     (case circuit_open_until g symbol of
        None \<Rightarrow> (g, False)
      | Some until \<Rightarrow>
          if until \<le> now then
            (if circuit_half_open_test_max cfg \<le> 0 then (record_success symbol g, False)
             else if \<not> dd False (half_open_probe_used g) symbol
             then (g\<lparr>half_open_probe_used := (half_open_probe_used g)(symbol \<mapsto> True)\<rparr>, False)
             else (g, True))
          else (g, True))"

section \<open>Acquire and release\<close>

datatype acquire_result = AcqFatal | Acquired | TimedOut | Refused

definition ip_value :: "gw_config \<Rightarrow> gateway \<Rightarrow> string \<Rightarrow> int" where
  "ip_value cfg g ip = dd (per_ip_limit cfg) (per_ip_sem g) ip"

definition symbol_value :: "gw_config \<Rightarrow> gateway \<Rightarrow> string \<Rightarrow> int" where
  "symbol_value cfg g symbol = dd (per_symbol_limit cfg) (per_symbol_sem g) symbol"

definition pool_value :: "bool \<Rightarrow> gateway \<Rightarrow> int" where
  "pool_value em g = (if em then sem_emergency g else sem_normal g)"

definition add_pool :: "bool \<Rightarrow> int \<Rightarrow> gateway \<Rightarrow> gateway" where
  "add_pool em d g = (if em then g\<lparr>sem_emergency := sem_emergency g + d\<rparr> else g\<lparr>sem_normal := sem_normal g + d\<rparr>)"

definition add_ip :: "gw_config \<Rightarrow> string \<Rightarrow> int \<Rightarrow> gateway \<Rightarrow> gateway" where
  "add_ip cfg ip d g = g\<lparr>per_ip_sem := (per_ip_sem g)(ip \<mapsto> ip_value cfg g ip + d)\<rparr>"

definition add_symbol :: "gw_config \<Rightarrow> string \<Rightarrow> int \<Rightarrow> gateway \<Rightarrow> gateway" where
  "add_symbol cfg symbol d g = g\<lparr>per_symbol_sem := (per_symbol_sem g)(symbol \<mapsto> symbol_value cfg g symbol + d)\<rparr>"

text \<open>The three releases every failing branch runs, whether or not the semaphore was taken.\<close>

definition release_all :: "gw_config \<Rightarrow> string \<Rightarrow> string \<Rightarrow> bool \<Rightarrow> gateway \<Rightarrow> gateway" where
  "release_all cfg ip symbol em g = add_pool em 1 (add_ip cfg ip 1 (add_symbol cfg symbol 1 g))"

definition gw_acquire :: "gw_config \<Rightarrow> rat \<Rightarrow> bool \<Rightarrow> string \<Rightarrow> string \<Rightarrow> bool \<Rightarrow> gateway \<Rightarrow> gateway \<times> acquire_result" where
  "gw_acquire cfg now tok ip symbol em g0 =
     (if critical_bypass g0 then (g0, AcqFatal)
      else let (g, op) = is_circuit_open cfg now symbol g0
           in if op then (g, Refused)
              else if pool_value em g \<le> 0 then (release_all cfg ip symbol em g, TimedOut)
              else let g1 = add_pool em (- 1) g
                   in if ip_value cfg g1 ip \<le> 0 then (release_all cfg ip symbol em g1, TimedOut)
                      else let g2 = add_ip cfg ip (- 1) g1
                           in if symbol_value cfg g2 symbol \<le> 0 then (release_all cfg ip symbol em g2, TimedOut)
                              else let g3 = add_symbol cfg symbol (- 1) g2
                                   in if \<not> tok then (release_all cfg ip symbol em g3, Refused)
                                      else (g3, Acquired))"

definition gw_release :: "string \<Rightarrow> string \<Rightarrow> bool \<Rightarrow> gateway \<Rightarrow> gateway" where
  "gw_release ip symbol em g =
     (let g1 = (case per_symbol_sem g symbol of None \<Rightarrow> g
                | Some v \<Rightarrow> g\<lparr>per_symbol_sem := (per_symbol_sem g)(symbol \<mapsto> v + 1)\<rparr>);
          g2 = (case per_ip_sem g1 ip of None \<Rightarrow> g1
                | Some v \<Rightarrow> g1\<lparr>per_ip_sem := (per_ip_sem g1)(ip \<mapsto> v + 1)\<rparr>)
      in add_pool em 1 g2)"

section \<open>Order dispatch\<close>

datatype exchange_outcome = ExOk | Ex429 | ExError

datatype post_result = Posted string bool | PostNone | PostRaised

text \<open>The two attempts of the emergency path: the bucket's answer, the outcome of the post and the clock for each.\<close>

fun direct_attempts :: "gw_config \<Rightarrow> string \<Rightarrow> bool \<Rightarrow> (bool \<times> exchange_outcome \<times> rat) list \<Rightarrow> gateway \<Rightarrow> gateway \<times> post_result" where
  "direct_attempts cfg symbol ro [] g = (g, PostNone)"
| "direct_attempts cfg symbol ro ((tok, ex, now) # rest) g =
     (if tok then
        (case ex of
           ExOk \<Rightarrow> (record_success symbol g, Posted symbol ro)
         | Ex429 \<Rightarrow> direct_attempts cfg symbol ro rest (record_429 cfg now symbol g)
         | ExError \<Rightarrow> direct_attempts cfg symbol ro rest g)
      else direct_attempts cfg symbol ro rest g)"

definition direct_market_post ::
  "gw_config \<Rightarrow> string \<Rightarrow> bool \<Rightarrow> bool \<times> exchange_outcome \<times> rat \<Rightarrow> bool \<times> exchange_outcome \<times> rat \<Rightarrow> gateway \<Rightarrow> gateway \<times> post_result" where
  "direct_market_post cfg symbol ro a1 a2 g = direct_attempts cfg symbol ro [a1, a2] g"

text \<open>What one call meets: the wall clock for the pacer, the answers of the bucket, the outcome and clock of the
  post, and those of the emergency attempts.\<close>

record post_env =
  pe_wall :: rat
  pe_now :: rat
  pe_tok :: bool
  pe_outcome :: exchange_outcome
  pe_done :: rat
  pe_try1 :: "bool \<times> exchange_outcome \<times> rat"
  pe_try2 :: "bool \<times> exchange_outcome \<times> rat"

definition post_market_order :: "gw_config \<Rightarrow> post_env \<Rightarrow> order_payload \<Rightarrow> int \<Rightarrow> gateway \<Rightarrow> gateway \<times> post_result" where
  "post_market_order cfg env pl prio g =
     (let symbol = (case pl_symbol pl of Some s \<Rightarrow> s | None \<Rightarrow> []);
          (pc, enq) = enqueue (gw_pacer cfg) (pe_wall env) prio pl (pacer g);
          g0 = g\<lparr>pacer := pc\<rparr>
      in case enq of
           EnqAssertion \<Rightarrow> (g0, PostRaised)
         | EnqFull \<Rightarrow> direct_market_post cfg symbol True (pe_try1 env) (pe_try2 env) g0
         | EnqOk \<Rightarrow>
             (let em = (prio = 0); ip = ''default'';
                  (g1, r) = gw_acquire cfg (pe_now env) (pe_tok env) ip symbol em g0
              in case r of
                   AcqFatal \<Rightarrow> (g1, PostRaised)
                 | TimedOut \<Rightarrow> (g1, PostNone)
                 | Refused \<Rightarrow> (g1, PostNone)
                 | Acquired \<Rightarrow>
                     (case pe_outcome env of
                        ExOk \<Rightarrow> (gw_release ip symbol em (record_success symbol g1),
                                Posted symbol (case pl_reduce_only pl of Some b \<Rightarrow> b | None \<Rightarrow> True))
                      | Ex429 \<Rightarrow> (gw_release ip symbol em (record_429 cfg (pe_done env) symbol g1), PostNone)
                      | ExError \<Rightarrow> (gw_release ip symbol em g1, PostRaised))))"

definition set_critical_bypass :: "bool \<Rightarrow> gateway \<Rightarrow> gateway" where
  "set_critical_bypass v g = g\<lparr>critical_bypass := v\<rparr>"

section \<open>Semaphore accounting\<close>

lemma add_values [simp]:
  "symbol_value cfg (add_pool em d g) x = symbol_value cfg g x"
  "symbol_value cfg (add_ip cfg ip d g) x = symbol_value cfg g x"
  "symbol_value cfg (add_symbol cfg symbol d g) x = symbol_value cfg g x + (if x = symbol then d else 0)"
  "circuit_open_until (add_pool em d g) = circuit_open_until g"
  "circuit_open_until (add_ip cfg ip d g) = circuit_open_until g"
  "circuit_open_until (add_symbol cfg symbol d g) = circuit_open_until g"
  "half_open_probe_used (add_pool em d g) = half_open_probe_used g"
  "half_open_probe_used (add_ip cfg ip d g) = half_open_probe_used g"
  "half_open_probe_used (add_symbol cfg symbol d g) = half_open_probe_used g"
  by (simp_all add: symbol_value_def add_pool_def add_ip_def add_symbol_def dd_def)

lemma circuit_keeps_symbol [simp]: "symbol_value cfg (fst (is_circuit_open cfg now s g)) x = symbol_value cfg g x"
  by (auto simp: is_circuit_open_def record_success_def symbol_value_def split: option.splits)

lemma gw_acquire_symbol:
  assumes "gw_acquire cfg now tok ip symbol em g = (g', r)"
  shows "symbol_value cfg g' x = symbol_value cfg g x +
    (if x = symbol then (if r = Acquired then - 1 else if r = TimedOut then 1 else 0) else 0)"
proof -
  obtain g1 op where c: "is_circuit_open cfg now symbol g = (g1, op)" by force
  have v: "symbol_value cfg g1 y = symbol_value cfg g y" for y
    using circuit_keeps_symbol [of cfg now symbol g y] by (simp add: c)
  show ?thesis using assms v [of x] v [of symbol]
    by (auto simp: gw_acquire_def c Let_def release_all_def split: if_splits)
qed

text \<open>Releasing what was acquired: the symbol's semaphore exists by then.\<close>

lemma gw_release_symbol:
  "symbol_value cfg (gw_release ip symbol em g) x =
     symbol_value cfg g x + (if x = symbol \<and> per_symbol_sem g symbol \<noteq> None then 1 else 0)"
  by (auto simp: gw_release_def Let_def symbol_value_def dd_def add_pool_def split: option.splits)

text \<open>Histories of one symbol's semaphore: acquisitions and releases of held slots, in any order.\<close>

datatype gw_event =
    Acquire rat bool string string bool
  | Release string string bool

record gw_run =
  gr_gate :: gateway
  gr_held :: "(string \<times> string \<times> bool) list"
  gr_timeouts :: "string list"

fun gw_step :: "gw_config \<Rightarrow> gw_event \<Rightarrow> gw_run \<Rightarrow> gw_run" where
  "gw_step cfg (Acquire now tok ip symbol em) r =
     (let (g, a) = gw_acquire cfg now tok ip symbol em (gr_gate r)
      in r\<lparr>gr_gate := g,
           gr_held := (if a = Acquired then (ip, symbol, em) # gr_held r else gr_held r),
           gr_timeouts := (if a = TimedOut then symbol # gr_timeouts r else gr_timeouts r)\<rparr>)"
| "gw_step cfg (Release ip symbol em) r =
     (if (ip, symbol, em) \<in> set (gr_held r)
      then r\<lparr>gr_gate := gw_release ip symbol em (gr_gate r), gr_held := remove1 (ip, symbol, em) (gr_held r)\<rparr>
      else r)"

definition held_count :: "string \<Rightarrow> (string \<times> string \<times> bool) list \<Rightarrow> int" where
  "held_count symbol hs = int (length (filter (\<lambda>(ip, s, em). s = symbol) hs))"

definition start_run :: "gw_config \<Rightarrow> gw_run" where
  "start_run cfg = \<lparr>gr_gate = init_gateway cfg, gr_held = [], gr_timeouts = []\<rparr>"

definition gw_accounted :: "gw_config \<Rightarrow> gw_run \<Rightarrow> bool" where
  "gw_accounted cfg r \<longleftrightarrow> (\<forall>s. symbol_value cfg (gr_gate r) s + held_count s (gr_held r) =
       per_symbol_limit cfg + int (count_list (gr_timeouts r) s)) \<and>
     (\<forall>(ip, s, em) \<in> set (gr_held r). per_symbol_sem (gr_gate r) s \<noteq> None)"

lemma symbol_sem_created:
  "gw_acquire cfg now tok ip symbol em g = (g', Acquired) \<Longrightarrow> per_symbol_sem g' symbol \<noteq> None"
  by (auto simp: gw_acquire_def Let_def add_symbol_def split: if_splits prod.splits)

lemma circuit_sems [simp]: "per_symbol_sem (fst (is_circuit_open cfg now s g)) = per_symbol_sem g"
  by (auto simp: is_circuit_open_def record_success_def split: option.splits)

lemma symbol_sem_kept:
  assumes "gw_acquire cfg now tok ip symbol em g = (g', r)" "per_symbol_sem g x \<noteq> None"
  shows "per_symbol_sem g' x \<noteq> None"
proof -
  obtain g1 op where c: "is_circuit_open cfg now symbol g = (g1, op)" by force
  have v: "per_symbol_sem g1 = per_symbol_sem g"
    using circuit_sems [of cfg now symbol g] by (simp add: c)
  show ?thesis using assms v
    by (auto simp: gw_acquire_def c Let_def release_all_def add_pool_def add_ip_def add_symbol_def split: if_splits)
qed

lemma release_sem_kept: "per_symbol_sem g x \<noteq> None \<Longrightarrow> per_symbol_sem (gw_release ip symbol em g) x \<noteq> None"
  by (auto simp: gw_release_def Let_def add_pool_def split: option.splits)

lemma held_count_remove:
  "(ip, s, em) \<in> set hs \<Longrightarrow> held_count x (remove1 (ip, s, em) hs) = held_count x hs - (if x = s then 1 else 0)"
  by (induction hs) (auto simp: held_count_def)

lemma gw_step_accounted:
  assumes "gw_accounted cfg r"
  shows "gw_accounted cfg (gw_step cfg e r)"
proof (cases e)
  case (Acquire now tok ip symbol em)
  obtain g a where g: "gw_acquire cfg now tok ip symbol em (gr_gate r) = (g, a)" by force
  have "per_symbol_sem g s \<noteq> None" if "(i, s, m) \<in> set (gr_held r)" for i s m
    using assms that symbol_sem_kept [OF g, of s] by (auto simp: gw_accounted_def)
  moreover have "a = Acquired \<Longrightarrow> per_symbol_sem g symbol \<noteq> None" using symbol_sem_created g by blast
  moreover have "symbol_value cfg g s + held_count s (if a = Acquired then (ip, symbol, em) # gr_held r else gr_held r) =
      per_symbol_limit cfg + int (count_list (if a = TimedOut then symbol # gr_timeouts r else gr_timeouts r) s)" for s
    using assms gw_acquire_symbol [OF g, of s] by (auto simp: gw_accounted_def held_count_def)
  ultimately show ?thesis unfolding Acquire gw_accounted_def by (auto simp: g)
next
  case (Release ip symbol em)
  show ?thesis
  proof (cases "(ip, symbol, em) \<in> set (gr_held r)")
    case True
    then have c: "per_symbol_sem (gr_gate r) symbol \<noteq> None" using assms by (auto simp: gw_accounted_def)
    have "symbol_value cfg (gw_release ip symbol em (gr_gate r)) s + held_count s (remove1 (ip, symbol, em) (gr_held r)) =
        per_symbol_limit cfg + int (count_list (gr_timeouts r) s)" for s
      using assms c by (simp add: gw_accounted_def gw_release_symbol held_count_remove [OF True])
    moreover have "per_symbol_sem (gw_release ip symbol em (gr_gate r)) s \<noteq> None" if "(i, s, m) \<in> set (remove1 (ip, symbol, em) (gr_held r))" for i s m
      using assms that release_sem_kept set_remove1_subset by (fastforce simp: gw_accounted_def)
    ultimately show ?thesis using True unfolding Release gw_accounted_def by auto
  next
    case False
    then show ?thesis using assms by (simp add: Release)
  qed
qed

text \<open>Lemma: over any history of acquisitions and releases of held slots, the free slots of a symbol plus the
  held ones equal the configured limit plus the number of acquisitions for that symbol that timed out: the
  timeout branch gives back a slot that was never taken, so every timeout raises the number of requests
  the symbol may have in flight by one, for ever.\<close>

theorem rest_symbol_slots:
  "let r = fold (gw_step cfg) es (start_run cfg)
   in symbol_value cfg (gr_gate r) s + held_count s (gr_held r) = per_symbol_limit cfg + int (count_list (gr_timeouts r) s)"
proof -
  have s: "gw_accounted cfg (start_run cfg)"
    by (simp add: gw_accounted_def start_run_def init_gateway_def symbol_value_def dd_def held_count_def)
  have "gw_accounted cfg r \<Longrightarrow> gw_accounted cfg (fold (gw_step cfg) es r)" for r
    by (induction es arbitrary: r) (simp_all add: gw_step_accounted)
  from this [OF s] show ?thesis by (simp add: gw_accounted_def Let_def)
qed

text \<open>Lemma: with the default limit of two requests per symbol, three requests for one symbol are in flight at
  once after one timeout.\<close>

theorem rest_limit_broken:
  "let r = fold (gw_step default_gw_config) (replicate 4 (Acquire 0 True ''default'' ''B'' False)) (start_run default_gw_config)
   in held_count ''B'' (gr_held r) = 3 \<and> per_symbol_limit default_gw_config = 2 \<and> gr_timeouts r = [''B'']"
  by code_simp

section \<open>The circuit\<close>

text \<open>Lemma: when a symbol's count of consecutive 429 answers reaches the threshold, then until the open time
  has passed every acquisition for it is refused, and leaves every semaphore as it was.\<close>

theorem rest_circuit_blocks:
  assumes "circuit_429_threshold cfg \<le> dd 0 (consecutive_429 g) symbol + 1"
    and "now < fadd t (circuit_open_seconds cfg)" "\<not> critical_bypass g"
  shows "gw_acquire cfg now tok ip symbol em (record_429 cfg t symbol g) = (record_429 cfg t symbol g, Refused)"
  using assms by (simp add: gw_acquire_def record_429_def is_circuit_open_def Let_def)

theorem rest_circuit_blocks_witness:
  "snd (gw_acquire default_gw_config 59 True ''default'' ''B'' False
     (record_429 default_gw_config 0 ''B'' (record_429 default_gw_config 0 ''B'' (record_429 default_gw_config 0 ''B'' (init_gateway default_gw_config))))) = Refused"
proof -
  let ?g = "record_429 default_gw_config 0 ''B'' (record_429 default_gw_config 0 ''B'' (init_gateway default_gw_config))"
  have "circuit_429_threshold default_gw_config \<le> dd 0 (consecutive_429 ?g) ''B'' + 1" "\<not> critical_bypass ?g"
    by (simp_all add: record_429_def init_gateway_def default_gw_config_def dd_def Let_def)
  moreover have "59 < fadd 0 (circuit_open_seconds default_gw_config)" by code_simp
  ultimately show ?thesis using rest_circuit_blocks [of default_gw_config ?g "''B''" 59 0] by simp
qed

text \<open>The state in which the one half-open probe has been handed out and nothing has been recorded since.\<close>

definition probe_pending :: "gw_config \<Rightarrow> string \<Rightarrow> gateway \<Rightarrow> bool" where
  "probe_pending cfg symbol g \<longleftrightarrow> circuit_open_until g symbol \<noteq> None \<and> dd False (half_open_probe_used g) symbol \<and>
     0 < circuit_half_open_test_max cfg"

lemma circuit_pending:
  assumes "probe_pending cfg symbol g" "is_circuit_open cfg now x g = (g', op)"
  shows "probe_pending cfg symbol g'" "x = symbol \<Longrightarrow> op \<and> g' = g"
  using assms by (auto simp: probe_pending_def is_circuit_open_def record_success_def dd_def split: option.splits if_splits)

lemma gw_acquire_pending:
  assumes "probe_pending cfg symbol g" "gw_acquire cfg now tok ip x em g = (g', r)"
  shows "probe_pending cfg symbol g'" "x = symbol \<Longrightarrow> r = Refused \<or> r = AcqFatal"
proof -
  obtain g1 op where c: "is_circuit_open cfg now x g = (g1, op)" by force
  note p = circuit_pending [OF assms(1) c]
  show "probe_pending cfg symbol g'"
    using assms(2) p(1) assms(1) by (auto simp: gw_acquire_def c Let_def release_all_def probe_pending_def split: if_splits)
  show "r = Refused \<or> r = AcqFatal" if "x = symbol"
  proof -
    have op using p(2) that by blast
    then show ?thesis using assms(2) by (auto simp: gw_acquire_def c split: if_splits)
  qed
qed

text \<open>Lemma: once the probe of a half-open circuit has been handed out, no acquisition for the symbol succeeds
  however much time passes, over any history of acquisitions and releases: a probe that times out on a
  semaphore, or whose post fails otherwise than with a 429, records nothing, and the symbol stays blocked.\<close>

theorem rest_probe_stuck:
  assumes "probe_pending cfg symbol (gr_gate r)" "\<not> critical_bypass (gr_gate r)"
  shows "snd (gw_acquire cfg now tok ip symbol em (gr_gate (fold (gw_step cfg) es r))) \<in> {Refused, AcqFatal}"
proof -
  have step: "probe_pending cfg symbol (gr_gate (gw_step cfg e r))" if "probe_pending cfg symbol (gr_gate r)" for e r
  proof (cases e)
    case (Acquire now tok ip x em)
    obtain g a where g: "gw_acquire cfg now tok ip x em (gr_gate r) = (g, a)" by force
    show ?thesis using gw_acquire_pending(1) [OF that g] by (simp add: Acquire g)
  next
    case (Release ip x em)
    then show ?thesis using that
      by (auto simp: probe_pending_def gw_release_def Let_def add_pool_def split: option.splits)
  qed
  have "probe_pending cfg symbol (gr_gate (fold (gw_step cfg) es r))"
    using assms(1) by (induction es arbitrary: r) (simp_all add: step)
  then show ?thesis using gw_acquire_pending(2) by (metis insertCI prod.collapse)
qed

definition demo_probe :: gw_run where
  "demo_probe = (start_run default_gw_config)\<lparr>gr_gate := fst (is_circuit_open default_gw_config 100 ''B''
     ((init_gateway default_gw_config)\<lparr>circuit_open_until := [''B'' \<mapsto> 60]\<rparr>))\<rparr>"

theorem rest_probe_stuck_witness:
  "snd (gw_acquire default_gw_config 1000000 True ''default'' ''B'' True (gr_gate demo_probe)) \<in> {Refused, AcqFatal}"
proof -
  have "probe_pending default_gw_config ''B'' (gr_gate demo_probe)" "\<not> critical_bypass (gr_gate demo_probe)"
    by (simp_all add: demo_probe_def probe_pending_def is_circuit_open_def init_gateway_def default_gw_config_def dd_def)
  from rest_probe_stuck [OF this, of 1000000 True "''default''" True "[]"] show ?thesis by simp
qed

section \<open>The queue in front\<close>

lemma post_pacer:
  assumes "post_market_order cfg env pl prio g = (g', r)"
  shows "pacer g' = fst (enqueue (gw_pacer cfg) (pe_wall env) prio pl (pacer g))"
proof -
  have c: "pacer (fst (is_circuit_open cfg now s g)) = pacer g" for now s g
    by (auto simp: is_circuit_open_def record_success_def split: option.splits)
  have ac: "pacer (fst (gw_acquire cfg now tok ip s em g)) = pacer g" for now tok ip s em g
    using c [of now s g]
    by (auto simp: gw_acquire_def Let_def release_all_def add_pool_def add_ip_def add_symbol_def split: prod.splits)
  have rs: "pacer (record_success s g) = pacer g" "pacer (record_429 k t s g) = pacer g"
    "pacer (gw_release ip s em g) = pacer g" for s g t ip em k
    by (simp_all add: record_success_def record_429_def gw_release_def Let_def add_pool_def split: option.splits)
  have da: "pacer (fst (direct_attempts cfg s ro as g)) = pacer g" for s ro as g
    by (induction cfg s ro as g rule: direct_attempts.induct) (simp_all add: rs split: exchange_outcome.splits)
  obtain pc enq where e: "enqueue (gw_pacer cfg) (pe_wall env) prio pl (pacer g) = (pc, enq)" by force
  define sy where "sy = (case pl_symbol pl of Some s \<Rightarrow> s | None \<Rightarrow> [])"
  obtain g1 a where q: "gw_acquire cfg (pe_now env) (pe_tok env) ''default'' sy (prio = 0) (g\<lparr>pacer := pc\<rparr>) = (g1, a)" by force
  have g1: "pacer g1 = pc" using ac [of "pe_now env" "pe_tok env" "''default''" sy "prio = 0" "g\<lparr>pacer := pc\<rparr>"] by (simp add: q)
  have d: "pacer (fst (direct_market_post cfg sy True (pe_try1 env) (pe_try2 env) (g\<lparr>pacer := pc\<rparr>))) = pc"
    using da [of sy True "[pe_try1 env, pe_try2 env]" "g\<lparr>pacer := pc\<rparr>"] by (simp add: direct_market_post_def)
  have "post_market_order cfg env pl prio g =
     (case enq of EnqAssertion \<Rightarrow> (g\<lparr>pacer := pc\<rparr>, PostRaised)
      | EnqFull \<Rightarrow> direct_market_post cfg sy True (pe_try1 env) (pe_try2 env) (g\<lparr>pacer := pc\<rparr>)
      | EnqOk \<Rightarrow> (case a of
                   AcqFatal \<Rightarrow> (g1, PostRaised) | TimedOut \<Rightarrow> (g1, PostNone) | Refused \<Rightarrow> (g1, PostNone)
                 | Acquired \<Rightarrow>
                     (case pe_outcome env of
                        ExOk \<Rightarrow> (gw_release ''default'' sy (prio = 0) (record_success sy g1),
                                Posted sy (case pl_reduce_only pl of Some b \<Rightarrow> b | None \<Rightarrow> True))
                      | Ex429 \<Rightarrow> (gw_release ''default'' sy (prio = 0) (record_429 cfg (pe_done env) sy g1), PostNone)
                      | ExError \<Rightarrow> (gw_release ''default'' sy (prio = 0) g1, PostRaised))))"
    by (cases enq) (simp_all add: post_market_order_def e q sy_def [symmetric] Let_def)
  moreover have "pacer (g\<lparr>pacer := pc\<rparr>) = pc" by simp
  ultimately have "pacer (fst (post_market_order cfg env pl prio g)) = pc"
    using d g1 by (cases enq; cases a; cases "pe_outcome env") (simp_all add: rs)
  then show ?thesis using assms by (simp add: e)
qed

text \<open>Lemma: posting orders never takes anything out of the pacer, so once it holds as many items as its
  critical limit, every further critical order goes through the emergency path: its symbol's circuit and
  all semaphores are ignored, whatever the state of the gateway.\<close>

theorem rest_queue_fills:
  assumes "critical_maxsize (gw_pacer cfg) \<le> int (qsize (pacer g))"
  shows "let g' = fold (\<lambda>(env, pl, prio) g. fst (post_market_order cfg env pl prio g)) posts g;
             symbol = (case pl_symbol pl of Some s \<Rightarrow> s | None \<Rightarrow> [])
         in qsize (pacer g) \<le> qsize (pacer g') \<and>
            post_market_order cfg env pl 0 g' = direct_market_post cfg symbol True (pe_try1 env) (pe_try2 env) g'"
proof -
  have en: "qsize p \<le> qsize (fst (enqueue c w prio x p))" for c w prio x and p :: "order_payload pacer_state"
    using hq.push_elems by (auto simp: enqueue_def qsize_def heappush_def)
  have "qsize (pacer g) \<le> qsize (pacer (fold (\<lambda>(env, pl, prio) g. fst (post_market_order cfg env pl prio g)) posts g))"
  proof (induction posts arbitrary: g)
    case (Cons p posts)
    obtain env pl prio where p: "p = (env, pl, prio)" by (metis prod_cases3)
    have "qsize (pacer g) \<le> qsize (pacer (fst (post_market_order cfg env pl prio g)))"
      using post_pacer [of cfg env pl prio g] en by (metis prod.collapse)
    also have "\<dots> \<le> qsize (pacer (fold (\<lambda>(env, pl, prio) g. fst (post_market_order cfg env pl prio g)) posts
        (fst (post_market_order cfg env pl prio g))))" by (rule Cons.IH)
    finally show ?case by (simp add: p)
  qed simp
  then show ?thesis using assms
    by (simp add: post_market_order_def Let_def enqueue_def qsize_def)
qed

definition full_gateway :: gateway where
  "full_gateway = (init_gateway default_gw_config)\<lparr>circuit_open_until := [''B'' \<mapsto> 60],
     pacer := init_pacer\<lparr>heap := replicate 200 \<lparr>base_prio = 0, item_seq = 0, enqueue_ts = 0, payload = \<lparr>pl_symbol = None, pl_reduce_only = None\<rparr>\<rparr>\<rparr>\<rparr>"

definition demo_env :: post_env where
  "demo_env = \<lparr>pe_wall = 0, pe_now = 1, pe_tok = True, pe_outcome = ExOk, pe_done = 1, pe_try1 = (True, ExOk, 1), pe_try2 = (True, ExOk, 2)\<rparr>"

theorem rest_queue_fills_witness:
  "snd (post_market_order default_gw_config demo_env \<lparr>pl_symbol = Some ''B'', pl_reduce_only = Some False\<rparr> 0 full_gateway) = Posted ''B'' True \<and>
   snd (is_circuit_open default_gw_config 1 ''B'' full_gateway)"
proof -
  have "critical_maxsize (gw_pacer default_gw_config) \<le> int (qsize (pacer full_gateway))"
    by (simp add: default_gw_config_def default_pacer_config_def full_gateway_def qsize_def)
  from rest_queue_fills [OF this, of "[]" "\<lparr>pl_symbol = Some ''B'', pl_reduce_only = Some False\<rparr>" demo_env]
  have "post_market_order default_gw_config demo_env \<lparr>pl_symbol = Some ''B'', pl_reduce_only = Some False\<rparr> 0 full_gateway =
    direct_market_post default_gw_config ''B'' True (pe_try1 demo_env) (pe_try2 demo_env) full_gateway" by (simp add: Let_def)
  then show ?thesis
    by (simp add: direct_market_post_def demo_env_def full_gateway_def is_circuit_open_def)
qed

end
