(* ===== verification/Micro_Trigger.thy ===== *)
theory Micro_Trigger
  imports Float64
begin

text \<open>
  \<^verbatim>\<open>src/features/micro_trigger.py\<close>: the per-symbol entry trigger, a ladder of states with a hard deadline on
  invalid time and a quarantine. Clock readings are arguments. Every call of the event callback is
  logged with whether it returned; \<open>emit_faults\<close> says which calls raise (exhausted: none does), and an
  operation that raised returns \<open>None\<close>. The per-symbol lock makes \<^verbatim>\<open>evaluate\<close> one step.
\<close>

section \<open>State\<close>

datatype trigger_state = IDLE | SWEEP | MSS | FVG_OTE | MICRO_CONFIRM | TRIGGER

fun state_rank :: "trigger_state \<Rightarrow> nat" where
  "state_rank IDLE = 0"
| "state_rank SWEEP = 1"
| "state_rank MSS = 2"
| "state_rank FVG_OTE = 3"
| "state_rank MICRO_CONFIRM = 4"
| "state_rank TRIGGER = 5"

record trigger_config =
  hard_deadline_ms :: int
  next_candle_buffer_ms :: int
  timer_sleep_ms :: int
  quarantine_ms :: int

definition default_trigger_config :: trigger_config where
  "default_trigger_config = \<lparr>hard_deadline_ms = 600000, next_candle_buffer_ms = 5000, timer_sleep_ms = 5000, quarantine_ms = 60000\<rparr>"

record symbol_trigger =
  tr_state :: trigger_state
  sweep_started_ms :: int
  mss_confirmed_ms :: int
  fvg_detected_ms :: int
  breach_start_ms :: int
  paused_ms :: rat
  pause_start_ms :: int
  next_candle_target_ms :: int
  last_exchange_ts_ms :: int
  last_mono_ms :: int
  was_paused :: bool
  quarantine_until_ms :: int

definition new_trigger :: symbol_trigger where
  "new_trigger = \<lparr>tr_state = IDLE, sweep_started_ms = 0, mss_confirmed_ms = 0, fvg_detected_ms = 0, breach_start_ms = 0,
     paused_ms = 0, pause_start_ms = 0, next_candle_target_ms = 0, last_exchange_ts_ms = 0, last_mono_ms = 0,
     was_paused = False, quarantine_until_ms = 0\<rparr>"

text \<open>The events handed to the callback: a state reached, the expiry, the quarantine.\<close>

datatype trigger_event =
    Reached trigger_state
  | FvgExpiredHardDeadline int
  | Quarantined string int

record micro_trigger =
  mt_states :: "string \<rightharpoonup> symbol_trigger"
  fresh_tick :: "string \<rightharpoonup> bool"
  mt_log :: "(string \<times> trigger_event \<times> bool) list"
  emit_faults :: "bool list"

definition init_trigger :: "bool list \<Rightarrow> micro_trigger" where
  "init_trigger faults = \<lparr>mt_states = Map.empty, fresh_tick = Map.empty, mt_log = [], emit_faults = faults\<rparr>"

definition state_of :: "string \<Rightarrow> micro_trigger \<Rightarrow> symbol_trigger" where
  "state_of symbol m = (case mt_states m symbol of Some st \<Rightarrow> st | None \<Rightarrow> new_trigger)"

definition put_state :: "string \<Rightarrow> symbol_trigger \<Rightarrow> micro_trigger \<Rightarrow> micro_trigger" where
  "put_state symbol st m = m\<lparr>mt_states := (mt_states m)(symbol \<mapsto> st)\<rparr>"

section \<open>Operations\<close>

definition emit :: "string \<Rightarrow> trigger_event \<Rightarrow> micro_trigger \<Rightarrow> micro_trigger \<times> bool" where
  "emit symbol ev m =
     (let ok = (case emit_faults m of [] \<Rightarrow> True | f # _ \<Rightarrow> \<not> f)
      in (m\<lparr>mt_log := mt_log m @ [(symbol, ev, ok)], emit_faults := tl (emit_faults m)\<rparr>, ok))"

text \<open>\<^verbatim>\<open>_transition\<close>: the state is assigned before the callback runs.\<close>

definition transition :: "string \<Rightarrow> trigger_state \<Rightarrow> micro_trigger \<Rightarrow> micro_trigger \<times> bool option" where
  "transition symbol new_state m =
     (let st = state_of symbol m
      in if state_rank (tr_state st) < state_rank new_state then
           (let (m', ok) = emit symbol (Reached new_state) (put_state symbol (st\<lparr>tr_state := new_state\<rparr>) m)
            in (m', if ok then Some True else None))
         else (m, Some False))"

definition reset_to_idle :: "string \<Rightarrow> micro_trigger \<Rightarrow> micro_trigger" where
  "reset_to_idle symbol m =
     (let st = state_of symbol m;
          m1 = put_state symbol (st\<lparr>tr_state := IDLE, sweep_started_ms := 0, mss_confirmed_ms := 0, fvg_detected_ms := 0,
                 breach_start_ms := 0, pause_start_ms := 0, paused_ms := 0, next_candle_target_ms := 0, was_paused := False\<rparr>) m
      in case fresh_tick m1 symbol of
           None \<Rightarrow> m1
         | Some _ \<Rightarrow> m1\<lparr>fresh_tick := (fresh_tick m1)(symbol \<mapsto> True)\<rparr>)"

definition get_state :: "string \<Rightarrow> micro_trigger \<Rightarrow> trigger_state" where
  "get_state symbol m = tr_state (state_of symbol m)"

definition is_quarantined :: "int \<Rightarrow> string \<Rightarrow> micro_trigger \<Rightarrow> bool" where
  "is_quarantined now_mono symbol m \<longleftrightarrow> now_mono < quarantine_until_ms (state_of symbol m)"

definition quarantine :: "trigger_config \<Rightarrow> int \<Rightarrow> string \<Rightarrow> string \<Rightarrow> micro_trigger \<Rightarrow> micro_trigger \<times> bool" where
  "quarantine cfg now_mono symbol reason m =
     (let until = now_mono + quarantine_ms cfg;
          st = state_of symbol m
      in emit symbol (Quarantined reason until) (put_state symbol (st\<lparr>quarantine_until_ms := until, tr_state := IDLE\<rparr>) m))"

definition signal_fresh_tick :: "string \<Rightarrow> micro_trigger \<Rightarrow> micro_trigger" where
  "signal_fresh_tick symbol m = m\<lparr>fresh_tick := (fresh_tick m)(symbol \<mapsto> True)\<rparr>"

text \<open>The inputs of one evaluation.\<close>

record tick =
  tk_valid :: bool
  tk_sweep :: bool
  tk_mss :: bool
  tk_fvg :: bool
  tk_micro :: bool
  tk_exchange_ts_ms :: int

definition flush_pause :: "int \<Rightarrow> symbol_trigger \<Rightarrow> symbol_trigger" where
  "flush_pause now_mono st =
     (if pause_start_ms st \<noteq> 0
      then st\<lparr>paused_ms := fadd (paused_ms st) (of_int (now_mono - pause_start_ms st)), pause_start_ms := 0\<rparr>
      else st)"

text \<open>The anchors, in the order of the source: \<^verbatim>\<open>last_mono_ms\<close> is overwritten before the difference to it is
  taken.\<close>

definition time_anchors :: "trigger_config \<Rightarrow> int \<Rightarrow> int \<Rightarrow> symbol_trigger \<Rightarrow> symbol_trigger" where
  "time_anchors cfg now_mono exchange_ts_ms st =
     (if exchange_ts_ms \<noteq> 0 then
        (let st1 = st\<lparr>last_exchange_ts_ms := exchange_ts_ms, last_mono_ms := now_mono\<rparr>
         in st1\<lparr>next_candle_target_ms := exchange_ts_ms + max 0 (now_mono - last_mono_ms st1) + next_candle_buffer_ms cfg\<rparr>)
      else st)"

definition progress :: "int \<Rightarrow> tick \<Rightarrow> string \<Rightarrow> micro_trigger \<Rightarrow> micro_trigger \<times> bool option" where
  "progress now_wall tk symbol m =
     (let st = state_of symbol m
      in if tr_state st = IDLE \<and> tk_sweep tk then transition symbol SWEEP (put_state symbol (st\<lparr>sweep_started_ms := now_wall\<rparr>) m)
         else if tr_state st = SWEEP \<and> tk_mss tk then transition symbol MSS (put_state symbol (st\<lparr>mss_confirmed_ms := now_wall\<rparr>) m)
         else if tr_state st = MSS \<and> tk_fvg tk then transition symbol FVG_OTE (put_state symbol (st\<lparr>fvg_detected_ms := now_wall\<rparr>) m)
         else if tr_state st = FVG_OTE \<and> tk_micro tk then transition symbol MICRO_CONFIRM m
         else if tr_state st = MICRO_CONFIRM \<and> tk_micro tk then transition symbol TRIGGER m
         else (m, Some False))"

definition evaluate :: "trigger_config \<Rightarrow> int \<Rightarrow> int \<Rightarrow> string \<Rightarrow> tick \<Rightarrow> micro_trigger \<Rightarrow> micro_trigger \<times> trigger_state option" where
  "evaluate cfg now_mono now_wall symbol tk m =
     (let st = state_of symbol m
      in if now_mono < quarantine_until_ms st then (m, Some (tr_state st))
         else if of_int (hard_deadline_ms cfg) \<le> paused_ms st \<and> tr_state st \<noteq> IDLE then
           (let (m1, ok) = emit symbol (FvgExpiredHardDeadline \<lfloor>paused_ms st\<rfloor>) m
            in if ok then (reset_to_idle symbol m1, Some IDLE) else (m1, None))
         else if \<not> tk_valid tk then
           (let st1 = (if pause_start_ms st = 0 then st\<lparr>pause_start_ms := now_mono\<rparr>
                       else st\<lparr>paused_ms := fadd (paused_ms st) (of_int (now_mono - pause_start_ms st)), pause_start_ms := now_mono\<rparr>);
                st2 = st1\<lparr>was_paused := True\<rparr>
            in (put_state symbol st2 m, Some (tr_state st2)))
         else
           (let st1 = time_anchors cfg now_mono (tk_exchange_ts_ms tk) (flush_pause now_mono st);
                (m1, r) = progress now_wall tk symbol (put_state symbol st1 m)
            in (m1, map_option (\<lambda>_. tr_state (state_of symbol m1)) r)))"

text \<open>\<^verbatim>\<open>cancellable_sleep\<close> clears the tick event and then waits; only the clearing is a state change.\<close>

definition cancellable_sleep :: "string \<Rightarrow> micro_trigger \<Rightarrow> micro_trigger" where
  "cancellable_sleep symbol m = m\<lparr>fresh_tick := (fresh_tick m)(symbol \<mapsto> False)\<rparr>"

section \<open>The loop\<close>

datatype provided = ProviderError | NoTick | Tick tick

text \<open>One visit of the loop to a symbol: the clocks read by the quarantine check, the evaluation and, after an error,
  the quarantine. The flag is \<open>False\<close> when the visit raises out of the loop.\<close>

definition loop_visit :: "trigger_config \<Rightarrow> int \<Rightarrow> provided \<Rightarrow> int \<Rightarrow> int \<Rightarrow> int \<Rightarrow> string \<Rightarrow> micro_trigger \<Rightarrow> micro_trigger \<times> bool" where
  "loop_visit cfg now_check pv now_mono now_wall now_err symbol m =
     (if is_quarantined now_check symbol m then (m, True)
      else case pv of
             ProviderError \<Rightarrow> (m, True)
           | NoTick \<Rightarrow> (cancellable_sleep symbol m, True)
           | Tick tk \<Rightarrow>
               (case evaluate cfg now_mono now_wall symbol tk m of
                  (m1, Some s) \<Rightarrow> (cancellable_sleep symbol m1, True)
                | (m1, None) \<Rightarrow>
                    (let (m2, ok) = quarantine cfg now_err symbol ''evaluate_error'' m1
                     in if ok then (cancellable_sleep symbol m2, True) else (m2, False))))"

record visit =
  v_shutdown :: bool
  v_check :: int
  v_provided :: provided
  v_mono :: int
  v_wall :: int
  v_err :: int
  v_symbol :: string

text \<open>\<^verbatim>\<open>run_loop\<close> over the visits it makes, the shutdown event being read before each; the flag is \<open>False\<close> when an
  exception ended it.\<close>

fun run_loop :: "trigger_config \<Rightarrow> visit list \<Rightarrow> micro_trigger \<Rightarrow> micro_trigger \<times> bool" where
  "run_loop cfg [] m = (m, True)"
| "run_loop cfg (v # vs) m =
     (if v_shutdown v then (m, True)
      else case loop_visit cfg (v_check v) (v_provided v) (v_mono v) (v_wall v) (v_err v) (v_symbol v) m of
             (m', True) \<Rightarrow> run_loop cfg vs m'
           | (m', False) \<Rightarrow> (m', False))"

section \<open>The ladder\<close>

definition ladder :: "trigger_state list" where
  "ladder = [SWEEP, MSS, FVG_OTE, MICRO_CONFIRM, TRIGGER]"

text \<open>The states announced for a symbol since it last went back to idle: a quarantine, or an expiry whose callback
  returned.\<close>

fun since_idle :: "string \<Rightarrow> (string \<times> trigger_event \<times> bool) list \<Rightarrow> trigger_state list \<Rightarrow> trigger_state list" where
  "since_idle symbol [] acc = acc"
| "since_idle symbol ((s, ev, ok) # evs) acc =
     since_idle symbol evs
       (if s \<noteq> symbol then acc
        else case ev of Reached q \<Rightarrow> acc @ [q]
             | FvgExpiredHardDeadline p \<Rightarrow> if ok then [] else acc
             | Quarantined r u \<Rightarrow> [])"

lemma since_idle_append: "since_idle symbol (l1 @ l2) acc = since_idle symbol l2 (since_idle symbol l1 acc)"
  by (induction symbol l1 acc rule: since_idle.induct) auto

text \<open>\<open>r\<close> tells for each symbol how long the log was when somebody last reset it directly, which leaves no event.\<close>

definition on_ladder :: "(string \<Rightarrow> nat) \<Rightarrow> micro_trigger \<Rightarrow> bool" where
  "on_ladder r m \<longleftrightarrow> (\<forall>symbol. r symbol \<le> length (mt_log m)
     \<and> since_idle symbol (drop (r symbol) (mt_log m)) [] = take (state_rank (get_state symbol m)) ladder)"

text \<open>What can happen to a trigger: a visit of the loop, and the calls other components make. The shadow runner, which drives the
  trigger itself, calls \<^verbatim>\<open>_reset_to_idle\<close> after every trigger it has dealt with.\<close>

inductive mt_reach :: "trigger_config \<Rightarrow> micro_trigger \<Rightarrow> (string \<Rightarrow> nat) \<Rightarrow> bool" for cfg where
  start: "mt_reach cfg (init_trigger faults) (\<lambda>_. 0)"
| visit: "mt_reach cfg m r \<Longrightarrow> loop_visit cfg tc pv tm tw te symbol m = (m', b) \<Longrightarrow> mt_reach cfg m' r"
| eval: "mt_reach cfg m r \<Longrightarrow> evaluate cfg tm tw symbol tk m = (m', res) \<Longrightarrow> mt_reach cfg m' r"
| quar: "mt_reach cfg m r \<Longrightarrow> quarantine cfg tm symbol reason m = (m', b) \<Longrightarrow> mt_reach cfg m' r"
| fresh: "mt_reach cfg m r \<Longrightarrow> mt_reach cfg (signal_fresh_tick symbol m) r"
| sleep: "mt_reach cfg m r \<Longrightarrow> mt_reach cfg (cancellable_sleep symbol m) r"
| reset: "mt_reach cfg m r \<Longrightarrow> mt_reach cfg (reset_to_idle symbol m) (r(symbol := length (mt_log m)))"

lemma state_of_put [simp]: "state_of x (put_state y st m) = (if x = y then st else state_of x m)"
  by (simp add: state_of_def put_state_def)

lemma put_state_fields [simp]:
  "mt_log (put_state y st m) = mt_log m" "emit_faults (put_state y st m) = emit_faults m" "fresh_tick (put_state y st m) = fresh_tick m"
  by (simp_all add: put_state_def)

lemma state_of_cong: "mt_states m = mt_states m' \<Longrightarrow> state_of x m = state_of x m'"
  by (simp add: state_of_def)

lemma state_of_event [simp]:
  "state_of x (m\<lparr>mt_log := l, emit_faults := f\<rparr>) = state_of x m" "state_of x (m\<lparr>fresh_tick := t\<rparr>) = state_of x m"
  by (rule state_of_cong, simp)+

lemma emit_simps [simp]:
  "state_of x (fst (emit s ev m)) = state_of x m"
  "mt_log (fst (emit s ev m)) = mt_log m @ [(s, ev, snd (emit s ev m))]"
  "fresh_tick (fst (emit s ev m)) = fresh_tick m"
  by (simp_all add: emit_def Let_def)

lemma on_ladder_state:
  assumes "on_ladder r m" and "mt_log m' = mt_log m" and "\<And>x. tr_state (state_of x m') = tr_state (state_of x m)"
  shows "on_ladder r m'"
  using assms by (simp add: on_ladder_def get_state_def)

lemma on_ladder_put: "on_ladder r m \<Longrightarrow> tr_state st = tr_state (state_of s m) \<Longrightarrow> on_ladder r (put_state s st m)"
  by (rule on_ladder_state) auto

lemma since_idle_snoc [simp]:
  "since_idle x (evs @ [(s, ev, ok)]) acc =
     (if s \<noteq> x then since_idle x evs acc
      else case ev of Reached q \<Rightarrow> since_idle x evs acc @ [q]
           | FvgExpiredHardDeadline p \<Rightarrow> if ok then [] else since_idle x evs acc
           | Quarantined r u \<Rightarrow> [])"
  by (simp add: since_idle_append)

lemma ladder_next: "state_rank q = Suc (state_rank p) \<Longrightarrow> take (state_rank q) ladder = take (state_rank p) ladder @ [q]"
  by (cases p; cases q) (simp_all add: ladder_def)

lemma on_ladder_transition:
  assumes "on_ladder r m" and "state_rank q = Suc (state_rank (tr_state (state_of s m)))"
  shows "on_ladder r (fst (transition s q m))"
  using assms ladder_next [OF assms(2)]
  by (auto simp: transition_def Let_def split_beta on_ladder_def get_state_def le_SucI)

lemma on_ladder_progress:
  assumes "on_ladder r m" shows "on_ladder r (fst (progress now_wall tk s m))"
  unfolding progress_def Let_def
  using assms by (auto intro!: on_ladder_transition on_ladder_put)

lemma state_of_reset:
  "state_of x (reset_to_idle s m) =
     (if x = s then (state_of s m)\<lparr>tr_state := IDLE, sweep_started_ms := 0, mss_confirmed_ms := 0, fvg_detected_ms := 0,
                 breach_start_ms := 0, pause_start_ms := 0, paused_ms := 0, next_candle_target_ms := 0, was_paused := False\<rparr>
      else state_of x m)"
  by (simp add: reset_to_idle_def Let_def split: option.split)

lemma log_reset [simp]: "mt_log (reset_to_idle s m) = mt_log m"
  by (simp add: reset_to_idle_def Let_def split: option.split)

lemma anchor_state [simp]: "tr_state (time_anchors cfg t e st) = tr_state st" "tr_state (flush_pause t st) = tr_state st"
  by (simp_all add: time_anchors_def flush_pause_def Let_def)

lemma on_ladder_evaluate:
  assumes l: "on_ladder r m" shows "on_ladder r (fst (evaluate cfg tm tw s tk m))"
proof -
  let ?st = "state_of s m"
  consider (q) "tm < quarantine_until_ms ?st"
    | (d) "\<not> tm < quarantine_until_ms ?st" "of_int (hard_deadline_ms cfg) \<le> paused_ms ?st \<and> tr_state ?st \<noteq> IDLE"
    | (i) "\<not> tm < quarantine_until_ms ?st" "\<not> (of_int (hard_deadline_ms cfg) \<le> paused_ms ?st \<and> tr_state ?st \<noteq> IDLE)" "\<not> tk_valid tk"
    | (v) "\<not> tm < quarantine_until_ms ?st" "\<not> (of_int (hard_deadline_ms cfg) \<le> paused_ms ?st \<and> tr_state ?st \<noteq> IDLE)" "tk_valid tk"
    by blast
  then show ?thesis
  proof cases
    case q
    then show ?thesis using l by (simp add: evaluate_def Let_def)
  next
    case d
    then show ?thesis using l
      by (auto simp: evaluate_def Let_def split_beta on_ladder_def get_state_def state_of_reset le_SucI)
  next
    case i
    then show ?thesis using l unfolding evaluate_def Let_def by (auto intro!: on_ladder_put)
  next
    case v
    then have "fst (evaluate cfg tm tw s tk m) =
        fst (progress tw tk s (put_state s (time_anchors cfg tm (tk_exchange_ts_ms tk) (flush_pause tm ?st)) m))"
      unfolding evaluate_def Let_def by (auto simp: split_beta)
    then show ?thesis using l by (simp add: on_ladder_progress on_ladder_put)
  qed
qed

lemma on_ladder_quarantine: "on_ladder r m \<Longrightarrow> on_ladder r (fst (quarantine cfg tm s reason m))"
  by (auto simp: quarantine_def Let_def on_ladder_def get_state_def le_SucI)

lemma on_ladder_sleep: "on_ladder r m \<Longrightarrow> on_ladder r (cancellable_sleep s m)"
  by (rule on_ladder_state) (auto simp: cancellable_sleep_def)

lemma on_ladder_fresh: "on_ladder r m \<Longrightarrow> on_ladder r (signal_fresh_tick s m)"
  by (rule on_ladder_state) (auto simp: signal_fresh_tick_def)

lemma on_ladder_visit:
  assumes "on_ladder r m" shows "on_ladder r (fst (loop_visit cfg tc pv tm tw te s m))"
  using assms on_ladder_evaluate [OF assms] on_ladder_quarantine
  by (auto simp: loop_visit_def split_beta Let_def intro!: on_ladder_sleep on_ladder_quarantine on_ladder_evaluate
      split: provided.split option.split prod.split)

lemma on_ladder_reset: "on_ladder r m \<Longrightarrow> on_ladder (r(s := length (mt_log m))) (reset_to_idle s m)"
  by (auto simp: on_ladder_def get_state_def state_of_reset)

lemma mt_reach_ladder: "mt_reach cfg m r \<Longrightarrow> on_ladder r m"
proof (induction rule: mt_reach.induct)
  case (start faults)
  show ?case by (simp add: on_ladder_def init_trigger_def get_state_def state_of_def new_trigger_def)
qed (metis fst_conv on_ladder_visit on_ladder_evaluate on_ladder_quarantine on_ladder_fresh on_ladder_sleep on_ladder_reset)+

lemma run_loop_reach: "mt_reach cfg m r \<Longrightarrow> mt_reach cfg (fst (run_loop cfg vs m)) r"
proof (induction vs arbitrary: m)
  case (Cons v vs)
  then show ?case
    by (cases "loop_visit cfg (v_check v) (v_provided v) (v_mono v) (v_wall v) (v_err v) (v_symbol v) m")
       (auto intro: mt_reach.visit split: bool.split)
qed simp


inductive_cases mt_reachE: "mt_reach cfg m r"

section \<open>Properties\<close>

text \<open>C28: whatever the loop and the other callers do, direct resets included, and whichever callbacks raise, the states announced for
  a symbol since it was last put back to idle (by a reset, an announced expiry or a quarantine) are exactly the rungs below and including its
  current one, in the order of the ladder: no rung is skipped, repeated or left by going down, and running the loop stays within what
  is reachable.\<close>

theorem mt_ladder:
  assumes "mt_reach cfg m r"
  shows "since_idle symbol (drop (r symbol) (mt_log m)) [] = take (state_rank (get_state symbol m)) [SWEEP, MSS, FVG_OTE, MICRO_CONFIRM, TRIGGER]
    \<and> since_idle symbol (drop (r symbol) (mt_log (fst (run_loop cfg vs m)))) [] =
       take (state_rank (get_state symbol (fst (run_loop cfg vs m)))) [SWEEP, MSS, FVG_OTE, MICRO_CONFIRM, TRIGGER]"
  using mt_reach_ladder [OF assms] mt_reach_ladder [OF run_loop_reach [OF assms]]
  by (simp_all add: on_ladder_def ladder_def)

definition all_true :: tick where
  "all_true = \<lparr>tk_valid = True, tk_sweep = True, tk_mss = True, tk_fvg = True, tk_micro = True, tk_exchange_ts_ms = 7\<rparr>"

definition true_visit :: "int \<Rightarrow> visit" where
  "true_visit t = \<lparr>v_shutdown = False, v_check = t, v_provided = Tick all_true, v_mono = t, v_wall = t, v_err = t, v_symbol = ''S''\<rparr>"

text \<open>Five visits up to the trigger, a direct reset, and one visit more.\<close>

definition after_trigger :: micro_trigger where
  "after_trigger = fst (run_loop default_trigger_config (map true_visit [1, 2, 3, 4, 5]) (init_trigger []))"

lemma mt_ladder_witness:
  "(let m = fst (run_loop default_trigger_config (map true_visit [6]) (reset_to_idle ''S'' after_trigger))
    in get_state ''S'' after_trigger = TRIGGER \<and> since_idle ''S'' (drop (length (mt_log after_trigger)) (mt_log m)) [] = [SWEEP])"
proof -
  have g: "get_state ''S'' (fst (run_loop default_trigger_config (map true_visit [6]) (reset_to_idle ''S'' after_trigger))) = SWEEP"
    "get_state ''S'' after_trigger = TRIGGER" by code_simp+
  have "mt_reach default_trigger_config after_trigger (\<lambda>_. 0)"
    unfolding after_trigger_def by (rule run_loop_reach [OF mt_reach.start])
  then have "mt_reach default_trigger_config (reset_to_idle ''S'' after_trigger) ((\<lambda>_. 0)(''S'' := length (mt_log after_trigger)))"
    by (rule mt_reach.reset)
  from mt_ladder [OF this, of "''S''" "map true_visit [6]"] show ?thesis using g by simp
qed

subsection \<open>The hard deadline\<close>

definition invalid_tick :: tick where
  "invalid_tick = \<lparr>tk_valid = False, tk_sweep = False, tk_mss = False, tk_fvg = False, tk_micro = False, tk_exchange_ts_ms = 0\<rparr>"

text \<open>Consecutive evaluations with an invalid input at the clock readings \<open>ts\<close>.\<close>

definition invalid_run :: "trigger_config \<Rightarrow> string \<Rightarrow> int list \<Rightarrow> micro_trigger \<Rightarrow> micro_trigger" where
  "invalid_run cfg symbol ts m = foldl (\<lambda>m t. fst (evaluate cfg t 0 symbol invalid_tick m)) m ts"

lemma invalid_step:
  assumes "quarantine_until_ms (state_of s m) \<le> t" and "paused_ms (state_of s m) < of_int (hard_deadline_ms cfg)" and "\<not> tk_valid tk"
  shows "evaluate cfg t tw s tk m =
    (let st = state_of s m;
         st1 = (if pause_start_ms st = 0 then st\<lparr>pause_start_ms := t, was_paused := True\<rparr>
                else st\<lparr>paused_ms := fadd (paused_ms st) (of_int (t - pause_start_ms st)), pause_start_ms := t, was_paused := True\<rparr>)
     in (put_state s st1 m, Some (tr_state st)))"
  using assms by (simp add: evaluate_def Let_def)

lemma fadd_int: "\<bar>a + b\<bar> < 2 ^ 53 \<Longrightarrow> fadd (of_int a) (of_int b) = of_int (a + b)"
  using rnd_of_int [of "a + b"] by (simp add: fadd_def)

lemma paused_run:
  assumes "quarantine_until_ms (state_of s m) \<le> a" "pause_start_ms (state_of s m) = a" "0 < a" "paused_ms (state_of s m) = of_int p"
    "0 \<le> p" "sorted (a # ts)" "p + (last (a # ts) - a) < 2 ^ 53" "ts \<noteq> [] \<Longrightarrow> p + (last (butlast (a # ts)) - a) < hard_deadline_ms cfg"
  shows "mt_log (invalid_run cfg s ts m) = mt_log m \<and> emit_faults (invalid_run cfg s ts m) = emit_faults m
    \<and> tr_state (state_of s (invalid_run cfg s ts m)) = tr_state (state_of s m)
    \<and> quarantine_until_ms (state_of s (invalid_run cfg s ts m)) = quarantine_until_ms (state_of s m)
    \<and> paused_ms (state_of s (invalid_run cfg s ts m)) = of_int (p + (last (a # ts) - a))"
  using assms
proof (induction ts arbitrary: m a p)
  case Nil
  then show ?case by (simp add: invalid_run_def)
next
  case (Cons t ts)
  let ?st = "state_of s m" and ?m1 = "fst (evaluate cfg t 0 s invalid_tick m)"
  have le: "a \<le> t" "t \<le> last (t # ts)" and srt: "sorted (t # ts)" using Cons.prems(6) by (auto simp: last_in_set)
  have "a \<le> last (butlast (a # t # ts))"
    using Cons.prems(6) by (auto dest!: in_set_butlastD last_in_set)
  then have pd: "p < hard_deadline_ms cfg" using Cons.prems(8) by simp
  have "p + (t - a) < 2 ^ 53" using Cons.prems(7) le by (simp split: if_splits)
  then have "fadd (of_int p) (of_int (t - a)) = of_int (p + (t - a))"
    using Cons.prems(5) le by (intro fadd_int) simp
  then have m1: "?m1 = put_state s (?st\<lparr>paused_ms := of_int (p + (t - a)), pause_start_ms := t, was_paused := True\<rparr>) m"
    using invalid_step [of s m t cfg invalid_tick 0] Cons.prems(1-4) le pd by (simp add: invalid_tick_def Let_def)
  have d: "p + (t - a) + (last (butlast (t # ts)) - t) < hard_deadline_ms cfg" if "ts \<noteq> []"
    using Cons.prems(8) that by simp
  have l: "p + (t - a) + (last (t # ts) - t) = p + (last (a # t # ts) - a)" by simp
  have ih: "mt_log (invalid_run cfg s ts ?m1) = mt_log ?m1 \<and> emit_faults (invalid_run cfg s ts ?m1) = emit_faults ?m1
    \<and> tr_state (state_of s (invalid_run cfg s ts ?m1)) = tr_state (state_of s ?m1)
    \<and> quarantine_until_ms (state_of s (invalid_run cfg s ts ?m1)) = quarantine_until_ms (state_of s ?m1)
    \<and> paused_ms (state_of s (invalid_run cfg s ts ?m1)) = of_int (p + (t - a) + (last (t # ts) - t))"
  proof (rule Cons.IH)
    show "ts \<noteq> [] \<Longrightarrow> p + (t - a) + (last (butlast (t # ts)) - t) < hard_deadline_ms cfg" by (rule d)
    show "p + (t - a) + (last (t # ts) - t) < 2 ^ 53" unfolding l by (rule Cons.prems(7))
  qed (use Cons.prems(1,3,5) le srt m1 in simp_all)
  have run: "invalid_run cfg s (t # ts) m = invalid_run cfg s ts ?m1" by (simp add: invalid_run_def)
  show ?case unfolding run using ih unfolding l m1 by simp
qed

text \<open>Lemma: a symbol above idle that keeps being evaluated with invalid inputs from the clock reading \<open>t0\<close> on accumulates exactly the
  time between the first and the last reading (added to what it had), without a state change or an event; as soon as that
  reaches the hard deadline the next evaluation, valid or not, announces the expiry with the accumulated time and puts the
  symbol back to idle with nothing accumulated, and until then an invalid one changes no state.\<close>

theorem mt_hard_deadline:
  fixes cfg s m ts t0 p
  defines "m1 \<equiv> invalid_run cfg s (t0 # ts) m" and "waited \<equiv> p + (last (t0 # ts) - t0)"
  assumes st: "get_state s m \<noteq> IDLE" "quarantine_until_ms (state_of s m) \<le> t0" "pause_start_ms (state_of s m) = 0" "paused_ms (state_of s m) = of_int p"
    and p: "0 \<le> p" "p < hard_deadline_ms cfg" and ts: "0 < t0" "sorted (t0 # ts)" "last (t0 # ts) \<le> t"
    and before: "ts \<noteq> [] \<Longrightarrow> p + (last (butlast (t0 # ts)) - t0) < hard_deadline_ms cfg" and b: "waited < 2 ^ 53" and ok: "emit_faults m = []"
  shows "mt_log m1 = mt_log m \<and> get_state s m1 = get_state s m \<and> paused_ms (state_of s m1) = of_int waited
     \<and> (hard_deadline_ms cfg \<le> waited \<longrightarrow>
          (let (m2, r) = evaluate cfg t tw s tk m1
           in r = Some IDLE \<and> get_state s m2 = IDLE \<and> paused_ms (state_of s m2) = 0
              \<and> mt_log m2 = mt_log m @ [(s, FvgExpiredHardDeadline waited, True)]))
     \<and> (waited < hard_deadline_ms cfg \<and> \<not> tk_valid tk \<longrightarrow>
          (let (m2, r) = evaluate cfg t tw s tk m1 in r = Some (get_state s m) \<and> mt_log m2 = mt_log m))"
proof -
  let ?m0 = "fst (evaluate cfg t0 0 s invalid_tick m)"
  have m0: "?m0 = put_state s ((state_of s m)\<lparr>pause_start_ms := t0, was_paused := True\<rparr>) m"
    using invalid_step [of s m t0 cfg invalid_tick 0] st p by (simp add: invalid_tick_def Let_def)
  have "t0 \<le> last (t0 # ts)" using ts(2) by (auto dest: last_in_set)
  then have q: "quarantine_until_ms (state_of s m) \<le> t" using ts(3) st(2) by simp
  have "m1 = invalid_run cfg s ts ?m0" by (simp add: m1_def invalid_run_def)
  moreover have "mt_log (invalid_run cfg s ts ?m0) = mt_log ?m0 \<and> emit_faults (invalid_run cfg s ts ?m0) = emit_faults ?m0
    \<and> tr_state (state_of s (invalid_run cfg s ts ?m0)) = tr_state (state_of s ?m0)
    \<and> quarantine_until_ms (state_of s (invalid_run cfg s ts ?m0)) = quarantine_until_ms (state_of s ?m0)
    \<and> paused_ms (state_of s (invalid_run cfg s ts ?m0)) = of_int (p + (last (t0 # ts) - t0))"
    by (rule paused_run) (use st p ts before b m0 in \<open>simp_all add: waited_def\<close>)
  ultimately have run: "mt_log m1 = mt_log m" "emit_faults m1 = []" "tr_state (state_of s m1) = tr_state (state_of s m)"
    "quarantine_until_ms (state_of s m1) \<le> t" "paused_ms (state_of s m1) = of_int waited"
    using m0 ok q by (simp_all add: waited_def)
  have "let (m2, r) = evaluate cfg t tw s tk m1
     in r = Some IDLE \<and> get_state s m2 = IDLE \<and> paused_ms (state_of s m2) = 0
        \<and> mt_log m2 = mt_log m @ [(s, FvgExpiredHardDeadline waited, True)]" if "hard_deadline_ms cfg \<le> waited"
  proof -
    have e: "snd (emit s (FvgExpiredHardDeadline waited) m1)" using run(2) by (simp add: emit_def Let_def)
    have "evaluate cfg t tw s tk m1 = (reset_to_idle s (fst (emit s (FvgExpiredHardDeadline waited) m1)), Some IDLE)"
      using that run st(1) e by (simp add: evaluate_def Let_def split_beta get_state_def)
    then show ?thesis using run e by (simp add: get_state_def state_of_reset)
  qed
  moreover have "let (m2, r) = evaluate cfg t tw s tk m1 in r = Some (get_state s m) \<and> mt_log m2 = mt_log m"
    if "waited < hard_deadline_ms cfg" "\<not> tk_valid tk"
    using invalid_step [of s m1 t cfg tk tw] that run by (simp add: Let_def get_state_def)
  ultimately show ?thesis using run by (simp add: get_state_def)
qed

definition swept :: micro_trigger where
  "swept = put_state ''S'' (new_trigger\<lparr>tr_state := SWEEP, paused_ms := 10\<rparr>) (init_trigger [])"

lemma mt_hard_deadline_witness:
  "paused_ms (state_of ''S'' (invalid_run default_trigger_config ''S'' [100, 300000, 600095] swept)) = 600005
   \<and> mt_log (fst (evaluate default_trigger_config 600096 0 ''S'' all_true (invalid_run default_trigger_config ''S'' [100, 300000, 600095] swept)))
     = [(''S'', FvgExpiredHardDeadline 600005, True)]"
  using mt_hard_deadline [of "''S''" swept 100 10 default_trigger_config "[300000, 600095]" 600096 0 all_true]
  by (simp add: swept_def get_state_def new_trigger_def init_trigger_def default_trigger_config_def split_beta Let_def del: of_int_add)

subsection \<open>Quarantine\<close>

text \<open>Lemma: while a symbol is quarantined an evaluation changes nothing and returns idle; but a quarantine does not clear the
  accumulated invalid time, so a symbol quarantined with an exhausted deadline is expired again by the evaluation that
  follows its first sweep.\<close>

theorem mt_quarantine_keeps_pause:
  fixes cfg now s reason m
  defines "q \<equiv> fst (quarantine cfg now s reason m)"
  assumes full: "of_int (hard_deadline_ms cfg) \<le> paused_ms (state_of s m)" and old: "pause_start_ms (state_of s m) = 0"
    and t1: "now + quarantine_ms cfg \<le> t1" and t2: "t1 \<le> t2" and ok: "tl (emit_faults m) = []"
    and v: "tk_valid sw" "tk_sweep sw"
  shows "(t < now + quarantine_ms cfg \<longrightarrow> evaluate cfg t tw s tk q = (q, Some IDLE))
     \<and> snd (evaluate cfg t1 tw s sw q) = Some SWEEP
     \<and> snd (evaluate cfg t2 tw s tk (fst (evaluate cfg t1 tw s sw q))) = Some IDLE"
proof -
  let ?st = "(state_of s m)\<lparr>quarantine_until_ms := now + quarantine_ms cfg, tr_state := IDLE\<rparr>"
  have st: "state_of s q = ?st" and f: "emit_faults q = []"
    using ok by (auto simp: q_def quarantine_def Let_def emit_def)
  define a where "a = time_anchors cfg t1 (tk_exchange_ts_ms sw) ?st"
  have a: "tr_state a = IDLE" "paused_ms a = paused_ms (state_of s m)" "quarantine_until_ms a \<le> t1"
    using t1 by (auto simp: a_def time_anchors_def Let_def)
  define m1 where "m1 = fst (transition s SWEEP (put_state s (a\<lparr>sweep_started_ms := tw\<rparr>) (put_state s a q)))"
  have tr: "transition s SWEEP (put_state s (a\<lparr>sweep_started_ms := tw\<rparr>) (put_state s a q)) = (m1, Some True)"
    using a f by (auto simp: m1_def transition_def Let_def split_beta emit_def)
  have s1: "state_of s m1 = a\<lparr>sweep_started_ms := tw, tr_state := SWEEP\<rparr>" and f1: "emit_faults m1 = []"
    using a f by (auto simp: m1_def transition_def Let_def split_beta emit_def)
  have pr: "progress tw sw s (put_state s a q) = (m1, Some True)"
    using a v tr by (simp add: progress_def Let_def)
  have e1: "evaluate cfg t1 tw s sw q = (m1, Some SWEEP)"
    using st old t1 v pr s1 by (simp add: evaluate_def Let_def flush_pause_def a_def)
  have "snd (emit s (FvgExpiredHardDeadline p) m1)" for p using f1 by (simp add: emit_def Let_def)
  then have "snd (evaluate cfg t2 tw s tk m1) = Some IDLE"
    using s1 a full t2 by (simp add: evaluate_def Let_def split_beta)
  moreover have "evaluate cfg t tw s tk q = (q, Some IDLE)" if "t < now + quarantine_ms cfg"
    using that st by (simp add: evaluate_def Let_def)
  ultimately show ?thesis using e1 by simp
qed

lemma mt_quarantine_keeps_pause_witness:
  "snd (evaluate default_trigger_config 60001 0 ''S'' all_true
     (fst (quarantine default_trigger_config 1 ''S'' ''r'' (put_state ''S'' (new_trigger\<lparr>paused_ms := 600000\<rparr>) (init_trigger []))))) = Some SWEEP
   \<and> snd (evaluate default_trigger_config 60002 0 ''S'' invalid_tick (fst (evaluate default_trigger_config 60001 0 ''S'' all_true
     (fst (quarantine default_trigger_config 1 ''S'' ''r'' (put_state ''S'' (new_trigger\<lparr>paused_ms := 600000\<rparr>) (init_trigger []))))))) = Some IDLE"
  using mt_quarantine_keeps_pause [of default_trigger_config "''S''" "put_state ''S'' (new_trigger\<lparr>paused_ms := 600000\<rparr>) (init_trigger [])"
      1 60001 60002 all_true 0 0 invalid_tick "''r''"]
  by (simp add: default_trigger_config_def new_trigger_def init_trigger_def all_true_def)

end
