(* ===== verification/Replay_Transport.thy ===== *)
theory Replay_Transport
  imports Prelude "HOL-Library.Multiset" "HOL-Library.Product_Lexorder" "HOL-Library.List_Lexorder" "HOL-Library.Char_ord"
begin

text \<open>
  \<^verbatim>\<open>src/backtest/replay_transport.py\<close>: three tables read back as one chronological stream. A table is the list of
  its rows; a query is a filter followed by the sort of its \<^verbatim>\<open>ORDER BY\<close>. A column that may be NULL is an option, and a
  JSON column is what \<^verbatim>\<open>json.loads\<close> makes of it. \<^verbatim>\<open>heapq.merge\<close> is written out as the selection it
  performs, the earliest of several equal heads first.
\<close>

section \<open>Events\<close>

record ohlcv_event =
  o_sec :: int
  o_ts_ms :: int
  o_open :: rat
  o_high :: rat
  o_low :: rat
  o_close :: rat
  o_buy_vol :: rat
  o_sell_vol :: rat
  o_trade_count :: int
  o_symbol :: string
  o_source_seq :: int

type_synonym levels = "(rat \<times> rat) list"

record depth_event =
  d_ts_ms :: int
  d_version :: int
  d_bids :: levels
  d_asks :: levels
  d_depth :: int
  d_symbol :: string
  d_source_seq :: int

record ticker_event =
  t_ts_ms :: int
  t_last_price :: rat
  t_fair_price :: rat
  t_index_price :: rat
  t_hold_vol :: rat
  t_oi_usdt :: rat
  t_funding_rate :: rat
  t_next_settle_ms :: int
  t_symbol :: string
  t_source_seq :: int

datatype any_event = Ohlcv ohlcv_event | Depth depth_event | Ticker ticker_event

fun event_rank :: "any_event \<Rightarrow> int" where
  "event_rank (Ohlcv e) = 0"
| "event_rank (Depth e) = 1"
| "event_rank (Ticker e) = 2"

fun ev_ts :: "any_event \<Rightarrow> int" where
  "ev_ts (Ohlcv e) = o_ts_ms e"
| "ev_ts (Depth e) = d_ts_ms e"
| "ev_ts (Ticker e) = t_ts_ms e"

fun ev_symbol :: "any_event \<Rightarrow> string" where
  "ev_symbol (Ohlcv e) = o_symbol e"
| "ev_symbol (Depth e) = d_symbol e"
| "ev_symbol (Ticker e) = t_symbol e"

fun ev_seq :: "any_event \<Rightarrow> int" where
  "ev_seq (Ohlcv e) = o_source_seq e"
| "ev_seq (Depth e) = d_source_seq e"
| "ev_seq (Ticker e) = t_source_seq e"

definition merge_key :: "any_event \<Rightarrow> int \<times> int \<times> string \<times> int" where
  "merge_key ev = (ev_ts ev, event_rank ev, ev_symbol ev, ev_seq ev)"

section \<open>Tables\<close>

record ohlcv_row =
  or_symbol :: string
  or_sec :: int
  or_open :: "rat option"
  or_high :: "rat option"
  or_low :: "rat option"
  or_close :: "rat option"
  or_buy_vol :: "rat option"
  or_sell_vol :: "rat option"
  or_trade_count :: "int option"

datatype json_text = EmptyText | Malformed | Levels levels

record depth_row =
  dr_id :: int
  dr_symbol :: string
  dr_timestamp_ms :: int
  dr_version :: "int option"
  dr_bids_json :: json_text
  dr_asks_json :: json_text
  dr_depth :: "int option"

record ticker_row =
  tr_id :: int
  tr_symbol :: string
  tr_ts_ms :: int
  tr_last_price :: "rat option"
  tr_fair_price :: "rat option"
  tr_index_price :: "rat option"
  tr_hold_vol :: "rat option"
  tr_oi_usdt :: "rat option"
  tr_funding_rate :: "rat option"
  tr_next_settle_ms :: "int option"

record replay_db =
  trades_ohlcv_1s :: "ohlcv_row list"
  orderbook_snapshots :: "depth_row list"
  tickers_snapshot :: "ticker_row list"

text \<open>\<^verbatim>\<open>row[i] or 0\<close>\<close>

fun or_zero :: "'a::zero option \<Rightarrow> 'a" where
  "or_zero (Some x) = x"
| "or_zero None = 0"

section \<open>Generators\<close>

definition ohlcv_of_row :: "ohlcv_row \<Rightarrow> ohlcv_event" where
  "ohlcv_of_row r = \<lparr>o_sec = or_sec r, o_ts_ms = or_sec r * 1000, o_open = or_zero (or_open r), o_high = or_zero (or_high r),
     o_low = or_zero (or_low r), o_close = or_zero (or_close r), o_buy_vol = or_zero (or_buy_vol r),
     o_sell_vol = or_zero (or_sell_vol r), o_trade_count = or_zero (or_trade_count r), o_symbol = or_symbol r, o_source_seq = or_sec r\<rparr>"

definition ohlcv_gen :: "replay_db \<Rightarrow> string \<Rightarrow> int \<Rightarrow> int \<Rightarrow> any_event list" where
  "ohlcv_gen db symbol ts_from ts_to =
     map (Ohlcv \<circ> ohlcv_of_row)
       (sort_key or_sec (filter (\<lambda>r. or_symbol r = symbol \<and> ts_from \<le> or_sec r * 1000 \<and> or_sec r * 1000 \<le> ts_to) (trades_ohlcv_1s db)))"

text \<open>Either text being malformed empties both sides.\<close>

fun load_json :: "json_text \<Rightarrow> levels option" where
  "load_json EmptyText = Some []"
| "load_json Malformed = None"
| "load_json (Levels l) = Some l"

definition load_sides :: "depth_row \<Rightarrow> levels \<times> levels" where
  "load_sides r = (case (load_json (dr_bids_json r), load_json (dr_asks_json r)) of
     (Some b, Some a) \<Rightarrow> (b, a) | _ \<Rightarrow> ([], []))"

definition depth_of_row :: "depth_row \<Rightarrow> depth_event" where
  "depth_of_row r = \<lparr>d_ts_ms = dr_timestamp_ms r, d_version = or_zero (dr_version r), d_bids = fst (load_sides r),
     d_asks = snd (load_sides r), d_depth = or_zero (dr_depth r), d_symbol = dr_symbol r, d_source_seq = dr_id r\<rparr>"

definition depth_gen :: "replay_db \<Rightarrow> string \<Rightarrow> int \<Rightarrow> int \<Rightarrow> any_event list" where
  "depth_gen db symbol ts_from ts_to =
     map (Depth \<circ> depth_of_row)
       (sort_key (\<lambda>r. (dr_timestamp_ms r, dr_id r))
         (filter (\<lambda>r. dr_symbol r = symbol \<and> ts_from \<le> dr_timestamp_ms r \<and> dr_timestamp_ms r \<le> ts_to) (orderbook_snapshots db)))"

definition ticker_of_row :: "ticker_row \<Rightarrow> ticker_event" where
  "ticker_of_row r = \<lparr>t_ts_ms = tr_ts_ms r, t_last_price = or_zero (tr_last_price r), t_fair_price = or_zero (tr_fair_price r),
     t_index_price = or_zero (tr_index_price r), t_hold_vol = or_zero (tr_hold_vol r), t_oi_usdt = or_zero (tr_oi_usdt r),
     t_funding_rate = or_zero (tr_funding_rate r), t_next_settle_ms = or_zero (tr_next_settle_ms r), t_symbol = tr_symbol r,
     t_source_seq = tr_id r\<rparr>"

definition ticker_gen :: "replay_db \<Rightarrow> string \<Rightarrow> int \<Rightarrow> int \<Rightarrow> any_event list" where
  "ticker_gen db symbol ts_from ts_to =
     map (Ticker \<circ> ticker_of_row)
       (sort_key (\<lambda>r. (tr_ts_ms r, tr_id r))
         (filter (\<lambda>r. tr_symbol r = symbol \<and> ts_from \<le> tr_ts_ms r \<and> tr_ts_ms r \<le> ts_to) (tickers_snapshot db)))"

section \<open>The merge\<close>

text \<open>The least head among the streams, the leftmost of equals, and the streams without it.\<close>

fun pop_least :: "('a \<Rightarrow> 'k::linorder) \<Rightarrow> 'a list list \<Rightarrow> ('a \<times> 'a list list) option" where
  "pop_least key [] = None"
| "pop_least key ([] # xss) = (case pop_least key xss of None \<Rightarrow> None | Some (y, yss) \<Rightarrow> Some (y, [] # yss))"
| "pop_least key ((x # xs) # xss) =
     (case pop_least key xss of
        None \<Rightarrow> Some (x, xs # xss)
      | Some (y, yss) \<Rightarrow> if key y < key x then Some (y, (x # xs) # yss) else Some (x, xs # xss))"

lemma pop_least_None: "pop_least key xss = None \<longleftrightarrow> concat xss = []"
  by (induction key xss rule: pop_least.induct) (auto split: option.splits if_splits)

lemma pop_least_mset: "pop_least key xss = Some (y, yss) \<Longrightarrow> mset (concat xss) = add_mset y (mset (concat yss))"
  by (induction key xss arbitrary: y yss rule: pop_least.induct) (fastforce split: option.splits if_splits simp: pop_least_None)+

lemma pop_least_length: "pop_least key xss = Some (y, yss) \<Longrightarrow> length (concat yss) < length (concat xss)"
  using pop_least_mset [of key xss y yss] by (metis lessI size_add_mset size_mset)

function heap_merge :: "('a \<Rightarrow> 'k::linorder) \<Rightarrow> 'a list list \<Rightarrow> 'a list" where
  "heap_merge key xss = (case pop_least key xss of None \<Rightarrow> [] | Some (y, yss) \<Rightarrow> y # heap_merge key yss)"
  by pat_completeness auto
termination by (relation "measure (\<lambda>(key, xss). length (concat xss))") (auto dest: pop_least_length)

declare heap_merge.simps [simp del]

definition replay_stream :: "replay_db \<Rightarrow> string \<Rightarrow> int \<Rightarrow> int \<Rightarrow> any_event list" where
  "replay_stream db symbol ts_from ts_to =
     heap_merge merge_key [ohlcv_gen db symbol ts_from ts_to, depth_gen db symbol ts_from ts_to, ticker_gen db symbol ts_from ts_to]"

definition replay_gens :: "replay_db \<Rightarrow> string list \<Rightarrow> int \<Rightarrow> int \<Rightarrow> any_event list list" where
  "replay_gens db symbols ts_from ts_to =
     (let syms = sorted_list_of_set (set symbols)
      in map (\<lambda>s. ohlcv_gen db s ts_from ts_to) syms @ map (\<lambda>s. depth_gen db s ts_from ts_to) syms
         @ map (\<lambda>s. ticker_gen db s ts_from ts_to) syms)"

definition replay_stream_multi :: "replay_db \<Rightarrow> string list \<Rightarrow> int \<Rightarrow> int \<Rightarrow> any_event list" where
  "replay_stream_multi db symbols ts_from ts_to = heap_merge merge_key (replay_gens db symbols ts_from ts_to)"

section \<open>Ranges and coverage lists\<close>

fun min_max :: "int list \<Rightarrow> int option \<times> int option" where
  "min_max [] = (None, None)"
| "min_max (x # xs) = (Some (foldl min x xs), Some (foldl max x xs))"

definition get_time_range :: "replay_db \<Rightarrow> string \<Rightarrow> (int \<times> int) option" where
  "get_time_range db symbol =
     (let (omin, omax) = min_max (map or_sec (filter (\<lambda>r. or_symbol r = symbol) (trades_ohlcv_1s db)));
          (dmin, dmax) = min_max (map dr_timestamp_ms (filter (\<lambda>r. dr_symbol r = symbol) (orderbook_snapshots db)));
          (tmin, tmax) = min_max (map tr_ts_ms (filter (\<lambda>r. tr_symbol r = symbol) (tickers_snapshot db)));
          mins = List.map_filter id [map_option (\<lambda>s. s * 1000) omin, dmin, tmin];
          maxs = List.map_filter id [map_option (\<lambda>s. s * 1000) omax, dmax, tmax]
      in case (mins, maxs) of
           (m # ms, n # ns) \<Rightarrow> Some (foldl min m ms, foldl max n ns)
         | _ \<Rightarrow> None)"

definition collect_ohlcv_secs :: "replay_db \<Rightarrow> string list \<Rightarrow> int \<Rightarrow> int \<Rightarrow> (string, int list) dict" where
  "collect_ohlcv_secs db symbols ts_from ts_to =
     foldl (\<lambda>out s. dset out s (map or_sec (sort_key or_sec
       (filter (\<lambda>r. or_symbol r = s \<and> ts_from \<le> or_sec r * 1000 \<and> or_sec r * 1000 \<le> ts_to) (trades_ohlcv_1s db))))) [] symbols"

definition collect_ticker_secs :: "replay_db \<Rightarrow> string list \<Rightarrow> int \<Rightarrow> int \<Rightarrow> (string, int list) dict" where
  "collect_ticker_secs db symbols ts_from ts_to =
     foldl (\<lambda>out s. dset out s (map (\<lambda>r. tr_ts_ms r div 1000) (sort_key tr_ts_ms
       (filter (\<lambda>r. tr_symbol r = s \<and> ts_from \<le> tr_ts_ms r \<and> tr_ts_ms r \<le> ts_to) (tickers_snapshot db))))) [] symbols"

definition collect_depth_secs :: "replay_db \<Rightarrow> string list \<Rightarrow> int \<Rightarrow> int \<Rightarrow> (string, int list) dict" where
  "collect_depth_secs db symbols ts_from ts_to =
     foldl (\<lambda>out s. dset out s (map (\<lambda>r. dr_timestamp_ms r div 1000) (sort_key dr_timestamp_ms
       (filter (\<lambda>r. dr_symbol r = s \<and> ts_from \<le> dr_timestamp_ms r \<and> dr_timestamp_ms r \<le> ts_to) (orderbook_snapshots db))))) [] symbols"

section \<open>The merge is a stable sort\<close>

lemma heap_merge_mset: "mset (heap_merge key xss) = mset (concat xss)"
proof (induction key xss rule: heap_merge.induct)
  case (1 key xss)
  show ?case
  proof (cases "pop_least key xss")
    case None
    then have "heap_merge key xss = []" by (simp add: heap_merge.simps)
    moreover have "concat xss = []" using None by (simp only: pop_least_None)
    ultimately show ?thesis by simp
  next
    case (Some q)
    then obtain y yss where q: "pop_least key xss = Some (y, yss)" by (cases q) auto
    show ?thesis
      using "1.IH" [OF q refl] pop_least_mset [OF q] by (subst heap_merge.simps) (simp add: q)
  qed
qed

lemma set_heap_merge [simp]: "set (heap_merge key xss) = (\<Union>xs \<in> set xss. set xs)"
  using arg_cong [OF heap_merge_mset [of key xss], of set_mset] by simp

lemma pop_least_sorted:
  assumes "pop_least key xss = Some (y, yss)" and "\<And>xs. xs \<in> set xss \<Longrightarrow> sorted (map key xs)"
  shows "(\<forall>xs \<in> set yss. sorted (map key xs)) \<and> (\<forall>z \<in> set (concat xss). key y \<le> key z)
    \<and> filter (\<lambda>z. key z = k) (concat xss) = (if key y = k then [y] else []) @ filter (\<lambda>z. key z = k) (concat yss)"
  using assms
proof (induction key xss arbitrary: y yss rule: pop_least.induct)
  case (2 key xss)
  then obtain yss' where p: "pop_least key xss = Some (y, yss')" "yss = [] # yss'" by (auto split: option.splits)
  with "2.IH" [of y yss'] "2.prems"(2) show ?case by simp
next
  case (3 key x xs xss)
  have s: "sorted (map key xs)" "\<forall>z \<in> set xs. key x \<le> key z" using "3.prems"(2) [of "x # xs"] by auto
  show ?case
  proof (cases "pop_least key xss")
    case None
    then have "concat xss = []" by (simp add: pop_least_None)
    with None 3 s show ?thesis by auto
  next
    case (Some q)
    then obtain z zss where z: "pop_least key xss = Some (z, zss)" by (cases q) auto
    have ih: "(\<forall>ws \<in> set zss. sorted (map key ws)) \<and> (\<forall>w \<in> set (concat xss). key z \<le> key w)
      \<and> filter (\<lambda>w. key w = k) (concat xss) = (if key z = k then [z] else []) @ filter (\<lambda>w. key w = k) (concat zss)"
      using "3.IH" [of z zss] z "3.prems"(2) by simp
    show ?thesis
    proof (cases "key z < key x")
      case True
      with z "3.prems"(1) have y: "y = z" "yss = (x # xs) # zss" by auto
      have "filter (\<lambda>w. key w = k) (x # xs) = []" if "key z = k"
        using True s that by (auto simp: filter_empty_conv)
      with ih y True s show ?thesis by fastforce
    next
      case False
      with z "3.prems"(1) have y: "y = x" "yss = xs # xss" by auto
      with ih False s "3.prems"(2) show ?thesis by fastforce
    qed
  qed
qed simp

lemma heap_merge_stable:
  assumes "\<And>xs. xs \<in> set xss \<Longrightarrow> sorted (map key xs)"
  shows "sorted (map key (heap_merge key xss)) \<and> filter (\<lambda>z. key z = k) (heap_merge key xss) = filter (\<lambda>z. key z = k) (concat xss)"
  using assms
proof (induction key xss rule: heap_merge.induct)
  case (1 key xss)
  show ?case
  proof (cases "pop_least key xss")
    case None
    then have e: "heap_merge key xss = []" by (simp add: heap_merge.simps)
    have c: "concat xss = []" using None by (simp only: pop_least_None)
    show ?thesis unfolding e c by simp
  next
    case (Some q)
    then obtain y yss where q: "pop_least key xss = Some (y, yss)" by (cases q) auto
    have p: "(\<forall>xs \<in> set yss. sorted (map key xs)) \<and> (\<forall>z \<in> set (concat xss). key y \<le> key z)
       \<and> filter (\<lambda>z. key z = k) (concat xss) = (if key y = k then [y] else []) @ filter (\<lambda>z. key z = k) (concat yss)"
      using pop_least_sorted [OF q "1.prems"] by blast
    have ih: "sorted (map key (heap_merge key yss)) \<and> filter (\<lambda>z. key z = k) (heap_merge key yss) = filter (\<lambda>z. key z = k) (concat yss)"
      using "1.IH" [OF q refl] p by blast
    have e: "heap_merge key xss = y # heap_merge key yss" by (subst heap_merge.simps) (simp add: q)
    have "set (concat yss) \<subseteq> set (concat xss)"
      using arg_cong [OF pop_least_mset [OF q], of set_mset] by auto
    with ih p show ?thesis unfolding e by auto
  qed
qed

lemma heap_merge_sort_key:
  assumes "\<And>xs. xs \<in> set xss \<Longrightarrow> sorted (map key xs)"
  shows "heap_merge key xss = sort_key key (concat xss)"
proof -
  have "filter (\<lambda>x. key y = key x) (heap_merge key xss) = filter (\<lambda>x. key y = key x) (concat xss)" for y
    using conjunct2 [OF heap_merge_stable [where k = "key y", OF assms]] by (simp add: eq_commute)
  then show ?thesis
    using heap_merge_stable [OF assms] by (intro properties_for_sort_key [symmetric]) (auto simp: heap_merge_mset)
qed


section \<open>Properties\<close>

lemma sorted_map_mono:
  "sorted (map f xs) \<Longrightarrow> (\<And>x y. x \<in> set xs \<Longrightarrow> y \<in> set xs \<Longrightarrow> f x \<le> f y \<Longrightarrow> g x \<le> g y) \<Longrightarrow> sorted (map g xs)"
  unfolding sorted_map by (erule sorted_wrt_mono_rel [rotated]) blast

lemma sorted_gens [simp]:
  "sorted (map merge_key (ohlcv_gen db s a b))" "sorted (map merge_key (depth_gen db s a b))" "sorted (map merge_key (ticker_gen db s a b))"
  unfolding ohlcv_gen_def depth_gen_def ticker_gen_def map_map
  by (rule sorted_map_mono [OF sorted_sort_key],
      auto simp: merge_key_def ohlcv_of_row_def depth_of_row_def ticker_of_row_def less_eq_prod_def)+

lemma mset_by_symbol:
  "distinct ss \<Longrightarrow> mset (concat (map (\<lambda>s. map g (filter (\<lambda>r. f r = s \<and> P r) rows)) ss)) = mset (map g (filter (\<lambda>r. f r \<in> set ss \<and> P r) rows))"
proof (induction ss)
  case (Cons s ss)
  have "mset (filter (\<lambda>r. f r \<in> set (s # ss) \<and> P r) rows) = mset (filter (\<lambda>r. f r = s \<and> P r) rows) + mset (filter (\<lambda>r. f r \<in> set ss \<and> P r) rows)"
    using Cons.prems by (induction rows) auto
  with Cons show ?case by simp
qed simp

lemma mset_concat_cong: "(\<And>s. mset (f s) = mset (g s)) \<Longrightarrow> mset (concat (map f ss)) = mset (concat (map g ss))"
  by (induction ss) auto

text \<open>The rows a stream is made of.\<close>

definition rows_between :: "replay_db \<Rightarrow> string set \<Rightarrow> int \<Rightarrow> int \<Rightarrow> any_event multiset" where
  "rows_between db S a b =
     mset (map (Ohlcv \<circ> ohlcv_of_row) (filter (\<lambda>r. or_symbol r \<in> S \<and> a \<le> or_sec r * 1000 \<and> or_sec r * 1000 \<le> b) (trades_ohlcv_1s db)))
     + mset (map (Depth \<circ> depth_of_row) (filter (\<lambda>r. dr_symbol r \<in> S \<and> a \<le> dr_timestamp_ms r \<and> dr_timestamp_ms r \<le> b) (orderbook_snapshots db)))
     + mset (map (Ticker \<circ> ticker_of_row) (filter (\<lambda>r. tr_symbol r \<in> S \<and> a \<le> tr_ts_ms r \<and> tr_ts_ms r \<le> b) (tickers_snapshot db)))"

lemma mset_gens: "mset (concat (replay_gens db symbols a b)) = rows_between db (set symbols) a b"
proof -
  let ?ss = "sorted_list_of_set (set symbols)"
  have o: "mset (concat (map (\<lambda>s. ohlcv_gen db s a b) ?ss)) =
      mset (concat (map (\<lambda>s. map (Ohlcv \<circ> ohlcv_of_row) (filter (\<lambda>r. or_symbol r = s \<and> a \<le> or_sec r * 1000 \<and> or_sec r * 1000 \<le> b) (trades_ohlcv_1s db))) ?ss))"
    by (rule mset_concat_cong) (simp add: ohlcv_gen_def)
  have d: "mset (concat (map (\<lambda>s. depth_gen db s a b) ?ss)) =
      mset (concat (map (\<lambda>s. map (Depth \<circ> depth_of_row) (filter (\<lambda>r. dr_symbol r = s \<and> a \<le> dr_timestamp_ms r \<and> dr_timestamp_ms r \<le> b) (orderbook_snapshots db))) ?ss))"
    by (rule mset_concat_cong) (simp add: depth_gen_def)
  have t: "mset (concat (map (\<lambda>s. ticker_gen db s a b) ?ss)) =
      mset (concat (map (\<lambda>s. map (Ticker \<circ> ticker_of_row) (filter (\<lambda>r. tr_symbol r = s \<and> a \<le> tr_ts_ms r \<and> tr_ts_ms r \<le> b) (tickers_snapshot db))) ?ss))"
    by (rule mset_concat_cong) (simp add: ticker_gen_def)
  have "mset (concat (replay_gens db symbols a b)) = mset (concat (map (\<lambda>s. ohlcv_gen db s a b) ?ss))
      + mset (concat (map (\<lambda>s. depth_gen db s a b) ?ss)) + mset (concat (map (\<lambda>s. ticker_gen db s a b) ?ss))"
    by (simp only: replay_gens_def Let_def concat_append mset_append add.assoc)
  then show ?thesis
    unfolding o d t by (simp only: mset_by_symbol distinct_sorted_list_of_set) (simp add: rows_between_def)
qed

lemma gens_sorted: "xs \<in> set (replay_gens db symbols a b) \<Longrightarrow> sorted (map merge_key xs)"
  by (auto simp: replay_gens_def Let_def)

lemma stream_multi_sort: "replay_stream_multi db symbols a b = sort_key merge_key (concat (replay_gens db symbols a b))"
  unfolding replay_stream_multi_def by (rule heap_merge_sort_key [OF gens_sorted])

lemma stream_one: "replay_stream_multi db [s] a b = replay_stream db s a b"
  by (simp add: replay_stream_multi_def replay_stream_def replay_gens_def)

lemma filter_gens:
  assumes "distinct ss" and "s \<in> set ss" and "\<And>x ev. ev \<in> set (gen x) \<Longrightarrow> f ev = x"
  shows "filter (\<lambda>ev. f ev = s) (concat (map gen ss)) = gen s"
proof -
  have own: "filter (\<lambda>ev. f ev = s) (gen x) = (if x = s then gen x else [])" for x
    by (auto simp: filter_id_conv filter_empty_conv dest: assms(3))
  have "s \<notin> set xs \<Longrightarrow> filter (\<lambda>ev. f ev = s) (concat (map gen xs)) = []" for xs
    by (induction xs) (auto simp: own)
  with assms(1,2) show ?thesis by (induction ss) (auto simp: own)
qed

text \<open>What the merged stream holds of one symbol is the stream of that symbol alone.\<close>

lemma stream_multi_filter:
  assumes "s \<in> set symbols"
  shows "filter (\<lambda>ev. ev_symbol ev = s) (replay_stream_multi db symbols a b) = replay_stream db s a b"
proof -
  let ?ss = "sorted_list_of_set (set symbols)"
  have ss: "distinct ?ss" "s \<in> set ?ss" using assms by simp_all
  have "filter (\<lambda>ev. ev_symbol ev = s) (concat (map (\<lambda>s. ohlcv_gen db s a b) ?ss)) = ohlcv_gen db s a b"
    by (rule filter_gens [OF ss]) (auto simp: ohlcv_gen_def ohlcv_of_row_def)
  moreover have "filter (\<lambda>ev. ev_symbol ev = s) (concat (map (\<lambda>s. depth_gen db s a b) ?ss)) = depth_gen db s a b"
    by (rule filter_gens [OF ss]) (auto simp: depth_gen_def depth_of_row_def)
  moreover have "filter (\<lambda>ev. ev_symbol ev = s) (concat (map (\<lambda>s. ticker_gen db s a b) ?ss)) = ticker_gen db s a b"
    by (rule filter_gens [OF ss]) (auto simp: ticker_gen_def ticker_of_row_def)
  ultimately have "filter (\<lambda>ev. ev_symbol ev = s) (concat (replay_gens db symbols a b)) = concat (replay_gens db [s] a b)"
    by (simp add: replay_gens_def Let_def)
  then show ?thesis unfolding stream_one [symmetric] stream_multi_sort filter_sort by (rule arg_cong)
qed

lemma replay_multi_range: "ev \<in> set (replay_stream_multi db symbols a b) \<Longrightarrow> a \<le> ev_ts ev \<and> ev_ts ev \<le> b \<and> ev_symbol ev \<in> set symbols"
  by (auto simp: stream_multi_sort replay_gens_def Let_def ohlcv_gen_def depth_gen_def ticker_gen_def ohlcv_of_row_def depth_of_row_def ticker_of_row_def)

text \<open>C10: the interleaved stream holds every row of the chosen symbols in the range once, whatever the order or repetitions
  of the symbols, in the order of a stable sort by time, kind, symbol and source number; for one symbol it is the
  single-symbol stream.\<close>

theorem replay_stream_order:
  "replay_stream_multi db symbols a b = sort_key merge_key (concat (replay_gens db symbols a b))
   \<and> mset (replay_stream_multi db symbols a b) = rows_between db (set symbols) a b
   \<and> sorted (map ev_ts (replay_stream_multi db symbols a b))
   \<and> replay_stream_multi db [s] a b = replay_stream db s a b"
proof -
  have "sorted (map ev_ts (replay_stream_multi db symbols a b))"
    unfolding replay_stream_multi_def
    by (rule sorted_map_mono [OF conjunct1 [OF heap_merge_stable [OF gens_sorted]]]) (auto simp: merge_key_def less_eq_prod_def)
  then show ?thesis using stream_multi_sort [of db symbols a b] stream_one [of db s a b] mset_gens [of db symbols a b] by simp
qed

lemma foldl_min_le: "foldl min (m :: int) xs \<le> m \<and> (\<forall>x \<in> set xs. foldl min m xs \<le> x)"
proof (induction xs arbitrary: m)
  case (Cons x xs)
  from Cons.IH [of "min m x"] show ?case by auto
qed simp

lemma foldl_max_ge: "(m :: int) \<le> foldl max m xs \<and> (\<forall>x \<in> set xs. x \<le> foldl max m xs)"
proof (induction xs arbitrary: m)
  case (Cons x xs)
  from Cons.IH [of "max m x"] show ?case by auto
qed simp

lemma min_max_bounds: "min_max xs = (lo, hi) \<Longrightarrow> x \<in> set xs \<Longrightarrow> \<exists>l h. lo = Some l \<and> hi = Some h \<and> l \<le> x \<and> x \<le> h"
  using foldl_min_le foldl_max_ge by (cases xs) fastforce+

lemma min_max_None: "min_max xs = (lo, hi) \<Longrightarrow> (lo = None \<longleftrightarrow> xs = []) \<and> (hi = None \<longleftrightarrow> xs = [])"
  by (cases xs) auto

definition symbol_times :: "replay_db \<Rightarrow> string \<Rightarrow> int set" where
  "symbol_times db s = (\<lambda>r. or_sec r * 1000) ` {r \<in> set (trades_ohlcv_1s db). or_symbol r = s}
     \<union> dr_timestamp_ms ` {r \<in> set (orderbook_snapshots db). dr_symbol r = s}
     \<union> tr_ts_ms ` {r \<in> set (tickers_snapshot db). tr_symbol r = s}"

lemma map_filter_id_Nil: "List.map_filter id xs = [] \<longleftrightarrow> (\<forall>x \<in> set xs. x = None)"
  by (auto simp: List.map_filter_def filter_empty_conv)

lemma map_filter_id_mem: "Some x \<in> set xs \<Longrightarrow> x \<in> set (List.map_filter id xs)"
  by (force simp: List.map_filter_def)

lemma min_of_options: "List.map_filter id xs = m # ms \<Longrightarrow> Some x \<in> set xs \<Longrightarrow> foldl min m ms \<le> (x :: int)"
  using foldl_min_le [of m ms] map_filter_id_mem [of x xs] by auto

lemma max_of_options: "List.map_filter id xs = m # ms \<Longrightarrow> Some x \<in> set xs \<Longrightarrow> (x :: int) \<le> foldl max m ms"
  using foldl_max_ge [of m ms] map_filter_id_mem [of x xs] by auto

lemma range_of_mins:
  assumes "\<And>i. i < 3 \<Longrightarrow> ([o1, d1, t1 :: int option] ! i = None) = ([o2, d2, t2 :: int option] ! i = None)"
  defines "r \<equiv> (case (List.map_filter id [o1, d1, t1], List.map_filter id [o2, d2, t2]) of
      (m # ms, n # ns) \<Rightarrow> Some (foldl min m ms, foldl max n ns) | _ \<Rightarrow> None)"
  shows "(r = None \<longleftrightarrow> o1 = None \<and> d1 = None \<and> t1 = None)
    \<and> (r = Some (lo, hi) \<longrightarrow> (\<forall>x. Some x \<in> {o1, d1, t1} \<longrightarrow> lo \<le> x) \<and> (\<forall>x. Some x \<in> {o2, d2, t2} \<longrightarrow> x \<le> hi))"
proof (cases "List.map_filter id [o1, d1, t1] = []")
  case True
  then have "r = None" by (simp only: r_def list.case prod.case)
  moreover have "o1 = None \<and> d1 = None \<and> t1 = None" using True unfolding map_filter_id_Nil by simp
  ultimately show ?thesis by simp
next
  case False
  then have "List.map_filter id [o2, d2, t2] \<noteq> []"
    using assms(1) [of 0] assms(1) [of 1] assms(1) [of 2] unfolding map_filter_id_Nil by (simp del: not_None_eq)
  with False obtain m ms n ns where e: "List.map_filter id [o1, d1, t1] = m # ms" "List.map_filter id [o2, d2, t2] = n # ns"
    by (meson neq_Nil_conv)
  have "r = Some (foldl min m ms, foldl max n ns)" unfolding r_def e by simp
  moreover have "\<not> (o1 = None \<and> d1 = None \<and> t1 = None)" using False unfolding map_filter_id_Nil by simp
  ultimately show ?thesis using min_of_options [OF e(1)] max_of_options [OF e(2)] by auto
qed

lemma time_range_sound:
  "(get_time_range db s = None \<longleftrightarrow> symbol_times db s = {})
   \<and> (get_time_range db s = Some (lo, hi) \<longrightarrow> (\<forall>t \<in> symbol_times db s. lo \<le> t \<and> t \<le> hi))"
proof -
  let ?os = "map or_sec (filter (\<lambda>r. or_symbol r = s) (trades_ohlcv_1s db))"
  let ?ds = "map dr_timestamp_ms (filter (\<lambda>r. dr_symbol r = s) (orderbook_snapshots db))"
  let ?ts = "map tr_ts_ms (filter (\<lambda>r. tr_symbol r = s) (tickers_snapshot db))"
  obtain o1 o2 d1 d2 t1 t2 where m: "min_max ?os = (o1, o2)" "min_max ?ds = (d1, d2)" "min_max ?ts = (t1, t2)"
    by (metis surj_pair)
  define S where "S = (\<lambda>n :: int. n * 1000)"
  have r: "get_time_range db s = (case (List.map_filter id [map_option S o1, d1, t1], List.map_filter id [map_option S o2, d2, t2]) of
      (m # ms, n # ns) \<Rightarrow> Some (foldl min m ms, foldl max n ns) | _ \<Rightarrow> None)"
    by (simp only: get_time_range_def m Let_def split_conv S_def)
  have "(map_option S o1 = None) = (map_option S o2 = None)" "(d1 = None) = (d2 = None)" "(t1 = None) = (t2 = None)"
    using min_max_None [OF m(1)] min_max_None [OF m(2)] min_max_None [OF m(3)] by auto
  then have "([map_option S o1, d1, t1] ! i = None) = ([map_option S o2, d2, t2] ! i = None)" if "i < 3" for i
    using that by (auto simp: less_Suc_eq numeral_3_eq_3)
  note rm = range_of_mins [OF this, of lo hi, folded r]
  have e: "symbol_times db s = {} \<longleftrightarrow> ?os = [] \<and> ?ds = [] \<and> ?ts = []"
    by (auto simp: symbol_times_def filter_empty_conv)
  have "get_time_range db s = None \<longleftrightarrow> map_option S o1 = None \<and> d1 = None \<and> t1 = None"
    using rm by blast
  then have n: "get_time_range db s = None \<longleftrightarrow> symbol_times db s = {}"
    unfolding e using min_max_None [OF m(1)] min_max_None [OF m(2)] min_max_None [OF m(3)] by simp
  have "\<forall>t \<in> symbol_times db s. lo \<le> t \<and> t \<le> hi" if g: "get_time_range db s = Some (lo, hi)"
  proof -
    have b: "(\<forall>x. Some x \<in> {map_option S o1, d1, t1} \<longrightarrow> lo \<le> x) \<and> (\<forall>x. Some x \<in> {map_option S o2, d2, t2} \<longrightarrow> x \<le> hi)"
      using rm g by blast
    have "lo \<le> or_sec r * 1000 \<and> or_sec r * 1000 \<le> hi" if "r \<in> set (trades_ohlcv_1s db)" "or_symbol r = s" for r
      using min_max_bounds [OF m(1), of "or_sec r"] b that by (fastforce simp: S_def)
    moreover have "lo \<le> dr_timestamp_ms r \<and> dr_timestamp_ms r \<le> hi" if "r \<in> set (orderbook_snapshots db)" "dr_symbol r = s" for r
      using min_max_bounds [OF m(2), of "dr_timestamp_ms r"] b that by fastforce
    moreover have "lo \<le> tr_ts_ms r \<and> tr_ts_ms r \<le> hi" if "r \<in> set (tickers_snapshot db)" "tr_symbol r = s" for r
      using min_max_bounds [OF m(3), of "tr_ts_ms r"] b that by fastforce
    ultimately show ?thesis by (auto simp: symbol_times_def)
  qed
  with n show ?thesis by blast
qed

text \<open>Lemma: there is no time range exactly when the symbol has no row in any table, and otherwise the range loses nothing: any
  wider range replays the same stream.\<close>

theorem replay_time_range:
  "(get_time_range db s = None \<longleftrightarrow> symbol_times db s = {})
   \<and> (get_time_range db s = Some (lo, hi) \<longrightarrow> a \<le> lo \<longrightarrow> hi \<le> b \<longrightarrow> replay_stream db s a b = replay_stream db s lo hi)"
proof -
  have "replay_stream db s a b = replay_stream db s lo hi"
    if g: "get_time_range db s = Some (lo, hi)" and ab: "a \<le> lo" "hi \<le> b"
  proof -
    have t: "lo \<le> t \<and> t \<le> hi" if "t \<in> symbol_times db s" for t using time_range_sound [of db s lo hi] g that by blast
    have "filter (\<lambda>r. or_symbol r = s \<and> a \<le> or_sec r * 1000 \<and> or_sec r * 1000 \<le> b) (trades_ohlcv_1s db)
        = filter (\<lambda>r. or_symbol r = s \<and> lo \<le> or_sec r * 1000 \<and> or_sec r * 1000 \<le> hi) (trades_ohlcv_1s db)"
      by (rule filter_cong [OF refl]) (use t ab in \<open>force simp: symbol_times_def\<close>)
    moreover have "filter (\<lambda>r. dr_symbol r = s \<and> a \<le> dr_timestamp_ms r \<and> dr_timestamp_ms r \<le> b) (orderbook_snapshots db)
        = filter (\<lambda>r. dr_symbol r = s \<and> lo \<le> dr_timestamp_ms r \<and> dr_timestamp_ms r \<le> hi) (orderbook_snapshots db)"
      by (rule filter_cong [OF refl]) (use t ab in \<open>force simp: symbol_times_def\<close>)
    moreover have "filter (\<lambda>r. tr_symbol r = s \<and> a \<le> tr_ts_ms r \<and> tr_ts_ms r \<le> b) (tickers_snapshot db)
        = filter (\<lambda>r. tr_symbol r = s \<and> lo \<le> tr_ts_ms r \<and> tr_ts_ms r \<le> hi) (tickers_snapshot db)"
      by (rule filter_cong [OF refl]) (use t ab in \<open>force simp: symbol_times_def\<close>)
    ultimately show ?thesis by (simp add: replay_stream_def ohlcv_gen_def depth_gen_def ticker_gen_def)
  qed
  with time_range_sound [of db s lo hi] show ?thesis by blast
qed

definition sample_db :: replay_db where
  "sample_db = \<lparr>trades_ohlcv_1s = [\<lparr>or_symbol = ''B'', or_sec = 3, or_open = Some 1, or_high = Some 1, or_low = Some 1, or_close = None,
       or_buy_vol = None, or_sell_vol = None, or_trade_count = Some 2\<rparr>],
     orderbook_snapshots = [\<lparr>dr_id = 1, dr_symbol = ''B'', dr_timestamp_ms = 3000, dr_version = Some 1, dr_bids_json = Malformed,
       dr_asks_json = EmptyText, dr_depth = None\<rparr>],
     tickers_snapshot = [\<lparr>tr_id = 1, tr_symbol = ''B'', tr_ts_ms = 900, tr_last_price = Some 1, tr_fair_price = None, tr_index_price = None,
       tr_hold_vol = None, tr_oi_usdt = None, tr_funding_rate = None, tr_next_settle_ms = None\<rparr>]\<rparr>"

lemma replay_time_range_witness:
  "replay_stream sample_db ''B'' 0 9999 = replay_stream sample_db ''B'' 900 3000"
proof -
  have "get_time_range sample_db ''B'' = Some (900, 3000)"
    by (simp add: get_time_range_def sample_db_def List.map_filter_simps)
  then show ?thesis using replay_time_range [of sample_db "''B''" 900 3000 0 9999] by simp
qed

end
