(* ===== verification/Signal_Detector.thy ===== *)
theory Signal_Detector
  imports Replay_Transport Float64
begin

text \<open>
  \<^verbatim>\<open>src/backtest/signal_detector.py\<close>: one-second candles are folded into buckets of \<^verbatim>\<open>candle_seconds\<close>, and
  four detectors look at the finished buckets. A division by a zero close raises, which is the value \<open>None\<close>; the state
  then is the one the exception leaves behind. The lookbacks are not negative and \<^verbatim>\<open>candle_seconds\<close> is positive.
\<close>

section \<open>State\<close>

datatype signal_kind = SWEEP_UP | SWEEP_DOWN | MSS_UP | MSS_DOWN | FVG_BULLISH | FVG_BEARISH | OTE_LONG | OTE_SHORT

record candle5s =
  c_sec :: int
  c_ts_ms :: int
  c_open :: rat
  c_high :: rat
  c_low :: rat
  c_close :: rat
  c_buy_vol :: rat
  c_sell_vol :: rat
  c_trade_count :: int

record signal =
  s_kind :: signal_kind
  s_ts_ms :: int
  s_price :: rat
  s_size :: rat

record detector_config =
  candle_seconds :: int
  sweep_lookback :: nat
  sweep_wick_ratio :: rat
  mss_lookback :: nat
  fvg_min_size_pct :: rat
  ote_low :: rat
  ote_high :: rat
  ote_lookback :: nat
  max_history :: nat

definition default_detector_config :: detector_config where
  "default_detector_config = \<lparr>candle_seconds = 5, sweep_lookback = 20, sweep_wick_ratio = rnd (6 / 10), mss_lookback = 10,
     fvg_min_size_pct = rnd (5 / 10000), ote_low = rnd (62 / 100), ote_high = rnd (79 / 100), ote_lookback = 20, max_history = 300\<rparr>"

record detector =
  active_sec :: "int option"
  active :: "candle5s option"
  candles :: "candle5s list"

definition new_detector :: detector where
  "new_detector = \<lparr>active_sec = None, active = None, candles = []\<rparr>"

section \<open>Buckets\<close>

definition bucket_of :: "detector_config \<Rightarrow> ohlcv_event \<Rightarrow> int" where
  "bucket_of cfg ev = o_sec ev div candle_seconds cfg * candle_seconds cfg"

definition detector_new_bucket :: "int \<Rightarrow> ohlcv_event \<Rightarrow> candle5s" where
  "detector_new_bucket sec ev = \<lparr>c_sec = sec, c_ts_ms = sec * 1000, c_open = o_open ev, c_high = o_high ev, c_low = o_low ev,
     c_close = o_close ev, c_buy_vol = o_buy_vol ev, c_sell_vol = o_sell_vol ev, c_trade_count = o_trade_count ev\<rparr>"

definition bucket_merge :: "candle5s \<Rightarrow> ohlcv_event \<Rightarrow> candle5s" where
  "bucket_merge b ev = b\<lparr>c_high := (if c_high b < o_high ev then o_high ev else c_high b),
     c_low := (if o_low ev < c_low b then o_low ev else c_low b), c_close := o_close ev,
     c_buy_vol := fadd (c_buy_vol b) (o_buy_vol ev), c_sell_vol := fadd (c_sell_vol b) (o_sell_vol ev),
     c_trade_count := c_trade_count b + o_trade_count ev\<rparr>"

definition detector_finalize :: "detector_config \<Rightarrow> detector \<Rightarrow> detector" where
  "detector_finalize cfg d = (case active d of
     None \<Rightarrow> d
   | Some b \<Rightarrow> d\<lparr>candles := deque_append (max_history cfg) (candles d) b, active := None\<rparr>)"

section \<open>Detectors\<close>

text \<open>\<^verbatim>\<open>list(candles)[-n - 1 : -1]\<close>, for at least \<open>n + 1\<close> candles.\<close>

definition lookback_window :: "nat \<Rightarrow> candle5s list \<Rightarrow> candle5s list" where
  "lookback_window n cs = butlast (take_last (Suc n) cs)"

fun max_high :: "candle5s list \<Rightarrow> rat" where
  "max_high [] = 0"
| "max_high (c # cs) = foldl max (c_high c) (map c_high cs)"

fun min_low :: "candle5s list \<Rightarrow> rat" where
  "min_low [] = 0"
| "min_low (c # cs) = foldl min (c_low c) (map c_low cs)"

definition mk_signal :: "signal_kind \<Rightarrow> candle5s \<Rightarrow> rat \<Rightarrow> rat \<Rightarrow> signal" where
  "mk_signal k c price sz = \<lparr>s_kind = k, s_ts_ms = c_ts_ms c, s_price = price, s_size = sz\<rparr>"

definition detect_sweep :: "detector_config \<Rightarrow> candle5s list \<Rightarrow> candle5s \<Rightarrow> signal list" where
  "detect_sweep cfg cs c =
     (if length cs < sweep_lookback cfg + 1 then []
      else let window = lookback_window (sweep_lookback cfg) cs in
        if window = [] then []
        else let prev_high = max_high window; prev_low = min_low window; rng = fsub (c_high c) (c_low c) in
          if rng \<le> 0 then []
          else let body_top = max (c_open c) (c_close c); body_bot = min (c_open c) (c_close c);
                   wick_up = fsub (c_high c) body_top; wick_down = fsub body_bot (c_low c)
               in (if prev_high < c_high c \<and> c_close c < prev_high \<and> sweep_wick_ratio cfg \<le> fdiv wick_up rng
                   then [mk_signal SWEEP_UP c (c_high c) (fsub (c_high c) prev_high)] else [])
                  @ (if c_low c < prev_low \<and> prev_low < c_close c \<and> sweep_wick_ratio cfg \<le> fdiv wick_down rng
                     then [mk_signal SWEEP_DOWN c (c_low c) (fsub prev_low (c_low c))] else []))"

definition mss_mid :: "candle5s list \<Rightarrow> rat" where
  "mss_mid window = fdiv (fadd (max_high window) (min_low window)) 2"

definition detect_mss :: "detector_config \<Rightarrow> candle5s list \<Rightarrow> candle5s \<Rightarrow> signal list" where
  "detect_mss cfg cs c =
     (if length cs < mss_lookback cfg + 1 then []
      else let window = lookback_window (mss_lookback cfg) cs in
        if window = [] then []
        else let mid = mss_mid window; prev = cs ! (length cs - 2) in
          (if c_close prev \<le> mid \<and> mid < c_close c then [mk_signal MSS_UP c (c_close c) (fsub (c_close c) mid)] else [])
          @ (if mid \<le> c_close prev \<and> c_close c < mid then [mk_signal MSS_DOWN c (c_close c) (fsub mid (c_close c))] else []))"

text \<open>A gap is a signal when its relative size is large enough; dividing by a zero close raises.\<close>

definition fvg_gap :: "detector_config \<Rightarrow> signal_kind \<Rightarrow> candle5s \<Rightarrow> candle5s \<Rightarrow> rat \<Rightarrow> rat \<Rightarrow> signal list option" where
  "fvg_gap cfg k c2 c3 lower upper =
     (if lower < upper then
        (if c_close c2 = 0 then None
         else let sz = fsub upper lower in
           Some (if fvg_min_size_pct cfg \<le> fdiv sz (c_close c2) then [mk_signal k c3 (fdiv (fadd lower upper) 2) sz] else []))
      else Some [])"

definition detect_fvg :: "detector_config \<Rightarrow> candle5s list \<Rightarrow> signal list option" where
  "detect_fvg cfg cs =
     (if length cs < 3 then Some []
      else let c1 = cs ! (length cs - 3); c2 = cs ! (length cs - 2); c3 = cs ! (length cs - 1) in
        case fvg_gap cfg FVG_BULLISH c2 c3 (c_high c1) (c_low c3) of
          None \<Rightarrow> None
        | Some up \<Rightarrow>
            (case fvg_gap cfg FVG_BEARISH c2 c3 (c_high c3) (c_low c1) of
               None \<Rightarrow> None
             | Some down \<Rightarrow> Some (up @ down)))"

definition detect_ote :: "detector_config \<Rightarrow> candle5s list \<Rightarrow> candle5s \<Rightarrow> signal list" where
  "detect_ote cfg cs c =
     (if length cs < ote_lookback cfg + 1 then []
      else let window = lookback_window (ote_lookback cfg) cs in
        if window = [] then []
        else let hi = max_high window; lo = min_low window; sp = fsub hi lo in
          if sp \<le> 0 then []
          else let long_top = fsub hi (fmul (ote_low cfg) sp); long_bot = fsub hi (fmul (ote_high cfg) sp);
                   short_bot = fadd lo (fmul (ote_low cfg) sp); short_top = fadd lo (fmul (ote_high cfg) sp)
               in (if long_bot \<le> c_close c \<and> c_close c \<le> long_top then [mk_signal OTE_LONG c (c_close c) sp] else [])
                  @ (if short_bot \<le> c_close c \<and> c_close c \<le> short_top then [mk_signal OTE_SHORT c (c_close c) sp] else []))"

definition detect_on_last :: "detector_config \<Rightarrow> candle5s list \<Rightarrow> signal list option" where
  "detect_on_last cfg cs =
     (if cs = [] then Some []
      else let c = last cs in
        map_option (\<lambda>fvg. detect_sweep cfg cs c @ detect_mss cfg cs c @ fvg @ detect_ote cfg cs c) (detect_fvg cfg cs))"

section \<open>Feeding\<close>

definition feed_ohlcv_1s :: "detector_config \<Rightarrow> ohlcv_event \<Rightarrow> detector \<Rightarrow> detector \<times> signal list option" where
  "feed_ohlcv_1s cfg ev d =
     (let bucket = bucket_of cfg ev in
      case active_sec d of
        None \<Rightarrow> (d\<lparr>active := Some (detector_new_bucket bucket ev), active_sec := Some bucket\<rparr>, Some [])
      | Some s \<Rightarrow>
          if s < bucket then
            (let d1 = detector_finalize cfg d in
             case detect_on_last cfg (candles d1) of
               None \<Rightarrow> (d1, None)
             | Some out \<Rightarrow> (d1\<lparr>active := Some (detector_new_bucket bucket ev), active_sec := Some bucket\<rparr>, Some out))
          else if bucket < s then (d, Some [])
          else (case active d of
                  None \<Rightarrow> (d, Some [])
                | Some b \<Rightarrow> (d\<lparr>active := Some (bucket_merge b ev)\<rparr>, Some [])))"

definition detector_flush :: "detector_config \<Rightarrow> detector \<Rightarrow> detector \<times> signal list option" where
  "detector_flush cfg d = (case active d of
     None \<Rightarrow> (d, Some [])
   | Some b \<Rightarrow> (let d1 = detector_finalize cfg d in (d1, detect_on_last cfg (candles d1))))"

definition candle_count :: "detector \<Rightarrow> nat" where
  "candle_count d = length (candles d)"

text \<open>Feeding a whole sequence, the exceptions of a feed being swallowed by the engine.\<close>

fun feed_all :: "detector_config \<Rightarrow> ohlcv_event list \<Rightarrow> detector \<Rightarrow> detector \<times> signal list option list" where
  "feed_all cfg [] d = (d, [])"
| "feed_all cfg (ev # evs) d =
     (let (d1, r) = feed_ohlcv_1s cfg ev d; (d2, rs) = feed_all cfg evs d1 in (d2, r # rs))"


section \<open>Reference aggregation\<close>

text \<open>The events that are not behind the latest bucket seen.\<close>

fun accepted :: "detector_config \<Rightarrow> ohlcv_event list \<Rightarrow> ohlcv_event list \<Rightarrow> ohlcv_event list" where
  "accepted cfg acc [] = acc"
| "accepted cfg acc (e # es) =
     accepted cfg (if acc \<noteq> [] \<and> bucket_of cfg e < bucket_of cfg (last acc) then acc else acc @ [e]) es"

definition candle_of :: "int \<Rightarrow> ohlcv_event list \<Rightarrow> candle5s" where
  "candle_of b es = \<lparr>c_sec = b, c_ts_ms = b * 1000, c_open = o_open (hd es), c_high = Max (set (map o_high es)),
     c_low = Min (set (map o_low es)), c_close = o_close (last es),
     c_buy_vol = foldl fadd (o_buy_vol (hd es)) (map o_buy_vol (tl es)),
     c_sell_vol = foldl fadd (o_sell_vol (hd es)) (map o_sell_vol (tl es)), c_trade_count = sum_list (map o_trade_count es)\<rparr>"

definition bucket_events :: "detector_config \<Rightarrow> ohlcv_event list \<Rightarrow> int \<Rightarrow> ohlcv_event list" where
  "bucket_events cfg es b = filter (\<lambda>e. bucket_of cfg e = b) es"

definition buckets :: "detector_config \<Rightarrow> ohlcv_event list \<Rightarrow> int list" where
  "buckets cfg es = sorted_list_of_set (bucket_of cfg ` set es)"

definition reference_candles :: "detector_config \<Rightarrow> ohlcv_event list \<Rightarrow> candle5s list" where
  "reference_candles cfg es = map (\<lambda>b. candle_of b (bucket_events cfg es b)) (buckets cfg es)"

lemma candle_of_single: "candle_of b [e] = detector_new_bucket b e"
  by (simp add: candle_of_def detector_new_bucket_def)

lemma max_if: "(if h < x then x else h) = max x (h :: rat)" and min_if: "(if x < h then x else h) = min x (h :: rat)"
  by auto

lemma candle_of_snoc: "es \<noteq> [] \<Longrightarrow> candle_of b (es @ [e]) = bucket_merge (candle_of b es) e"
proof -
  assume ne: "es \<noteq> []"
  have "Max (insert (o_high e) (o_high ` set es)) = max (o_high e) (Max (o_high ` set es))"
    "Min (insert (o_low e) (o_low ` set es)) = min (o_low e) (Min (o_low ` set es))" using ne by (simp_all add: Max_insert Min_insert)
  then show ?thesis using ne unfolding bucket_merge_def max_if min_if by (simp add: candle_of_def)
qed

lemma sorted_list_of_set_snoc:
  "finite S \<Longrightarrow> (\<And>x. x \<in> S \<Longrightarrow> x < (b :: int)) \<Longrightarrow> sorted_list_of_set (insert b S) = sorted_list_of_set S @ [b]"
  by (subst sorted_list_of_set_unique [symmetric]) (auto simp: sorted_wrt_append card_insert_if)

lemma accepted_snoc:
  "accepted cfg acc (es @ [e]) =
     (let a = accepted cfg acc es in if a \<noteq> [] \<and> bucket_of cfg e < bucket_of cfg (last a) then a else a @ [e])"
  by (induction cfg acc es rule: accepted.induct) (simp_all add: Let_def)

lemma take_last_snoc: "take_last n (take_last n xs @ [x]) = take_last n (xs @ [x])"
  by (cases "n \<le> length xs") (simp_all add: take_last_def Suc_diff_le)

lemma butlast_map: "butlast (map f xs) = map f (butlast xs)"
  by (simp add: map_butlast)

definition follows :: "detector_config \<Rightarrow> ohlcv_event list \<Rightarrow> detector \<Rightarrow> bool" where
  "follows cfg es d \<longleftrightarrow> (if es = [] then d = new_detector
     else sorted (map (bucket_of cfg) es) \<and> active_sec d = Some (bucket_of cfg (last es))
       \<and> active d = Some (last (reference_candles cfg es))
       \<and> candles d = take_last (max_history cfg) (butlast (reference_candles cfg es)))"

lemma sorted_le_last: "sorted xs \<Longrightarrow> x \<in> set xs \<Longrightarrow> x \<le> last xs"
  by (induction xs) (auto simp: last_in_set)

lemma sorted_last_bucket: "sorted (map f es) \<Longrightarrow> e \<in> set es \<Longrightarrow> f e \<le> (f (last es) :: int)"
  using sorted_le_last [of "map f es" "f e"] by (cases es rule: rev_cases) auto

lemma reference_new_bucket:
  assumes "sorted (map (bucket_of cfg) es)" and "es = [] \<or> bucket_of cfg (last es) < bucket_of cfg e"
  shows "reference_candles cfg (es @ [e]) = reference_candles cfg es @ [detector_new_bucket (bucket_of cfg e) e]"
proof -
  let ?b = "bucket_of cfg e"
  have lt: "x < ?b" if "x \<in> bucket_of cfg ` set es" for x
    using that assms sorted_last_bucket [OF assms(1)] by fastforce
  have "buckets cfg (es @ [e]) = buckets cfg es @ [?b]"
    using sorted_list_of_set_snoc [OF _ lt] by (simp add: buckets_def)
  moreover have "bucket_of cfg x \<noteq> ?b" if "x \<in> set es" for x
    using lt [of "bucket_of cfg x"] that by simp
  then have "bucket_events cfg (es @ [e]) ?b = [e]"
    by (simp add: bucket_events_def filter_empty_conv)
  moreover have "bucket_events cfg (es @ [e]) b = bucket_events cfg es b" if "b \<in> set (buckets cfg es)" for b
    using lt that by (force simp: bucket_events_def buckets_def)
  ultimately show ?thesis by (simp add: reference_candles_def candle_of_single)
qed

lemma reference_same_bucket:
  assumes srt: "sorted (map (bucket_of cfg) es)" and "es \<noteq> []" and "bucket_of cfg (last es) = bucket_of cfg e"
  shows "reference_candles cfg (es @ [e]) = butlast (reference_candles cfg es) @ [bucket_merge (last (reference_candles cfg es)) e]"
proof -
  let ?b = "bucket_of cfg e" and ?S = "bucket_of cfg ` set es"
  have bS: "?b \<in> ?S" using assms(2,3) by (metis imageI last_in_set)
  have le: "x \<le> ?b" if "x \<in> ?S" for x
    using that assms(3) sorted_last_bucket [OF srt] by force
  have "sorted_list_of_set (insert ?b (?S - {?b})) = sorted_list_of_set (?S - {?b}) @ [?b]"
    using le by (intro sorted_list_of_set_snoc) (auto simp: less_le)
  then have bs: "buckets cfg es = sorted_list_of_set (?S - {?b}) @ [?b]" using bS by (simp add: buckets_def insert_absorb)
  have bs': "buckets cfg (es @ [e]) = buckets cfg es" using bS by (simp add: buckets_def insert_absorb)
  have ne: "bucket_events cfg es ?b \<noteq> []" using bS by (auto simp: bucket_events_def filter_empty_conv)
  have "bucket_events cfg (es @ [e]) b = (if b = ?b then bucket_events cfg es b @ [e] else bucket_events cfg es b)" for b
    by (simp add: bucket_events_def)
  then show ?thesis using ne by (simp add: reference_candles_def bs' bs candle_of_snoc)
qed

lemma reference_nonempty: "es \<noteq> [] \<Longrightarrow> reference_candles cfg es \<noteq> []"
  by (simp add: reference_candles_def buckets_def)

lemma follows_feed:
  assumes f: "follows cfg es d" and r: "feed_ohlcv_1s cfg ev d = (d', Some out)"
  shows "follows cfg (if es \<noteq> [] \<and> bucket_of cfg ev < bucket_of cfg (last es) then es else es @ [ev]) d'"
proof (cases "es = []")
  case True
  then show ?thesis using f r reference_new_bucket [of cfg "[]" ev]
    by (auto simp: follows_def feed_ohlcv_1s_def new_detector_def Let_def reference_candles_def buckets_def take_last_def)
next
  case False
  note ne = reference_nonempty [OF False, of cfg]
  have d: "sorted (map (bucket_of cfg) es)" "active_sec d = Some (bucket_of cfg (last es))" "active d = Some (last (reference_candles cfg es))"
    "candles d = take_last (max_history cfg) (butlast (reference_candles cfg es))" using f False by (auto simp: follows_def)
  consider (lt) "bucket_of cfg ev < bucket_of cfg (last es)" | (eq) "bucket_of cfg (last es) = bucket_of cfg ev"
    | (gt) "bucket_of cfg (last es) < bucket_of cfg ev" by linarith
  then show ?thesis
  proof cases
    case lt
    then show ?thesis using f r d False by (simp add: feed_ohlcv_1s_def Let_def)
  next
    case eq
    have "d' = d\<lparr>active := Some (bucket_merge (last (reference_candles cfg es)) ev)\<rparr>"
      using r d eq by (simp add: feed_ohlcv_1s_def Let_def)
    then show ?thesis
      using d eq False reference_same_bucket [OF d(1) False eq] sorted_last_bucket [OF d(1)]
      by (auto simp: follows_def sorted_append)
  next
    case gt
    have "candles d' = deque_append (max_history cfg) (candles d) (last (reference_candles cfg es))
        \<and> active d' = Some (detector_new_bucket (bucket_of cfg ev) ev) \<and> active_sec d' = Some (bucket_of cfg ev)"
      using r d gt by (auto simp: feed_ohlcv_1s_def Let_def detector_finalize_def split: option.splits)
    moreover have "butlast (reference_candles cfg es) @ [last (reference_candles cfg es)] = reference_candles cfg es" using ne by simp
    ultimately show ?thesis
      using d gt False reference_new_bucket [OF d(1) disjI2 [OF gt]] sorted_last_bucket [OF d(1)]
      by (fastforce simp: follows_def deque_append_def take_last_snoc sorted_append)
  qed
qed


lemma follows_feed_all:
  "follows cfg es d \<Longrightarrow> feed_all cfg evs d = (d', rs) \<Longrightarrow> None \<notin> set rs \<Longrightarrow> follows cfg (accepted cfg es evs) d'"
proof (induction evs arbitrary: es d rs)
  case (Cons ev evs)
  obtain d1 r where 1: "feed_ohlcv_1s cfg ev d = (d1, r)" by (metis surj_pair)
  obtain d2 rs' where 2: "feed_all cfg evs d1 = (d2, rs')" by (metis surj_pair)
  have e: "d2 = d'" "rs = r # rs'" using Cons.prems(2) by (simp_all add: 1 2)
  then obtain out where r: "r = Some out" using Cons.prems(3) by (cases r) auto
  have "follows cfg (if es \<noteq> [] \<and> bucket_of cfg ev < bucket_of cfg (last es) then es else es @ [ev]) d1"
    by (rule follows_feed [OF Cons.prems(1) 1 [unfolded r]])
  from Cons.IH [OF this 2 [unfolded e(1)]] Cons.prems(3) e(2) show ?case by simp
qed simp

lemma accepted_sorted:
  "sorted (map (bucket_of cfg) (acc @ evs)) \<Longrightarrow> accepted cfg acc evs = acc @ evs"
proof (induction evs arbitrary: acc)
  case (Cons e evs)
  have "bucket_of cfg (last acc) \<le> bucket_of cfg e" if "acc \<noteq> []"
    using Cons.prems last_in_set [OF that] by (simp add: sorted_append)
  then show ?case using Cons.IH [of "acc @ [e]"] Cons.prems by (auto simp: not_less [symmetric])
qed simp

lemma accepted_nonempty: "acc \<noteq> [] \<or> evs \<noteq> [] \<Longrightarrow> accepted cfg acc evs \<noteq> []"
  by (induction cfg acc evs rule: accepted.induct) auto

section \<open>Properties\<close>

text \<open>C19: as long as no feed raises, the detector's candles are the reference aggregation of the events that were not behind
  the latest bucket: per bucket one candle with the first open, the extremes, the last close and the sums, in the order of
  the buckets, the last one still open and the others kept up to the history bound. In time order no event is dropped.\<close>

theorem detector_candles:
  assumes "feed_all cfg evs new_detector = (d, rs)" and "None \<notin> set rs" and "evs \<noteq> []"
  shows "candles d = take_last (max_history cfg) (butlast (reference_candles cfg (accepted cfg [] evs)))
    \<and> active d = Some (last (reference_candles cfg (accepted cfg [] evs)))
    \<and> (0 < candle_seconds cfg \<and> sorted (map o_sec evs) \<longrightarrow> accepted cfg [] evs = evs)"
proof -
  have "follows cfg [] new_detector" by (simp add: follows_def)
  from follows_feed_all [OF this assms(1,2)] have "follows cfg (accepted cfg [] evs) d" .
  moreover have "accepted cfg [] evs \<noteq> []" using assms(3) by (simp add: accepted_nonempty)
  moreover have "accepted cfg [] evs = evs" if c: "0 < candle_seconds cfg" and srt: "sorted (map o_sec evs)"
  proof -
    have "sorted (map (bucket_of cfg) evs)"
      by (rule sorted_map_mono [OF srt]) (use c in \<open>simp add: bucket_of_def mult_right_mono zdiv_mono1\<close>)
    then show ?thesis using accepted_sorted [of cfg "[]" evs] by simp
  qed
  ultimately show ?thesis by (simp add: follows_def)
qed

definition sample_event :: "int \<Rightarrow> rat \<Rightarrow> rat \<Rightarrow> rat \<Rightarrow> ohlcv_event" where
  "sample_event sec hi lo cl = \<lparr>o_sec = sec, o_ts_ms = sec * 1000, o_open = cl, o_high = hi, o_low = lo, o_close = cl, o_buy_vol = 1,
     o_sell_vol = 2, o_trade_count = 3, o_symbol = ''B'', o_source_seq = sec\<rparr>"

definition sample_events :: "ohlcv_event list" where
  "sample_events = [sample_event 5 10 8 9, sample_event 7 12 9 11, sample_event 3 99 1 50, sample_event 11 11 10 10]"

lemma detector_candles_witness:
  "candles (fst (feed_all default_detector_config sample_events new_detector))
     = take_last 300 (butlast (reference_candles default_detector_config (accepted default_detector_config [] sample_events)))
   \<and> map o_sec (accepted default_detector_config [] sample_events) = [5, 7, 11]"
proof -
  have "list_all (\<lambda>r. r \<noteq> None) (snd (feed_all default_detector_config sample_events new_detector))" by code_simp
  then have n: "None \<notin> set (snd (feed_all default_detector_config sample_events new_detector))" by (auto simp: list_all_iff)
  have "max_history default_detector_config = 300" by (simp add: default_detector_config_def)
  moreover have "map o_sec (accepted default_detector_config [] sample_events) = [5, 7, 11]" by code_simp
  ultimately show ?thesis
    using detector_candles [OF surjective_pairing n] by (simp add: sample_events_def)
qed

subsection \<open>No look-ahead\<close>

definition candle_ok :: "detector_config \<Rightarrow> int \<Rightarrow> candle5s \<Rightarrow> bool" where
  "candle_ok cfg s c \<longleftrightarrow> c_ts_ms c = c_sec c * 1000 \<and> candle_seconds cfg dvd c_sec c \<and> c_sec c \<le> s \<and> c_low c \<le> c_high c"

definition det_inv :: "detector_config \<Rightarrow> detector \<Rightarrow> bool" where
  "det_inv cfg d \<longleftrightarrow> (case active_sec d of
     None \<Rightarrow> candles d = [] \<and> active d = None
   | Some s \<Rightarrow> candle_seconds cfg dvd s \<and> (\<forall>c \<in> set (candles d). candle_ok cfg s c) \<and> (\<forall>b. active d = Some b \<longrightarrow> candle_ok cfg s b))"

lemma det_inv_finalize:
  assumes "det_inv cfg d" shows "det_inv cfg (detector_finalize cfg d)" "active_sec (detector_finalize cfg d) = active_sec d"
  using assms set_deque_append [of "max_history cfg" "candles d"]
  by (fastforce simp: det_inv_def detector_finalize_def split: option.splits)+

lemma candle_ok_new:
  "o_low ev \<le> o_high ev \<Longrightarrow> candle_ok cfg (bucket_of cfg ev) (detector_new_bucket (bucket_of cfg ev) ev)"
  by (simp add: candle_ok_def detector_new_bucket_def bucket_of_def)

lemma candle_ok_merge: "candle_ok cfg s b \<Longrightarrow> candle_ok cfg s (bucket_merge b ev)"
  by (auto simp: candle_ok_def bucket_merge_def)

lemma candle_ok_le: "candle_ok cfg s c \<Longrightarrow> s \<le> t \<Longrightarrow> candle_ok cfg t c"
  by (simp add: candle_ok_def)

lemma det_inv_feed:
  assumes "det_inv cfg d" and "o_low ev \<le> o_high ev" shows "det_inv cfg (fst (feed_ohlcv_1s cfg ev d))"
proof (cases "active_sec d")
  case None
  then show ?thesis using assms candle_ok_new [OF assms(2)]
    by (simp add: feed_ohlcv_1s_def det_inv_def Let_def bucket_of_def)
next
  case (Some s)
  note fin = det_inv_finalize [OF assms(1)]
  have dvd: "candle_seconds cfg dvd bucket_of cfg ev" by (simp add: bucket_of_def)
  show ?thesis
  proof (cases "s < bucket_of cfg ev")
    case True
    let ?d1 = "detector_finalize cfg d"
    have "\<forall>c \<in> set (candles ?d1). candle_ok cfg (bucket_of cfg ev) c"
      using fin Some True by (auto simp: det_inv_def intro: candle_ok_le)
    then have "det_inv cfg (?d1\<lparr>active := Some (detector_new_bucket (bucket_of cfg ev) ev), active_sec := Some (bucket_of cfg ev)\<rparr>)"
      using candle_ok_new [OF assms(2)] dvd by (simp add: det_inv_def)
    then show ?thesis using fin Some True by (auto simp: feed_ohlcv_1s_def Let_def split: option.split)
  next
    case False
    then show ?thesis using assms Some
      by (auto simp: feed_ohlcv_1s_def Let_def det_inv_def split: option.split intro: candle_ok_merge)
  qed
qed

lemma det_inv_feed_all:
  "det_inv cfg d \<Longrightarrow> list_all (\<lambda>e. o_low e \<le> o_high e) evs \<Longrightarrow> det_inv cfg (fst (feed_all cfg evs d))"
  by (induction evs arbitrary: d) (auto simp: split_beta dest: det_inv_feed)

lemma signals_ts:
  assumes "detect_on_last cfg cs = Some out" and "s \<in> set out" shows "s_ts_ms s = c_ts_ms (last cs)"
proof -
  have g: "s_ts_ms x = c_ts_ms c3" if "fvg_gap cfg k c2 c3 l u = Some o1" "x \<in> set o1" for k c2 c3 l u o1 x
    using that by (auto simp: fvg_gap_def Let_def mk_signal_def split: if_splits)
  have ne: "cs \<noteq> []" using assms by (auto simp: detect_on_last_def)
  obtain fvg where f: "detect_fvg cfg cs = Some fvg"
    and o: "out = detect_sweep cfg cs (last cs) @ detect_mss cfg cs (last cs) @ fvg @ detect_ote cfg cs (last cs)"
    using assms(1) ne by (auto simp: detect_on_last_def Let_def)
  have "s_ts_ms x = c_ts_ms (last cs)" if "x \<in> set fvg" for x
    using f that g ne by (auto simp: detect_fvg_def Let_def last_conv_nth split: if_splits option.splits)
  moreover have "s_ts_ms x = c_ts_ms (last cs)" if "x \<in> set (detect_sweep cfg cs (last cs)) \<union> set (detect_mss cfg cs (last cs)) \<union> set (detect_ote cfg cs (last cs))" for x
    using that by (auto simp: detect_sweep_def detect_mss_def detect_ote_def Let_def mk_signal_def split: if_splits)
  ultimately show ?thesis using assms(2) o by auto
qed

definition kinds :: "signal list \<Rightarrow> signal_kind list" where
  "kinds out = map s_kind out"

lemma kinds_detect:
  assumes "detect_on_last cfg cs = Some out" and "\<forall>c \<in> set cs. c_low c \<le> c_high c"
  shows "\<not> {MSS_UP, MSS_DOWN} \<subseteq> set (kinds out)" "\<not> {FVG_BULLISH, FVG_BEARISH} \<subseteq> set (kinds out)"
proof -
  have ne: "cs \<noteq> [] \<or> out = []" using assms by (auto simp: detect_on_last_def)
  have sw: "set (kinds (detect_sweep cfg cs c)) \<subseteq> {SWEEP_UP, SWEEP_DOWN}" for c
    by (auto simp: kinds_def detect_sweep_def Let_def mk_signal_def)
  have ot: "set (kinds (detect_ote cfg cs c)) \<subseteq> {OTE_LONG, OTE_SHORT}" for c
    by (auto simp: kinds_def detect_ote_def Let_def mk_signal_def)
  have ms: "set (kinds (detect_mss cfg cs c)) \<in> {{}, {MSS_UP}, {MSS_DOWN}}" for c
    by (auto simp: kinds_def detect_mss_def Let_def mk_signal_def)
  have gap: "set (kinds o1) = {} \<or> l < u \<and> set (kinds o1) = {k}" if "fvg_gap cfg k c2 c3 l u = Some o1" for k c2 c3 l u o1
    using that by (auto simp: fvg_gap_def Let_def mk_signal_def kinds_def split: if_splits)
  have fv: "set (kinds fvg) \<in> {{}, {FVG_BULLISH}, {FVG_BEARISH}}" if f: "detect_fvg cfg cs = Some fvg" for fvg
  proof (cases "length cs < 3")
    case True
    then show ?thesis using f by (simp add: detect_fvg_def kinds_def)
  next
    case False
    let ?c1 = "cs ! (length cs - 3)" and ?c3 = "cs ! (length cs - 1)"
    obtain up down where ud: "fvg_gap cfg FVG_BULLISH (cs ! (length cs - 2)) ?c3 (c_high ?c1) (c_low ?c3) = Some up"
      "fvg_gap cfg FVG_BEARISH (cs ! (length cs - 2)) ?c3 (c_high ?c3) (c_low ?c1) = Some down" "fvg = up @ down"
      using f False by (auto simp: detect_fvg_def Let_def split: option.splits)
    have "?c1 \<in> set cs" "?c3 \<in> set cs" using False by auto
    then have "c_low ?c1 \<le> c_high ?c1" "c_low ?c3 \<le> c_high ?c3" using assms(2) by auto
    then show ?thesis using gap [OF ud(1)] gap [OF ud(2)] ud(3) by (auto simp: kinds_def)
  qed
  show "\<not> {MSS_UP, MSS_DOWN} \<subseteq> set (kinds out)" "\<not> {FVG_BULLISH, FVG_BEARISH} \<subseteq> set (kinds out)"
  proof (atomize (full), cases "cs = []")
    case True
    then show "\<not> {MSS_UP, MSS_DOWN} \<subseteq> set (kinds out) \<and> \<not> {FVG_BULLISH, FVG_BEARISH} \<subseteq> set (kinds out)" using ne by (simp add: kinds_def)
  next
    case False
    then obtain fvg where f: "detect_fvg cfg cs = Some fvg" and
      o: "out = detect_sweep cfg cs (last cs) @ detect_mss cfg cs (last cs) @ fvg @ detect_ote cfg cs (last cs)"
      using assms(1) by (auto simp: detect_on_last_def Let_def)
    have "set (kinds out) = set (kinds (detect_sweep cfg cs (last cs))) \<union> set (kinds (detect_mss cfg cs (last cs)))
        \<union> set (kinds fvg) \<union> set (kinds (detect_ote cfg cs (last cs)))" by (auto simp: o kinds_def)
    then show "\<not> {MSS_UP, MSS_DOWN} \<subseteq> set (kinds out) \<and> \<not> {FVG_BULLISH, FVG_BEARISH} \<subseteq> set (kinds out)"
      using sw [of "last cs"] ms [of "last cs"] ot [of "last cs"] fv [OF f] by auto
  qed
qed


text \<open>Lemma: after any well-formed one-second candles, raising feeds included, the signals a feed returns describe a bucket that had
  ended by the second of the event that triggered them; they never contain both shifts of structure, nor both gaps.\<close>

theorem detector_causal:
  assumes "list_all (\<lambda>e. o_low e \<le> o_high e) evs" and "0 < candle_seconds cfg"
    and "feed_ohlcv_1s cfg ev (fst (feed_all cfg evs new_detector)) = (d', Some out)" and "s \<in> set out"
  shows "s_ts_ms s + 1000 * candle_seconds cfg \<le> 1000 * o_sec ev
    \<and> \<not> {MSS_UP, MSS_DOWN} \<subseteq> set (kinds out) \<and> \<not> {FVG_BULLISH, FVG_BEARISH} \<subseteq> set (kinds out)"
proof -
  let ?d = "fst (feed_all cfg evs new_detector)" and ?b = "bucket_of cfg ev"
  have inv: "det_inv cfg ?d" by (rule det_inv_feed_all) (use assms(1) in \<open>simp_all add: det_inv_def new_detector_def\<close>)
  obtain sec where sec: "active_sec ?d = Some sec" "sec < ?b" "detect_on_last cfg (candles (detector_finalize cfg ?d)) = Some out"
    using assms(3,4) by (auto simp: feed_ohlcv_1s_def Let_def split: option.splits if_splits)
  let ?cs = "candles (detector_finalize cfg ?d)"
  have ok: "\<forall>c \<in> set ?cs. candle_ok cfg sec c" and dvd: "candle_seconds cfg dvd sec"
    using det_inv_finalize [OF inv] sec(1) by (simp_all add: det_inv_def)
  have "?cs \<noteq> []" using sec(3) assms(4) by (auto simp: detect_on_last_def)
  then have l: "candle_ok cfg sec (last ?cs)" using ok by simp
  have "candle_seconds cfg dvd ?b - c_sec (last ?cs)" "0 < ?b - c_sec (last ?cs)"
    using l sec(2) by (auto simp: candle_ok_def bucket_of_def)
  then have "candle_seconds cfg \<le> ?b - c_sec (last ?cs)" using assms(2) by (auto dest: zdvd_imp_le)
  moreover have "?b \<le> o_sec ev" unfolding bucket_of_def using assms(2)
    by (metis add.commute add_le_cancel_right add_0 div_mult_mod_eq pos_mod_sign)
  ultimately have "s_ts_ms s + 1000 * candle_seconds cfg \<le> 1000 * o_sec ev"
    using signals_ts [OF sec(3) assms(4)] l by (simp add: candle_ok_def)
  moreover have "\<forall>c \<in> set ?cs. c_low c \<le> c_high c" using ok by (simp add: candle_ok_def)
  ultimately show ?thesis using kinds_detect [OF sec(3)] by blast
qed

definition gap_events :: "ohlcv_event list" where
  "gap_events = [sample_event 0 10 8 9, sample_event 5 20 9 20, sample_event 10 40 30 35]"

lemma detector_causal_witness:
  "map s_ts_ms (the (snd (feed_ohlcv_1s default_detector_config (sample_event 16 40 30 35) (fst (feed_all default_detector_config gap_events new_detector)))))
     = [10000] \<and> 10000 + 1000 * (5 :: int) \<le> 1000 * 16"
proof -
  let ?r = "feed_ohlcv_1s default_detector_config (sample_event 16 40 30 35) (fst (feed_all default_detector_config gap_events new_detector))"
  have v: "map s_ts_ms (the (snd ?r)) = [10000] \<and> snd ?r \<noteq> None" by code_simp
  then obtain out where out: "snd ?r = Some out" by blast
  then obtain s where s: "s \<in> set out" "s_ts_ms s = 10000" using v by force
  have "10000 + 1000 * candle_seconds default_detector_config \<le> 1000 * o_sec (sample_event 16 40 30 35)"
    using detector_causal [of gap_events default_detector_config "sample_event 16 40 30 35" "fst ?r" out s] out s
    by (simp add: gap_events_def sample_event_def default_detector_config_def prod_eq_iff)
  then show ?thesis using v by (simp add: default_detector_config_def sample_event_def)
qed

subsection \<open>A zero close\<close>

text \<open>Lemma: a feed that raised leaves the detector without an open bucket, and from then on no event changes it again: events of an
  old bucket are ignored and every newer one raises on the same candles. Three candles with a gap around a zero close are enough.\<close>

theorem detector_wedged:
  assumes "snd (feed_ohlcv_1s cfg ev d) = None"
  shows "fst (feed_all cfg evs (fst (feed_ohlcv_1s cfg ev d))) = fst (feed_ohlcv_1s cfg ev d)
    \<and> set (snd (feed_all cfg evs (fst (feed_ohlcv_1s cfg ev d)))) \<subseteq> {None, Some []}"
proof -
  define w where "w = fst (feed_ohlcv_1s cfg ev d)"
  obtain s where "active_sec w = Some s" "active w = None" "detect_on_last cfg (candles w) = None"
    using assms by (auto simp: w_def feed_ohlcv_1s_def Let_def detector_finalize_def split: option.splits if_splits)
  then have "feed_ohlcv_1s cfg e w = (w, if s < bucket_of cfg e then None else Some [])" for e
    by (auto simp: feed_ohlcv_1s_def Let_def detector_finalize_def)
  then have "fst (feed_all cfg evs w) = w \<and> set (snd (feed_all cfg evs w)) \<subseteq> {None, Some []}"
    by (induction evs) (auto simp: split_beta)
  then show ?thesis unfolding w_def by blast
qed

definition zero_close :: "ohlcv_event list" where
  "zero_close = [sample_event 0 10 8 9, sample_event 5 20 0 0, sample_event 10 40 30 35]"

lemma detector_wedged_witness:
  "snd (feed_ohlcv_1s default_detector_config (sample_event 15 40 30 35) (fst (feed_all default_detector_config zero_close new_detector))) = None
   \<and> fst (feed_all default_detector_config gap_events (fst (feed_ohlcv_1s default_detector_config (sample_event 15 40 30 35)
        (fst (feed_all default_detector_config zero_close new_detector)))))
     = fst (feed_ohlcv_1s default_detector_config (sample_event 15 40 30 35) (fst (feed_all default_detector_config zero_close new_detector)))"
proof -
  have n: "snd (feed_ohlcv_1s default_detector_config (sample_event 15 40 30 35) (fst (feed_all default_detector_config zero_close new_detector))) = None"
    by code_simp
  show ?thesis using detector_wedged [OF n, of gap_events] n by blast
qed

end
