(* ===== verification/Strategy.thy ===== *)
theory Strategy
  imports Signal_Detector
begin

text \<open>
  \<^verbatim>\<open>src/backtest/strategy.py\<close>: the detector's signals, each kept with the time of the event that produced it, are
  combined into entries when the required kinds fall into one window. An exception of the detector passes through
  \<^verbatim>\<open>on_ohlcv\<close> before anything else happens, which is the value \<open>None\<close>.
\<close>

section \<open>State\<close>

record strategy_config =
  entry_window_ms :: int
  min_whale_trust :: int
  require_sweep :: bool
  require_mss :: bool
  require_fvg :: bool
  require_ote :: bool
  cooldown_ms :: int

definition default_strategy_config :: strategy_config where
  "default_strategy_config = \<lparr>entry_window_ms = 15000, min_whale_trust = 0, require_sweep = True, require_mss = True,
     require_fvg = True, require_ote = False, cooldown_ms = 60000\<rparr>"

datatype direction = Long | Short

record entry_signal =
  e_direction :: direction
  e_ts_ms :: int
  e_price :: rat
  e_reason :: string
  e_signals :: "signal_kind list"

record strategy =
  st_detector :: detector
  st_recent :: "(int \<times> signal) list"
  st_last_entry_ms :: "direction \<rightharpoonup> int"
  st_entries :: "entry_signal list"
  st_last_trust :: int
  st_last_oi_usdt :: rat
  st_last_funding_rate :: rat
  st_signal_counts :: "signal_kind \<Rightarrow> nat"
  st_last_rejection_reason :: "string option"

definition new_strategy :: "detector \<Rightarrow> strategy" where
  "new_strategy d = \<lparr>st_detector = d, st_recent = [], st_last_entry_ms = Map.empty, st_entries = [], st_last_trust = 0,
     st_last_oi_usdt = 0, st_last_funding_rate = 0, st_signal_counts = (\<lambda>k. 0), st_last_rejection_reason = None\<rparr>"

section \<open>Operations\<close>

definition record_signal :: "int \<Rightarrow> signal \<Rightarrow> strategy \<Rightarrow> strategy" where
  "record_signal ts s st = st\<lparr>st_recent := deque_append 200 (st_recent st) (ts, s),
     st_signal_counts := (st_signal_counts st)(s_kind s := st_signal_counts st (s_kind s) + 1)\<rparr>"

definition has_kind :: "signal_kind \<Rightarrow> (int \<times> signal) list \<Rightarrow> bool" where
  "has_kind k recent \<longleftrightarrow> list_ex (\<lambda>(t, s). s_kind s = k) recent"

fun sweep_of :: "direction \<Rightarrow> signal_kind" where "sweep_of Long = SWEEP_DOWN" | "sweep_of Short = SWEEP_UP"
fun mss_of :: "direction \<Rightarrow> signal_kind" where "mss_of Long = MSS_UP" | "mss_of Short = MSS_DOWN"
fun fvg_of :: "direction \<Rightarrow> signal_kind" where "fvg_of Long = FVG_BULLISH" | "fvg_of Short = FVG_BEARISH"
fun ote_of :: "direction \<Rightarrow> signal_kind" where "ote_of Long = OTE_LONG" | "ote_of Short = OTE_SHORT"
fun reason_of :: "direction \<Rightarrow> string" where
  "reason_of Long = ''sweep+mss+fvg aligned long''"
| "reason_of Short = ''sweep+mss+fvg aligned short''"

definition aligned :: "strategy_config \<Rightarrow> direction \<Rightarrow> (int \<times> signal) list \<Rightarrow> bool" where
  "aligned cfg dir recent \<longleftrightarrow>
     (\<not> require_sweep cfg \<or> has_kind (sweep_of dir) recent) \<and> (\<not> require_mss cfg \<or> has_kind (mss_of dir) recent)
     \<and> (\<not> require_fvg cfg \<or> has_kind (fvg_of dir) recent) \<and> (\<not> require_ote cfg \<or> has_kind (ote_of dir) recent)"

text \<open>One direction of \<^verbatim>\<open>_try_entry\<close>: the new entries, and whether the cooldown blocked one.\<close>

definition try_direction ::
  "strategy_config \<Rightarrow> int \<Rightarrow> rat \<Rightarrow> (int \<times> signal) list \<Rightarrow> direction \<Rightarrow> (direction \<rightharpoonup> int) \<Rightarrow> (direction \<rightharpoonup> int) \<times> entry_signal list \<times> bool" where
  "try_direction cfg ts_ms price recent dir last_map =
     (if aligned cfg dir recent then
        (let prev = (case last_map dir of Some t \<Rightarrow> t | None \<Rightarrow> 0)
         in if cooldown_ms cfg \<le> ts_ms - prev
            then (last_map(dir \<mapsto> ts_ms),
                  [\<lparr>e_direction = dir, e_ts_ms = ts_ms, e_price = price, e_reason = reason_of dir, e_signals = map (s_kind \<circ> snd) recent\<rparr>], False)
            else (last_map, [], True))
      else (last_map, [], False))"

definition recent_window :: "strategy_config \<Rightarrow> int \<Rightarrow> strategy \<Rightarrow> (int \<times> signal) list" where
  "recent_window cfg ts_ms st = filter (\<lambda>(t, s). ts_ms - entry_window_ms cfg \<le> t) (st_recent st)"

definition try_entry :: "strategy_config \<Rightarrow> int \<Rightarrow> rat \<Rightarrow> strategy \<Rightarrow> strategy \<times> entry_signal list" where
  "try_entry cfg ts_ms price st =
     (let st0 = st\<lparr>st_last_rejection_reason := None\<rparr>;
          recent = recent_window cfg ts_ms st
      in if st_last_trust st < min_whale_trust cfg then (st0, [])
         else if recent = [] then (st0, [])
         else (let (m1, out1, b1) = try_direction cfg ts_ms price recent Long (st_last_entry_ms st);
                   (m2, out2, b2) = try_direction cfg ts_ms price recent Short m1;
                   out = out1 @ out2
               in (st0\<lparr>st_last_entry_ms := m2,
                      st_last_rejection_reason := (if out = [] \<and> (b1 \<or> b2) then Some ''cooldown_active'' else None)\<rparr>, out)))"

definition strategy_on_ohlcv :: "strategy_config \<Rightarrow> detector_config \<Rightarrow> ohlcv_event \<Rightarrow> strategy \<Rightarrow> strategy \<times> entry_signal list option" where
  "strategy_on_ohlcv cfg dcfg ev st =
     (case feed_ohlcv_1s dcfg ev (st_detector st) of
        (d, None) \<Rightarrow> (st\<lparr>st_detector := d\<rparr>, None)
      | (d, Some signals) \<Rightarrow>
          (let st1 = fold (record_signal (o_ts_ms ev)) signals (st\<lparr>st_detector := d\<rparr>);
               (st2, new_entries) = try_entry cfg (o_ts_ms ev) (o_close ev) st1
           in (st2\<lparr>st_entries := st_entries st2 @ new_entries\<rparr>, Some new_entries)))"

definition strategy_on_ticker :: "ticker_event \<Rightarrow> strategy \<Rightarrow> strategy" where
  "strategy_on_ticker ev st = st\<lparr>st_last_oi_usdt := t_oi_usdt ev, st_last_funding_rate := t_funding_rate ev\<rparr>"

definition strategy_finalize :: "detector_config \<Rightarrow> strategy \<Rightarrow> strategy \<times> bool" where
  "strategy_finalize dcfg st =
     (case detector_flush dcfg (st_detector st) of
        (d, None) \<Rightarrow> (st\<lparr>st_detector := d\<rparr>, False)
      | (d, Some signals) \<Rightarrow> (fold (\<lambda>s. record_signal (s_ts_ms s) s) signals (st\<lparr>st_detector := d\<rparr>), True))"

section \<open>Entries\<close>

text \<open>A run of the strategy, with the signals each second candle produced.\<close>

inductive strategy_run :: "strategy_config \<Rightarrow> detector_config \<Rightarrow> strategy \<Rightarrow> (int \<times> signal) list \<Rightarrow> bool" for cfg dcfg where
  start: "strategy_run cfg dcfg (new_strategy d) []"
| ohlcv: "strategy_run cfg dcfg st h \<Longrightarrow> strategy_on_ohlcv cfg dcfg ev st = (st', Some out) \<Longrightarrow>
    snd (feed_ohlcv_1s dcfg ev (st_detector st)) = Some sigs \<Longrightarrow> strategy_run cfg dcfg st' (h @ map (Pair (o_ts_ms ev)) sigs)"
| raised: "strategy_run cfg dcfg st h \<Longrightarrow> strategy_on_ohlcv cfg dcfg ev st = (st', None) \<Longrightarrow> strategy_run cfg dcfg st' h"
| ticker: "strategy_run cfg dcfg st h \<Longrightarrow> strategy_run cfg dcfg (strategy_on_ticker ev st) h"

inductive_cases strategy_runE: "strategy_run cfg dcfg st h"

text \<open>The entry times of one direction, oldest first.\<close>

definition entry_times :: "direction \<Rightarrow> entry_signal list \<Rightarrow> int list" where
  "entry_times dir es = map e_ts_ms (filter (\<lambda>e. e_direction e = dir) es)"

lemma record_signals_fields [simp]:
  "st_entries (fold (record_signal t) sigs st) = st_entries st" "st_last_entry_ms (fold (record_signal t) sigs st) = st_last_entry_ms st"
  "st_last_trust (fold (record_signal t) sigs st) = st_last_trust st"
  by (induction sigs arbitrary: st) (simp_all add: record_signal_def)

lemma deque_append_take: "deque_append n (take_last n xs) x = take_last n (xs @ [x])"
  by (simp add: deque_append_def take_last_snoc)

lemma record_signals_recent:
  "st_recent st = take_last 200 h \<Longrightarrow> st_recent (fold (record_signal t) sigs st) = take_last 200 (h @ map (Pair t) sigs)"
proof (induction sigs arbitrary: st h)
  case (Cons s sigs)
  have "st_recent (record_signal t s st) = take_last 200 (h @ [(t, s)])"
    by (simp add: record_signal_def Cons.prems deque_append_take)
  from Cons.IH [OF this] show ?case by simp
qed simp

definition spaced :: "int \<Rightarrow> int list \<Rightarrow> bool" where
  "spaced gap ts \<longleftrightarrow> successively (\<lambda>a b. gap \<le> b - a) (0 # ts)"

lemma spaced_snoc: "spaced gap (ts @ [t]) \<longleftrightarrow> spaced gap ts \<and> gap \<le> t - last (0 # ts)"
  using successively_append_iff [of "\<lambda>a b. gap \<le> b - a" "0 # ts" "[t]"] by (simp add: spaced_def)

definition last_time :: "direction \<Rightarrow> entry_signal list \<Rightarrow> int" where
  "last_time dir es = last (0 # entry_times dir es)"

definition entries_inv :: "strategy_config \<Rightarrow> entry_signal list \<Rightarrow> (direction \<rightharpoonup> int) \<Rightarrow> bool" where
  "entries_inv cfg es m \<longleftrightarrow> (\<forall>dir. spaced (cooldown_ms cfg) (entry_times dir es)
     \<and> last_time dir es = (case m dir of Some t \<Rightarrow> t | None \<Rightarrow> 0))"

definition entry_for :: "strategy_config \<Rightarrow> int \<Rightarrow> rat \<Rightarrow> (int \<times> signal) list \<Rightarrow> entry_signal list \<Rightarrow> direction \<Rightarrow> entry_signal list" where
  "entry_for cfg ts price w es dir =
     (if aligned cfg dir w \<and> cooldown_ms cfg \<le> ts - last_time dir es
      then [\<lparr>e_direction = dir, e_ts_ms = ts, e_price = price, e_reason = reason_of dir, e_signals = map (s_kind \<circ> snd) w\<rparr>] else [])"

lemma entry_times_append [simp]: "entry_times dir (xs @ ys) = entry_times dir xs @ entry_times dir ys"
  by (simp add: entry_times_def)

lemma try_direction_entry:
  assumes inv: "entries_inv cfg es m" and t: "try_direction cfg ts price w dir m = (m', out, b)"
  shows "out = entry_for cfg ts price w es dir \<and> entries_inv cfg (es @ out) m'"
proof -
  have prev: "(case m dir of Some t \<Rightarrow> t | None \<Rightarrow> 0) = last_time dir es" using inv by (simp add: entries_inv_def)
  show ?thesis
  proof (cases "aligned cfg dir w \<and> cooldown_ms cfg \<le> ts - last_time dir es")
    case True
    then have t': "m' = m(dir \<mapsto> ts)" "out = entry_for cfg ts price w es dir" using t prev
      by (auto simp: try_direction_def entry_for_def Let_def)
    have "entry_times d out = (if d = dir then [ts] else [])" for d
      using True by (simp add: t' entry_for_def entry_times_def)
    then have et: "entry_times d (es @ out) = (if d = dir then entry_times d es @ [ts] else entry_times d es)" for d
      by simp
    have i: "spaced (cooldown_ms cfg) (entry_times d es)" "last_time d es = (case m d of Some t \<Rightarrow> t | None \<Rightarrow> 0)" for d
      using inv by (simp_all add: entries_inv_def)
    have c: "cooldown_ms cfg \<le> ts - (case m dir of Some t \<Rightarrow> t | None \<Rightarrow> 0)" using True unfolding i(2) by simp
    have "spaced (cooldown_ms cfg) (entry_times d (es @ out)) \<and> last_time d (es @ out) = (case m' d of Some t \<Rightarrow> t | None \<Rightarrow> 0)" for d
      by (cases "d = dir") (simp_all add: et spaced_snoc i c t'(1) last_time_def i [unfolded last_time_def] del: last.simps entry_times_append, simp)
    then have "entries_inv cfg (es @ out) m'" by (simp add: entries_inv_def)
    with t' show ?thesis by simp
  next
    case False
    then show ?thesis using t prev inv by (auto simp: try_direction_def entry_for_def Let_def split: if_splits)
  qed
qed

lemma last_time_other: "dir \<noteq> d \<Longrightarrow> last_time dir (es @ entry_for cfg ts price w es' d) = last_time dir es"
  by (simp add: last_time_def entry_for_def entry_times_def)

lemma entry_for_cong: "last_time dir es = last_time dir es' \<Longrightarrow> entry_for cfg ts price w es dir = entry_for cfg ts price w es' dir"
  by (simp add: entry_for_def)

lemma try_entry_rule:
  assumes inv: "entries_inv cfg (st_entries st) (st_last_entry_ms st)" and t: "try_entry cfg ts price st = (st', out)"
  defines "w \<equiv> recent_window cfg ts st"
  shows "out = (if st_last_trust st < min_whale_trust cfg \<or> w = [] then []
       else entry_for cfg ts price w (st_entries st) Long @ entry_for cfg ts price w (st_entries st) Short)
    \<and> entries_inv cfg (st_entries st @ out) (st_last_entry_ms st') \<and> st_entries st' = st_entries st
    \<and> st_last_trust st' = st_last_trust st \<and> st_recent st' = st_recent st"
proof (cases "st_last_trust st < min_whale_trust cfg \<or> w = []")
  case True
  then show ?thesis using t inv by (auto simp: try_entry_def Let_def w_def split: if_splits)
next
  case False
  obtain m1 out1 b1 where 1: "try_direction cfg ts price w Long (st_last_entry_ms st) = (m1, out1, b1)" by (metis prod_cases3)
  obtain m2 out2 b2 where 2: "try_direction cfg ts price w Short m1 = (m2, out2, b2)" by (metis prod_cases3)
  note e1 = try_direction_entry [OF inv 1]
  note e2 = try_direction_entry [OF conjunct2 [OF e1] 2]
  have "out = out1 @ out2 \<and> st_last_entry_ms st' = m2 \<and> st_entries st' = st_entries st \<and> st_last_trust st' = st_last_trust st \<and> st_recent st' = st_recent st"
    using t False by (auto simp: try_entry_def Let_def w_def [symmetric] 1 2)
  moreover have "out2 = entry_for cfg ts price w (st_entries st) Short"
    using e1 e2 by (metis entry_for_cong last_time_other direction.distinct(2))
  ultimately show ?thesis using e1 e2 False by auto
qed

lemma on_ohlcv_rule:
  assumes inv: "entries_inv cfg (st_entries st) (st_last_entry_ms st)" and h: "st_recent st = take_last 200 h" and tr: "st_last_trust st = 0"
    and r: "strategy_on_ohlcv cfg dcfg ev st = (st', Some out)" and f: "snd (feed_ohlcv_1s dcfg ev (st_detector st)) = Some sigs"
  defines "w \<equiv> filter (\<lambda>(t, s). o_ts_ms ev - entry_window_ms cfg \<le> t) (take_last 200 (h @ map (Pair (o_ts_ms ev)) sigs))"
  shows "out = (if 0 < min_whale_trust cfg \<or> w = [] then []
       else entry_for cfg (o_ts_ms ev) (o_close ev) w (st_entries st) Long @ entry_for cfg (o_ts_ms ev) (o_close ev) w (st_entries st) Short)
    \<and> st_entries st' = st_entries st @ out \<and> entries_inv cfg (st_entries st') (st_last_entry_ms st')
    \<and> st_recent st' = take_last 200 (h @ map (Pair (o_ts_ms ev)) sigs) \<and> st_last_trust st' = 0"
proof -
  obtain d where d: "feed_ohlcv_1s dcfg ev (st_detector st) = (d, Some sigs)" using f by (metis prod.collapse)
  define st1 where "st1 = fold (record_signal (o_ts_ms ev)) sigs (st\<lparr>st_detector := d\<rparr>)"
  obtain st2 new where 2: "try_entry cfg (o_ts_ms ev) (o_close ev) st1 = (st2, new)" by (metis surj_pair)
  have s1: "st_entries st1 = st_entries st" "st_last_entry_ms st1 = st_last_entry_ms st" "st_last_trust st1 = 0"
    "st_recent st1 = take_last 200 (h @ map (Pair (o_ts_ms ev)) sigs)"
    using tr h record_signals_recent [of "st\<lparr>st_detector := d\<rparr>" h] by (simp_all add: st1_def)
  have "st' = st2\<lparr>st_entries := st_entries st2 @ new\<rparr>" "out = new"
    using r 2 by (auto simp: strategy_on_ohlcv_def d st1_def Let_def)
  moreover have "recent_window cfg (o_ts_ms ev) st1 = w" by (simp add: recent_window_def s1 w_def)
  moreover note try_entry_rule [OF inv [folded s1(1,2)] 2, unfolded s1]
  ultimately show ?thesis by auto
qed

lemma strategy_run_inv:
  "strategy_run cfg dcfg st h \<Longrightarrow> entries_inv cfg (st_entries st) (st_last_entry_ms st) \<and> st_recent st = take_last 200 h
     \<and> st_last_trust st = 0 \<and> (0 < min_whale_trust cfg \<longrightarrow> st_entries st = [])"
proof (induction rule: strategy_run.induct)
  case (start d)
  show ?case by (simp add: new_strategy_def entries_inv_def last_time_def entry_times_def spaced_def take_last_def)
next
  case (ohlcv st h ev st' out sigs)
  then show ?case using on_ohlcv_rule [of cfg st h dcfg ev st' out sigs] by auto
next
  case (raised st h ev st')
  then have "st_entries st' = st_entries st \<and> st_last_entry_ms st' = st_last_entry_ms st \<and> st_recent st' = st_recent st \<and> st_last_trust st' = st_last_trust st"
    by (auto simp: strategy_on_ohlcv_def Let_def split: prod.splits option.splits)
  with raised show ?case by simp
next
  case (ticker st h ev)
  then show ?case by (simp add: strategy_on_ticker_def)
qed

section \<open>Properties\<close>

text \<open>C27: in every run two successive entries in the same direction, and the start of the clock and the first one, are at least the
  cooldown apart; with a positive whale trust required there is never any entry, since no operation raises the trust.\<close>

theorem strategy_spacing:
  assumes "strategy_run cfg dcfg st h"
  shows "successively (\<lambda>a b. cooldown_ms cfg \<le> b - a) (0 # entry_times dir (st_entries st))
    \<and> (0 < min_whale_trust cfg \<longrightarrow> st_entries st = [])"
  using strategy_run_inv [OF assms] by (simp add: entries_inv_def spaced_def)

text \<open>Lemma: what a second candle enters is decided by the last two hundred signals of the run and the entries so far: in each
  direction one entry, at the candle's time and close, exactly when every required kind occurs within the window before it and
  the cooldown since the last entry in that direction (since 0 if there was none) has passed.\<close>

theorem strategy_entry_rule:
  assumes "strategy_run cfg dcfg st h" and "strategy_on_ohlcv cfg dcfg ev st = (st', Some out)"
    and "snd (feed_ohlcv_1s dcfg ev (st_detector st)) = Some sigs"
  defines "w \<equiv> filter (\<lambda>(t, s). o_ts_ms ev - entry_window_ms cfg \<le> t) (take_last 200 (h @ map (Pair (o_ts_ms ev)) sigs))"
  shows "st_entries st' = st_entries st @ out
    \<and> out = (if 0 < min_whale_trust cfg \<or> w = [] then [] else
       concat (map (\<lambda>dir. if aligned cfg dir w \<and> cooldown_ms cfg \<le> o_ts_ms ev - last (0 # entry_times dir (st_entries st))
         then [\<lparr>e_direction = dir, e_ts_ms = o_ts_ms ev, e_price = o_close ev, e_reason = reason_of dir, e_signals = map (s_kind \<circ> snd) w\<rparr>]
         else []) [Long, Short]))"
  using on_ohlcv_rule [OF _ _ _ assms(2,3)] strategy_run_inv [OF assms(1)]
  by (simp add: w_def entry_for_def last_time_def)

definition gap_only :: strategy_config where
  "gap_only = \<lparr>entry_window_ms = 15000, min_whale_trust = 0, require_sweep = False, require_mss = False,
     require_fvg = True, require_ote = False, cooldown_ms = 10000\<rparr>"

definition primed :: strategy where
  "primed = new_strategy (fst (feed_all default_detector_config gap_events new_detector))"

lemma strategy_spacing_witness:
  "entry_times Long (st_entries (fst (strategy_on_ohlcv gap_only default_detector_config (sample_event 16 40 30 35) primed))) = [16000]
   \<and> successively (\<lambda>a b. (10000 :: int) \<le> b - a) [0, 16000]"
proof -
  let ?r = "strategy_on_ohlcv gap_only default_detector_config (sample_event 16 40 30 35) primed"
  let ?f = "feed_ohlcv_1s default_detector_config (sample_event 16 40 30 35) (st_detector primed)"
  have v: "entry_times Long (st_entries (fst ?r)) = [16000] \<and> snd ?r \<noteq> None \<and> snd ?f \<noteq> None" by code_simp
  have run: "strategy_run gap_only default_detector_config (fst ?r) ([] @ map (Pair (o_ts_ms (sample_event 16 40 30 35))) (the (snd ?f)))"
    by (rule strategy_run.ohlcv [of _ _ primed _ _ _ "the (snd ?r)"]) (use v in \<open>auto simp: primed_def intro: strategy_run.start\<close>)
  from strategy_spacing [OF run, of Long] v show ?thesis by (simp add: gap_only_def)
qed

lemma strategy_entry_rule_witness:
  "map e_direction (the (snd (strategy_on_ohlcv gap_only default_detector_config (sample_event 16 40 30 35) primed))) = [Long]
   \<and> st_entries (fst (strategy_on_ohlcv gap_only default_detector_config (sample_event 16 40 30 35) primed))
     = st_entries primed @ the (snd (strategy_on_ohlcv gap_only default_detector_config (sample_event 16 40 30 35) primed))"
proof -
  let ?r = "strategy_on_ohlcv gap_only default_detector_config (sample_event 16 40 30 35) primed"
  let ?f = "feed_ohlcv_1s default_detector_config (sample_event 16 40 30 35) (st_detector primed)"
  have v: "map e_direction (the (snd ?r)) = [Long] \<and> snd ?r \<noteq> None \<and> snd ?f \<noteq> None" by code_simp
  have "st_entries (fst ?r) = st_entries primed @ the (snd ?r)"
    by (rule conjunct1 [OF strategy_entry_rule [where h = "[]" and sigs = "the (snd ?f)"]])
       (use v in \<open>auto simp: primed_def intro: strategy_run.start\<close>)
  with v show ?thesis by simp
qed

end
