(* ===== verification/Backtest_Engine.thy ===== *)
theory Backtest_Engine
  imports Strategy
begin

text \<open>
  \<^verbatim>\<open>src/backtest/engine.py\<close>: the events of the replay stream are handed to the registered callbacks. A callback is
  a function of the event and the shared state that may also return the type name of the exception it raised; the
  engine counts it and goes on. Clock readings are arguments.
\<close>

section \<open>The engine\<close>

record backtest_stats =
  events_total :: nat
  ohlcv_count :: nat
  depth_count :: nat
  ticker_count :: nat
  wall_start_ms :: int
  wall_end_ms :: int
  wall_elapsed_s :: rat
  callback_errors :: nat
  errors_by_type :: "(string, nat) dict"

definition new_stats :: backtest_stats where
  "new_stats = \<lparr>events_total = 0, ohlcv_count = 0, depth_count = 0, ticker_count = 0, wall_start_ms = 0, wall_end_ms = 0,
     wall_elapsed_s = 0, callback_errors = 0, errors_by_type = []\<rparr>"

type_synonym ('e, 's) callback = "'e \<Rightarrow> 's \<Rightarrow> 's \<times> string option"

record 's engine =
  on_ohlcv_cbs :: "(ohlcv_event, 's) callback list"
  on_depth_cbs :: "(depth_event, 's) callback list"
  on_ticker_cbs :: "(ticker_event, 's) callback list"

definition new_engine :: "'s engine" where
  "new_engine = \<lparr>on_ohlcv_cbs = [], on_depth_cbs = [], on_ticker_cbs = []\<rparr>"

definition register_ohlcv :: "(ohlcv_event, 's) callback \<Rightarrow> 's engine \<Rightarrow> 's engine" where
  "register_ohlcv cb en = en\<lparr>on_ohlcv_cbs := on_ohlcv_cbs en @ [cb]\<rparr>"

definition register_depth :: "(depth_event, 's) callback \<Rightarrow> 's engine \<Rightarrow> 's engine" where
  "register_depth cb en = en\<lparr>on_depth_cbs := on_depth_cbs en @ [cb]\<rparr>"

definition register_ticker :: "(ticker_event, 's) callback \<Rightarrow> 's engine \<Rightarrow> 's engine" where
  "register_ticker cb en = en\<lparr>on_ticker_cbs := on_ticker_cbs en @ [cb]\<rparr>"

definition note_error :: "string option \<Rightarrow> backtest_stats \<Rightarrow> backtest_stats" where
  "note_error err stats = (case err of
     None \<Rightarrow> stats
   | Some name \<Rightarrow> stats\<lparr>callback_errors := callback_errors stats + 1,
       errors_by_type := dset (errors_by_type stats) name ((case dget (errors_by_type stats) name of Some n \<Rightarrow> n | None \<Rightarrow> 0) + 1)\<rparr>)"

fun call_all :: "('e, 's) callback list \<Rightarrow> 'e \<Rightarrow> backtest_stats \<times> 's \<Rightarrow> backtest_stats \<times> 's" where
  "call_all [] ev (stats, s) = (stats, s)"
| "call_all (cb # cbs) ev (stats, s) = (let (s', err) = cb ev s in call_all cbs ev (note_error err stats, s'))"

fun dispatch :: "'s engine \<Rightarrow> any_event \<Rightarrow> backtest_stats \<times> 's \<Rightarrow> backtest_stats \<times> 's" where
  "dispatch en (Ohlcv ev) (stats, s) = call_all (on_ohlcv_cbs en) ev (stats\<lparr>ohlcv_count := ohlcv_count stats + 1\<rparr>, s)"
| "dispatch en (Depth ev) (stats, s) = call_all (on_depth_cbs en) ev (stats\<lparr>depth_count := depth_count stats + 1\<rparr>, s)"
| "dispatch en (Ticker ev) (stats, s) = call_all (on_ticker_cbs en) ev (stats\<lparr>ticker_count := ticker_count stats + 1\<rparr>, s)"

definition engine_step :: "'s engine \<Rightarrow> any_event \<Rightarrow> backtest_stats \<times> 's \<Rightarrow> backtest_stats \<times> 's" where
  "engine_step en ev st = dispatch en ev (fst st\<lparr>events_total := events_total (fst st) + 1\<rparr>, snd st)"

definition engine_run :: "'s engine \<Rightarrow> replay_db \<Rightarrow> string \<Rightarrow> int \<Rightarrow> int \<Rightarrow> rat \<Rightarrow> rat \<Rightarrow> 's \<Rightarrow> backtest_stats \<times> 's" where
  "engine_run en db symbol ts_from ts_to t0 t1 s =
     (let (stats, s') = fold (engine_step en) (replay_stream db symbol ts_from ts_to)
            (new_stats\<lparr>wall_start_ms := ts_from, wall_end_ms := ts_to\<rparr>, s)
      in (stats\<lparr>wall_elapsed_s := fsub t1 t0\<rparr>, s'))"

section \<open>Every callback sees every event\<close>

text \<open>The state the callbacks would leave if none of them could raise.\<close>

fun apply_event :: "'s engine \<Rightarrow> any_event \<Rightarrow> 's \<Rightarrow> 's" where
  "apply_event en (Ohlcv ev) s = foldl (\<lambda>s cb. fst (cb ev s)) s (on_ohlcv_cbs en)"
| "apply_event en (Depth ev) s = foldl (\<lambda>s cb. fst (cb ev s)) s (on_depth_cbs en)"
| "apply_event en (Ticker ev) s = foldl (\<lambda>s cb. fst (cb ev s)) s (on_ticker_cbs en)"

definition count_kind :: "int \<Rightarrow> any_event list \<Rightarrow> nat" where
  "count_kind r evs = length (filter (\<lambda>ev. event_rank ev = r) evs)"

definition errors_match :: "backtest_stats \<Rightarrow> bool" where
  "errors_match stats \<longleftrightarrow> wf_dict (errors_by_type stats) \<and> callback_errors stats = sum_list (map snd (errors_by_type stats))"

lemma sum_dset_new: "dget d k = None \<Longrightarrow> sum_list (map snd (dset d k v)) = sum_list (map snd d) + (v :: nat)"
  by (simp add: dset_new dget_None_iff)

lemma sum_dset_old: "wf_dict d \<Longrightarrow> dget d k = Some n \<Longrightarrow> sum_list (map snd (dset d k (Suc n))) = Suc (sum_list (map snd d))"
  by (induction d) (auto simp: dset_def dget_def wf_dict_def keys_def split: if_splits)

lemma note_error_match: "errors_match stats \<Longrightarrow> errors_match (note_error err stats)"
  by (auto simp: errors_match_def note_error_def sum_dset_new sum_dset_old split: option.split)

lemma note_error_counts [simp]:
  "events_total (note_error err stats) = events_total stats" "ohlcv_count (note_error err stats) = ohlcv_count stats"
  "depth_count (note_error err stats) = depth_count stats" "ticker_count (note_error err stats) = ticker_count stats"
  by (simp_all add: note_error_def split: option.split)

definition kept :: "backtest_stats \<Rightarrow> backtest_stats \<Rightarrow> bool" where
  "kept a b \<longleftrightarrow> events_total b = events_total a \<and> ohlcv_count b = ohlcv_count a \<and> depth_count b = depth_count a
     \<and> ticker_count b = ticker_count a \<and> (errors_match a \<longrightarrow> errors_match b)"

lemma call_all_kept: "kept stats (fst (call_all cbs ev (stats, s))) \<and> snd (call_all cbs ev (stats, s)) = foldl (\<lambda>s cb. fst (cb ev s)) s cbs"
proof (induction cbs arbitrary: stats s)
  case (Cons cb cbs)
  from Cons.IH [of "note_error (snd (cb ev s)) stats" "fst (cb ev s)"] show ?case
    by (auto simp: split_beta kept_def note_error_match)
qed (simp add: kept_def)

lemma engine_step_result:
  "snd (engine_step en ev st) = apply_event en ev (snd st)
   \<and> events_total (fst (engine_step en ev st)) = Suc (events_total (fst st))
   \<and> ohlcv_count (fst (engine_step en ev st)) = ohlcv_count (fst st) + count_kind 0 [ev]
   \<and> depth_count (fst (engine_step en ev st)) = depth_count (fst st) + count_kind 1 [ev]
   \<and> ticker_count (fst (engine_step en ev st)) = ticker_count (fst st) + count_kind 2 [ev]
   \<and> (errors_match (fst st) \<longrightarrow> errors_match (fst (engine_step en ev st)))"
proof (cases ev)
  case (Ohlcv e)
  then show ?thesis
    using call_all_kept [of "(fst st)\<lparr>events_total := Suc (events_total (fst st)), ohlcv_count := ohlcv_count (fst st) + 1\<rparr>" "on_ohlcv_cbs en" e "snd st"]
    by (auto simp: engine_step_def kept_def count_kind_def errors_match_def)
next
  case (Depth e)
  then show ?thesis
    using call_all_kept [of "(fst st)\<lparr>events_total := Suc (events_total (fst st)), depth_count := depth_count (fst st) + 1\<rparr>" "on_depth_cbs en" e "snd st"]
    by (auto simp: engine_step_def kept_def count_kind_def errors_match_def)
next
  case (Ticker e)
  then show ?thesis
    using call_all_kept [of "(fst st)\<lparr>events_total := Suc (events_total (fst st)), ticker_count := ticker_count (fst st) + 1\<rparr>" "on_ticker_cbs en" e "snd st"]
    by (auto simp: engine_step_def kept_def count_kind_def errors_match_def)
qed

lemma engine_fold_result:
  "snd (fold (engine_step en) evs st) = fold (apply_event en) evs (snd st)
   \<and> events_total (fst (fold (engine_step en) evs st)) = events_total (fst st) + length evs
   \<and> ohlcv_count (fst (fold (engine_step en) evs st)) = ohlcv_count (fst st) + count_kind 0 evs
   \<and> depth_count (fst (fold (engine_step en) evs st)) = depth_count (fst st) + count_kind 1 evs
   \<and> ticker_count (fst (fold (engine_step en) evs st)) = ticker_count (fst st) + count_kind 2 evs
   \<and> (errors_match (fst st) \<longrightarrow> errors_match (fst (fold (engine_step en) evs st)))"
proof (induction evs arbitrary: st)
  case (Cons ev evs)
  have c: "count_kind r (ev # evs) = count_kind r [ev] + count_kind r evs" for r by (simp add: count_kind_def)
  show ?case using Cons.IH [of "engine_step en ev st"] engine_step_result [of en ev st] unfolding c by simp
qed (simp add: count_kind_def)

text \<open>Lemma: whatever the callbacks raise, every callback is applied to every event of its kind, in the order of the stream
  and of registration; the event counts are those of the stream, and the errors counted are the sum of the counts by type.\<close>

theorem engine_isolates_errors:
  fixes en db symbol a b t0 t1 s
  defines "evs \<equiv> replay_stream db symbol a b" and "r \<equiv> engine_run en db symbol a b t0 t1 s"
  shows "snd r = fold (apply_event en) evs s \<and> events_total (fst r) = length evs
    \<and> events_total (fst r) = ohlcv_count (fst r) + depth_count (fst r) + ticker_count (fst r)
    \<and> callback_errors (fst r) = sum_list (map snd (errors_by_type (fst r)))"
proof -
  let ?st0 = "(new_stats\<lparr>wall_start_ms := a, wall_end_ms := b\<rparr>, s)"
  have e0: "errors_match (fst ?st0)" by (simp add: errors_match_def new_stats_def)
  have r: "snd r = snd (fold (engine_step en) evs ?st0)" "fst r = fst (fold (engine_step en) evs ?st0)\<lparr>wall_elapsed_s := fsub t1 t0\<rparr>"
    by (simp_all add: r_def evs_def engine_run_def split_beta)
  have "length evs = count_kind 0 evs + count_kind 1 evs + count_kind 2 evs"
  proof (induction evs)
    case (Cons ev evs)
    then show ?case by (cases ev) (simp_all add: count_kind_def)
  qed (simp add: count_kind_def)
  with engine_fold_result [of en evs ?st0] e0 show ?thesis
    unfolding r errors_match_def by (simp add: new_stats_def)
qed

section \<open>The strategy under the engine\<close>

definition strategy_callback :: "strategy_config \<Rightarrow> detector_config \<Rightarrow> (ohlcv_event, strategy) callback" where
  "strategy_callback cfg dcfg ev st = (case strategy_on_ohlcv cfg dcfg ev st of
     (st', None) \<Rightarrow> (st', Some ''ZeroDivisionError'')
   | (st', Some out) \<Rightarrow> (st', None))"

definition ticker_callback :: "(ticker_event, strategy) callback" where
  "ticker_callback ev st = (strategy_on_ticker ev st, None)"

definition strategy_engine :: "strategy_config \<Rightarrow> detector_config \<Rightarrow> strategy engine" where
  "strategy_engine cfg dcfg = register_ticker ticker_callback (register_ohlcv (strategy_callback cfg dcfg) new_engine)"

lemma strategy_engine_cbs [simp]:
  "on_ohlcv_cbs (strategy_engine cfg dcfg) = [strategy_callback cfg dcfg]" "on_depth_cbs (strategy_engine cfg dcfg) = []"
  "on_ticker_cbs (strategy_engine cfg dcfg) = [ticker_callback]"
  by (simp_all add: strategy_engine_def new_engine_def register_ohlcv_def register_ticker_def)

lemma strategy_callback_state [simp]:
  "fst (strategy_callback cfg dcfg ev st) = fst (strategy_on_ohlcv cfg dcfg ev st)" "fst (ticker_callback te st) = strategy_on_ticker te st"
  by (simp_all add: strategy_callback_def ticker_callback_def split: prod.split option.split)

lemma strategy_step_run:
  assumes "strategy_run cfg dcfg st h"
  shows "\<exists>h'. strategy_run cfg dcfg (apply_event (strategy_engine cfg dcfg) ev st) h'"
proof (cases ev)
  case (Ohlcv e)
  obtain st' r where s: "strategy_on_ohlcv cfg dcfg e st = (st', r)" by (metis surj_pair)
  show ?thesis
  proof (cases r)
    case None
    then show ?thesis using strategy_run.raised [OF assms] s by (auto simp: Ohlcv)
  next
    case (Some out)
    then obtain sigs where "snd (feed_ohlcv_1s dcfg e (st_detector st)) = Some sigs"
      using s by (auto simp: strategy_on_ohlcv_def split: prod.splits option.splits)
    then have "strategy_run cfg dcfg st' (h @ map (Pair (o_ts_ms e)) sigs)" using strategy_run.ohlcv [OF assms] s Some by blast
    then show ?thesis using s by (auto simp: Ohlcv)
  qed
qed (use assms in \<open>auto intro: strategy_run.ticker\<close>)

lemma new_entries_ts:
  assumes "strategy_run cfg dcfg st h" and "x \<in> set (st_entries (fst (strategy_on_ohlcv cfg dcfg ev st)))"
  shows "x \<in> set (st_entries st) \<or> e_ts_ms x = o_ts_ms ev"
proof -
  obtain st' r where s: "strategy_on_ohlcv cfg dcfg ev st = (st', r)" by (metis surj_pair)
  show ?thesis
  proof (cases r)
    case None
    then show ?thesis using assms(2) s by (auto simp: strategy_on_ohlcv_def Let_def split: prod.splits option.splits)
  next
    case (Some out)
    then obtain sigs where f: "snd (feed_ohlcv_1s dcfg ev (st_detector st)) = Some sigs"
      using s by (auto simp: strategy_on_ohlcv_def split: prod.splits option.splits)
    have inv: "entries_inv cfg (st_entries st) (st_last_entry_ms st)" "st_recent st = take_last 200 h" "st_last_trust st = 0"
      using strategy_run_inv [OF assms(1)] by blast+
    from on_ohlcv_rule [OF inv s [unfolded Some] f] assms(2) s show ?thesis
      by (auto simp: entry_for_def split: if_splits)
  qed
qed

lemma strategy_fold_run:
  assumes "strategy_run cfg dcfg st h" and "\<And>x. x \<in> set (st_entries st) \<Longrightarrow> a \<le> e_ts_ms x \<and> e_ts_ms x \<le> b"
    and "\<And>ev. ev \<in> set evs \<Longrightarrow> a \<le> ev_ts ev \<and> ev_ts ev \<le> b"
  shows "(\<exists>h'. strategy_run cfg dcfg (fold (apply_event (strategy_engine cfg dcfg)) evs st) h')
    \<and> (\<forall>x \<in> set (st_entries (fold (apply_event (strategy_engine cfg dcfg)) evs st)). a \<le> e_ts_ms x \<and> e_ts_ms x \<le> b)"
  using assms
proof (induction evs arbitrary: st h)
  case (Cons ev evs)
  obtain h' where run: "strategy_run cfg dcfg (apply_event (strategy_engine cfg dcfg) ev st) h'"
    using strategy_step_run [OF Cons.prems(1)] by blast
  have "a \<le> e_ts_ms x \<and> e_ts_ms x \<le> b" if "x \<in> set (st_entries (apply_event (strategy_engine cfg dcfg) ev st))" for x
    using that Cons.prems(2) [of x] Cons.prems(3) [of ev] new_entries_ts [OF Cons.prems(1), of x]
    by (cases ev) (fastforce simp: strategy_on_ticker_def)+
  from Cons.IH [OF run this] Cons.prems(3) show ?case by simp
qed auto

lemma replay_stream_range: "ev \<in> set (replay_stream db s a b) \<Longrightarrow> a \<le> ev_ts ev \<and> ev_ts ev \<le> b"
  by (auto simp: replay_stream_def ohlcv_gen_def depth_gen_def ticker_gen_def ohlcv_of_row_def depth_of_row_def ticker_of_row_def)

text \<open>What is to be expected of a run: the strategy takes the candles and the tickers of the stream one after the other, the depth
  events are none of its business, and the exceptions are those of its candles.\<close>

fun strategy_replay :: "strategy_config \<Rightarrow> detector_config \<Rightarrow> any_event list \<Rightarrow> strategy \<times> nat \<Rightarrow> strategy \<times> nat" where
  "strategy_replay cfg dcfg [] r = r"
| "strategy_replay cfg dcfg (Ohlcv ev # evs) (st, n) =
     (case strategy_on_ohlcv cfg dcfg ev st of
        (st', None) \<Rightarrow> strategy_replay cfg dcfg evs (st', n + 1)
      | (st', Some _) \<Rightarrow> strategy_replay cfg dcfg evs (st', n))"
| "strategy_replay cfg dcfg (Ticker ev # evs) (st, n) = strategy_replay cfg dcfg evs (strategy_on_ticker ev st, n)"
| "strategy_replay cfg dcfg (Depth _ # evs) (st, n) = strategy_replay cfg dcfg evs (st, n)"

definition division_errors :: "nat \<Rightarrow> (string, nat) dict" where
  "division_errors n = (if n = 0 then [] else [(''ZeroDivisionError'', n)])"

lemma note_division: "errors_by_type stats = division_errors (callback_errors stats) \<Longrightarrow>
    errors_by_type (note_error (Some ''ZeroDivisionError'') stats) = division_errors (callback_errors stats + 1)"
  by (simp add: note_error_def division_errors_def dset_def dget_def)

lemma strategy_engine_step:
  "engine_step (strategy_engine cfg dcfg) (Ohlcv e) (stats, st) =
     (case strategy_on_ohlcv cfg dcfg e st of (st', r) \<Rightarrow>
        (note_error (if r = None then Some ''ZeroDivisionError'' else None)
           (stats\<lparr>events_total := Suc (events_total stats), ohlcv_count := Suc (ohlcv_count stats)\<rparr>), st'))"
  "engine_step (strategy_engine cfg dcfg) (Depth d) (stats, st) =
     (stats\<lparr>events_total := Suc (events_total stats), depth_count := Suc (depth_count stats)\<rparr>, st)"
  "engine_step (strategy_engine cfg dcfg) (Ticker t) (stats, st) =
     (stats\<lparr>events_total := Suc (events_total stats), ticker_count := Suc (ticker_count stats)\<rparr>, strategy_on_ticker t st)"
  by (simp_all add: engine_step_def strategy_callback_def ticker_callback_def note_error_def split: prod.split option.split)

lemma engine_replays:
  assumes "errors_by_type stats = division_errors (callback_errors stats)"
    and "fold (engine_step (strategy_engine cfg dcfg)) evs (stats, st) = (stats', st')"
  shows "strategy_replay cfg dcfg evs (st, callback_errors stats) = (st', callback_errors stats')
    \<and> errors_by_type stats' = division_errors (callback_errors stats')"
  using assms
proof (induction evs arbitrary: stats st)
  case (Cons ev evs)
  show ?case
  proof (cases ev)
    case (Ohlcv e)
    obtain st1 r where s: "strategy_on_ohlcv cfg dcfg e st = (st1, r)" by (metis surj_pair)
    let ?stats = "stats\<lparr>events_total := Suc (events_total stats), ohlcv_count := Suc (ohlcv_count stats)\<rparr>"
    have f: "fold (engine_step (strategy_engine cfg dcfg)) evs (note_error (if r = None then Some ''ZeroDivisionError'' else None) ?stats, st1) = (stats', st')"
      using Cons.prems(2) s by (simp add: Ohlcv strategy_engine_step)
    show ?thesis
    proof (cases r)
      case None
      have "errors_by_type (note_error (Some ''ZeroDivisionError'') ?stats) = division_errors (callback_errors (note_error (Some ''ZeroDivisionError'') ?stats))"
        using note_division [of ?stats] Cons.prems(1) by (simp add: note_error_def)
      from Cons.IH [OF this] f show ?thesis using s None by (simp add: Ohlcv) (simp add: note_error_def)
    next
      case (Some out)
      from Cons.IH [OF _ f] show ?thesis using Cons.prems(1) s Some by (simp add: Ohlcv note_error_def)
    qed
  next
    case (Depth e)
    then show ?thesis
      using Cons.IH [of "stats\<lparr>events_total := Suc (events_total stats), depth_count := Suc (depth_count stats)\<rparr>" st] Cons.prems
      by (simp add: strategy_engine_step)
  next
    case (Ticker e)
    then show ?thesis
      using Cons.IH [of "stats\<lparr>events_total := Suc (events_total stats), ticker_count := Suc (ticker_count stats)\<rparr>" "strategy_on_ticker e st"] Cons.prems
      by (simp add: strategy_engine_step)
  qed
qed simp

text \<open>C22: replaying any database through the engine with a fresh strategy registered leaves the strategy, and counts the exceptions,
  of the strategy that takes the candles and the tickers of the merged stream one after the other: an exception of the detector costs no later
  event, and it is counted under its type. So every entry lies in the replayed range, and successive entries in one direction are at
  least the cooldown apart.\<close>

theorem backtest_entries:
  fixes cfg dcfg db symbol a b t0 t1
  defines "r \<equiv> engine_run (strategy_engine cfg dcfg) db symbol a b t0 t1 (new_strategy new_detector)"
  shows "(snd r, callback_errors (fst r)) = strategy_replay cfg dcfg (replay_stream db symbol a b) (new_strategy new_detector, 0)
    \<and> errors_by_type (fst r) = division_errors (callback_errors (fst r))
    \<and> list_all (\<lambda>x. a \<le> e_ts_ms x \<and> e_ts_ms x \<le> b) (st_entries (snd r))
    \<and> successively (\<lambda>s t. cooldown_ms cfg \<le> t - s) (0 # entry_times dir (st_entries (snd r)))"
proof -
  let ?stats0 = "new_stats\<lparr>wall_start_ms := a, wall_end_ms := b\<rparr>" and ?st0 = "new_strategy new_detector"
  obtain stats st where f: "fold (engine_step (strategy_engine cfg dcfg)) (replay_stream db symbol a b) (?stats0, ?st0) = (stats, st)" by fastforce
  have r: "snd r = st" "callback_errors (fst r) = callback_errors stats" "errors_by_type (fst r) = errors_by_type stats"
    by (simp_all add: r_def engine_run_def f)
  have e0: "errors_by_type ?stats0 = division_errors (callback_errors ?stats0)" "callback_errors ?stats0 = 0"
    by (simp_all add: new_stats_def division_errors_def)
  note replay = engine_replays [OF e0(1) f, unfolded e0(2)]
  have st: "st = fold (apply_event (strategy_engine cfg dcfg)) (replay_stream db symbol a b) ?st0"
    using engine_fold_result [of "strategy_engine cfg dcfg" "replay_stream db symbol a b" "(?stats0, ?st0)"] by (simp add: f)
  have "(\<exists>h'. strategy_run cfg dcfg st h') \<and> (\<forall>x \<in> set (st_entries st). a \<le> e_ts_ms x \<and> e_ts_ms x \<le> b)"
    unfolding st by (rule strategy_fold_run [OF strategy_run.start]) (auto simp: new_strategy_def dest: replay_stream_range)
  then show ?thesis
    using strategy_run_inv [of cfg dcfg st] replay unfolding r by (auto simp: list_all_iff entries_inv_def spaced_def)
qed

end
