(* ===== verification/Metrics_Fetcher.thy ===== *)
theory Metrics_Fetcher
  imports Prelude Float64 "HOL-Library.Multiset"
begin

text \<open>
  \<^verbatim>\<open>src/data_layer/metrics_fetcher.py\<close> and \<^verbatim>\<open>src/data_layer/constants.py\<close>: the ticker items of one bulk request are gated,
  scored relative to the largest candidate and cut to the best. The request is an argument: its items, or \<open>None\<close> when it
  raises.
\<close>

definition EXCLUDED_SYMBOLS :: "string set" where
  "EXCLUDED_SYMBOLS = {''XAUT_USDT'', ''XAU_USDT'', ''XAG_USDT'', ''SILVER_USDT'', ''GOLD_USDT'', ''UKOIL_USDT'', ''USOIL_USDT'', ''SPCXSTOCK_USDT''}"

record fetcher_config =
  min_oi_usd :: rat
  min_volume24_usd :: rat
  min_spread_bps :: rat
  max_spread_bps :: rat
  top_n :: nat
  weight_volume :: rat
  weight_oi :: rat
  weight_funding :: rat

definition default_fetcher_config :: fetcher_config where
  "default_fetcher_config = \<lparr>min_oi_usd = 1000000, min_volume24_usd = 10000000, min_spread_bps = rnd (3 / 10), max_spread_bps = 20,
     top_n = 20, weight_volume = rnd (4 / 10), weight_oi = rnd (3 / 10), weight_funding = rnd (3 / 10)\<rparr>"

record ranked_symbol =
  rs_symbol :: string
  rs_last_price :: rat
  rs_volume24_usd :: rat
  rs_oi_usd :: rat
  rs_spread_bps :: rat
  rs_funding_rate :: rat
  rs_score :: rat

text \<open>One item of the response.\<close>

record ticker_item =
  ti_symbol :: string
  ti_last_price :: rat
  ti_hold_vol :: rat
  ti_amount24 :: rat
  ti_bid1 :: rat
  ti_ask1 :: rat
  ti_funding_rate :: rat

definition update_contract_sizes :: "(string, rat) dict \<Rightarrow> (string, rat) dict \<Rightarrow> (string, rat) dict" where
  "update_contract_sizes sizes own =
     foldl (\<lambda>d (sym, cs). if dget d sym = None then dset d sym cs else d) own sizes"

definition calc_spread_bps :: "rat \<Rightarrow> rat \<Rightarrow> rat" where
  "calc_spread_bps bid ask =
     (if bid \<le> 0 \<or> ask \<le> 0 then 9999
      else let mid = fdiv (fadd bid ask) 2 in
        if mid \<le> 0 then 9999 else fmul (fdiv (fsub ask bid) mid) 10000)"

definition candidate_of :: "fetcher_config \<Rightarrow> string set \<Rightarrow> (string, rat) dict \<Rightarrow> ticker_item \<Rightarrow> ranked_symbol option" where
  "candidate_of cfg excluded sizes item =
     (if ti_symbol item \<in> excluded then None
      else case dget sizes (ti_symbol item) of
        None \<Rightarrow> None
      | Some cs \<Rightarrow>
          if cs \<le> 0 then None
          else if ti_last_price item \<le> 0 \<or> ti_hold_vol item \<le> 0 then None
          else let oi = fmul (fmul (ti_hold_vol item) cs) (ti_last_price item) in
            if oi < min_oi_usd cfg then None
            else if ti_amount24 item < min_volume24_usd cfg then None
            else let spread = calc_spread_bps (ti_bid1 item) (ti_ask1 item) in
              if spread < min_spread_bps cfg \<or> max_spread_bps cfg < spread then None
              else Some \<lparr>rs_symbol = ti_symbol item, rs_last_price = ti_last_price item, rs_volume24_usd = ti_amount24 item,
                     rs_oi_usd = oi, rs_spread_bps = spread, rs_funding_rate = ti_funding_rate item, rs_score = 0\<rparr>)"

definition max_or_one :: "rat list \<Rightarrow> rat" where
  "max_or_one xs = (let m = foldl max (hd xs) (tl xs) in if m = 0 then 1 else m)"

definition score_of :: "fetcher_config \<Rightarrow> rat \<Rightarrow> rat \<Rightarrow> ranked_symbol \<Rightarrow> rat" where
  "score_of cfg max_vol max_oi s =
     (let vol_norm = fdiv (rs_volume24_usd s) max_vol; oi_norm = fdiv (rs_oi_usd s) max_oi;
          f_abs = \<bar>rs_funding_rate s\<bar>;
          f_score = (if rnd (5 / 1000) < f_abs then - 1 else fdiv f_abs (rnd (5 / 1000)))
      in fadd (fadd (fmul (weight_volume cfg) vol_norm) (fmul (weight_oi cfg) oi_norm)) (fmul (weight_funding cfg) f_score))"

text \<open>Python's sort with \<^verbatim>\<open>reverse=True\<close> keeps the order of equal keys.\<close>

definition fetch_and_rank :: "fetcher_config \<Rightarrow> string set \<Rightarrow> (string, rat) dict \<Rightarrow> ticker_item list option \<Rightarrow> ranked_symbol list option" where
  "fetch_and_rank cfg excluded sizes raw = map_option (\<lambda>items.
     (let candidates = List.map_filter (candidate_of cfg excluded sizes) items
      in if candidates = [] then []
         else (let max_vol = max_or_one (map rs_volume24_usd candidates); max_oi = max_or_one (map rs_oi_usd candidates);
                   scored = map (\<lambda>s. s\<lparr>rs_score := score_of cfg max_vol max_oi s\<rparr>) candidates
               in take (top_n cfg) (sort_key (\<lambda>s. - rs_score s) scored)))) raw"

section \<open>Properties\<close>

lemma contract_sizes_get:
  "dget (update_contract_sizes sizes own) name = (case dget own name of Some cs \<Rightarrow> Some cs | None \<Rightarrow> dget sizes name)"
proof (induction sizes arbitrary: own)
  case (Cons p sizes)
  obtain k v where p: "p = (k, v)" by (cases p)
  have u: "update_contract_sizes (p # sizes) own = update_contract_sizes sizes (if dget own k = None then dset own k v else own)"
    by (simp add: update_contract_sizes_def p)
  show ?case unfolding u by (simp add: Cons.IH p dget_Cons dict_simps split: option.split)
qed (simp add: update_contract_sizes_def split: option.split)

lemma take_drop_sorted: "sorted (map f xs) \<Longrightarrow> x \<in> set (take n xs) \<Longrightarrow> y \<in> set (drop n xs) \<Longrightarrow> f x \<le> f y"
  using sorted_append [of "map f (take n xs)" "map f (drop n xs)"] by (simp flip: map_append)

lemma set_map_filter: "set (List.map_filter f xs) = {y. \<exists>x \<in> set xs. f x = Some y}"
  by (force simp: List.map_filter_def)

text \<open>The gates a ranked symbol has passed.\<close>

definition passes_gates :: "fetcher_config \<Rightarrow> string set \<Rightarrow> (string, rat) dict \<Rightarrow> ranked_symbol \<Rightarrow> bool" where
  "passes_gates cfg excluded sizes s \<longleftrightarrow> rs_symbol s \<notin> excluded \<and> (\<exists>cs. dget sizes (rs_symbol s) = Some cs \<and> 0 < cs)
     \<and> 0 < rs_last_price s \<and> min_oi_usd cfg \<le> rs_oi_usd s \<and> min_volume24_usd cfg \<le> rs_volume24_usd s
     \<and> min_spread_bps cfg \<le> rs_spread_bps s \<and> rs_spread_bps s \<le> max_spread_bps cfg"

lemma candidate_passes: "candidate_of cfg excluded sizes item = Some s \<Longrightarrow> passes_gates cfg excluded sizes s \<and> rs_symbol s = ti_symbol item"
  by (auto simp: candidate_of_def passes_gates_def Let_def split: if_splits option.splits)

lemma passes_score [simp]: "passes_gates cfg excluded sizes (s\<lparr>rs_score := v\<rparr>) = passes_gates cfg excluded sizes s"
  by (simp add: passes_gates_def)

lemma candidates_pass: "s \<in> set (List.map_filter (candidate_of cfg excluded sizes) items) \<Longrightarrow> passes_gates cfg excluded sizes s"
  by (auto simp: set_map_filter dest: candidate_passes)

lemma ranking_best_passes:
  assumes "fetch_and_rank cfg excluded sizes (Some items) = Some out" shows "list_all (passes_gates cfg excluded sizes) out"
proof -
  have "\<exists>s v. x = s\<lparr>rs_score := v\<rparr> \<and> s \<in> set (List.map_filter (candidate_of cfg excluded sizes) items)" if "x \<in> set out" for x
    using that assms by (auto simp: fetch_and_rank_def Let_def split: if_splits dest!: in_set_takeD) blast
  then show ?thesis by (fastforce simp: list_all_iff dest: candidates_pass)
qed

text \<open>Lemma: the ranking is the best of the candidates: there is a list with one scored entry per item that passes the gates, the
  result is sorted by falling score, has at most the configured length, every entry of it has passed every gate, and no candidate
  left out scores higher than one that was kept.\<close>

theorem ranking_best:
  assumes "fetch_and_rank cfg excluded sizes (Some items) = Some out"
  shows "\<exists>rest. length out + length rest = length (List.map_filter (candidate_of cfg excluded sizes) items)
      \<and> mset (map rs_symbol (out @ rest)) = mset (map rs_symbol (List.map_filter (candidate_of cfg excluded sizes) items))
      \<and> sorted (map (\<lambda>s. - rs_score s) out) \<and> length out \<le> top_n cfg
      \<and> list_all (passes_gates cfg excluded sizes) (out @ rest)
      \<and> (rest \<noteq> [] \<longrightarrow> length out = top_n cfg)
      \<and> list_all (\<lambda>r. list_all (\<lambda>s. rs_score r \<le> rs_score s) out) rest"
proof (cases "List.map_filter (candidate_of cfg excluded sizes) items = []")
  case True
  then show ?thesis using assms by (auto simp: fetch_and_rank_def)
next
  case False
  let ?c = "List.map_filter (candidate_of cfg excluded sizes) items"
  define sc where "sc = (\<lambda>s. s\<lparr>rs_score := score_of cfg (max_or_one (map rs_volume24_usd ?c)) (max_or_one (map rs_oi_usd ?c)) s\<rparr>)"
  define all where "all = sort_key (\<lambda>s. - rs_score s) (map sc ?c)"
  have out: "out = take (top_n cfg) all"
    using assms False by (auto simp: fetch_and_rank_def Let_def all_def sc_def)
  have srt: "sorted (map (\<lambda>s. - rs_score s) all)" by (simp add: all_def)
  have sy: "rs_symbol (sc s) = rs_symbol s" and ps: "passes_gates cfg excluded sizes (sc s) = passes_gates cfg excluded sizes s" for s
    by (simp_all add: sc_def passes_gates_def)
  have "mset (map rs_symbol all) = mset (map rs_symbol ?c)"
    by (simp add: all_def sy multiset.map_comp comp_def)
  moreover have "length all = length ?c" by (simp add: all_def)
  moreover have "list_all (passes_gates cfg excluded sizes) all"
    by (auto simp: list_all_iff all_def ps dest: candidates_pass)
  moreover have "sorted (map (\<lambda>s. - rs_score s) (take (top_n cfg) all))"
    using srt by (simp add: sorted_wrt_take take_map [symmetric])
  moreover have "rs_score r \<le> rs_score s" if "r \<in> set (drop (top_n cfg) all)" "s \<in> set out" for r s
    using take_drop_sorted [OF srt] that by (fastforce simp: out)
  ultimately show ?thesis
    by (intro exI [of _ "drop (top_n cfg) all"]) (auto simp: out list_all_iff)
qed

definition one_item :: "string \<Rightarrow> ticker_item" where
  "one_item name = \<lparr>ti_symbol = name, ti_last_price = 2, ti_hold_vol = 4, ti_amount24 = 8, ti_bid1 = 2, ti_ask1 = 2, ti_funding_rate = 0\<rparr>"

definition unit_config :: fetcher_config where
  "unit_config = \<lparr>min_oi_usd = 8, min_volume24_usd = 8, min_spread_bps = 0, max_spread_bps = 20, top_n = 1, weight_volume = 1,
     weight_oi = 1, weight_funding = 1\<rparr>"

lemma ranking_best_witness:
  "map rs_symbol (the (fetch_and_rank unit_config {''C''} [(''A'', 1), (''C'', 1)] (Some [one_item ''C'', one_item ''A'']))) = [''A'']
   \<and> sorted (map (\<lambda>s. - rs_score s) (the (fetch_and_rank unit_config {''C''} [(''A'', 1), (''C'', 1)] (Some [one_item ''C'', one_item ''A'']))))"
proof -
  let ?r = "fetch_and_rank unit_config {''C''} [(''A'', 1), (''C'', 1)] (Some [one_item ''C'', one_item ''A''])"
  have r: "rnd 2 = 2" "rnd 4 = 4" "rnd 8 = 8" "rnd 3 = 3"
    using rnd_of_int [of 2] rnd_of_int [of 4] rnd_of_int [of 8] rnd_of_int [of 3] by simp_all
  have v: "map rs_symbol (the ?r) = [''A'']"
    by (simp add: fetch_and_rank_def candidate_of_def one_item_def unit_config_def dget_Cons calc_spread_bps_def float_defs r Let_def
        List.map_filter_simps max_or_one_def)
  have "?r = Some (the ?r)" by (simp add: fetch_and_rank_def)
  from ranking_best [OF this] v show ?thesis by blast
qed

end
