(* ===== verification/Per_Symbol.thy ===== *)
theory Per_Symbol
  imports Main
begin

text \<open>
  Loops that visit distinct keys, each visit reading and writing only its own key's part of the state: the interface
  is a step with a view per key, and the result is that one visit decides what the whole loop leaves of a key.
\<close>

locale local_steps =
  fixes step :: "'k \<Rightarrow> 's \<Rightarrow> 's" and view :: "'k \<Rightarrow> 's \<Rightarrow> 'v"
  assumes other: "k \<noteq> k' \<Longrightarrow> view k' (step k s) = view k' s"
    and own: "view k s = view k s' \<Longrightarrow> view k (step k s) = view k (step k s')"
begin

lemma fold_view: "distinct ks \<Longrightarrow> view k (fold step ks s) = (if k \<in> set ks then view k (step k s) else view k s)"
proof (induction ks arbitrary: s)
  case (Cons x ks)
  show ?case
  proof (cases "k = x")
    case True
    then show ?thesis using Cons by simp
  next
    case False
    then have "view k (step x s) = view k s" by (simp add: other)
    moreover from this have "view k (step k (step x s)) = view k (step k s)" by (rule own)
    ultimately show ?thesis using Cons False by auto
  qed
qed simp

text \<open>A property every visit gives its own key, and keeps, holds of all visited keys afterwards.\<close>

lemma fold_visited:
  assumes "distinct ks" and "k \<in> set ks" and "\<And>s'. view k s' = view k s \<Longrightarrow> P (view k (step k s'))"
  shows "P (view k (fold step ks s))"
  using assms fold_view [OF assms(1), of k s] by simp

end

end
