(* ===== verification/Universe_Service.thy ===== *)
theory Universe_Service
  imports Metrics_Fetcher Per_Symbol "HOL-Library.List_Lexorder" "HOL-Library.Char_ord"
begin

text \<open>
  \<^verbatim>\<open>src/data_layer/universe_service.py\<close>: the ranking is turned into a target of five subscribed symbols, which the
  subscriptions follow with a delay (hysteresis), unless a symbol that keeps entering and leaving is quarantined.
  The REST answers and the clock are arguments. A dictionary is an association list, the subscriptions are a set.
\<close>

section \<open>State\<close>

record universe_config =
  uc_always :: "string list"
  uc_excluded :: "string set"
  uc_hysteresis_ms :: int
  uc_flap_threshold :: int
  uc_flap_window_ms :: int
  uc_quarantine_steps_ms :: "int list"
  uc_quarantine_reset_stable_ms :: int

definition default_universe_config :: universe_config where
  "default_universe_config = \<lparr>uc_always = [''BTC_USDT''], uc_excluded = EXCLUDED_SYMBOLS, uc_hysteresis_ms = 300000,
     uc_flap_threshold = 3, uc_flap_window_ms = 3600000, uc_quarantine_steps_ms = [3600000, 14400000, 86400000],
     uc_quarantine_reset_stable_ms = 604800000\<rparr>"

record scan_result =
  top5 :: "string list"
  top10 :: "string list"
  top20 :: "string list"
  ranked :: "ranked_symbol list"
  excluded_symbols :: "string list"

record rotation_decision =
  to_subscribe :: "string list"
  to_unsubscribe :: "string list"
  watch_symbols :: "string list"
  quarantined :: "string list"
  scan_ms :: int
  subscribed_after :: "string list"

record universe =
  u_contract_sizes :: "(string, rat) dict"
  u_bulk_loaded :: bool
  u_last_result :: "scan_result option"
  subscribed :: "string set"
  pending_target :: "(string, bool) dict"
  pending_since_ms :: "(string, int) dict"
  last_target_state :: "(string, bool) dict"
  flap_window_start_ms :: "(string, int) dict"
  flap_count :: "(string, int) dict"
  quarantine_until_ms :: "(string, int) dict"
  quarantine_level :: "(string, int) dict"

text \<open>The always list loses the excluded symbols; an empty list of quarantine steps raises.\<close>

definition init_universe :: "universe_config \<Rightarrow> (string, rat) dict \<Rightarrow> (universe_config \<times> universe) option" where
  "init_universe cfg sizes =
     (if uc_quarantine_steps_ms cfg = [] then None
      else Some (cfg\<lparr>uc_always := filter (\<lambda>s. s \<notin> uc_excluded cfg) (uc_always cfg)\<rparr>,
        \<lparr>u_contract_sizes = sizes, u_bulk_loaded = False, u_last_result = None, subscribed = {}, pending_target = [],
         pending_since_ms = [], last_target_state = [], flap_window_start_ms = [], flap_count = [], quarantine_until_ms = [],
         quarantine_level = []\<rparr>))"

section \<open>Scanning\<close>

definition order_symbols :: "string list \<Rightarrow> ranked_symbol list \<Rightarrow> string list" where
  "order_symbols always rs = foldl (\<lambda>ordered r. if rs_symbol r \<in> set ordered then ordered else ordered @ [rs_symbol r]) always rs"

text \<open>\<open>bulk\<close> and \<open>raw\<close> are the answers to the two requests, \<open>None\<close> for a failed one; a failed ranking raises.\<close>

definition scan :: "universe_config \<Rightarrow> fetcher_config \<Rightarrow> (string, rat) dict option \<Rightarrow> ticker_item list option \<Rightarrow> universe \<Rightarrow> universe \<times> scan_result option" where
  "scan cfg fcfg bulk raw st =
     (let st1 = (if u_bulk_loaded st then st
                 else case bulk of
                   None \<Rightarrow> st
                 | Some sizes \<Rightarrow> st\<lparr>u_contract_sizes := update_contract_sizes sizes (u_contract_sizes st), u_bulk_loaded := True\<rparr>)
      in case fetch_and_rank fcfg (uc_excluded cfg) (u_contract_sizes st1) raw of
           None \<Rightarrow> (st1, None)
         | Some rs \<Rightarrow>
             (let ordered = order_symbols (uc_always cfg) rs;
                  result = \<lparr>top5 = take 5 ordered, top10 = take 10 ordered, top20 = take 20 ordered, ranked = rs,
                            excluded_symbols = sorted_list_of_set (uc_excluded cfg)\<rparr>
              in (st1\<lparr>u_last_result := Some result\<rparr>, Some result)))"

section \<open>Rotation\<close>

definition seed_subscriptions :: "universe_config \<Rightarrow> string list \<Rightarrow> universe \<Rightarrow> universe" where
  "seed_subscriptions cfg symbols st = foldl (\<lambda>st s. if s \<in> uc_excluded cfg then st else st\<lparr>subscribed := insert s (subscribed st)\<rparr>) st symbols"

definition get_int :: "(string, int) dict \<Rightarrow> string \<Rightarrow> int" where
  "get_int d s = (case dget d s of Some n \<Rightarrow> n | None \<Rightarrow> 0)"

definition is_quarantined :: "string \<Rightarrow> int \<Rightarrow> universe \<Rightarrow> bool" where
  "is_quarantined s now_ms st \<longleftrightarrow> now_ms < get_int (quarantine_until_ms st) s"

definition enter_quarantine :: "universe_config \<Rightarrow> string \<Rightarrow> int \<Rightarrow> universe \<Rightarrow> universe" where
  "enter_quarantine cfg s now_ms st =
     (let level = get_int (quarantine_level st) s;
          idx = min level (int (length (uc_quarantine_steps_ms cfg)) - 1);
          duration = uc_quarantine_steps_ms cfg ! nat idx
      in st\<lparr>quarantine_until_ms := dset (quarantine_until_ms st) s (now_ms + duration),
            quarantine_level := dset (quarantine_level st) s (level + 1),
            flap_window_start_ms := ddel (flap_window_start_ms st) s,
            flap_count := dset (flap_count st) s 0\<rparr>)"

definition record_flap_round_trip :: "universe_config \<Rightarrow> string \<Rightarrow> int \<Rightarrow> universe \<Rightarrow> universe" where
  "record_flap_round_trip cfg s now_ms st =
     (let start = get_int (flap_window_start_ms st) s;
          st1 = (if start = 0 \<or> uc_flap_window_ms cfg < now_ms - start
                 then st\<lparr>flap_window_start_ms := dset (flap_window_start_ms st) s now_ms, flap_count := dset (flap_count st) s 0\<rparr>
                 else st);
          st2 = st1\<lparr>flap_count := dset (flap_count st1) s (get_int (flap_count st1) s + 1)\<rparr>
      in if uc_flap_threshold cfg \<le> get_int (flap_count st2) s \<and> \<not> is_quarantined s now_ms st2
         then enter_quarantine cfg s now_ms st2 else st2)"

definition maybe_stable_reset :: "universe_config \<Rightarrow> int \<Rightarrow> string \<Rightarrow> universe \<Rightarrow> universe" where
  "maybe_stable_reset cfg now_ms s st =
     (if is_quarantined s now_ms st then st
      else let until = get_int (quarantine_until_ms st) s in
        if until = 0 then st
        else if now_ms - until < uc_quarantine_reset_stable_ms cfg then st
        else if 1 < get_int (quarantine_level st) s then st\<lparr>quarantine_level := dset (quarantine_level st) s 1\<rparr>
        else st)"

text \<open>The three loops of \<^verbatim>\<open>apply_scan\<close>, each over a sorted list of symbols.\<close>

definition flap_visit :: "universe_config \<Rightarrow> string set \<Rightarrow> int \<Rightarrow> string \<Rightarrow> universe \<Rightarrow> universe" where
  "flap_visit cfg target now_ms s st =
     (if s \<in> uc_excluded cfg then st
      else let curr = (s \<in> target);
               st1 = (if dget (last_target_state st) s = Some True \<and> \<not> curr then record_flap_round_trip cfg s now_ms st else st)
           in st1\<lparr>last_target_state := dset (last_target_state st1) s curr\<rparr>)"

definition clear_pending :: "string \<Rightarrow> universe \<Rightarrow> universe" where
  "clear_pending s st = st\<lparr>pending_target := ddel (pending_target st) s, pending_since_ms := ddel (pending_since_ms st) s\<rparr>"

datatype action = Keep | Subscribe | Unsubscribe

text \<open>What the third loop does with a symbol: the state, and the action it adds to the decision.\<close>

definition rotate_action :: "universe_config \<Rightarrow> string set \<Rightarrow> int \<Rightarrow> string \<Rightarrow> universe \<Rightarrow> action" where
  "rotate_action cfg target now_ms s st =
     (if (s \<in> subscribed st) = (s \<in> target) then Keep
      else if dget (pending_target st) s \<noteq> Some (s \<in> target) then Keep
      else if now_ms - get_int (pending_since_ms st) s < uc_hysteresis_ms cfg then Keep
      else if s \<in> target then (if is_quarantined s now_ms st then Keep else Subscribe)
      else Unsubscribe)"

definition rotate_visit :: "universe_config \<Rightarrow> string set \<Rightarrow> int \<Rightarrow> string \<Rightarrow> universe \<Rightarrow> universe" where
  "rotate_visit cfg target now_ms s st =
     (if (s \<in> subscribed st) = (s \<in> target) then clear_pending s st
      else if dget (pending_target st) s \<noteq> Some (s \<in> target)
      then st\<lparr>pending_target := dset (pending_target st) s (s \<in> target), pending_since_ms := dset (pending_since_ms st) s now_ms\<rparr>
      else (case rotate_action cfg target now_ms s st of
              Keep \<Rightarrow> st
            | Subscribe \<Rightarrow> clear_pending s (st\<lparr>subscribed := insert s (subscribed st)\<rparr>)
            | Unsubscribe \<Rightarrow> clear_pending s (st\<lparr>subscribed := subscribed st - {s}\<rparr>)))"

fun rotate_loop :: "universe_config \<Rightarrow> string set \<Rightarrow> int \<Rightarrow> string list \<Rightarrow> universe \<times> string list \<times> string list \<Rightarrow> universe \<times> string list \<times> string list" where
  "rotate_loop cfg target now_ms [] r = r"
| "rotate_loop cfg target now_ms (s # ss) (st, subs, unsubs) =
     rotate_loop cfg target now_ms ss
       (rotate_visit cfg target now_ms s st,
        if rotate_action cfg target now_ms s st = Subscribe then subs @ [s] else subs,
        if rotate_action cfg target now_ms s st = Unsubscribe then unsubs @ [s] else unsubs)"

definition apply_scan :: "universe_config \<Rightarrow> scan_result \<Rightarrow> int \<Rightarrow> universe \<Rightarrow> universe \<times> rotation_decision" where
  "apply_scan cfg sr now_ms st =
     (let target = set (top5 sr);
          st1 = fold (flap_visit cfg target now_ms) (sorted_list_of_set (set (keys (last_target_state st)) \<union> target)) st;
          st2 = fold (maybe_stable_reset cfg now_ms) (sorted_list_of_set (set (keys (quarantine_level st1)))) st1;
          interested = subscribed st2 \<union> target \<union> set (keys (pending_target st2)) - uc_excluded cfg;
          (st3, subs, unsubs) = rotate_loop cfg target now_ms (sorted_list_of_set interested) (st2, [], [])
      in (st3, \<lparr>to_subscribe = subs, to_unsubscribe = unsubs, watch_symbols = sorted_list_of_set (set (top10 sr) - target),
                quarantined = sort (map fst (filter (\<lambda>(s, until). now_ms < until) (quarantine_until_ms st3))),
                scan_ms = now_ms, subscribed_after = sorted_list_of_set (subscribed st3)\<rparr>))"

definition current_subscriptions :: "universe \<Rightarrow> string set" where
  "current_subscriptions st = subscribed st"


section \<open>One symbol at a time\<close>

text \<open>What the rotation keeps of one symbol.\<close>

definition sym_view :: "string \<Rightarrow> universe \<Rightarrow> bool \<times> bool option \<times> int option \<times> bool option \<times> int option \<times> int option \<times> int option \<times> int option" where
  "sym_view s st = (s \<in> subscribed st, dget (pending_target st) s, dget (pending_since_ms st) s, dget (last_target_state st) s,
     dget (flap_window_start_ms st) s, dget (flap_count st) s, dget (quarantine_until_ms st) s, dget (quarantine_level st) s)"

lemma sym_view_eq:
  "sym_view s st = sym_view s st' \<longleftrightarrow> (s \<in> subscribed st) = (s \<in> subscribed st') \<and> dget (pending_target st) s = dget (pending_target st') s
     \<and> dget (pending_since_ms st) s = dget (pending_since_ms st') s \<and> dget (last_target_state st) s = dget (last_target_state st') s
     \<and> dget (flap_window_start_ms st) s = dget (flap_window_start_ms st') s \<and> dget (flap_count st) s = dget (flap_count st') s
     \<and> dget (quarantine_until_ms st) s = dget (quarantine_until_ms st') s \<and> dget (quarantine_level st) s = dget (quarantine_level st') s"
  by (simp add: sym_view_def)

lemma get_int_dset [simp]: "get_int (dset d k v) x = (if x = k then v else get_int d x)"
  by (simp add: get_int_def dict_simps)

lemma get_int_cong: "dget d s = dget d' s \<Longrightarrow> get_int d s = get_int d' s"
  by (simp add: get_int_def)

lemma enter_view:
  "k \<noteq> s \<Longrightarrow> sym_view k (enter_quarantine cfg s t st) = sym_view k st"
  "sym_view s st = sym_view s st' \<Longrightarrow> sym_view s (enter_quarantine cfg s t st) = sym_view s (enter_quarantine cfg s t st')"
  by (simp_all add: sym_view_eq enter_quarantine_def Let_def dict_simps get_int_cong [of "quarantine_level st" s "quarantine_level st'"])

lemma is_quarantined_cong: "sym_view s st = sym_view s st' \<Longrightarrow> is_quarantined s t st = is_quarantined s t st'"
  by (simp add: sym_view_eq is_quarantined_def get_int_cong [of "quarantine_until_ms st" s "quarantine_until_ms st'"])

definition count_flap :: "universe_config \<Rightarrow> string \<Rightarrow> int \<Rightarrow> universe \<Rightarrow> universe" where
  "count_flap cfg s now_ms st =
     (let start = get_int (flap_window_start_ms st) s;
          st1 = (if start = 0 \<or> uc_flap_window_ms cfg < now_ms - start
                 then st\<lparr>flap_window_start_ms := dset (flap_window_start_ms st) s now_ms, flap_count := dset (flap_count st) s 0\<rparr>
                 else st)
      in st1\<lparr>flap_count := dset (flap_count st1) s (get_int (flap_count st1) s + 1)\<rparr>)"

lemma record_flap_count:
  "record_flap_round_trip cfg s t st =
     (let st2 = count_flap cfg s t st
      in if uc_flap_threshold cfg \<le> get_int (flap_count st2) s \<and> \<not> is_quarantined s t st2 then enter_quarantine cfg s t st2 else st2)"
  by (simp add: record_flap_round_trip_def count_flap_def Let_def)

lemma count_flap_view:
  "k \<noteq> s \<Longrightarrow> sym_view k (count_flap cfg s t st) = sym_view k st"
  "sym_view s st = sym_view s st' \<Longrightarrow> sym_view s (count_flap cfg s t st) = sym_view s (count_flap cfg s t st')"
  by (simp_all add: sym_view_eq count_flap_def Let_def dict_simps get_int_cong [of "flap_count st" s "flap_count st'"]
      get_int_cong [of "flap_window_start_ms st" s "flap_window_start_ms st'"])

lemma record_flap_view:
  "k \<noteq> s \<Longrightarrow> sym_view k (record_flap_round_trip cfg s t st) = sym_view k st"
  "sym_view s st = sym_view s st' \<Longrightarrow> sym_view s (record_flap_round_trip cfg s t st) = sym_view s (record_flap_round_trip cfg s t st')"
proof -
  show "k \<noteq> s \<Longrightarrow> sym_view k (record_flap_round_trip cfg s t st) = sym_view k st"
    by (simp add: record_flap_count Let_def enter_view(1) count_flap_view(1))
  assume v: "sym_view s st = sym_view s st'"
  have c: "sym_view s (count_flap cfg s t st) = sym_view s (count_flap cfg s t st')" by (rule count_flap_view(2) [OF v])
  have "get_int (flap_count (count_flap cfg s t st)) s = get_int (flap_count (count_flap cfg s t st')) s"
    using c by (auto simp: sym_view_eq intro: get_int_cong)
  then show "sym_view s (record_flap_round_trip cfg s t st) = sym_view s (record_flap_round_trip cfg s t st')"
    unfolding record_flap_count Let_def using is_quarantined_cong [OF c] enter_view(2) [OF c] c by simp
qed

definition set_last :: "string \<Rightarrow> bool \<Rightarrow> universe \<Rightarrow> universe" where
  "set_last s b st = st\<lparr>last_target_state := dset (last_target_state st) s b\<rparr>"

lemma set_last_view:
  "k \<noteq> s \<Longrightarrow> sym_view k (set_last s b st) = sym_view k st"
  "sym_view s st = sym_view s st' \<Longrightarrow> sym_view s (set_last s b st) = sym_view s (set_last s b st')"
  by (simp_all add: sym_view_eq set_last_def dict_simps)

lemma flap_visit_set_last:
  "flap_visit cfg target t s st = (if s \<in> uc_excluded cfg then st
     else set_last s (s \<in> target) (if dget (last_target_state st) s = Some True \<and> s \<notin> target then record_flap_round_trip cfg s t st else st))"
  by (simp add: flap_visit_def set_last_def Let_def)

interpretation flap: local_steps "flap_visit cfg target t" sym_view
proof
  show "sym_view k' (flap_visit cfg target t k st) = sym_view k' st" if "k \<noteq> k'" for k k' st
    using that by (simp add: flap_visit_set_last set_last_view(1) record_flap_view(1))
  show "sym_view k (flap_visit cfg target t k st) = sym_view k (flap_visit cfg target t k st')" if v: "sym_view k st = sym_view k st'" for k st st'
  proof -
    have "dget (last_target_state st) k = dget (last_target_state st') k" using v by (simp add: sym_view_eq)
    then show ?thesis
      by (cases "dget (last_target_state st') k = Some True"; cases "k \<in> target"; cases "k \<in> uc_excluded cfg")
         (simp_all add: flap_visit_set_last v set_last_view(2) [OF v] set_last_view(2) [OF record_flap_view(2) [OF v]])
  qed
qed

interpretation stable: local_steps "maybe_stable_reset cfg t" sym_view
proof
  show "sym_view k' (maybe_stable_reset cfg t k st) = sym_view k' st" if "k \<noteq> k'" for k k' st
    using that by (simp add: maybe_stable_reset_def Let_def sym_view_def dict_simps)
  show "sym_view k (maybe_stable_reset cfg t k st) = sym_view k (maybe_stable_reset cfg t k st')" if v: "sym_view k st = sym_view k st'" for k st st'
    using v get_int_cong [of "quarantine_until_ms st" k "quarantine_until_ms st'"] get_int_cong [of "quarantine_level st" k "quarantine_level st'"]
    by (simp add: maybe_stable_reset_def Let_def is_quarantined_def sym_view_eq dict_simps)
qed

lemma rotate_action_cong: "sym_view s st = sym_view s st' \<Longrightarrow> rotate_action cfg target t s st = rotate_action cfg target t s st'"
  using is_quarantined_cong [of s st st' t] get_int_cong [of "pending_since_ms st" s "pending_since_ms st'"]
  by (simp add: rotate_action_def sym_view_eq)

interpretation rotation: local_steps "rotate_visit cfg target t" sym_view
proof
  show "sym_view k' (rotate_visit cfg target t k st) = sym_view k' st" if "k \<noteq> k'" for k k' st
    using that by (auto simp: rotate_visit_def clear_pending_def sym_view_def dict_simps split: action.split)
  show "sym_view k (rotate_visit cfg target t k st) = sym_view k (rotate_visit cfg target t k st')" if v: "sym_view k st = sym_view k st'" for k st st'
    using v rotate_action_cong [OF v, of cfg target t]
    by (simp add: rotate_visit_def clear_pending_def sym_view_eq dict_simps split: action.split)
qed


section \<open>The effect of a scan\<close>

lemma flap_visit_rotation [simp]:
  "subscribed (flap_visit cfg target t s st) = subscribed st" "pending_target (flap_visit cfg target t s st) = pending_target st"
  "pending_since_ms (flap_visit cfg target t s st) = pending_since_ms st"
  by (simp_all add: flap_visit_def record_flap_round_trip_def enter_quarantine_def Let_def)

lemma stable_rotation [simp]:
  "subscribed (maybe_stable_reset cfg t s st) = subscribed st" "pending_target (maybe_stable_reset cfg t s st) = pending_target st"
  "pending_since_ms (maybe_stable_reset cfg t s st) = pending_since_ms st" "quarantine_until_ms (maybe_stable_reset cfg t s st) = quarantine_until_ms st"
  by (simp_all add: maybe_stable_reset_def Let_def)

lemma flap_fold_rotation [simp]:
  "subscribed (fold (flap_visit cfg target t) ss st) = subscribed st" "pending_target (fold (flap_visit cfg target t) ss st) = pending_target st"
  "pending_since_ms (fold (flap_visit cfg target t) ss st) = pending_since_ms st"
  by (induction ss arbitrary: st) simp_all

lemma stable_fold_rotation [simp]:
  "subscribed (fold (maybe_stable_reset cfg t) ss st) = subscribed st" "pending_target (fold (maybe_stable_reset cfg t) ss st) = pending_target st"
  "pending_since_ms (fold (maybe_stable_reset cfg t) ss st) = pending_since_ms st"
  "quarantine_until_ms (fold (maybe_stable_reset cfg t) ss st) = quarantine_until_ms st"
  by (induction ss arbitrary: st) simp_all

lemma flap_target_until:
  assumes "s \<in> target" and "distinct ss"
  shows "dget (quarantine_until_ms (fold (flap_visit cfg target t) ss st)) s = dget (quarantine_until_ms st) s"
proof -
  have "dget (quarantine_until_ms (flap_visit cfg target t s st)) s = dget (quarantine_until_ms st) s"
    using assms(1) by (simp add: flap_visit_def Let_def)
  then show ?thesis using flap.fold_view [OF assms(2), of s cfg target t st] by (auto simp: sym_view_eq split: if_splits)
qed

lemma rotate_loop_result:
  "distinct ss \<Longrightarrow> rotate_loop cfg target t ss (st, subs, unsubs) =
     (fold (rotate_visit cfg target t) ss st, subs @ filter (\<lambda>s. rotate_action cfg target t s st = Subscribe) ss,
      unsubs @ filter (\<lambda>s. rotate_action cfg target t s st = Unsubscribe) ss)"
proof (induction ss arbitrary: st subs unsubs)
  case (Cons s ss)
  have "rotate_action cfg target t x (rotate_visit cfg target t s st) = rotate_action cfg target t x st" if "x \<in> set ss" for x
    using that Cons.prems by (intro rotate_action_cong rotation.other) auto
  then have f: "filter (\<lambda>x. rotate_action cfg target t x (rotate_visit cfg target t s st) = a) ss = filter (\<lambda>x. rotate_action cfg target t x st = a) ss" for a
    by (intro filter_cong) auto
  show ?case using Cons.IH [of "rotate_visit cfg target t s st"] Cons.prems by (simp add: f)
qed simp

definition interested :: "universe_config \<Rightarrow> string set \<Rightarrow> universe \<Rightarrow> string set" where
  "interested cfg target st = subscribed st \<union> target \<union> set (keys (pending_target st)) - uc_excluded cfg"

text \<open>The state before the third loop, and what the loop makes of it.\<close>

lemma apply_scan_effect:
  assumes "apply_scan cfg sr t st = (st', d)" and fin: "finite (subscribed st)"
  defines "target \<equiv> set (top5 sr)"
  obtains st2 where "subscribed st2 = subscribed st" "pending_target st2 = pending_target st" "pending_since_ms st2 = pending_since_ms st"
    "\<And>s. s \<in> target \<Longrightarrow> is_quarantined s t st2 = is_quarantined s t st"
    "\<And>s. sym_view s st' = sym_view s (if s \<in> interested cfg target st then rotate_visit cfg target t s st2 else st2)"
    "to_subscribe d = filter (\<lambda>s. rotate_action cfg target t s st2 = Subscribe) (sorted_list_of_set (interested cfg target st))"
    "to_unsubscribe d = filter (\<lambda>s. rotate_action cfg target t s st2 = Unsubscribe) (sorted_list_of_set (interested cfg target st))"
    "subscribed_after d = sorted_list_of_set (subscribed st')"
proof -
  define st1 where "st1 = fold (flap_visit cfg target t) (sorted_list_of_set (set (keys (last_target_state st)) \<union> target)) st"
  define st2 where "st2 = fold (maybe_stable_reset cfg t) (sorted_list_of_set (set (keys (quarantine_level st1)))) st1"
  have q: "is_quarantined s t st2 = is_quarantined s t st" if "s \<in> target" for s
    using get_int_cong [OF flap_target_until [OF that, of "sorted_list_of_set (set (keys (last_target_state st)) \<union> target)" cfg t st]]
    by (simp add: is_quarantined_def st2_def st1_def)
  have f2: "subscribed st2 = subscribed st" "pending_target st2 = pending_target st" "pending_since_ms st2 = pending_since_ms st"
    by (simp_all add: st2_def st1_def)
  have int: "subscribed st2 \<union> target \<union> set (keys (pending_target st2)) - uc_excluded cfg = interested cfg target st"
    by (simp add: f2 interested_def)
  have fini: "finite (interested cfg target st)" using fin by (simp add: interested_def target_def)
  note loop = rotate_loop_result [OF distinct_sorted_list_of_set, of cfg target t "interested cfg target st" st2 "[]" "[]"]
  have r: "st' = fold (rotate_visit cfg target t) (sorted_list_of_set (interested cfg target st)) st2"
    "to_subscribe d = filter (\<lambda>s. rotate_action cfg target t s st2 = Subscribe) (sorted_list_of_set (interested cfg target st))"
    "to_unsubscribe d = filter (\<lambda>s. rotate_action cfg target t s st2 = Unsubscribe) (sorted_list_of_set (interested cfg target st))"
    "subscribed_after d = sorted_list_of_set (subscribed st')"
    using assms(1) unfolding apply_scan_def Let_def target_def [symmetric] st1_def [symmetric] st2_def [symmetric] int loop by auto
  have "sym_view s st' = sym_view s (if s \<in> interested cfg target st then rotate_visit cfg target t s st2 else st2)" for s
    unfolding r(1) using rotation.fold_view [OF distinct_sorted_list_of_set, of s cfg target t "interested cfg target st" st2] fini by simp
  then show ?thesis using that f2 q r by blast
qed

lemma rotate_subscribed:
  "s \<in> subscribed (rotate_visit cfg target t s st) \<longleftrightarrow>
     (case rotate_action cfg target t s st of Subscribe \<Rightarrow> True | Unsubscribe \<Rightarrow> False | Keep \<Rightarrow> s \<in> subscribed st)"
  by (auto simp: rotate_visit_def rotate_action_def clear_pending_def split: if_splits)

section \<open>Runs\<close>

inductive universe_run :: "universe_config \<Rightarrow> universe \<Rightarrow> (string set \<times> int) list \<Rightarrow> bool" where
  init: "init_universe cfg0 sizes = Some (cfg, st) \<Longrightarrow> universe_run cfg st []"
| seed: "universe_run cfg st h \<Longrightarrow> universe_run cfg (seed_subscriptions cfg symbols st) h"
| scanned: "universe_run cfg st h \<Longrightarrow> scan cfg fcfg bulk raw st = (st', r) \<Longrightarrow> universe_run cfg st' h"
| applied: "universe_run cfg st h \<Longrightarrow> apply_scan cfg sr t st = (st', d) \<Longrightarrow> universe_run cfg st' (h @ [(set (top5 sr), t)])"

inductive_cases universe_runE: "universe_run cfg st h"

text \<open>Since time \<open>t0\<close> every applied scan agreed on whether the symbol is a target.\<close>

definition held :: "(string set \<times> int) list \<Rightarrow> string \<Rightarrow> bool \<Rightarrow> int \<Rightarrow> bool" where
  "held h s b t0 \<longleftrightarrow> (\<exists>h1 h2. h = h1 @ h2 \<and> h2 \<noteq> [] \<and> snd (hd h2) = t0 \<and> list_all (\<lambda>(T, t). (s \<in> T) = b) h2)"

lemma held_new: "held (h @ [(T, t)]) s (s \<in> T) t"
  unfolding held_def by (intro exI [of _ h] exI [of _ "[(T, t)]"]) simp

lemma held_more: "held h s b t0 \<Longrightarrow> (s \<in> T) = b \<Longrightarrow> held (h @ [(T, t)]) s b t0"
  unfolding held_def by (elim exE conjE) (rule_tac x = h1 in exI, rule_tac x = "h2 @ [(T, t)]" in exI, simp)

lemma held_time: "held h s b t0 \<Longrightarrow> t0 \<in> set (map snd h)"
  by (auto simp: held_def neq_Nil_conv)

definition universe_inv :: "universe_config \<Rightarrow> universe \<Rightarrow> (string set \<times> int) list \<Rightarrow> bool" where
  "universe_inv cfg st h \<longleftrightarrow> finite (subscribed st) \<and> subscribed st \<inter> uc_excluded cfg = {}
     \<and> (\<forall>s b. dget (pending_target st) s = Some b \<longrightarrow>
          s \<notin> uc_excluded cfg \<and> (\<exists>t0. dget (pending_since_ms st) s = Some t0 \<and> held h s b t0))"

lemma seed_subscribed: "subscribed (seed_subscriptions cfg symbols st) = subscribed st \<union> (set symbols - uc_excluded cfg)"
  "pending_target (seed_subscriptions cfg symbols st) = pending_target st" "pending_since_ms (seed_subscriptions cfg symbols st) = pending_since_ms st"
  unfolding seed_subscriptions_def by (induction symbols arbitrary: st) auto

lemma scan_rotation: "scan cfg fcfg bulk raw st = (st', r) \<Longrightarrow>
  subscribed st' = subscribed st \<and> pending_target st' = pending_target st \<and> pending_since_ms st' = pending_since_ms st"
  by (auto simp: scan_def Let_def split: option.splits if_splits)

lemma rotate_pending:
  assumes inv: "\<And>b. dget (pending_target st) s = Some b \<Longrightarrow> \<exists>t0. dget (pending_since_ms st) s = Some t0 \<and> held h s b t0"
    and p: "dget (pending_target (rotate_visit cfg target t s st)) s = Some b"
  shows "\<exists>t0. dget (pending_since_ms (rotate_visit cfg target t s st)) s = Some t0 \<and> held (h @ [(target, t)]) s b t0"
proof (cases "(s \<in> subscribed st) = (s \<in> target)")
  case True
  then show ?thesis using p by (simp add: rotate_visit_def clear_pending_def dict_simps)
next
  case differs: False
  show ?thesis
  proof (cases "dget (pending_target st) s = Some (s \<in> target)")
    case False
    then show ?thesis using p differs held_new [of h target t s]
      by (auto simp: rotate_visit_def dict_simps simp del: not_Some_eq)
  next
    case True
    then obtain t0 where t0: "dget (pending_since_ms st) s = Some t0" "held h s (s \<in> target) t0" using inv by blast
    have "rotate_visit cfg target t s st = st" and b: "b = (s \<in> target)"
      using p True differs by (auto simp: rotate_visit_def clear_pending_def dict_simps split: action.splits)
    then show ?thesis using t0 held_more [OF t0(2)] by auto
  qed
qed

lemma universe_inv_apply:
  assumes inv: "universe_inv cfg st h" and a: "apply_scan cfg sr t st = (st', d)"
  shows "universe_inv cfg st' (h @ [(set (top5 sr), t)])"
proof -
  let ?T = "set (top5 sr)"
  have fin: "finite (subscribed st)" using inv by (simp add: universe_inv_def)
  obtain st2 where e: "subscribed st2 = subscribed st" "pending_target st2 = pending_target st" "pending_since_ms st2 = pending_since_ms st"
    "\<And>s. sym_view s st' = sym_view s (if s \<in> interested cfg ?T st then rotate_visit cfg ?T t s st2 else st2)"
    by (rule apply_scan_effect [OF a fin]) (rule that)
  have sub: "s \<in> interested cfg ?T st \<or> s \<in> subscribed st" if "s \<in> subscribed st'" for s
    using e(1) e(4) [of s] that by (auto simp: sym_view_eq split: if_splits)
  have bound: "subscribed st' \<subseteq> subscribed st \<union> ?T \<union> set (keys (pending_target st))"
    using sub by (auto simp: interested_def)
  have "finite (subscribed st')" using finite_subset [OF bound] fin by simp
  moreover have "subscribed st' \<inter> uc_excluded cfg = {}"
    using sub inv by (auto simp: interested_def universe_inv_def)
  moreover have "s \<notin> uc_excluded cfg \<and> (\<exists>t0. dget (pending_since_ms st') s = Some t0 \<and> held (h @ [(?T, t)]) s b t0)"
    if p: "dget (pending_target st') s = Some b" for s b
  proof (cases "s \<in> interested cfg ?T st")
    case True
    then have v: "sym_view s st' = sym_view s (rotate_visit cfg ?T t s st2)" using e(4) by simp
    have "\<exists>t0. dget (pending_since_ms (rotate_visit cfg ?T t s st2)) s = Some t0 \<and> held (h @ [(?T, t)]) s b t0"
      by (rule rotate_pending) (use inv e(2,3) p v in \<open>auto simp: universe_inv_def sym_view_eq\<close>)
    then show ?thesis using v True by (simp add: sym_view_eq interested_def)
  next
    case False
    then have "dget (pending_target st) s = Some b" using e(2) e(4) [of s] p by (simp add: sym_view_eq)
    then show ?thesis using False inv by (auto simp: interested_def universe_inv_def dest: dget_keys)
  qed
  ultimately show ?thesis by (simp add: universe_inv_def)
qed

lemma universe_run_inv: "universe_run cfg st h \<Longrightarrow> universe_inv cfg st h"
proof (induction rule: universe_run.induct)
  case (init cfg0 sizes cfg st)
  then show ?case by (auto simp: init_universe_def universe_inv_def split: if_splits)
next
  case (seed cfg st h symbols)
  then show ?case by (auto simp: universe_inv_def seed_subscribed)
next
  case (scanned cfg st h fcfg bulk raw st' r)
  then show ?case using scan_rotation [OF scanned.hyps(2)] by (simp add: universe_inv_def)
next
  case (applied cfg st h sr t st' d)
  then show ?case using universe_inv_apply by blast
qed


lemma universe_inv_pending:
  "universe_inv cfg st h \<Longrightarrow> dget (pending_target st) s = Some b \<Longrightarrow> \<exists>t0. dget (pending_since_ms st) s = Some t0 \<and> held h s b t0"
  by (simp add: universe_inv_def)

section \<open>Properties\<close>

text \<open>An action is taken only on a symbol that the targets have disagreed with for the hysteresis time.\<close>

lemma rotate_action_held:
  assumes inv: "universe_inv cfg st h" and e: "subscribed st2 = subscribed st" "pending_target st2 = pending_target st" "pending_since_ms st2 = pending_since_ms st"
    and act: "rotate_action cfg T t s st2 \<noteq> Keep"
  shows "(s \<in> subscribed st) \<noteq> (s \<in> T)" and "rotate_action cfg T t s st2 = (if s \<in> T then Subscribe else Unsubscribe)"
    and "\<exists>t0. held (h @ [(T, t)]) s (s \<in> T) t0 \<and> uc_hysteresis_ms cfg \<le> t - t0"
proof -
  have p: "dget (pending_target st) s = Some (s \<in> T)" "(s \<in> subscribed st) \<noteq> (s \<in> T)"
    "uc_hysteresis_ms cfg \<le> t - get_int (pending_since_ms st) s"
    using act e by (auto simp: rotate_action_def split: if_splits)
  then obtain t0 where "dget (pending_since_ms st) s = Some t0" "held h s (s \<in> T) t0" using universe_inv_pending [OF inv] by blast
  with p(3) held_more [OF this(2)] show "\<exists>t0. held (h @ [(T, t)]) s (s \<in> T) t0 \<and> uc_hysteresis_ms cfg \<le> t - t0"
    by (auto simp: get_int_def)
  show "(s \<in> subscribed st) \<noteq> (s \<in> T)" by (rule p(2))
  show "rotate_action cfg T t s st2 = (if s \<in> T then Subscribe else Unsubscribe)"
    using act by (auto simp: rotate_action_def split: if_splits)
qed

text \<open>The subscriptions after a scan are the old ones with the actions applied.\<close>

lemma rotated_subscribed:
  assumes e: "subscribed st2 = subscribed st" and v: "\<And>s. sym_view s st' = sym_view s (if s \<in> I then rotate_visit cfg T t s st2 else st2)"
  shows "subscribed st' = subscribed st \<union> {s \<in> I. rotate_action cfg T t s st2 = Subscribe} - {s \<in> I. rotate_action cfg T t s st2 = Unsubscribe}"
proof (rule set_eqI)
  fix s
  have "s \<in> subscribed st' \<longleftrightarrow> (if s \<in> I then s \<in> subscribed (rotate_visit cfg T t s st2) else s \<in> subscribed st)"
    using v [of s] e by (simp add: sym_view_eq split: if_splits)
  then show "s \<in> subscribed st' \<longleftrightarrow> s \<in> subscribed st \<union> {s \<in> I. rotate_action cfg T t s st2 = Subscribe} - {s \<in> I. rotate_action cfg T t s st2 = Unsubscribe}"
    using e by (auto simp: rotate_subscribed split: action.split)
qed

text \<open>C9: a scan subscribes only symbols that are not excluded, not subscribed and not quarantined, and that every applied scan
  of at least the hysteresis time, this one included, had among its targets; it unsubscribes only subscribed ones,
  quarantined or not, that every scan of that time had not; both lists are sorted, and the new subscriptions are the old ones with the two applied.\<close>

theorem rotation_hysteresis:
  assumes run: "universe_run cfg st h" and a: "apply_scan cfg sr t st = (st', d)"
  shows "list_all (\<lambda>s. s \<notin> uc_excluded cfg \<and> s \<notin> subscribed st \<and> \<not> is_quarantined s t st
        \<and> (\<exists>t0. held (h @ [(set (top5 sr), t)]) s True t0 \<and> uc_hysteresis_ms cfg \<le> t - t0)) (to_subscribe d)
    \<and> list_all (\<lambda>s. s \<in> subscribed st
        \<and> (\<exists>t0. held (h @ [(set (top5 sr), t)]) s False t0 \<and> uc_hysteresis_ms cfg \<le> t - t0)) (to_unsubscribe d)
    \<and> sorted (to_subscribe d) \<and> sorted (to_unsubscribe d)
    \<and> subscribed st' = subscribed st \<union> set (to_subscribe d) - set (to_unsubscribe d)
    \<and> subscribed_after d = sorted_list_of_set (subscribed st')"
proof -
  let ?T = "set (top5 sr)" and ?I = "interested cfg (set (top5 sr)) st"
  have inv: "universe_inv cfg st h" by (rule universe_run_inv [OF run])
  then have fin: "finite (subscribed st)" by (simp add: universe_inv_def)
  obtain st2 where e: "subscribed st2 = subscribed st" "pending_target st2 = pending_target st" "pending_since_ms st2 = pending_since_ms st"
    and q: "\<And>s. s \<in> ?T \<Longrightarrow> is_quarantined s t st2 = is_quarantined s t st"
    and v: "\<And>s. sym_view s st' = sym_view s (if s \<in> ?I then rotate_visit cfg ?T t s st2 else st2)"
    and l: "to_subscribe d = filter (\<lambda>s. rotate_action cfg ?T t s st2 = Subscribe) (sorted_list_of_set ?I)"
      "to_unsubscribe d = filter (\<lambda>s. rotate_action cfg ?T t s st2 = Unsubscribe) (sorted_list_of_set ?I)"
      "subscribed_after d = sorted_list_of_set (subscribed st')"
    by (rule apply_scan_effect [OF a fin]) (rule that)
  have fini: "finite ?I" using fin by (simp add: interested_def)
  note held = rotate_action_held [OF inv e]
  have "subscribed st' = subscribed st \<union> set (to_subscribe d) - set (to_unsubscribe d)"
    using rotated_subscribed [OF e(1) v] fini by (simp add: l)
  moreover have "s \<notin> uc_excluded cfg \<and> s \<notin> subscribed st \<and> \<not> is_quarantined s t st
      \<and> (\<exists>t0. held (h @ [(?T, t)]) s True t0 \<and> uc_hysteresis_ms cfg \<le> t - t0)" if "s \<in> set (to_subscribe d)" for s
  proof -
    have k: "s \<in> ?I" "rotate_action cfg ?T t s st2 = Subscribe" using that fini by (simp_all add: l)
    then have T: "s \<in> ?T" using held(2) [of ?T t s] by (simp split: if_splits)
    moreover have "\<not> is_quarantined s t st2" using k(2) T by (auto simp: rotate_action_def split: if_splits)
    ultimately show ?thesis using k held(1,3) [of ?T t s] q by (simp add: interested_def)
  qed
  moreover have "s \<in> subscribed st \<and> (\<exists>t0. held (h @ [(?T, t)]) s False t0 \<and> uc_hysteresis_ms cfg \<le> t - t0)" if "s \<in> set (to_unsubscribe d)" for s
  proof -
    have k: "rotate_action cfg ?T t s st2 = Unsubscribe" using that by (simp add: l)
    then show ?thesis using held [of ?T t s] by (auto split: if_splits)
  qed
  ultimately show ?thesis by (auto simp: list_all_iff l(1,2,3) intro: sorted_wrt_filter)
qed


definition sample_scan :: "string list \<Rightarrow> scan_result" where
  "sample_scan t = \<lparr>top5 = t, top10 = t, top20 = t, ranked = [], excluded_symbols = []\<rparr>"

definition empty_universe :: universe where
  "empty_universe = \<lparr>u_contract_sizes = [], u_bulk_loaded = False, u_last_result = None, subscribed = {}, pending_target = [],
     pending_since_ms = [], last_target_state = [], flap_window_start_ms = [], flap_count = [], quarantine_until_ms = [],
     quarantine_level = []\<rparr>"

lemma default_universe_init: "init_universe default_universe_config [] = Some (default_universe_config, empty_universe)"
  by (simp add: init_universe_def default_universe_config_def empty_universe_def EXCLUDED_SYMBOLS_def)

lemma empty_universe_run: "universe_run default_universe_config empty_universe []"
  by (rule universe_run.init [OF default_universe_init])

lemma rotation_hysteresis_witness:
  "to_subscribe (snd (apply_scan default_universe_config (sample_scan [''A'']) 300001
      (fst (apply_scan default_universe_config (sample_scan [''A'']) 1 empty_universe)))) = [''A'']
   \<and> subscribed_after (snd (apply_scan default_universe_config (sample_scan [''A'']) 300001
      (fst (apply_scan default_universe_config (sample_scan [''A'']) 1 empty_universe)))) = [''A'']"
proof -
  let ?s1 = "apply_scan default_universe_config (sample_scan [''A'']) 1 empty_universe"
  let ?s2 = "apply_scan default_universe_config (sample_scan [''A'']) 300001 (fst ?s1)"
  have r1: "?s1 = (empty_universe\<lparr>pending_target := [(''A'', True)], pending_since_ms := [(''A'', 1)], last_target_state := [(''A'', True)]\<rparr>, snd ?s1)"
    by (simp add: apply_scan_def empty_universe_def sample_scan_def keys_def flap_visit_def dset_def dget_def Let_def
        rotate_visit_def rotate_action_def default_universe_config_def EXCLUDED_SYMBOLS_def)
  have v: "to_subscribe (snd ?s2) = [''A''] \<and> to_unsubscribe (snd ?s2) = []"
    by (subst r1) (simp add: apply_scan_def empty_universe_def sample_scan_def keys_def flap_visit_def dset_def dget_def Let_def get_int_def
        rotate_visit_def rotate_action_def default_universe_config_def EXCLUDED_SYMBOLS_def is_quarantined_def clear_pending_def insert_commute)
  have run: "universe_run default_universe_config (fst ?s1) ([] @ [(set (top5 (sample_scan [''A''])), 1)])"
    by (rule universe_run.applied [OF empty_universe_run surjective_pairing])
  have "subscribed (fst ?s1) = {}" by (subst r1) (simp add: empty_universe_def)
  with rotation_hysteresis [OF run surjective_pairing [of ?s2]] v show ?thesis by simp
qed

text \<open>A symbol that a scan leaves in disagreement with its targets is pending since no later than that scan.\<close>

lemma rotate_pending_since:
  assumes inv: "universe_inv cfg st h" and clock: "list_all (\<lambda>t. t \<le> t1) (map snd h)"
    and e: "subscribed m = subscribed st" "pending_target m = pending_target st" "pending_since_ms m = pending_since_ms st"
    and v: "sym_view s st1 = sym_view s (rotate_visit cfg T t1 s m)" and differs: "(s \<in> subscribed st1) \<noteq> (s \<in> T)"
  shows "dget (pending_target st1) s = Some (s \<in> T)" and "get_int (pending_since_ms st1) s \<le> t1"
proof -
  have k: "rotate_action cfg T t1 s m = Keep" "(s \<in> subscribed st) \<noteq> (s \<in> T)"
    using v differs e(1) by (auto simp: sym_view_eq rotate_subscribed rotate_action_def split: action.splits if_splits)
  have "dget (pending_target st1) s = Some (s \<in> T) \<and> get_int (pending_since_ms st1) s \<le> t1"
  proof (cases "dget (pending_target st) s = Some (s \<in> T)")
    case True
    then have same: "rotate_visit cfg T t1 s m = m" using k e by (simp add: rotate_visit_def)
    obtain t0 where "dget (pending_since_ms st) s = Some t0" "held h s (s \<in> T) t0" using universe_inv_pending [OF inv True] by blast
    then have "get_int (pending_since_ms st) s \<le> t1" using held_time clock by (force simp: get_int_def list_all_iff)
    then show ?thesis using v True get_int_cong [of "pending_since_ms st1" s "pending_since_ms st"] by (simp add: same sym_view_eq e)
  next
    case False
    then have "dget (pending_target st1) s = Some (s \<in> T)" "dget (pending_since_ms st1) s = Some t1"
      using v k(2) e by (simp_all add: sym_view_eq rotate_visit_def dict_simps)
    then show ?thesis by (simp add: get_int_def)
  qed
  then show "dget (pending_target st1) s = Some (s \<in> T)" "get_int (pending_since_ms st1) s \<le> t1" by simp_all
qed

text \<open>Lemma: two scans with the same targets, at least the hysteresis time apart on a clock that does not go back, leave exactly the
  targets that are not excluded subscribed, whatever was subscribed or pending before, if no target is quarantined at the
  second.\<close>

theorem rotation_converges:
  assumes run: "universe_run cfg st h" and a1: "apply_scan cfg sr1 t1 st = (st1, d1)" and a2: "apply_scan cfg sr2 t2 st1 = (st2, d2)"
    and same: "set (top5 sr2) = set (top5 sr1)" and gap: "uc_hysteresis_ms cfg \<le> t2 - t1"
    and mono_clock: "list_all (\<lambda>t. t \<le> t1) (map snd h)" "t1 \<le> t2"
    and free: "list_all (\<lambda>s. \<not> is_quarantined s t2 st1) (top5 sr2)"
  shows "subscribed st2 = set (top5 sr1) - uc_excluded cfg"
proof (rule set_eqI)
  fix s
  let ?T = "set (top5 sr1)"
  have inv: "universe_inv cfg st h" by (rule universe_run_inv [OF run])
  have inv1: "universe_inv cfg st1 (h @ [(?T, t1)])" by (rule universe_inv_apply [OF inv a1])
  have fin: "finite (subscribed st)" "finite (subscribed st1)" using inv inv1 by (simp_all add: universe_inv_def)
  obtain m1 where e1: "subscribed m1 = subscribed st" "pending_target m1 = pending_target st" "pending_since_ms m1 = pending_since_ms st"
    and v1: "\<And>s. sym_view s st1 = sym_view s (if s \<in> interested cfg ?T st then rotate_visit cfg ?T t1 s m1 else m1)"
    by (rule apply_scan_effect [OF a1 fin(1)]) (rule that)
  obtain m2 where e2: "subscribed m2 = subscribed st1" "pending_target m2 = pending_target st1" "pending_since_ms m2 = pending_since_ms st1"
    and q2: "\<And>s. s \<in> ?T \<Longrightarrow> is_quarantined s t2 m2 = is_quarantined s t2 st1"
    and v2: "\<And>s. sym_view s st2 = sym_view s (if s \<in> interested cfg ?T st1 then rotate_visit cfg ?T t2 s m2 else m2)"
    by (rule apply_scan_effect [OF a2 fin(2), unfolded same]) (rule that)
  show "s \<in> subscribed st2 \<longleftrightarrow> s \<in> ?T - uc_excluded cfg"
  proof (cases "s \<in> uc_excluded cfg")
    case True
    have "universe_inv cfg st2 (h @ [(?T, t1)] @ [(?T, t2)])" using universe_inv_apply [OF inv1 a2] same by simp
    then show ?thesis using True by (auto simp: universe_inv_def)
  next
    case ok: False
    have sub2: "s \<in> subscribed st2 \<longleftrightarrow> (if s \<in> interested cfg ?T st1 then s \<in> subscribed (rotate_visit cfg ?T t2 s m2) else s \<in> subscribed st1)"
      using v2 [of s] e2(1) by (simp add: sym_view_eq split: if_splits)
    show ?thesis
    proof (cases "(s \<in> subscribed st1) = (s \<in> ?T)")
      case True
      then show ?thesis using sub2 ok e2(1) by (auto simp: rotate_subscribed rotate_action_def)
    next
      case differs: False
      then have i2: "s \<in> interested cfg ?T st1" using ok by (auto simp: interested_def)
      have i1: "s \<in> interested cfg ?T st"
      proof (rule ccontr)
        assume "s \<notin> interested cfg ?T st"
        then show False using v1 [of s] e1(1) differs ok by (auto simp: sym_view_eq interested_def)
      qed
      then have w1: "sym_view s st1 = sym_view s (rotate_visit cfg ?T t1 s m1)" using v1 by simp
      note p = rotate_pending_since [OF inv mono_clock(1) e1 w1 differs]
      have "s \<in> ?T \<Longrightarrow> \<not> is_quarantined s t2 m2" using free q2 same by (auto simp: list_all_iff)
      then have "rotate_action cfg ?T t2 s m2 = (if s \<in> ?T then Subscribe else Unsubscribe)"
        using p gap differs e2 by (auto simp: rotate_action_def)
      then show ?thesis using sub2 i2 ok by (simp add: rotate_subscribed)
    qed
  qed
qed

lemma rotation_converges_witness:
  "subscribed (fst (apply_scan default_universe_config (sample_scan [''A'']) 300001
      (fst (apply_scan default_universe_config (sample_scan [''A'']) 1 (seed_subscriptions default_universe_config [''Z''] empty_universe)))))
   = {''A''} - EXCLUDED_SYMBOLS"
proof -
  let ?s0 = "seed_subscriptions default_universe_config [''Z''] empty_universe"
  let ?s1 = "apply_scan default_universe_config (sample_scan [''A'']) 1 ?s0"
  have run: "universe_run default_universe_config ?s0 []" by (rule universe_run.seed [OF empty_universe_run])
  have "quarantine_until_ms (fst ?s1) = []"
    by (simp add: apply_scan_def seed_subscriptions_def empty_universe_def sample_scan_def keys_def flap_visit_def dset_def dget_def Let_def
        rotate_visit_def rotate_action_def default_universe_config_def EXCLUDED_SYMBOLS_def insert_commute)
  then have "list_all (\<lambda>s. \<not> is_quarantined s 300001 (fst ?s1)) (top5 (sample_scan [''A'']))"
    by (simp add: is_quarantined_def get_int_def sample_scan_def)
  from rotation_converges [OF run surjective_pairing surjective_pairing _ _ _ _ this]
  show ?thesis by (simp add: default_universe_config_def sample_scan_def)
qed


subsection \<open>Quarantine levels\<close>

definition level_of :: "string \<Rightarrow> universe \<Rightarrow> int" where
  "level_of s st = get_int (quarantine_level st) s"

lemma level_flap: "1 \<le> level_of s st \<Longrightarrow> 1 \<le> level_of s (flap_visit cfg target t k st)"
  by (auto simp: level_of_def flap_visit_def record_flap_round_trip_def enter_quarantine_def Let_def)

lemma level_stable: "1 \<le> level_of s st \<Longrightarrow> 1 \<le> level_of s (maybe_stable_reset cfg t k st)"
  by (simp add: level_of_def maybe_stable_reset_def Let_def)

lemma level_rotate: "quarantine_level (rotate_visit cfg target t k st) = quarantine_level st"
  by (simp add: rotate_visit_def clear_pending_def split: action.split)

lemma fold_keeps: "P st \<Longrightarrow> (\<And>k st. P st \<Longrightarrow> P (f k st)) \<Longrightarrow> P (fold f ks st)"
  by (induction ks arbitrary: st) auto

lemma level_loop: "quarantine_level (fst (rotate_loop cfg target t ss r)) = quarantine_level (fst r)"
  by (induction cfg target t ss r rule: rotate_loop.induct) (simp_all add: level_rotate)

lemma level_apply:
  assumes "1 \<le> level_of s st" shows "1 \<le> level_of s (fst (apply_scan cfg sr t st))"
proof -
  let ?T = "set (top5 sr)"
  let ?st1 = "fold (flap_visit cfg ?T t) (sorted_list_of_set (set (keys (last_target_state st)) \<union> ?T)) st"
  let ?st2 = "fold (maybe_stable_reset cfg t) (sorted_list_of_set (set (keys (quarantine_level ?st1)))) ?st1"
  have "1 \<le> level_of s ?st2"
    by (rule fold_keeps [of "\<lambda>st. 1 \<le> level_of s st"])
       (use assms in \<open>auto intro: level_stable fold_keeps [of "\<lambda>st. 1 \<le> level_of s st"] level_flap\<close>)
  then show ?thesis by (simp add: apply_scan_def Let_def split_beta level_of_def level_loop)
qed

text \<open>The state after a sequence of scans, each at its time.\<close>

definition run_scans :: "universe_config \<Rightarrow> (scan_result \<times> int) list \<Rightarrow> universe \<Rightarrow> universe" where
  "run_scans cfg srs st = fold (\<lambda>(sr, t) st. fst (apply_scan cfg sr t st)) srs st"

text \<open>Lemma: a symbol that has been quarantined once never gets the first step again, however long it then stays stable: the reset
  brings its level to one, and the penalty of level one is the second step. A fresh symbol does get the first step.\<close>

theorem quarantine_never_fresh:
  assumes "1 < length (uc_quarantine_steps_ms cfg)"
  shows "(get_int (quarantine_level st) s = 0 \<longrightarrow>
      get_int (quarantine_until_ms (enter_quarantine cfg s t st)) s = t + uc_quarantine_steps_ms cfg ! 0)
    \<and> (0 \<le> get_int (quarantine_level st) s \<longrightarrow>
      (\<exists>i. 1 \<le> i \<and> i < length (uc_quarantine_steps_ms cfg)
        \<and> get_int (quarantine_until_ms (enter_quarantine cfg s t' (run_scans cfg srs (enter_quarantine cfg s t st)))) s
          = t' + uc_quarantine_steps_ms cfg ! i))"
proof -
  let ?steps = "uc_quarantine_steps_ms cfg"
  let ?st = "run_scans cfg srs (enter_quarantine cfg s t st)"
  have e: "get_int (quarantine_until_ms (enter_quarantine cfg s u w)) s = u + ?steps ! nat (min (level_of s w) (int (length ?steps) - 1))" for u w
    by (simp add: enter_quarantine_def Let_def level_of_def)
  have "1 \<le> level_of s ?st" if "0 \<le> get_int (quarantine_level st) s"
    unfolding run_scans_def
    by (rule fold_keeps [of "\<lambda>st. 1 \<le> level_of s st"])
       (use that in \<open>auto simp: level_of_def enter_quarantine_def Let_def intro: level_apply [unfolded level_of_def]\<close>)
  then have "\<exists>i. 1 \<le> i \<and> i < length ?steps \<and> get_int (quarantine_until_ms (enter_quarantine cfg s t' ?st)) s = t' + ?steps ! i"
    if "0 \<le> get_int (quarantine_level st) s"
    using assms that unfolding e
    by (intro exI [of _ "nat (min (level_of s ?st) (int (length ?steps) - 1))"]) auto
  then show ?thesis using assms e [of t st] by (simp add: level_of_def)
qed

lemma quarantine_never_fresh_witness:
  "get_int (quarantine_until_ms (enter_quarantine default_universe_config ''A'' 1 empty_universe)) ''A'' = 3600001
   \<and> (\<exists>i. 1 \<le> i \<and> i < (3 :: nat) \<and> get_int (quarantine_until_ms (enter_quarantine default_universe_config ''A'' 9000000000
        (run_scans default_universe_config [(sample_scan [], 8000000000)] (enter_quarantine default_universe_config ''A'' 1 empty_universe)))) ''A''
      = 9000000000 + [3600000, 14400000, 86400000] ! i)"
proof -
  have c: "uc_quarantine_steps_ms default_universe_config = [3600000, 14400000, 86400000]" "get_int (quarantine_level empty_universe) ''A'' = 0"
    by (simp_all add: default_universe_config_def empty_universe_def get_int_def)
  show ?thesis
    using quarantine_never_fresh [of default_universe_config empty_universe "''A''" 1 9000000000 "[(sample_scan [], 8000000000)]"]
    by (simp add: c numeral_3_eq_3)
qed

subsection \<open>Targets\<close>

lemma order_symbols_prefix: "\<exists>ys. order_symbols always rs = always @ ys \<and> set ys \<subseteq> rs_symbol ` set rs \<and> distinct ys \<and> set ys \<inter> set always = {}
  \<and> set (order_symbols always rs) = set always \<union> rs_symbol ` set rs"
proof (induction rs rule: rev_induct)
  case (snoc r rs)
  then obtain ys where ys: "order_symbols always rs = always @ ys" "set ys \<subseteq> rs_symbol ` set rs" "distinct ys" "set ys \<inter> set always = {}"
    "set (order_symbols always rs) = set always \<union> rs_symbol ` set rs" by blast
  have o: "order_symbols always (rs @ [r]) = (if rs_symbol r \<in> set (order_symbols always rs) then order_symbols always rs
      else order_symbols always rs @ [rs_symbol r])" by (simp add: order_symbols_def)
  show ?case
  proof (cases "rs_symbol r \<in> set (order_symbols always rs)")
    case True
    then show ?thesis using ys unfolding o by (intro exI [of _ ys]) auto
  next
    case False
    then show ?thesis using ys unfolding o by (intro exI [of _ "ys @ [rs_symbol r]"]) auto
  qed
qed (simp add: order_symbols_def)

text \<open>Lemma: a scan's three lists are prefixes of one ranking that starts with the configured symbols and goes on with the ranked ones, each
  once; no excluded symbol is in them, every configured symbol is a target if there are at most five, and the rotation state is
  untouched. A failed ranking leaves everything but the contract sizes as it was.\<close>

theorem scan_targets:
  assumes "init_universe cfg0 sizes = Some (cfg, st0)" and "scan cfg fcfg bulk raw st = (st', r)" and "distinct (uc_always cfg)"
  shows "(case r of
      None \<Rightarrow> u_last_result st' = u_last_result st
    | Some sr \<Rightarrow> top5 sr = take 5 (top20 sr) \<and> top10 sr = take 10 (top20 sr) \<and> distinct (top20 sr)
        \<and> list_all (\<lambda>s. s \<notin> uc_excluded cfg) (top20 sr) \<and> u_last_result st' = Some sr
        \<and> (length (uc_always cfg) \<le> 5 \<longrightarrow> set (uc_always cfg) \<subseteq> set (top5 sr)))
    \<and> subscribed st' = subscribed st \<and> pending_target st' = pending_target st \<and> quarantine_level st' = quarantine_level st"
proof -
  have al: "set (uc_always cfg) \<inter> uc_excluded cfg = {}"
    using assms(1) by (auto simp: init_universe_def split: if_splits)
  have rest: "subscribed st' = subscribed st \<and> pending_target st' = pending_target st \<and> quarantine_level st' = quarantine_level st"
    using assms(2) by (auto simp: scan_def Let_def split: option.splits if_splits)
  show ?thesis
  proof (cases r)
    case None
    then show ?thesis using assms(2) rest by (auto simp: scan_def Let_def split: option.splits if_splits)
  next
    case (Some sr)
    then obtain own rs where rs: "fetch_and_rank fcfg (uc_excluded cfg) own raw = Some rs"
      and sr: "top5 sr = take 5 (order_symbols (uc_always cfg) rs)" "top10 sr = take 10 (order_symbols (uc_always cfg) rs)"
        "top20 sr = take 20 (order_symbols (uc_always cfg) rs)" "u_last_result st' = Some sr"
      using assms(2) by (auto simp: scan_def Let_def split: option.splits if_splits)
    have "rs_symbol x \<notin> uc_excluded cfg" if "x \<in> set rs" for x
    proof -
      obtain items where i: "raw = Some items" using rs by (cases raw) (auto simp: fetch_and_rank_def)
      from ranking_best_passes [OF rs [unfolded i]] that show ?thesis by (auto simp: list_all_iff passes_gates_def)
    qed
    then have "set (order_symbols (uc_always cfg) rs) \<inter> uc_excluded cfg = {}"
      using order_symbols_prefix [of "uc_always cfg" rs] al by auto
    then have ex: "list_all (\<lambda>s. s \<notin> uc_excluded cfg) (top20 sr)" unfolding sr(3) list_all_iff by (meson disjoint_iff in_set_takeD)
    have "distinct (order_symbols (uc_always cfg) rs)" using order_symbols_prefix [of "uc_always cfg" rs] assms(3) by auto
    then have d: "distinct (top20 sr)" unfolding sr(3) by (rule distinct_take)
    have "set (uc_always cfg) \<subseteq> set (top5 sr)" if "length (uc_always cfg) \<le> 5"
      using order_symbols_prefix [of "uc_always cfg" rs] that unfolding sr(1) by auto
    then show ?thesis using Some sr ex d rest by (simp add: min_def)
  qed
qed

lemma scan_targets_witness:
  "\<exists>sr. snd (scan default_universe_config unit_config (Some [(''A'', 1)]) (Some [one_item ''A'']) empty_universe) = Some sr
     \<and> set [''BTC_USDT''] \<subseteq> set (top5 sr) \<and> distinct (top20 sr)"
proof -
  let ?r = "scan default_universe_config unit_config (Some [(''A'', 1)]) (Some [one_item ''A'']) empty_universe"
  have "snd ?r \<noteq> None" by (simp add: scan_def Let_def empty_universe_def fetch_and_rank_def split: option.split)
  then obtain sr where sr: "snd ?r = Some sr" by blast
  have a: "uc_always default_universe_config = [''BTC_USDT'']" by (simp add: default_universe_config_def)
  from scan_targets [OF default_universe_init surjective_pairing [of ?r]] sr a show ?thesis by auto
qed

end
