(* ===== verification/Alert_Agent.thy ===== *)
theory Alert_Agent
  imports Prelude
begin

text \<open>
  \<^verbatim>\<open>src/alerting/event_catalog.py\<close> and \<^verbatim>\<open>src/alerting/agent.py\<close>: alerts are stored, classified, and sent by any number of drains that run
  between each other's network waits. What a drain does up to its next wait is one step, and the replies to the requests
  of one alert are a function of their number. The clock is a field that only the passing of time changes. SQL statements
  succeed; the texts of the messages are left out.
\<close>

section \<open>Catalogue\<close>

datatype severity = Critical | Warning | Info

definition EVENT_SEVERITY :: "(string \<times> severity) list" where
  "EVENT_SEVERITY =
     [(''CRITICAL_ALERT'', Critical), (''FVG_EXPIRED_HARD_DEADLINE'', Critical), (''IP_BAN_DETECTED'', Critical),
      (''MICRO_TRIGGER_QUARANTINE'', Warning), (''FVG_INVALIDATED'', Warning), (''TRIGGER'', Warning), (''ENTRY'', Warning),
      (''FLIP_DETECTED'', Warning), (''TOP5_DARALMA_ALERT'', Warning), (''TRADE_REJECTED_FEE_DRAG'', Warning),
      (''DUST_POSITION_REMAINING'', Warning), (''OBSERVATION_STOPPED'', Warning), (''OBSERVATION_RESUMED'', Warning),
      (''OBSERVATION_COMPLETED'', Warning), (''SWEEP'', Info), (''MSS'', Info), (''FVG_OTE'', Info), (''MICRO_CONFIRM'', Info),
      (''ENTRY_SIGNAL'', Info), (''REJECT'', Info), (''SECOND_ENTRY_SKIPPED'', Info), (''B3_1_SUBSCRIBE'', Info),
      (''B3_1_UNSUBSCRIBE'', Info)]"

definition REASON_AWARE_SEVERITY :: "(string \<times> (string \<times> severity) list) list" where
  "REASON_AWARE_SEVERITY = [(''EXIT'', [(''SL'', Warning), (''TP'', Warning), (''END_OF_BACKTEST'', Info)])]"

definition get_severity :: "string \<Rightarrow> string option \<Rightarrow> severity" where
  "get_severity event_type reason =
     (case map_of REASON_AWARE_SEVERITY event_type of
        Some table \<Rightarrow>
          (case reason of
             None \<Rightarrow> Warning
           | Some r \<Rightarrow> (case map_of table r of Some sev \<Rightarrow> sev | None \<Rightarrow> Warning))
      | None \<Rightarrow> (case map_of EVENT_SEVERITY event_type of Some sev \<Rightarrow> sev | None \<Rightarrow> Warning))"

definition is_critical :: "string \<Rightarrow> string option \<Rightarrow> bool" where
  "is_critical event_type reason \<longleftrightarrow> get_severity event_type reason = Critical"

section \<open>State\<close>

record alert_config =
  telegram_enabled :: bool
  discord_enabled :: bool
  rate_limit_s :: int
  batch_size :: nat
  batch_window_s :: int
  dedup_window_s :: int
  dedup_batch_window_s :: int
  pending_max :: int
  pending_ttl_s :: int
  retry_max :: nat
  breaker_fail_threshold :: int
  breaker_open_s :: int

definition default_alert_config :: alert_config where
  "default_alert_config = \<lparr>telegram_enabled = True, discord_enabled = False, rate_limit_s = 30, batch_size = 5, batch_window_s = 5,
     dedup_window_s = 60, dedup_batch_window_s = 300, pending_max = 100, pending_ttl_s = 600, retry_max = 3,
     breaker_fail_threshold = 5, breaker_open_s = 60\<rparr>"

text \<open>The two counts are natural numbers, so only the other fields can be negative.\<close>

definition validate_config :: "alert_config \<Rightarrow> bool" where
  "validate_config cfg \<longleftrightarrow> \<not> dedup_window_s cfg < rate_limit_s cfg \<and> (telegram_enabled cfg \<or> discord_enabled cfg)
     \<and> 0 \<le> rate_limit_s cfg \<and> 0 \<le> batch_window_s cfg \<and> 0 \<le> dedup_window_s cfg \<and> 0 \<le> dedup_batch_window_s cfg
     \<and> 0 \<le> pending_max cfg \<and> 0 \<le> pending_ttl_s cfg \<and> 0 \<le> breaker_fail_threshold cfg \<and> 0 \<le> breaker_open_s cfg"

datatype status = Pending | Sending | Delivered | Failed | Expired

datatype breaker = Closed | Open | HalfOpen

record payload =
  pl_symbol :: "string option"
  pl_reason :: "string option"
  pl_ts_ms :: "int option"
  pl_source :: "string option"
  pl_source_seq :: "int option"
  pl_correlation_id :: "string option"
  pl_exchange_ts_ms :: "int option"

record event_dict =
  ed_event_type :: string
  ed_severity :: severity
  ed_symbol :: "string option"
  ed_ts_ms :: int
  ed_reason :: "string option"

record alert_row =
  ar_id :: nat
  ar_ts_ms :: int
  ar_event_type :: string
  ar_severity :: severity
  ar_symbol :: "string option"
  ar_payload :: payload
  ar_status :: status
  ar_correlation_id :: string
  ar_source_seq :: "int option"
  ar_exchange_ts_ms :: "int option"
  ar_created_at_ms :: int
  ar_attempts :: int
  ar_last_error :: "string option"

record alert_metrics =
  m_emitted :: nat
  m_critical_queued :: nat
  m_warning_queued :: nat
  m_info_logged :: nat
  m_delivered :: nat
  m_failed :: nat
  m_expired :: nat
  m_breaker_open_count :: nat
  m_dedup_merged :: nat

text \<open>\<open>sent_log\<close> lists the ids of the alerts handed to the network, oldest first.\<close>

record agent =
  rows :: "alert_row list"
  next_id :: nat
  critical_queue :: "(nat \<times> event_dict) list"
  warning_buffer :: "(nat \<times> event_dict \<times> nat) list"
  batch_start_mono :: "rat option"
  dedup_index :: "(string option \<times> string, nat \<times> rat \<times> nat) dict"
  drain_wake :: bool
  breaker_state :: breaker
  breaker_consecutive_fails :: int
  breaker_open_until_mono :: rat
  half_open_in_flight :: bool
  metrics :: alert_metrics
  mono :: rat
  sent_log :: "nat list"

definition new_agent :: "alert_row list \<Rightarrow> nat \<Rightarrow> rat \<Rightarrow> agent" where
  "new_agent db n now = \<lparr>rows = db, next_id = n, critical_queue = [], warning_buffer = [], batch_start_mono = None, dedup_index = [],
     drain_wake = False, breaker_state = Closed, breaker_consecutive_fails = 0, breaker_open_until_mono = 0, half_open_in_flight = False,
     metrics = \<lparr>m_emitted = 0, m_critical_queued = 0, m_warning_queued = 0, m_info_logged = 0, m_delivered = 0, m_failed = 0,
       m_expired = 0, m_breaker_open_count = 0, m_dedup_merged = 0\<rparr>, mono = now, sent_log = []\<rparr>"

section \<open>Rows\<close>

definition correlation :: "payload \<Rightarrow> string" where
  "correlation p = (case pl_correlation_id p of
     Some (c # cs) \<Rightarrow> c # cs
   | _ \<Rightarrow> (case pl_source p of Some (c # cs) \<Rightarrow> c # cs | _ \<Rightarrow> ''?'') @ '':'' @ str_of_int (case pl_source_seq p of Some n \<Rightarrow> n | None \<Rightarrow> 0))"

definition insert_event :: "string \<Rightarrow> severity \<Rightarrow> payload \<Rightarrow> int \<Rightarrow> int \<Rightarrow> agent \<Rightarrow> agent \<times> nat" where
  "insert_event event_type sev p ts_ms wall_ms a =
     (a\<lparr>rows := rows a @ [\<lparr>ar_id = next_id a, ar_ts_ms = ts_ms, ar_event_type = event_type, ar_severity = sev, ar_symbol = pl_symbol p,
          ar_payload = p, ar_status = Pending, ar_correlation_id = correlation p, ar_source_seq = pl_source_seq p,
          ar_exchange_ts_ms = pl_exchange_ts_ms p, ar_created_at_ms = wall_ms, ar_attempts = 0, ar_last_error = None\<rparr>],
        next_id := next_id a + 1\<rparr>, next_id a)"

definition update_status :: "nat \<Rightarrow> status \<Rightarrow> int \<Rightarrow> string option \<Rightarrow> agent \<Rightarrow> agent" where
  "update_status i st attempts_delta err a =
     a\<lparr>rows := map (\<lambda>r. if ar_id r = i then r\<lparr>ar_status := st, ar_attempts := ar_attempts r + attempts_delta,
          ar_last_error := (case err of None \<Rightarrow> ar_last_error r | Some e \<Rightarrow> Some e)\<rparr> else r) (rows a)\<rparr>"

definition pending_row :: "nat \<Rightarrow> agent \<Rightarrow> bool" where
  "pending_row i a \<longleftrightarrow> list_ex (\<lambda>r. ar_id r = i \<and> ar_status r = Pending) (rows a)"

text \<open>\<^verbatim>\<open>UPDATE ... WHERE id=? AND delivery_status='pending'\<close>, true when it changed a row.\<close>

definition optimistic_sending :: "nat \<Rightarrow> agent \<Rightarrow> agent \<times> bool" where
  "optimistic_sending i a =
     (a\<lparr>rows := map (\<lambda>r. if ar_id r = i \<and> ar_status r = Pending then r\<lparr>ar_status := Sending\<rparr> else r) (rows a)\<rparr>, pending_row i a)"

definition startup_expired_sweep :: "alert_config \<Rightarrow> int \<Rightarrow> agent \<Rightarrow> agent" where
  "startup_expired_sweep cfg wall_ms a =
     (let cutoff = wall_ms - pending_ttl_s cfg * 1000;
          old = (\<lambda>r. ar_status r = Pending \<and> ar_ts_ms r < cutoff)
      in a\<lparr>rows := map (\<lambda>r. if old r then r\<lparr>ar_status := Expired\<rparr> else r) (rows a),
           metrics := (metrics a)\<lparr>m_expired := m_expired (metrics a) + length (filter old (rows a))\<rparr>\<rparr>)"

section \<open>Emitting\<close>

definition to_event_dict :: "string \<Rightarrow> severity \<Rightarrow> payload \<Rightarrow> int \<Rightarrow> event_dict" where
  "to_event_dict event_type sev p ts_ms = \<lparr>ed_event_type = event_type, ed_severity = sev, ed_symbol = pl_symbol p,
     ed_ts_ms = (case pl_ts_ms p of None \<Rightarrow> ts_ms | Some t \<Rightarrow> if t = 0 then ts_ms else t), ed_reason = pl_reason p\<rparr>"

text \<open>The first buffered alert with the id is counted up.\<close>

fun bump :: "nat \<Rightarrow> (nat \<times> event_dict \<times> nat) list \<Rightarrow> ((nat \<times> event_dict \<times> nat) list \<times> nat) option" where
  "bump i [] = None"
| "bump i ((eid, evd, c) # buf) = (if eid = i then Some ((eid, evd, c + 1) # buf, c + 1)
     else case bump i buf of None \<Rightarrow> None | Some (buf', n) \<Rightarrow> Some ((eid, evd, c) # buf', n))"

definition try_dedup_merge :: "alert_config \<Rightarrow> string \<Rightarrow> payload \<Rightarrow> agent \<Rightarrow> agent \<times> nat option" where
  "try_dedup_merge cfg event_type p a =
     (case dget (dedup_index a) (pl_symbol p, event_type) of
        None \<Rightarrow> (a, None)
      | Some (i, last_mono, count) \<Rightarrow>
          if of_int (dedup_window_s cfg) < mono a - last_mono then (a, None)
          else (case bump i (warning_buffer a) of
                  None \<Rightarrow> (a, None)
                | Some (buf, n) \<Rightarrow> (a\<lparr>warning_buffer := buf, dedup_index := dset (dedup_index a) (pl_symbol p, event_type) (i, mono a, n)\<rparr>, Some i)))"

definition count_metric :: "(alert_metrics \<Rightarrow> alert_metrics) \<Rightarrow> agent \<Rightarrow> agent" where
  "count_metric f a = a\<lparr>metrics := f (metrics a)\<rparr>"

definition emit_alert :: "alert_config \<Rightarrow> string \<Rightarrow> payload \<Rightarrow> int \<Rightarrow> agent \<Rightarrow> agent \<times> nat" where
  "emit_alert cfg event_type p wall_ms a =
     (let sev = get_severity event_type (pl_reason p);
          a0 = count_metric (\<lambda>m. m\<lparr>m_emitted := m_emitted m + 1\<rparr>) a;
          ts_ms = (case pl_ts_ms p of None \<Rightarrow> wall_ms | Some t \<Rightarrow> if t = 0 then wall_ms else t);
          ed = to_event_dict event_type sev p ts_ms
      in case sev of
           Info \<Rightarrow>
             (let (a1, i) = insert_event event_type sev p ts_ms wall_ms a0
              in (count_metric (\<lambda>m. m\<lparr>m_info_logged := m_info_logged m + 1\<rparr>) (update_status i Delivered 0 None a1), i))
         | Critical \<Rightarrow>
             (let (a1, i) = insert_event event_type sev p ts_ms wall_ms a0
              in (count_metric (\<lambda>m. m\<lparr>m_critical_queued := m_critical_queued m + 1\<rparr>)
                    (a1\<lparr>critical_queue := critical_queue a1 @ [(i, ed)], drain_wake := True\<rparr>), i))
         | Warning \<Rightarrow>
             (case try_dedup_merge cfg event_type p a0 of
                (a1, Some i) \<Rightarrow> (count_metric (\<lambda>m. m\<lparr>m_dedup_merged := m_dedup_merged m + 1\<rparr>) (a1\<lparr>drain_wake := True\<rparr>), i)
              | (_, None) \<Rightarrow>
                  (let (a1, i) = insert_event event_type sev p ts_ms wall_ms a0;
                       a2 = a1\<lparr>warning_buffer := warning_buffer a1 @ [(i, ed, 1)],
                               dedup_index := dset (dedup_index a1) (pl_symbol p, event_type) (i, mono a1, 1),
                               batch_start_mono := (case batch_start_mono a1 of None \<Rightarrow> Some (mono a1) | Some t \<Rightarrow> Some t)\<rparr>;
                       a3 = count_metric (\<lambda>m. m\<lparr>m_warning_queued := m_warning_queued m + 1\<rparr>) a2
                   in (if batch_size cfg \<le> length (warning_buffer a3) then a3\<lparr>drain_wake := True\<rparr> else a3, i))))"

section \<open>Requests\<close>

text \<open>A reply with its \<^verbatim>\<open>Retry-After\<close> seconds, a timeout or client error, or any other exception.\<close>

datatype reply = Reply int "int option" | NetFail | Raised

datatype channel = Telegram | Discord

definition post_channel :: "reply \<Rightarrow> (bool \<times> int \<times> int option) option" where
  "post_channel r = (case r of
     Reply st ra \<Rightarrow> Some (200 \<le> st \<and> st < 300, st, if st = 429 then ra else None)
   | NetFail \<Rightarrow> Some (False, 0, None)
   | Raised \<Rightarrow> None)"

text \<open>\<open>n\<close> requests have been made before; the posts made are logged with whether markup was requested.\<close>

type_synonym post_result = "(bool \<times> int \<times> string option \<times> int option) option"

definition post_all :: "alert_config \<Rightarrow> (nat \<Rightarrow> reply) \<Rightarrow> nat \<Rightarrow> bool \<Rightarrow> post_result \<times> (channel \<times> bool) list" where
  "post_all cfg reply n markup =
     (let discord = (\<lambda>k posts.
            if discord_enabled cfg then
              (case post_channel (reply k) of
                 None \<Rightarrow> (None, posts @ [(Discord, False)])
               | Some (ok, st, ra) \<Rightarrow>
                   (if ok then Some (True, 200, None, None) else Some (False, st, Some (''discord status='' @ str_of_int st), ra),
                    posts @ [(Discord, False)]))
            else (Some (True, 200, None, None), posts))
      in if telegram_enabled cfg then
           (case post_channel (reply n) of
              None \<Rightarrow> (None, [(Telegram, markup)])
            | Some (ok, st, ra) \<Rightarrow>
                if \<not> ok then (Some (False, st, Some (''telegram status='' @ str_of_int st), ra), [(Telegram, markup)])
                else discord (n + 1) [(Telegram, markup)])
         else discord n [])"

text \<open>The retry loop with \<open>k\<close> tries left: success, the last failure, or \<open>None\<close> for an exception, and the posts made.\<close>

fun attempt :: "alert_config \<Rightarrow> (nat \<Rightarrow> reply) \<Rightarrow> nat \<Rightarrow> nat \<Rightarrow> bool \<Rightarrow> string option \<Rightarrow> (bool \<times> string option) option \<times> (channel \<times> bool) list" where
  "attempt cfg reply 0 n markup last_error = (Some (False, last_error), [])"
| "attempt cfg reply (Suc k) n markup last_error =
     (case post_all cfg reply n markup of
        (None, posts) \<Rightarrow> (None, posts)
      | (Some (True, st, err, ra), posts) \<Rightarrow> (Some (True, None), posts)
      | (Some (False, st, err, ra), posts) \<Rightarrow>
          (let markup' = (if st = 429 \<and> ra \<noteq> None then markup else if st = 400 \<and> markup then False else markup);
               (r, more) = attempt cfg reply k (n + length posts) markup' err
           in (r, posts @ more)))"

section \<open>Breaker\<close>

definition on_success :: "agent \<Rightarrow> agent" where
  "on_success a =
     (let a1 = a\<lparr>breaker_consecutive_fails := 0\<rparr>
      in if breaker_state a1 \<noteq> Closed then a1\<lparr>breaker_state := Closed, half_open_in_flight := False\<rparr> else a1)"

definition on_final_fail :: "alert_config \<Rightarrow> agent \<Rightarrow> agent" where
  "on_final_fail cfg a =
     (let a1 = a\<lparr>breaker_consecutive_fails := breaker_consecutive_fails a + 1\<rparr>
      in if breaker_state a1 = HalfOpen \<or> breaker_fail_threshold cfg \<le> breaker_consecutive_fails a1
         then count_metric (\<lambda>m. m\<lparr>m_breaker_open_count := m_breaker_open_count m + 1\<rparr>)
                (a1\<lparr>breaker_state := Open, breaker_open_until_mono := mono a1 + of_int (breaker_open_s cfg), half_open_in_flight := False\<rparr>)
         else a1)"

section \<open>Drains\<close>

text \<open>What a drain waits for: the replies for one alert, for a batch, or for the half-open test.\<close>

datatype task = SendCritical nat event_dict | SendBatch "nat list" "(event_dict \<times> nat) list" | SendTest nat event_dict

definition log_send :: "nat list \<Rightarrow> agent \<Rightarrow> agent" where
  "log_send ids a = a\<lparr>sent_log := sent_log a @ ids\<rparr>"

fun lock_all :: "nat list \<Rightarrow> agent \<Rightarrow> agent \<times> nat list" where
  "lock_all [] a = (a, [])"
| "lock_all (i # is) a =
     (let (a1, ok) = optimistic_sending i a; (a2, ids) = lock_all is a1 in (a2, if ok then i # ids else ids))"

text \<open>Every item of the batch is sent, also one whose lock failed; the log has the ids of the items.\<close>

definition flush_warning_batch :: "alert_config \<Rightarrow> agent \<Rightarrow> agent \<times> task option" where
  "flush_warning_batch cfg a =
     (let batch = take (batch_size cfg) (warning_buffer a);
          rest = drop (batch_size cfg) (warning_buffer a);
          a1 = a\<lparr>warning_buffer := rest, batch_start_mono := (if rest = [] then None else Some (mono a))\<rparr>;
          (a2, ids) = lock_all (map fst batch) a1
      in if ids = [] then (a2, None)
         else (log_send (map fst batch) a2, Some (SendBatch ids (map snd batch))))"

definition drain_warnings :: "alert_config \<Rightarrow> agent \<Rightarrow> agent \<times> task option" where
  "drain_warnings cfg a =
     (if warning_buffer a \<noteq> [] \<and> (batch_size cfg \<le> length (warning_buffer a)
         \<or> (case batch_start_mono a of None \<Rightarrow> False | Some t \<Rightarrow> of_int (batch_window_s cfg) \<le> mono a - t))
      then flush_warning_batch cfg a else (a, None))"

text \<open>From the top of the critical loop to the next wait.\<close>

fun drain_loop :: "alert_config \<Rightarrow> (nat \<times> event_dict) list \<Rightarrow> agent \<Rightarrow> agent \<times> task option" where
  "drain_loop cfg [] a = drain_warnings cfg (a\<lparr>critical_queue := []\<rparr>)"
| "drain_loop cfg ((i, ed) # q) a =
     (let (a1, ok) = optimistic_sending i (a\<lparr>critical_queue := q\<rparr>)
      in if ok then (log_send [i] a1, Some (SendCritical i ed)) else drain_loop cfg q a1)"

definition row_to_event_dict :: "alert_row \<Rightarrow> event_dict" where
  "row_to_event_dict r = \<lparr>ed_event_type = ar_event_type r, ed_severity = ar_severity r, ed_symbol = ar_symbol r, ed_ts_ms = ar_ts_ms r,
     ed_reason = pl_reason (ar_payload r)\<rparr>"

text \<open>The oldest pending critical row; of several equally old ones the first in the table.\<close>

fun oldest :: "alert_row list \<Rightarrow> alert_row option" where
  "oldest [] = None"
| "oldest (r # rs) = (case oldest rs of None \<Rightarrow> Some r | Some r' \<Rightarrow> if ar_ts_ms r' < ar_ts_ms r then Some r' else Some r)"

definition half_open_test :: "agent \<Rightarrow> agent \<times> task option" where
  "half_open_test a =
     (case oldest (filter (\<lambda>r. ar_status r = Pending \<and> ar_severity r = Critical) (rows a)) of
        None \<Rightarrow> (a, None)
      | Some r \<Rightarrow>
          (let (a1, ok) = optimistic_sending (ar_id r) a
           in if ok then (log_send [ar_id r] (a1\<lparr>half_open_in_flight := True\<rparr>), Some (SendTest (ar_id r) (row_to_event_dict r)))
              else (a1, None)))"

definition drain_once :: "alert_config \<Rightarrow> agent \<Rightarrow> agent \<times> task option" where
  "drain_once cfg a =
     (if breaker_state a = Open \<and> mono a < breaker_open_until_mono a then (a, None)
      else let a1 = (if breaker_state a = Open then a\<lparr>breaker_state := HalfOpen, half_open_in_flight := False\<rparr> else a)
           in if breaker_state a1 = HalfOpen then half_open_test a1 else drain_loop cfg (critical_queue a1) a1)"

definition send_result :: "alert_config \<Rightarrow> nat list \<Rightarrow> bool \<Rightarrow> string option \<Rightarrow> agent \<Rightarrow> agent" where
  "send_result cfg ids ok err a =
     (if ok then on_success (count_metric (\<lambda>m. m\<lparr>m_delivered := m_delivered m + length ids\<rparr>) (fold (\<lambda>i. update_status i Delivered 0 None) ids a))
      else on_final_fail cfg (count_metric (\<lambda>m. m\<lparr>m_failed := m_failed m + length ids\<rparr>)
             (fold (\<lambda>i. update_status i Failed (int (retry_max cfg)) err) ids a)))"

text \<open>The replies arrive: the drain goes on to its next wait, or ends. An exception ends it without a status update.\<close>

definition finish_send :: "alert_config \<Rightarrow> task \<Rightarrow> (nat \<Rightarrow> reply) \<Rightarrow> agent \<Rightarrow> agent \<times> task option" where
  "finish_send cfg tsk reply a =
     (case (fst (attempt cfg reply (retry_max cfg) 0 True None), tsk) of
        (None, SendTest i ed) \<Rightarrow> (a\<lparr>half_open_in_flight := False\<rparr>, None)
      | (None, _) \<Rightarrow> (a, None)
      | (Some (ok, err), SendCritical i ed) \<Rightarrow>
          (let a1 = send_result cfg [i] ok err a in drain_loop cfg (critical_queue a1) a1)
      | (Some (ok, err), SendBatch ids items) \<Rightarrow> (send_result cfg ids ok err a, None)
      | (Some (ok, err), SendTest i ed) \<Rightarrow> ((send_result cfg [i] ok err a)\<lparr>half_open_in_flight := False\<rparr>, None))"

text \<open>Cancelling a waiting drain, as \<^verbatim>\<open>stop\<close> does.\<close>

definition cancel_send :: "task \<Rightarrow> agent \<Rightarrow> agent" where
  "cancel_send tsk a = (case tsk of SendTest i ed \<Rightarrow> a\<lparr>half_open_in_flight := False\<rparr> | _ \<Rightarrow> a)"


section \<open>Runs\<close>

text \<open>The agent with its waiting drains, from its start on the rows an earlier process left (ids below \<open>n0\<close>). Any number of
  drains may wait at a time: the loop's, and one for every \<^verbatim>\<open>send_direct\<close>.\<close>

inductive alert_run :: "alert_config \<Rightarrow> alert_row list \<Rightarrow> nat \<Rightarrow> agent \<Rightarrow> task list \<Rightarrow> bool" for cfg db n0 where
  start: "list_all (\<lambda>r. ar_id r < n0) db \<Longrightarrow> alert_run cfg db n0 (startup_expired_sweep cfg wall_ms (new_agent db n0 now)) []"
| emits: "alert_run cfg db n0 a ts \<Longrightarrow> emit_alert cfg event_type p wall_ms a = (a', i) \<Longrightarrow> alert_run cfg db n0 a' ts"
| drain: "alert_run cfg db n0 a ts \<Longrightarrow> drain_once cfg (a\<lparr>drain_wake := w\<rparr>) = (a', t) \<Longrightarrow>
    alert_run cfg db n0 a' (ts @ (case t of None \<Rightarrow> [] | Some tsk \<Rightarrow> [tsk]))"
| replies: "alert_run cfg db n0 a (ts1 @ tsk # ts2) \<Longrightarrow> finish_send cfg tsk reply a = (a', t) \<Longrightarrow>
    alert_run cfg db n0 a' (ts1 @ (case t of None \<Rightarrow> [] | Some tsk' \<Rightarrow> [tsk']) @ ts2)"
| cancel: "alert_run cfg db n0 a (ts1 @ tsk # ts2) \<Longrightarrow> alert_run cfg db n0 (cancel_send tsk a) (ts1 @ ts2)"
| wait: "alert_run cfg db n0 a ts \<Longrightarrow> 0 \<le> d \<Longrightarrow> alert_run cfg db n0 (a\<lparr>mono := mono a + d\<rparr>) ts"

inductive_cases alert_runE: "alert_run cfg db n0 a ts"

fun task_ids :: "task \<Rightarrow> nat list" where
  "task_ids (SendCritical i ed) = [i]"
| "task_ids (SendBatch ids items) = ids"
| "task_ids (SendTest i ed) = [i]"

text \<open>The invariant: what was handed over is not pending any more, and what is buffered is; the queue holds critical rows
  only, the buffer warnings.\<close>

definition queues_ok :: "agent \<Rightarrow> bool" where
  "queues_ok a \<longleftrightarrow> (\<forall>r \<in> set (rows a). ar_id r < next_id a)
     \<and> (\<forall>i \<in> set (sent_log a). i < next_id a) \<and> (\<forall>i \<in> fst ` set (critical_queue a). i < next_id a)
     \<and> distinct (map fst (warning_buffer a))
     \<and> (\<forall>i \<in> fst ` set (warning_buffer a). pending_row i a)
     \<and> (\<forall>r \<in> set (rows a). ar_id r \<in> fst ` set (critical_queue a) \<longrightarrow> ar_severity r = Critical)
     \<and> (\<forall>r \<in> set (rows a). ar_id r \<in> fst ` set (warning_buffer a) \<longrightarrow> ar_severity r = Warning)"

definition log_ok :: "agent \<Rightarrow> bool" where
  "log_ok a \<longleftrightarrow> distinct (sent_log a) \<and> (\<forall>i \<in> set (sent_log a). \<not> pending_row i a)"

lemma pending_row_iff: "pending_row i a \<longleftrightarrow> (\<exists>r \<in> set (rows a). ar_id r = i \<and> ar_status r = Pending)"
  by (auto simp: pending_row_def list_ex_iff)

lemma pending_not_sent: "log_ok a \<Longrightarrow> pending_row i a \<Longrightarrow> i \<notin> set (sent_log a)"
  by (auto simp: log_ok_def)

lemma optimistic_rows: "fst (optimistic_sending i a) = a\<lparr>rows := rows (fst (optimistic_sending i a))\<rparr>" "snd (optimistic_sending i a) = pending_row i a"
  by (simp_all add: optimistic_sending_def)

lemma optimistic_fields [simp]:
  "next_id (fst (optimistic_sending i a)) = next_id a" "sent_log (fst (optimistic_sending i a)) = sent_log a"
  "critical_queue (fst (optimistic_sending i a)) = critical_queue a" "warning_buffer (fst (optimistic_sending i a)) = warning_buffer a"
  "breaker_state (fst (optimistic_sending i a)) = breaker_state a" "metrics (fst (optimistic_sending i a)) = metrics a"
  "snd (optimistic_sending i a) = pending_row i a"
  by (simp_all add: optimistic_sending_def)

text \<open>A step on the rows only, after which exactly the ids of \<open>I\<close> are not pending any more.\<close>

definition rows_step :: "nat set \<Rightarrow> agent \<Rightarrow> agent \<Rightarrow> bool" where
  "rows_step I a a' \<longleftrightarrow> (\<forall>r' \<in> set (rows a'). \<exists>r \<in> set (rows a). ar_id r' = ar_id r \<and> ar_severity r' = ar_severity r)
     \<and> (\<forall>i. pending_row i a' \<longleftrightarrow> pending_row i a \<and> i \<notin> I)
     \<and> next_id a' = next_id a \<and> sent_log a' = sent_log a \<and> critical_queue a' = critical_queue a \<and> warning_buffer a' = warning_buffer a"

lemma rows_step_row:
  assumes "rows_step I a a'" and "r' \<in> set (rows a')"
  shows "\<exists>r. r \<in> set (rows a) \<and> ar_id r' = ar_id r \<and> ar_severity r' = ar_severity r"
  using assms by (auto simp: rows_step_def)

lemma queues_okD:
  assumes "queues_ok a"
  shows "r \<in> set (rows a) \<Longrightarrow> ar_id r < next_id a"
    and "i \<in> fst ` set (warning_buffer a) \<Longrightarrow> pending_row i a"
    and "r \<in> set (rows a) \<Longrightarrow> ar_id r \<in> fst ` set (critical_queue a) \<Longrightarrow> ar_severity r = Critical"
    and "r \<in> set (rows a) \<Longrightarrow> ar_id r \<in> fst ` set (warning_buffer a) \<Longrightarrow> ar_severity r = Warning"
  using assms unfolding queues_ok_def by blast+

lemma queues_ok_step:
  assumes q: "queues_ok a" and s: "rows_step I a a'" and I: "I \<inter> fst ` set (warning_buffer a) = {}"
  shows "queues_ok a'"
proof -
  have f: "next_id a' = next_id a" "sent_log a' = sent_log a" "critical_queue a' = critical_queue a" "warning_buffer a' = warning_buffer a"
    and p: "pending_row i a' \<longleftrightarrow> pending_row i a \<and> i \<notin> I" for i
    using s by (simp_all add: rows_step_def)
  have old: "ar_id r < next_id a \<and> (ar_id r \<in> fst ` set (critical_queue a) \<longrightarrow> ar_severity r = Critical)
      \<and> (ar_id r \<in> fst ` set (warning_buffer a) \<longrightarrow> ar_severity r = Warning)" if r: "r \<in> set (rows a')" for r
  proof -
    obtain r0 where "r0 \<in> set (rows a)" "ar_id r = ar_id r0" "ar_severity r = ar_severity r0" using rows_step_row [OF s r] by blast
    then show ?thesis using queues_okD [OF q] by simp
  qed
  have pend: "pending_row i a'" if "i \<in> fst ` set (warning_buffer a)" for i
    using queues_okD(2) [OF q that] I that unfolding p by auto
  have rest: "(\<forall>i \<in> set (sent_log a). i < next_id a) \<and> (\<forall>i \<in> fst ` set (critical_queue a). i < next_id a) \<and> distinct (map fst (warning_buffer a))"
    using q by (simp add: queues_ok_def)
  show ?thesis unfolding queues_ok_def f
    by (intro conjI ballI impI) (use rest in \<open>auto simp: old pend\<close>)
qed

lemma log_ok_step: "log_ok a \<Longrightarrow> rows_step I a a' \<Longrightarrow> log_ok a'"
  by (simp add: log_ok_def rows_step_def)

lemma rows_step_refl: "rows_step {} a a"
  by (auto simp: rows_step_def)

lemma rows_step_trans:
  assumes ab: "rows_step I a b" and bc: "rows_step J b c" shows "rows_step (I \<union> J) a c"
proof -
  have "\<exists>r \<in> set (rows a). ar_id r' = ar_id r \<and> ar_severity r' = ar_severity r" if r: "r' \<in> set (rows c)" for r'
  proof -
    obtain r1 where 1: "r1 \<in> set (rows b)" "ar_id r' = ar_id r1" "ar_severity r' = ar_severity r1"
      using rows_step_row [OF bc r] by blast
    obtain r0 where 0: "r0 \<in> set (rows a)" "ar_id r1 = ar_id r0" "ar_severity r1 = ar_severity r0"
      using rows_step_row [OF ab 1(1)] by blast
    show ?thesis by (rule bexI [OF _ 0(1)]) (use 0 1 in simp)
  qed
  then show ?thesis using ab bc by (simp add: rows_step_def)
qed

lemma pending_map:
  assumes "\<And>r. ar_id (f r) = ar_id r"
  shows "pending_row i (a\<lparr>rows := map f (rows a)\<rparr>) \<longleftrightarrow> (\<exists>r \<in> set (rows a). ar_id r = i \<and> ar_status (f r) = Pending)"
  using assms by (auto simp: pending_row_iff)

lemma optimistic_step: "rows_step {i} a (fst (optimistic_sending i a))"
  by (auto simp: rows_step_def optimistic_sending_def pending_map pending_row_iff)

lemma update_step: "st \<in> {Sending, Delivered, Failed} \<Longrightarrow> rows_step {i} a (update_status i st n err a)"
  by (auto simp: rows_step_def update_status_def pending_map pending_row_iff)

lemma update_fold_step: "st \<in> {Sending, Delivered, Failed} \<Longrightarrow> rows_step (set is) a (fold (\<lambda>i. update_status i st n err) is a)"
proof (induction "is" arbitrary: a)
  case (Cons i "is")
  from rows_step_trans [OF update_step [OF Cons.prems] Cons.IH [OF Cons.prems]] show ?case by simp
qed (simp add: rows_step_refl)

definition drains_ok :: "agent \<Rightarrow> bool" where
  "drains_ok a \<longleftrightarrow> queues_ok a \<and> log_ok a"

lemma drains_ok_step: "drains_ok a \<Longrightarrow> rows_step I a a' \<Longrightarrow> I \<inter> fst ` set (warning_buffer a) = {} \<Longrightarrow> drains_ok a'"
  using queues_ok_step [of a I a'] log_ok_step [of a I a'] by (simp add: drains_ok_def)

text \<open>Fields the invariant does not read.\<close>

lemma drains_ok_cong:
  assumes "rows a' = rows a" "next_id a' = next_id a" "sent_log a' = sent_log a" "critical_queue a' = critical_queue a" and w: "map fst (warning_buffer a') = map fst (warning_buffer a)"
  shows "drains_ok a' = drains_ok a"
proof -
  have "fst ` set (warning_buffer a') = fst ` set (warning_buffer a)" using arg_cong [OF w, of set] by simp
  then show ?thesis using assms by (simp only: drains_ok_def queues_ok_def log_ok_def pending_row_def)
qed

text \<open>Handing over ids that have just been locked.\<close>

lemma drains_ok_send:
  assumes "drains_ok a" and "distinct ids" and "\<And>i. i \<in> set ids \<Longrightarrow> pending_row i a" and "rows_step (set ids) a a'" and "set ids \<inter> fst ` set (warning_buffer a) = {}"
  shows "drains_ok (log_send ids a')"
proof -
  have d: "drains_ok a'" by (rule drains_ok_step [OF assms(1,4,5)])
  have p: "pending_row i a' \<longleftrightarrow> pending_row i a \<and> i \<notin> set ids" and f: "sent_log a' = sent_log a" "next_id a' = next_id a" for i
    using assms(4) by (simp_all add: rows_step_def)
  have "i \<notin> set (sent_log a)" if "i \<in> set ids" for i using assms(1,3) that by (auto simp: drains_ok_def log_ok_def)
  moreover have "i < next_id a" if "i \<in> set ids" for i
    using assms(1) assms(3) [OF that] by (auto simp: drains_ok_def queues_ok_def pending_row_iff)
  ultimately show ?thesis
    using d assms(2) p by (auto simp: drains_ok_def queues_ok_def log_ok_def log_send_def pending_row_def f)
qed

lemma drains_ok_queue:
  assumes "drains_ok a" and "set q \<subseteq> set (critical_queue a)" shows "drains_ok (a\<lparr>critical_queue := q\<rparr>)"
proof -
  have "fst ` set q \<subseteq> fst ` set (critical_queue a)" using assms(2) by (rule image_mono)
  then show ?thesis
    using assms by (simp add: drains_ok_def queues_ok_def log_ok_def pending_row_def) blast
qed

lemma drains_ok_rest:
  assumes "drains_ok a" and "fst ` set b \<subseteq> fst ` set (warning_buffer a)" and "distinct (map fst b)" shows "drains_ok (a\<lparr>warning_buffer := b\<rparr>)"
proof -
  have p: "pending_row i a" if "i \<in> fst ` set b" for i
    using assms(1,2) that queues_okD(2) [of a i] by (auto simp: drains_ok_def)
  have w: "ar_severity r = Warning" if "r \<in> set (rows a)" "ar_id r \<in> fst ` set b" for r
    using assms(1,2) that queues_okD(4) [of a r] by (auto simp: drains_ok_def)
  show ?thesis using assms(1,3) p w by (simp add: drains_ok_def queues_ok_def log_ok_def pending_row_def)
qed

lemma critical_not_buffered:
  assumes "drains_ok a" and "r \<in> set (rows a)" and "ar_severity r = Critical" shows "ar_id r \<notin> fst ` set (warning_buffer a)"
  using assms queues_okD(4) [of a r] by (auto simp: drains_ok_def)

lemma lock_all_step:
  "lock_all is a = (a', ids) \<Longrightarrow> distinct is \<Longrightarrow> rows_step (set is) a a' \<and> ids = filter (\<lambda>i. pending_row i a) is"
proof (induction "is" arbitrary: a a' ids)
  case (Cons i "is")
  let ?a1 = "fst (optimistic_sending i a)"
  obtain a2 ids2 where r: "lock_all is ?a1 = (a2, ids2)" by (metis surj_pair)
  have e: "a' = a2" "ids = (if pending_row i a then i # ids2 else ids2)"
    using Cons.prems(1) r by (auto simp: split_beta)
  have ih: "rows_step (set is) ?a1 a2 \<and> ids2 = filter (\<lambda>i. pending_row i ?a1) is" using Cons.IH [OF r] Cons.prems(2) by simp
  have "pending_row j ?a1 = pending_row j a" if "j \<in> set is" for j
    using optimistic_step [of i a] Cons.prems(2) that by (auto simp: rows_step_def)
  then have "ids2 = filter (\<lambda>i. pending_row i a) is" using ih by (auto intro: filter_cong)
  with rows_step_trans [OF optimistic_step conjunct1 [OF ih]] e show ?case by simp
qed (simp add: rows_step_refl)


lemma drains_ok_insert:
  assumes d: "drains_ok a" and a': "insert_event ev sev p ts wall a = (a', i)"
  shows "drains_ok a' \<and> i = next_id a \<and> pending_row i a' \<and> (\<forall>r \<in> set (rows a'). ar_id r = i \<longrightarrow> ar_severity r = sev)
    \<and> i < next_id a' \<and> i \<notin> fst ` set (warning_buffer a') \<and> sent_log a' = sent_log a"
proof -
  have lt: "j < next_id a" if "pending_row j a" for j using d that by (auto simp: drains_ok_def queues_ok_def pending_row_iff)
  have b: "j < next_id a" if "j \<in> fst ` set (warning_buffer a)" for j using d lt that by (auto simp: drains_ok_def queues_ok_def)
  have e: "next_id a' = Suc (next_id a)" "sent_log a' = sent_log a" "critical_queue a' = critical_queue a" "warning_buffer a' = warning_buffer a"
    "i = next_id a" and p: "pending_row j a' \<longleftrightarrow> pending_row j a \<or> j = next_id a" for j
    using a' by (auto simp: insert_event_def pending_row_def)
  obtain r where r: "rows a' = rows a @ [r]" "ar_id r = next_id a" "ar_severity r = sev" using a' by (auto simp: insert_event_def)
  have f: "queues_ok a" "\<forall>i \<in> set (sent_log a). i < next_id a" "\<forall>i \<in> fst ` set (critical_queue a). i < next_id a"
    "distinct (map fst (warning_buffer a))" using d by (simp_all add: drains_ok_def queues_ok_def)
  have cq: "i < next_id a" if "i \<in> fst ` set (critical_queue a)" for i using f(3) that by blast
  have new: "ar_id r \<notin> fst ` set (critical_queue a)" "ar_id r \<notin> fst ` set (warning_buffer a)" using f(3) b r(2) by fastforce+
  have q: "queues_ok a'"
    unfolding queues_ok_def e r(1)
    by (intro conjI ballI impI; use f(2,4) cq new r(2) queues_okD [OF f(1)] p in \<open>auto simp: less_Suc_eq del: imageE\<close>)
  have "log_ok a'" using d by (auto simp: log_ok_def drains_ok_def queues_ok_def e p)
  moreover have "\<forall>r \<in> set (rows a'). ar_id r = i \<longrightarrow> ar_severity r = sev"
    using d r by (auto simp: e drains_ok_def queues_ok_def)
  moreover have "i \<notin> fst ` set (warning_buffer a')" using b by (auto simp: e)
  ultimately show ?thesis using q by (simp add: drains_ok_def e p)
qed

lemma drains_ok_enqueue:
  assumes "drains_ok a" and "i < next_id a" and "\<forall>r \<in> set (rows a). ar_id r = i \<longrightarrow> ar_severity r = Critical"
  shows "drains_ok (a\<lparr>critical_queue := critical_queue a @ [(i, ed)]\<rparr>)"
  using assms by (auto simp: drains_ok_def queues_ok_def log_ok_def pending_row_def)

lemma drains_ok_buffer:
  assumes "drains_ok a" and "pending_row i a" and "i \<notin> fst ` set (warning_buffer a)" and "\<forall>r \<in> set (rows a). ar_id r = i \<longrightarrow> ar_severity r = Warning"
  shows "drains_ok (a\<lparr>warning_buffer := warning_buffer a @ [(i, ed, n)]\<rparr>)"
  using assms by (auto simp: drains_ok_def queues_ok_def log_ok_def pending_row_def)

lemma bump_ids: "bump i buf = Some (buf', n) \<Longrightarrow> map fst buf' = map fst buf"
  by (induction i buf arbitrary: buf' n rule: bump.induct) (auto split: if_splits option.splits)

lemma drains_ok_emit:
  assumes d: "drains_ok a" and em: "emit_alert cfg ev p wall a = (a', i)"
  shows "drains_ok a' \<and> sent_log a' = sent_log a"
proof -
  define a0 where "a0 = count_metric (\<lambda>m. m\<lparr>m_emitted := m_emitted m + 1\<rparr>) a"
  define ts where "ts = (case pl_ts_ms p of None \<Rightarrow> wall | Some t \<Rightarrow> if t = 0 then wall else t)"
  define ed where "ed = to_event_dict ev (get_severity ev (pl_reason p)) p ts"
  have d0: "drains_ok a0" and l0: "sent_log a0 = sent_log a" using d drains_ok_cong [of a0 a] by (simp_all add: a0_def count_metric_def)
  obtain a1 j where ins: "insert_event ev (get_severity ev (pl_reason p)) p ts wall a0 = (a1, j)" by (metis surj_pair)
  note i = drains_ok_insert [OF d0 ins]
  show ?thesis
  proof (cases "get_severity ev (pl_reason p)")
    case Info
    have "drains_ok (update_status j Delivered 0 None a1)"
      by (rule drains_ok_step [OF _ update_step]) (use i in auto)
    moreover have "a' = count_metric (\<lambda>m. m\<lparr>m_info_logged := m_info_logged m + 1\<rparr>) (update_status j Delivered 0 None a1)"
      using em Info ins unfolding emit_alert_def Let_def a0_def [symmetric] ts_def [symmetric] by auto
    moreover have "sent_log (update_status j Delivered 0 None a1) = sent_log a1" by (simp add: update_status_def)
    ultimately show ?thesis using i l0 drains_ok_cong [of a' "update_status j Delivered 0 None a1"] by (simp add: count_metric_def)
  next
    case Critical
    let ?q = "a1\<lparr>critical_queue := critical_queue a1 @ [(j, ed)]\<rparr>"
    have "drains_ok ?q" by (rule drains_ok_enqueue) (use i Critical in auto)
    moreover have "a' = count_metric (\<lambda>m. m\<lparr>m_critical_queued := m_critical_queued m + 1\<rparr>) (?q\<lparr>drain_wake := True\<rparr>)"
      using em Critical ins unfolding emit_alert_def Let_def a0_def [symmetric] ts_def [symmetric] ed_def by auto
    ultimately show ?thesis using i l0 drains_ok_cong [of a' ?q] by (simp add: count_metric_def)
  next
    case Warning
    show ?thesis
    proof (cases "snd (try_dedup_merge cfg ev p a0)")
      case None
      let ?b = "a1\<lparr>warning_buffer := warning_buffer a1 @ [(j, ed, 1)]\<rparr>"
      have "drains_ok ?b" by (rule drains_ok_buffer) (use i Warning in auto)
      moreover have "rows a' = rows ?b" "next_id a' = next_id ?b" "sent_log a' = sent_log ?b" "critical_queue a' = critical_queue ?b"
        "warning_buffer a' = warning_buffer ?b"
        using em Warning None ins unfolding emit_alert_def Let_def a0_def [symmetric] ts_def [symmetric] ed_def
        by (auto simp: count_metric_def split_beta split: prod.splits option.splits if_splits)
      ultimately show ?thesis using i l0 drains_ok_cong [of a' ?b] by simp
    next
      case (Some k)
      then have "rows a' = rows a0 \<and> next_id a' = next_id a0 \<and> sent_log a' = sent_log a0 \<and> critical_queue a' = critical_queue a0
          \<and> map fst (warning_buffer a') = map fst (warning_buffer a0)"
        using em Warning unfolding emit_alert_def Let_def a0_def [symmetric] ts_def [symmetric]
        by (auto simp: count_metric_def try_dedup_merge_def bump_ids split: prod.splits option.splits if_splits)
      then show ?thesis using d0 l0 drains_ok_cong [of a' a0] by simp
    qed
  qed
qed


text \<open>What a step returns to its drain: the invariant, nothing forgotten of the log, and a task whose ids are logged.\<close>

definition step_ok :: "agent \<Rightarrow> agent \<times> task option \<Rightarrow> bool" where
  "step_ok a r \<longleftrightarrow> drains_ok (fst r) \<and> set (sent_log a) \<subseteq> set (sent_log (fst r))
     \<and> (\<forall>t. snd r = Some t \<longrightarrow> set (task_ids t) \<subseteq> set (sent_log (fst r)))"

lemma step_ok_none: "drains_ok a' \<Longrightarrow> sent_log a' = sent_log a \<Longrightarrow> step_ok a (a', None)"
  by (simp add: step_ok_def)

lemma step_ok_from: "step_ok a' r \<Longrightarrow> sent_log a' = sent_log a \<Longrightarrow> step_ok a r"
  by (simp add: step_ok_def)

lemma flush_ok:
  assumes d: "drains_ok a" shows "step_ok a (flush_warning_batch cfg a)"
proof -
  let ?batch = "take (batch_size cfg) (warning_buffer a)" and ?rest = "drop (batch_size cfg) (warning_buffer a)"
  let ?ids = "map fst ?batch"
  define a1 where "a1 = a\<lparr>warning_buffer := ?rest, batch_start_mono := (if ?rest = [] then None else Some (mono a))\<rparr>"
  have dist: "distinct (map fst ?batch @ map fst ?rest)"
    using d unfolding drains_ok_def queues_ok_def by (simp flip: map_append)
  have rest: "fst ` set ?rest \<subseteq> fst ` set (warning_buffer a)" by (rule image_mono) (simp add: set_drop_subset)
  have f: "rows a1 = rows a" "sent_log a1 = sent_log a" "warning_buffer a1 = ?rest" by (simp_all add: a1_def)
  have "drains_ok (a\<lparr>warning_buffer := ?rest\<rparr>)" by (rule drains_ok_rest [OF d rest]) (use dist in simp)
  then have d1: "drains_ok a1" by (rule drains_ok_cong [THEN iffD2, rotated -1]) (simp_all add: a1_def)
  have pend: "pending_row i a1" if "i \<in> set ?ids" for i
  proof -
    have "i \<in> fst ` set (warning_buffer a)" using that in_set_takeD by fastforce
    then show ?thesis using d queues_okD(2) [of a i] by (simp add: drains_ok_def pending_row_def f(1))
  qed
  obtain a2 ids where l: "lock_all ?ids a1 = (a2, ids)" by (metis surj_pair)
  have ls: "rows_step (set ?ids) a1 a2" "ids = ?ids"
    using lock_all_step [OF l] dist pend by (auto simp: filter_id_conv)
  have disj: "set ?ids \<inter> fst ` set (warning_buffer a1) = {}" using dist by (simp add: f(3))
  have s2: "sent_log a2 = sent_log a" using ls(1) f(2) by (simp add: rows_step_def)
  have r: "flush_warning_batch cfg a = (if ids = [] then (a2, None) else (log_send ?ids a2, Some (SendBatch ids (map snd ?batch))))"
    unfolding flush_warning_batch_def Let_def a1_def [symmetric] using l by simp
  show ?thesis
  proof (cases "ids = []")
    case True
    then show ?thesis using drains_ok_step [OF d1 ls(1) disj] s2 by (simp add: r step_ok_none)
  next
    case False
    have "drains_ok (log_send ?ids a2)" by (rule drains_ok_send [OF d1 _ pend ls(1) disj]) (use dist in simp)
    then show ?thesis using False ls(2) s2 by (simp add: r step_ok_def log_send_def)
  qed
qed

lemma warnings_ok: "drains_ok a \<Longrightarrow> step_ok a (drain_warnings cfg a)"
  by (simp add: drain_warnings_def flush_ok step_ok_none)

lemma loop_ok: "drains_ok a \<Longrightarrow> set q \<subseteq> set (critical_queue a) \<Longrightarrow> step_ok a (drain_loop cfg q a)"
proof (induction cfg q a rule: drain_loop.induct)
  case (1 cfg a)
  then show ?case using warnings_ok [OF drains_ok_queue [OF 1(1), of "[]"], of cfg] by (auto intro: step_ok_from)
next
  case (2 cfg i ed q a)
  let ?a0 = "a\<lparr>critical_queue := q\<rparr>"
  let ?a1 = "fst (optimistic_sending i ?a0)"
  have d0: "drains_ok ?a0" by (rule drains_ok_queue [OF "2.prems"(1)]) (use "2.prems"(2) in simp)
  have "i \<notin> fst ` set (warning_buffer a)"
  proof
    assume b: "i \<in> fst ` set (warning_buffer a)"
    have q: "queues_ok a" using "2.prems"(1) by (simp add: drains_ok_def)
    obtain r where r: "r \<in> set (rows a)" "ar_id r = i" using queues_okD(2) [OF q b] by (auto simp: pending_row_iff)
    have "i \<in> fst ` set (critical_queue a)" using "2.prems"(2) by force
    then show False using queues_okD(3) [OF q r(1)] queues_okD(4) [OF q r(1)] b r(2) by simp
  qed
  then have disj: "{i} \<inter> fst ` set (warning_buffer ?a0) = {}" by simp
  show ?case
  proof (cases "pending_row i ?a0")
    case True
    have "drains_ok (log_send [i] ?a1)"
      by (rule drains_ok_send [OF d0, of "[i]"]) (use True optimistic_step disj in simp_all)
    then show ?thesis using True by (auto simp: split_beta step_ok_def log_send_def)
  next
    case False
    have "drains_ok ?a1" by (rule drains_ok_step [OF d0 optimistic_step disj])
    then have "step_ok ?a1 (drain_loop cfg q ?a1)"
      using "2.IH" [OF refl prod.collapse] False by simp
    then show ?thesis using False by (auto simp: split_beta intro: step_ok_from)
  qed
qed

lemma oldest_mem: "oldest rs = Some r \<Longrightarrow> r \<in> set rs"
  by (induction rs arbitrary: r) (auto split: option.splits if_splits)

lemma half_open_ok: assumes d: "drains_ok a" shows "step_ok a (half_open_test a)"
proof (cases "oldest (filter (\<lambda>r. ar_status r = Pending \<and> ar_severity r = Critical) (rows a))")
  case None
  then show ?thesis using d by (simp add: half_open_test_def step_ok_none)
next
  case (Some r)
  then have r: "r \<in> set (rows a)" "ar_status r = Pending" "ar_severity r = Critical" using oldest_mem by fastforce+
  let ?a1 = "fst (optimistic_sending (ar_id r) a)"
  have p: "pending_row (ar_id r) a" using r by (auto simp: pending_row_iff)
  have disj: "{ar_id r} \<inter> fst ` set (warning_buffer a) = {}" using critical_not_buffered [OF d r(1,3)] by simp
  have "drains_ok (log_send [ar_id r] ?a1)"
    by (rule drains_ok_send [OF d, of "[ar_id r]"]) (use p optimistic_step disj in simp_all)
  then have "drains_ok (log_send [ar_id r] (?a1\<lparr>half_open_in_flight := True\<rparr>))"
    by (rule drains_ok_cong [THEN iffD2, rotated -1]) (simp_all add: log_send_def)
  then show ?thesis using Some p by (auto simp: half_open_test_def split_beta step_ok_def log_send_def)
qed

lemma drain_once_ok: assumes d: "drains_ok a" shows "step_ok a (drain_once cfg a)"
proof -
  define a1 where "a1 = (if breaker_state a = Open then a\<lparr>breaker_state := HalfOpen, half_open_in_flight := False\<rparr> else a)"
  have d1: "drains_ok a1" and s: "sent_log a1 = sent_log a" using d drains_ok_cong [of a1 a] by (simp_all add: a1_def)
  show ?thesis
    unfolding drain_once_def a1_def [symmetric] Let_def
    using d step_ok_from [OF half_open_ok [OF d1] s] step_ok_from [OF loop_ok [OF d1 subset_refl] s] by (simp add: step_ok_none)
qed

lemma send_result_fields:
  assumes d: "drains_ok a" and ids: "set ids \<subseteq> set (sent_log a)"
  shows "drains_ok (send_result cfg ids ok err a) \<and> sent_log (send_result cfg ids ok err a) = sent_log a"
proof -
  have nb: "set ids \<inter> fst ` set (warning_buffer a) = {}"
    using d ids unfolding drains_ok_def queues_ok_def log_ok_def by blast
  define st where "st = (if ok then Delivered else Failed)"
  define n where "n = (if ok then 0 else int (retry_max cfg))"
  define e where "e = (if ok then None else err)"
  have fin: "rows (send_result cfg ids ok err a) = rows (fold (\<lambda>i. update_status i st n e) ids a)"
    by (cases ok) (simp_all add: send_result_def st_def n_def e_def on_success_def on_final_fail_def count_metric_def Let_def)
  have st: "st \<in> {Delivered, Failed}" by (simp add: st_def)
  let ?u = "fold (\<lambda>i. update_status i st n e) ids a"
  have step: "rows_step (set ids) a ?u" using st by (intro update_fold_step) auto
  have f: "next_id (fold (\<lambda>i. update_status i st' n' e') is b) = next_id b" "sent_log (fold (\<lambda>i. update_status i st' n' e') is b) = sent_log b"
    "critical_queue (fold (\<lambda>i. update_status i st' n' e') is b) = critical_queue b" "warning_buffer (fold (\<lambda>i. update_status i st' n' e') is b) = warning_buffer b"
    for st' n' e' "is" b by (induction "is" arbitrary: b) (simp_all add: update_status_def)
  have s: "next_id (send_result cfg ids ok err a) = next_id a" "sent_log (send_result cfg ids ok err a) = sent_log a"
    "critical_queue (send_result cfg ids ok err a) = critical_queue a" "warning_buffer (send_result cfg ids ok err a) = warning_buffer a"
    by (simp_all add: send_result_def on_success_def on_final_fail_def count_metric_def Let_def f)
  have "drains_ok ?u" by (rule drains_ok_step [OF d step nb])
  then show ?thesis using drains_ok_cong [of "send_result cfg ids ok err a" ?u] fin s by (simp add: f)
qed

lemma finish_ok:
  assumes d: "drains_ok a" and ids: "set (task_ids tsk) \<subseteq> set (sent_log a)"
  shows "step_ok a (finish_send cfg tsk reply a)"
proof (cases "fst (attempt cfg reply (retry_max cfg) 0 True None)")
  case None
  then show ?thesis using d drains_ok_cong [of "a\<lparr>half_open_in_flight := False\<rparr>" a]
    by (cases tsk) (simp_all add: finish_send_def step_ok_none)
next
  case (Some q)
  obtain ok err where q: "q = (ok, err)" by (cases q)
  have sr: "drains_ok (send_result cfg (task_ids tsk) ok err a)" "sent_log (send_result cfg (task_ids tsk) ok err a) = sent_log a"
    using send_result_fields [OF d ids] by simp_all
  show ?thesis
  proof (cases tsk)
    case (SendCritical i ed)
    have "step_ok a (drain_loop cfg (critical_queue (send_result cfg [i] ok err a)) (send_result cfg [i] ok err a))"
      by (rule step_ok_from [OF loop_ok]) (use sr SendCritical in simp_all)
    then show ?thesis by (simp add: finish_send_def Some q SendCritical Let_def)
  next
    case (SendBatch ids items)
    then show ?thesis using sr by (simp add: finish_send_def Some q step_ok_none)
  next
    case (SendTest i ed)
    then show ?thesis using sr drains_ok_cong [of "(send_result cfg [i] ok err a)\<lparr>half_open_in_flight := False\<rparr>" "send_result cfg [i] ok err a"]
      by (simp add: finish_send_def Some q step_ok_none)
  qed
qed

definition run_ok :: "agent \<Rightarrow> task list \<Rightarrow> bool" where
  "run_ok a ts \<longleftrightarrow> drains_ok a \<and> (\<forall>t \<in> set ts. set (task_ids t) \<subseteq> set (sent_log a))"

lemma run_ok_step:
  assumes "run_ok a (ts1 @ ts2)" and "step_ok a (a', t)"
  shows "run_ok a' (ts1 @ (case t of None \<Rightarrow> [] | Some tsk \<Rightarrow> [tsk]) @ ts2)"
  using assms by (auto simp: run_ok_def step_ok_def split: option.split)

lemma alert_run_ok: "alert_run cfg db n0 a ts \<Longrightarrow> run_ok a ts"
proof (induction rule: alert_run.induct)
  case (start wall now)
  then show ?case
    by (auto simp: run_ok_def drains_ok_def queues_ok_def log_ok_def new_agent_def startup_expired_sweep_def Let_def list_all_iff split: if_splits)
next
  case (emits a ts ev p wall a' i)
  then show ?case using drains_ok_emit [of a cfg ev p wall a' i] by (simp add: run_ok_def)
next
  case (drain a ts w a' t)
  have "drains_ok (a\<lparr>drain_wake := w\<rparr>)" using drain.IH drains_ok_cong [of "a\<lparr>drain_wake := w\<rparr>" a] by (simp add: run_ok_def)
  from drain_once_ok [OF this, of cfg] have "step_ok a (a', t)" using drain.hyps(2) by (auto intro: step_ok_from)
  with run_ok_step [of a ts "[]"] drain.IH show ?case by simp
next
  case (replies a ts1 tsk ts2 reply a' t)
  have "step_ok a (a', t)" using finish_ok [of a tsk cfg reply] replies by (simp add: run_ok_def)
  moreover have "run_ok a (ts1 @ ts2)" using replies.IH by (simp add: run_ok_def)
  ultimately show ?case by (rule run_ok_step [rotated])
next
  case (cancel a ts1 tsk ts2)
  have "drains_ok (cancel_send tsk a) = drains_ok a"
    by (rule drains_ok_cong) (simp_all add: cancel_send_def split: task.split)
  moreover have "sent_log (cancel_send tsk a) = sent_log a" by (simp add: cancel_send_def split: task.split)
  ultimately show ?case using cancel.IH by (simp add: run_ok_def)
next
  case (wait a ts d)
  have "drains_ok (a\<lparr>mono := mono a + d\<rparr>) = drains_ok a" by (rule drains_ok_cong) simp_all
  with wait.IH show ?case by (simp add: run_ok_def)
qed


section \<open>Properties\<close>

text \<open>C3: however emits, drains, replies, cancellations and the passing of time interleave, no alert is handed to the sender twice: the
  ids handed over are distinct, none of them is pending any more, and the drains that wait hold ids handed over.\<close>

theorem alert_at_most_once:
  assumes "alert_run cfg db n0 a ts"
  shows "distinct (sent_log a) \<and> list_all (\<lambda>i. \<not> pending_row i a) (sent_log a)
    \<and> list_all (\<lambda>t. list_all (\<lambda>i. i \<in> set (sent_log a)) (task_ids t)) ts"
  using alert_run_ok [OF assms] by (auto simp: run_ok_def drains_ok_def log_ok_def list_all_iff)

definition plain_payload :: payload where
  "plain_payload = \<lparr>pl_symbol = Some ''S'', pl_reason = None, pl_ts_ms = Some 5, pl_source = None, pl_source_seq = None,
     pl_correlation_id = None, pl_exchange_ts_ms = None\<rparr>"

definition one_critical :: agent where
  "one_critical = fst (emit_alert default_alert_config ''IP_BAN_DETECTED'' plain_payload 7
     (startup_expired_sweep default_alert_config 7 (new_agent [] 1 0)))"

lemma one_critical_run: "alert_run default_alert_config [] 1 one_critical []"
  unfolding one_critical_def by (rule alert_run.emits [OF alert_run.start surjective_pairing]) simp

lemmas alert_eval = one_critical_def emit_alert_def new_agent_def startup_expired_sweep_def get_severity_def plain_payload_def
  REASON_AWARE_SEVERITY_def EVENT_SEVERITY_def insert_event_def count_metric_def Let_def drain_once_def optimistic_sending_def
  pending_row_def log_send_def to_event_dict_def

lemma alert_at_most_once_witness:
  "sent_log (fst (drain_once default_alert_config (one_critical\<lparr>drain_wake := False\<rparr>))) = [1]
   \<and> distinct (sent_log (fst (drain_once default_alert_config (one_critical\<lparr>drain_wake := False\<rparr>))))"
proof -
  have v: "sent_log (fst (drain_once default_alert_config (one_critical\<lparr>drain_wake := False\<rparr>))) = [1]"
    by (simp add: alert_eval)
  show ?thesis using alert_at_most_once [OF alert_run.drain [OF one_critical_run surjective_pairing]] v by simp
qed

subsection \<open>Retries\<close>

lemma attempt_throttled:
  assumes "telegram_enabled cfg" and "\<And>n. reply n = Reply 429 (Some w)"
  shows "fst (attempt cfg reply k n markup err) = Some (False, if k = 0 then err else Some ''telegram status=429'')"
proof (induction k arbitrary: n markup err)
  case (Suc k)
  have s: "str_of_int 429 = ''429''" by (simp add: str_of_int_def dec_nonneg.simps digit_char_def)
  have "post_all cfg reply n markup = (Some (False, 429, Some ''telegram status=429'', Some w), [(Telegram, markup)])"
    using assms by (simp add: post_all_def post_channel_def Let_def s)
  then show ?case using Suc by (simp add: split_beta Let_def)
qed simp

lemma attempt_half_delivered:
  assumes "telegram_enabled cfg" "discord_enabled cfg" and "\<And>n. reply n = Reply (if even n then 200 else 500) None" and "even n"
  shows "filter (\<lambda>p. fst p = Telegram) (snd (attempt cfg reply k n markup err)) = replicate k (Telegram, markup)"
  using assms(4)
proof (induction k arbitrary: n err)
  case (Suc k)
  have "post_all cfg reply n markup = (Some (False, 500, Some (''discord status='' @ str_of_int 500), None), [(Telegram, markup), (Discord, False)])"
    using assms(1-3) Suc.prems by (simp add: post_all_def post_channel_def Let_def)
  then show ?case using Suc.IH [of "Suc (Suc n)"] Suc.prems by (simp add: split_beta Let_def)
qed simp

text \<open>Lemma: a batch throttled on every try, with a waiting time each time, counts as a failure of the breaker and marks its
  alerts failed; and while Discord fails after Telegram has accepted, every try posts the message to Telegram again.\<close>

theorem alert_retry_counts:
  assumes "telegram_enabled cfg" and "0 < retry_max cfg"
  shows "breaker_consecutive_fails (fst (finish_send cfg (SendBatch ids items) (\<lambda>n. Reply 429 (Some w)) a)) = breaker_consecutive_fails a + 1
    \<and> (discord_enabled cfg \<longrightarrow>
        filter (\<lambda>p. fst p = Telegram) (snd (attempt cfg (\<lambda>n. Reply (if even n then 200 else 500) None) (retry_max cfg) 0 True None))
          = replicate (retry_max cfg) (Telegram, True))"
proof -
  have f: "breaker_consecutive_fails (fold (\<lambda>i. update_status i st n e) is b) = breaker_consecutive_fails b" for st n e "is" b
    by (induction "is" arbitrary: b) (simp_all add: update_status_def)
  have "breaker_consecutive_fails (on_final_fail cfg b) = breaker_consecutive_fails b + 1" for b
    by (simp add: on_final_fail_def count_metric_def Let_def)
  then have "breaker_consecutive_fails (fst (finish_send cfg (SendBatch ids items) (\<lambda>n. Reply 429 (Some w)) a)) = breaker_consecutive_fails a + 1"
    using attempt_throttled [of cfg "\<lambda>n. Reply 429 (Some w)" w] assms
    by (simp add: finish_send_def send_result_def count_metric_def f)
  then show ?thesis using attempt_half_delivered [of cfg "\<lambda>n. Reply (if even n then 200 else 500) None" 0] assms(1) by simp
qed

lemma alert_retry_counts_witness:
  "breaker_consecutive_fails (fst (finish_send (default_alert_config\<lparr>discord_enabled := True\<rparr>) (SendBatch [1] []) (\<lambda>n. Reply 429 (Some 2)) one_critical)) = 1
   \<and> filter (\<lambda>p. fst p = Telegram) (snd (attempt (default_alert_config\<lparr>discord_enabled := True\<rparr>) (\<lambda>n. Reply (if even n then 200 else 500) None) 3 0 True None))
     = replicate 3 (Telegram, True)"
proof -
  have "breaker_consecutive_fails one_critical = 0" by (simp add: alert_eval)
  then show ?thesis
    using alert_retry_counts [of "default_alert_config\<lparr>discord_enabled := True\<rparr>" "[1]" "[]" 2 one_critical]
    by (simp add: default_alert_config_def)
qed

subsection \<open>Rows of an earlier process\<close>

definition restart_ok :: "nat \<Rightarrow> agent \<Rightarrow> bool" where
  "restart_ok n0 a \<longleftrightarrow> n0 \<le> next_id a \<and> (\<forall>i \<in> fst ` set (critical_queue a). n0 \<le> i) \<and> (\<forall>i \<in> fst ` set (warning_buffer a). n0 \<le> i)
     \<and> (m_breaker_open_count (metrics a) = 0 \<longrightarrow> breaker_state a = Closed \<and> (\<forall>i \<in> set (sent_log a). n0 \<le> i))"

lemma restart_optimistic: "restart_ok n0 (fst (optimistic_sending i a)) = restart_ok n0 a"
  by (simp add: restart_ok_def)

lemma restart_lock_all: "restart_ok n0 a \<Longrightarrow> restart_ok n0 (fst (lock_all is a))"
  by (induction "is" arbitrary: a) (simp_all add: split_beta restart_optimistic)

lemma restart_log: "restart_ok n0 a \<Longrightarrow> (\<And>i. i \<in> set ids \<Longrightarrow> n0 \<le> i) \<Longrightarrow> restart_ok n0 (log_send ids a)"
  by (auto simp: restart_ok_def log_send_def)

lemma restart_flush: assumes "restart_ok n0 a" shows "restart_ok n0 (fst (flush_warning_batch cfg a))"
proof -
  let ?batch = "take (batch_size cfg) (warning_buffer a)" and ?rest = "drop (batch_size cfg) (warning_buffer a)"
  define a1 where "a1 = a\<lparr>warning_buffer := ?rest, batch_start_mono := (if ?rest = [] then None else Some (mono a))\<rparr>"
  have "set ?rest \<subseteq> set (warning_buffer a)" by (simp add: set_drop_subset)
  then have "restart_ok n0 a1" using assms by (simp add: restart_ok_def a1_def) blast
  then have r: "restart_ok n0 (fst (lock_all (map fst ?batch) a1))" by (rule restart_lock_all)
  have l: "restart_ok n0 (log_send (map fst ?batch) (fst (lock_all (map fst ?batch) a1)))"
  proof (rule restart_log [OF r])
    show "n0 \<le> i" if "i \<in> set (map fst ?batch)" for i using assms that by (auto simp: restart_ok_def dest!: in_set_takeD)
  qed
  show ?thesis unfolding flush_warning_batch_def Let_def a1_def [symmetric] using l r by (simp add: split_beta)
qed

lemma restart_loop: "restart_ok n0 a \<Longrightarrow> (\<forall>i \<in> fst ` set q. n0 \<le> i) \<Longrightarrow> restart_ok n0 (fst (drain_loop cfg q a))"
proof (induction cfg q a rule: drain_loop.induct)
  case (1 cfg a)
  then have "restart_ok n0 (a\<lparr>critical_queue := []\<rparr>)" by (simp add: restart_ok_def)
  then show ?case by (simp add: drain_warnings_def restart_flush)
next
  case (2 cfg i ed q a)
  let ?a1 = "fst (optimistic_sending i (a\<lparr>critical_queue := q\<rparr>))"
  have r: "restart_ok n0 ?a1" using "2.prems" unfolding restart_optimistic by (simp add: restart_ok_def)
  show ?case
  proof (cases "pending_row i (a\<lparr>critical_queue := q\<rparr>)")
    case True
    then show ?thesis using restart_log [OF r, of "[i]"] "2.prems"(2) by (simp add: split_beta)
  next
    case False
    then show ?thesis using "2.IH" [OF refl prod.collapse _ r] "2.prems"(2) by (simp add: split_beta)
  qed
qed

lemma restart_test: "restart_ok n0 a \<Longrightarrow> m_breaker_open_count (metrics a) \<noteq> 0 \<Longrightarrow> restart_ok n0 (fst (half_open_test a))"
  by (auto simp: half_open_test_def split_beta restart_ok_def log_send_def split: option.split)

lemma restart_once: assumes "restart_ok n0 a" shows "restart_ok n0 (fst (drain_once cfg a))"
proof -
  define a1 where "a1 = (if breaker_state a = Open then a\<lparr>breaker_state := HalfOpen, half_open_in_flight := False\<rparr> else a)"
  have r: "restart_ok n0 a1" and c: "breaker_state a1 = HalfOpen \<Longrightarrow> m_breaker_open_count (metrics a1) \<noteq> 0"
    using assms by (auto simp: a1_def restart_ok_def split: if_splits)
  show ?thesis
    unfolding drain_once_def a1_def [symmetric] Let_def
    using assms restart_test [OF r c] restart_loop [OF r] r by (auto simp: restart_ok_def [of n0 a1])
qed

lemma restart_result:
  assumes "restart_ok n0 a" shows "restart_ok n0 (send_result cfg ids ok err a)"
proof -
  have f: "restart_ok n0 (fold (\<lambda>i. update_status i st n e) is b) = restart_ok n0 b" for st n e "is" b
    by (induction "is" arbitrary: b) (simp_all add: update_status_def restart_ok_def)
  have c: "restart_ok n0 (b\<lparr>metrics := (metrics b)\<lparr>m_delivered := v\<rparr>\<rparr>) = restart_ok n0 b" "restart_ok n0 (b\<lparr>metrics := (metrics b)\<lparr>m_failed := v\<rparr>\<rparr>) = restart_ok n0 b" for b v
    by (simp_all add: restart_ok_def)
  have "restart_ok n0 (on_success b)" "restart_ok n0 (on_final_fail cfg b)" if "restart_ok n0 b" for b
    using that by (auto simp: restart_ok_def on_success_def on_final_fail_def count_metric_def Let_def)
  then show ?thesis using assms by (simp add: send_result_def count_metric_def f c)
qed

lemma restart_finish: assumes "restart_ok n0 a" shows "restart_ok n0 (fst (finish_send cfg tsk reply a))"
proof (cases "fst (attempt cfg reply (retry_max cfg) 0 True None)")
  case None
  then show ?thesis using assms by (cases tsk) (simp_all add: finish_send_def restart_ok_def)
next
  case (Some q)
  obtain ok err where q: "q = (ok, err)" by (cases q)
  note r = restart_result [OF assms, of cfg _ ok err]
  show ?thesis
  proof (cases tsk)
    case (SendCritical i ed)
    have "restart_ok n0 (fst (drain_loop cfg (critical_queue (send_result cfg [i] ok err a)) (send_result cfg [i] ok err a)))"
      by (rule restart_loop [OF r]) (use r [of "[i]"] in \<open>simp add: restart_ok_def\<close>)
    then show ?thesis by (simp add: finish_send_def Some q SendCritical Let_def)
  next
    case (SendBatch ids items)
    then show ?thesis using r by (simp add: finish_send_def Some q)
  next
    case (SendTest i ed)
    then show ?thesis using r [of "[i]"] by (simp add: finish_send_def Some q restart_ok_def)
  qed
qed

lemma restart_emit:
  assumes r: "restart_ok n0 a" and em: "emit_alert cfg ev p wall a = (a', i)" shows "restart_ok n0 a'"
proof (cases "get_severity ev (pl_reason p) = Warning \<and> snd (try_dedup_merge cfg ev p (count_metric (\<lambda>m. m\<lparr>m_emitted := m_emitted m + 1\<rparr>) a)) \<noteq> None")
  case True
  define a0 where "a0 = count_metric (\<lambda>m. m\<lparr>m_emitted := m_emitted m + 1\<rparr>) a"
  obtain a1 where m: "try_dedup_merge cfg ev p a0 = (a1, Some i)"
    and a': "a' = count_metric (\<lambda>m. m\<lparr>m_dedup_merged := m_dedup_merged m + 1\<rparr>) (a1\<lparr>drain_wake := True\<rparr>)"
    using em True unfolding emit_alert_def Let_def a0_def [symmetric] by (auto split: prod.splits option.splits)
  have "next_id a1 = next_id a0 \<and> critical_queue a1 = critical_queue a0 \<and> map fst (warning_buffer a1) = map fst (warning_buffer a0)
      \<and> metrics a1 = metrics a0 \<and> breaker_state a1 = breaker_state a0 \<and> sent_log a1 = sent_log a0"
    using m by (auto simp: try_dedup_merge_def bump_ids split: prod.splits option.splits if_splits)
  moreover from this have "fst ` set (warning_buffer a1) = fst ` set (warning_buffer a0)" by (metis list.set_map)
  ultimately show ?thesis using r unfolding restart_ok_def a' by (simp add: count_metric_def a0_def)
next
  case False
  then have "next_id a' = Suc (next_id a) \<and> set (critical_queue a') \<subseteq> set (critical_queue a) \<union> {next_id a} \<times> UNIV
      \<and> set (warning_buffer a') \<subseteq> set (warning_buffer a) \<union> {next_id a} \<times> UNIV
      \<and> m_breaker_open_count (metrics a') = m_breaker_open_count (metrics a) \<and> breaker_state a' = breaker_state a \<and> sent_log a' = sent_log a"
    using em by (cases "get_severity ev (pl_reason p)")
      (auto simp: emit_alert_def Let_def count_metric_def insert_event_def update_status_def split: prod.splits option.splits if_splits)
  then show ?thesis using r by (fastforce simp: restart_ok_def)
qed

lemma alert_run_restart: "alert_run cfg db n0 a ts \<Longrightarrow> restart_ok n0 a"
proof (induction rule: alert_run.induct)
  case (start wall now)
  show ?case by (simp add: restart_ok_def new_agent_def startup_expired_sweep_def Let_def)
next
  case (emits a ts ev p wall a' i)
  then show ?case using restart_emit by blast
next
  case (drain a ts w a' t)
  have "restart_ok n0 (a\<lparr>drain_wake := w\<rparr>)" using drain.IH by (simp add: restart_ok_def)
  from restart_once [OF this, of cfg] show ?case using drain.hyps(2) by simp
next
  case (replies a ts1 tsk ts2 reply a' t)
  then show ?case using restart_finish [of n0 a cfg tsk reply] by simp
next
  case (cancel a ts1 tsk ts2)
  then show ?case by (cases tsk) (simp_all add: cancel_send_def restart_ok_def)
next
  case (wait a ts d)
  then show ?case by (simp add: restart_ok_def)
qed

text \<open>Lemma: as long as the breaker has not opened, nothing that an earlier process left pending is ever handed over: a restarted
  agent sends only what was emitted after its start.\<close>

theorem alert_restart_ignored:
  assumes "alert_run cfg db n0 a ts" and "m_breaker_open_count (metrics a) = 0"
  shows "list_all (\<lambda>i. n0 \<le> i) (sent_log a) \<and> list_all (\<lambda>r. ar_id r \<notin> set (sent_log a)) db"
proof -
  have "list_all (\<lambda>r. ar_id r < n0) db" using assms(1) by (induction rule: alert_run.induct) auto
  then show ?thesis using alert_run_restart [OF assms(1)] assms(2) by (fastforce simp: restart_ok_def list_all_iff)
qed

definition left_pending :: alert_row where
  "left_pending = \<lparr>ar_id = 1, ar_ts_ms = 6, ar_event_type = ''IP_BAN_DETECTED'', ar_severity = Critical, ar_symbol = None,
     ar_payload = plain_payload, ar_status = Pending, ar_correlation_id = ''c'', ar_source_seq = None, ar_exchange_ts_ms = None,
     ar_created_at_ms = 6, ar_attempts = 0, ar_last_error = None\<rparr>"

lemma alert_restart_ignored_witness:
  "pending_row 1 (startup_expired_sweep default_alert_config 7 (new_agent [left_pending] 2 0))
   \<and> 1 \<notin> set (sent_log (fst (drain_once default_alert_config ((startup_expired_sweep default_alert_config 7 (new_agent [left_pending] 2 0))\<lparr>drain_wake := False\<rparr>))))"
proof -
  let ?a = "startup_expired_sweep default_alert_config 7 (new_agent [left_pending] 2 0)"
  have run: "alert_run default_alert_config [left_pending] 2 ?a []" by (rule alert_run.start) (simp add: left_pending_def)
  have c: "m_breaker_open_count (metrics (fst (drain_once default_alert_config (?a\<lparr>drain_wake := False\<rparr>)))) = 0" "pending_row 1 ?a"
    by (simp_all add: drain_once_def new_agent_def startup_expired_sweep_def Let_def drain_warnings_def pending_row_def left_pending_def default_alert_config_def)
  from alert_restart_ignored [OF alert_run.drain [OF run surjective_pairing] c(1)] c(2) show ?thesis
    by (simp add: left_pending_def)
qed

end
