(* ===== verification/Locks.thy ===== *)
theory Locks
  imports Prelude
begin

text \<open>
  \<^verbatim>\<open>src/utils/locks.py\<close>: the lock hierarchy, the lock with its thread-local set of held levels, the factory and the validation of an
  acquisition order by name. Threads and lock instances are type variables; several instances may have the same level.
\<close>

section \<open>Levels\<close>

datatype lock_level = BUFFER | FILL | SQLITE | PACER | FLUSH | TELEMETRY

fun level_num :: "lock_level \<Rightarrow> nat" where
  "level_num BUFFER = 1"
| "level_num FILL = 2"
| "level_num SQLITE = 3"
| "level_num PACER = 4"
| "level_num FLUSH = 5"
| "level_num TELEMETRY = 6"

instantiation lock_level :: linorder
begin

definition less_eq_lock_level :: "lock_level \<Rightarrow> lock_level \<Rightarrow> bool" where
  "a \<le> b \<longleftrightarrow> level_num a \<le> level_num b"

definition less_lock_level :: "lock_level \<Rightarrow> lock_level \<Rightarrow> bool" where
  "a < b \<longleftrightarrow> level_num a < level_num b"

instance
proof
  fix a b :: lock_level
  show "a \<le> b \<Longrightarrow> b \<le> a \<Longrightarrow> a = b" by (cases a; cases b) (simp_all add: less_eq_lock_level_def)
qed (auto simp: less_eq_lock_level_def less_lock_level_def)

end

definition SEALED_LOCK_NAME :: string where "SEALED_LOCK_NAME = ''sealed_lock''"

definition NAME_TO_LEVEL :: "(string \<times> lock_level) list" where
  "NAME_TO_LEVEL = [(''buffer_lock'', BUFFER), (''fill_lock'', FILL), (''sqlite_lock'', SQLITE), (''pacer_lock'', PACER),
     (''flush_lock'', FLUSH), (''telemetry_lock'', TELEMETRY)]"

definition LOCK_HIERARCHY :: "string list" where
  "LOCK_HIERARCHY = [''buffer_lock'', ''fill_lock'', ''sqlite_lock'', ''pacer_lock'', ''flush_lock'', ''telemetry_lock'']"

datatype lock_kind = RLock | AsyncioLock

definition create_lock :: "string \<Rightarrow> lock_kind option" where
  "create_lock name =
     (if name = ''buffer_lock'' then Some RLock
      else if name = SEALED_LOCK_NAME \<or> name \<in> set LOCK_HIERARCHY then Some AsyncioLock else None)"

section \<open>Validation of an order\<close>

datatype order_verdict = OrderOk | UnknownLock | OrderViolation

text \<open>The loop over the acquired names keeps the greatest level; \<open>Inl\<close> is the exception for an unknown name.\<close>

fun max_acquired :: "string list \<Rightarrow> lock_level option \<Rightarrow> (unit, lock_level option) sum" where
  "max_acquired [] m = Inr m"
| "max_acquired (name # names) m =
     (if name = SEALED_LOCK_NAME then max_acquired names m
      else case map_of NAME_TO_LEVEL name of
             None \<Rightarrow> Inl ()
           | Some lvl \<Rightarrow> max_acquired names (if (case m of None \<Rightarrow> True | Some k \<Rightarrow> k < lvl) then Some lvl else m))"

definition validate_lock_order :: "string list \<Rightarrow> string \<Rightarrow> order_verdict" where
  "validate_lock_order acquired next_lock =
     (if next_lock = SEALED_LOCK_NAME then OrderOk
      else case map_of NAME_TO_LEVEL next_lock of
             None \<Rightarrow> UnknownLock
           | Some next_level \<Rightarrow>
               (case max_acquired acquired None of
                  Inl _ \<Rightarrow> UnknownLock
                | Inr None \<Rightarrow> OrderOk
                | Inr (Some m) \<Rightarrow> if next_level \<le> m then OrderViolation else OrderOk))"

text \<open>The levels of a sequence of names, without the sealed lock.\<close>

definition levels_of :: "string list \<Rightarrow> lock_level list" where
  "levels_of names = map (\<lambda>n. the (map_of NAME_TO_LEVEL n)) (filter (\<lambda>n. n \<noteq> SEALED_LOCK_NAME) names)"

definition known :: "string \<Rightarrow> bool" where
  "known n \<longleftrightarrow> n = SEALED_LOCK_NAME \<or> map_of NAME_TO_LEVEL n \<noteq> None"

definition all_valid :: "string list \<Rightarrow> bool" where
  "all_valid names \<longleftrightarrow> list_all (\<lambda>i. validate_lock_order (take i names) (names ! i) = OrderOk) [0..<length names]"

lemma max_acquired_known:
  "list_all known names \<Longrightarrow> max_acquired names m =
     Inr (fold (\<lambda>l m. if (case m of None \<Rightarrow> True | Some k \<Rightarrow> k < l) then Some l else m) (levels_of names) m)"
  by (induction names arbitrary: m) (auto simp: known_def levels_of_def split: option.splits)

lemma fold_max_level:
  "fold (\<lambda>l m. if (case m of None \<Rightarrow> True | Some k \<Rightarrow> k < l) then Some l else m) ls m =
     (case m of None \<Rightarrow> if ls = [] then None else Some (Max (set ls)) | Some k \<Rightarrow> Some (Max (insert k (set ls))))"
proof (induction ls arbitrary: m)
  case (Cons l ls)
  have "Max (insert k (insert l (set ls))) = Max (insert (max k l) (set ls))" for k
    by (cases "set ls = {}") (simp_all add: max.assoc)
  then show ?case by (auto simp: Cons.IH max_def not_less split: option.splits)
qed (simp split: option.split)

lemma validate_known:
  assumes "list_all known acquired"
  shows "validate_lock_order acquired n = OrderOk \<longleftrightarrow>
     known n \<and> (n \<noteq> SEALED_LOCK_NAME \<longrightarrow> list_all (\<lambda>l. l < the (map_of NAME_TO_LEVEL n)) (levels_of acquired))"
proof -
  have "\<not> lvl \<le> Max (set ls) \<longleftrightarrow> list_all (\<lambda>l. l < lvl) ls" if "ls \<noteq> []" for ls and lvl :: lock_level
    using that by (simp add: not_le list_all_iff)
  then show ?thesis
    by (auto simp: validate_lock_order_def max_acquired_known [OF assms] fold_max_level known_def split: option.splits)
qed

text \<open>Lemma: taking locks one after the other passes the validation every time exactly when every name is known and the levels, the
  sealed lock aside, strictly increase; in particular no lock can be taken twice.\<close>

theorem lock_order_valid:
  "all_valid names \<longleftrightarrow> list_all known names \<and> sorted_wrt (<) (levels_of names)"
proof (induction names rule: rev_induct)
  case Nil
  then show ?case by (simp add: all_valid_def levels_of_def)
next
  case (snoc n names)
  have a: "all_valid (names @ [n]) \<longleftrightarrow> all_valid names \<and> validate_lock_order names n = OrderOk"
  proof -
    have "list_all (\<lambda>i. validate_lock_order (take i (names @ [n])) ((names @ [n]) ! i) = OrderOk) [0..<length names]
        \<longleftrightarrow> list_all (\<lambda>i. validate_lock_order (take i names) (names ! i) = OrderOk) [0..<length names]"
      by (auto simp: list_all_iff nth_append)
    then show ?thesis by (simp add: all_valid_def)
  qed
  show ?case
  proof (cases "list_all known names")
    case True
    have "levels_of (names @ [n]) = (if n = SEALED_LOCK_NAME then levels_of names else levels_of names @ [the (map_of NAME_TO_LEVEL n)])"
      by (simp add: levels_of_def)
    then show ?thesis using a validate_known [OF True] snoc True by (auto simp: sorted_wrt_append list_all_iff)
  next
    case False
    then show ?thesis using a snoc by simp
  qed
qed

section \<open>Hierarchical locks\<close>

record ('l, 't) lock_world =
  owner :: "'l \<rightharpoonup> 't"
  held :: "'t \<Rightarrow> lock_level set"
  waiting :: "'t \<rightharpoonup> 'l"

definition no_locks :: "('l, 't) lock_world" where
  "no_locks = \<lparr>owner = Map.empty, held = \<lambda>_. {}, waiting = Map.empty\<rparr>"

datatype acquire_outcome = LockViolation | LockTaken | LockRefused | LockBlocks

text \<open>The test at the start of \<^verbatim>\<open>acquire\<close>: a held level that is not below the requested one raises.\<close>

definition order_violated :: "('l \<Rightarrow> lock_level) \<Rightarrow> 't \<Rightarrow> 'l \<Rightarrow> ('l, 't) lock_world \<Rightarrow> bool" where
  "order_violated lev t l w \<longleftrightarrow> (\<exists>k \<in> held w t. lev l \<le> k)"

definition take_lock :: "('l \<Rightarrow> lock_level) \<Rightarrow> 't \<Rightarrow> 'l \<Rightarrow> ('l, 't) lock_world \<Rightarrow> ('l, 't) lock_world" where
  "take_lock lev t l w = w\<lparr>owner := (owner w)(l \<mapsto> t), held := (held w)(t := insert (lev l) (held w t)), waiting := (waiting w)(t := None)\<rparr>"

definition lock_acquire :: "('l \<Rightarrow> lock_level) \<Rightarrow> bool \<Rightarrow> 't \<Rightarrow> 'l \<Rightarrow> ('l, 't) lock_world \<Rightarrow> ('l, 't) lock_world \<times> acquire_outcome" where
  "lock_acquire lev blocking t l w =
     (if order_violated lev t l w then (w, LockViolation)
      else if owner w l = None then (take_lock lev t l w, LockTaken)
      else if blocking then (w\<lparr>waiting := (waiting w)(t \<mapsto> l)\<rparr>, LockBlocks)
      else (w, LockRefused))"

text \<open>\<^verbatim>\<open>release\<close> unlocks whoever holds the lock, and discards the level of the caller; an unlocked lock raises (\<open>None\<close>).\<close>

definition lock_release :: "('l \<Rightarrow> lock_level) \<Rightarrow> 't \<Rightarrow> 'l \<Rightarrow> ('l, 't) lock_world \<Rightarrow> ('l, 't) lock_world option" where
  "lock_release lev t l w =
     (if owner w l = None then None
      else Some (w\<lparr>owner := (owner w)(l := None), held := (held w)(t := held w t - {lev l})\<rparr>))"

text \<open>Runs of any number of threads over any number of locks. A thread that waits does nothing until the lock is free or its time is over. The
  parameter says whether only the holder releases a lock, as \<^verbatim>\<open>with\<close> blocks do.\<close>

inductive lock_run :: "('l \<Rightarrow> lock_level) \<Rightarrow> bool \<Rightarrow> ('l, 't) lock_world \<Rightarrow> bool" for lev disciplined where
  start: "lock_run lev disciplined no_locks"
| acquires: "lock_run lev disciplined w \<Longrightarrow> waiting w t = None \<Longrightarrow> lock_acquire lev blocking t l w = (w', r) \<Longrightarrow> lock_run lev disciplined w'"
| wakes: "lock_run lev disciplined w \<Longrightarrow> waiting w t = Some l \<Longrightarrow> owner w l = None \<Longrightarrow> lock_run lev disciplined (take_lock lev t l w)"
| times_out: "lock_run lev disciplined w \<Longrightarrow> lock_run lev disciplined (w\<lparr>waiting := (waiting w)(t := None)\<rparr>)"
| releases: "lock_run lev disciplined w \<Longrightarrow> waiting w t = None \<Longrightarrow> \<not> disciplined \<or> owner w l = Some t \<Longrightarrow> lock_release lev t l w = Some w'
    \<Longrightarrow> lock_run lev disciplined w'"

text \<open>A circle of threads each of which waits for a lock of the next one.\<close>

definition deadlocked :: "'t list \<Rightarrow> ('l, 't) lock_world \<Rightarrow> bool" where
  "deadlocked ts w \<longleftrightarrow> ts \<noteq> [] \<and>
     list_all (\<lambda>i. case waiting w (ts ! i) of None \<Rightarrow> False | Some l \<Rightarrow> owner w l = Some (ts ! (Suc i mod length ts))) [0..<length ts]"

definition levels_sound :: "('l \<Rightarrow> lock_level) \<Rightarrow> ('l, 't) lock_world \<Rightarrow> bool" where
  "levels_sound lev w \<longleftrightarrow>
     (\<forall>l t. owner w l = Some t \<longrightarrow> lev l \<in> held w t)
     \<and> (\<forall>l l' t. owner w l = Some t \<and> owner w l' = Some t \<and> lev l = lev l' \<longrightarrow> l = l')
     \<and> (\<forall>t l. waiting w t = Some l \<longrightarrow> \<not> order_violated lev t l w)"

lemma take_lock_sound:
  assumes "levels_sound lev w" and "\<not> order_violated lev t l w" and "owner w l = None"
  shows "levels_sound lev (take_lock lev t l w)"
  unfolding levels_sound_def
proof (intro conjI allI impI)
  fix k t' assume "owner (take_lock lev t l w) k = Some t'"
  then show "lev k \<in> held (take_lock lev t l w) t'"
    using assms(1) by (auto simp: take_lock_def levels_sound_def split: if_splits)
next
  fix k k' t' assume a: "owner (take_lock lev t l w) k = Some t' \<and> owner (take_lock lev t l w) k' = Some t' \<and> lev k = lev k'"
  have "owner w m = Some t \<Longrightarrow> lev m \<noteq> lev l" for m using assms(1,2) by (force simp: levels_sound_def order_violated_def)
  then have other: "lev k \<noteq> lev l" if "owner w k = Some t" for k using that by blast
  have own: "owner (take_lock lev t l w) m = (if m = l then Some t else owner w m)" for m by (simp add: take_lock_def)
  show "k = k'"
  proof (cases "k = l \<or> k' = l")
    case True
    then show ?thesis using a other [of k] other [of k'] unfolding own by (auto split: if_splits)
  next
    case False
    then have "owner w k = Some t'" "owner w k' = Some t'" using a by (simp_all add: own)
    then show ?thesis using assms(1) a unfolding levels_sound_def by blast
  qed
next
  fix t' m assume "waiting (take_lock lev t l w) t' = Some m"
  then show "\<not> order_violated lev t' m (take_lock lev t l w)"
    using assms(1) by (auto simp: take_lock_def levels_sound_def order_violated_def split: if_splits)
qed

lemma release_sound:
  assumes "levels_sound lev w" and "owner w l = Some t" and "waiting w t = None" and "lock_release lev t l w = Some w'"
  shows "levels_sound lev w'"
proof -
  have w': "w' = w\<lparr>owner := (owner w)(l := None), held := (held w)(t := held w t - {lev l})\<rparr>"
    using assms(2,4) by (simp add: lock_release_def)
  show ?thesis
    unfolding levels_sound_def
  proof (intro conjI allI impI)
    fix k t' assume "owner w' k = Some t'"
    then have k: "owner w k = Some t'" "k \<noteq> l" by (auto simp: w' split: if_splits)
    then have "t' = t \<Longrightarrow> lev k \<noteq> lev l" using assms(1,2) by (force simp: levels_sound_def)
    then show "lev k \<in> held w' t'" using assms(1) k by (auto simp: w' levels_sound_def)
  next
    fix k k' t' assume "owner w' k = Some t' \<and> owner w' k' = Some t' \<and> lev k = lev k'"
    then show "k = k'" using assms(1) unfolding levels_sound_def w' by (auto split: if_splits)
  next
    fix t' m assume "waiting w' t' = Some m"
    then show "\<not> order_violated lev t' m w'" using assms(1) by (auto simp: w' levels_sound_def order_violated_def)
  qed
qed

lemma lock_run_sound: "lock_run lev disciplined w \<Longrightarrow> disciplined \<Longrightarrow> levels_sound lev w"
proof (induction rule: lock_run.induct)
  case start
  then show ?case by (simp add: levels_sound_def no_locks_def)
next
  case (acquires w t blocking l w' r)
  then have s: "levels_sound lev w" by simp
  show ?case
  proof (cases "order_violated lev t l w \<or> (owner w l \<noteq> None \<and> \<not> blocking)")
    case True
    then show ?thesis using acquires.hyps(3) s by (auto simp: lock_acquire_def split: if_splits)
  next
    case False
    show ?thesis
    proof (cases "owner w l")
      case None
      then show ?thesis using take_lock_sound [OF s] False acquires.hyps(3) by (auto simp: lock_acquire_def)
    next
      case (Some x)
      then have "w' = w\<lparr>waiting := (waiting w)(t \<mapsto> l)\<rparr>" using False acquires.hyps(3) by (auto simp: lock_acquire_def)
      then show ?thesis using s False by (auto simp: levels_sound_def order_violated_def)
    qed
  qed
next
  case (wakes w t l)
  then show ?case by (intro take_lock_sound) (auto simp: levels_sound_def)
next
  case (times_out w t)
  then show ?case by (auto simp: levels_sound_def order_violated_def)
next
  case (releases w t l w')
  then show ?case using release_sound [of lev w l t w'] by auto
qed

text \<open>C17: as long as a lock is released by the thread that took it, no number of threads over any number of hierarchical locks ever
  wait for each other in a circle.\<close>

theorem lock_no_deadlock:
  assumes "lock_run lev True w" shows "\<not> deadlocked ts w"
proof
  assume d: "deadlocked ts w"
  note s = lock_run_sound [OF assms TrueI]
  define n where "n = length ts"
  define f where "f i = lev (the (waiting w (ts ! i)))" for i
  have n: "0 < n" using d by (simp add: deadlocked_def n_def)
  have c: "case waiting w (ts ! i) of None \<Rightarrow> False | Some l \<Rightarrow> owner w l = Some (ts ! (Suc i mod n))" if "i < n" for i
  proof -
    from d have "\<forall>i \<in> set [0..<n]. case waiting w (ts ! i) of None \<Rightarrow> False | Some l \<Rightarrow> owner w l = Some (ts ! (Suc i mod n))"
      unfolding deadlocked_def list_all_iff n_def by (rule conjunct2)
    then show ?thesis by (rule bspec) (simp add: that)
  qed
  have step: "f i < f (Suc i mod n)" if "i < n" for i
  proof -
    note ci = c [OF that]
    obtain l where l: "waiting w (ts ! i) = Some l" "owner w l = Some (ts ! (Suc i mod n))"
      using ci by (auto split: option.splits)
    have "Suc i mod n < n" using n by simp
    then obtain m where m: "waiting w (ts ! (Suc i mod n)) = Some m"
      using c by (fastforce split: option.splits)
    have "lev l \<in> held w (ts ! (Suc i mod n))" "\<not> order_violated lev (ts ! (Suc i mod n)) m w"
      using s l(2) m by (simp_all add: levels_sound_def)
    then show ?thesis using l(1) m by (auto simp: f_def order_violated_def not_le)
  qed
  obtain i where i: "i < n" "\<forall>j < n. f j \<le> f i"
  proof -
    have "Max (f ` {..<n}) \<in> f ` {..<n}" using n by (intro Max_in) auto
    then obtain i where "i < n" "f i = Max (f ` {..<n})" by auto
    then show ?thesis by (intro that [of i]) auto
  qed
  have "Suc i mod n < n" using n by simp
  with i step [OF i(1)] show False by (simp add: leD)
qed

lemma lock_no_deadlock_witness:
  "(let w1 = fst (lock_acquire (\<lambda>l. l) True (0::nat) FILL no_locks);
        w2 = fst (lock_acquire (\<lambda>l. l) True 1 SQLITE w1);
        w3 = fst (lock_acquire (\<lambda>l. l) True 0 SQLITE w2);
        (w4, r) = lock_acquire (\<lambda>l. l) True 1 FILL w3
    in waiting w3 0 = Some SQLITE \<and> r = LockViolation \<and> \<not> deadlocked [0, 1] w4)"
proof -
  let ?w1 = "fst (lock_acquire (\<lambda>l. l) True (0::nat) FILL no_locks)"
  let ?w2 = "fst (lock_acquire (\<lambda>l. l) True 1 SQLITE ?w1)"
  let ?w3 = "fst (lock_acquire (\<lambda>l. l) True 0 SQLITE ?w2)"
  note e = lock_acquire_def order_violated_def no_locks_def take_lock_def less_eq_lock_level_def
  have "lock_run (\<lambda>l. l) True ?w1" by (rule lock_run.acquires [OF lock_run.start _ surjective_pairing]) (simp add: no_locks_def)
  then have "lock_run (\<lambda>l. l) True ?w2" by (rule lock_run.acquires [OF _ _ surjective_pairing]) (simp add: e)
  then have "lock_run (\<lambda>l. l) True ?w3" by (rule lock_run.acquires [OF _ _ surjective_pairing]) (simp add: e)
  then have "lock_run (\<lambda>l. l) True (fst (lock_acquire (\<lambda>l. l) True 1 FILL ?w3))"
    by (rule lock_run.acquires [OF _ _ surjective_pairing]) (simp add: e)
  from lock_no_deadlock [OF this, of "[0, 1]"] show ?thesis by (simp add: e)
qed

text \<open>Nothing checks that the caller of \<^verbatim>\<open>release\<close> holds the lock: a thread that releases another thread's lock of a level it holds itself
  forgets its own level, and may then wait for a lock that it holds.\<close>

theorem lock_foreign_release:
  "\<exists>w. lock_run (\<lambda>l::bool. FILL) False w \<and> deadlocked [0::nat] w"
proof -
  define w1 :: "(bool, nat) lock_world" where "w1 = fst (lock_acquire (\<lambda>l. FILL) True 0 True no_locks)"
  define w2 where "w2 = fst (lock_acquire (\<lambda>l. FILL) True 1 False w1)"
  define w3 where "w3 = the (lock_release (\<lambda>l. FILL) 0 False w2)"
  define w4 where "w4 = fst (lock_acquire (\<lambda>l. FILL) True 0 True w3)"
  note e = lock_acquire_def order_violated_def no_locks_def take_lock_def lock_release_def
  have r1: "lock_run (\<lambda>l. FILL) False w1" unfolding w1_def by (rule lock_run.acquires [OF lock_run.start _ surjective_pairing]) (simp add: no_locks_def)
  have r2: "lock_run (\<lambda>l. FILL) False w2" unfolding w2_def by (rule lock_run.acquires [OF r1 _ surjective_pairing]) (simp add: w1_def e)
  have r3: "lock_run (\<lambda>l. FILL) False w3" unfolding w3_def
    by (rule lock_run.releases [OF r2, of 0 False]) (simp_all add: w1_def w2_def e)
  have r4: "lock_run (\<lambda>l. FILL) False w4" unfolding w4_def by (rule lock_run.acquires [OF r3 _ surjective_pairing]) (simp add: w1_def w2_def w3_def e)
  have "deadlocked [0] w4" by (simp add: deadlocked_def w1_def w2_def w3_def w4_def e)
  with r4 show ?thesis by blast
qed

end
