(* ===== verification/Sqlite_Writer.thy ===== *)
theory Sqlite_Writer
  imports Float64 "HOL-Library.Product_Lexorder" "HOL-Library.List_Lexorder" "HOL-Library.Char_ord" "HOL-Library.Multiset"
begin

text \<open>
  \<^verbatim>\<open>src/storage/sqlite_writer.py\<close>: the five tables of the writer with their columns and defaults, the statements of
  its methods as functions on tables, and the connection as the state it sees (\<open>live\<close>) beside the state that has been
  committed (\<open>disk\<close>). A statement or a commit may fail; a failed commit leaves the change in the open transaction. SQLite
  itself is modelled by the documented meaning of the statements used: \<^verbatim>\<open>INSERT\<close> with conflict clauses, \<^verbatim>\<open>UPDATE\<close> with a
  row count, \<^verbatim>\<open>AUTOINCREMENT\<close>, \<^verbatim>\<open>SELECT\<close> with \<^verbatim>\<open>WHERE\<close>, \<^verbatim>\<open>ORDER BY\<close> and \<^verbatim>\<open>LIMIT\<close>, and the conversion of a value that is stored
  to the type of its column. An integer that needs more than 64 bits cannot be bound: that is a statement that fails.
\<close>

section \<open>Values, rows and tables\<close>

datatype sql = SNull | SInt int | SReal rat | SText string

text \<open>The order SQLite sorts values by: NULL, then numbers, then text.\<close>

fun sql_key :: "sql \<Rightarrow> nat \<times> rat \<times> string" where
  "sql_key SNull = (0, 0, '''')"
| "sql_key (SInt n) = (1, of_int n, '''')"
| "sql_key (SReal r) = (1, r, '''')"
| "sql_key (SText s) = (2, 0, s)"

text \<open>A payload is a Python dictionary; a row lists the columns of its schema in order.\<close>

type_synonym sql_payload = "(string, sql) dict"
type_synonym sql_row = "(string \<times> sql) list"
type_synonym schema = "(string \<times> sql) list"

definition payload_get :: "sql_payload \<Rightarrow> string \<Rightarrow> sql \<Rightarrow> sql" where
  "payload_get p k d = (case dget p k of None \<Rightarrow> d | Some v \<Rightarrow> v)"

fun sql_truthy :: "sql \<Rightarrow> bool" where
  "sql_truthy SNull = False"
| "sql_truthy (SInt n) = (n \<noteq> 0)"
| "sql_truthy (SReal r) = (r \<noteq> 0)"
| "sql_truthy (SText s) = (s \<noteq> '''')"

definition payload_flag :: "sql_payload \<Rightarrow> string \<Rightarrow> sql" where
  "payload_flag p k = SInt (if sql_truthy (payload_get p k SNull) then 1 else 0)"

definition col :: "sql_row \<Rightarrow> string \<Rightarrow> sql" where
  "col r c = (case map_of r c of None \<Rightarrow> SNull | Some v \<Rightarrow> v)"

text \<open>What a column makes of a value that is stored in it (its affinity). How a number is written as text, and which texts are numbers, is
  left to the library: a text that is no number is none.\<close>

datatype column_type = TextColumn | RealColumn | IntegerColumn

record conversions =
  real_text :: "rat \<Rightarrow> string"
  text_number :: "string \<Rightarrow> (int + rat) option"

definition TEXT_COLUMNS :: "string list" where
  "TEXT_COLUMNS = [''position_id'', ''symbol'', ''side'', ''status'', ''close_reason'', ''universe_status'', ''order_id'', ''band_key'', ''date_utc'']"

definition REAL_COLUMNS :: "string list" where
  "REAL_COLUMNS = [''avg'', ''qty_open'', ''qty_remaining'', ''original_planned_entry'', ''original_tp'', ''original_sl'', ''current_tp_shifted'',
     ''current_sl_shifted'', ''realized_pnl'', ''fee_total'', ''r_multiple'', ''filled_qty'', ''fill_price'', ''fee'', ''slippage'', ''price'',
     ''oi_delta_usd'', ''fill_ratio'', ''balance'', ''equity'', ''unrealized_pnl'', ''realized_today'', ''drawdown_pct'', ''start_equity'',
     ''end_equity'', ''fees'']"

text \<open>The declared types; a name has the same type in every table that has it.\<close>

definition column_type :: "string \<Rightarrow> column_type" where
  "column_type c = (if c \<in> set TEXT_COLUMNS then TextColumn else if c \<in> set REAL_COLUMNS then RealColumn else IntegerColumn)"

text \<open>A real that is an integer of 64 bits is stored as one in an \<^verbatim>\<open>INTEGER\<close> column.\<close>

definition integer_or_real :: "rat \<Rightarrow> sql" where
  "integer_or_real r = (if of_int \<lfloor>r\<rfloor> = r \<and> - (2 ^ 63) < r \<and> r < 2 ^ 63 then SInt \<lfloor>r\<rfloor> else SReal r)"

fun affinity :: "conversions \<Rightarrow> column_type \<Rightarrow> sql \<Rightarrow> sql" where
  "affinity cv t SNull = SNull"
| "affinity cv TextColumn (SText s) = SText s"
| "affinity cv TextColumn (SInt n) = SText (str_of_int n)"
| "affinity cv TextColumn (SReal r) = SText (real_text cv r)"
| "affinity cv RealColumn (SInt n) = SReal (rnd (of_int n))"
| "affinity cv RealColumn (SReal r) = SReal r"
| "affinity cv RealColumn (SText s) =
     (case text_number cv s of None \<Rightarrow> SText s | Some (Inl n) \<Rightarrow> SReal (rnd (of_int n)) | Some (Inr r) \<Rightarrow> SReal r)"
| "affinity cv IntegerColumn (SInt n) = SInt n"
| "affinity cv IntegerColumn (SReal r) = integer_or_real r"
| "affinity cv IntegerColumn (SText s) = (case text_number cv s of None \<Rightarrow> SText s | Some (Inl n) \<Rightarrow> SInt n | Some (Inr r) \<Rightarrow> integer_or_real r)"

definition stored :: "conversions \<Rightarrow> (string \<times> sql) list \<Rightarrow> (string \<times> sql) list" where
  "stored cv vals = map (\<lambda>(c, v). (c, affinity cv (column_type c) v)) vals"

text \<open>A row from values and defaults that have the type of their column.\<close>

definition new_row :: "schema \<Rightarrow> (string \<times> sql) list \<Rightarrow> sql_row" where
  "new_row schema vals = map (\<lambda>(c, d). (c, case map_of vals c of None \<Rightarrow> d | Some v \<Rightarrow> v)) schema"

definition set_cols :: "(string \<times> sql) list \<Rightarrow> sql_row \<Rightarrow> sql_row" where
  "set_cols upd r = map (\<lambda>(c, v). (c, case map_of upd c of None \<Rightarrow> v | Some v' \<Rightarrow> v')) r"

text \<open>A NULL key is equal to no key, so it conflicts with nothing.\<close>

definition same_key :: "string \<Rightarrow> sql \<Rightarrow> sql_row \<Rightarrow> bool" where
  "same_key k v r \<longleftrightarrow> v \<noteq> SNull \<and> col r k = v"

definition insert_or_replace :: "string \<Rightarrow> sql_row \<Rightarrow> sql_row list \<Rightarrow> sql_row list" where
  "insert_or_replace k r t = filter (\<lambda>x. \<not> same_key k (col r k) x) t @ [r]"

definition insert_or_ignore :: "string \<Rightarrow> sql_row \<Rightarrow> sql_row list \<Rightarrow> sql_row list" where
  "insert_or_ignore k r t = (if list_ex (same_key k (col r k)) t then t else t @ [r])"

definition update_where :: "(sql_row \<Rightarrow> bool) \<Rightarrow> (string \<times> sql) list \<Rightarrow> sql_row list \<Rightarrow> sql_row list \<times> nat" where
  "update_where p upd t = (map (\<lambda>r. if p r then set_cols upd r else r) t, length (filter p t))"

definition sql_limit :: "int \<Rightarrow> 'a list \<Rightarrow> 'a list" where
  "sql_limit n xs = (if n < 0 then xs else take (nat n) xs)"

definition order_asc :: "string \<Rightarrow> sql_row list \<Rightarrow> sql_row list" where
  "order_asc c t = sort_key (\<lambda>r. sql_key (col r c)) t"

definition order_desc :: "string \<Rightarrow> sql_row list \<Rightarrow> sql_row list" where
  "order_desc c t = rev (order_asc c t)"

definition project :: "string list \<Rightarrow> sql_row list \<Rightarrow> sql list list" where
  "project cs t = map (\<lambda>r. map (col r) cs) t"

section \<open>The schema\<close>

definition positions_schema :: schema where
  "positions_schema =
     [(''position_id'', SNull), (''symbol'', SNull), (''side'', SNull), (''status'', SText ''open''), (''opened_at_ms'', SNull),
      (''closed_at_ms'', SNull), (''close_reason'', SNull), (''avg'', SNull), (''qty_open'', SNull), (''qty_remaining'', SNull),
      (''original_planned_entry'', SNull), (''original_tp'', SNull), (''original_sl'', SNull), (''current_tp_shifted'', SNull),
      (''current_sl_shifted'', SNull), (''be_active'', SInt 0), (''trailing_active'', SInt 0), (''second_entry_count'', SInt 0),
      (''whale_trust_score'', SInt 0), (''universe_status'', SNull), (''realized_pnl'', SReal 0), (''fee_total'', SReal 0),
      (''r_multiple'', SNull), (''version'', SInt 0), (''sealed_at_ms'', SNull), (''emergency_pending'', SInt 0)]"

definition orders_schema :: schema where
  "orders_schema = map (\<lambda>c. (c, SNull)) [''order_id'', ''position_id'', ''symbol'', ''side'', ''filled_qty'', ''fill_price'', ''fee'',
     ''slippage'', ''status'', ''filled_at_ms'', ''created_at_ms'']"

definition whale_schema :: schema where
  "whale_schema = map (\<lambda>c. (c, SNull)) [''id'', ''symbol'', ''band_key'', ''price'', ''oi_delta_usd'', ''fill_ratio'',
     ''order_lifetime_ms'', ''is_real'', ''is_spoof'', ''trust_score'', ''exchange_ts_ms'', ''created_at_ms'']"

definition equity_schema :: schema where
  "equity_schema = map (\<lambda>c. (c, SNull)) [''id'', ''ts_ms'', ''balance'', ''equity'', ''unrealized_pnl'', ''realized_today'',
     ''drawdown_pct'', ''open_positions'']"

definition daily_schema :: schema where
  "daily_schema = map (\<lambda>c. (c, SNull)) [''date_utc'', ''start_equity'', ''end_equity'', ''realized_pnl'', ''fees'', ''trades_count'',
     ''win_count'', ''loss_count'']"

record tables =
  tb_positions :: "sql_row list"
  tb_orders :: "sql_row list"
  tb_whales :: "sql_row list"
  tb_equity :: "sql_row list"
  tb_daily :: "sql_row list"
  whale_next_id :: int
  equity_next_id :: int

definition empty_tables :: tables where
  "empty_tables = \<lparr>tb_positions = [], tb_orders = [], tb_whales = [], tb_equity = [], tb_daily = [], whale_next_id = 1, equity_next_id = 1\<rparr>"

section \<open>The connection\<close>

text \<open>\<open>w_conv\<close> is what the SQLite library in use makes of numbers and texts.\<close>

record writer =
  connected :: bool
  w_conv :: conversions
  live :: tables
  disk :: tables
  in_txn :: bool

definition init_writer :: "conversions \<Rightarrow> tables \<Rightarrow> writer" where
  "init_writer cv d = \<lparr>connected = False, w_conv = cv, live = d, disk = d, in_txn = False\<rparr>"

text \<open>\<^verbatim>\<open>connect\<close> creates the tables that do not exist, which are empty here, and commits.\<close>

definition connect :: "writer \<Rightarrow> writer" where
  "connect w = w\<lparr>connected := True, live := disk w, in_txn := False\<rparr>"

datatype sql_fault = NoFault | StatementFails | CommitFails

text \<open>A method that writes: it raises when there is no open connection; the statement opens a transaction, and the commit, when it
  is reached and succeeds, closes it. The flag is \<open>False\<close> when the method raises.\<close>

definition sql_write :: "sql_fault \<Rightarrow> (tables \<Rightarrow> tables) \<Rightarrow> writer \<Rightarrow> writer \<times> bool" where
  "sql_write flt f w =
     (if \<not> connected w then (w, False)
      else case flt of
             StatementFails \<Rightarrow> (w\<lparr>in_txn := True\<rparr>, False)
           | CommitFails \<Rightarrow> (w\<lparr>live := f (live w), in_txn := True\<rparr>, False)
           | NoFault \<Rightarrow> (w\<lparr>live := f (live w), disk := f (live w), in_txn := False\<rparr>, True))"

text \<open>\<^verbatim>\<open>fetch\<close> raises without a connection (\<open>None\<close>) and answers a failing query with no rows.\<close>

definition fetch :: "bool \<Rightarrow> (tables \<Rightarrow> sql list list) \<Rightarrow> writer \<Rightarrow> sql list list option" where
  "fetch ok q w = (if \<not> connected w then None else if ok then Some (q (live w)) else Some [])"

definition order_values :: "int \<Rightarrow> sql_payload \<Rightarrow> (string \<times> sql) list" where
  "order_values now p =
     [(''order_id'', payload_get p ''order_id'' SNull), (''position_id'', payload_get p ''position_id'' SNull),
      (''symbol'', payload_get p ''symbol'' SNull), (''side'', payload_get p ''side'' SNull),
      (''filled_qty'', payload_get p ''filled_qty'' (SReal 0)), (''fill_price'', payload_get p ''fill_price'' (SReal 0)),
      (''fee'', payload_get p ''fee'' (SReal 0)), (''slippage'', payload_get p ''slippage'' (SReal 0)),
      (''status'', payload_get p ''status'' (SText ''PARTIAL'')), (''filled_at_ms'', payload_get p ''filled_at_ms'' SNull),
      (''created_at_ms'', payload_get p ''created_at_ms'' (SInt now))]"

definition position_values :: "sql_payload \<Rightarrow> (string \<times> sql) list" where
  "position_values p =
     [(''position_id'', payload_get p ''position_id'' SNull), (''symbol'', payload_get p ''symbol'' SNull),
      (''side'', payload_get p ''side'' SNull), (''status'', payload_get p ''status'' (SText ''open'')),
      (''opened_at_ms'', payload_get p ''opened_at_ms'' SNull), (''closed_at_ms'', payload_get p ''closed_at_ms'' SNull),
      (''close_reason'', payload_get p ''close_reason'' SNull), (''avg'', payload_get p ''avg'' (SReal 0)),
      (''qty_open'', payload_get p ''qty_open'' (SReal 0)), (''qty_remaining'', payload_get p ''qty_remaining'' (SReal 0)),
      (''original_planned_entry'', payload_get p ''original_planned_entry'' (SReal 0)), (''original_tp'', payload_get p ''original_tp'' (SReal 0)),
      (''original_sl'', payload_get p ''original_sl'' (SReal 0)), (''current_tp_shifted'', payload_get p ''current_tp_shifted'' (SReal 0)),
      (''current_sl_shifted'', payload_get p ''current_sl_shifted'' (SReal 0)), (''be_active'', payload_flag p ''be_active''),
      (''trailing_active'', payload_flag p ''trailing_active''), (''second_entry_count'', payload_get p ''second_entry_count'' (SInt 0)),
      (''whale_trust_score'', payload_get p ''whale_trust_score'' (SInt 0)), (''universe_status'', payload_get p ''universe_status'' SNull),
      (''realized_pnl'', payload_get p ''realized_pnl'' (SReal 0)), (''fee_total'', payload_get p ''fee_total'' (SReal 0)),
      (''r_multiple'', payload_get p ''r_multiple'' SNull), (''version'', payload_get p ''version'' (SInt 0)),
      (''sealed_at_ms'', payload_get p ''sealed_at_ms'' SNull), (''emergency_pending'', payload_flag p ''emergency_pending'')]"

definition execute_wal :: "sql_fault \<Rightarrow> int \<Rightarrow> sql_payload \<Rightarrow> writer \<Rightarrow> writer \<times> bool" where
  "execute_wal flt now p w =
     sql_write flt (\<lambda>t. if dget p ''order_id'' \<noteq> None
                        then t\<lparr>tb_orders := insert_or_replace ''order_id'' (new_row orders_schema (stored (w_conv w) (order_values now p))) (tb_orders t)\<rparr>
                        else t\<lparr>tb_positions := insert_or_replace ''position_id'' (new_row positions_schema (stored (w_conv w) (position_values p))) (tb_positions t)\<rparr>) w"

section \<open>Positions\<close>

definition open_values :: "int \<Rightarrow> sql \<Rightarrow> sql_payload \<Rightarrow> (string \<times> sql) list" where
  "open_values now pid p =
     [(''position_id'', pid), (''symbol'', payload_get p ''symbol'' SNull), (''side'', payload_get p ''side'' SNull),
      (''status'', SText ''open''), (''opened_at_ms'', payload_get p ''opened_at_ms'' (SInt now)), (''avg'', payload_get p ''avg'' (SReal 0)),
      (''qty_open'', payload_get p ''qty_open'' (SReal 0)),
      (''qty_remaining'', payload_get p ''qty_remaining'' (payload_get p ''qty_open'' (SReal 0))),
      (''original_planned_entry'', payload_get p ''original_planned_entry'' (payload_get p ''avg'' (SReal 0))),
      (''original_tp'', payload_get p ''original_tp'' (SReal 0)), (''original_sl'', payload_get p ''original_sl'' (SReal 0)),
      (''current_tp_shifted'', payload_get p ''current_tp_shifted'' (SReal 0)),
      (''current_sl_shifted'', payload_get p ''current_sl_shifted'' (SReal 0)),
      (''whale_trust_score'', payload_get p ''whale_trust_score'' (SInt 0)), (''universe_status'', payload_get p ''universe_status'' SNull),
      (''version'', payload_get p ''version'' (SInt 0))]"

text \<open>\<^verbatim>\<open>payload["position_id"]\<close> raises before any statement when the key is missing.\<close>

definition open_position :: "sql_fault \<Rightarrow> int \<Rightarrow> sql_payload \<Rightarrow> writer \<Rightarrow> writer \<times> bool" where
  "open_position flt now p w =
     (case dget p ''position_id'' of
        None \<Rightarrow> (w, False)
      | Some pid \<Rightarrow>
          sql_write flt (\<lambda>t. t\<lparr>tb_positions := insert_or_ignore ''position_id'' (new_row positions_schema (stored (w_conv w) (open_values now pid p))) (tb_positions t)\<rparr>) w)"

definition close_cols :: "int \<Rightarrow> string \<Rightarrow> rat \<Rightarrow> rat \<Rightarrow> rat option \<Rightarrow> (string \<times> sql) list" where
  "close_cols now reason pnl fee rm =
     [(''status'', SText ''closed''), (''closed_at_ms'', SInt now), (''close_reason'', SText reason), (''realized_pnl'', SReal pnl),
      (''fee_total'', SReal fee), (''r_multiple'', case rm of None \<Rightarrow> SNull | Some r \<Rightarrow> SReal r)]"

definition sql_close_position :: "sql_fault \<Rightarrow> int \<Rightarrow> string \<Rightarrow> string \<Rightarrow> rat \<Rightarrow> rat \<Rightarrow> rat option \<Rightarrow> writer \<Rightarrow> writer \<times> bool" where
  "sql_close_position flt now pid reason pnl fee rm w =
     sql_write flt (\<lambda>t. t\<lparr>tb_positions := fst (update_where (same_key ''position_id'' (SText pid))
        (stored (w_conv w) (close_cols now reason pnl fee rm)) (tb_positions t))\<rparr>) w"

definition list_open_positions :: "bool \<Rightarrow> writer \<Rightarrow> sql list list option" where
  "list_open_positions ok w =
     fetch ok (\<lambda>t. project [''position_id'', ''symbol'', ''side'', ''opened_at_ms'', ''avg'', ''qty_open'', ''qty_remaining'',
         ''current_tp_shifted'', ''current_sl_shifted'', ''be_active'', ''trailing_active'', ''whale_trust_score'', ''universe_status'',
         ''version'', ''emergency_pending'']
       (order_desc ''opened_at_ms'' (filter (\<lambda>r. col r ''status'' \<in> {SText ''open'', SText ''partial''}) (tb_positions t)))) w"

definition list_closed_positions :: "bool \<Rightarrow> int \<Rightarrow> writer \<Rightarrow> sql list list option" where
  "list_closed_positions ok n w =
     fetch ok (\<lambda>t. project [''position_id'', ''symbol'', ''side'', ''opened_at_ms'', ''closed_at_ms'', ''close_reason'', ''avg'',
         ''realized_pnl'', ''fee_total'', ''r_multiple'']
       (sql_limit n (order_desc ''closed_at_ms'' (filter (\<lambda>r. col r ''status'' = SText ''closed'') (tb_positions t))))) w"

section \<open>Whales, equity and daily statistics\<close>

definition whale_values :: "int \<Rightarrow> int \<Rightarrow> sql_payload \<Rightarrow> (string \<times> sql) list" where
  "whale_values i now p =
     [(''id'', SInt i), (''symbol'', payload_get p ''symbol'' SNull), (''band_key'', payload_get p ''band_key'' SNull),
      (''price'', payload_get p ''price'' (SReal 0)), (''oi_delta_usd'', payload_get p ''oi_delta_usd'' (SReal 0)),
      (''fill_ratio'', payload_get p ''fill_ratio'' (SReal 0)), (''order_lifetime_ms'', payload_get p ''order_lifetime_ms'' (SInt 0)),
      (''is_real'', payload_flag p ''is_real''), (''is_spoof'', payload_flag p ''is_spoof''),
      (''trust_score'', payload_get p ''trust_score'' (SInt 0)), (''exchange_ts_ms'', payload_get p ''exchange_ts_ms'' (SInt 0)),
      (''created_at_ms'', payload_get p ''created_at_ms'' (SInt now))]"

definition insert_whale_event :: "sql_fault \<Rightarrow> int \<Rightarrow> sql_payload \<Rightarrow> writer \<Rightarrow> writer \<times> bool" where
  "insert_whale_event flt now p w =
     sql_write flt (\<lambda>t. t\<lparr>tb_whales := tb_whales t @ [new_row whale_schema (stored (w_conv w) (whale_values (whale_next_id t) now p))],
                          whale_next_id := whale_next_id t + 1\<rparr>) w"

definition list_recent_whales :: "bool \<Rightarrow> int \<Rightarrow> writer \<Rightarrow> sql list list option" where
  "list_recent_whales ok n w =
     fetch ok (\<lambda>t. project (map fst whale_schema) (sql_limit n (order_desc ''id'' (tb_whales t)))) w"

definition equity_values :: "int \<Rightarrow> int \<Rightarrow> sql_payload \<Rightarrow> (string \<times> sql) list" where
  "equity_values i now p =
     [(''id'', SInt i), (''ts_ms'', payload_get p ''ts_ms'' (SInt now)), (''balance'', payload_get p ''balance'' (SReal 0)),
      (''equity'', payload_get p ''equity'' (SReal 0)), (''unrealized_pnl'', payload_get p ''unrealized_pnl'' (SReal 0)),
      (''realized_today'', payload_get p ''realized_today'' (SReal 0)), (''drawdown_pct'', payload_get p ''drawdown_pct'' (SReal 0)),
      (''open_positions'', payload_get p ''open_positions'' (SInt 0))]"

definition insert_equity_snapshot :: "sql_fault \<Rightarrow> int \<Rightarrow> sql_payload \<Rightarrow> writer \<Rightarrow> writer \<times> bool" where
  "insert_equity_snapshot flt now p w =
     sql_write flt (\<lambda>t. t\<lparr>tb_equity := tb_equity t @ [new_row equity_schema (stored (w_conv w) (equity_values (equity_next_id t) now p))],
                          equity_next_id := equity_next_id t + 1\<rparr>) w"

definition list_equity_snapshots :: "bool \<Rightarrow> int \<Rightarrow> int \<Rightarrow> writer \<Rightarrow> sql list list option" where
  "list_equity_snapshots ok since n w =
     fetch ok (\<lambda>t. project (tl (map fst equity_schema))
       (sql_limit n (order_asc ''ts_ms'' (filter (\<lambda>r. col r ''ts_ms'' \<noteq> SNull \<and> sql_key (SInt since) \<le> sql_key (col r ''ts_ms'')) (tb_equity t))))) w"

definition daily_values :: "sql \<Rightarrow> sql_payload \<Rightarrow> (string \<times> sql) list" where
  "daily_values date p =
     [(''date_utc'', date), (''start_equity'', payload_get p ''start_equity'' (SReal 0)), (''end_equity'', payload_get p ''end_equity'' (SReal 0)),
      (''realized_pnl'', payload_get p ''realized_pnl'' (SReal 0)), (''fees'', payload_get p ''fees'' (SReal 0)),
      (''trades_count'', payload_get p ''trades_count'' (SInt 0)), (''win_count'', payload_get p ''win_count'' (SInt 0)),
      (''loss_count'', payload_get p ''loss_count'' (SInt 0))]"

definition upsert_daily_stats :: "sql_fault \<Rightarrow> sql_payload \<Rightarrow> writer \<Rightarrow> writer \<times> bool" where
  "upsert_daily_stats flt p w =
     (case dget p ''date_utc'' of
        None \<Rightarrow> (w, False)
      | Some date \<Rightarrow>
          sql_write flt (\<lambda>t. t\<lparr>tb_daily := insert_or_replace ''date_utc'' (new_row daily_schema (stored (w_conv w) (daily_values date p))) (tb_daily t)\<rparr>) w)"

definition get_daily_stats :: "bool \<Rightarrow> string \<Rightarrow> writer \<Rightarrow> sql list option option" where
  "get_daily_stats ok date w =
     map_option (\<lambda>rs. case rs of [] \<Rightarrow> None | r # _ \<Rightarrow> Some r)
       (fetch ok (\<lambda>t. project (map fst daily_schema) (filter (same_key ''date_utc'' (SText date)) (tb_daily t))) w)"

section \<open>Versions\<close>

definition sql_int :: "sql \<Rightarrow> int option" where
  "sql_int v = (case v of SInt n \<Rightarrow> Some n | SReal r \<Rightarrow> Some (if 0 \<le> r then \<lfloor>r\<rfloor> else \<lceil>r\<rceil>) | _ \<Rightarrow> None)"

text \<open>\<^verbatim>\<open>get_version\<close>: a missing row, a failing query and a version that is no number all read as zero.\<close>

definition get_version :: "bool \<Rightarrow> string \<Rightarrow> writer \<Rightarrow> int option" where
  "get_version ok pid w =
     (if \<not> connected w then None
      else if \<not> ok then Some 0
      else case filter (same_key ''position_id'' (SText pid)) (tb_positions (live w)) of
             [] \<Rightarrow> Some 0
           | r # _ \<Rightarrow> Some (case sql_int (col r ''version'') of None \<Rightarrow> 0 | Some n \<Rightarrow> n))"

definition version_cols :: "rat \<Rightarrow> rat \<Rightarrow> rat \<Rightarrow> int \<Rightarrow> (string \<times> sql) list" where
  "version_cols avg tp sl expected =
     [(''avg'', SReal avg), (''current_tp_shifted'', SReal tp), (''current_sl_shifted'', SReal sl), (''version'', SInt expected)]"

text \<open>\<^verbatim>\<open>update_position_versioned\<close>: \<open>None\<close> is the exception without a connection. When no row has the expected version the
  method returns without a commit, so the transaction that the statement opened stays open.\<close>

definition update_position_versioned :: "sql_fault \<Rightarrow> string \<Rightarrow> rat \<Rightarrow> rat \<Rightarrow> rat \<Rightarrow> int \<Rightarrow> writer \<Rightarrow> writer \<times> bool option" where
  "update_position_versioned flt pid avg tp sl expected w =
     (if \<not> connected w then (w, None)
      else if flt = StatementFails then (w\<lparr>in_txn := True\<rparr>, Some False)
      else let (ps, n) = update_where (\<lambda>r. same_key ''position_id'' (SText pid) r \<and> col r ''version'' = SInt (expected - 1))
                 (stored (w_conv w) (version_cols avg tp sl expected)) (tb_positions (live w));
               t = (live w)\<lparr>tb_positions := ps\<rparr>
           in if n = 0 then (w\<lparr>in_txn := True\<rparr>, Some False)
              else if flt = CommitFails then (w\<lparr>live := t, in_txn := True\<rparr>, Some False)
              else (w\<lparr>live := t, disk := t, in_txn := False\<rparr>, Some True))"

text \<open>\<^verbatim>\<open>close\<close> gives the connection up and with it an open transaction.\<close>

definition close_writer :: "writer \<Rightarrow> writer" where
  "close_writer w = (if connected w then w\<lparr>connected := False, live := disk w, in_txn := False\<rparr> else w)"


section \<open>Rows of a schema\<close>

lemma column_types [simp]:
  "column_type ''position_id'' = TextColumn" "column_type ''symbol'' = TextColumn" "column_type ''side'' = TextColumn"
  "column_type ''status'' = TextColumn" "column_type ''opened_at_ms'' = IntegerColumn" "column_type ''closed_at_ms'' = IntegerColumn"
  "column_type ''close_reason'' = TextColumn" "column_type ''avg'' = RealColumn" "column_type ''qty_open'' = RealColumn"
  "column_type ''qty_remaining'' = RealColumn" "column_type ''current_tp_shifted'' = RealColumn" "column_type ''current_sl_shifted'' = RealColumn"
  "column_type ''be_active'' = IntegerColumn" "column_type ''trailing_active'' = IntegerColumn" "column_type ''whale_trust_score'' = IntegerColumn"
  "column_type ''universe_status'' = TextColumn" "column_type ''realized_pnl'' = RealColumn" "column_type ''fee_total'' = RealColumn"
  "column_type ''r_multiple'' = RealColumn" "column_type ''version'' = IntegerColumn" "column_type ''emergency_pending'' = IntegerColumn"
  "column_type ''second_entry_count'' = IntegerColumn" "column_type ''sealed_at_ms'' = IntegerColumn"
  "column_type ''original_planned_entry'' = RealColumn" "column_type ''original_tp'' = RealColumn" "column_type ''original_sl'' = RealColumn"
  "column_type ''id'' = IntegerColumn" "column_type ''ts_ms'' = IntegerColumn" "column_type ''equity'' = RealColumn" "column_type ''drawdown_pct'' = RealColumn"
  by (simp_all add: column_type_def TEXT_COLUMNS_def REAL_COLUMNS_def)

lemma affinity_SNull_iff [simp]: "affinity cv t v = SNull \<longleftrightarrow> v = SNull"
  by (cases t; cases v) (auto simp: integer_or_real_def split: option.split sum.split)

lemma map_of_map_val: "map_of (map (\<lambda>(c, d). (c, f c d)) s) c = map_option (f c) (map_of s c)"
  by (induction s) auto

lemma map_of_stored [simp]: "map_of (stored cv vals) c = map_option (affinity cv (column_type c)) (map_of vals c)"
  unfolding stored_def by (rule map_of_map_val)

lemma fst_new_row [simp]: "map fst (new_row s vals) = map fst s"
  by (simp add: new_row_def comp_def split_beta)

lemma fst_set_cols [simp]: "map fst (set_cols upd r) = map fst r"
  by (simp add: set_cols_def comp_def split_beta)

lemma col_new_row: "c \<in> fst ` set s \<Longrightarrow> col (new_row s vals) c = (case map_of vals c of None \<Rightarrow> the (map_of s c) | Some v \<Rightarrow> v)"
proof (cases "map_of s c")
  case None
  then show "c \<in> fst ` set s \<Longrightarrow> ?thesis" by (simp add: map_of_eq_None_iff)
next
  case (Some d)
  then show ?thesis by (simp add: col_def new_row_def map_of_map_val split: option.split)
qed

lemma col_set_cols: "c \<in> set (map fst r) \<Longrightarrow> col (set_cols upd r) c = (case map_of upd c of None \<Rightarrow> col r c | Some v \<Rightarrow> v)"
proof (cases "map_of r c")
  case None
  then show "c \<in> set (map fst r) \<Longrightarrow> ?thesis" by (simp add: map_of_eq_None_iff)
next
  case (Some d)
  then show ?thesis by (simp add: col_def set_cols_def map_of_map_val split: option.split)
qed

lemma col_set_cols_other: "map_of upd c = None \<Longrightarrow> col (set_cols upd r) c = col r c"
  by (cases "map_of r c") (auto simp: col_def set_cols_def map_of_map_val)

definition rows_typed :: "schema \<Rightarrow> sql_row list \<Rightarrow> bool" where
  "rows_typed s t \<longleftrightarrow> list_all (\<lambda>r. map fst r = map fst s) t"

definition keys_unique :: "string \<Rightarrow> sql_row list \<Rightarrow> bool" where
  "keys_unique k t \<longleftrightarrow> distinct (filter (\<lambda>v. v \<noteq> SNull) (map (\<lambda>r. col r k) t))"

text \<open>The identifiers that \<^verbatim>\<open>AUTOINCREMENT\<close> hands out grow and stay below the next one.\<close>

definition row_id :: "sql_row \<Rightarrow> int" where
  "row_id r = (case col r ''id'' of SInt i \<Rightarrow> i | _ \<Rightarrow> 0)"

definition ids_below :: "int \<Rightarrow> sql_row list \<Rightarrow> bool" where
  "ids_below n t \<longleftrightarrow> list_all (\<lambda>r. col r ''id'' = SInt (row_id r) \<and> row_id r < n) t \<and> sorted_wrt (\<lambda>x y. row_id x < row_id y) t"

definition tables_typed :: "tables \<Rightarrow> bool" where
  "tables_typed t \<longleftrightarrow>
     rows_typed positions_schema (tb_positions t) \<and> keys_unique ''position_id'' (tb_positions t)
     \<and> rows_typed orders_schema (tb_orders t) \<and> keys_unique ''order_id'' (tb_orders t)
     \<and> rows_typed whale_schema (tb_whales t) \<and> ids_below (whale_next_id t) (tb_whales t)
     \<and> rows_typed equity_schema (tb_equity t) \<and> ids_below (equity_next_id t) (tb_equity t)
     \<and> rows_typed daily_schema (tb_daily t) \<and> keys_unique ''date_utc'' (tb_daily t)"

lemma rows_typed_simps [simp]:
  "rows_typed s []" "rows_typed s (t @ u) = (rows_typed s t \<and> rows_typed s u)" "rows_typed s [new_row s vals]"
  by (simp_all add: rows_typed_def)

lemma rows_typed_filter: "rows_typed s t \<Longrightarrow> rows_typed s (filter p t)"
  by (auto simp: rows_typed_def list_all_iff)

lemma keys_unique_append:
  "keys_unique k (t @ [r]) \<longleftrightarrow> keys_unique k t \<and> \<not> list_ex (same_key k (col r k)) t"
proof -
  have "col r k \<in> set (map (\<lambda>r. col r k) t) \<longleftrightarrow> (\<exists>x \<in> set t. col x k = col r k)" by (simp add: image_iff) metis
  then show ?thesis by (auto simp: keys_unique_def same_key_def list_ex_iff)
qed

lemma keys_unique_filter: "keys_unique k t \<Longrightarrow> keys_unique k (filter p t)"
proof -
  have "distinct (map (\<lambda>r. col r k) (filter (\<lambda>r. col r k \<noteq> SNull) (filter p t)))"
    if "distinct (map (\<lambda>r. col r k) (filter (\<lambda>r. col r k \<noteq> SNull) t))"
    using distinct_map_filter [OF that, of p] by (simp add: conj_commute)
  then show "keys_unique k t \<Longrightarrow> ?thesis" by (simp add: keys_unique_def filter_map comp_def)
qed

lemma replace_typed:
  assumes "rows_typed s t" and "keys_unique k t"
  shows "rows_typed s (insert_or_replace k (new_row s vals) t) \<and> keys_unique k (insert_or_replace k (new_row s vals) t)"
  using assms by (auto simp: insert_or_replace_def rows_typed_filter keys_unique_append keys_unique_filter list_ex_iff)

lemma ignore_typed:
  assumes "rows_typed s t" and "keys_unique k t"
  shows "rows_typed s (insert_or_ignore k (new_row s vals) t) \<and> keys_unique k (insert_or_ignore k (new_row s vals) t)"
  using assms by (simp add: insert_or_ignore_def keys_unique_append)

lemma update_typed:
  assumes "rows_typed s t" and "keys_unique k t" and "map_of upd k = None"
  shows "rows_typed s (fst (update_where p upd t)) \<and> keys_unique k (fst (update_where p upd t))"
proof -
  have "map (\<lambda>r. col r k) (map (\<lambda>r. if p r then set_cols upd r else r) t) = map (\<lambda>r. col r k) t"
    using assms(3) by (simp add: col_set_cols_other)
  moreover have "rows_typed s (map (\<lambda>r. if p r then set_cols upd r else r) t)"
    using assms(1) by (auto simp: rows_typed_def list_all_iff)
  ultimately show ?thesis using assms(2) by (simp only: update_where_def fst_conv keys_unique_def)
qed

lemma ids_below_append:
  "ids_below n t \<Longrightarrow> col r ''id'' = SInt n \<Longrightarrow> ids_below (n + 1) (t @ [r])"
  by (auto simp: ids_below_def sorted_wrt_append list_all_iff row_id_def [of r])

section \<open>Every table keeps its type\<close>

lemma whale_row_id: "col (new_row whale_schema (stored cv (whale_values i now p))) ''id'' = SInt i"
  and equity_row_id: "col (new_row equity_schema (stored cv (equity_values i now p))) ''id'' = SInt i"
  by (subst col_new_row; simp add: whale_schema_def whale_values_def equity_schema_def equity_values_def)+

inductive writer_reach :: "tables \<Rightarrow> writer \<Rightarrow> bool" for d where
  init: "writer_reach d (init_writer cv d)"
| connect: "writer_reach d w \<Longrightarrow> writer_reach d (connect w)"
| wal: "writer_reach d w \<Longrightarrow> writer_reach d (fst (execute_wal flt now p w))"
| opened: "writer_reach d w \<Longrightarrow> writer_reach d (fst (open_position flt now p w))"
| closed: "writer_reach d w \<Longrightarrow> writer_reach d (fst (sql_close_position flt now pid reason pnl fee rm w))"
| whale: "writer_reach d w \<Longrightarrow> writer_reach d (fst (insert_whale_event flt now p w))"
| snapshot: "writer_reach d w \<Longrightarrow> writer_reach d (fst (insert_equity_snapshot flt now p w))"
| daily: "writer_reach d w \<Longrightarrow> writer_reach d (fst (upsert_daily_stats flt p w))"
| versioned: "writer_reach d w \<Longrightarrow> writer_reach d (fst (update_position_versioned flt pid avg tp sl expected w))"
| close: "writer_reach d w \<Longrightarrow> writer_reach d (close_writer w)"

text \<open>What holds of both copies of the tables; outside a transaction they are the same.\<close>

definition writer_ok :: "writer \<Rightarrow> bool" where
  "writer_ok w \<longleftrightarrow> tables_typed (live w) \<and> tables_typed (disk w) \<and> (in_txn w \<or> live w = disk w)"

lemma sql_write_ok: "writer_ok w \<Longrightarrow> (\<And>t. tables_typed t \<Longrightarrow> tables_typed (f t)) \<Longrightarrow> writer_ok (fst (sql_write flt f w))"
  by (cases flt) (auto simp: sql_write_def writer_ok_def)

lemma versioned_ok: "writer_ok w \<Longrightarrow> writer_ok (fst (update_position_versioned flt pid avg tp sl expected w))"
  unfolding update_position_versioned_def Let_def split_beta
  using update_typed [of positions_schema "tb_positions (live w)" "''position_id''"
      "stored (w_conv w) (version_cols avg tp sl expected)"]
  by (simp add: writer_ok_def tables_typed_def version_cols_def)

lemma writer_reach_ok: "writer_reach d w \<Longrightarrow> tables_typed d \<Longrightarrow> writer_ok w"
proof (induction rule: writer_reach.induct)
  case init
  then show ?case by (simp add: writer_ok_def init_writer_def)
next
  case (connect w)
  then show ?case by (simp add: writer_ok_def connect_def)
next
  case (wal w flt now p)
  then show ?case unfolding execute_wal_def by (intro sql_write_ok) (simp_all add: tables_typed_def replace_typed)
next
  case (opened w flt now p)
  then show ?case unfolding open_position_def
    by (cases "dget p ''position_id''") (auto intro!: sql_write_ok simp: tables_typed_def ignore_typed)
next
  case (closed w flt now pid reason pnl fee rm)
  have "map_of (stored (w_conv w) (close_cols now reason pnl fee rm)) ''position_id'' = None" by (simp add: close_cols_def)
  with closed show ?case unfolding sql_close_position_def by (intro sql_write_ok) (simp_all add: tables_typed_def update_typed [where s = positions_schema and k = "''position_id''"])
next
  case (whale w flt now p)
  then show ?case unfolding insert_whale_event_def
    by (intro sql_write_ok) (simp_all add: tables_typed_def ids_below_append whale_row_id)
next
  case (snapshot w flt now p)
  then show ?case unfolding insert_equity_snapshot_def
    by (intro sql_write_ok) (simp_all add: tables_typed_def ids_below_append equity_row_id)
next
  case (daily w flt p)
  then show ?case unfolding upsert_daily_stats_def
    by (cases "dget p ''date_utc''") (auto intro!: sql_write_ok simp: tables_typed_def replace_typed)
next
  case (versioned w flt pid avg tp sl expected)
  then show ?case by (simp add: versioned_ok)
next
  case (close w)
  then show ?case by (simp add: writer_ok_def close_writer_def)
qed

lemma empty_typed: "tables_typed empty_tables"
  by (simp add: tables_typed_def empty_tables_def keys_unique_def ids_below_def)

text \<open>A library that takes the decimal numerals for numbers.\<close>

definition simple_conv :: conversions where
  "simple_conv = \<lparr>real_text = (\<lambda>r. str_of_int \<lfloor>r\<rfloor> @ ''.0''),
     text_number = (\<lambda>s. if s \<noteq> [] \<and> list_all (\<lambda>c. c \<in> set ''0123456789'') s
        then Some (Inl (foldl (\<lambda>n c. 10 * n + (int (of_char c) - 48)) 0 s)) else None)\<rparr>"

section \<open>Optimistic versions\<close>

text \<open>What a client may expect of versioned updates: an update whose statement runs moves the version from the one before the version it
  expects to that one, and nothing else moves a version; it is won when it moves the version and its commit succeeds.\<close>

locale optimistic_store =
  fixes inv :: "'s \<Rightarrow> bool"
    and version :: "'k \<Rightarrow> 's \<Rightarrow> int option"
    and upd :: "'a \<Rightarrow> 's \<Rightarrow> 's \<times> bool"
    and key_of :: "'a \<Rightarrow> 'k"
    and expects :: "'a \<Rightarrow> int"
    and runs :: "'a \<Rightarrow> bool"
    and commits :: "'a \<Rightarrow> bool"
  assumes upd_inv: "inv s \<Longrightarrow> inv (fst (upd a s))"
    and upd_won: "inv s \<Longrightarrow> snd (upd a s) \<longleftrightarrow> runs a \<and> commits a \<and> version (key_of a) s = Some (expects a - 1)"
    and upd_version: "inv s \<Longrightarrow> version k (fst (upd a s))
      = (if runs a \<and> key_of a = k \<and> version k s = Some (expects a - 1) then Some (expects a) else version k s)"

text \<open>A sequence of attempts: the state after it, the attempts that moved the version of their key, and those that won.\<close>

fun attempts :: "('k \<Rightarrow> 's \<Rightarrow> int option) \<Rightarrow> ('a \<Rightarrow> 's \<Rightarrow> 's \<times> bool) \<Rightarrow> ('a \<Rightarrow> 'k) \<Rightarrow> 'a list \<Rightarrow> 's \<Rightarrow> 's \<times> 'a list \<times> 'a list" where
  "attempts version upd key_of [] s = (s, [], [])"
| "attempts version upd key_of (a # as) s =
     (let (s1, won) = upd a s; (s2, ms, ws) = attempts version upd key_of as s1
      in (s2, if version (key_of a) s1 \<noteq> version (key_of a) s then a # ms else ms, if won then a # ws else ws))"

context optimistic_store
begin

abbreviation run_all :: "'a list \<Rightarrow> 's \<Rightarrow> 's \<times> 'a list \<times> 'a list" where "run_all \<equiv> attempts version upd key_of"
abbreviation moved_of :: "'k \<Rightarrow> 'a list \<Rightarrow> 's \<Rightarrow> 'a list" where "moved_of k as s \<equiv> filter (\<lambda>a. key_of a = k) (fst (snd (run_all as s)))"

lemma run_all_Cons:
  "run_all (a # as) s = (fst (run_all as (fst (upd a s))),
     (if version (key_of a) (fst (upd a s)) \<noteq> version (key_of a) s then [a] else []) @ fst (snd (run_all as (fst (upd a s)))),
     (if snd (upd a s) then [a] else []) @ snd (snd (run_all as (fst (upd a s)))))"
  by (simp add: split_beta Let_def)

lemma moves_iff:
  "inv s \<Longrightarrow> version (key_of a) (fst (upd a s)) \<noteq> version (key_of a) s \<longleftrightarrow> runs a \<and> version (key_of a) s = Some (expects a - 1)"
  by (auto simp: upd_version)

lemma attempts_consecutive:
  assumes "inv s" and "version k s = Some v"
  shows "map expects (moved_of k as s) = [v + 1..v + int (length (moved_of k as s))]
       \<and> version k (fst (run_all as s)) = Some (v + int (length (moved_of k as s)))"
  using assms
proof (induction "as" arbitrary: s v)
  case Nil
  then show ?case by simp
next
  case (Cons a "as")
  note i = upd_inv [OF Cons.prems(1), of a] and u = upd_version [OF Cons.prems(1), of k a] and m = moves_iff [OF Cons.prems(1), of a]
  let ?s1 = "fst (upd a s)"
  show ?case
  proof (cases "runs a \<and> key_of a = k \<and> expects a = v + 1")
    case True
    then have "version k ?s1 = Some (v + 1)" using u Cons.prems(2) by simp
    note ih = Cons.IH [OF i this]
    have mv: "moved_of k (a # as) s = a # moved_of k as ?s1" using m True Cons.prems(2) by (simp only: run_all_Cons) simp
    let ?n = "int (length (moved_of k as ?s1))"
    have "[v + 1..v + 1 + ?n] = (v + 1) # [v + 1 + 1..v + 1 + ?n]" by (simp add: upto_rec1)
    then show ?thesis using ih True unfolding mv by (simp only: run_all_Cons) (simp add: algebra_simps)
  next
    case False
    then have "version k ?s1 = Some v" using u Cons.prems(2) by auto
    note ih = Cons.IH [OF i this]
    have mv: "moved_of k (a # as) s = moved_of k as ?s1" using m False Cons.prems(2) by (simp only: run_all_Cons) auto
    show ?thesis using ih unfolding mv by (simp only: run_all_Cons fst_conv)
  qed
qed

lemma winners_committed:
  "inv s \<Longrightarrow> snd (snd (run_all as s)) = filter commits (fst (snd (run_all as s)))"
proof (induction "as" arbitrary: s)
  case (Cons a "as")
  then show ?case
    using moves_iff [OF Cons.prems, of a] upd_won [OF Cons.prems, of a] Cons.IH [OF upd_inv [OF Cons.prems, of a]] by (simp only: run_all_Cons) auto
qed simp

lemma no_later_mover:
  assumes "inv s" and "version k s = Some v" and "list_all (\<lambda>a. key_of a = k \<and> expects a \<noteq> v + 1) as"
  shows "fst (snd (run_all as s)) = []"
  using assms
proof (induction "as" arbitrary: s)
  case (Cons a "as")
  have "version k (fst (upd a s)) = Some v" using upd_version [OF Cons.prems(1), of k a] Cons.prems(2,3) by auto
  then show ?case
    using Cons.IH [OF upd_inv [OF Cons.prems(1), of a]] Cons.prems(2,3) by (simp only: run_all_Cons) simp
qed simp

lemma race_has_one_mover:
  assumes "inv s" and "version k s = Some v" and "list_all (\<lambda>a. key_of a = k \<and> expects a = v + 1) (a # as)" and "runs a"
  shows "fst (snd (run_all (a # as) s)) = [a]"
proof -
  have v: "version k (fst (upd a s)) = Some (v + 1)" using upd_version [OF assms(1), of k a] assms(2-4) by simp
  moreover have "list_all (\<lambda>a. key_of a = k \<and> expects a \<noteq> v + 1 + 1) as" using assms(3) by (auto simp: list_all_iff)
  ultimately have "fst (snd (run_all as (fst (upd a s)))) = []" by (rule no_later_mover [OF upd_inv [OF assms(1)]])
  then show ?thesis using v assms(2,3) by (simp only: run_all_Cons) simp
qed

end

record version_attempt =
  va_position :: string
  va_avg :: rat
  va_tp :: rat
  va_sl :: rat
  va_expected :: int
  va_fault :: sql_fault

definition attempt_update :: "version_attempt \<Rightarrow> writer \<Rightarrow> writer \<times> bool" where
  "attempt_update a w =
     (let (w', r) = update_position_versioned (va_fault a) (va_position a) (va_avg a) (va_tp a) (va_sl a) (va_expected a) w
      in (w', r = Some True))"

definition stored_version :: "string \<Rightarrow> writer \<Rightarrow> int option" where
  "stored_version pid w =
     (case filter (same_key ''position_id'' (SText pid)) (tb_positions (live w)) of
        [] \<Rightarrow> None
      | r # _ \<Rightarrow> (case col r ''version'' of SInt n \<Rightarrow> Some n | _ \<Rightarrow> None))"

definition serving :: "writer \<Rightarrow> bool" where
  "serving w \<longleftrightarrow> connected w \<and> rows_typed positions_schema (tb_positions (live w)) \<and> keys_unique ''position_id'' (tb_positions (live w))"

lemma unique_key_filter:
  assumes "keys_unique k t" shows "filter (same_key k v) t = [] \<or> (\<exists>r. filter (same_key k v) t = [r])"
proof -
  have "length (filter (same_key k v) t) \<le> 1"
    using assms
  proof (induction t)
    case (Cons r t)
    have "keys_unique k t" using Cons.prems by (auto simp: keys_unique_def split: if_splits)
    moreover have "filter (same_key k v) t = []" if "same_key k v r"
    proof -
      have "col r k \<notin> (\<lambda>r. col r k) ` set t" using Cons.prems that by (simp add: keys_unique_def same_key_def)
      then show ?thesis using that by (auto simp: filter_empty_conv same_key_def image_iff)
    qed
    ultimately show ?case using Cons.IH by auto
  qed simp
  then show ?thesis by (cases "filter (same_key k v) t") auto
qed

lemma version_update_other:
  assumes "map_of upd ''position_id'' = None" and "\<And>r. p r \<Longrightarrow> same_key ''position_id'' (SText q) r" and "q \<noteq> pid"
  shows "filter (same_key ''position_id'' (SText pid)) (map (\<lambda>r. if p r then set_cols upd r else r) t)
       = filter (same_key ''position_id'' (SText pid)) t"
  using assms by (induction t) (auto simp: same_key_def col_set_cols_other)

definition matches :: "version_attempt \<Rightarrow> sql_row \<Rightarrow> bool" where
  "matches a r \<longleftrightarrow> same_key ''position_id'' (SText (va_position a)) r \<and> col r ''version'' = SInt (va_expected a - 1)"

definition new_cols :: "conversions \<Rightarrow> version_attempt \<Rightarrow> (string \<times> sql) list" where
  "new_cols cv a = stored cv (version_cols (va_avg a) (va_tp a) (va_sl a) (va_expected a))"

definition updated :: "conversions \<Rightarrow> version_attempt \<Rightarrow> sql_row list \<Rightarrow> sql_row list" where
  "updated cv a t = map (\<lambda>r. if matches a r then set_cols (new_cols cv a) r else r) t"

lemma attempt_cases:
  assumes "serving w"
  obtains "va_fault a = StatementFails \<or> \<not> list_ex (matches a) (tb_positions (live w))" "attempt_update a w = (w\<lparr>in_txn := True\<rparr>, False)"
  | t where "va_fault a \<noteq> StatementFails" "list_ex (matches a) (tb_positions (live w))"
      "t = (live w)\<lparr>tb_positions := updated (w_conv w) a (tb_positions (live w))\<rparr>"
      "attempt_update a w = (if va_fault a = CommitFails then (w\<lparr>live := t, in_txn := True\<rparr>, False) else (w\<lparr>live := t, disk := t, in_txn := False\<rparr>, True))"
proof -
  have m: "(\<lambda>r. same_key ''position_id'' (SText (va_position a)) r \<and> col r ''version'' = SInt (va_expected a - 1)) = matches a"
    by (simp add: fun_eq_iff matches_def)
  have n: "(filter (matches a) (tb_positions (live w)) = []) \<longleftrightarrow> \<not> list_ex (matches a) (tb_positions (live w))"
    by (auto simp: list_ex_iff filter_empty_conv)
  have "connected w" using assms by (simp add: serving_def)
  then have e: "attempt_update a w =
      (if va_fault a = StatementFails then (w\<lparr>in_txn := True\<rparr>, False)
       else let t = (live w)\<lparr>tb_positions := updated (w_conv w) a (tb_positions (live w))\<rparr>
            in if filter (matches a) (tb_positions (live w)) = [] then (w\<lparr>in_txn := True\<rparr>, False)
               else if va_fault a = CommitFails then (w\<lparr>live := t, in_txn := True\<rparr>, False)
               else (w\<lparr>live := t, disk := t, in_txn := False\<rparr>, True))"
    unfolding attempt_update_def update_position_versioned_def update_where_def updated_def m new_cols_def [symmetric] by (simp add: Let_def)
  show ?thesis
  proof (cases "va_fault a = StatementFails \<or> \<not> list_ex (matches a) (tb_positions (live w))")
    case True
    with e n show ?thesis by (intro that(1)) auto
  next
    case False
    with e n show ?thesis by (intro that(2) [OF _ _ refl]) (auto simp: Let_def)
  qed
qed

lemma updated_typed: "rows_typed positions_schema t \<Longrightarrow> keys_unique ''position_id'' t
    \<Longrightarrow> rows_typed positions_schema (updated cv a t) \<and> keys_unique ''position_id'' (updated cv a t)"
proof -
  have "map_of (new_cols cv a) ''position_id'' = None" by (simp add: new_cols_def version_cols_def)
  then show "rows_typed positions_schema t \<Longrightarrow> keys_unique ''position_id'' t \<Longrightarrow> ?thesis"
    using update_typed [of positions_schema t "''position_id''" "new_cols cv a" "matches a"] by (simp add: update_where_def updated_def)
qed

lemma same_key_updated: "same_key ''position_id'' v (if matches a r then set_cols (new_cols cv a) r else r) = same_key ''position_id'' v r"
  by (simp add: same_key_def col_set_cols_other new_cols_def version_cols_def)

lemma filter_updated:
  "filter (same_key ''position_id'' v) (updated cv a t)
     = map (\<lambda>r. if matches a r then set_cols (new_cols cv a) r else r) (filter (same_key ''position_id'' v) t)"
  unfolding updated_def by (induction t) (simp_all only: list.map filter.simps same_key_updated if_distrib [of "map _"] split: if_split)

lemma new_cols_version: "map fst r = map fst positions_schema \<Longrightarrow> col (set_cols (new_cols cv a) r) ''version'' = SInt (va_expected a)"
  by (subst col_set_cols) (simp_all add: new_cols_def version_cols_def positions_schema_def)

lemma stored_version_iff:
  assumes "keys_unique ''position_id'' (tb_positions (live w))"
  shows "stored_version pid w = Some n \<longleftrightarrow> list_ex (\<lambda>r. same_key ''position_id'' (SText pid) r \<and> col r ''version'' = SInt n) (tb_positions (live w))"
proof -
  have "list_ex (\<lambda>r. same_key ''position_id'' (SText pid) r \<and> col r ''version'' = SInt n) (tb_positions (live w))
      \<longleftrightarrow> list_ex (\<lambda>r. col r ''version'' = SInt n) (filter (same_key ''position_id'' (SText pid)) (tb_positions (live w)))"
    by (auto simp: list_ex_iff)
  then show ?thesis
    using unique_key_filter [OF assms, of "SText pid"] by (auto simp: stored_version_def split: sql.splits)
qed

lemma single_member: "xs = [] \<or> (\<exists>x. xs = [x]) \<Longrightarrow> r \<in> set xs \<Longrightarrow> xs = [r]"
  by auto

lemma version_matches:
  "serving w \<Longrightarrow> stored_version (va_position a) w = Some (va_expected a - 1) \<longleftrightarrow> list_ex (matches a) (tb_positions (live w))"
  by (subst stored_version_iff) (auto simp: serving_def matches_def list_ex_iff)

lemma stored_version_updated:
  assumes "serving w" and "live w' = (live w)\<lparr>tb_positions := updated (w_conv w) a (tb_positions (live w))\<rparr>" and "list_ex (matches a) (tb_positions (live w))"
  shows "stored_version pid w' = (if va_position a = pid then Some (va_expected a) else stored_version pid w)"
proof -
  let ?t = "tb_positions (live w)"
  let ?f = "filter (same_key ''position_id'' (SText pid)) ?t"
  have typed: "r \<in> set ?f \<Longrightarrow> map fst r = map fst positions_schema" for r using assms(1) by (auto simp: serving_def rows_typed_def list_all_iff)
  have f: "filter (same_key ''position_id'' (SText pid)) (tb_positions (live w')) = map (\<lambda>r. if matches a r then set_cols (new_cols (w_conv w) a) r else r) ?f"
    using assms(2) by (simp add: filter_updated)
  have u: "?f = [] \<or> (\<exists>r. ?f = [r])" using assms(1) by (intro unique_key_filter) (simp add: serving_def)
  show ?thesis
  proof (cases "va_position a = pid")
    case True
    then obtain r where r: "r \<in> set ?f" "matches a r" using assms(3) by (auto simp: list_ex_iff matches_def)
    have "?f = [r]" using u r(1) by (rule single_member)
    then show ?thesis using f r typed [OF r(1)] True by (simp add: stored_version_def new_cols_version)
  next
    case False
    then have "\<not> matches a r" if "r \<in> set ?f" for r using that by (auto simp: matches_def same_key_def)
    then have "map (\<lambda>r. if matches a r then set_cols (new_cols (w_conv w) a) r else r) ?f = ?f" by (intro map_idI) auto
    then show ?thesis using f False by (simp add: stored_version_def)
  qed
qed

abbreviation statement_runs :: "version_attempt \<Rightarrow> bool" where "statement_runs a \<equiv> va_fault a \<noteq> StatementFails"
abbreviation commit_succeeds :: "version_attempt \<Rightarrow> bool" where "commit_succeeds a \<equiv> va_fault a \<noteq> CommitFails"

interpretation positions: optimistic_store serving stored_version attempt_update va_position va_expected statement_runs commit_succeeds
proof
  fix w a pid
  assume w: "serving w"
  note u = version_matches [OF w]
  show "serving (fst (attempt_update a w))"
    using w updated_typed by (rule_tac attempt_cases [OF w, of a]) (auto simp: serving_def)
  show "snd (attempt_update a w) \<longleftrightarrow> statement_runs a \<and> commit_succeeds a \<and> stored_version (va_position a) w = Some (va_expected a - 1)"
    by (rule attempt_cases [OF w, of a]) (auto simp: u)
  show "stored_version pid (fst (attempt_update a w))
      = (if statement_runs a \<and> va_position a = pid \<and> stored_version pid w = Some (va_expected a - 1) then Some (va_expected a) else stored_version pid w)"
  proof (rule attempt_cases [OF w, of a])
    assume "va_fault a = StatementFails \<or> \<not> list_ex (matches a) (tb_positions (live w))" "attempt_update a w = (w\<lparr>in_txn := True\<rparr>, False)"
    then show ?thesis using u [of a] by (auto simp: stored_version_def)
  next
    fix t assume "statement_runs a" "list_ex (matches a) (tb_positions (live w))" "t = (live w)\<lparr>tb_positions := updated (w_conv w) a (tb_positions (live w))\<rparr>"
      "attempt_update a w = (if va_fault a = CommitFails then (w\<lparr>live := t, in_txn := True\<rparr>, False) else (w\<lparr>live := t, disk := t, in_txn := False\<rparr>, True))"
    with stored_version_updated [OF w, of "fst (attempt_update a w)" a pid] u [of a] show ?thesis by auto
  qed
qed

text \<open>C7: of any versioned updates, in any order, for any positions and whichever statements and commits fail, those that
  move the version of one position expect consecutive versions, starting after the stored one, and the stored version is the last of
  them; an update succeeds exactly when it moves the version and its commit does not fail. So none is lost and none succeeds twice,
  and a version is left out only by an update that was made and reported as failed because its commit failed. Of several updates of a
  position that all expect the next version, the first one that the database executes is the only one to be made.\<close>

theorem sql_versions_consecutive:
  assumes "serving w" and "stored_version pid w = Some v"
  shows "(case attempts stored_version attempt_update va_position as w of (w', moved, won) \<Rightarrow>
            let mine = filter (\<lambda>a. va_position a = pid) moved
            in map va_expected mine = [v + 1..v + int (length mine)]
               \<and> stored_version pid w' = Some (v + int (length mine))
               \<and> won = filter commit_succeeds moved)
       \<and> (list_all (\<lambda>a. va_position a = pid \<and> va_expected a = v + 1) (b # as) \<and> statement_runs b
            \<longrightarrow> fst (snd (attempts stored_version attempt_update va_position (b # as) w)) = [b])"
  using positions.attempts_consecutive [OF assms, of "as"] positions.winners_committed [OF assms(1), of "as"]
    positions.race_has_one_mover [OF assms, of b "as"]
  by (simp add: split_beta Let_def del: attempts.simps)

definition blank_position :: sql_row where
  "blank_position = new_row positions_schema (stored simple_conv (open_values 3 (SText ''P'') []))"

definition one_position :: writer where
  "one_position = connect (init_writer simple_conv (empty_tables\<lparr>tb_positions := [blank_position]\<rparr>))"

definition attempt_at :: "sql_fault \<Rightarrow> rat \<Rightarrow> int \<Rightarrow> version_attempt" where
  "attempt_at f x n = \<lparr>va_position = ''P'', va_avg = x, va_tp = x, va_sl = x, va_expected = n, va_fault = f\<rparr>"

lemma blank_cols: "col blank_position ''position_id'' = SText ''P''" "col blank_position ''version'' = SInt 0"
  by (simp_all add: blank_position_def col_def new_row_def positions_schema_def open_values_def payload_get_def)

lemma one_position_serving: "serving one_position \<and> stored_version ''P'' one_position = Some 0"
proof -
  have "rows_typed positions_schema [blank_position]" by (simp add: rows_typed_def blank_position_def)
  then show ?thesis
    by (simp add: serving_def one_position_def connect_def init_writer_def empty_tables_def keys_unique_def stored_version_def same_key_def blank_cols)
qed

lemma sql_versions_consecutive_witness:
  "case attempts stored_version attempt_update va_position [attempt_at CommitFails 5 1, attempt_at NoFault 6 1, attempt_at NoFault 7 1] one_position of
     (w', moved, won) \<Rightarrow> moved = [attempt_at CommitFails 5 1] \<and> won = []"
proof -
  let ?as = "[attempt_at NoFault 6 1, attempt_at NoFault 7 1]" and ?b = "attempt_at CommitFails 5 1"
  have "fst (snd (attempts stored_version attempt_update va_position (?b # ?as) one_position)) = [?b]"
    using sql_versions_consecutive [of one_position "''P''" 0 ?as ?b] one_position_serving by (simp add: attempt_at_def del: attempts.simps)
  moreover from this have "snd (snd (attempts stored_version attempt_update va_position (?b # ?as) one_position)) = []"
    using sql_versions_consecutive [of one_position "''P''" 0 "?b # ?as" ?b] one_position_serving
    by (simp add: split_beta Let_def del: attempts.simps) (simp add: attempt_at_def)
  ultimately show ?thesis by (simp add: split_beta del: attempts.simps)
qed

section \<open>The life of a position\<close>

lemma mset_project_desc: "mset (project cs (order_desc c t)) = image_mset (\<lambda>r. map (col r) cs) (mset t)"
  by (simp add: project_def order_desc_def order_asc_def)

lemma update_appended:
  assumes "\<not> list_ex p t" and "p r"
  shows "fst (update_where p upd (t @ [r])) = t @ [set_cols upd r]"
proof -
  have "map (\<lambda>r. if p r then set_cols upd r else r) t = t" using assms(1) by (intro map_idI) (auto simp: list_ex_iff)
  then show ?thesis using assms(2) by (simp add: update_where_def)
qed

definition opened_row :: "conversions \<Rightarrow> int \<Rightarrow> sql \<Rightarrow> sql_payload \<Rightarrow> sql_row" where
  "opened_row cv now k p = new_row positions_schema (stored cv (open_values now k p))"

lemma opened_row_col: "c \<in> fst ` set positions_schema \<Longrightarrow>
    col (opened_row cv now k p) c
    = (case map_of (open_values now k p) c of None \<Rightarrow> the (map_of positions_schema c) | Some v \<Rightarrow> affinity cv (column_type c) v)"
  unfolding opened_row_def by (subst col_new_row) (simp_all split: option.split)

lemma opened_row_id: "col (opened_row cv now k p) ''position_id'' = affinity cv TextColumn k"
  and opened_row_status: "col (opened_row cv now k p) ''status'' = SText ''open''"
  by (simp_all add: opened_row_col positions_schema_def open_values_def)

lemma closed_row_col: "c \<in> fst ` set positions_schema \<Longrightarrow>
    col (set_cols upd (opened_row cv now k p)) c = (case map_of upd c of None \<Rightarrow> col (opened_row cv now k p) c | Some v \<Rightarrow> v)"
  by (rule col_set_cols) (simp add: opened_row_def)

text \<open>C6: opening a position of a new identifier adds exactly its row to the open positions, read back with the given values
  and the defaults for the missing ones, each converted to the type of its column; closing it, by the text its identifier is stored as,
  takes the row out again and adds it, with the outcome, to the closed positions; and opening the identifier once more changes nothing.\<close>

theorem sql_lifecycle:
  fixes w :: writer and p :: sql_payload and pid reason :: string and now now2 now3 :: int and pnl fee :: rat and rm :: "rat option"
  assumes "connected w" and "dget p ''position_id'' = Some k" and "affinity (w_conv w) TextColumn k = SText pid"
    and "\<not> list_ex (same_key ''position_id'' (SText pid)) (tb_positions (live w))"
  defines "w1 \<equiv> fst (open_position NoFault now p w)"
    and "w2 \<equiv> fst (sql_close_position NoFault now2 pid reason pnl fee rm (fst (open_position NoFault now p w)))"
    and "as_text \<equiv> \<lambda>c. affinity (w_conv w) TextColumn (payload_get p c SNull)"
    and "as_real \<equiv> \<lambda>c. affinity (w_conv w) RealColumn (payload_get p c (SReal 0))"
    and "as_int \<equiv> \<lambda>c d. affinity (w_conv w) IntegerColumn (payload_get p c (SInt d))"
  shows "mset (the (list_open_positions True w1)) = add_mset
            [SText pid, as_text ''symbol'', as_text ''side'', as_int ''opened_at_ms'' now, as_real ''avg'', as_real ''qty_open'',
             affinity (w_conv w) RealColumn (payload_get p ''qty_remaining'' (payload_get p ''qty_open'' (SReal 0))),
             as_real ''current_tp_shifted'', as_real ''current_sl_shifted'', SInt 0, SInt 0,
             as_int ''whale_trust_score'' 0, as_text ''universe_status'', as_int ''version'' 0, SInt 0]
            (mset (the (list_open_positions True w)))
       \<and> mset (the (list_open_positions True w2)) = mset (the (list_open_positions True w))
       \<and> mset (the (list_closed_positions True (- 1) w2)) = add_mset
            [SText pid, as_text ''symbol'', as_text ''side'', as_int ''opened_at_ms'' now, SInt now2,
             SText reason, as_real ''avg'', SReal pnl, SReal fee, (case rm of None \<Rightarrow> SNull | Some r \<Rightarrow> SReal r)]
            (mset (the (list_closed_positions True (- 1) w)))
       \<and> disk w2 = live w2 \<and> live (fst (open_position NoFault now3 p w2)) = live w2"
proof -
  let ?cv = "w_conv w"
  let ?t = "tb_positions (live w)" and ?r = "opened_row ?cv now k p" and ?k = "same_key ''position_id'' (SText pid)"
  let ?c = "set_cols (stored ?cv (close_cols now2 reason pnl fee rm)) ?r"
  have k: "?k ?r" "?k ?c" using assms(3) by (simp_all add: same_key_def opened_row_id col_set_cols_other close_cols_def)
  have w1: "tb_positions (live w1) = ?t @ [?r]" "connected w1" "w_conv w1 = ?cv"
    using assms(1-4) by (simp_all add: w1_def open_position_def sql_write_def insert_or_ignore_def opened_row_id flip: opened_row_def)
  have w2: "tb_positions (live w2) = ?t @ [?c]" "connected w2" "disk w2 = live w2" "w_conv w2 = ?cv"
    using w1 update_appended [OF assms(4) k(1), of "stored ?cv (close_cols now2 reason pnl fee rm)"]
    by (simp_all add: w2_def sql_close_position_def sql_write_def flip: w1_def)
  have st: "col ?c ''status'' = SText ''closed''"
    by (subst closed_row_col) (simp_all add: positions_schema_def close_cols_def)
  have again: "live (fst (open_position NoFault now3 p w2)) = live w2"
    using w2 k(2) assms(2,3) opened_row_id [of ?cv now3 k p, unfolded opened_row_def]
    by (simp add: open_position_def sql_write_def insert_or_ignore_def)
  have c1: "map (col ?r) [''position_id'', ''symbol'', ''side'', ''opened_at_ms'', ''avg'', ''qty_open'', ''qty_remaining'',
         ''current_tp_shifted'', ''current_sl_shifted'', ''be_active'', ''trailing_active'', ''whale_trust_score'', ''universe_status'',
         ''version'', ''emergency_pending'']
     = [SText pid, as_text ''symbol'', as_text ''side'', as_int ''opened_at_ms'' now, as_real ''avg'', as_real ''qty_open'',
             affinity ?cv RealColumn (payload_get p ''qty_remaining'' (payload_get p ''qty_open'' (SReal 0))),
             as_real ''current_tp_shifted'', as_real ''current_sl_shifted'', SInt 0, SInt 0,
             as_int ''whale_trust_score'' 0, as_text ''universe_status'', as_int ''version'' 0, SInt 0]"
    using assms(3) by (simp add: opened_row_col positions_schema_def open_values_def as_text_def as_real_def as_int_def)
  have "affinity ?cv RealColumn (case rm of None \<Rightarrow> SNull | Some r \<Rightarrow> SReal r) = (case rm of None \<Rightarrow> SNull | Some r \<Rightarrow> SReal r)"
    by (simp split: option.split)
  then have c2: "map (col ?c) [''position_id'', ''symbol'', ''side'', ''opened_at_ms'', ''closed_at_ms'', ''close_reason'', ''avg'',
         ''realized_pnl'', ''fee_total'', ''r_multiple'']
     = [SText pid, as_text ''symbol'', as_text ''side'', as_int ''opened_at_ms'' now, SInt now2,
             SText reason, as_real ''avg'', SReal pnl, SReal fee, (case rm of None \<Rightarrow> SNull | Some r \<Rightarrow> SReal r)]"
    using assms(3) by (simp add: closed_row_col opened_row_col close_cols_def positions_schema_def open_values_def as_text_def as_real_def as_int_def)
  show ?thesis
    using assms(1) w1 w2 st again opened_row_status c1 c2
    by (simp add: list_open_positions_def list_closed_positions_def fetch_def mset_project_desc sql_limit_def del: list.map)
qed

lemma sql_lifecycle_witness:
  "(let w0 = connect (init_writer simple_conv empty_tables);
        w2 = fst (sql_close_position NoFault 9 ''5'' ''TP'' 4 1 None (fst (open_position NoFault 5 [(''position_id'', SInt 5), (''avg'', SInt 7)] w0)))
    in list_closed_positions True (- 1) w2 = Some [[SText ''5'', SNull, SNull, SInt 5, SInt 9, SText ''TP'', SReal 7, SReal 4, SReal 1, SNull]])"
proof -
  let ?w0 = "connect (init_writer simple_conv empty_tables)"
  let ?p = "[(''position_id'', SInt 5), (''avg'', SInt 7)]"
  let ?w2 = "fst (sql_close_position NoFault 9 ''5'' ''TP'' 4 1 None (fst (open_position NoFault 5 ?p ?w0)))"
  have w0: "connected ?w0" "tb_positions (live ?w0) = []" "the (list_closed_positions True (- 1) ?w0) = []"
    by (simp_all add: connect_def init_writer_def empty_tables_def list_closed_positions_def fetch_def project_def order_desc_def order_asc_def sql_limit_def)
  have "affinity (w_conv ?w0) TextColumn (SInt 5) = SText ''5''" by code_simp
  moreover have "affinity (w_conv ?w0) RealColumn (SInt 7) = SReal 7" using rnd_of_int [of 7] by simp
  ultimately have "mset (the (list_closed_positions True (- 1) ?w2)) = {#[SText ''5'', SNull, SNull, SInt 5, SInt 9, SText ''TP'', SReal 7, SReal 4, SReal 1, SNull]#}"
    using sql_lifecycle [of ?w0 ?p "SInt 5" "''5''" 5 9 "''TP''" 4 1 None] w0
    by (simp add: dget_Cons payload_get_def)
  moreover have "list_closed_positions True (- 1) ?w2 \<noteq> None"
    using w0 by (simp add: list_closed_positions_def fetch_def sql_close_position_def open_position_def sql_write_def dget_Cons)
  ultimately show ?thesis by (auto simp: Let_def)
qed

text \<open>The columns that closing and updating a position set have their types already.\<close>

lemma stored_close_cols [simp]: "stored cv (close_cols now reason pnl fee rm) = close_cols now reason pnl fee rm"
  by (simp add: stored_def close_cols_def split: option.split)

lemma stored_version_cols [simp]: "stored cv (version_cols avg tp sl expected) = version_cols avg tp sl expected"
  by (simp add: stored_def version_cols_def)

end
