(* ===== verification/Order_Manager.thy ===== *)
theory Order_Manager
  imports Sqlite_Writer Float64
begin

text \<open>
  \<^verbatim>\<open>src/execution/order_manager.py\<close>: fill events and the rows they leave in the database. A fill event is a coroutine; its pieces
  between two points where it can wait are the steps of \<open>fill_step\<close>, so that several fill events can interleave. The lock of the manager is
  part of the state. Whether the writer was given the same lock is the parameter \<open>shared\<close>: an \<^verbatim>\<open>asyncio.Lock\<close> is not reentrant, so a coroutine
  that holds it and asks for it again waits for itself.
\<close>

section \<open>State\<close>

record om_config =
  max_retry :: int
  om_leverage :: rat
  min_lot :: rat
  epsilon_divisor :: rat

definition default_om_config :: om_config where
  "default_om_config = \<lparr>max_retry = 3, om_leverage = 5, min_lot = rnd (1 / 1000), epsilon_divisor = 2\<rparr>"

record order_state =
  fill_lock_held :: bool
  filled_by_order :: "string \<rightharpoonup> rat"
  position_by_order :: "string \<rightharpoonup> string"
  position_opened :: "string set"
  position_side :: "string \<rightharpoonup> string"
  position_symbol :: "string \<rightharpoonup> string"
  position_avg :: "string \<rightharpoonup> rat"
  position_orig_entry :: "string \<rightharpoonup> rat"
  position_orig_sl :: "string \<rightharpoonup> rat"
  position_qty_open :: "string \<rightharpoonup> rat"
  position_universe :: "string \<rightharpoonup> string"
  position_whale_trust :: "string \<rightharpoonup> int"
  om_writer :: writer
  emergency_closes :: "string list"

definition init_order_state :: "writer \<Rightarrow> order_state" where
  "init_order_state w =
     \<lparr>fill_lock_held = False, filled_by_order = Map.empty, position_by_order = Map.empty, position_opened = {}, position_side = Map.empty,
      position_symbol = Map.empty, position_avg = Map.empty, position_orig_entry = Map.empty, position_orig_sl = Map.empty,
      position_qty_open = Map.empty, position_universe = Map.empty, position_whale_trust = Map.empty, om_writer = w, emergency_closes = []\<rparr>"

definition register_position :: "string \<Rightarrow> string \<Rightarrow> string \<Rightarrow> string \<Rightarrow> int \<Rightarrow> order_state \<Rightarrow> order_state" where
  "register_position pid symbol side universe trust s =
     s\<lparr>position_side := (position_side s)(pid \<mapsto> side), position_symbol := (position_symbol s)(pid \<mapsto> symbol),
       position_universe := (position_universe s)(pid \<mapsto> universe), position_whale_trust := (position_whale_trust s)(pid \<mapsto> trust)\<rparr>"

text \<open>\<^verbatim>\<open>float(row[1])\<close> raises on NULL and on text, and such a row is skipped.\<close>

fun sql_float :: "sql \<Rightarrow> rat option" where
  "sql_float (SInt n) = Some (rnd (of_int n))"
| "sql_float (SReal r) = Some r"
| "sql_float _ = None"

fun load_partial :: "sql list \<Rightarrow> (string \<rightharpoonup> rat) \<Rightarrow> string \<rightharpoonup> rat" where
  "load_partial [SText oid, v] m = (case sql_float v of None \<Rightarrow> m | Some q \<Rightarrow> m(oid \<mapsto> q))"
| "load_partial _ m = m"

text \<open>\<^verbatim>\<open>on_startup\<close>, for a manager whose lock is free.\<close>

definition om_on_startup :: "bool \<Rightarrow> order_state \<Rightarrow> order_state" where
  "om_on_startup ok s =
     (case fetch ok (\<lambda>t. project [''order_id'', ''filled_qty''] (filter (\<lambda>r. col r ''status'' = SText ''PARTIAL'') (tb_orders t))) (om_writer s) of
        None \<Rightarrow> s
      | Some rows \<Rightarrow> s\<lparr>filled_by_order := fold load_partial rows (filled_by_order s)\<rparr>)"

section \<open>Fill events\<close>

record fill =
  fl_order :: string
  fl_qty :: rat
  fl_price :: rat
  fl_position :: string

text \<open>What the outside decides at a step: failing statements and the clock.\<close>

record fill_env =
  fe_version_ok :: bool
  fe_update_fault :: sql_fault
  fe_open_fault :: sql_fault
  fe_close_fault :: sql_fault
  fe_now :: int

datatype fill_phase = Decide | Flip | FlipDb | Attempt nat | WaitingForLock | OpenDb | Finished | RaisedOut

text \<open>\<^verbatim>\<open>math.isclose(q, 0.0, abs_tol=1e-9)\<close> with its default relative tolerance, \<^verbatim>\<open>1e-9\<close> too.\<close>

definition close_tol :: rat where "close_tol = rnd (1 / 10 ^ 9)"

definition is_close_zero :: "rat \<Rightarrow> bool" where
  "is_close_zero q \<longleftrightarrow> q = 0 \<or> \<bar>q\<bar> \<le> \<bar>fmul close_tol q\<bar> \<or> \<bar>q\<bar> \<le> close_tol"

definition existing_fill :: "string \<Rightarrow> order_state \<Rightarrow> rat" where
  "existing_fill oid s = (case filled_by_order s oid of None \<Rightarrow> 0 | Some q \<Rightarrow> q)"

definition new_fill :: "rat \<Rightarrow> rat \<Rightarrow> rat" where
  "new_fill existing q = (if existing \<noteq> 0 then max existing q else q)"

definition fill_increment :: "rat \<Rightarrow> rat \<Rightarrow> rat" where
  "fill_increment existing q = fsub (new_fill existing q) existing"

definition om_epsilon :: "om_config \<Rightarrow> rat" where
  "om_epsilon cfg = fdiv (min_lot cfg) (epsilon_divisor cfg)"

text \<open>The first section under the lock, and the test for dust after it.\<close>

definition fill_decide :: "om_config \<Rightarrow> fill \<Rightarrow> order_state \<Rightarrow> fill_phase" where
  "fill_decide cfg f s =
     (let existing = existing_fill (fl_order f) s; q = fl_qty f
      in if is_close_zero q then Finished
         else if existing \<noteq> 0 \<and> (0 < existing) \<noteq> (0 < q) then Flip
         else if fill_increment existing q \<le> 0 then Finished
         else if epsilon_divisor cfg = 0 then RaisedOut
         else if \<bar>q\<bar> < om_epsilon cfg then Finished
         else Attempt 0)"

text \<open>One round of the retry loop. The result of the versioned update is not looked at; only an exception, which needs a writer without
  connection, leads to another round.\<close>

definition fill_attempt :: "om_config \<Rightarrow> bool \<Rightarrow> fill_env \<Rightarrow> fill \<Rightarrow> nat \<Rightarrow> order_state \<Rightarrow> order_state \<times> fill_phase" where
  "fill_attempt cfg shared env f n s =
     (let existing = existing_fill (fl_order f) s; w = om_writer s
      in if fill_increment existing (fl_qty f) \<le> 0 then (s, Finished)
         else case get_version (fe_version_ok env) (fl_position f) w of
                None \<Rightarrow> (s, Attempt (n + 1))
              | Some v \<Rightarrow>
                  if shared then (s\<lparr>fill_lock_held := True\<rparr>, WaitingForLock)
                  else (s\<lparr>om_writer := fst (update_position_versioned (fe_update_fault env) (fl_position f) (fl_price f) (fl_price f) (fl_price f) (v + 1) w),
                          filled_by_order := (filled_by_order s)(fl_order f \<mapsto> new_fill existing (fl_qty f)),
                          position_by_order := (position_by_order s)(fl_order f \<mapsto> fl_position f)\<rparr>, OpenDb))"

definition open_payload :: "fill \<Rightarrow> int \<Rightarrow> order_state \<Rightarrow> sql_payload" where
  "open_payload f now s =
     (let pid = fl_position f; price = SReal (fl_price f); qty = SReal \<bar>fl_qty f\<bar>
      in [(''position_id'', SText pid),
          (''symbol'', SText (case position_symbol s pid of None \<Rightarrow> ''UNKNOWN'' | Some x \<Rightarrow> x)),
          (''side'', SText (case position_side s pid of None \<Rightarrow> ''LONG'' | Some x \<Rightarrow> x)),
          (''opened_at_ms'', SInt now), (''avg'', price), (''qty_open'', qty), (''qty_remaining'', qty), (''original_planned_entry'', price),
          (''original_tp'', price), (''original_sl'', price), (''current_tp_shifted'', price), (''current_sl_shifted'', price),
          (''whale_trust_score'', SInt (case position_whale_trust s pid of None \<Rightarrow> 0 | Some x \<Rightarrow> x)),
          (''universe_status'', SText (case position_universe s pid of None \<Rightarrow> ''UNKNOWN'' | Some x \<Rightarrow> x)),
          (''version'', SInt 0)])"

definition fill_open :: "fill_env \<Rightarrow> fill \<Rightarrow> order_state \<Rightarrow> order_state" where
  "fill_open env f s =
     (let pid = fl_position f; (w, ok) = open_position (fe_open_fault env) (fe_now env) (open_payload f (fe_now env) s) (om_writer s)
      in if ok then s\<lparr>om_writer := w, position_opened := insert pid (position_opened s), position_avg := (position_avg s)(pid \<mapsto> fl_price f),
                      position_orig_entry := (position_orig_entry s)(pid \<mapsto> fl_price f), position_orig_sl := (position_orig_sl s)(pid \<mapsto> fl_price f),
                      position_qty_open := (position_qty_open s)(pid \<mapsto> \<bar>fl_qty f\<bar>)\<rparr>
         else s\<lparr>om_writer := w\<rparr>)"

text \<open>A step of a fill event. A step that has to wait changes nothing; the writer asks for its lock only when it has a connection.\<close>

fun fill_step :: "om_config \<Rightarrow> bool \<Rightarrow> fill_env \<Rightarrow> fill \<Rightarrow> fill_phase \<Rightarrow> order_state \<Rightarrow> order_state \<times> fill_phase" where
  "fill_step cfg shared env f Decide s = (if fill_lock_held s then (s, Decide) else (s, fill_decide cfg f s))"
| "fill_step cfg shared env f Flip s = (s\<lparr>emergency_closes := emergency_closes s @ [fl_order f]\<rparr>, FlipDb)"
| "fill_step cfg shared env f FlipDb s =
     (if shared \<and> fill_lock_held s \<and> connected (om_writer s) then (s, FlipDb)
      else (s\<lparr>om_writer := fst (sql_close_position (fe_close_fault env) (fe_now env) (fl_position f) ''FLIP'' 0 0 None (om_writer s))\<rparr>, Finished))"
| "fill_step cfg shared env f (Attempt n) s =
     (if max_retry cfg \<le> int n then (s, Finished)
      else if fill_lock_held s then (s, Attempt n)
      else fill_attempt cfg shared env f n s)"
| "fill_step cfg shared env f WaitingForLock s = (s, WaitingForLock)"
| "fill_step cfg shared env f OpenDb s =
     (if fl_position f \<in> position_opened s then (s, Finished)
      else if shared \<and> fill_lock_held s \<and> connected (om_writer s) then (s, OpenDb)
      else (fill_open env f s, Finished))"
| "fill_step cfg shared env f Finished s = (s, Finished)"
| "fill_step cfg shared env f RaisedOut s = (s, RaisedOut)"

fun run_fill :: "om_config \<Rightarrow> bool \<Rightarrow> fill_env \<Rightarrow> fill \<Rightarrow> nat \<Rightarrow> fill_phase \<Rightarrow> order_state \<Rightarrow> order_state \<times> fill_phase" where
  "run_fill cfg shared env f 0 ph s = (s, ph)"
| "run_fill cfg shared env f (Suc n) ph s = (let (s', ph') = fill_step cfg shared env f ph s in run_fill cfg shared env f n ph' s')"

text \<open>A whole event that runs without another one in between: one step per round and four more are enough.\<close>

definition on_fill_event :: "om_config \<Rightarrow> bool \<Rightarrow> fill_env \<Rightarrow> fill \<Rightarrow> order_state \<Rightarrow> order_state \<times> fill_phase" where
  "on_fill_event cfg shared env f s = run_fill cfg shared env f (nat (max_retry cfg) + 4) Decide s"

text \<open>\<open>None\<close> is the division by a leverage of zero, which raises.\<close>

definition leverage_adjusted_slippage :: "om_config \<Rightarrow> rat option" where
  "leverage_adjusted_slippage cfg = (if om_leverage cfg = 0 then None else Some (min (rnd (3 / 100)) (fdiv (rnd (1 / 10)) (om_leverage cfg))))"

section \<open>Steps\<close>

lemma get_version_disconnected: "\<not> connected w \<Longrightarrow> get_version ok pid w = None"
  by (simp add: get_version_def)

lemma get_version_connected: assumes "connected w" obtains v where "get_version ok pid w = Some v"
  using assms that by (cases "get_version ok pid w") (auto simp: get_version_def split: list.splits if_splits)

lemma fill_step_filled:
  "filled_by_order (fst (fill_step cfg shared env f ph s)) =
     (if (\<exists>n. ph = Attempt n \<and> \<not> max_retry cfg \<le> int n) \<and> \<not> fill_lock_held s \<and> 0 < fill_increment (existing_fill (fl_order f) s) (fl_qty f)
        \<and> connected (om_writer s) \<and> \<not> shared
      then (filled_by_order s)(fl_order f \<mapsto> new_fill (existing_fill (fl_order f) s) (fl_qty f)) else filled_by_order s)"
proof (cases ph)
  case (Attempt n)
  show ?thesis
  proof (cases "connected (om_writer s)")
    case True
    from get_version_connected [OF True] obtain v where "get_version (fe_version_ok env) (fl_position f) (om_writer s) = Some v" .
    then show ?thesis using Attempt True by (auto simp: fill_attempt_def Let_def)
  next
    case False
    then show ?thesis using Attempt by (auto simp: fill_attempt_def Let_def get_version_disconnected)
  qed
qed (simp_all add: fill_open_def split_beta Let_def)

lemma increment_pos: "0 < fill_increment e q \<Longrightarrow> e < new_fill e q"
  using fsub_nonneg [of "new_fill e q" e] fsub_minus [of "new_fill e q" e] by (force simp: fill_increment_def not_less)

text \<open>The recorded quantity, with nothing recorded as zero, never falls.\<close>

definition recorded_le :: "(string \<rightharpoonup> rat) \<Rightarrow> (string \<rightharpoonup> rat) \<Rightarrow> bool" where
  "recorded_le m m' \<longleftrightarrow> (\<forall>oid q. m oid = Some q \<longrightarrow> (\<exists>q'. m' oid = Some q' \<and> q \<le> q'))"

lemma fill_step_recorded: "recorded_le (filled_by_order s) (filled_by_order (fst (fill_step cfg shared env f ph s)))"
proof -
  have "q \<le> new_fill (existing_fill (fl_order f) s) (fl_qty f)"
    if "filled_by_order s (fl_order f) = Some q" "0 < fill_increment (existing_fill (fl_order f) s) (fl_qty f)" for q
    using increment_pos [OF that(2)] that(1) by (simp add: existing_fill_def)
  then show ?thesis unfolding fill_step_filled recorded_le_def by auto
qed

section \<open>Any interleaving\<close>

text \<open>Fill events in flight with their phases, and every event that has arrived. The writer may be used by others at any time.\<close>

inductive om_run :: "om_config \<Rightarrow> bool \<Rightarrow> writer \<Rightarrow> order_state \<Rightarrow> (fill \<times> fill_phase) list \<Rightarrow> fill list \<Rightarrow> bool" for cfg shared w0 where
  start: "om_run cfg shared w0 (init_order_state w0) [] []"
| arrives: "om_run cfg shared w0 s ts fs \<Longrightarrow> om_run cfg shared w0 s (ts @ [(f, Decide)]) (fs @ [f])"
| steps: "om_run cfg shared w0 s (ts1 @ (f, ph) # ts2) fs \<Longrightarrow> fill_step cfg shared env f ph s = (s', ph')
    \<Longrightarrow> om_run cfg shared w0 s' (ts1 @ (f, ph') # ts2) fs"
| registers: "om_run cfg shared w0 s ts fs \<Longrightarrow> om_run cfg shared w0 (register_position pid symbol side universe trust s) ts fs"
| others: "om_run cfg shared w0 s ts fs \<Longrightarrow> om_run cfg shared w0 (s\<lparr>om_writer := w\<rparr>) ts fs"

definition accepted_qty :: "om_config \<Rightarrow> rat \<Rightarrow> bool" where
  "accepted_qty cfg q \<longleftrightarrow> \<not> is_close_zero q \<and> om_epsilon cfg \<le> \<bar>q\<bar>"

definition orders_sound :: "om_config \<Rightarrow> order_state \<Rightarrow> (fill \<times> fill_phase) list \<Rightarrow> fill list \<Rightarrow> bool" where
  "orders_sound cfg s ts fs \<longleftrightarrow>
     (\<forall>oid q. filled_by_order s oid = Some q \<longrightarrow> 0 < q \<and> accepted_qty cfg q \<and> (\<exists>f \<in> set fs. fl_order f = oid \<and> fl_qty f = q))
     \<and> (\<forall>(f, ph) \<in> set ts. f \<in> set fs \<and> (\<forall>n. ph = Attempt n \<longrightarrow> accepted_qty cfg (fl_qty f)))"

lemma fill_step_attempt:
  "snd (fill_step cfg shared env f ph s) = Attempt n \<Longrightarrow> accepted_qty cfg (fl_qty f) \<or> (\<exists>m. ph = Attempt m)"
  by (cases ph) (auto simp: fill_decide_def Let_def accepted_qty_def split: if_splits)

lemma increment_kept: "0 < q \<or> q = 0 \<Longrightarrow> 0 < fill_increment q x \<Longrightarrow> new_fill q x = x \<and> 0 < x"
  using increment_pos [of q x] by (auto simp: new_fill_def max_def split: if_splits)

lemma step_sound:
  assumes ok: "orders_sound cfg s (ts1 @ (f, ph) # ts2) fs" and st: "fill_step cfg shared env f ph s = (s', ph')"
  shows "orders_sound cfg s' (ts1 @ (f, ph') # ts2) fs"
proof -
  have f: "f \<in> set fs" "\<And>n. ph = Attempt n \<Longrightarrow> accepted_qty cfg (fl_qty f)" using ok by (auto simp: orders_sound_def)
  have e: "0 < existing_fill (fl_order f) s \<or> existing_fill (fl_order f) s = 0"
    using ok by (auto simp: orders_sound_def existing_fill_def split: option.split)
  have "0 < q \<and> accepted_qty cfg q \<and> (\<exists>f \<in> set fs. fl_order f = oid \<and> fl_qty f = q)" if "filled_by_order s' oid = Some q" for oid q
  proof (cases "filled_by_order s' oid = filled_by_order s oid")
    case True
    then show ?thesis using ok that by (simp add: orders_sound_def)
  next
    case False
    have s': "s' = fst (fill_step cfg shared env f ph s)" using st by simp
    have c: "\<exists>n. ph = Attempt n" "0 < fill_increment (existing_fill (fl_order f) s) (fl_qty f)" "oid = fl_order f"
        "q = new_fill (existing_fill (fl_order f) s) (fl_qty f)"
      using False that unfolding s' fill_step_filled by (auto split: if_splits)
    from increment_kept [OF e c(2)] c(1,3,4) f show ?thesis by auto
  qed
  moreover have "accepted_qty cfg (fl_qty f)" if "ph' = Attempt n" for n
    using fill_step_attempt [of cfg shared env f ph s n] st that f(2) by auto
  ultimately show ?thesis using ok by (auto simp: orders_sound_def)
qed

lemma om_run_sound: "om_run cfg shared w0 s ts fs \<Longrightarrow> orders_sound cfg s ts fs"
proof (induction rule: om_run.induct)
  case (steps s ts1 f ph ts2 fs env s' ph')
  from step_sound [OF steps.IH steps.hyps(2)] show ?case .
qed (auto simp: orders_sound_def init_order_state_def register_position_def)

text \<open>Lemma: however fill events interleave with each other and with other users of the database, the quantity recorded for an
  order is one that was reported for it, positive and not dust, and no step of any event lowers a recorded quantity.\<close>

theorem om_fill_monotone:
  assumes "om_run cfg shared w0 s ts fs" and "filled_by_order s oid = Some q"
  shows "0 < q \<and> om_epsilon cfg \<le> q \<and> q \<in> set (map fl_qty (filter (\<lambda>f. fl_order f = oid) fs))
       \<and> recorded_le (filled_by_order s) (filled_by_order (fst (fill_step cfg shared env f ph s)))"
  using om_run_sound [OF assms(1)] assms(2) fill_step_recorded [of s cfg shared env f ph]
  by (force simp: orders_sound_def accepted_qty_def)

definition quiet_env :: fill_env where
  "quiet_env = \<lparr>fe_version_ok = True, fe_update_fault = NoFault, fe_open_fault = NoFault, fe_close_fault = NoFault, fe_now = 5\<rparr>"

definition unit_om_config :: om_config where
  "unit_om_config = \<lparr>max_retry = 1, om_leverage = 5, min_lot = 1, epsilon_divisor = 1\<rparr>"

definition two_lots :: fill where
  "two_lots = \<lparr>fl_order = ''O'', fl_qty = 2, fl_price = 7, fl_position = ''P''\<rparr>"

lemma close_tol_small: "0 \<le> close_tol \<and> close_tol \<le> 1 / 2"
proof -
  have "rnd (1 / 2) = 1 / 2" using rnd_exact [of 1 "- 1"] by (simp add: pow2_def power_int_minus)
  moreover have "rnd (1 / 10 ^ 9) \<le> rnd (1 / 2)" by (rule rnd_mono) simp
  ultimately show ?thesis using rnd_nonneg [of "1 / 10 ^ 9"] by (simp add: close_tol_def)
qed

lemma two_not_close: "\<not> is_close_zero 2"
proof -
  have "rnd (close_tol * 2) \<le> rnd 1" by (rule rnd_mono) (use close_tol_small in linarith)
  then show ?thesis using close_tol_small fmul_nonneg [of close_tol 2] by (auto simp: is_close_zero_def fmul_def)
qed

lemma two_double: "rnd 2 = 2"
  using rnd_of_int [of 2] by simp

lemmas fill_eval = fill_decide_def existing_fill_def new_fill_def fill_increment_def om_epsilon_def fdiv_def fsub_def two_double two_not_close
  unit_om_config_def two_lots_def Let_def

lemma two_lots_decide: "filled_by_order s ''O'' = None \<Longrightarrow> fill_decide unit_om_config two_lots s = Attempt 0"
  by (simp add: fill_eval)

lemma two_lots_attempt:
  assumes "filled_by_order s ''O'' = None" and "connected (om_writer s)"
  shows "filled_by_order (fst (fill_attempt unit_om_config False quiet_env two_lots 0 s)) ''O'' = Some 2"
proof -
  from get_version_connected [OF assms(2)] obtain v where "get_version True ''P'' (om_writer s) = Some v" .
  then show ?thesis using assms by (simp add: fill_eval fill_attempt_def quiet_env_def)
qed

lemma om_fill_monotone_witness:
  "\<exists>s. om_run unit_om_config False (connect (init_writer simple_conv empty_tables)) s [(two_lots, OpenDb)] [two_lots] \<and> filled_by_order s ''O'' = Some 2
     \<and> om_epsilon unit_om_config \<le> 2"
proof -
  let ?w = "connect (init_writer simple_conv empty_tables)" and ?c = unit_om_config
  have c: "connected (om_writer (init_order_state ?w))" "filled_by_order (init_order_state ?w) ''O'' = None"
    "\<not> fill_lock_held (init_order_state ?w)" by (simp_all add: init_order_state_def connect_def)
  from get_version_connected [OF c(1)] obtain v where v: "get_version True ''P'' (om_writer (init_order_state ?w)) = Some v" .
  have "om_run ?c False ?w (init_order_state ?w) ([] @ (two_lots, Decide) # []) [two_lots]"
    using om_run.arrives [OF om_run.start, of ?c False ?w two_lots] by simp
  then have m: "om_run ?c False ?w (init_order_state ?w) ([] @ (two_lots, Attempt 0) # []) [two_lots]"
    by (rule om_run.steps [where env = quiet_env]) (simp add: two_lots_decide c)
  obtain s where s: "fill_attempt ?c False quiet_env two_lots 0 (init_order_state ?w) = (s, OpenDb)"
    using c v by (simp add: fill_eval fill_attempt_def quiet_env_def)
  have "\<not> max_retry ?c \<le> int 0" by (simp add: unit_om_config_def)
  then have r: "om_run ?c False ?w s ([] @ (two_lots, OpenDb) # []) [two_lots]"
    by (intro om_run.steps [OF m, where env = quiet_env]) (simp add: c s)
  have q: "filled_by_order s ''O'' = Some 2" using two_lots_attempt [OF c(2,1)] s by simp
  from om_fill_monotone [OF r q, where f = two_lots and ph = Finished] r q show ?thesis by auto
qed

section \<open>One event after the other\<close>

lemma run_fill_finished: "run_fill cfg shared env f n Finished s = (s, Finished)"
  by (induction n) simp_all

lemma on_fill_event_steps:
  "on_fill_event cfg shared env f s = run_fill cfg shared env f (Suc (Suc (Suc (Suc (nat (max_retry cfg)))))) Decide s"
  by (simp add: on_fill_event_def numeral_eq_Suc)

lemma sql_write_connected: "connected (fst (sql_write flt g w)) = connected w"
  by (cases flt) (simp_all add: sql_write_def)

lemma update_connected: "connected (fst (update_position_versioned flt pid a tp sl e w)) = connected w"
  by (simp add: update_position_versioned_def split_beta Let_def)

text \<open>The manager at rest: its lock is free and the writer has a connection.\<close>

definition at_rest :: "order_state \<Rightarrow> bool" where
  "at_rest s \<longleftrightarrow> \<not> fill_lock_held s \<and> connected (om_writer s)"

lemma fill_open_rest: "at_rest (fill_open env f s) = at_rest s" and fill_open_filled: "filled_by_order (fill_open env f s) = filled_by_order s"
  and fill_open_closes: "emergency_closes (fill_open env f s) = emergency_closes s"
  by (simp_all add: at_rest_def fill_open_def Let_def split_beta open_position_def sql_write_connected split: option.split)

lemma event_effect:
  assumes "at_rest s" and "0 < max_retry cfg" and "epsilon_divisor cfg \<noteq> 0"
  shows "at_rest (fst (on_fill_event cfg False env f s)) \<and> snd (on_fill_event cfg False env f s) = Finished
       \<and> filled_by_order (fst (on_fill_event cfg False env f s)) =
           (if fill_decide cfg f s = Attempt 0
            then (filled_by_order s)(fl_order f \<mapsto> new_fill (existing_fill (fl_order f) s) (fl_qty f)) else filled_by_order s)
       \<and> emergency_closes (fst (on_fill_event cfg False env f s)) =
           emergency_closes s @ (if fill_decide cfg f s = Flip then [fl_order f] else [])"
proof -
  have l: "\<not> fill_lock_held s" "connected (om_writer s)" using assms(1) by (simp_all add: at_rest_def)
  have "fill_decide cfg f s \<in> {Finished, Flip, Attempt 0}" using assms(3) by (simp add: fill_decide_def Let_def)
  then consider "fill_decide cfg f s = Finished" | "fill_decide cfg f s = Flip" | "fill_decide cfg f s = Attempt 0" by blast
  then show ?thesis
  proof cases
    case 1
    then show ?thesis using l assms(1) by (simp add: on_fill_event_steps run_fill_finished)
  next
    case 2
    then show ?thesis using l by (simp add: on_fill_event_steps run_fill_finished at_rest_def sql_close_position_def sql_write_connected)
  next
    case 3
    then have i: "0 < fill_increment (existing_fill (fl_order f) s) (fl_qty f)" by (auto simp: fill_decide_def Let_def split: if_splits)
    from get_version_connected [OF l(2)] obtain v where v: "get_version (fe_version_ok env) (fl_position f) (om_writer s) = Some v" .
    show ?thesis
      using 3 i v l assms(2)
      by (simp add: on_fill_event_steps run_fill_finished fill_attempt_def Let_def fill_open_filled fill_open_closes fill_open_rest)
        (simp add: at_rest_def update_connected)
  qed
qed

definition run_events :: "om_config \<Rightarrow> bool \<Rightarrow> fill_env \<Rightarrow> fill list \<Rightarrow> order_state \<Rightarrow> order_state" where
  "run_events cfg shared env fs s = fold (\<lambda>f s. fst (on_fill_event cfg shared env f s)) fs s"

text \<open>The quantities of an order that are large enough to be taken, and the orders whose fill changes its sign: a negative quantity, not
  close to zero, after one that was taken.\<close>

definition reported :: "om_config \<Rightarrow> string \<Rightarrow> fill list \<Rightarrow> rat list" where
  "reported cfg oid fs = filter (\<lambda>q. 0 < q \<and> accepted_qty cfg q) (map fl_qty (filter (\<lambda>f. fl_order f = oid) fs))"

definition flips :: "om_config \<Rightarrow> fill list \<Rightarrow> string list" where
  "flips cfg fs = map (\<lambda>i. fl_order (fs ! i)) (filter (\<lambda>i. fl_qty (fs ! i) < 0 \<and> \<not> is_close_zero (fl_qty (fs ! i))
     \<and> reported cfg (fl_order (fs ! i)) (take i fs) \<noteq> []) [0..<length fs])"

lemma flips_Nil [simp]: "flips cfg [] = []"
  by (simp add: flips_def)

lemma flips_snoc:
  "flips cfg (fs @ [f]) = flips cfg fs @
     (if fl_qty f < 0 \<and> \<not> is_close_zero (fl_qty f) \<and> reported cfg (fl_order f) fs \<noteq> [] then [fl_order f] else [])"
proof -
  let ?P = "\<lambda>fs i. fl_qty (fs ! i) < 0 \<and> \<not> is_close_zero (fl_qty (fs ! i)) \<and> reported cfg (fl_order (fs ! i)) (take i fs) \<noteq> []"
  have f: "filter (?P (fs @ [f])) [0..<length fs] = filter (?P fs) [0..<length fs]" by (rule filter_cong) (simp_all add: nth_append)
  have m: "map (\<lambda>i. fl_order ((fs @ [f]) ! i)) (filter (?P fs) [0..<length fs]) = map (\<lambda>i. fl_order (fs ! i)) (filter (?P fs) [0..<length fs])"
    by (rule map_cong) (auto simp: nth_append)
  have u: "[0..<length (fs @ [f])] = [0..<length fs] @ [length fs]" by simp
  show ?thesis unfolding flips_def u filter_append map_append f m by simp
qed

definition greatest :: "rat list \<Rightarrow> rat option" where
  "greatest qs = (if qs = [] then None else Some (Max (set qs)))"

lemma greatest_snoc: "greatest (qs @ [q]) = (case greatest qs of None \<Rightarrow> Some q | Some m \<Rightarrow> Some (max m q))"
  by (simp add: greatest_def max.commute)

lemma decide_attempt:
  assumes "0 \<le> existing_fill (fl_order f) s" and "is_double (existing_fill (fl_order f) s)" and "is_double (fl_qty f)" and "epsilon_divisor cfg \<noteq> 0"
  shows "fill_decide cfg f s = Attempt 0 \<longleftrightarrow> accepted_qty cfg (fl_qty f) \<and> existing_fill (fl_order f) s < fl_qty f"
proof -
  let ?e = "existing_fill (fl_order f) s" and ?q = "fl_qty f"
  have "is_double (new_fill ?e ?q)" using assms(2,3) by (simp add: new_fill_def max_def)
  then have "0 < fill_increment ?e ?q \<longleftrightarrow> ?e < new_fill ?e ?q" using assms(2) by (simp add: fill_increment_def fsub_pos_iff)
  also have "\<dots> \<longleftrightarrow> ?e < ?q" using assms(1) by (auto simp: new_fill_def max_def)
  finally have "fill_increment ?e ?q \<le> 0 \<longleftrightarrow> \<not> ?e < ?q" by linarith
  then show ?thesis using assms(1,4) by (auto simp: fill_decide_def Let_def accepted_qty_def)
qed

lemma decide_flip:
  assumes "0 \<le> existing_fill (fl_order f) s"
  shows "fill_decide cfg f s = Flip \<longleftrightarrow> \<not> is_close_zero (fl_qty f) \<and> fl_qty f < 0 \<and> existing_fill (fl_order f) s \<noteq> 0"
proof -
  have "is_close_zero 0" by (simp add: is_close_zero_def)
  then have "\<not> is_close_zero (fl_qty f) \<Longrightarrow> fl_qty f \<noteq> 0" by metis
  then show ?thesis using assms by (auto simp: fill_decide_def Let_def)
qed

text \<open>A fill of the other sign asks for an emergency close of its order and closes its position in the database.\<close>

lemma flip_event:
  assumes "at_rest s" and "fill_decide cfg f s = Flip"
  shows "om_writer (fst (on_fill_event cfg False env f s)) =
      fst (sql_close_position (fe_close_fault env) (fe_now env) (fl_position f) ''FLIP'' 0 0 None (om_writer s))"
  using assms by (simp add: on_fill_event_steps run_fill_finished at_rest_def)

text \<open>C13: fill events handled one after the other by a manager whose lock is not the writer's leave, for every order, the
  greatest of the positive quantities above the dust limit that were reported for it, in whatever order and however often they arrive. A
  negative quantity, which is how a sale would be reported, is never recorded; when it arrives after a recorded one (and is not as good as
  zero) the manager asks for an emergency close of the order, once for each such event, and for nothing else.\<close>

theorem om_records_maximum:
  fixes env :: fill_env and fs :: "fill list" and w :: writer
  assumes "\<not> shared" and "connected w" and "0 < max_retry cfg" and "epsilon_divisor cfg \<noteq> 0" and "list_all (\<lambda>f. is_double (fl_qty f)) fs"
  defines "s \<equiv> run_events cfg shared env fs (init_order_state w)"
  shows "filled_by_order s oid = greatest (reported cfg oid fs) \<and> emergency_closes s = flips cfg fs \<and> at_rest s"
  unfolding s_def using assms(5)
proof (induction fs arbitrary: oid rule: rev_induct)
  case Nil
  then show ?case using assms(2) by (simp add: run_events_def reported_def greatest_def init_order_state_def at_rest_def)
next
  case (snoc f fs)
  let ?s = "run_events cfg shared env fs (init_order_state w)" and ?q = "fl_qty f"
  have ih: "filled_by_order ?s oid = greatest (reported cfg oid fs)" "emergency_closes ?s = flips cfg fs" "at_rest ?s" for oid
    using snoc by simp_all
  have s: "run_events cfg shared env (fs @ [f]) (init_order_state w) = fst (on_fill_event cfg False env f ?s)"
    using assms(1) by (simp add: run_events_def)
  note ev = event_effect [OF ih(3) assms(3,4), of env f]
  have d: "is_double q \<and> 0 < q" if "q \<in> set (reported cfg oid fs)" for q oid
    using snoc.prems that by (auto simp: reported_def list_all_iff)
  have m: "greatest (reported cfg (fl_order f) fs) = Some m \<Longrightarrow> is_double m \<and> 0 < m" for m
    using d [of m "fl_order f"] Max_in [of "set (reported cfg (fl_order f) fs)"] by (auto simp: greatest_def split: if_splits)
  then have e: "is_double (existing_fill (fl_order f) ?s) \<and> 0 \<le> existing_fill (fl_order f) ?s"
    by (auto simp: existing_fill_def ih(1) less_imp_le split: option.split)
  have e0: "existing_fill (fl_order f) ?s \<noteq> 0 \<longleftrightarrow> reported cfg (fl_order f) fs \<noteq> []"
    using m by (auto simp: existing_fill_def ih(1) greatest_def split: if_splits)
  have closes: "emergency_closes (fst (on_fill_event cfg False env f ?s)) = flips cfg (fs @ [f])"
    using ev decide_flip [OF conjunct2 [OF e], of cfg] e0 unfolding flips_snoc ih(2) by auto
  have q: "is_double ?q" using snoc.prems by simp
  have "filled_by_order (fst (on_fill_event cfg False env f ?s)) oid = greatest (reported cfg oid (fs @ [f]))"
  proof (cases "oid = fl_order f \<and> 0 < ?q \<and> accepted_qty cfg ?q")
    case True
    then have r: "reported cfg oid (fs @ [f]) = reported cfg oid fs @ [?q]" by (simp add: reported_def)
    show ?thesis
      using ev decide_attempt [OF conjunct2 [OF e] conjunct1 [OF e] q assms(4)] True ih(1) [of oid]
      unfolding r greatest_snoc by (auto simp: existing_fill_def new_fill_def split: option.splits)
  next
    case False
    then have "reported cfg oid (fs @ [f]) = reported cfg oid fs" by (auto simp: reported_def)
    moreover have "oid = fl_order f \<Longrightarrow> fill_decide cfg f ?s \<noteq> Attempt 0"
      using decide_attempt [OF conjunct2 [OF e] conjunct1 [OF e] q assms(4)] False e by auto
    ultimately show ?thesis using ev ih(1) [of oid] by auto
  qed
  then show ?case using ev closes by (simp add: s)
qed

lemma om_records_maximum_witness:
  "(let s = run_events unit_om_config False quiet_env [two_lots, two_lots\<lparr>fl_qty := - 2\<rparr>]
       (init_order_state (connect (init_writer simple_conv empty_tables)))
    in filled_by_order s ''O'' = Some 2 \<and> emergency_closes s = [''O''])"
proof -
  let ?fs = "[two_lots, two_lots\<lparr>fl_qty := - 2\<rparr>]"
  have r: "reported unit_om_config ''O'' [two_lots] = [2]" "reported unit_om_config ''O'' ?fs = [2]"
    by (simp_all add: reported_def accepted_qty_def fill_eval)
  have "\<not> is_close_zero (- 2)" using two_not_close by (simp add: is_close_zero_def fmul_def rnd_minus)
  then have "flips unit_om_config ?fs = [''O'']"
    using r(1) flips_snoc [of unit_om_config "[two_lots]"] flips_snoc [of unit_om_config "[]" two_lots] by (simp add: two_lots_def reported_def)
  moreover have "is_double 2" "is_double (- 2)" using two_double by (simp_all add: is_double_def rnd_minus)
  ultimately show ?thesis
    using om_records_maximum [of False "connect (init_writer simple_conv empty_tables)" unit_om_config ?fs quiet_env "''O''"] r(2)
    by (simp add: connect_def unit_om_config_def two_lots_def greatest_def)
qed

section \<open>What a partial fill leaves in the database\<close>

lemma accepted_event:
  assumes "at_rest s" and "0 < max_retry cfg" and d: "fill_decide cfg f s = Attempt 0"
    and v: "get_version True (fl_position f) (om_writer s) = Some v"
  defines "s1 \<equiv> s\<lparr>om_writer := fst (update_position_versioned NoFault (fl_position f) (fl_price f) (fl_price f) (fl_price f) (v + 1) (om_writer s)),
       filled_by_order := (filled_by_order s)(fl_order f \<mapsto> new_fill (existing_fill (fl_order f) s) (fl_qty f)),
       position_by_order := (position_by_order s)(fl_order f \<mapsto> fl_position f)\<rparr>"
  shows "fst (on_fill_event cfg False quiet_env f s) = (if fl_position f \<in> position_opened s then s1 else fill_open quiet_env f s1)"
proof -
  have i: "0 < fill_increment (existing_fill (fl_order f) s) (fl_qty f)" using d by (auto simp: fill_decide_def Let_def split: if_splits)
  have q: "fe_version_ok quiet_env = True" "fe_update_fault quiet_env = NoFault" by (simp_all add: quiet_env_def)
  have "fill_attempt cfg False quiet_env f 0 s = (s1, OpenDb)"
    using i v by (simp add: fill_attempt_def Let_def q s1_def)
  then show ?thesis
    using assms(1,2) d by (simp add: on_fill_event_steps run_fill_finished at_rest_def) (simp add: s1_def)
qed

lemma update_nothing:
  assumes "connected w" "\<not> list_ex (same_key ''position_id'' (SText pid)) (tb_positions (live w))"
  shows "update_position_versioned NoFault pid a tp sl e w = (w\<lparr>in_txn := True\<rparr>, Some False)"
proof -
  have "filter (\<lambda>r. same_key ''position_id'' (SText pid) r \<and> col r ''version'' = SInt (e - 1)) (tb_positions (live w)) = []"
    using assms(2) by (auto simp: filter_empty_conv list_ex_iff)
  then show ?thesis using assms(1) by (simp add: update_position_versioned_def update_where_def)
qed

lemma update_last:
  assumes "connected w" "\<not> list_ex (same_key ''position_id'' (SText pid)) t" "tb_positions (live w) = t @ [r]"
    and "same_key ''position_id'' (SText pid) r" "col r ''version'' = SInt (e - 1)"
  shows "tb_positions (live (fst (update_position_versioned NoFault pid a tp sl e w))) =
      t @ [set_cols (version_cols a tp sl e) r]"
proof -
  let ?p = "\<lambda>r. same_key ''position_id'' (SText pid) r \<and> col r ''version'' = SInt (e - 1)"
  have n: "\<not> list_ex ?p t" using assms(2) by (auto simp: list_ex_iff)
  have "filter ?p (t @ [r]) \<noteq> []" using assms(4,5) by simp
  then show ?thesis
    using assms(1,3) update_appended [of ?p t r, OF n] assms(4,5)
    by (simp add: update_position_versioned_def Let_def split_beta) (simp add: update_where_def)
qed

text \<open>Lemma: after two growing fills of a new position its row has version one and carries the price of the second fill as
  its average and as its target and stop alike, while its quantities are still those of the first fill, although the manager
  recorded the second one.\<close>

theorem om_partial_fill_stale:
  fixes p1 p2 :: rat and oid pid :: string and w :: writer
  assumes "connected w" and "\<not> list_ex (same_key ''position_id'' (SText pid)) (tb_positions (live w))"
    and "0 < max_retry cfg" and "epsilon_divisor cfg \<noteq> 0" and "is_double q1" and "is_double q2" and "0 < q1" and "q1 < q2"
    and "accepted_qty cfg q1" and "accepted_qty cfg q2"
  defines "s2 \<equiv> run_events cfg False quiet_env [\<lparr>fl_order = oid, fl_qty = q1, fl_price = p1, fl_position = pid\<rparr>,
      \<lparr>fl_order = oid, fl_qty = q2, fl_price = p2, fl_position = pid\<rparr>] (init_order_state w)"
  shows "filled_by_order s2 oid = Some q2
    \<and> map (\<lambda>r. map (col r) [''avg'', ''current_tp_shifted'', ''current_sl_shifted'', ''version'', ''qty_open'', ''qty_remaining''])
        (filter (same_key ''position_id'' (SText pid)) (tb_positions (live (om_writer s2))))
      = [[SReal p2, SReal p2, SReal p2, SInt 1, SReal q1, SReal q1]]"
proof -
  let ?f1 = "\<lparr>fl_order = oid, fl_qty = q1, fl_price = p1, fl_position = pid\<rparr>"
    and ?f2 = "\<lparr>fl_order = oid, fl_qty = q2, fl_price = p2, fl_position = pid\<rparr>"
  let ?s0 = "init_order_state w" and ?t = "tb_positions (live w)" and ?k = "same_key ''position_id'' (SText pid)"
  let ?r = "opened_row (w_conv w) 5 (SText pid) (open_payload ?f1 5 ?s0)"
  have k0: "filter ?k ?t = []" using assms(2) by (auto simp: filter_empty_conv list_ex_iff)
  have a0: "at_rest ?s0" "om_writer ?s0 = w" "existing_fill oid ?s0 = 0" "position_opened ?s0 = {}"
    using assms(1) by (simp_all add: at_rest_def init_order_state_def existing_fill_def)
  have d1: "fill_decide cfg ?f1 ?s0 = Attempt 0" using decide_attempt [of ?f1 ?s0 cfg] assms a0 by simp
  have v0: "get_version True pid w = Some 0" using assms(1) k0 by (simp add: get_version_def)
  define s1 where "s1 = fst (on_fill_event cfg False quiet_env ?f1 ?s0)"
  have fx1: "at_rest s1" "filled_by_order s1 oid = Some q1"
    using event_effect [OF a0(1) assms(3,4), of quiet_env ?f1] d1 a0(3) by (simp_all add: s1_def new_fill_def)
  have kr: "?k ?r" by (simp add: same_key_def opened_row_id)
  have "tb_positions (live (om_writer s1)) = ?t @ [?r] \<and> pid \<in> position_opened s1"
    using accepted_event [OF a0(1) assms(3) d1, of 0] v0 a0 assms(1,2) update_nothing [OF assms(1,2)]
    by (simp add: s1_def fill_open_def Let_def open_position_def open_payload_def dget_Cons sql_write_def quiet_env_def insert_or_ignore_def
        flip: opened_row_def) (simp add: opened_row_id)
  then have p1: "tb_positions (live (om_writer s1)) = ?t @ [?r]" "pid \<in> position_opened s1" by simp_all
  have "payload_get (open_payload ?f1 5 ?s0) ''version'' (SInt 0) = SInt 0" by (simp add: open_payload_def payload_get_def Let_def dget_Cons)
  then have ver: "col ?r ''version'' = SInt 0" by (simp add: opened_row_col positions_schema_def open_values_def)
  have d2: "fill_decide cfg ?f2 s1 = Attempt 0" using decide_attempt [of ?f2 s1 cfg] assms fx1 by (simp add: existing_fill_def)
  have c1: "connected (om_writer s1)" using fx1(1) by (simp add: at_rest_def)
  have v1: "get_version True pid (om_writer s1) = Some 0" using c1 p1 k0 kr ver by (simp add: get_version_def sql_int_def)
  have s2: "s2 = fst (on_fill_event cfg False quiet_env ?f2 s1)" by (simp add: s2_def run_events_def s1_def)
  have w2: "tb_positions (live (om_writer s2)) =
      ?t @ [set_cols (version_cols p2 p2 p2 1) ?r]"
    using accepted_event [OF fx1(1) assms(3) d2, of 0] v1 p1(2) update_last [OF c1 assms(2) p1(1) kr, of 1 p2 p2 p2] ver by (simp add: s2)
  have qty: "col ?r ''qty_open'' = SReal q1" "col ?r ''qty_remaining'' = SReal q1"
    using assms(7) by (simp_all add: opened_row_col positions_schema_def open_values_def) (simp_all add: open_payload_def payload_get_def Let_def dget_Cons)
  have k2: "?k (set_cols (version_cols p2 p2 p2 1) ?r)"
    using kr by (simp add: same_key_def col_set_cols_other version_cols_def)
  have "filled_by_order s2 oid = Some q2"
    using event_effect [OF fx1(1) assms(3,4), of quiet_env ?f2] d2 fx1(2) assms(8) by (simp add: s2 existing_fill_def new_fill_def)
  then show ?thesis
    using qty k0 k2 unfolding w2 by (simp add: closed_row_col positions_schema_def version_cols_def)
qed

lemma om_partial_fill_stale_witness:
  "map (\<lambda>r. col r ''qty_open'') (filter (same_key ''position_id'' (SText ''P''))
     (tb_positions (live (om_writer (run_events unit_om_config False quiet_env
        [\<lparr>fl_order = ''O'', fl_qty = 1, fl_price = 7, fl_position = ''P''\<rparr>, \<lparr>fl_order = ''O'', fl_qty = 2, fl_price = 9, fl_position = ''P''\<rparr>]
        (init_order_state (connect (init_writer simple_conv empty_tables)))))))) = [SReal 1]"
proof -
  have c: "connected (connect (init_writer simple_conv empty_tables))"
    "\<not> list_ex (same_key ''position_id'' (SText ''P'')) (tb_positions (live (connect (init_writer simple_conv empty_tables))))"
    by (simp_all add: connect_def init_writer_def empty_tables_def)
  have "rnd close_tol = close_tol" by (simp add: close_tol_def)
  then have "\<not> is_close_zero 1" using close_tol_small by (auto simp: is_close_zero_def fmul_def)
  then have a: "accepted_qty unit_om_config 1" "accepted_qty unit_om_config 2" by (simp_all add: accepted_qty_def fill_eval)
  have d: "is_double 1" "is_double 2" using two_double by (simp_all add: is_double_def)
  have m: "0 < max_retry unit_om_config" "epsilon_divisor unit_om_config \<noteq> 0" by (simp_all add: unit_om_config_def)
  have e: "map (\<lambda>r. col r ''qty_open'') rs = map (\<lambda>l. l ! 4) (map (\<lambda>r. map (col r) [''avg'', ''current_tp_shifted'', ''current_sl_shifted'',
      ''version'', ''qty_open'', ''qty_remaining'']) rs)" for rs by simp
  have o: "(0::rat) < 1" "(1::rat) < 2" by simp_all
  show ?thesis
    unfolding e conjunct2 [OF om_partial_fill_stale [OF c m d o a, of "''O''" 7 9]] by simp
qed

section \<open>One lock for the manager and the writer\<close>

text \<open>Lemma: when the writer was given the manager's own lock, the first fill that reaches the database waits for a lock it
  holds itself: however long it runs it never returns, nothing is recorded, and no later fill gets past its first line.\<close>

theorem om_shared_lock_deadlock:
  fixes env env' :: fill_env and f f' :: fill
  assumes "at_rest s" and "0 < max_retry cfg" and "fill_decide cfg f s = Attempt 0"
  defines "s' \<equiv> fst (run_fill cfg True env f 2 Decide s)"
  shows "run_fill cfg True env f (n + 2) Decide s = (s', WaitingForLock) \<and> filled_by_order s' = filled_by_order s
       \<and> om_writer s' = om_writer s \<and> run_fill cfg True env' f' n Decide s' = (s', Decide)"
proof -
  have l: "\<not> fill_lock_held s" "connected (om_writer s)" using assms(1) by (simp_all add: at_rest_def)
  have i: "0 < fill_increment (existing_fill (fl_order f) s) (fl_qty f)" using assms(3) by (auto simp: fill_decide_def Let_def split: if_splits)
  from get_version_connected [OF l(2)] obtain v where "get_version (fe_version_ok env) (fl_position f) (om_writer s) = Some v" .
  then have two: "run_fill cfg True env f (Suc (Suc m)) Decide s = run_fill cfg True env f m WaitingForLock (s\<lparr>fill_lock_held := True\<rparr>)" for m
    using l i assms(2,3) by (simp add: fill_attempt_def Let_def)
  have w: "run_fill cfg True env f m WaitingForLock t = (t, WaitingForLock)" for m t by (induction m) simp_all
  have s': "s' = s\<lparr>fill_lock_held := True\<rparr>" using two [of 0] by (simp add: s'_def numeral_2_eq_2)
  have "run_fill cfg True env' f' n Decide s' = (s', Decide)" by (induction n) (simp_all add: s')
  then show ?thesis using two [of n] w s' by simp
qed

lemma om_shared_lock_deadlock_witness:
  "snd (run_fill unit_om_config True quiet_env two_lots 100 Decide (init_order_state (connect (init_writer simple_conv empty_tables)))) = WaitingForLock"
proof -
  let ?s = "init_order_state (connect (init_writer simple_conv empty_tables))"
  have "at_rest ?s" by (simp add: at_rest_def init_order_state_def connect_def)
  moreover have "fill_decide unit_om_config two_lots ?s = Attempt 0" by (rule two_lots_decide) (simp add: init_order_state_def)
  moreover have "0 < max_retry unit_om_config" by (simp add: unit_om_config_def)
  ultimately have "run_fill unit_om_config True quiet_env two_lots (98 + 2) Decide ?s
      = (fst (run_fill unit_om_config True quiet_env two_lots 2 Decide ?s), WaitingForLock)"
    using om_shared_lock_deadlock [of ?s unit_om_config two_lots quiet_env 98] by blast
  moreover have "(98 + 2 :: nat) = 100" by simp
  ultimately show ?thesis by (metis snd_conv)
qed

end
