(* ===== verification/WS_Manager.thy ===== *)
theory WS_Manager
  imports L2_Buffer Seq_Validator Token_Bucket
begin

text \<open>
  \<^verbatim>\<open>src/ws_manager/manager.py\<close> and \<^verbatim>\<open>src/ws_manager/snapshot.py\<close>: connections, messages, snapshots and resynchronisation, over the models
  of the order book buffer and of the sequence validator. The manager, the fetcher and the buffer are given one dictionary of books. Every
  exception of the parts is caught by the code. The token bucket only delays a fetch, since \<open>acquire\<close> returns nothing but
  \<open>True\<close>; whether the fetch then times out is an input. The HTTP request of the fetcher is a stub in the source: the snapshot it yields is
  empty and has no sequence number, which is modelled as it stands.
\<close>

section \<open>State\<close>

record ws_state =
  ws_books :: l2_state
  ws_seq :: seq_state
  current_epoch :: "string \<rightharpoonup> int"
  synced :: "string \<rightharpoonup> bool"
  ws_tasks :: "string set"

definition init_ws :: "l2_state \<Rightarrow> seq_state \<Rightarrow> ws_state" where
  "init_ws books sq = \<lparr>ws_books = books, ws_seq = sq, current_epoch = Map.empty, synced = Map.empty, ws_tasks = {}\<rparr>"

lemma acquire_only_True: "snd (acquire clock n tb) \<in> {None, Some True}"
  by (induction clock arbitrary: tb) (auto split: prod.split attempt.split)

definition stub_snapshot :: snapshot_msg where
  "stub_snapshot = \<lparr>raw_bids = [], raw_asks = [], snap_seq = 0, bids_price_arr = None, bids_qty_arr = None, asks_price_arr = None, asks_qty_arr = None\<rparr>"

definition fetch_snapshot :: "bool \<Rightarrow> snapshot_msg option" where
  "fetch_snapshot in_time = (if in_time then Some stub_snapshot else None)"

definition fetch_and_apply :: "bool \<Rightarrow> string \<Rightarrow> l2_state \<Rightarrow> l2_state \<times> bool" where
  "fetch_and_apply in_time symbol books =
     (case fetch_snapshot in_time of
        None \<Rightarrow> (books, False)
      | Some snap \<Rightarrow> on_snapshot symbol snap (if dget books symbol = None then dset books symbol (new_book symbol) else books))"

section \<open>Operations\<close>

definition clear_pre_sync :: "string \<Rightarrow> l2_state \<Rightarrow> l2_state" where
  "clear_pre_sync symbol books =
     (case dget books symbol of None \<Rightarrow> books | Some bk \<Rightarrow> dset books symbol (bk\<lparr>pre_sync_queue := (pre_sync_queue bk)(symbol \<mapsto> [])\<rparr>))"

definition ws_connect :: "int \<Rightarrow> string \<Rightarrow> ws_state \<Rightarrow> ws_state" where
  "ws_connect mono_ms symbol w =
     (if symbol \<in> ws_tasks w then w
      else let e = dd_int (current_epoch w) symbol + 1
           in w\<lparr>current_epoch := (current_epoch w)(symbol \<mapsto> e), synced := (synced w)(symbol \<mapsto> False),
                ws_seq := set_epoch symbol e mono_ms (ws_seq w), ws_books := clear_pre_sync symbol (ws_books w),
                ws_tasks := insert symbol (ws_tasks w)\<rparr>)"

definition ws_disconnect :: "string \<Rightarrow> ws_state \<Rightarrow> ws_state" where
  "ws_disconnect symbol w = w\<lparr>ws_tasks := ws_tasks w - {symbol}\<rparr>"

text \<open>\<^verbatim>\<open>on_snapshot\<close> and \<^verbatim>\<open>resync\<close>: the result of \<^verbatim>\<open>fetch_and_apply\<close> is not looked at, so the symbol is taken for synchronised also when there was no
  snapshot.\<close>

definition ws_on_snapshot :: "bool \<Rightarrow> string \<Rightarrow> ws_state \<Rightarrow> ws_state" where
  "ws_on_snapshot in_time symbol w =
     w\<lparr>ws_books := fst (fetch_and_apply in_time symbol (ws_books w)), synced := (synced w)(symbol \<mapsto> True)\<rparr>"

definition resync :: "bool \<Rightarrow> string \<Rightarrow> ws_state \<Rightarrow> ws_state" where
  "resync in_time symbol w =
     (let w1 = w\<lparr>synced := (synced w)(symbol \<mapsto> False)\<rparr>
      in w1\<lparr>ws_books := fst (fetch_and_apply in_time symbol (ws_books w1)), synced := (synced w1)(symbol \<mapsto> True)\<rparr>)"

record ws_msg =
  wm_seq :: "int option"
  wm_U :: "int option"
  wm_u :: "int option"
  wm_diffs :: "(string \<times> rat \<times> rat) list"

definition msg_get :: "int option \<Rightarrow> int \<Rightarrow> int" where
  "msg_get v d = (case v of None \<Rightarrow> d | Some x \<Rightarrow> x)"

definition push_pre_sync :: "string \<Rightarrow> int \<Rightarrow> int \<Rightarrow> l2_state \<Rightarrow> l2_state" where
  "push_pre_sync symbol sq ep books =
     (case dget books symbol of
        None \<Rightarrow> books
      | Some bk \<Rightarrow> dset books symbol (bk\<lparr>pre_sync_queue := (pre_sync_queue bk)(symbol \<mapsto>
            (case pre_sync_queue bk symbol of None \<Rightarrow> [] | Some q \<Rightarrow> q) @ [\<lparr>d_seq = sq, d_epoch = ep\<rparr>])\<rparr>))"

text \<open>\<^verbatim>\<open>handle_message\<close>; the result is \<open>None\<close> when \<open>apply_batch\<close> never returns.\<close>

definition handle_message ::
  "(rat list \<Rightarrow> rat \<Rightarrow> nat) \<Rightarrow> bool \<Rightarrow> int \<Rightarrow> string \<Rightarrow> ws_msg \<Rightarrow> int \<Rightarrow> ws_state \<Rightarrow> ws_state option" where
  "handle_message ss in_time mono_ms symbol msg ep w =
     (if current_epoch w symbol \<noteq> Some ep then Some w
      else if synced w symbol \<noteq> Some True then Some (w\<lparr>ws_books := push_pre_sync symbol (msg_get (wm_seq msg) 0) ep (ws_books w)\<rparr>)
      else let first_u = msg_get (wm_U msg) (msg_get (wm_seq msg) 0);
               final_u = msg_get (wm_u msg) (msg_get (wm_seq msg) 0);
               (sq, r) = validate symbol ep first_u final_u mono_ms (ws_seq w);
               w1 = w\<lparr>ws_seq := sq\<rparr>
           in if needs_resync r then Some (resync in_time symbol w1)
              else if \<not> is_valid r then Some w1
              else if dget (ws_books w1) symbol = None then Some w1
              else map_option (\<lambda>(books, out). w1\<lparr>ws_books := books\<rparr>) (apply_batch ss symbol (wm_diffs msg) ep (ws_books w1)))"

section \<open>Snapshots and epochs\<close>

text \<open>The epoch that the book of a symbol expects, and its two sides up to their active lengths.\<close>

definition book_epoch :: "string \<Rightarrow> ws_state \<Rightarrow> int" where
  "book_epoch symbol w = (case dget (ws_books w) symbol of None \<Rightarrow> 0 | Some bk \<Rightarrow> dd_int (seq_epoch bk) symbol)"

definition book_levels :: "string \<Rightarrow> ws_state \<Rightarrow> rat list \<times> rat list \<times> rat list \<times> rat list" where
  "book_levels symbol w = get_obi_safe_sync symbol (ws_books w)"

lemma stub_applied:
  "dget (fst (fetch_and_apply in_time symbol books)) x =
     (if in_time \<and> x = symbol
      then (let bk = (case dget books symbol of None \<Rightarrow> new_book symbol | Some b \<Rightarrow> b)
            in Some (finish_snapshot symbol 0 (bk\<lparr>seq_epoch := (seq_epoch bk)(symbol \<mapsto> dd_int (seq_epoch bk) symbol + 1),
                  bids := (bids bk)\<lparr>sb_price := replicate (length (sb_price (bids bk))) 0, sb_qty := replicate (length (sb_qty (bids bk))) 0, sb_len := 0\<rparr>,
                  asks := (asks bk)\<lparr>sb_price := replicate (length (sb_price (asks bk))) 0, sb_qty := replicate (length (sb_qty (asks bk))) 0, sb_len := 0\<rparr>\<rparr>)))
      else dget books x)"
  by (auto simp: fetch_and_apply_def fetch_snapshot_def on_snapshot_def stub_snapshot_def load_side_def Let_def dict_simps split: option.splits)

lemma stub_epoch:
  "book_epoch x (w\<lparr>ws_books := fst (fetch_and_apply in_time symbol (ws_books w))\<rparr>) = book_epoch x w + (if in_time \<and> x = symbol then 1 else 0)"
  by (auto simp: book_epoch_def stub_applied Let_def finish_snapshot_def dd_int_def new_book_def split: option.splits)

lemma stub_levels:
  "book_levels x (w\<lparr>ws_books := fst (fetch_and_apply in_time symbol (ws_books w))\<rparr>) = (if in_time \<and> x = symbol then ([], [], [], []) else book_levels x w)"
  by (auto simp: book_levels_def get_obi_safe_sync_def stub_applied Let_def finish_snapshot_def)

lemma book_views [simp]:
  "book_epoch x (w\<lparr>synced := f\<rparr>) = book_epoch x w" "book_levels x (w\<lparr>synced := f\<rparr>) = book_levels x w"
  "book_epoch x (w\<lparr>ws_seq := sq\<rparr>) = book_epoch x w" "book_levels x (w\<lparr>ws_seq := sq\<rparr>) = book_levels x w"
  by (simp_all add: book_epoch_def book_levels_def)

lemma resync_views:
  "book_epoch x (resync in_time symbol w) = book_epoch x w + (if in_time \<and> x = symbol then 1 else 0)"
  "book_levels x (resync in_time symbol w) = (if in_time \<and> x = symbol then ([], [], [], []) else book_levels x w)"
proof -
  have r: "resync in_time symbol w =
      (w\<lparr>ws_books := fst (fetch_and_apply in_time symbol (ws_books w))\<rparr>)\<lparr>synced := (synced w)(symbol \<mapsto> False, symbol \<mapsto> True)\<rparr>"
    by (simp add: resync_def Let_def)
  show "book_epoch x (resync in_time symbol w) = book_epoch x w + (if in_time \<and> x = symbol then 1 else 0)"
    "book_levels x (resync in_time symbol w) = (if in_time \<and> x = symbol then ([], [], [], []) else book_levels x w)"
    unfolding r book_views stub_epoch stub_levels by (rule refl)+
qed

lemma apply_batch_other:
  assumes "apply_batch ss x ds ep books = Some (books', out)"
  shows "y \<noteq> x \<Longrightarrow> dget books' y = dget books y"
    and "(case dget books x of None \<Rightarrow> True | Some bk \<Rightarrow> ep \<noteq> dd_int (seq_epoch bk) x) \<Longrightarrow> books' = books"
  using assms unfolding apply_batch_def
  by (auto simp: Let_def dict_simps split: option.splits if_splits bind_splits prod.splits)

section \<open>After a second snapshot\<close>

text \<open>The symbol is connected, but its book has seen more snapshots than connections.\<close>

definition ahead :: "string \<Rightarrow> ws_state \<Rightarrow> bool" where
  "ahead symbol w \<longleftrightarrow> (\<exists>e. current_epoch w symbol = Some e \<and> e < book_epoch symbol w)"

text \<open>Everything that can happen while the connection of the symbol lasts.\<close>

inductive ws_run :: "(rat list \<Rightarrow> rat \<Rightarrow> nat) \<Rightarrow> string \<Rightarrow> ws_state \<Rightarrow> ws_state \<Rightarrow> bool" for ss symbol w0 where
  start: "ws_run ss symbol w0 w0"
| message: "ws_run ss symbol w0 w \<Longrightarrow> handle_message ss in_time t x msg ep w = Some w' \<Longrightarrow> ws_run ss symbol w0 w'"
| snapshot: "ws_run ss symbol w0 w \<Longrightarrow> ws_run ss symbol w0 (ws_on_snapshot in_time x w)"
| connect: "ws_run ss symbol w0 w \<Longrightarrow> x \<noteq> symbol \<or> x \<in> ws_tasks w \<Longrightarrow> ws_run ss symbol w0 (ws_connect t x w)"
| disconnect: "ws_run ss symbol w0 w \<Longrightarrow> ws_run ss symbol w0 (ws_disconnect x w)"

lemma push_views:
  "book_epoch y (w\<lparr>ws_books := push_pre_sync x sq ep (ws_books w)\<rparr>) = book_epoch y w"
  "book_levels y (w\<lparr>ws_books := push_pre_sync x sq ep (ws_books w)\<rparr>) = book_levels y w"
  by (auto simp: book_epoch_def book_levels_def get_obi_safe_sync_def push_pre_sync_def dict_simps split: option.splits)

lemma clear_views:
  "book_epoch y (w\<lparr>ws_books := clear_pre_sync x (ws_books w)\<rparr>) = book_epoch y w"
  "book_levels y (w\<lparr>ws_books := clear_pre_sync x (ws_books w)\<rparr>) = book_levels y w"
  by (auto simp: book_epoch_def book_levels_def get_obi_safe_sync_def clear_pre_sync_def dict_simps split: option.splits)

lemma message_epoch: "handle_message ss in_time t x msg ep w = Some w' \<Longrightarrow> current_epoch w' = current_epoch w"
  by (auto simp: handle_message_def Let_def resync_def split: if_splits prod.splits)

lemma ahead_message:
  assumes "ahead symbol w" and h: "handle_message ss in_time t x msg ep w = Some w'"
  shows "book_epoch symbol w \<le> book_epoch symbol w' \<and> (book_levels symbol w' = book_levels symbol w \<or> book_levels symbol w' = ([], [], [], []))"
proof -
  obtain sq r where v: "validate x ep (msg_get (wm_U msg) (msg_get (wm_seq msg) 0)) (msg_get (wm_u msg) (msg_get (wm_seq msg) 0)) t (ws_seq w) = (sq, r)"
    by force
  consider "w' = w" | "w' = w\<lparr>ws_books := push_pre_sync x (msg_get (wm_seq msg) 0) ep (ws_books w)\<rparr>"
    | "w' = resync in_time x (w\<lparr>ws_seq := sq\<rparr>)" | "w' = w\<lparr>ws_seq := sq\<rparr>"
    | books out where "current_epoch w x = Some ep" "apply_batch ss x (wm_diffs msg) ep (ws_books w) = Some (books, out)" "w' = w\<lparr>ws_seq := sq, ws_books := books\<rparr>"
    using h unfolding handle_message_def Let_def v by (auto split: if_splits)
  then show ?thesis
  proof cases
    case 5
    have "dget books symbol = dget (ws_books w) symbol"
    proof (cases "x = symbol")
      case True
      have "(case dget (ws_books w) x of None \<Rightarrow> True | Some bk \<Rightarrow> ep \<noteq> dd_int (seq_epoch bk) x)"
        using assms(1) 5(1) True by (auto simp: ahead_def book_epoch_def split: option.splits)
      then show ?thesis using apply_batch_other(2) [OF 5(2)] by simp
    qed (use apply_batch_other(1) [OF 5(2)] in simp)
    then show ?thesis using 5(3) by (simp add: book_epoch_def book_levels_def get_obi_safe_sync_def)
  qed (simp_all add: push_views resync_views)
qed

lemma snapshot_views:
  "book_epoch y (ws_on_snapshot in_time x w) = book_epoch y w + (if in_time \<and> y = x then 1 else 0)"
  "book_levels y (ws_on_snapshot in_time x w) = (if in_time \<and> y = x then ([], [], [], []) else book_levels y w)"
proof -
  have r: "ws_on_snapshot in_time x w = (w\<lparr>ws_books := fst (fetch_and_apply in_time x (ws_books w))\<rparr>)\<lparr>synced := (synced w)(x \<mapsto> True)\<rparr>"
    by (simp add: ws_on_snapshot_def)
  show "book_epoch y (ws_on_snapshot in_time x w) = book_epoch y w + (if in_time \<and> y = x then 1 else 0)"
    "book_levels y (ws_on_snapshot in_time x w) = (if in_time \<and> y = x then ([], [], [], []) else book_levels y w)"
    unfolding r book_views stub_epoch stub_levels by (rule refl)+
qed

lemma connect_views:
  "book_epoch y (ws_connect t x w) = book_epoch y w" "book_levels y (ws_connect t x w) = book_levels y w"
  "y \<noteq> x \<or> x \<in> ws_tasks w \<Longrightarrow> current_epoch (ws_connect t x w) y = current_epoch w y"
proof -
  have e: "book_epoch y (w\<lparr>ws_books := clear_pre_sync x (ws_books w)\<rparr>) = book_epoch y (ws_connect t x w)"
    "book_levels y (w\<lparr>ws_books := clear_pre_sync x (ws_books w)\<rparr>) = book_levels y (ws_connect t x w)" if "x \<notin> ws_tasks w"
    using that by (simp_all add: ws_connect_def Let_def book_epoch_def book_levels_def)
  show "book_epoch y (ws_connect t x w) = book_epoch y w" "book_levels y (ws_connect t x w) = book_levels y w"
    using e clear_views [where x = x and y = y and w = w] by (cases "x \<in> ws_tasks w"; simp add: ws_connect_def)+
  show "y \<noteq> x \<or> x \<in> ws_tasks w \<Longrightarrow> current_epoch (ws_connect t x w) y = current_epoch w y"
    by (auto simp: ws_connect_def Let_def)
qed

text \<open>C38: once the book of a connected symbol has had one snapshot more than the symbol has had connections, which a single
  resynchronisation brings about, no message changes the levels of the book any more for as long as that connection lasts: they stay
  what they are or are emptied by further snapshots.\<close>

theorem ws_resync_freezes:
  assumes "ahead symbol w0" and "ws_run ss symbol w0 w"
  shows "ahead symbol w \<and> (book_levels symbol w = book_levels symbol w0 \<or> book_levels symbol w = ([], [], [], []))"
  using assms(2)
proof (induction rule: ws_run.induct)
  case start
  then show ?case using assms(1) by simp
next
  case (message w in_time t x msg ep w')
  then show ?case using ahead_message [OF conjunct1 [OF message.IH] message.hyps(2)] message_epoch [OF message.hyps(2)] by (auto simp: ahead_def)
next
  case (snapshot w in_time x)
  then show ?case by (auto simp: ahead_def snapshot_views) (auto simp: ws_on_snapshot_def)
next
  case (connect w x t)
  have "current_epoch (ws_connect t x w) symbol = current_epoch w symbol" using connect.hyps(2) by (intro connect_views(3)) auto
  then show ?case using connect.IH by (simp add: ahead_def connect_views(1,2))
next
  case (disconnect w x)
  then show ?case by (simp add: ahead_def ws_disconnect_def book_epoch_def book_levels_def)
qed

section \<open>The first gap\<close>

fun feed_messages :: "(rat list \<Rightarrow> rat \<Rightarrow> nat) \<Rightarrow> string \<Rightarrow> int \<Rightarrow> (int \<times> ws_msg) list \<Rightarrow> ws_state \<Rightarrow> ws_state option" where
  "feed_messages ss symbol ep [] w = Some w"
| "feed_messages ss symbol ep ((t, m) # ms) w = Option.bind (handle_message ss True t symbol m ep w) (feed_messages ss symbol ep ms)"

definition fresh_symbol :: "string \<Rightarrow> int \<Rightarrow> ws_state \<Rightarrow> bool" where
  "fresh_symbol symbol ep w \<longleftrightarrow> seq_mode (ws_seq w) = BINANCE \<and> current_epoch w symbol = Some ep \<and> synced w symbol = Some True
     \<and> (\<exists>st. seq_states (ws_seq w) symbol = Some st \<and> epoch st = ep \<and> last_u st = 0)"

definition gap_message :: "ws_msg \<Rightarrow> bool" where
  "gap_message m \<longleftrightarrow> 1 < msg_get (wm_U m) (msg_get (wm_seq m) 0) \<and> 0 < msg_get (wm_u m) (msg_get (wm_seq m) 0)"

lemma gap_resyncs:
  assumes "fresh_symbol symbol ep w" and "gap_message m"
  shows "\<exists>w'. handle_message ss True t symbol m ep w = Some w' \<and> fresh_symbol symbol ep w' \<and> book_epoch symbol w' = book_epoch symbol w + 1
     \<and> book_levels symbol w' = ([], [], [], [])"
proof -
  obtain st where st: "seq_states (ws_seq w) symbol = Some st" "epoch st = ep" "last_u st = 0" using assms(1) by (auto simp: fresh_symbol_def)
  let ?sq = "get_lock symbol (ws_seq w)"
  have "validate symbol ep (msg_get (wm_U m) (msg_get (wm_seq m) 0)) (msg_get (wm_u m) (msg_get (wm_seq m) 0)) t (ws_seq w) = (?sq, seq_result False True True 0)"
    using assms st by (simp add: validate_def Let_def get_lock_def fresh_symbol_def gap_message_def)
  then have h: "handle_message ss True t symbol m ep w = Some (resync True symbol (w\<lparr>ws_seq := ?sq\<rparr>))"
    using assms(1) by (simp add: handle_message_def fresh_symbol_def seq_result_def)
  have "fresh_symbol symbol ep (resync True symbol (w\<lparr>ws_seq := ?sq\<rparr>))"
    using assms(1) by (simp add: fresh_symbol_def resync_def Let_def get_lock_def)
  then show ?thesis using h by (auto simp: resync_views)
qed

lemma gaps_resync:
  "fresh_symbol symbol ep w \<Longrightarrow> list_all (\<lambda>(t, m). gap_message m) ms \<Longrightarrow>
     \<exists>w'. feed_messages ss symbol ep ms w = Some w' \<and> fresh_symbol symbol ep w' \<and> book_epoch symbol w' = book_epoch symbol w + int (length ms)
        \<and> book_levels symbol w' = (if ms = [] then book_levels symbol w else ([], [], [], []))"
proof (induction ms arbitrary: w)
  case (Cons tm ms)
  obtain t m where tm: "tm = (t, m)" by (cases tm)
  from gap_resyncs [OF Cons.prems(1), of m ss t] Cons.prems(2)
  obtain w1 where w1: "handle_message ss True t symbol m ep w = Some w1" "fresh_symbol symbol ep w1" "book_epoch symbol w1 = book_epoch symbol w + 1"
    "book_levels symbol w1 = ([], [], [], [])" by (auto simp: tm)
  from Cons.IH [OF w1(2)] Cons.prems(2) w1 show ?case by (auto simp: tm)
qed simp

definition connected_ws :: "int \<Rightarrow> string \<Rightarrow> l2_state \<Rightarrow> seq_state \<Rightarrow> ws_state" where
  "connected_ws t symbol books sq = ws_on_snapshot True symbol (ws_connect t symbol (init_ws books sq))"

text \<open>Lemma: a validator in the Binance mode is never told the number of a snapshot. So when the updates that follow a first connection
  and its snapshot are numbered beyond one, every single one of them is a gap: each takes another snapshot, none is applied, and the book
  stays empty however many there are.\<close>

theorem ws_gap_livelock:
  assumes "seq_mode sq = BINANCE" and "list_all (\<lambda>(t, m). gap_message m) ms"
  shows "\<exists>w. feed_messages ss symbol 1 ms (connected_ws t0 symbol books sq) = Some w
     \<and> book_epoch symbol w = book_epoch symbol (init_ws books sq) + 1 + int (length ms)
     \<and> book_levels symbol w = ([], [], [], []) \<and> synced w symbol = Some True"
proof -
  let ?w0 = "connected_ws t0 symbol books sq"
  have f: "fresh_symbol symbol 1 ?w0"
    using assms(1) by (simp add: connected_ws_def fresh_symbol_def ws_on_snapshot_def ws_connect_def init_ws_def Let_def dd_int_def
        set_epoch_def store_def get_lock_def)
  have v: "book_epoch symbol ?w0 = book_epoch symbol (init_ws books sq) + 1" "book_levels symbol ?w0 = ([], [], [], [])"
    by (simp_all add: connected_ws_def snapshot_views connect_views)
  from gaps_resync [OF f assms(2), of ss] v show ?thesis by (auto simp: fresh_symbol_def)
qed

definition real_update :: ws_msg where
  "real_update = \<lparr>wm_seq = None, wm_U = Some 5001, wm_u = Some 5003, wm_diffs = [(''bid'', 10, 2)]\<rparr>"

definition binance_validator :: seq_state where
  "binance_validator = \<lparr>seq_states = Map.empty, seq_locks = {}, seq_mode = BINANCE\<rparr>"

lemma ws_gap_livelock_witness:
  "\<exists>w. feed_messages (\<lambda>_ _. 0) ''S'' 1 [(7, real_update), (8, real_update)] (connected_ws 5 ''S'' [] binance_validator) = Some w
     \<and> book_levels ''S'' w = ([], [], [], []) \<and> book_epoch ''S'' w = 3"
  using ws_gap_livelock [of binance_validator "[(7, real_update), (8, real_update)]" "\<lambda>_ _. 0" "''S''" 5 "[]"]
  by (auto simp: binance_validator_def gap_message_def real_update_def msg_get_def book_epoch_def init_ws_def)

lemma ws_resync_freezes_witness:
  "\<exists>w. ws_run (\<lambda>_ _. 0) ''S'' (resync True ''S'' (connected_ws 5 ''S'' [] binance_validator)) w \<and> synced w ''S'' = Some True
     \<and> book_levels ''S'' w = ([], [], [], [])"
proof -
  let ?w0 = "resync True ''S'' (connected_ws 5 ''S'' [] binance_validator)"
  have e: "book_epoch ''S'' ?w0 = 2" "book_levels ''S'' ?w0 = ([], [], [], [])"
    by (simp_all add: resync_views connected_ws_def snapshot_views connect_views) (simp add: book_epoch_def init_ws_def)
  have "current_epoch ?w0 ''S'' = Some 1"
    by (simp add: resync_def Let_def connected_ws_def ws_on_snapshot_def ws_connect_def init_ws_def dd_int_def)
  then have "ahead ''S'' ?w0" using e by (simp add: ahead_def)
  moreover have r: "ws_run (\<lambda>_ _. 0) ''S'' ?w0 (ws_on_snapshot True ''S'' ?w0)" by (rule ws_run.snapshot [OF ws_run.start])
  ultimately have "book_levels ''S'' (ws_on_snapshot True ''S'' ?w0) = ([], [], [], [])" using ws_resync_freezes [of "''S''" ?w0 "\<lambda>_ _. 0"] e(2) by auto
  moreover have "synced (ws_on_snapshot True ''S'' ?w0) ''S'' = Some True" by (simp add: ws_on_snapshot_def)
  ultimately show ?thesis using r by blast
qed

end
