(* ===== verification/Flush_Controller.thy ===== *)
theory Flush_Controller
  imports Prelude
begin

text \<open>
  \<^verbatim>\<open>src/execution/flush_controller.py\<close>: the counter of suspensions with its event, and the bounded queue of forced flushes. Every operation
  runs under the lock, so it is one function of the state.
\<close>

record 'i flush_state =
  suspensions :: int
  flush_event :: bool
  force_queue :: "'i list"

definition init_flush :: "'i flush_state" where
  "init_flush = \<lparr>suspensions = 0, flush_event = True, force_queue = []\<rparr>"

definition suspend :: "'i flush_state \<Rightarrow> 'i flush_state" where
  "suspend s = (let s1 = s\<lparr>suspensions := suspensions s + 1\<rparr>
                in if suspensions s1 = 1 then s1\<lparr>flush_event := False\<rparr> else s1)"

definition resume :: "'i flush_state \<Rightarrow> 'i flush_state" where
  "resume s =
     (let s1 = s\<lparr>suspensions := suspensions s - 1\<rparr>;
          s2 = (if suspensions s1 < 0 then s1\<lparr>suspensions := 0\<rparr> else s1)
      in if suspensions s2 = 0 then s2\<lparr>flush_event := True\<rparr> else s2)"

definition is_suspended :: "'i flush_state \<Rightarrow> bool" where
  "is_suspended s \<longleftrightarrow> 0 < suspensions s"

definition try_enqueue_flush :: "int \<Rightarrow> 'i \<Rightarrow> 'i flush_state \<Rightarrow> 'i flush_state \<times> bool" where
  "try_enqueue_flush cap item s =
     (if 0 < cap \<and> cap \<le> int (length (force_queue s)) then (s, False) else (s\<lparr>force_queue := force_queue s @ [item]\<rparr>, True))"

section \<open>Counting holders\<close>

text \<open>The abstract view: the set of those who hold a suspension. Each takes at most one and gives back only what it has.\<close>

inductive flush_run :: "int \<Rightarrow> 'h set \<Rightarrow> 'i flush_state \<Rightarrow> bool" for cap where
  start: "flush_run cap {} init_flush"
| suspends: "flush_run cap H s \<Longrightarrow> h \<notin> H \<Longrightarrow> flush_run cap (insert h H) (suspend s)"
| resumes: "flush_run cap H s \<Longrightarrow> h \<in> H \<Longrightarrow> flush_run cap (H - {h}) (resume s)"
| flushes: "flush_run cap H s \<Longrightarrow> flush_run cap H (fst (try_enqueue_flush cap item s))"

lemma flush_run_card: "flush_run cap H s \<Longrightarrow> finite H \<and> suspensions s = int (card H) \<and> (flush_event s \<longleftrightarrow> H = {})"
proof (induction rule: flush_run.induct)
  case start
  then show ?case by (simp add: init_flush_def)
next
  case (suspends H s h)
  then show ?case by (auto simp: suspend_def Let_def)
next
  case (resumes H s h)
  then have c: "card (H - {h}) = card H - 1" "0 < card H" by (auto simp: card_gt_0_iff)
  then have "H - {h} = {} \<longleftrightarrow> card H = 1" using resumes.IH by (metis card_eq_0_iff card_Diff_singleton diff_is_0_eq finite_Diff le_numeral_extra(4) less_one linorder_not_less nat_less_le)
  then show ?case using resumes c by (auto simp: resume_def Let_def of_nat_diff)
next
  case (flushes H s item)
  then show ?case by (simp add: try_enqueue_flush_def)
qed

text \<open>Lemma: when everyone resumes only what it suspended, the single counter is the number of holders, flushing is reported as
  suspended exactly while there is one, and the event is set again exactly when the last one has resumed.\<close>

theorem flush_counts_holders:
  assumes "flush_run cap H s"
  shows "suspensions s = int (card H) \<and> (is_suspended s \<longleftrightarrow> H \<noteq> {}) \<and> (flush_event s \<longleftrightarrow> \<not> is_suspended s)"
  using flush_run_card [OF assms] by (auto simp: is_suspended_def card_gt_0_iff)

lemma flush_counts_holders_witness:
  "suspensions (resume (suspend (suspend (init_flush :: nat flush_state)))) = 1"
proof -
  have "flush_run 5 {} (init_flush :: nat flush_state)" by (rule flush_run.start)
  then have "flush_run 5 {''a''} (suspend (init_flush :: nat flush_state))" using flush_run.suspends [of 5 "{}" _ "''a''"] by auto
  then have "flush_run 5 {''b'', ''a''} (suspend (suspend (init_flush :: nat flush_state)))" using flush_run.suspends [of 5 "{''a''}" _ "''b''"] by auto
  then have "flush_run 5 ({''b'', ''a''} - {''a''}) (resume (suspend (suspend (init_flush :: nat flush_state))))" by (rule flush_run.resumes) simp
  from flush_counts_holders [OF this] show ?thesis by (simp add: insert_Diff_if)
qed

lemma resume_suspend: "0 \<le> suspensions s \<Longrightarrow> flush_event s \<longleftrightarrow> suspensions s = 0 \<Longrightarrow> resume (suspend s) = s"
  by (cases s) (auto simp: resume_def suspend_def Let_def)

end
