(* ===== verification/Emergency.thy ===== *)
theory Emergency
  imports Sqlite_Writer Flush_Controller Float64
begin

text \<open>
  \<^verbatim>\<open>src/emergency/close.py\<close>: the emergency close of a symbol over the database writer and the flush controller. The answers of the gateway are
  inputs; the quantity of the position is the stub of the source, one. The persistence it calls is the one of the writer; the journal that
  backs it is in \<^verbatim>\<open>Emergency_Journal\<close>.
\<close>

section \<open>Closing\<close>

record closer_config =
  ec_reduce_only :: bool
  ec_max_retry :: int
  ec_leverage :: rat
  ec_min_lot :: rat

definition default_closer_config :: closer_config where
  "default_closer_config = \<lparr>ec_reduce_only = True, ec_max_retry = 1, ec_leverage = 5, ec_min_lot = rnd (1 / 1000)\<rparr>"

text \<open>\<open>None\<close> is the division by a leverage of zero, which raises.\<close>

definition emergency_slippage :: "closer_config \<Rightarrow> rat option" where
  "emergency_slippage cfg = (if ec_leverage cfg = 0 then None else Some (min (rnd (3 / 100)) (fdiv (rnd (1 / 10)) (ec_leverage cfg))))"

datatype direct_answer = DirectFilled | DirectNone | DirectRaised

text \<open>What the gateway does with the order: it answers with a dictionary (with or without a slippage that reads as a number), with
  something else, with \<open>None\<close>, or it raises; a \<open>RuntimeError\<close> leads to the direct post.\<close>

datatype post_answer = FillDict "rat option" | FillOther | NoFill | PostRuntimeError direct_answer | PostFailed

datatype close_result = CLOSED | FORCE_LIQUIDATED_BY_SYSTEM | EMERGENCY_FAILED_POSITION_OPEN | DUST_ACKNOWLEDGED

definition pos_qty :: rat where "pos_qty = 1"

definition within_slippage :: "closer_config \<Rightarrow> rat \<Rightarrow> close_result option" where
  "within_slippage cfg x =
     (case emergency_slippage cfg of
        None \<Rightarrow> None
      | Some limit \<Rightarrow> Some (if limit < \<bar>x\<bar> then FORCE_LIQUIDATED_BY_SYSTEM else CLOSED))"

definition do_close_attempt :: "closer_config \<Rightarrow> post_answer \<Rightarrow> close_result option" where
  "do_close_attempt cfg answer =
     (if \<bar>pos_qty\<bar> < fdiv (ec_min_lot cfg) 2 then Some DUST_ACKNOWLEDGED
      else case answer of
             PostRuntimeError d \<Rightarrow> (case d of DirectFilled \<Rightarrow> Some FORCE_LIQUIDATED_BY_SYSTEM | _ \<Rightarrow> Some EMERGENCY_FAILED_POSITION_OPEN)
           | PostFailed \<Rightarrow> Some EMERGENCY_FAILED_POSITION_OPEN
           | NoFill \<Rightarrow> Some EMERGENCY_FAILED_POSITION_OPEN
           | FillOther \<Rightarrow> within_slippage cfg 0
           | FillDict s \<Rightarrow> within_slippage cfg (case s of None \<Rightarrow> 0 | Some x \<Rightarrow> x))"

text \<open>The retry loop over \<^verbatim>\<open>range(max_retry + 1)\<close>; the second component counts the attempts, \<open>None\<close> is an exception that leaves the loop.\<close>

fun close_attempts :: "closer_config \<Rightarrow> (nat \<Rightarrow> post_answer) \<Rightarrow> nat \<Rightarrow> nat \<Rightarrow> close_result \<Rightarrow> close_result option \<times> nat" where
  "close_attempts cfg answers n 0 result = (Some result, n)"
| "close_attempts cfg answers n (Suc k) result =
     (case do_close_attempt cfg (answers n) of
        None \<Rightarrow> (None, n + 1)
      | Some r \<Rightarrow> if r = EMERGENCY_FAILED_POSITION_OPEN then close_attempts cfg answers (n + 1) k r else (Some r, n + 1))"

fun result_text :: "close_result \<Rightarrow> string" where
  "result_text CLOSED = ''CLOSED''"
| "result_text FORCE_LIQUIDATED_BY_SYSTEM = ''FORCE_LIQUIDATED_BY_SYSTEM''"
| "result_text EMERGENCY_FAILED_POSITION_OPEN = ''EMERGENCY_FAILED_POSITION_OPEN''"
| "result_text DUST_ACKNOWLEDGED = ''DUST_ACKNOWLEDGED''"

definition persist_pending :: "sql_fault \<Rightarrow> int \<Rightarrow> string \<Rightarrow> writer \<Rightarrow> writer" where
  "persist_pending flt now symbol w = fst (execute_wal flt now [(''position_id'', SText symbol), (''emergency_pending'', SInt 1)] w)"

record emergency_env =
  ee_persist_fault :: sql_fault
  ee_close_fault :: sql_fault
  ee_now :: int
  ee_answers :: "nat \<Rightarrow> post_answer"

text \<open>The task of one emergency close; the \<^verbatim>\<open>finally\<close> resumes the flush whatever happens.\<close>

definition emergency_task ::
  "closer_config \<Rightarrow> emergency_env \<Rightarrow> string \<Rightarrow> 'i flush_state \<Rightarrow> writer \<Rightarrow> ('i flush_state \<times> writer) \<times> close_result option \<times> nat" where
  "emergency_task cfg env symbol f w =
     (let f1 = suspend f;
          w1 = persist_pending (ee_persist_fault env) (ee_now env) symbol w;
          (result, n) = close_attempts cfg (ee_answers env) 0 (nat (ec_max_retry cfg + 1)) EMERGENCY_FAILED_POSITION_OPEN;
          w2 = (case result of
                  Some r \<Rightarrow> if r \<in> {CLOSED, FORCE_LIQUIDATED_BY_SYSTEM}
                            then fst (sql_close_position (ee_close_fault env) (ee_now env) symbol (result_text r) 0 0 None w1) else w1
                | None \<Rightarrow> w1)
      in ((resume f1, w2), result, n))"

text \<open>The single flight: a symbol whose task is in the dictionary is not started again; the callback of a finished task takes it out.\<close>

type_synonym flights = "(string, nat) dict"

definition request_close :: "nat \<Rightarrow> string \<Rightarrow> flights \<Rightarrow> flights \<times> nat" where
  "request_close fresh symbol fl = (case dget fl symbol of Some t \<Rightarrow> (fl, t) | None \<Rightarrow> (dset fl symbol fresh, fresh))"

definition task_done :: "string \<Rightarrow> flights \<Rightarrow> flights" where
  "task_done symbol fl = ddel fl symbol"

lemma close_attempts_count: "snd (close_attempts cfg answers n k r) \<le> n + k"
proof (induction k arbitrary: n r)
  case (Suc k)
  from Suc.IH [of "n + 1" EMERGENCY_FAILED_POSITION_OPEN] show ?case by (simp split: option.split)
qed simp

lemma close_attempts_last:
  "fst (close_attempts cfg answers n k r) = Some CLOSED \<Longrightarrow> r \<noteq> CLOSED \<Longrightarrow>
     n < snd (close_attempts cfg answers n k r) \<and> do_close_attempt cfg (answers (snd (close_attempts cfg answers n k r) - 1)) = Some CLOSED"
proof (induction k arbitrary: n r)
  case (Suc k)
  from Suc.IH [of "n + 1" EMERGENCY_FAILED_POSITION_OPEN] Suc.prems show ?case
    by (auto split: option.splits if_splits)
qed simp

text \<open>C40: an emergency close makes at most one attempt more than the retries, reports \<open>CLOSED\<close> only when its last attempt was filled within
  the slippage limit, and leaves the flush controller as it found it, also when an attempt raises.\<close>

theorem emergency_outcome:
  assumes "0 \<le> suspensions f" and "flush_event f \<longleftrightarrow> suspensions f = 0"
    and "emergency_task cfg env symbol f w = ((f', w'), result, n)"
  shows "f' = f \<and> int n \<le> max 0 (ec_max_retry cfg + 1)
    \<and> (result = Some CLOSED \<longrightarrow> 0 < n
         \<and> (case (ee_answers env (n - 1), emergency_slippage cfg) of
              (FillDict (Some x), Some limit) \<Rightarrow> \<bar>x\<bar> \<le> limit | (FillDict None, _) \<Rightarrow> True | (FillOther, _) \<Rightarrow> True | _ \<Rightarrow> False))"
proof -
  let ?c = "close_attempts cfg (ee_answers env) 0 (nat (ec_max_retry cfg + 1)) EMERGENCY_FAILED_POSITION_OPEN"
  have e: "f' = resume (suspend f)" "result = fst ?c" "n = snd ?c"
    using assms(3) by (auto simp: emergency_task_def Let_def split_beta)
  have "n \<le> nat (ec_max_retry cfg + 1)"
    using close_attempts_count [of cfg "ee_answers env" 0 "nat (ec_max_retry cfg + 1)" EMERGENCY_FAILED_POSITION_OPEN] unfolding e(3) by simp
  then have "int n \<le> max 0 (ec_max_retry cfg + 1)" by linarith
  moreover have "0 < n \<and> do_close_attempt cfg (ee_answers env (n - 1)) = Some CLOSED" if "result = Some CLOSED"
    using close_attempts_last [of cfg "ee_answers env" 0] that e by simp
  moreover have "case (a, emergency_slippage cfg) of
      (FillDict (Some x), Some limit) \<Rightarrow> \<bar>x\<bar> \<le> limit | (FillDict None, _) \<Rightarrow> True | (FillOther, _) \<Rightarrow> True | _ \<Rightarrow> False"
    if "do_close_attempt cfg a = Some CLOSED" for a
    using that by (auto simp: do_close_attempt_def within_slippage_def split: post_answer.splits direct_answer.splits option.splits if_splits)
  ultimately show ?thesis using resume_suspend [OF assms(1,2)] e(1) by blast
qed

definition one_try :: closer_config where
  "one_try = \<lparr>ec_reduce_only = True, ec_max_retry = 1, ec_leverage = 1, ec_min_lot = 0\<rparr>"

definition second_fills :: emergency_env where
  "second_fills = \<lparr>ee_persist_fault = NoFault, ee_close_fault = NoFault, ee_now = 9, ee_answers = (\<lambda>n. if n = 0 then NoFill else FillDict None)\<rparr>"

lemma second_attempt_closes:
  "snd (emergency_task one_try second_fills ''S'' f w) = (Some CLOSED, 2)"
proof -
  have "emergency_slippage one_try = Some (min (rnd (3 / 100)) (fdiv (rnd (1 / 10)) 1))" "\<not> min (rnd (3 / 100)) (fdiv (rnd (1 / 10)) 1) < 0"
    by (simp_all add: emergency_slippage_def one_try_def fdiv_def rnd_nonneg not_less)
  then have "do_close_attempt one_try (FillDict None) = Some CLOSED" "do_close_attempt one_try NoFill = Some EMERGENCY_FAILED_POSITION_OPEN"
    by (simp_all add: do_close_attempt_def within_slippage_def pos_qty_def one_try_def fdiv_def)
  moreover have "nat (ec_max_retry one_try + 1) = Suc (Suc 0)" by (simp add: one_try_def)
  ultimately show ?thesis by (simp add: emergency_task_def Let_def split_beta second_fills_def)
qed

lemma emergency_outcome_witness:
  "fst (fst (emergency_task one_try second_fills ''S'' (init_flush :: nat flush_state) (connect (init_writer simple_conv empty_tables)))) = init_flush"
proof -
  let ?t = "emergency_task one_try second_fills ''S'' (init_flush :: nat flush_state) (connect (init_writer simple_conv empty_tables))"
  have "?t = ((fst (fst ?t), snd (fst ?t)), Some CLOSED, 2)"
    using second_attempt_closes [of "init_flush :: nat flush_state"] by (metis prod.collapse)
  from emergency_outcome [OF _ _ this] show ?thesis by (simp add: init_flush_def)
qed

section \<open>What an emergency close does to the ledger\<close>

definition pending_row :: "conversions \<Rightarrow> string \<Rightarrow> sql_row" where
  "pending_row cv symbol = new_row positions_schema (stored cv (position_values [(''position_id'', SText symbol), (''emergency_pending'', SInt 1)]))"

lemma pending_row_col: "c \<in> fst ` set positions_schema \<Longrightarrow> col (pending_row cv symbol) c =
    (case map_of (position_values [(''position_id'', SText symbol), (''emergency_pending'', SInt 1)]) c of
       None \<Rightarrow> the (map_of positions_schema c) | Some v \<Rightarrow> affinity cv (column_type c) v)"
  unfolding pending_row_def by (subst col_new_row) (simp_all split: option.split)

lemma pending_row_cols:
  "map (col (pending_row cv symbol)) [''position_id'', ''symbol'', ''side'', ''status'', ''opened_at_ms'', ''avg'', ''qty_open'', ''qty_remaining'', ''emergency_pending'']
   = [SText symbol, SNull, SNull, SText ''open'', SNull, SReal 0, SReal 0, SReal 0, SInt 1]"
  by (simp add: pending_row_col positions_schema_def position_values_def payload_get_def payload_flag_def dget_Cons)

lemma persist_rows:
  assumes "connected w"
  shows "tb_positions (live (persist_pending NoFault now symbol w)) =
      filter (\<lambda>x. \<not> same_key ''position_id'' (SText symbol) x) (tb_positions (live w)) @ [pending_row (w_conv w) symbol]"
proof -
  have "col (pending_row (w_conv w) symbol) ''position_id'' = SText symbol" using pending_row_cols [of "w_conv w" symbol] by simp
  then show ?thesis
    using assms by (simp add: persist_pending_def execute_wal_def sql_write_def dget_Cons insert_or_replace_def flip: pending_row_def)
qed

text \<open>Lemma: the first thing an emergency close does is to replace the row whose identifier is the symbol by an open row without a side, an
  entry time, an average or a quantity, whatever it held; a successful close marks that row as closed, and every
  row with another identifier, such as a position that was opened under its own, is left as it is.\<close>

theorem emergency_wipes_row:
  assumes "connected w" and "ee_persist_fault env = NoFault" and "ee_close_fault env = NoFault"
    and "emergency_task cfg env symbol f w = ((f', w'), Some result, n)" and "result \<in> {CLOSED, FORCE_LIQUIDATED_BY_SYSTEM}"
  shows "filter (\<lambda>x. \<not> same_key ''position_id'' (SText symbol) x) (tb_positions (live w')) =
           filter (\<lambda>x. \<not> same_key ''position_id'' (SText symbol) x) (tb_positions (live w))
    \<and> map (\<lambda>r. map (col r) [''side'', ''opened_at_ms'', ''avg'', ''qty_open'', ''qty_remaining'', ''realized_pnl'', ''status'', ''close_reason''])
        (filter (same_key ''position_id'' (SText symbol)) (tb_positions (live w')))
      = [[SNull, SNull, SReal 0, SReal 0, SReal 0, SReal 0, SText ''closed'', SText (result_text result)]]"
proof -
  let ?k = "same_key ''position_id'' (SText symbol)" and ?w1 = "persist_pending NoFault (ee_now env) symbol w"
  let ?others = "filter (\<lambda>x. \<not> ?k x) (tb_positions (live w))"
  let ?c = "close_cols (ee_now env) (result_text result) 0 0 None"
  have w': "w' = fst (sql_close_position NoFault (ee_now env) symbol (result_text result) 0 0 None ?w1)"
    using assms(2-5) by (auto simp: emergency_task_def Let_def split_beta)
  have c1: "connected ?w1"
    using assms(1) by (simp_all add: persist_pending_def execute_wal_def sql_write_def)
  have id: "col (pending_row (w_conv w) symbol) ''position_id'' = SText symbol" using pending_row_cols [of "w_conv w" symbol] by simp
  have k: "?k (pending_row (w_conv w) symbol)" by (simp add: same_key_def id)
  have n: "\<not> list_ex ?k ?others" by (simp add: list_ex_iff)
  have p: "tb_positions (live w') = ?others @ [set_cols ?c (pending_row (w_conv w) symbol)]"
    using c1 persist_rows [OF assms(1), of "ee_now env" symbol] update_appended [OF n k, of ?c]
    by (simp add: w' sql_close_position_def sql_write_def)
  have kc: "?k (set_cols ?c (pending_row (w_conv w) symbol))" using k by (simp add: same_key_def col_set_cols_other close_cols_def)
  have "col (set_cols ?c (pending_row (w_conv w) symbol)) c = (case map_of ?c c of None \<Rightarrow> col (pending_row (w_conv w) symbol) c | Some v \<Rightarrow> v)"
    if "c \<in> fst ` set positions_schema" for c using that by (intro col_set_cols) (simp add: pending_row_def)
  then have cols: "map (col (set_cols ?c (pending_row (w_conv w) symbol))) [''side'', ''opened_at_ms'', ''avg'', ''qty_open'', ''qty_remaining'', ''realized_pnl'', ''status'', ''close_reason'']
      = [SNull, SNull, SReal 0, SReal 0, SReal 0, SReal 0, SText ''closed'', SText (result_text result)]"
    using pending_row_cols [of "w_conv w" symbol] by (simp add: positions_schema_def close_cols_def)
  have "filter ?k ?others = []" by (simp add: filter_empty_conv)
  then show ?thesis using p kc cols by simp
qed

lemma emergency_wipes_row_witness:
  "(let w = fst (open_position NoFault 5 [(''position_id'', SText ''S''), (''avg'', SReal 7), (''qty_open'', SReal 2)] (connect (init_writer simple_conv empty_tables)));
        w' = snd (fst (emergency_task one_try second_fills ''S'' (init_flush :: nat flush_state) w))
    in map (\<lambda>r. map (col r) [''side'', ''opened_at_ms'', ''avg'', ''qty_open'', ''qty_remaining'', ''realized_pnl'', ''status'', ''close_reason''])
         (filter (same_key ''position_id'' (SText ''S'')) (tb_positions (live w')))
       = [[SNull, SNull, SReal 0, SReal 0, SReal 0, SReal 0, SText ''closed'', SText ''CLOSED'']])"
proof -
  let ?w = "fst (open_position NoFault 5 [(''position_id'', SText ''S''), (''avg'', SReal 7), (''qty_open'', SReal 2)] (connect (init_writer simple_conv empty_tables)))"
  let ?t = "emergency_task one_try second_fills ''S'' (init_flush :: nat flush_state) ?w"
  have t: "?t = ((fst (fst ?t), snd (fst ?t)), Some CLOSED, 2)"
    using second_attempt_closes [of "init_flush :: nat flush_state"] by (metis prod.collapse)
  have "connected ?w" by (simp_all add: open_position_def sql_write_def connect_def init_writer_def dget_Cons)
  from emergency_wipes_row [OF this _ _ t] show ?thesis by (simp add: second_fills_def Let_def)
qed

end
