(* ===== verification/Emergency_Journal.thy ===== *)
theory Emergency_Journal
  imports Sqlite_Writer
begin

text \<open>
  \<^verbatim>\<open>src/emergency/journal.py\<close> and \<^verbatim>\<open>src/emergency/persist.py\<close>: the journal file with its rotation, and the persistence of emergency state
  with the journal as the fallback of the database. A file is the list of its lines; a write that is cut short leaves a line
  without an end, which the next line is glued to. The size of a file and the outcome of every system call are parameters;
  the lock of the journal makes an append one step.
\<close>

section \<open>The journal\<close>

type_synonym journal_entry = "string \<times> sql_payload"

text \<open>A line that \<^verbatim>\<open>json.loads\<close> refuses is garbage.\<close>

datatype journal_line = Entry journal_entry | Garbage

record journal_config =
  max_file_size_bytes :: int

definition default_journal_config :: journal_config where
  "default_journal_config = \<lparr>max_file_size_bytes = 10000000\<rparr>"

record journal =
  jn_file :: "journal_line list option"
  jn_unterminated :: bool
  jn_backup :: "journal_line list option"

definition empty_journal :: journal where
  "empty_journal = \<lparr>jn_file = None, jn_unterminated = False, jn_backup = None\<rparr>"

datatype write_outcome = Written | CutShort | NotWritten

record journal_env =
  je_stat_ok :: bool
  je_size :: "journal_line list \<Rightarrow> int"
  je_unlink_ok :: bool
  je_rename_ok :: bool
  je_write :: write_outcome

definition rotate_journal :: "journal_config \<Rightarrow> journal_env \<Rightarrow> journal \<Rightarrow> journal" where
  "rotate_journal cfg env j =
     (case jn_file j of
        None \<Rightarrow> j
      | Some ls \<Rightarrow>
          if \<not> je_stat_ok env \<or> je_size env ls \<le> max_file_size_bytes cfg then j
          else let j1 = (if jn_backup j \<noteq> None \<and> je_unlink_ok env then j\<lparr>jn_backup := None\<rparr> else j)
               in if je_rename_ok env then \<lparr>jn_file = None, jn_unterminated = False, jn_backup = Some ls\<rparr> else j1)"

definition file_lines :: "journal_line list option \<Rightarrow> journal_line list" where
  "file_lines f = (case f of None \<Rightarrow> [] | Some ls \<Rightarrow> ls)"

text \<open>\<^verbatim>\<open>open(..., "a")\<close> and the write: after an unterminated line the text continues that line, which stays garbage.\<close>

definition write_line :: "write_outcome \<Rightarrow> journal_entry \<Rightarrow> journal \<Rightarrow> journal \<times> bool" where
  "write_line out e j =
     (let ls = file_lines (jn_file j)
      in case out of
           NotWritten \<Rightarrow> (j, False)
         | CutShort \<Rightarrow> (j\<lparr>jn_file := Some (if jn_unterminated j then ls else ls @ [Garbage]), jn_unterminated := True\<rparr>, False)
         | Written \<Rightarrow> (j\<lparr>jn_file := Some (if jn_unterminated j then ls else ls @ [Entry e]), jn_unterminated := False\<rparr>, True))"

definition journal_append :: "journal_config \<Rightarrow> journal_env \<Rightarrow> string \<Rightarrow> sql_payload \<Rightarrow> journal \<Rightarrow> journal \<times> bool" where
  "journal_append cfg env symbol state j = write_line (je_write env) (symbol, state) (rotate_journal cfg env j)"

text \<open>\<^verbatim>\<open>read_all\<close>: the entries of the symbol in the current file; a reading that fails gives none.\<close>

definition parsed :: "journal_line list \<Rightarrow> journal_entry list" where
  "parsed ls = List.map_filter (\<lambda>l. case l of Entry e \<Rightarrow> Some e | Garbage \<Rightarrow> None) ls"

definition read_all :: "bool \<Rightarrow> string \<Rightarrow> journal \<Rightarrow> journal_entry list" where
  "read_all ok symbol j = (if ok then filter (\<lambda>e. fst e = symbol) (parsed (file_lines (jn_file j))) else [])"

section \<open>Persistence\<close>

record persist_env =
  pe_fault :: sql_fault
  pe_timeout :: bool
  pe_now :: int
  pe_journal :: journal_env

definition persist_payload :: "string \<Rightarrow> sql_payload \<Rightarrow> sql_payload" where
  "persist_payload symbol state =
     (let p = (if dget state ''symbol'' = None then dset state ''symbol'' (SText symbol) else state)
      in if dget p ''position_id'' = None then dset p ''position_id'' (SText symbol) else p)"

text \<open>A time-out cancels the wait; how far the writer got by then is the fault of the environment.\<close>

definition emergency_persist_state ::
  "journal_config \<Rightarrow> bool \<Rightarrow> persist_env \<Rightarrow> string \<Rightarrow> sql_payload \<Rightarrow> writer \<times> journal \<Rightarrow> (writer \<times> journal) \<times> bool" where
  "emergency_persist_state cfg fallback env symbol state s =
     (let (w, ok) = execute_wal (pe_fault env) (pe_now env) (persist_payload symbol state) (fst s)
      in if ok \<and> \<not> pe_timeout env then ((w, snd s), True)
         else if \<not> fallback then ((w, snd s), False)
         else let (j, written) = journal_append cfg (pe_journal env) symbol state (snd s) in ((w, j), written))"

section \<open>What the journal keeps\<close>

lemma parsed_simps [simp]:
  "parsed [] = []" "parsed (Entry e # ls) = e # parsed ls" "parsed (Garbage # ls) = parsed ls" "parsed (ls @ ms) = parsed ls @ parsed ms"
  by (simp_all add: parsed_def map_filter_def)

lemma file_lines_simps [simp]: "file_lines None = []" "file_lines (Some ls) = ls"
  by (simp_all add: file_lines_def)

text \<open>A run of appends, and the entries that were reported as written.\<close>

fun append_run :: "journal_config \<Rightarrow> (journal_env \<times> journal_entry) list \<Rightarrow> journal \<Rightarrow> journal \<times> journal_entry list" where
  "append_run cfg [] j = (j, [])"
| "append_run cfg ((env, e) # es) j =
     (let (j', ok) = journal_append cfg env (fst e) (snd e) j; (j'', kept) = append_run cfg es j'
      in (j'', (if ok then e # kept else kept)))"

definition remembered :: "journal \<Rightarrow> journal_entry list" where
  "remembered j = parsed (file_lines (jn_backup j)) @ parsed (file_lines (jn_file j))"

lemma rotate_remembers:
  "(\<exists>lost. remembered j = lost @ remembered (rotate_journal cfg env j)) \<and> (\<not> jn_unterminated j \<longrightarrow> \<not> jn_unterminated (rotate_journal cfg env j))"
  by (auto simp: rotate_journal_def remembered_def Let_def split: option.split)

lemma append_remembers:
  assumes "journal_append cfg env symbol state j = (j', ok)" and "\<not> jn_unterminated j" and "je_write env \<noteq> CutShort"
  shows "\<exists>lost. remembered j @ (if ok then [(symbol, state)] else []) = lost @ remembered j'" and "\<not> jn_unterminated j'"
proof -
  let ?r = "rotate_journal cfg env j"
  obtain lost where l: "remembered j = lost @ remembered ?r" and t: "\<not> jn_unterminated ?r"
    using rotate_remembers [of j cfg env] assms(2) by auto
  have w: "write_line (je_write env) (symbol, state) ?r = (j', ok)" using assms(1) by (simp add: journal_append_def)
  then have "remembered j' = remembered ?r @ (if ok then [(symbol, state)] else [])" and u: "\<not> jn_unterminated j'"
    using assms(3) t by (auto simp: write_line_def remembered_def Let_def split: write_outcome.splits)
  then have "remembered j @ (if ok then [(symbol, state)] else []) = lost @ remembered j'" using l by simp
  then show "\<exists>lost. remembered j @ (if ok then [(symbol, state)] else []) = lost @ remembered j'" by blast
  show "\<not> jn_unterminated j'" by (rule u)
qed

text \<open>Lemma: as long as no write is cut short, what the journal and its backup hold is the tail of what was there and of what was reported
  as written since, in order: rotation, and rotation that fails half way, give up the oldest entries only.\<close>

theorem journal_forgets_oldest:
  assumes "\<not> jn_unterminated j" and "list_all (\<lambda>(env, e). je_write env \<noteq> CutShort) es" and "append_run cfg es j = (j', kept)"
  shows "\<exists>lost. remembered j @ kept = lost @ remembered j'"
  using assms
proof (induction es arbitrary: j kept)
  case (Cons x es)
  obtain env e where x: "x = (env, e)" by (cases x)
  obtain j1 ok where a: "journal_append cfg env (fst e) (snd e) j = (j1, ok)" by fastforce
  obtain kept1 where r: "append_run cfg es j1 = (j', kept1)" and k: "kept = (if ok then e # kept1 else kept1)"
    using Cons.prems(3) by (auto simp: x a split: prod.splits)
  have ne: "je_write env \<noteq> CutShort" using Cons.prems(2) by (simp add: x)
  obtain l1 where l1: "remembered j @ (if ok then [e] else []) = l1 @ remembered j1"
    using append_remembers(1) [OF a Cons.prems(1) ne] unfolding prod.collapse by blast
  obtain l2 where "remembered j1 @ kept1 = l2 @ remembered j'"
    using Cons.IH [OF append_remembers(2) [OF a Cons.prems(1) ne] _ r] Cons.prems(2) by auto
  then have "remembered j @ kept = (l1 @ l2) @ remembered j'" using l1 by (cases ok) (simp_all add: k, metis append.assoc append_Cons append_Nil)
  then show ?case by blast
qed auto

text \<open>After a write that was cut short the next entry is reported as written and cannot be read back.\<close>

lemma journal_swallows:
  assumes "jn_unterminated j" and "jn_file j = Some ls" and "je_size env ls \<le> max_file_size_bytes cfg" and "je_write env = Written"
  shows "snd (journal_append cfg env symbol state j) \<and> read_all True x (fst (journal_append cfg env symbol state j)) = read_all True x j"
  using assms by (simp add: journal_append_def rotate_journal_def write_line_def read_all_def)

lemma new_row_full:
  assumes "map fst vals = map fst schema" and "distinct (map fst schema)"
  shows "new_row schema vals = vals"
proof -
  have "new_row schema vals = map (\<lambda>c. (c, the (map_of vals c))) (map fst schema)"
    using assms(1) by (auto simp: new_row_def map_of_eq_None_iff split: option.split) (metis image_eqI fst_conv list.set_map map_of_eq_None_iff)
  also have "\<dots> = map (\<lambda>(c, v). (c, the (map_of vals c))) vals" unfolding assms(1) [symmetric] by (simp add: comp_def split_beta)
  also have "\<dots> = vals" using assms by (intro map_idI) (auto simp: map_of_is_SomeI)
  finally show ?thesis .
qed

lemma position_row: "new_row positions_schema (stored cv (position_values p)) = stored cv (position_values p)"
proof (rule new_row_full)
  show "map fst (stored cv (position_values p)) = map fst positions_schema" by (simp add: stored_def position_values_def positions_schema_def)
  show "distinct (map fst positions_schema)" by code_simp
qed

lemma persist_payload_get:
  "payload_get (persist_payload symbol state) ''symbol'' SNull = payload_get state ''symbol'' (SText symbol)"
  "payload_get (persist_payload symbol state) ''position_id'' SNull = payload_get state ''position_id'' (SText symbol)"
  "c \<noteq> ''symbol'' \<Longrightarrow> c \<noteq> ''position_id'' \<Longrightarrow> payload_get (persist_payload symbol state) c d = payload_get state c d"
  by (auto simp: persist_payload_def payload_get_def Let_def dict_simps split: option.split)

text \<open>C30: state without an order identifier whose persistence is reported as done is either the committed row of its
  position identifier, which replaces any row of that identifier and changes nothing else in the database: every value of the state, converted
  to the type of its column, with the default of its column where the state has none and the symbol where it has no symbol or no
  identifier; or, when the database failed or was too slow, it is the last entry that the journal reads back for its symbol, provided
  no earlier write was cut short.\<close>

theorem emergency_persist_kept:
  fixes state :: sql_payload
  assumes "emergency_persist_state cfg fallback env symbol state (w, j) = ((w', j'), True)" and "\<not> jn_unterminated j"
    and "dget state ''order_id'' = None"
  defines "txt \<equiv> \<lambda>c d. affinity (w_conv w) TextColumn (payload_get state c d)"
    and "num \<equiv> \<lambda>c d. affinity (w_conv w) RealColumn (payload_get state c d)"
    and "cnt \<equiv> \<lambda>c d. affinity (w_conv w) IntegerColumn (payload_get state c d)"
    and "flag \<equiv> \<lambda>c. SInt (if sql_truthy (payload_get state c SNull) then 1 else 0)"
  shows "(disk w' = (live w)\<lparr>tb_positions :=
             filter (\<lambda>r. \<not> same_key ''position_id'' (txt ''position_id'' (SText symbol)) r) (tb_positions (live w)) @
               [[(''position_id'', txt ''position_id'' (SText symbol)), (''symbol'', txt ''symbol'' (SText symbol)), (''side'', txt ''side'' SNull),
                 (''status'', txt ''status'' (SText ''open'')), (''opened_at_ms'', cnt ''opened_at_ms'' SNull),
                 (''closed_at_ms'', cnt ''closed_at_ms'' SNull), (''close_reason'', txt ''close_reason'' SNull), (''avg'', num ''avg'' (SReal 0)),
                 (''qty_open'', num ''qty_open'' (SReal 0)), (''qty_remaining'', num ''qty_remaining'' (SReal 0)),
                 (''original_planned_entry'', num ''original_planned_entry'' (SReal 0)), (''original_tp'', num ''original_tp'' (SReal 0)),
                 (''original_sl'', num ''original_sl'' (SReal 0)), (''current_tp_shifted'', num ''current_tp_shifted'' (SReal 0)),
                 (''current_sl_shifted'', num ''current_sl_shifted'' (SReal 0)), (''be_active'', flag ''be_active''),
                 (''trailing_active'', flag ''trailing_active''), (''second_entry_count'', cnt ''second_entry_count'' (SInt 0)),
                 (''whale_trust_score'', cnt ''whale_trust_score'' (SInt 0)), (''universe_status'', txt ''universe_status'' SNull),
                 (''realized_pnl'', num ''realized_pnl'' (SReal 0)), (''fee_total'', num ''fee_total'' (SReal 0)),
                 (''r_multiple'', num ''r_multiple'' SNull), (''version'', cnt ''version'' (SInt 0)), (''sealed_at_ms'', cnt ''sealed_at_ms'' SNull),
                 (''emergency_pending'', flag ''emergency_pending'')]]\<rparr>
          \<and> j' = j)
       \<or> (\<exists>older. read_all True symbol j' = older @ [(symbol, state)])"
    (is "(?database \<and> j' = j) \<or> ?journal")
proof -
  let ?p = "persist_payload symbol state"
  let ?row = "new_row positions_schema (stored (w_conv w) (position_values ?p))"
  have p: "dget ?p ''order_id'' = None" using assms(3) by (simp add: persist_payload_def Let_def dict_simps)
  obtain w1 ok where e: "execute_wal (pe_fault env) (pe_now env) ?p w = (w1, ok)" by fastforce
  show ?thesis
  proof (cases "ok \<and> \<not> pe_timeout env")
    case True
    then have d: "disk w1 = (live w)\<lparr>tb_positions := insert_or_replace ''position_id'' ?row (tb_positions (live w))\<rparr>"
      using e p by (auto simp: execute_wal_def sql_write_def split: if_splits sql_fault.splits)
    have w': "w' = w1" "j' = j" using assms(1) e True by (simp_all add: emergency_persist_state_def)
    have id: "col ?row ''position_id'' = txt ''position_id'' (SText symbol)"
      unfolding position_row by (simp add: col_def stored_def position_values_def persist_payload_get txt_def)
    have ?database
      unfolding w' d insert_or_replace_def id unfolding position_row
      by (simp add: stored_def position_values_def payload_flag_def persist_payload_get assms(4-7) cong del: if_weak_cong)
    then show ?thesis using w'(2) by simp
  next
    case False
    let ?e = "pe_journal env" and ?r = "rotate_journal cfg (pe_journal env) j"
    have "write_line (je_write ?e) (symbol, state) ?r = (j', True)"
      using assms(1) e False by (auto simp: emergency_persist_state_def journal_append_def split: if_splits prod.splits)
    moreover have "\<not> jn_unterminated ?r" using rotate_remembers assms(2) by blast
    ultimately have "file_lines (jn_file j') = file_lines (jn_file ?r) @ [Entry (symbol, state)]"
      by (auto simp: write_line_def Let_def split: write_outcome.splits)
    then show ?thesis by (simp add: read_all_def)
  qed
qed

definition disk_full :: persist_env where
  "disk_full = \<lparr>pe_fault = CommitFails, pe_timeout = False, pe_now = 7,
     pe_journal = \<lparr>je_stat_ok = True, je_size = (\<lambda>ls. int (length ls)), je_unlink_ok = True, je_rename_ok = False, je_write = Written\<rparr>\<rparr>"

lemma disk_full_persists:
  "emergency_persist_state default_journal_config True disk_full ''S'' [(''qty'', SReal 2)] (connect (init_writer simple_conv empty_tables), empty_journal)
   = ((fst (execute_wal CommitFails 7 (persist_payload ''S'' [(''qty'', SReal 2)]) (connect (init_writer simple_conv empty_tables))),
       \<lparr>jn_file = Some [Entry (''S'', [(''qty'', SReal 2)])], jn_unterminated = False, jn_backup = None\<rparr>), True)"
proof -
  have "\<not> snd (execute_wal CommitFails n p w)" for n p w by (simp add: execute_wal_def sql_write_def)
  then show ?thesis
    by (simp add: emergency_persist_state_def split_beta disk_full_def journal_append_def rotate_journal_def empty_journal_def write_line_def)
qed

lemma emergency_persist_kept_witness:
  "\<exists>older. read_all True ''S'' (snd (fst (emergency_persist_state default_journal_config True disk_full ''S'' [(''qty'', SReal 2)]
      (connect (init_writer simple_conv empty_tables), empty_journal)))) = older @ [(''S'', [(''qty'', SReal 2)])]"
proof -
  have "\<not> jn_unterminated empty_journal" by (simp add: empty_journal_def)
  from emergency_persist_kept [OF disk_full_persists this] show ?thesis
    unfolding disk_full_persists by (simp add: dget_Cons) (simp add: empty_journal_def)
qed

definition rotating :: "write_outcome \<Rightarrow> journal_env" where
  "rotating out = \<lparr>je_stat_ok = True, je_size = (\<lambda>ls. int (length ls)), je_unlink_ok = True, je_rename_ok = True, je_write = out\<rparr>"

definition three_appends :: "(journal_env \<times> journal_entry) list" where
  "three_appends = [(rotating Written, (''S'', [])), (rotating NotWritten, (''T'', [])), (rotating Written, (''U'', []))]"

lemma journal_forgets_oldest_witness:
  "\<exists>lost. [(''S'', []), (''U'', [])] = lost @ remembered (fst (append_run \<lparr>max_file_size_bytes = 0\<rparr> three_appends empty_journal))"
proof -
  let ?r = "append_run \<lparr>max_file_size_bytes = 0\<rparr> three_appends empty_journal"
  have "snd ?r = [(''S'', []), (''U'', [])]"
    by (simp add: three_appends_def rotating_def journal_append_def rotate_journal_def write_line_def empty_journal_def Let_def)
  then have r: "?r = (fst ?r, [(''S'', []), (''U'', [])])" by (metis prod.collapse)
  have "list_all (\<lambda>(env, e). je_write env \<noteq> CutShort) three_appends" by (simp add: three_appends_def rotating_def)
  moreover have "\<not> jn_unterminated empty_journal" "remembered empty_journal = []" by (simp_all add: empty_journal_def remembered_def)
  ultimately show ?thesis using journal_forgets_oldest [OF _ _ r] by simp
qed

end
