(* ===== verification/Equity_Tracker.thy ===== *)
theory Equity_Tracker
  imports Sqlite_Writer Float64
begin

text \<open>
  \<^verbatim>\<open>src/storage/mark_price_cache.py\<close> and \<^verbatim>\<open>src/storage/equity_tracker.py\<close>: the last price of every symbol, and the snapshots of the equity that
  are computed from the open positions of the database and these prices. A snapshot is computed in one step; the time, the
  outcome of the query and that of the insertion are inputs.
\<close>

section \<open>Mark prices\<close>

record mark_cache =
  mc_prices :: "(string, rat) dict"
  mc_timestamps :: "(string, int) dict"

definition new_mark_cache :: mark_cache where
  "new_mark_cache = \<lparr>mc_prices = [], mc_timestamps = []\<rparr>"

definition mark_update :: "string \<Rightarrow> rat \<Rightarrow> int \<Rightarrow> mark_cache \<Rightarrow> mark_cache" where
  "mark_update symbol price ts_ms m = \<lparr>mc_prices = dset (mc_prices m) symbol (rnd price), mc_timestamps = dset (mc_timestamps m) symbol ts_ms\<rparr>"

definition mark_get :: "string \<Rightarrow> mark_cache \<Rightarrow> rat option" where
  "mark_get symbol m = dget (mc_prices m) symbol"

definition mark_get_with_ts :: "string \<Rightarrow> mark_cache \<Rightarrow> (rat \<times> int) option" where
  "mark_get_with_ts symbol m =
     (case dget (mc_prices m) symbol of
        None \<Rightarrow> None
      | Some p \<Rightarrow> Some (p, case dget (mc_timestamps m) symbol of None \<Rightarrow> 0 | Some t \<Rightarrow> t))"

text \<open>The fields of an event that the cache reads, when it is a dictionary.\<close>

record mark_event =
  me_type :: "string option"
  me_symbol :: "string option"
  me_price :: "rat option"
  me_ts_ms :: "int option"

definition mark_handle :: "mark_event option \<Rightarrow> mark_cache \<Rightarrow> mark_cache \<times> bool" where
  "mark_handle event m =
     (case event of
        None \<Rightarrow> (m, False)
      | Some e \<Rightarrow>
          if me_type e \<noteq> Some ''mark_price'' then (m, False)
          else case (me_symbol e, me_price e) of
                 (Some symbol, Some price) \<Rightarrow> (mark_update symbol price (case me_ts_ms e of None \<Rightarrow> 0 | Some t \<Rightarrow> t) m, True)
               | _ \<Rightarrow> (m, False))"

definition mark_size :: "mark_cache \<Rightarrow> nat" where
  "mark_size m = length (mc_prices m)"

section \<open>Snapshots\<close>

record tracker =
  tk_realized_today :: rat
  tk_peak_equity :: rat
  tk_last_snapshot_ms :: int

definition new_tracker :: "rat \<Rightarrow> tracker" where
  "new_tracker base_balance = \<lparr>tk_realized_today = 0, tk_peak_equity = base_balance, tk_last_snapshot_ms = 0\<rparr>"

record snapshot =
  sn_ts_ms :: int
  sn_balance :: rat
  sn_equity :: rat
  sn_unrealized_pnl :: rat
  sn_realized_today :: rat
  sn_drawdown_pct :: rat
  sn_open_positions :: int

text \<open>\<^verbatim>\<open>float(x or 0.0)\<close>; text that is no number raises.\<close>

definition float_or_zero :: "sql \<Rightarrow> rat option" where
  "float_or_zero v = (case v of SNull \<Rightarrow> Some 0 | SInt n \<Rightarrow> Some (rnd (of_int n)) | SReal r \<Rightarrow> Some r | SText s \<Rightarrow> if s = '''' then Some 0 else None)"

text \<open>The contribution of one row; \<open>None\<close> when reading it raises.\<close>

definition add_unrealized :: "mark_cache \<Rightarrow> sql list \<Rightarrow> rat \<Rightarrow> rat option" where
  "add_unrealized m row u =
     (case (float_or_zero (row ! 4), float_or_zero (row ! 6)) of
        (Some a, Some q) \<Rightarrow>
          (case (case row ! 1 of SText symbol \<Rightarrow> mark_get symbol m | _ \<Rightarrow> None) of
             None \<Rightarrow> Some u
           | Some entry \<Rightarrow> Some (fadd u (fmul (if row ! 2 = SText ''LONG'' then fsub entry a else fsub a entry) q)))
      | _ \<Rightarrow> None)"

fun unrealized_of :: "mark_cache \<Rightarrow> sql list list \<Rightarrow> rat \<Rightarrow> rat option" where
  "unrealized_of m [] u = Some u"
| "unrealized_of m (row # rows) u = (case add_unrealized m row u of None \<Rightarrow> None | Some u' \<Rightarrow> unrealized_of m rows u')"

datatype snapshot_result = Raised | NoRows | Snap snapshot

definition compute_snapshot :: "rat \<Rightarrow> mark_cache \<Rightarrow> bool \<Rightarrow> int \<Rightarrow> writer \<Rightarrow> tracker \<Rightarrow> tracker \<times> snapshot_result" where
  "compute_snapshot base m ok now w t =
     (case list_open_positions ok w of
        None \<Rightarrow> (t, NoRows)
      | Some rows \<Rightarrow>
          (case unrealized_of m rows 0 of
             None \<Rightarrow> (t, Raised)
           | Some u \<Rightarrow>
               (let eq = fadd (fadd base (tk_realized_today t)) u;
                    peak = max (tk_peak_equity t) eq;
                    drawdown = (if 0 < peak then fdiv (fsub peak eq) peak else 0)
                in (t\<lparr>tk_peak_equity := peak\<rparr>,
                    Snap \<lparr>sn_ts_ms = now, sn_balance = fadd base (tk_realized_today t), sn_equity = eq, sn_unrealized_pnl = u,
                          sn_realized_today = tk_realized_today t, sn_drawdown_pct = drawdown, sn_open_positions = int (length rows)\<rparr>))))"

definition snapshot_payload :: "snapshot \<Rightarrow> sql_payload" where
  "snapshot_payload s =
     [(''ts_ms'', SInt (sn_ts_ms s)), (''balance'', SReal (sn_balance s)), (''equity'', SReal (sn_equity s)),
      (''unrealized_pnl'', SReal (sn_unrealized_pnl s)), (''realized_today'', SReal (sn_realized_today s)),
      (''drawdown_pct'', SReal (sn_drawdown_pct s)), (''open_positions'', SInt (sn_open_positions s))]"

text \<open>The last component is what the method returns, \<open>None\<close> when it raises.\<close>

definition snapshot_once :: "rat \<Rightarrow> mark_cache \<Rightarrow> bool \<Rightarrow> sql_fault \<Rightarrow> int \<Rightarrow> tracker \<times> writer \<Rightarrow> (tracker \<times> writer) \<times> bool option" where
  "snapshot_once base m ok flt now s =
     (case compute_snapshot base m ok now (snd s) (fst s) of
        (t, Raised) \<Rightarrow> ((t, snd s), None)
      | (t, NoRows) \<Rightarrow> ((t, snd s), Some False)
      | (t, Snap sn) \<Rightarrow>
          (case insert_equity_snapshot flt now (snapshot_payload sn) (snd s) of
             (w, True) \<Rightarrow> ((t\<lparr>tk_last_snapshot_ms := sn_ts_ms sn\<rparr>, w), Some True)
           | (w, False) \<Rightarrow> ((t, w), Some False)))"

definition on_position_close :: "rat \<Rightarrow> mark_cache \<Rightarrow> bool \<Rightarrow> sql_fault \<Rightarrow> int \<Rightarrow> rat \<Rightarrow> tracker \<times> writer \<Rightarrow> tracker \<times> writer" where
  "on_position_close base m ok flt now pnl s =
     fst (snapshot_once base m ok flt now ((fst s)\<lparr>tk_realized_today := fadd (tk_realized_today (fst s)) pnl\<rparr>, snd s))"

text \<open>One pass of the timer loop: \<open>None\<close> is a check that raises; what \<^verbatim>\<open>snapshot_once\<close> raises is logged.\<close>

definition timer_pass :: "rat \<Rightarrow> mark_cache \<Rightarrow> bool \<Rightarrow> sql_fault \<Rightarrow> int \<Rightarrow> bool option \<Rightarrow> tracker \<times> writer \<Rightarrow> tracker \<times> writer" where
  "timer_pass base m ok flt now has_open s = (if has_open = Some True then fst (snapshot_once base m ok flt now s) else s)"

section \<open>Drawdown over a session\<close>

lemma mark_read_back:
  "mark_handle (Some e) m = (m', True) \<Longrightarrow> \<exists>s p. me_symbol e = Some s \<and> me_price e = Some p \<and> mark_get s m' = Some (rnd p)
     \<and> (\<forall>s'. s' \<noteq> s \<longrightarrow> mark_get s' m' = mark_get s' m)"
  by (auto simp: mark_handle_def mark_update_def mark_get_def dict_simps split: if_splits option.splits)

datatype tracker_event =
    MarkSeen "mark_event option"
  | PositionClosed bool sql_fault int rat
  | TimerPass bool sql_fault int "bool option"
  | OtherWrite writer

text \<open>One event, over the database, with the marks; \<open>OtherWrite\<close> is whatever the rest of the program does to the database.\<close>

fun tracker_step :: "rat \<Rightarrow> tracker_event \<Rightarrow> mark_cache \<times> tracker \<times> writer \<Rightarrow> mark_cache \<times> tracker \<times> writer" where
  "tracker_step base (MarkSeen e) (m, s) = (fst (mark_handle e m), s)"
| "tracker_step base (PositionClosed ok flt now pnl) (m, s) = (m, on_position_close base m ok flt now pnl s)"
| "tracker_step base (TimerPass ok flt now has_open) (m, s) = (m, timer_pass base m ok flt now has_open s)"
| "tracker_step base (OtherWrite w) (m, t, w0) = (m, t, w)"

text \<open>The snapshot that an event computes, if any.\<close>

fun computed :: "rat \<Rightarrow> tracker_event \<Rightarrow> mark_cache \<times> tracker \<times> writer \<Rightarrow> snapshot option" where
  "computed base (PositionClosed ok flt now pnl) (m, t, w) =
     (case compute_snapshot base m ok now w (t\<lparr>tk_realized_today := fadd (tk_realized_today t) pnl\<rparr>) of (_, Snap sn) \<Rightarrow> Some sn | _ \<Rightarrow> None)"
| "computed base (TimerPass ok flt now has_open) (m, t, w) =
     (if has_open = Some True then (case compute_snapshot base m ok now w t of (_, Snap sn) \<Rightarrow> Some sn | _ \<Rightarrow> None) else None)"
| "computed base _ _ = None"

fun session :: "rat \<Rightarrow> tracker_event list \<Rightarrow> mark_cache \<times> tracker \<times> writer \<Rightarrow> snapshot list" where
  "session base [] s = []"
| "session base (e # es) s = (case computed base e s of None \<Rightarrow> [] | Some sn \<Rightarrow> [sn]) @ session base es (tracker_step base e s)"

text \<open>The abstract view: the drawdown of every equity against the greatest one so far.\<close>

fun drawdowns :: "rat \<Rightarrow> rat list \<Rightarrow> rat list" where
  "drawdowns peak [] = []"
| "drawdowns peak (e # es) = (let p = max peak e in (if 0 < p then fdiv (fsub p e) p else 0) # drawdowns p es)"

lemma snapshot_once_peak:
  "tk_peak_equity (fst (fst (snapshot_once base m ok flt now (t, w)))) =
     (case compute_snapshot base m ok now w t of (_, Snap sn) \<Rightarrow> max (tk_peak_equity t) (sn_equity sn) | _ \<Rightarrow> tk_peak_equity t)"
  by (auto simp: snapshot_once_def compute_snapshot_def Let_def split: option.splits prod.splits bool.splits)

lemma snapshot_drawdown:
  "compute_snapshot base m ok now w t = (t', Snap sn) \<Longrightarrow>
     sn_drawdown_pct sn = (let p = max (tk_peak_equity t) (sn_equity sn) in if 0 < p then fdiv (fsub p (sn_equity sn)) p else 0)"
  by (auto simp: compute_snapshot_def Let_def split: option.splits)

lemma step_peak:
  "tk_peak_equity (fst (snd (tracker_step base e (m, t, w)))) =
     (case computed base e (m, t, w) of None \<Rightarrow> tk_peak_equity t | Some sn \<Rightarrow> max (tk_peak_equity t) (sn_equity sn))"
  by (cases e) (auto simp: on_position_close_def timer_pass_def snapshot_once_peak split: prod.split snapshot_result.split)

lemma computed_drawdown:
  "computed base e (m, t, w) = Some sn \<Longrightarrow>
     sn_drawdown_pct sn = (let p = max (tk_peak_equity t) (sn_equity sn) in if 0 < p then fdiv (fsub p (sn_equity sn)) p else 0)"
  by (cases e) (auto dest!: snapshot_drawdown split: prod.splits snapshot_result.splits if_splits)

lemma session_drawdowns:
  "map sn_drawdown_pct (session base es (m, t, w)) = drawdowns (tk_peak_equity t) (map sn_equity (session base es (m, t, w)))"
proof (induction es arbitrary: m t w)
  case (Cons e es)
  obtain m' t' w' where s: "tracker_step base e (m, t, w) = (m', t', w')" using prod_cases3 by blast
  have p: "tk_peak_equity t' = (case computed base e (m, t, w) of None \<Rightarrow> tk_peak_equity t | Some sn \<Rightarrow> max (tk_peak_equity t) (sn_equity sn))"
    using step_peak [of base e m t w] by (simp add: s)
  show ?case using Cons.IH [of m' t' w'] computed_drawdown [of base e m t w] p by (cases "computed base e (m, t, w)") (simp_all add: s Let_def)
qed simp

text \<open>Lemma: whatever happens between them, the drawdown of every snapshot that a tracker computes is measured against the greatest of
  the starting balance and the equities of the snapshots up to it.\<close>

theorem equity_drawdowns:
  "map sn_drawdown_pct (session base es (m, new_tracker base, w)) = drawdowns base (map sn_equity (session base es (m, new_tracker base, w)))"
  by (simp add: session_drawdowns new_tracker_def)

text \<open>A snapshot that is written is the last row of its table.\<close>

lemma snapshot_written:
  assumes "snapshot_once base m ok flt now (t, w) = ((t', w'), Some True)"
  shows "\<exists>sn. compute_snapshot base m ok now w t = (t'\<lparr>tk_last_snapshot_ms := tk_last_snapshot_ms t\<rparr>, Snap sn) \<and> disk w' = live w'
    \<and> project [''ts_ms'', ''equity'', ''drawdown_pct''] [last (tb_equity (live w'))] = [[SInt (sn_ts_ms sn), SReal (sn_equity sn), SReal (sn_drawdown_pct sn)]]"
proof -
  obtain t1 sn where c: "compute_snapshot base m ok now w t = (t1, Snap sn)"
    using assms by (auto simp: snapshot_once_def split: prod.splits snapshot_result.splits)
  then have i: "insert_equity_snapshot flt now (snapshot_payload sn) w = (w', True)" and t': "t' = t1\<lparr>tk_last_snapshot_ms := sn_ts_ms sn\<rparr>"
    using assms by (auto simp: snapshot_once_def split: prod.splits bool.splits)
  have "tk_last_snapshot_ms t1 = tk_last_snapshot_ms t" using c by (auto simp: compute_snapshot_def Let_def split: option.splits)
  then have "t1 = t'\<lparr>tk_last_snapshot_ms := tk_last_snapshot_ms t\<rparr>" by (simp add: t')
  moreover have "disk w' = live w'" "last (tb_equity (live w')) = new_row equity_schema (stored (w_conv w) (equity_values (equity_next_id (live w)) now (snapshot_payload sn)))"
    using i by (auto simp: insert_equity_snapshot_def sql_write_def split: if_splits sql_fault.splits)
  moreover have "project [''ts_ms'', ''equity'', ''drawdown_pct''] [new_row equity_schema (stored cv (equity_values k now (snapshot_payload sn)))]
      = [[SInt (sn_ts_ms sn), SReal (sn_equity sn), SReal (sn_drawdown_pct sn)]]" for cv k
    by (simp add: project_def col_new_row equity_schema_def) (simp add: equity_values_def payload_get_def snapshot_payload_def dget_Cons)
  ultimately show ?thesis using c by auto
qed

end
