(* ===== verification/Data_Quality.thy ===== *)
theory Data_Quality
  imports Float64
begin

text \<open>
  \<^verbatim>\<open>src/backtest/data_quality.py\<close>: gaps and completeness of a list of sampling times in seconds. The callers
  pass an interval of one or sixty seconds, so the division by it does not raise.
\<close>

section \<open>The report\<close>

record quality_report =
  q_symbol :: string
  q_span_sec :: int
  q_sample_count :: nat
  q_expected_count :: int
  q_completeness :: rat
  q_gap_count :: nat
  q_max_gap_sec :: int
  q_gaps :: "(int \<times> int) list"

text \<open>The loop over neighbours, with the gaps found so far and the longest.\<close>

fun gap_loop :: "int \<Rightarrow> int list \<Rightarrow> (int \<times> int) list \<Rightarrow> int \<Rightarrow> (int \<times> int) list \<times> int" where
  "gap_loop interval (a # b # secs) gaps max_gap =
     (if interval < b - a
      then gap_loop interval (b # secs) (gaps @ [(a, b)]) (if max_gap < b - a then b - a else max_gap)
      else gap_loop interval (b # secs) gaps max_gap)"
| "gap_loop interval secs gaps max_gap = (gaps, max_gap)"

definition analyze_secs :: "string \<Rightarrow> int list \<Rightarrow> int \<Rightarrow> quality_report" where
  "analyze_secs symbol secs interval =
     (if secs = []
      then \<lparr>q_symbol = symbol, q_span_sec = 0, q_sample_count = 0, q_expected_count = 0, q_completeness = 0,
            q_gap_count = 0, q_max_gap_sec = 0, q_gaps = []\<rparr>
      else let span = last secs - hd secs;
               expected = (if 0 \<le> span then span div interval + 1 else 0);
               (gaps, max_gap) = gap_loop interval secs [] 0
           in \<lparr>q_symbol = symbol, q_span_sec = span, q_sample_count = length secs, q_expected_count = expected,
               q_completeness = (if 0 < expected then fdiv (of_nat (length secs)) (of_int expected) else 0),
               q_gap_count = length gaps, q_max_gap_sec = max_gap, q_gaps = gaps\<rparr>)"

section \<open>Gaps and completeness\<close>

text \<open>The neighbours further apart than the interval.\<close>

fun wide_pairs :: "int \<Rightarrow> int list \<Rightarrow> (int \<times> int) list" where
  "wide_pairs interval (a # b # secs) = (if interval < b - a then [(a, b)] else []) @ wide_pairs interval (b # secs)"
| "wide_pairs interval secs = []"

lemma gap_loop_pairs: "fst (gap_loop interval secs gaps m) = gaps @ wide_pairs interval secs"
  by (induction interval secs gaps m rule: gap_loop.induct) simp_all

lemma gap_loop_max: "snd (gap_loop interval secs gaps m) = foldl (\<lambda>m (a, b). max m (b - a)) m (wide_pairs interval secs)"
  by (induction interval secs gaps m rule: gap_loop.induct) (simp_all add: max_def)

text \<open>The seconds missing inside the gaps.\<close>

definition missing :: "(int \<times> int) list \<Rightarrow> int" where
  "missing gs = sum_list (map (\<lambda>(a, b). b - a - 1) gs)"

lemma span_missing:
  "sorted_wrt (<) secs \<Longrightarrow> secs \<noteq> [] \<Longrightarrow> last secs - hd secs + 1 = int (length secs) + missing (wide_pairs 1 secs)"
proof (induction "1 :: int" secs rule: wide_pairs.induct)
  case (1 a b secs)
  have "a < b" using "1.prems" by simp
  then show ?case using "1.hyps" "1.prems" by (auto simp: missing_def)
qed (simp_all add: missing_def)

lemma missing_nonneg: "0 \<le> missing (wide_pairs 1 secs) \<and> (missing (wide_pairs 1 secs) = 0 \<longleftrightarrow> wide_pairs 1 secs = [])"
proof (induction "1 :: int" secs rule: wide_pairs.induct)
  case (1 a b secs)
  then show ?case by (cases "1 < b - a") (simp_all add: missing_def)
qed (simp_all add: missing_def)

text \<open>Lemma: for strictly increasing seconds the expected number of samples is the number there are plus the seconds missing
  inside the reported gaps, which are exactly the neighbours more than a second apart; the completeness lies between zero and one, and no gap is
  reported exactly when nothing is missing.\<close>

theorem quality_accounts:
  fixes symbol
  assumes "sorted_wrt (<) secs" and "secs \<noteq> []"
  defines "r \<equiv> analyze_secs symbol secs 1"
  shows "q_expected_count r = int (q_sample_count r) + missing (q_gaps r) \<and> q_gaps r = wide_pairs 1 secs \<and> q_gap_count r = length (q_gaps r)
    \<and> 0 \<le> q_completeness r \<and> q_completeness r \<le> 1 \<and> (q_gap_count r = 0 \<longleftrightarrow> q_expected_count r = int (q_sample_count r))
    \<and> (q_gap_count r = 0 \<longrightarrow> q_completeness r = 1)"
proof -
  let ?m = "missing (wide_pairs 1 secs)"
  have e: "last secs - hd secs + 1 = int (length secs) + ?m" by (rule span_missing [OF assms(1,2)])
  have pos: "0 < int (length secs)" using assms(2) by simp
  have m: "0 \<le> ?m" "?m = 0 \<longleftrightarrow> wide_pairs 1 secs = []" using missing_nonneg by blast+
  have le0: "hd secs \<le> last secs" using e m(1) pos by linarith
  have g: "fst (gap_loop 1 secs [] 0) = wide_pairs 1 secs" using gap_loop_pairs [of 1 secs "[]" 0] by simp
  have r: "q_gaps r = wide_pairs 1 secs" "q_gap_count r = length (wide_pairs 1 secs)" "q_sample_count r = length secs"
    "q_expected_count r = int (length secs) + ?m" "q_completeness r = fdiv (of_nat (length secs)) (of_int (int (length secs) + ?m))"
    using assms(2) e g m(1) pos le0 by (simp_all add: r_def analyze_secs_def Let_def split_beta)
  have "(of_nat (length secs) :: rat) \<le> of_int (int (length secs) + ?m)" using m(1) by simp
  then have "(of_nat (length secs) :: rat) / of_int (int (length secs) + ?m) \<le> 1" using pos m(1) by (simp add: divide_le_eq)
  then have le: "q_completeness r \<le> rnd 1" unfolding r(5) fdiv_def by (rule rnd_mono)
  have ge: "0 \<le> q_completeness r" unfolding r(5) fdiv_def using m(1) by (intro rnd_nonneg divide_nonneg_nonneg) auto
  have "q_completeness r = 1" if "wide_pairs 1 secs = []"
    using that m(2) assms(2) by (simp add: r(5) fdiv_def)
  then show ?thesis using le ge m r by auto
qed

lemma quality_accounts_witness:
  "q_expected_count (analyze_secs ''S'' [3, 4, 9] 1) = 7 \<and> missing (q_gaps (analyze_secs ''S'' [3, 4, 9] 1)) = 4"
proof -
  have "q_expected_count (analyze_secs ''S'' [3, 4, 9] 1) = 3 + missing (q_gaps (analyze_secs ''S'' [3, 4, 9] 1))"
    using quality_accounts [of "[3, 4, 9]" "''S''"] by (simp add: analyze_secs_def Let_def)
  then show ?thesis by (simp add: analyze_secs_def Let_def missing_def)
qed

end
