(* ===== verification/Multi_Runner.thy ===== *)
theory Multi_Runner
  imports Position_Sim Backtest_Engine Data_Quality
begin

text \<open>
  The runner of \<^verbatim>\<open>src/backtest/multi_symbol_runner.py\<close>: the merged stream of several symbols drives one
  simulator and one strategy per symbol. An exception of a strategy leaves \<^verbatim>\<open>run\<close>, which is a missing
  result. The walk-forward part of the file is in \<open>Walk_Forward\<close>; serialisation to dictionaries is left out.
\<close>

section \<open>State\<close>

record runner_config =
  rc_sim :: sim_config
  rc_strategy :: strategy_config
  rc_detector :: detector_config

record dropped_entry =
  de_reason :: string
  de_symbol :: string
  de_ts_ms :: int

record runner =
  rn_sim :: sim_state
  rn_strategies :: "(string, strategy) dict"
  rn_dropped :: "dropped_entry list"
  rn_seen_secs :: "(string, int list) dict"
  rn_cooldown :: "string \<rightharpoonup> bool"

definition new_runner :: "runner_config \<Rightarrow> int \<Rightarrow> int \<Rightarrow> runner" where
  "new_runner cfg wid fid =
     \<lparr>rn_sim = sim_init (rc_sim cfg) wid fid, rn_strategies = [], rn_dropped = [], rn_seen_secs = [], rn_cooldown = Map.empty\<rparr>"

definition DROP_HARD_CAP :: nat where "DROP_HARD_CAP = 10000"

section \<open>Operations\<close>

definition ensure_symbol :: "string \<Rightarrow> runner \<Rightarrow> runner" where
  "ensure_symbol symbol r =
     (if dget (rn_strategies r) symbol \<noteq> None then r
      else r\<lparr>rn_strategies := dset (rn_strategies r) symbol (new_strategy new_detector)\<rparr>)"

definition record_drop :: "string \<Rightarrow> string \<Rightarrow> int \<Rightarrow> runner \<Rightarrow> runner" where
  "record_drop reason symbol ts_ms r =
     (if DROP_HARD_CAP \<le> length (rn_dropped r) then r
      else r\<lparr>rn_dropped := rn_dropped r @ [\<lparr>de_reason = reason, de_symbol = symbol, de_ts_ms = ts_ms\<rparr>]\<rparr>)"

text \<open>The simulator and the detector read the same event; the simulator uses fewer of its fields.\<close>

definition sim_sample :: "Replay_Transport.ohlcv_event \<Rightarrow> Position_Sim.ohlcv_event" where
  "sim_sample ev =
     \<lparr>oe_symbol = Replay_Transport.ohlcv_event.o_symbol ev, oe_sec = Replay_Transport.ohlcv_event.o_sec ev,
      oe_ts_ms = Replay_Transport.ohlcv_event.o_ts_ms ev, oe_open = Replay_Transport.ohlcv_event.o_open ev,
      oe_high = Replay_Transport.ohlcv_event.o_high ev, oe_low = Replay_Transport.ohlcv_event.o_low ev,
      oe_close = Replay_Transport.ohlcv_event.o_close ev\<rparr>"

fun direction_text :: "direction \<Rightarrow> string" where
  "direction_text Long = LONG"
| "direction_text Short = SHORT"

definition enter_one :: "runner_config \<Rightarrow> string \<Rightarrow> int \<Rightarrow> entry_signal \<Rightarrow> runner \<Rightarrow> runner" where
  "enter_one cfg symbol ts_ms e r =
     (let (s, ok) = sim_on_entry (rc_sim cfg) (direction_text (e_direction e)) (e_ts_ms e) (e_price e) symbol (rn_sim r);
          r1 = r\<lparr>rn_sim := s\<rparr>
      in if ok then r1
         else record_drop (case s_last_rejection_reason s of None \<Rightarrow> ''sim_rejected_other'' | Some x \<Rightarrow> x) symbol ts_ms r1)"

text \<open>The steps of \<^verbatim>\<open>_on_ohlcv\<close> before the strategy is asked, and after it has answered.\<close>

definition before_strategy :: "runner_config \<Rightarrow> Replay_Transport.ohlcv_event \<Rightarrow> runner \<Rightarrow> runner" where
  "before_strategy cfg ev r =
     (let symbol = Replay_Transport.ohlcv_event.o_symbol ev;
          r1 = ensure_symbol symbol r;
          secs = (case dget (rn_seen_secs r1) symbol of None \<Rightarrow> [] | Some l \<Rightarrow> l)
      in r1\<lparr>rn_seen_secs := dset (rn_seen_secs r1) symbol (secs @ [Replay_Transport.ohlcv_event.o_sec ev]),
            rn_sim := sim_on_ohlcv (rc_sim cfg) (sim_sample ev) (rn_sim r1)\<rparr>)"

definition note_cooldown :: "string \<Rightarrow> int \<Rightarrow> bool \<Rightarrow> runner \<Rightarrow> runner" where
  "note_cooldown symbol ts_ms blocked r =
     (let r1 = (if blocked \<and> rn_cooldown r symbol \<noteq> Some True then record_drop ''cooldown_active'' symbol ts_ms r else r)
      in r1\<lparr>rn_cooldown := (rn_cooldown r1)(symbol \<mapsto> blocked)\<rparr>)"

definition runner_on_ohlcv :: "runner_config \<Rightarrow> Replay_Transport.ohlcv_event \<Rightarrow> runner \<Rightarrow> runner \<times> bool" where
  "runner_on_ohlcv cfg ev r =
     (let symbol = Replay_Transport.ohlcv_event.o_symbol ev; ts_ms = Replay_Transport.ohlcv_event.o_ts_ms ev;
          r1 = before_strategy cfg ev r
      in case dget (rn_strategies r1) symbol of
           None \<Rightarrow> (r1, False)
         | Some st \<Rightarrow>
             (case strategy_on_ohlcv (rc_strategy cfg) (rc_detector cfg) ev st of
                (st', None) \<Rightarrow> (r1\<lparr>rn_strategies := dset (rn_strategies r1) symbol st'\<rparr>, False)
              | (st', Some entries) \<Rightarrow>
                  (let r2 = r1\<lparr>rn_strategies := dset (rn_strategies r1) symbol st'\<rparr>;
                       blocked = (entries = [] \<and> st_last_rejection_reason st' = Some ''cooldown_active'')
                   in (fold (enter_one cfg symbol ts_ms) entries (note_cooldown symbol ts_ms blocked r2), True))))"

definition runner_on_ticker :: "ticker_event \<Rightarrow> runner \<Rightarrow> runner" where
  "runner_on_ticker ev r =
     (let symbol = t_symbol ev; r1 = ensure_symbol symbol r
      in r1\<lparr>rn_strategies := (case dget (rn_strategies r1) symbol of None \<Rightarrow> rn_strategies r1
                              | Some st \<Rightarrow> dset (rn_strategies r1) symbol (strategy_on_ticker ev st)),
            rn_sim := sim_on_ticker symbol (Some (t_funding_rate ev)) (rn_sim r1)\<rparr>)"

section \<open>A run\<close>

fun runner_event :: "runner_config \<Rightarrow> any_event \<Rightarrow> runner \<Rightarrow> runner \<times> bool" where
  "runner_event cfg (Ohlcv ev) r = runner_on_ohlcv cfg ev r"
| "runner_event cfg (Depth ev) r = (r, True)"
| "runner_event cfg (Ticker ev) r = (runner_on_ticker ev r, True)"

fun count_event :: "any_event \<Rightarrow> backtest_stats \<Rightarrow> backtest_stats" where
  "count_event (Ohlcv ev) stats = stats\<lparr>events_total := events_total stats + 1, ohlcv_count := ohlcv_count stats + 1\<rparr>"
| "count_event (Depth ev) stats = stats\<lparr>events_total := events_total stats + 1, depth_count := depth_count stats + 1\<rparr>"
| "count_event (Ticker ev) stats = stats\<lparr>events_total := events_total stats + 1, ticker_count := ticker_count stats + 1\<rparr>"

text \<open>The loop over the stream; the flag is \<open>False\<close> when a handler raised.\<close>

fun run_events :: "runner_config \<Rightarrow> any_event list \<Rightarrow> backtest_stats \<Rightarrow> runner \<Rightarrow> backtest_stats \<times> runner \<times> bool" where
  "run_events cfg [] stats r = (stats, r, True)"
| "run_events cfg (ev # evs) stats r =
     (case runner_event cfg ev r of
        (r', True) \<Rightarrow> run_events cfg evs (count_event ev stats) r'
      | (r', False) \<Rightarrow> (count_event ev stats, r', False))"

text \<open>The strategies are flushed one after the other, in the order of their first events; one that raises is counted.\<close>

fun flush_all :: "detector_config \<Rightarrow> (string, strategy) dict \<Rightarrow> backtest_stats \<Rightarrow> (string, strategy) dict \<times> backtest_stats" where
  "flush_all dcfg [] stats = ([], stats)"
| "flush_all dcfg ((symbol, st) # d) stats =
     (let (st', ok) = strategy_finalize dcfg st;
          (d', stats') = flush_all dcfg d (if ok then stats else note_error (Some ''ZeroDivisionError'') stats)
      in ((symbol, st') # d', stats'))"

record multi_result =
  mr_stats :: backtest_stats
  mr_trades :: "sim_trade list"
  mr_dropped :: "dropped_entry list"
  mr_signal_counts :: "(string, signal_kind \<Rightarrow> nat) dict"

definition runner_run ::
  "runner_config \<Rightarrow> replay_db \<Rightarrow> string list \<Rightarrow> int \<Rightarrow> int \<Rightarrow> rat \<Rightarrow> rat \<Rightarrow> runner \<Rightarrow> runner \<times> multi_result option" where
  "runner_run cfg rdb symbols ts_from ts_to t0 t1 r =
     (case run_events cfg (replay_stream_multi rdb symbols ts_from ts_to) (new_stats\<lparr>wall_start_ms := ts_from, wall_end_ms := ts_to\<rparr>) r of
        (stats, r1, False) \<Rightarrow> (r1, None)
      | (stats, r1, True) \<Rightarrow>
          (let (d, stats2) = flush_all (rc_detector cfg) (rn_strategies r1) (stats\<lparr>wall_elapsed_s := fsub t1 t0\<rparr>);
               r2 = r1\<lparr>rn_strategies := d, rn_sim := sim_finalize (rc_sim cfg) ts_to Map.empty (rn_sim r1)\<rparr>
           in (r2, Some \<lparr>mr_stats = stats2, mr_trades = s_trades (rn_sim r2), mr_dropped = rn_dropped r2,
                         mr_signal_counts = map (\<lambda>(sym, st). (sym, st_signal_counts st)) d\<rparr>)))"

section \<open>Every symbol on its own\<close>

definition symbol_engine :: "runner_config \<Rightarrow> strategy engine" where
  "symbol_engine cfg = strategy_engine (rc_strategy cfg) (rc_detector cfg)"

definition strategy_or_new :: "(string, strategy) dict \<Rightarrow> string \<Rightarrow> strategy" where
  "strategy_or_new d s = (case dget d s of None \<Rightarrow> new_strategy new_detector | Some st \<Rightarrow> st)"

text \<open>Depth events do not reach a strategy.\<close>

fun feeds :: "any_event \<Rightarrow> bool" where
  "feeds (Depth ev) = False"
| "feeds ev = True"

fun raises :: "runner_config \<Rightarrow> any_event \<Rightarrow> strategy \<Rightarrow> bool" where
  "raises cfg (Ohlcv ev) st \<longleftrightarrow> snd (strategy_on_ohlcv (rc_strategy cfg) (rc_detector cfg) ev st) = None"
| "raises cfg ev st \<longleftrightarrow> False"

lemma record_drop_strategies [simp]: "rn_strategies (record_drop reason s t r) = rn_strategies r"
  by (simp add: record_drop_def)

lemma enter_strategies [simp]: "rn_strategies (fold (enter_one cfg s t) es r) = rn_strategies r"
  by (induction es arbitrary: r) (simp_all add: enter_one_def split_beta Let_def)

lemma note_cooldown_strategies [simp]: "rn_strategies (note_cooldown s t b r) = rn_strategies r"
  by (simp add: note_cooldown_def Let_def)

lemma ensured: "dget (rn_strategies (ensure_symbol s r)) x = (if x = s then Some (strategy_or_new (rn_strategies r) s) else dget (rn_strategies r) x)"
  by (auto simp: ensure_symbol_def strategy_or_new_def dict_simps)

lemma before_strategies [simp]:
  "rn_strategies (before_strategy cfg ev r) = rn_strategies (ensure_symbol (Replay_Transport.ohlcv_event.o_symbol ev) r)"
  by (simp add: before_strategy_def Let_def)

lemma event_strategies:
  "runner_event cfg ev r = (r', ok) \<Longrightarrow>
     ok = (\<not> raises cfg ev (strategy_or_new (rn_strategies r) (ev_symbol ev)))
     \<and> dget (rn_strategies r') s =
         (if feeds ev \<and> ev_symbol ev = s then Some (apply_event (symbol_engine cfg) ev (strategy_or_new (rn_strategies r) s)) else dget (rn_strategies r) s)"
proof (cases ev)
  case (Ohlcv e)
  assume "runner_event cfg ev r = (r', ok)"
  then show ?thesis
    unfolding Ohlcv
    by (auto simp: runner_on_ohlcv_def Let_def ensured symbol_engine_def dict_simps split: prod.splits option.splits)
next
  case (Ticker e)
  assume "runner_event cfg ev r = (r', ok)"
  then show ?thesis
    unfolding Ticker by (auto simp: runner_on_ticker_def Let_def ensured symbol_engine_def dict_simps)
qed auto

lemma event_strategy_or_new:
  assumes "runner_event cfg ev r = (r', ok)"
  shows "strategy_or_new (rn_strategies r') s =
    (if ev_symbol ev = s then apply_event (symbol_engine cfg) ev (strategy_or_new (rn_strategies r) s) else strategy_or_new (rn_strategies r) s)"
  using event_strategies [OF assms, of s] by (cases ev) (auto simp: strategy_or_new_def symbol_engine_def)

lemma run_strategies:
  "run_events cfg evs stats r = (stats', r', True) \<Longrightarrow>
     dget (rn_strategies r') s =
       (if list_ex feeds (filter (\<lambda>ev. ev_symbol ev = s) evs) \<or> dget (rn_strategies r) s \<noteq> None
        then Some (fold (apply_event (symbol_engine cfg)) (filter (\<lambda>ev. ev_symbol ev = s) evs) (strategy_or_new (rn_strategies r) s)) else None)"
proof (induction evs arbitrary: stats r)
  case Nil
  then show ?case by (auto simp: strategy_or_new_def)
next
  case (Cons ev evs)
  obtain r1 where e: "runner_event cfg ev r = (r1, True)" and rest: "run_events cfg evs (count_event ev stats) r1 = (stats', r', True)"
    using Cons.prems by (auto split: prod.splits bool.splits)
  have "apply_event (symbol_engine cfg) ev st = st" if "\<not> feeds ev" for st
    using that by (cases ev) (simp_all add: symbol_engine_def)
  then show ?case
    using Cons.IH [OF rest] event_strategies [OF e, of s] event_strategy_or_new [OF e, of s] by auto
qed

text \<open>How often the strategy of one stream raises.\<close>

fun raise_count :: "runner_config \<Rightarrow> any_event list \<Rightarrow> strategy \<Rightarrow> nat" where
  "raise_count cfg [] st = 0"
| "raise_count cfg (ev # evs) st = (if raises cfg ev st then 1 else 0) + raise_count cfg evs (apply_event (symbol_engine cfg) ev st)"

lemma runner_run_ok:
  "snd (snd (run_events cfg evs stats r)) \<longleftrightarrow>
     (\<forall>s. raise_count cfg (filter (\<lambda>ev. ev_symbol ev = s) evs) (strategy_or_new (rn_strategies r) s) = 0)"
proof (induction evs arbitrary: stats r)
  case (Cons ev evs)
  obtain r1 ok where e: "runner_event cfg ev r = (r1, ok)" by force
  note a = conjunct1 [OF event_strategies [OF e]] event_strategy_or_new [OF e]
  show ?case
  proof (cases ok)
    case True
    have "raise_count cfg (filter (\<lambda>ev. ev_symbol ev = s) (ev # evs)) (strategy_or_new (rn_strategies r) s)
        = raise_count cfg (filter (\<lambda>ev. ev_symbol ev = s) evs) (strategy_or_new (rn_strategies r1) s)" for s
      using a True by auto
    then show ?thesis using Cons.IH e True by simp
  next
    case False
    then have "raise_count cfg (filter (\<lambda>x. ev_symbol x = ev_symbol ev) (ev # evs)) (strategy_or_new (rn_strategies r) (ev_symbol ev)) \<noteq> 0"
      using a(1) by simp
    then have "\<not> (\<forall>s. raise_count cfg (filter (\<lambda>ev. ev_symbol ev = s) (ev # evs)) (strategy_or_new (rn_strategies r) s) = 0)"
      by (rule contrapos_nn) (drule spec [of _ "ev_symbol ev"], assumption)
    moreover have "\<not> snd (snd (run_events cfg (ev # evs) stats r))" using e False by simp
    ultimately show ?thesis by (simp only:)
  qed
qed simp

lemma engine_raise_count:
  "callback_errors (fst (fold (engine_step (symbol_engine cfg)) evs (stats, st))) = callback_errors stats + raise_count cfg evs st"
proof (induction evs arbitrary: stats st)
  case (Cons ev evs)
  have "callback_errors (fst (engine_step (symbol_engine cfg) ev (stats, st))) = callback_errors stats + (if raises cfg ev st then 1 else 0)
      \<and> snd (engine_step (symbol_engine cfg) ev (stats, st)) = apply_event (symbol_engine cfg) ev st"
    by (cases ev) (auto simp: engine_step_def symbol_engine_def strategy_callback_def ticker_callback_def note_error_def split: prod.split option.splits)
  moreover obtain stats2 st2 where "engine_step (symbol_engine cfg) ev (stats, st) = (stats2, st2)" by force
  ultimately show ?case using Cons.IH [of stats2 st2] by simp
qed simp

lemma flush_all_dget: "dget (fst (flush_all dcfg d stats)) s = map_option (\<lambda>st. fst (strategy_finalize dcfg st)) (dget d s)"
  by (induction d arbitrary: stats) (auto simp: dget_Cons split_beta Let_def)

lemma dget_map: "dget (map (\<lambda>(k, v). (k, f v)) d) s = map_option f (dget d s)"
  by (induction d) (auto simp: dget_Cons)

text \<open>What the engine leaves of one symbol alone, flushed.\<close>

definition alone :: "runner_config \<Rightarrow> replay_db \<Rightarrow> string \<Rightarrow> int \<Rightarrow> int \<Rightarrow> strategy" where
  "alone cfg rdb s a b =
     fst (strategy_finalize (rc_detector cfg) (snd (engine_run (symbol_engine cfg) rdb s a b 0 0 (new_strategy new_detector))))"

text \<open>C8: after a run over several symbols the strategy of each one, and with it its signal counts, is what the
  single-symbol engine leaves when it replays that symbol alone, whatever the other symbols did; a symbol without candles and tickers
  has none.\<close>

theorem runner_isolates_symbols:
  assumes "runner_run cfg rdb symbols a b t0 t1 (new_runner cfg wid fid) = (r', Some res)" and "s \<in> set symbols"
  shows "dget (rn_strategies r') s = (if list_ex feeds (replay_stream rdb s a b) then Some (alone cfg rdb s a b) else None)
    \<and> dget (mr_signal_counts res) s = map_option st_signal_counts (dget (rn_strategies r') s)"
proof -
  let ?evs = "replay_stream_multi rdb symbols a b" and ?r = "new_runner cfg wid fid"
  obtain stats r1 ok where run0: "run_events cfg ?evs (new_stats\<lparr>wall_start_ms := a, wall_end_ms := b\<rparr>) ?r = (stats, r1, ok)"
    using prod_cases3 by blast
  then have run: "run_events cfg ?evs (new_stats\<lparr>wall_start_ms := a, wall_end_ms := b\<rparr>) ?r = (stats, r1, True)"
    and d: "rn_strategies r' = fst (flush_all (rc_detector cfg) (rn_strategies r1) (stats\<lparr>wall_elapsed_s := fsub t1 t0\<rparr>))"
    and c: "mr_signal_counts res = map (\<lambda>(sym, st). (sym, st_signal_counts st)) (rn_strategies r')"
    using assms(1) by (cases ok, auto simp: runner_run_def Let_def split_beta)+
  have "snd (engine_run (symbol_engine cfg) rdb s a b 0 0 (new_strategy new_detector))
      = fold (apply_event (symbol_engine cfg)) (replay_stream rdb s a b) (new_strategy new_detector)"
    using engine_fold_result [of "symbol_engine cfg"] by (simp add: engine_run_def split_beta)
  then have "dget (rn_strategies r1) s =
      (if list_ex feeds (replay_stream rdb s a b) then Some (snd (engine_run (symbol_engine cfg) rdb s a b 0 0 (new_strategy new_detector))) else None)"
    using run_strategies [OF run, of s] by (simp add: stream_multi_filter [OF assms(2)] new_runner_def strategy_or_new_def)
  then show ?thesis unfolding c dget_map unfolding d flush_all_dget by (simp add: alone_def)
qed

text \<open>Lemma: the runner has no isolation of exceptions: it gives a result exactly when no symbol, replayed alone by the engine,
  would have had a callback error.\<close>

theorem runner_raises_iff:
  "snd (runner_run cfg rdb symbols a b t0 t1 (new_runner cfg wid fid)) \<noteq> None \<longleftrightarrow>
     list_all (\<lambda>s. callback_errors (fst (engine_run (symbol_engine cfg) rdb s a b t0 t1 (new_strategy new_detector))) = 0) symbols"
proof -
  let ?evs = "replay_stream_multi rdb symbols a b" and ?st = "new_strategy new_detector"
  let ?own = "\<lambda>s. filter (\<lambda>ev. ev_symbol ev = s) ?evs"
  have e: "callback_errors (fst (engine_run (symbol_engine cfg) rdb s a b t0 t1 ?st)) = raise_count cfg (replay_stream rdb s a b) ?st" for s
    using engine_raise_count [of cfg "replay_stream rdb s a b"] by (simp add: engine_run_def split_beta new_stats_def)
  have "?own s = []" if "s \<notin> set symbols" for s using that by (auto simp: filter_empty_conv dest: replay_multi_range)
  then have "(\<forall>s. raise_count cfg (?own s) ?st = 0) \<longleftrightarrow> (\<forall>s \<in> set symbols. raise_count cfg (replay_stream rdb s a b) ?st = 0)"
    using stream_multi_filter by (metis raise_count.simps(1))
  moreover have "snd (runner_run cfg rdb symbols a b t0 t1 (new_runner cfg wid fid)) \<noteq> None \<longleftrightarrow>
      snd (snd (run_events cfg ?evs (new_stats\<lparr>wall_start_ms := a, wall_end_ms := b\<rparr>) (new_runner cfg wid fid)))"
    by (simp add: runner_run_def Let_def split_beta split: prod.split bool.split)
  ultimately show ?thesis by (simp add: runner_run_ok e list_all_iff new_runner_def strategy_or_new_def)
qed

section \<open>Every entry is entries_booked for\<close>

text \<open>The entries a simulator state stands for, open or closed, as pairs of a symbol and a time.\<close>

definition ledger :: "sim_state \<Rightarrow> (string \<times> int) multiset" where
  "ledger s = dsum (\<lambda>k p. {#(k, sp_entry_ts_ms p)#}) (s_positions s) + mset (map (\<lambda>t. (st_symbol t, st_entry_ts_ms t)) (s_trades s))"

definition sim_kept :: "sim_state \<Rightarrow> sim_state \<Rightarrow> bool" where
  "sim_kept s s' \<longleftrightarrow> (wf_dict (s_positions s) \<longrightarrow> wf_dict (s_positions s') \<and> ledger s' = ledger s)"

lemma sim_kept_refl [simp]: "sim_kept s s" and sim_kept_trans: "sim_kept s s' \<Longrightarrow> sim_kept s' s'' \<Longrightarrow> sim_kept s s''"
  by (simp_all add: sim_kept_def)

lemma sim_kept_views:
  "s_positions s' = s_positions s \<Longrightarrow> s_trades s' = s_trades s \<Longrightarrow> sim_kept s s'"
  by (simp add: sim_kept_def ledger_def)

lemma close_ledger: "sim_kept s (sim_close_position cfg symbol ts px reason s)"
proof (cases "dget (s_positions s) symbol")
  case (Some pos)
  then show ?thesis
    using dsum_del [of "s_positions s" symbol pos "\<lambda>k p. {#(k, sp_entry_ts_ms p)#}"]
    by (auto simp: sim_kept_def ledger_def sim_close_position_def Let_def)
qed (simp add: sim_close_position_def)

lemma finalize_active_ledger: "sim_kept s (sim_finalize_active cfg symbol s)"
proof (cases "dget (s_active s) symbol")
  case (Some b)
  have check: "sim_kept t (sim_check_exits cfg c symbol t)" for c t
    by (simp add: sim_check_exits_def Let_def close_ledger split: option.split)
  show ?thesis
    unfolding sim_finalize_active_def Let_def Some option.case by (rule sim_kept_trans [OF sim_kept_views check]) simp_all
qed (simp add: sim_finalize_active_def)

lemma funding_ledger: "sim_kept s (sim_apply_funding symbol s)"
proof (cases "dget (s_positions s) symbol")
  case (Some pos)
  have "dsum (\<lambda>k p. {#(k, sp_entry_ts_ms p)#}) (dset (s_positions s) symbol (pos\<lparr>sp_funding_paid := x\<rparr>))
      = dsum (\<lambda>k p. {#(k, sp_entry_ts_ms p)#}) (s_positions s)" for x
    using dsum_old [OF Some, of "\<lambda>k p. {#(k, sp_entry_ts_ms p)#}" "pos\<lparr>sp_funding_paid := x\<rparr>"] by simp
  then show ?thesis using Some by (auto simp: sim_kept_def ledger_def sim_apply_funding_def Let_def)
qed (simp add: sim_apply_funding_def)

lemma funding_loop_ledger: "sim_kept s (fst (sim_funding_loop incl symbol ts nf s))"
proof (induction incl symbol ts nf s rule: sim_funding_loop.induct)
  case (1 incl symbol ts nf s)
  have "sim_kept s (if incl then sim_apply_funding symbol s else s)" by (simp add: funding_ledger)
  with 1 show ?case
    unfolding sim_funding_loop.simps [of incl symbol ts nf s] by (cases "nf \<le> ts") (simp_all only: if_True if_False sim_kept_trans fst_conv sim_kept_refl)
qed

lemma on_ohlcv_ledger: "sim_kept s (sim_on_ohlcv cfg ev s)"
proof -
  have a: "sim_kept s (sim_candle_step cfg ev s)"
    unfolding sim_candle_step_def Let_def
    by (simp split: option.split) (intro conjI impI allI, auto intro: sim_kept_views sim_kept_trans [OF finalize_active_ledger sim_kept_views])
  have b: "sim_kept t (sim_funding_step cfg symbol ts t)" for symbol ts t
    unfolding sim_funding_step_def Let_def split_beta by (rule sim_kept_trans [OF funding_loop_ledger sim_kept_views]) simp_all
  show ?thesis
    unfolding sim_on_ohlcv_def Let_def by (rule sim_kept_trans [OF sim_kept_trans [OF a b] sim_kept_views]) simp_all
qed

lemma on_entry_ledger:
  assumes "sim_on_entry cfg dir ts px symbol s = (s', ok)"
  shows "(wf_dict (s_positions s) \<longrightarrow> wf_dict (s_positions s')) \<and> ledger s' = ledger s + (if ok then {#(symbol, ts)#} else {#})
     \<and> (\<not> ok \<longrightarrow> s_last_rejection_reason s' \<noteq> Some ''cooldown_active'')"
  using assms unfolding sim_on_entry_def Let_def ledger_def
  by (auto simp: dsum_new split: option.splits if_splits)

lemma finalize_ledger:
  assumes "wf_dict (s_positions s)"
  shows "mset (map (\<lambda>t. (st_symbol t, st_entry_ts_ms t)) (s_trades (sim_finalize cfg ts px s))) = ledger s"
proof -
  let ?s1 = "foldl (\<lambda>s symbol. sim_finalize_active cfg symbol s) s (keys (s_active s))"
  let ?close = "\<lambda>s symbol. sim_close_position cfg symbol ts (sim_final_price px symbol s) END_OF_BACKTEST s"
  have "sim_kept s (foldl (\<lambda>s symbol. sim_finalize_active cfg symbol s) s ks)" for ks
    by (induction ks rule: rev_induct) (auto intro: sim_kept_trans [OF _ finalize_active_ledger])
  then have k1: "wf_dict (s_positions ?s1)" "ledger ?s1 = ledger s" using assms by (auto simp: sim_kept_def)
  have closes: "sim_kept t (foldl ?close t ks) \<and> set (keys (s_positions (foldl ?close t ks))) = set (keys (s_positions t)) - set ks" for ks t
  proof (induction ks rule: rev_induct)
    case (snoc k ks)
    have "set (keys (s_positions (?close u k))) = set (keys (s_positions u)) - {k}" for u
      by (auto simp: sim_close_position_def Let_def dict_simps dget_None_iff split: option.split)
    then show ?case using snoc by (auto intro: sim_kept_trans [OF _ close_ledger])
  qed simp
  have "s_positions (sim_finalize cfg ts px s) = []"
    using closes [of ?s1 "keys (s_positions ?s1)"] by (simp add: sim_finalize_def Let_def keys_def)
  moreover have "ledger (sim_finalize cfg ts px s) = ledger s"
    using closes [of ?s1 "keys (s_positions ?s1)"] k1 by (simp add: sim_finalize_def Let_def sim_kept_def)
  ultimately show ?thesis by (simp add: ledger_def)
qed

text \<open>The drops that stand for an entry, and the entries the strategies have produced.\<close>

definition booked :: "runner \<Rightarrow> (string \<times> int) multiset" where
  "booked r = ledger (rn_sim r)
     + mset (map (\<lambda>d. (de_symbol d, de_ts_ms d)) (filter (\<lambda>d. de_reason d \<noteq> ''cooldown_active'') (rn_dropped r)))"

definition signalled :: "(string, strategy) dict \<Rightarrow> (string \<times> int) multiset" where
  "signalled d = dsum (\<lambda>s st. mset (map (\<lambda>e. (s, e_ts_ms e)) (st_entries st))) d"

definition room :: "runner \<Rightarrow> bool" where
  "room r \<longleftrightarrow> length (rn_dropped r) < DROP_HARD_CAP"

definition sim_sound :: "runner \<Rightarrow> bool" where
  "sim_sound r \<longleftrightarrow> wf_dict (s_positions (rn_sim r))"

lemma record_drop_booked:
  "room (record_drop reason s t r) \<Longrightarrow> room r
     \<and> booked (record_drop reason s t r) = booked r + (if reason = ''cooldown_active'' then {#} else {#(s, t)#})"
  by (auto simp: record_drop_def room_def booked_def split: if_splits)

lemma record_drop_sim [simp]: "rn_sim (record_drop reason s t r) = rn_sim r"
  by (simp add: record_drop_def)

lemma enter_one_booked:
  assumes "sim_sound r" and "e_ts_ms e = t"
  shows "sim_sound (enter_one cfg s t e r) \<and> (room (enter_one cfg s t e r) \<longrightarrow> room r \<and> booked (enter_one cfg s t e r) = booked r + {#(s, t)#})"
proof -
  obtain s' ok where e: "sim_on_entry (rc_sim cfg) (direction_text (e_direction e)) (e_ts_ms e) (e_price e) s (rn_sim r) = (s', ok)" by force
  note l = on_entry_ledger [OF e]
  show ?thesis
  proof (cases ok)
    case True
    then show ?thesis using l assms e by (simp add: enter_one_def sim_sound_def room_def booked_def)
  next
    case False
    let ?reason = "case s_last_rejection_reason s' of None \<Rightarrow> ''sim_rejected_other'' | Some x \<Rightarrow> x"
    have "?reason \<noteq> ''cooldown_active''" using l False by (auto split: option.split)
    then show ?thesis
      using l False assms e record_drop_booked [of ?reason s t "r\<lparr>rn_sim := s'\<rparr>"]
      by (simp add: enter_one_def sim_sound_def) (simp add: room_def booked_def)
  qed
qed

lemma enter_all_booked:
  assumes "sim_sound r" and "\<forall>e \<in> set es. e_ts_ms e = t"
  shows "sim_sound (fold (enter_one cfg s t) es r)
    \<and> (room (fold (enter_one cfg s t) es r) \<longrightarrow> room r \<and> booked (fold (enter_one cfg s t) es r) = booked r + mset (map (\<lambda>e. (s, e_ts_ms e)) es))"
  using assms
proof (induction es arbitrary: r)
  case (Cons e es)
  from enter_one_booked [OF Cons.prems(1), of e t cfg s] Cons.prems Cons.IH [of "enter_one cfg s t e r"] show ?case by auto
qed simp

lemma note_cooldown_booked:
  "rn_sim (note_cooldown s t b r) = rn_sim r" "room (note_cooldown s t b r) \<Longrightarrow> room r \<and> booked (note_cooldown s t b r) = booked r"
proof -
  have v: "room (r\<lparr>rn_cooldown := m\<rparr>) = room r" "booked (r\<lparr>rn_cooldown := m\<rparr>) = booked r" for r m by (simp_all add: room_def booked_def)
  show "rn_sim (note_cooldown s t b r) = rn_sim r" by (simp add: note_cooldown_def Let_def)
  show "room (note_cooldown s t b r) \<Longrightarrow> room r \<and> booked (note_cooldown s t b r) = booked r"
    using record_drop_booked [of "''cooldown_active''" s t r] by (auto simp: note_cooldown_def Let_def v split: if_splits)
qed

lemma strategy_entries:
  assumes "strategy_on_ohlcv cfg dcfg ev st = (st', Some es)"
  shows "st_entries st' = st_entries st @ es \<and> (\<forall>e \<in> set es. e_ts_ms e = Replay_Transport.ohlcv_event.o_ts_ms ev)"
  using assms
  by (auto simp: strategy_on_ohlcv_def try_entry_def try_direction_def Let_def split: prod.splits option.splits if_splits)

lemma signalled_ensure: "signalled (rn_strategies (ensure_symbol s r)) = signalled (rn_strategies r)"
  by (simp add: ensure_symbol_def signalled_def dsum_new new_strategy_def)

lemma signalled_update:
  assumes "dget d s = Some st" and "st_entries st' = st_entries st @ es"
  shows "signalled (dset d s st') = signalled d + mset (map (\<lambda>e. (s, e_ts_ms e)) es)"
  using dsum_old [OF assms(1), of "\<lambda>s st. mset (map (\<lambda>e. (s, e_ts_ms e)) (st_entries st))" st'] assms(2)
  by (simp add: signalled_def ac_simps)

text \<open>Everything an event signals is booked by the same event.\<close>

definition entries_booked :: "runner \<Rightarrow> bool" where
  "entries_booked r \<longleftrightarrow> sim_sound r \<and> (room r \<longrightarrow> signalled (rn_strategies r) = booked r)"

lemma ohlcv_accounted:
  assumes "entries_booked r" and "runner_on_ohlcv cfg ev r = (r', True)"
  shows "entries_booked r'"
proof -
  let ?s = "Replay_Transport.ohlcv_event.o_symbol ev" and ?t = "Replay_Transport.ohlcv_event.o_ts_ms ev"
  let ?r1 = "before_strategy cfg ev r"
  obtain st st' es where st: "dget (rn_strategies ?r1) ?s = Some st" "strategy_on_ohlcv (rc_strategy cfg) (rc_detector cfg) ev st = (st', Some es)"
    using assms(2) by (auto simp: runner_on_ohlcv_def Let_def split: option.splits prod.splits)
  let ?r2 = "?r1\<lparr>rn_strategies := dset (rn_strategies ?r1) ?s st'\<rparr>"
  let ?r3 = "note_cooldown ?s ?t (es = [] \<and> st_last_rejection_reason st' = Some ''cooldown_active'') ?r2"
  have r': "r' = fold (enter_one cfg ?s ?t) es ?r3" using assms(2) st by (simp add: runner_on_ohlcv_def Let_def)
  have "rn_sim ?r1 = sim_on_ohlcv (rc_sim cfg) (sim_sample ev) (rn_sim r)" "rn_dropped ?r1 = rn_dropped r"
    by (simp_all add: before_strategy_def Let_def ensure_symbol_def)
  then have r2: "sim_sound ?r2" "room ?r2 = room r" "booked ?r2 = booked r"
    using on_ohlcv_ledger [of "rn_sim r" "rc_sim cfg" "sim_sample ev"] assms(1)
    by (auto simp: entries_booked_def sim_sound_def sim_kept_def room_def booked_def)
  note e = strategy_entries [OF st(2)]
  have s3: "sim_sound ?r3" using r2(1) by (simp add: sim_sound_def note_cooldown_booked)
  have sig: "signalled (rn_strategies r') = signalled (rn_strategies r) + mset (map (\<lambda>e. (?s, e_ts_ms e)) es)"
    using signalled_update [OF st(1) conjunct1 [OF e]] by (simp add: r' signalled_ensure)
  from enter_all_booked [OF s3 conjunct2 [OF e], of cfg ?s] note_cooldown_booked(2) [of ?s ?t _ ?r2] r2 assms(1) show ?thesis
    unfolding entries_booked_def sig by (auto simp: r')
qed

lemma event_accounted:
  assumes "entries_booked r" and "runner_event cfg ev r = (r', True)"
  shows "entries_booked r'"
proof (cases ev)
  case (Ticker e)
  have "rn_dropped (runner_on_ticker e r) = rn_dropped r" "s_positions (rn_sim (runner_on_ticker e r)) = s_positions (rn_sim r)"
    "s_trades (rn_sim (runner_on_ticker e r)) = s_trades (rn_sim r)"
    by (simp_all add: runner_on_ticker_def Let_def ensure_symbol_def sim_on_ticker_def)
  moreover have "signalled (rn_strategies (runner_on_ticker e r)) = signalled (rn_strategies r)"
    using signalled_ensure [of "t_symbol e" r] signalled_update [of "rn_strategies (ensure_symbol (t_symbol e) r)" "t_symbol e" _ _ "[]"]
    by (auto simp: runner_on_ticker_def Let_def strategy_on_ticker_def split: option.split)
  ultimately show ?thesis using assms by (auto simp: Ticker entries_booked_def sim_sound_def room_def booked_def ledger_def)
qed (use assms ohlcv_accounted in auto)

lemma run_accounted: "run_events cfg evs stats r = (stats', r', True) \<Longrightarrow> entries_booked r \<Longrightarrow> entries_booked r'"
proof (induction evs arbitrary: stats r)
  case (Cons ev evs)
  then show ?case by (auto split: prod.splits bool.splits intro: event_accounted)
qed simp

lemma flush_signalled: "signalled (fst (flush_all dcfg d stats)) = signalled d"
proof (induction d arbitrary: stats)
  case (Cons x d)
  have f: "st_entries (fold (\<lambda>s. record_signal (s_ts_ms s) s) sigs st) = st_entries st" for sigs st
    by (induction sigs arbitrary: st) (simp_all add: record_signal_def)
  have "st_entries (fst (strategy_finalize dcfg st)) = st_entries st" for st
    by (auto simp: strategy_finalize_def f split: prod.split option.split)
  with Cons show ?case by (cases x) (simp add: signalled_def dsum_def split_beta Let_def)
qed simp

text \<open>C11: as long as the list of drops has not reached its cap, every entry that a strategy signals during a run becomes
  exactly one trade of the result or exactly one dropped entry, with the same symbol and time, and nothing else does.\<close>

theorem runner_accounts_entries:
  assumes "runner_run cfg rdb symbols a b t0 t1 (new_runner cfg wid fid) = (r', Some res)" and "length (mr_dropped res) < DROP_HARD_CAP"
  shows "mset (map (\<lambda>t. (st_symbol t, st_entry_ts_ms t)) (mr_trades res))
      + mset (map (\<lambda>d. (de_symbol d, de_ts_ms d)) (filter (\<lambda>d. de_reason d \<noteq> ''cooldown_active'') (mr_dropped res)))
    = mset (concat (map (\<lambda>(s, st). map (\<lambda>e. (s, e_ts_ms e)) (st_entries st)) (rn_strategies r')))"
proof -
  let ?r = "new_runner cfg wid fid"
  obtain stats r1 ok where run: "run_events cfg (replay_stream_multi rdb symbols a b) (new_stats\<lparr>wall_start_ms := a, wall_end_ms := b\<rparr>) ?r = (stats, r1, ok)"
    using prod_cases3 by blast
  have ok: ok using run assms(1) by (cases ok) (auto simp: runner_run_def)
  have r': "signalled (rn_strategies r') = signalled (rn_strategies r1)" "mr_dropped res = rn_dropped r1"
    "mr_trades res = s_trades (sim_finalize (rc_sim cfg) b Map.empty (rn_sim r1))"
    using assms(1) run ok by (auto simp: runner_run_def Let_def split_beta flush_signalled)
  have "entries_booked ?r" by (simp add: entries_booked_def new_runner_def sim_sound_def signalled_def booked_def ledger_def sim_init_def)
  then have "entries_booked r1" using run_accounted [of cfg _ _ ?r stats r1] run ok by simp
  then have "wf_dict (s_positions (rn_sim r1))" "signalled (rn_strategies r1) = booked r1"
    using assms(2) r'(2) by (auto simp: entries_booked_def sim_sound_def room_def)
  moreover have "mset (concat (map (\<lambda>(s, st). map (\<lambda>e. (s, e_ts_ms e)) (st_entries st)) d)) = signalled d" for d
    by (induction d) (auto simp: signalled_def dsum_def)
  ultimately show ?thesis using finalize_ledger [of "rn_sim r1" "rc_sim cfg" b Map.empty] r' by (simp add: booked_def)
qed

section \<open>A run with one entry\<close>

text \<open>Four candles of \<open>B\<close> with a gap, and a ticker of \<open>A\<close> in between.\<close>

definition gap_row :: "int \<Rightarrow> rat \<Rightarrow> rat \<Rightarrow> rat \<Rightarrow> ohlcv_row" where
  "gap_row sec hi lo cl = \<lparr>or_symbol = ''B'', or_sec = sec, or_open = Some cl, or_high = Some hi, or_low = Some lo, or_close = Some cl,
     or_buy_vol = Some 1, or_sell_vol = Some 2, or_trade_count = Some 3\<rparr>"

definition other_row :: ticker_row where
  "other_row = \<lparr>tr_id = 1, tr_symbol = ''A'', tr_ts_ms = 7000, tr_last_price = None, tr_fair_price = None, tr_index_price = None,
     tr_hold_vol = None, tr_oi_usdt = None, tr_funding_rate = None, tr_next_settle_ms = None\<rparr>"

definition gap_db :: replay_db where
  "gap_db = \<lparr>trades_ohlcv_1s = [gap_row 0 10 8 9, gap_row 5 20 9 20, gap_row 10 40 30 35, gap_row 16 40 30 35],
     orderbook_snapshots = [], tickers_snapshot = [other_row]\<rparr>"

definition gap_stream :: "any_event list" where
  "gap_stream = [Ohlcv (sample_event 0 10 8 9), Ohlcv (sample_event 5 20 9 20), Ticker (ticker_of_row other_row),
     Ohlcv (sample_event 10 40 30 35), Ohlcv (sample_event 16 40 30 35)]"

lemma gap_stream_db: "replay_stream_multi gap_db [''B'', ''A''] 0 99000 = gap_stream"
proof -
  have s: "sorted_list_of_set (set [''B'', ''A'']) = [''A'', ''B'']"
    unfolding sorted_list_of_set_sort_remdups by code_simp
  have g: "replay_gens gap_db [''B'', ''A''] 0 99000 =
     [[], [Ohlcv (sample_event 0 10 8 9), Ohlcv (sample_event 5 20 9 20), Ohlcv (sample_event 10 40 30 35), Ohlcv (sample_event 16 40 30 35)],
      [], [], [Ticker (ticker_of_row other_row)], []]"
    unfolding replay_gens_def Let_def s
    by (simp add: ohlcv_gen_def depth_gen_def ticker_gen_def gap_db_def gap_row_def ohlcv_of_row_def sample_event_def other_row_def)
  show ?thesis
    unfolding replay_stream_multi_def g
    by (simp add: gap_stream_def merge_key_def sample_event_def other_row_def ticker_of_row_def heap_merge.simps)
qed

definition gap_config :: runner_config where
  "gap_config = \<lparr>rc_sim = \<lparr>s_initial_equity = 1000, s_risk_pct = 0, s_atr_period = 14, s_sl_atr_multiplier = 1, s_tp_r_multiple = 2,
       s_max_sl_distance_pct = 1, s_min_sl_distance_pct = 0, s_entry_slippage_bps = 0, s_fee_taker = 0, s_fee_maker = 0, s_include_funding = False,
       s_max_positions_per_symbol = 1, s_max_positions_global = 3\<rparr>,
     rc_strategy = gap_only, rc_detector = default_detector_config\<rparr>"

definition gap_run :: "runner \<times> multi_result option" where
  "gap_run = runner_run gap_config gap_db [''B'', ''A''] 0 99000 0 1 (new_runner gap_config 0 0)"

lemma gap_run_result:
  "gap_run = (fst gap_run, Some (the (snd gap_run)))"
  "map (\<lambda>d. (de_reason d, de_symbol d, de_ts_ms d)) (mr_dropped (the (snd gap_run))) = [(''sim_rejected_other'', ''B'', 16000)]"
  "mr_trades (the (snd gap_run)) = []"
proof -
  let ?e = "run_events gap_config gap_stream (new_stats\<lparr>wall_start_ms := 0, wall_end_ms := 99000\<rparr>) (new_runner gap_config 0 0)"
  have v: "case ?e of (stats, r, ok) \<Rightarrow> ok \<and> map (\<lambda>d. (de_reason d, de_symbol d, de_ts_ms d)) (rn_dropped r) = [(''sim_rejected_other'', ''B'', 16000)]
      \<and> s_trades (sim_finalize (rc_sim gap_config) 99000 (\<lambda>_. None) (rn_sim r)) = []"
    by code_simp
  obtain stats r1 ok where e: "?e = (stats, r1, ok)" using prod_cases3 by blast
  with v have ok by simp
  then show "gap_run = (fst gap_run, Some (the (snd gap_run)))"
    "map (\<lambda>d. (de_reason d, de_symbol d, de_ts_ms d)) (mr_dropped (the (snd gap_run))) = [(''sim_rejected_other'', ''B'', 16000)]"
    "mr_trades (the (snd gap_run)) = []"
    using v e by (auto simp: gap_run_def runner_run_def gap_stream_db split_beta Let_def)
qed

lemma runner_isolates_symbols_witness:
  "dget (rn_strategies (fst gap_run)) ''B'' = Some (alone gap_config gap_db ''B'' 0 99000)"
proof -
  have "filter (\<lambda>ev. ev_symbol ev = ''B'') gap_stream = replay_stream gap_db ''B'' 0 99000"
    using stream_multi_filter [of "''B''" "[''B'', ''A'']" gap_db 0 99000] by (simp add: gap_stream_db)
  moreover have "list_ex feeds (filter (\<lambda>ev. ev_symbol ev = ''B'') gap_stream)" by (simp add: gap_stream_def sample_event_def)
  ultimately have "list_ex feeds (replay_stream gap_db ''B'' 0 99000)" by simp
  with runner_isolates_symbols [OF gap_run_result(1) [unfolded gap_run_def], folded gap_run_def, of "''B''"] show ?thesis by simp
qed

lemma runner_accounts_entries_witness:
  "mset (concat (map (\<lambda>(s, st). map (\<lambda>e. (s, e_ts_ms e)) (st_entries st)) (rn_strategies (fst gap_run)))) = {#(''B'', 16000)#}"
proof -
  obtain d where d: "mr_dropped (the (snd gap_run)) = [d]" "de_reason d = ''sim_rejected_other''" "de_symbol d = ''B''" "de_ts_ms d = 16000"
    using gap_run_result(2) by (auto simp: Cons_eq_map_conv)
  from runner_accounts_entries [OF gap_run_result(1) [unfolded gap_run_def], folded gap_run_def] d gap_run_result(3)
  show ?thesis by (simp add: DROP_HARD_CAP_def)
qed

end
