(* ===== verification/Walk_Forward.thy ===== *)
theory Walk_Forward
  imports Multi_Runner
begin

text \<open>
  The walk-forward part of \<^verbatim>\<open>src/backtest/multi_symbol_runner.py\<close>: windows are generated, each is replayed by a fresh
  runner from the start of its training part, and what falls into its test part is reported. The loop that generates
  the windows may not end, so it is a partial function. Serialisation is left out.
\<close>

section \<open>Configuration and results\<close>

record walk_config =
  wf_train_ms :: int
  wf_test_ms :: int
  wf_step_ms :: "int option"
  wf_min_folds :: int
  wf_fail_fast :: bool

definition effective_step_ms :: "walk_config \<Rightarrow> int" where
  "effective_step_ms cfg = (case wf_step_ms cfg of None \<Rightarrow> wf_test_ms cfg | Some s \<Rightarrow> if s \<le> 0 then wf_test_ms cfg else s)"

record fold_window =
  fw_id :: nat
  train_start_ms :: int
  train_end_ms :: int
  test_start_ms :: int
  test_end_ms :: int

record fold_result =
  fr_window :: fold_window
  fr_trades :: "sim_trade list"
  fr_dropped :: "dropped_entry list"
  fr_stats :: backtest_stats
  fr_signal_counts :: "(string, signal_kind \<Rightarrow> nat) dict"
  fr_data_quality :: "(string, quality_report) dict"

record walk_result =
  wr_folds :: "fold_result list"
  wr_trades :: "sim_trade list"
  wr_dropped :: "dropped_entry list"
  wr_fold_count :: nat
  wr_single_fold :: bool

section \<open>Windows\<close>

definition fold_at :: "walk_config \<Rightarrow> int \<Rightarrow> nat \<Rightarrow> fold_window" where
  "fold_at cfg t0 n =
     \<lparr>fw_id = n, train_start_ms = t0, train_end_ms = t0 + wf_train_ms cfg,
      test_start_ms = t0 + wf_train_ms cfg, test_end_ms = t0 + wf_train_ms cfg + wf_test_ms cfg\<rparr>"

partial_function (option) fold_loop :: "walk_config \<Rightarrow> int \<Rightarrow> int \<Rightarrow> fold_window list \<Rightarrow> fold_window list option" where
  "fold_loop cfg ts_to t0 folds =
     (if ts_to < t0 + wf_train_ms cfg + wf_test_ms cfg then Some folds
      else fold_loop cfg ts_to (t0 + effective_step_ms cfg) (folds @ [fold_at cfg t0 (length folds)]))"

definition generate_folds :: "walk_config \<Rightarrow> int \<Rightarrow> int \<Rightarrow> fold_window list option" where
  "generate_folds cfg ts_from ts_to = fold_loop cfg ts_to ts_from []"

section \<open>Folds\<close>

definition run_fold :: "runner_config \<Rightarrow> replay_db \<Rightarrow> string list \<Rightarrow> rat \<Rightarrow> rat \<Rightarrow> fold_window \<Rightarrow> fold_result option" where
  "run_fold cfg rdb symbols t0 t1 w =
     (case runner_run cfg rdb symbols (train_start_ms w) (test_end_ms w) t0 t1 (new_runner cfg 0 (int (fw_id w))) of
        (r, None) \<Rightarrow> None
      | (r, Some raw) \<Rightarrow>
          Some \<lparr>fr_window = w,
                fr_trades = filter (\<lambda>t. test_start_ms w \<le> st_entry_ts_ms t) (mr_trades raw),
                fr_dropped = filter (\<lambda>d. test_start_ms w \<le> de_ts_ms d) (mr_dropped raw),
                fr_stats = mr_stats raw, fr_signal_counts = mr_signal_counts raw,
                fr_data_quality = map (\<lambda>(sym, secs). (sym, analyze_secs sym
                  (filter (\<lambda>s. test_start_ms w \<le> s * 1000 \<and> s * 1000 \<le> test_end_ms w) secs) 1)) (rn_seen_secs r)\<rparr>)"

text \<open>What \<^verbatim>\<open>run\<close> raises: too few windows, an exception inside a fold, or the fail-fast error.\<close>

datatype walk_error = TooFewFolds nat | FoldRaised nat | FailFast nat

fun run_folds ::
  "walk_config \<Rightarrow> runner_config \<Rightarrow> replay_db \<Rightarrow> string list \<Rightarrow> (nat \<Rightarrow> rat) \<Rightarrow> fold_window list \<Rightarrow> fold_result list \<Rightarrow> walk_error + fold_result list" where
  "run_folds wcfg cfg rdb symbols clock [] frs = Inr frs"
| "run_folds wcfg cfg rdb symbols clock (w # ws) frs =
     (case run_fold cfg rdb symbols (clock (2 * fw_id w)) (clock (2 * fw_id w + 1)) w of
        None \<Rightarrow> Inl (FoldRaised (fw_id w))
      | Some fr \<Rightarrow> if wf_fail_fast wcfg \<and> 0 < callback_errors (fr_stats fr) then Inl (FailFast (fw_id w))
                    else run_folds wcfg cfg rdb symbols clock ws (frs @ [fr]))"

definition walk_run ::
  "walk_config \<Rightarrow> runner_config \<Rightarrow> replay_db \<Rightarrow> string list \<Rightarrow> (nat \<Rightarrow> rat) \<Rightarrow> int \<Rightarrow> int \<Rightarrow> (walk_error + walk_result) option" where
  "walk_run wcfg cfg rdb symbols clock ts_from ts_to =
     (case generate_folds wcfg ts_from ts_to of
        None \<Rightarrow> None
      | Some ws \<Rightarrow>
          Some (if int (length ws) < wf_min_folds wcfg then Inl (TooFewFolds (length ws))
                else case run_folds wcfg cfg rdb symbols clock ws [] of
                       Inl e \<Rightarrow> Inl e
                     | Inr frs \<Rightarrow> Inr \<lparr>wr_folds = frs, wr_trades = concat (map fr_trades frs), wr_dropped = concat (map fr_dropped frs),
                                        wr_fold_count = length ws, wr_single_fold = (length ws = 1)\<rparr>))"

text \<open>\<^verbatim>\<open>_collect_data_quality\<close>, for a transport that has the coverage lists.\<close>

definition collect_data_quality :: "replay_db \<Rightarrow> string list \<Rightarrow> int \<Rightarrow> int \<Rightarrow> (string, quality_report) dict" where
  "collect_data_quality rdb symbols ts_from ts_to =
     map (\<lambda>(sym, secs). (sym, analyze_secs sym secs 1)) (collect_ohlcv_secs rdb symbols ts_from ts_to)"

section \<open>The windows in closed form\<close>

definition fold_count :: "walk_config \<Rightarrow> int \<Rightarrow> int \<Rightarrow> nat" where
  "fold_count cfg a b =
     (if b < a + wf_train_ms cfg + wf_test_ms cfg then 0
      else nat ((b - (a + wf_train_ms cfg + wf_test_ms cfg)) div effective_step_ms cfg + 1))"

lemma fold_count_step:
  assumes "0 < effective_step_ms cfg" and "\<not> b < a + wf_train_ms cfg + wf_test_ms cfg"
  shows "fold_count cfg a b = Suc (fold_count cfg (a + effective_step_ms cfg) b)"
proof -
  let ?d = "effective_step_ms cfg" and ?x = "b - (a + wf_train_ms cfg + wf_test_ms cfg)"
  have x: "0 \<le> ?x" using assms(2) by simp
  show ?thesis
  proof (cases "?x < ?d")
    case True
    then show ?thesis using assms x by (simp add: fold_count_def div_pos_pos_trivial)
  next
    case False
    have "?x div ?d = (?x - ?d) div ?d + 1" using assms(1) by (simp add: div_diff flip: div_add_self2)
    moreover have "0 \<le> (?x - ?d) div ?d" using False assms(1) by (simp add: pos_imp_zdiv_nonneg_iff)
    moreover have "b - (a + ?d + wf_train_ms cfg + wf_test_ms cfg) = ?x - ?d" "\<not> b < a + ?d + wf_train_ms cfg + wf_test_ms cfg"
      using False by simp_all
    then have "fold_count cfg (a + ?d) b = nat ((?x - ?d) div ?d + 1)" by (simp only: fold_count_def if_False)
    moreover have "fold_count cfg a b = nat (?x div ?d + 1)" using assms(2) by (simp only: fold_count_def if_False)
    ultimately show ?thesis by (simp only: Suc_nat_eq_nat_zadd1 nat_eq_iff) simp
  qed
qed

lemma fold_loop_closed:
  "0 < effective_step_ms cfg \<Longrightarrow> fold_count cfg a b = n \<Longrightarrow>
     fold_loop cfg b a folds = Some (folds @ map (\<lambda>i. fold_at cfg (a + int i * effective_step_ms cfg) (length folds + i)) [0..<n])"
proof (induction n arbitrary: a folds)
  case 0
  have "0 \<le> (b - (a + wf_train_ms cfg + wf_test_ms cfg)) div effective_step_ms cfg" if "\<not> b < a + wf_train_ms cfg + wf_test_ms cfg"
    using that "0.prems"(1) by (simp add: pos_imp_zdiv_nonneg_iff)
  with 0 have "b < a + wf_train_ms cfg + wf_test_ms cfg" by (fastforce simp: fold_count_def split: if_splits)
  then show ?case by (simp add: fold_loop.simps)
next
  case (Suc n)
  let ?d = "effective_step_ms cfg"
  have more: "\<not> b < a + wf_train_ms cfg + wf_test_ms cfg" using Suc.prems(2) by (auto simp: fold_count_def)
  then have "fold_count cfg (a + ?d) b = n" using fold_count_step [OF Suc.prems(1) more] Suc.prems(2) by simp
  have u: "[0..<Suc n] = 0 # map Suc [0..<n]" by (simp add: map_Suc_upt upt_conv_Cons del: upt_Suc)
  from Suc.IH [OF Suc.prems(1) \<open>fold_count cfg (a + ?d) b = n\<close>, of "folds @ [fold_at cfg a (length folds)]"]
  have "fold_loop cfg b a folds = Some ((folds @ [fold_at cfg a (length folds)])
      @ map (\<lambda>i. fold_at cfg (a + ?d + int i * ?d) (length (folds @ [fold_at cfg a (length folds)]) + i)) [0..<n])"
    using more by (simp add: fold_loop.simps [of _ _ a])
  also have "\<dots> = Some (folds @ map (\<lambda>i. fold_at cfg (a + int i * ?d) (length folds + i)) [0..<Suc n])"
    unfolding u by (simp add: comp_def algebra_simps)
  finally show ?case .
qed

lemma fold_loop_endless:
  assumes "effective_step_ms cfg \<le> 0" and "\<not> b < a + wf_train_ms cfg + wf_test_ms cfg"
  shows "fold_loop cfg b a folds = None"
proof (rule ccontr)
  assume "fold_loop cfg b a folds \<noteq> None"
  then obtain ws where "fold_loop cfg b a folds = Some ws" by auto
  then have "effective_step_ms cfg \<le> 0 \<Longrightarrow> b < a + wf_train_ms cfg + wf_test_ms cfg"
  proof (induction cfg b a folds ws rule: fold_loop.raw_induct [rotated, consumes 1, case_names step])
    case (step fl cfg b a folds ws)
    show ?case
    proof (rule ccontr)
      assume n: "\<not> b < a + wf_train_ms cfg + wf_test_ms cfg"
      then have "fl cfg b (a + effective_step_ms cfg) (folds @ [fold_at cfg a (length folds)]) = Some ws" using step by simp
      then have "b < a + effective_step_ms cfg + wf_train_ms cfg + wf_test_ms cfg" using step by blast
      then show False using n step by simp
    qed
  qed
  with assms show False by simp
qed

text \<open>C37: the windows are the shifts of the first one by the effective step that still end inside the range, numbered from zero;
  when none fits there are none, and when one fits but the effective step is not positive the loop never ends.\<close>

theorem wf_windows:
  "generate_folds cfg a b =
     (if b < a + wf_train_ms cfg + wf_test_ms cfg then Some []
      else if effective_step_ms cfg \<le> 0 then None
      else Some (map (\<lambda>i. fold_at cfg (a + int i * effective_step_ms cfg) i)
                   [0..<nat ((b - (a + wf_train_ms cfg + wf_test_ms cfg)) div effective_step_ms cfg + 1)]))"
proof (cases "b < a + wf_train_ms cfg + wf_test_ms cfg")
  case True
  then show ?thesis by (simp add: generate_folds_def fold_loop.simps)
next
  case False
  then show ?thesis
    using fold_loop_endless [of cfg b a "[]"] fold_loop_closed [of cfg a b "fold_count cfg a b" "[]"]
    by (auto simp: generate_folds_def fold_count_def)
qed

text \<open>With the default step a window's test part ends at the millisecond at which the next one's begins, and both ends are included.\<close>

lemma wf_boundary_shared:
  assumes "wf_step_ms cfg = None"
  shows "test_end_ms (fold_at cfg (a + int i * effective_step_ms cfg) i) = test_start_ms (fold_at cfg (a + int (Suc i) * effective_step_ms cfg) (Suc i))"
  using assms by (simp add: fold_at_def effective_step_ms_def algebra_simps)

section \<open>What a fold reports\<close>

lemma ledger_within:
  assumes "runner_event cfg ev r = (r', True)" and "sim_sound r" and "\<forall>x \<in># ledger (rn_sim r). P x" and "P (ev_symbol ev, ev_ts ev)"
  shows "sim_sound r' \<and> (\<forall>x \<in># ledger (rn_sim r'). P x)"
proof (cases ev)
  case (Ohlcv e)
  let ?s = "Replay_Transport.ohlcv_event.o_symbol e" and ?t = "Replay_Transport.ohlcv_event.o_ts_ms e" and ?r1 = "before_strategy cfg e r"
  obtain st st' es where st: "dget (rn_strategies ?r1) ?s = Some st" "strategy_on_ohlcv (rc_strategy cfg) (rc_detector cfg) e st = (st', Some es)"
    using assms(1) by (auto simp: Ohlcv runner_on_ohlcv_def Let_def split: option.splits prod.splits)
  let ?r3 = "note_cooldown ?s ?t (es = [] \<and> st_last_rejection_reason st' = Some ''cooldown_active'') (?r1\<lparr>rn_strategies := dset (rn_strategies ?r1) ?s st'\<rparr>)"
  have r': "r' = fold (enter_one cfg ?s ?t) es ?r3" using assms(1) st by (simp add: Ohlcv runner_on_ohlcv_def Let_def)
  have "rn_sim ?r3 = sim_on_ohlcv (rc_sim cfg) (sim_sample e) (rn_sim r)"
    by (simp add: note_cooldown_booked) (simp add: before_strategy_def Let_def ensure_symbol_def)
  then have r3: "sim_sound ?r3 \<and> (\<forall>x \<in># ledger (rn_sim ?r3). P x)"
    using on_ohlcv_ledger [of "rn_sim r" "rc_sim cfg" "sim_sample e"] assms(2,3) by (simp add: sim_sound_def sim_kept_def)
  have "sim_sound q \<and> (\<forall>x \<in># ledger (rn_sim q). P x) \<Longrightarrow> \<forall>x \<in> set xs. e_ts_ms x = ?t \<Longrightarrow>
      sim_sound (fold (enter_one cfg ?s ?t) xs q) \<and> (\<forall>x \<in># ledger (rn_sim (fold (enter_one cfg ?s ?t) xs q)). P x)" for xs q
  proof (induction xs arbitrary: q)
    case (Cons x xs)
    obtain s' ok where e: "sim_on_entry (rc_sim cfg) (direction_text (e_direction x)) (e_ts_ms x) (e_price x) ?s (rn_sim q) = (s', ok)" by force
    have "rn_sim (enter_one cfg ?s ?t x q) = s'" using e by (simp add: enter_one_def Let_def)
    then have "sim_sound (enter_one cfg ?s ?t x q) \<and> (\<forall>x \<in># ledger (rn_sim (enter_one cfg ?s ?t x q)). P x)"
      using Cons.prems on_entry_ledger [OF e] assms(4) by (simp add: sim_sound_def Ohlcv)
    then show ?case using Cons.IH Cons.prems(2) by simp
  qed simp
  then show ?thesis using r3 strategy_entries [OF st(2)] unfolding r' by blast
next
  case (Ticker e)
  have "s_positions (rn_sim (runner_on_ticker e r)) = s_positions (rn_sim r)" "s_trades (rn_sim (runner_on_ticker e r)) = s_trades (rn_sim r)"
    by (simp_all add: runner_on_ticker_def Let_def ensure_symbol_def sim_on_ticker_def)
  then show ?thesis using assms by (auto simp: Ticker sim_sound_def ledger_def)
qed (use assms in auto)

lemma run_ledger_within:
  "run_events cfg evs stats r = (stats', r', True) \<Longrightarrow> sim_sound r \<Longrightarrow> \<forall>x \<in># ledger (rn_sim r). P x \<Longrightarrow> \<forall>ev \<in> set evs. P (ev_symbol ev, ev_ts ev)
   \<Longrightarrow> sim_sound r' \<and> (\<forall>x \<in># ledger (rn_sim r'). P x)"
proof (induction evs arbitrary: stats r)
  case (Cons ev evs)
  obtain r1 where e: "runner_event cfg ev r = (r1, True)" "run_events cfg evs (count_event ev stats) r1 = (stats', r', True)"
    using Cons.prems(1) by (auto split: prod.splits bool.splits)
  from ledger_within [OF e(1) Cons.prems(2,3)] Cons.IH [OF e(2)] Cons.prems(4) show ?case by simp
qed simp

text \<open>A run's result comes from the loop over its stream.\<close>

lemma runner_run_from:
  assumes "runner_run cfg rdb symbols a b t0 t1 (new_runner cfg wid fid) = (r', Some res)"
  obtains stats r1 where "run_events cfg (replay_stream_multi rdb symbols a b) (new_stats\<lparr>wall_start_ms := a, wall_end_ms := b\<rparr>) (new_runner cfg wid fid) = (stats, r1, True)"
    and "mr_trades res = s_trades (sim_finalize (rc_sim cfg) b Map.empty (rn_sim r1))" and "rn_seen_secs r' = rn_seen_secs r1"
proof -
  obtain stats r1 ok where run: "run_events cfg (replay_stream_multi rdb symbols a b) (new_stats\<lparr>wall_start_ms := a, wall_end_ms := b\<rparr>) (new_runner cfg wid fid) = (stats, r1, ok)"
    using prod_cases3 by blast
  have ok using run assms by (cases ok) (auto simp: runner_run_def)
  note * = that
  show thesis by (rule * [of stats r1]) (use run \<open>ok\<close> assms in \<open>auto simp: runner_run_def Let_def split_beta\<close>)
qed

lemma run_trades_within:
  assumes "runner_run cfg rdb symbols a b t0 t1 (new_runner cfg wid fid) = (r', Some res)" and "t \<in> set (mr_trades res)"
  shows "a \<le> st_entry_ts_ms t \<and> st_entry_ts_ms t \<le> b \<and> st_symbol t \<in> set symbols"
proof -
  obtain stats r1 where run: "run_events cfg (replay_stream_multi rdb symbols a b) (new_stats\<lparr>wall_start_ms := a, wall_end_ms := b\<rparr>) (new_runner cfg wid fid) = (stats, r1, True)"
    and tr: "mr_trades res = s_trades (sim_finalize (rc_sim cfg) b Map.empty (rn_sim r1))"
    using runner_run_from [OF assms(1)] by metis
  let ?P = "\<lambda>(s, t). a \<le> t \<and> t \<le> b \<and> s \<in> set symbols"
  have w: "sim_sound r1 \<and> (\<forall>x \<in># ledger (rn_sim r1). ?P x)"
    by (rule run_ledger_within [OF run])
       (auto simp: sim_sound_def new_runner_def sim_init_def ledger_def dest: replay_multi_range)
  have "(st_symbol t, st_entry_ts_ms t) \<in># mset (map (\<lambda>t. (st_symbol t, st_entry_ts_ms t)) (mr_trades res))" using assms(2) by force
  moreover have "mset (map (\<lambda>t. (st_symbol t, st_entry_ts_ms t)) (mr_trades res)) = ledger (rn_sim r1)"
    unfolding tr by (rule finalize_ledger) (use w in \<open>simp add: sim_sound_def\<close>)
  ultimately have m: "(st_symbol t, st_entry_ts_ms t) \<in># ledger (rn_sim r1)" by (simp only:)
  from bspec [OF conjunct2 [OF w] m] show ?thesis by simp
qed

lemma run_fold_trades:
  assumes "run_fold cfg rdb symbols t0 t1 w = Some fr"
  shows "fr_window fr = w \<and> list_all (\<lambda>t. train_start_ms w \<le> st_entry_ts_ms t \<and> test_start_ms w \<le> st_entry_ts_ms t
       \<and> st_entry_ts_ms t \<le> test_end_ms w \<and> st_symbol t \<in> set symbols) (fr_trades fr)"
proof -
  obtain r' res where r: "runner_run cfg rdb symbols (train_start_ms w) (test_end_ms w) t0 t1 (new_runner cfg 0 (int (fw_id w))) = (r', Some res)"
    using assms by (auto simp: run_fold_def split: prod.splits option.splits)
  then show ?thesis using assms run_trades_within [OF r] by (auto simp: run_fold_def list_all_iff)
qed

lemma run_folds_results:
  "run_folds wcfg cfg rdb symbols clock ws frs = Inr frs' \<Longrightarrow>
     \<exists>new. frs' = frs @ new \<and> map fr_window new = ws
       \<and> list_all (\<lambda>fr. run_fold cfg rdb symbols (clock (2 * fw_id (fr_window fr))) (clock (2 * fw_id (fr_window fr) + 1)) (fr_window fr) = Some fr) new"
proof (induction ws arbitrary: frs)
  case (Cons w ws)
  obtain fr where fr: "run_fold cfg rdb symbols (clock (2 * fw_id w)) (clock (2 * fw_id w + 1)) w = Some fr"
    and rest: "run_folds wcfg cfg rdb symbols clock ws (frs @ [fr]) = Inr frs'"
    using Cons.prems by (auto split: option.splits if_splits)
  from Cons.IH [OF rest] obtain new where "frs' = (frs @ [fr]) @ new" "map fr_window new = ws"
    "list_all (\<lambda>fr. run_fold cfg rdb symbols (clock (2 * fw_id (fr_window fr))) (clock (2 * fw_id (fr_window fr) + 1)) (fr_window fr) = Some fr) new" by blast
  then show ?case using fr run_fold_trades [OF fr] by (intro exI [of _ "fr # new"]) simp
qed simp

text \<open>C18: the folds of a result are the generated windows in order, and every trade that is reported for one was entered inside its
  test part, never during the warm-up, for a symbol that was asked for; the combined list is that of the folds.\<close>

theorem wf_out_of_sample:
  assumes "walk_run wcfg cfg rdb symbols clock a b = Some (Inr res)"
  shows "generate_folds wcfg a b = Some (map fr_window (wr_folds res)) \<and> wr_fold_count res = length (wr_folds res)
    \<and> wr_trades res = concat (map fr_trades (wr_folds res))
    \<and> list_all (\<lambda>fr. list_all (\<lambda>t. test_start_ms (fr_window fr) \<le> st_entry_ts_ms t \<and> st_entry_ts_ms t \<le> test_end_ms (fr_window fr)
         \<and> st_symbol t \<in> set symbols) (fr_trades fr)) (wr_folds res)"
proof -
  obtain ws frs where g: "generate_folds wcfg a b = Some ws" and f: "run_folds wcfg cfg rdb symbols clock ws [] = Inr frs"
    and res: "wr_folds res = frs" "wr_trades res = concat (map fr_trades frs)" "wr_fold_count res = length ws"
    using assms by (auto simp: walk_run_def split: option.splits if_splits sum.splits)
  from run_folds_results [OF f] obtain new where n: "frs = new" "map fr_window new = ws"
    "list_all (\<lambda>fr. run_fold cfg rdb symbols (clock (2 * fw_id (fr_window fr))) (clock (2 * fw_id (fr_window fr) + 1)) (fr_window fr) = Some fr) new"
    by auto
  have "list_all (\<lambda>fr. list_all (\<lambda>t. test_start_ms (fr_window fr) \<le> st_entry_ts_ms t \<and> st_entry_ts_ms t \<le> test_end_ms (fr_window fr)
         \<and> st_symbol t \<in> set symbols) (fr_trades fr)) frs"
    using n(3) run_fold_trades unfolding n(1) list_all_iff by blast
  moreover have ws: "map fr_window frs = ws" using n(1,2) by simp
  moreover have "length ws = length frs" unfolding ws [symmetric] by simp
  ultimately show ?thesis using g res by simp
qed

section \<open>The diagnostics of a fold\<close>

definition candle_secs :: "any_event list \<Rightarrow> int list" where
  "candle_secs evs = concat (map (\<lambda>ev. case ev of Ohlcv e \<Rightarrow> [Replay_Transport.ohlcv_event.o_sec e] | _ \<Rightarrow> []) evs)"

definition seen_after :: "int list option \<Rightarrow> int list \<Rightarrow> int list option" where
  "seen_after old new = (if new = [] then old else Some ((case old of None \<Rightarrow> [] | Some l \<Rightarrow> l) @ new))"

lemma rest_seen [simp]:
  "rn_seen_secs (fold (enter_one cfg s t) es r) = rn_seen_secs r" "rn_seen_secs (note_cooldown s t b r) = rn_seen_secs r"
  "rn_seen_secs (record_drop reason s t r) = rn_seen_secs r" "rn_seen_secs (ensure_symbol s r) = rn_seen_secs r"
proof -
  show d: "rn_seen_secs (record_drop reason s t r) = rn_seen_secs r" for r reason by (simp add: record_drop_def)
  show "rn_seen_secs (fold (enter_one cfg s t) es r) = rn_seen_secs r"
    by (induction es arbitrary: r) (simp_all add: enter_one_def split_beta Let_def d)
  show "rn_seen_secs (note_cooldown s t b r) = rn_seen_secs r" by (simp add: note_cooldown_def Let_def d)
  show "rn_seen_secs (ensure_symbol s r) = rn_seen_secs r" by (simp add: ensure_symbol_def)
qed

lemma event_seen:
  assumes "runner_event cfg ev r = (r', ok)"
  shows "dget (rn_seen_secs r') s = seen_after (dget (rn_seen_secs r) s) (candle_secs (if ev_symbol ev = s then [ev] else []))"
proof (cases ev)
  case (Ohlcv e)
  have "rn_seen_secs r' = rn_seen_secs (before_strategy cfg e r)"
    using assms by (auto simp: Ohlcv runner_on_ohlcv_def Let_def split: option.splits prod.splits)
  then show ?thesis
    by (auto simp: Ohlcv before_strategy_def Let_def seen_after_def candle_secs_def dict_simps split: option.split)
qed (use assms in \<open>auto simp: seen_after_def candle_secs_def runner_on_ticker_def Let_def\<close>)

lemma run_seen:
  "run_events cfg evs stats r = (stats', r', True) \<Longrightarrow>
     dget (rn_seen_secs r') s = seen_after (dget (rn_seen_secs r) s) (candle_secs (filter (\<lambda>ev. ev_symbol ev = s) evs))"
proof (induction evs arbitrary: stats r)
  case (Cons ev evs)
  obtain r1 where e: "runner_event cfg ev r = (r1, True)" "run_events cfg evs (count_event ev stats) r1 = (stats', r', True)"
    using Cons.prems(1) by (auto split: prod.splits bool.splits)
  have "seen_after (seen_after old xs) ys = seen_after old (xs @ ys)" for old xs ys by (simp add: seen_after_def)
  then show ?case
    using Cons.IH [OF e(2)] event_seen [OF e(1), of s] by (auto simp: candle_secs_def seen_after_def split: if_splits)
qed (simp add: seen_after_def candle_secs_def)

lemma sort_key_Nil: "sort_key f xs = [] \<longleftrightarrow> xs = []"
  by (metis length_0_conv length_sort)

text \<open>The candle seconds of a symbol's stream are those of its rows, in order.\<close>

lemma candle_secs_stream:
  "candle_secs (replay_stream rdb s a b) =
     map or_sec (sort_key or_sec (filter (\<lambda>r. or_symbol r = s \<and> a \<le> or_sec r * 1000 \<and> or_sec r * 1000 \<le> b) (trades_ohlcv_1s rdb)))"
proof -
  let ?is = "\<lambda>ev. event_rank ev = 0"
  have c: "candle_secs evs = candle_secs (filter ?is evs)" for evs
    by (induction evs) (auto simp: candle_secs_def split: any_event.split)
  have "filter ?is (replay_stream rdb s a b) = sort_key merge_key (filter ?is (concat (replay_gens rdb [s] a b)))"
    unfolding stream_one [symmetric] stream_multi_sort filter_sort by (rule refl)
  moreover have "filter ?is (ohlcv_gen rdb s a b) = ohlcv_gen rdb s a b" "filter ?is (depth_gen rdb s a b) = []" "filter ?is (ticker_gen rdb s a b) = []"
    by (auto simp: ohlcv_gen_def depth_gen_def ticker_gen_def filter_id_conv filter_empty_conv)
  then have "filter ?is (concat (replay_gens rdb [s] a b)) = ohlcv_gen rdb s a b"
    by (simp add: replay_gens_def Let_def)
  moreover have "sort_key merge_key (ohlcv_gen rdb s a b) = ohlcv_gen rdb s a b" by (rule sort_key_id_if_sorted) simp
  ultimately have "filter ?is (replay_stream rdb s a b) = ohlcv_gen rdb s a b" by (simp only:)
  then have "candle_secs (replay_stream rdb s a b) = candle_secs (ohlcv_gen rdb s a b)" by (subst c) (simp only:)
  also have "\<dots> = map or_sec (sort_key or_sec (filter (\<lambda>r. or_symbol r = s \<and> a \<le> or_sec r * 1000 \<and> or_sec r * 1000 \<le> b) (trades_ohlcv_1s rdb)))"
    by (simp add: candle_secs_def ohlcv_gen_def ohlcv_of_row_def comp_def)
  finally show ?thesis .
qed

lemma collected_secs:
  "s \<in> set symbols \<Longrightarrow> dget (collect_ohlcv_secs rdb symbols a b) s =
     Some (map or_sec (sort_key or_sec (filter (\<lambda>r. or_symbol r = s \<and> a \<le> or_sec r * 1000 \<and> or_sec r * 1000 \<le> b) (trades_ohlcv_1s rdb))))"
proof -
  have "dget (foldl (\<lambda>out s. dset out s (f s)) d xs) s = (if s \<in> set xs then Some (f s) else dget d s)" for f :: "string \<Rightarrow> int list" and d xs
    by (induction xs arbitrary: d) (auto simp: dict_simps)
  then show "s \<in> set symbols \<Longrightarrow> ?thesis" by (simp add: collect_ohlcv_secs_def)
qed

lemma dget_map_key: "dget (map (\<lambda>(k, v). (k, f k v)) d) s = map_option (f s) (dget d s)"
  by (induction d) (auto simp: dget_Cons)

text \<open>Lemma: the data quality a fold reports for a symbol, made from the seconds the runner happened to see, is the one that the coverage
  query over the test part gives, for every symbol with a candle in the fold's whole range; the others are missing.\<close>

theorem wf_quality_is_coverage:
  assumes "run_fold cfg rdb symbols t0 t1 w = Some fr" and "s \<in> set symbols" and "train_start_ms w \<le> test_start_ms w"
  shows "dget (fr_data_quality fr) s =
    (if filter (\<lambda>r. or_symbol r = s \<and> train_start_ms w \<le> or_sec r * 1000 \<and> or_sec r * 1000 \<le> test_end_ms w) (trades_ohlcv_1s rdb) = [] then None
     else dget (collect_data_quality rdb symbols (test_start_ms w) (test_end_ms w)) s)"
proof -
  let ?rows = "filter (\<lambda>r. or_symbol r = s \<and> train_start_ms w \<le> or_sec r * 1000 \<and> or_sec r * 1000 \<le> test_end_ms w) (trades_ohlcv_1s rdb)"
  let ?in = "\<lambda>x. test_start_ms w \<le> x * 1000 \<and> x * 1000 \<le> test_end_ms w"
  obtain r' res where run: "runner_run cfg rdb symbols (train_start_ms w) (test_end_ms w) t0 t1 (new_runner cfg 0 (int (fw_id w))) = (r', Some res)"
    and q: "fr_data_quality fr = map (\<lambda>(sym, secs). (sym, analyze_secs sym (filter ?in secs) 1)) (rn_seen_secs r')"
    using assms(1) by (auto simp: run_fold_def split: prod.splits option.splits)
  obtain stats r1 where ev: "run_events cfg (replay_stream_multi rdb symbols (train_start_ms w) (test_end_ms w))
      (new_stats\<lparr>wall_start_ms := train_start_ms w, wall_end_ms := test_end_ms w\<rparr>) (new_runner cfg 0 (int (fw_id w))) = (stats, r1, True)"
    and s1: "rn_seen_secs r' = rn_seen_secs r1"
    using runner_run_from [OF run] by metis
  have seen: "dget (rn_seen_secs r') s = (if ?rows = [] then None else Some (map or_sec (sort_key or_sec ?rows)))"
    using run_seen [OF ev, of s] by (simp add: s1 stream_multi_filter [OF assms(2)] candle_secs_stream new_runner_def seen_after_def sort_key_Nil)
  have "filter ?in (map or_sec (sort_key or_sec ?rows)) = map or_sec (sort_key or_sec (filter (\<lambda>r. ?in (or_sec r)) ?rows))"
    by (simp add: filter_map filter_sort comp_def)
  also have "filter (\<lambda>r. ?in (or_sec r)) ?rows = filter (\<lambda>r. or_symbol r = s \<and> ?in (or_sec r)) (trades_ohlcv_1s rdb)"
    using assms(3) by (auto intro!: filter_cong)
  finally show ?thesis
    by (simp add: q dget_map_key seen collect_data_quality_def collected_secs [OF assms(2)])
qed

section \<open>One fold\<close>

definition gap_walk :: walk_config where
  "gap_walk = \<lparr>wf_train_ms = 8000, wf_test_ms = 91000, wf_step_ms = None, wf_min_folds = 1, wf_fail_fast = False\<rparr>"

definition gap_fold :: fold_window where
  "gap_fold = fold_at gap_walk 0 0"

definition gap_fold_result :: "fold_result option" where
  "gap_fold_result = run_fold gap_config gap_db [''B'', ''A''] 0 1 gap_fold"

lemma gap_fold_some: "gap_fold_result = Some (the gap_fold_result)"
proof -
  obtain r res where "gap_run = (r, Some res)" using gap_run_result(1) by blast
  then show ?thesis by (simp add: gap_fold_result_def run_fold_def gap_fold_def fold_at_def gap_walk_def gap_run_def)
qed

lemma wf_quality_is_coverage_witness:
  "map_option q_gaps (dget (fr_data_quality (the gap_fold_result)) ''B'') = Some [(10, 16)]"
proof -
  have "dget (collect_data_quality gap_db [''B'', ''A''] 8000 99000) ''B'' = Some (analyze_secs ''B'' [10, 16] 1)"
    by (simp add: collect_data_quality_def dget_map_key collected_secs gap_db_def gap_row_def)
  then show ?thesis
    using wf_quality_is_coverage [OF gap_fold_some [unfolded gap_fold_result_def], folded gap_fold_result_def, of "''B''"]
    by (simp add: gap_fold_def fold_at_def gap_walk_def gap_db_def gap_row_def analyze_secs_def)
qed

lemma wf_out_of_sample_witness:
  "\<exists>res. walk_run gap_walk gap_config gap_db [''B'', ''A''] of_nat 0 99000 = Some (Inr res) \<and> wr_fold_count res = 1
     \<and> map fr_window (wr_folds res) = [fold_at gap_walk 0 0]"
proof -
  have w: "\<not> wf_fail_fast gap_walk" "wf_min_folds gap_walk = 1" by (simp_all add: gap_walk_def)
  have g: "generate_folds gap_walk 0 99000 = Some [gap_fold]"
    by (simp add: generate_folds_def fold_loop.simps gap_walk_def gap_fold_def effective_step_ms_def)
  have "run_fold gap_config gap_db [''B'', ''A''] (of_nat (2 * fw_id gap_fold)) (of_nat (2 * fw_id gap_fold + 1)) gap_fold = Some (the gap_fold_result)"
    using gap_fold_some by (simp add: gap_fold_result_def gap_fold_def fold_at_def)
  then have "\<exists>res. walk_run gap_walk gap_config gap_db [''B'', ''A''] of_nat 0 99000 = Some (Inr res)"
    using w by (simp add: walk_run_def g)
  then obtain res where res: "walk_run gap_walk gap_config gap_db [''B'', ''A''] of_nat 0 99000 = Some (Inr res)" by blast
  from wf_out_of_sample [OF res] have m: "map fr_window (wr_folds res) = [gap_fold]" "wr_fold_count res = length (wr_folds res)" using g by auto
  from arg_cong [OF m(1), of length] have "wr_fold_count res = 1" using m(2) by simp
  then show ?thesis using res m(1) by (auto simp: gap_fold_def)
qed

end
