(* ===== verification/Multi_Report.thy ===== *)
theory Multi_Report
  imports Walk_Forward
begin

text \<open>
  \<^verbatim>\<open>src/backtest/multi_report.py\<close>: coverage of the collected seconds, the profiles with their thresholds,
  the counts of dropped entries, the claim, and the report built from them. Of the payload the model has the fields the
  module reads. Warnings keep their kind and numbers; their text is left out, and so is the echo of the payload.
\<close>

section \<open>Constants\<close>

definition SCHEMA_VERSION :: int where "SCHEMA_VERSION = 1"

datatype claim = CLAIM_CAPABLE | CLAIM_SYNTHETIC_VALIDATED | CLAIM_SINGLE_SYMBOL_REAL | CLAIM_MULTI_SYMBOL_REAL

definition PROFILE_LEGACY :: string where "PROFILE_LEGACY = ''legacy''"
definition PROFILE_LENIENT :: string where "PROFILE_LENIENT = ''lenient''"
definition PROFILE_STRICT :: string where "PROFILE_STRICT = ''strict''"

definition PROFILE_CHOICES :: "string list" where
  "PROFILE_CHOICES = [PROFILE_LEGACY, PROFILE_LENIENT, PROFILE_STRICT]"

definition STRICT_MIN_COMPLETENESS :: rat where "STRICT_MIN_COMPLETENESS = rnd (95 / 100)"
definition STRICT_MAX_GAP_MS :: int where "STRICT_MAX_GAP_MS = 30 * 60 * 1000"
definition LENIENT_MIN_COMPLETENESS :: rat where "LENIENT_MIN_COMPLETENESS = rnd (85 / 100)"
definition LENIENT_MAX_GAP_MS :: int where "LENIENT_MAX_GAP_MS = 60 * 60 * 1000"
definition OHLCV_INTERVAL_SEC :: int where "OHLCV_INTERVAL_SEC = 1"
definition TICKER_INTERVAL_SEC :: int where "TICKER_INTERVAL_SEC = 60"
definition DEPTH_INTERVAL_SEC :: int where "DEPTH_INTERVAL_SEC = 60"
definition GAPS_SAMPLE_MAX :: nat where "GAPS_SAMPLE_MAX = 10"

definition round6 :: "rat \<Rightarrow> rat" where
  "round6 x = round_digits 6 x"

section \<open>Coverage\<close>

record symbol_coverage =
  sc_completeness :: rat
  sc_sample_count :: nat
  sc_expected_count :: int
  sc_span_sec :: int
  sc_max_gap_sec :: int
  sc_gap_count :: nat
  sc_gaps_sample :: "(int \<times> int) list"
  sc_gaps_truncated :: bool

record coverage =
  cv_by_symbol :: "(string, symbol_coverage) dict"
  cv_min_completeness :: rat
  cv_max_gap_ms :: int
  cv_symbol_count :: nat
  cv_anomaly :: bool

definition no_coverage :: symbol_coverage where
  "no_coverage = \<lparr>sc_completeness = 0, sc_sample_count = 0, sc_expected_count = 0, sc_span_sec = 0, sc_max_gap_sec = 0,
     sc_gap_count = 0, sc_gaps_sample = [], sc_gaps_truncated = False\<rparr>"

definition coverage_of :: "quality_report \<Rightarrow> symbol_coverage" where
  "coverage_of rep = \<lparr>sc_completeness = round6 (q_completeness rep), sc_sample_count = q_sample_count rep,
     sc_expected_count = q_expected_count rep, sc_span_sec = q_span_sec rep, sc_max_gap_sec = q_max_gap_sec rep,
     sc_gap_count = q_gap_count rep, sc_gaps_sample = take GAPS_SAMPLE_MAX (q_gaps rep),
     sc_gaps_truncated = (GAPS_SAMPLE_MAX < q_gap_count rep)\<rparr>"

text \<open>One round of the loop: the entries so far, the least completeness, the longest gap, and whether seconds were repeated.\<close>

definition cover_symbol ::
  "int \<Rightarrow> string \<times> int list \<Rightarrow> (string, symbol_coverage) dict \<times> rat \<times> int \<times> bool \<Rightarrow> (string, symbol_coverage) dict \<times> rat \<times> int \<times> bool" where
  "cover_symbol interval item acc =
     (let (sym, secs) = item; (by_symbol, min_c, max_gap_ms, anomaly) = acc
      in if secs = [] then (dset by_symbol sym no_coverage, 0, max_gap_ms, anomaly)
         else let ds = sorted_list_of_set (set secs);
                  rep = analyze_secs sym ds interval;
                  gap_ms = q_max_gap_sec rep * 1000
              in (dset by_symbol sym (coverage_of rep),
                  (if q_completeness rep < min_c then q_completeness rep else min_c),
                  (if max_gap_ms < gap_ms then gap_ms else max_gap_ms),
                  anomaly \<or> length ds \<noteq> length secs))"

definition coverage_report :: "(string, int list) dict \<Rightarrow> int \<Rightarrow> coverage" where
  "coverage_report secs_by_symbol interval =
     (let (by_symbol, min_c, max_gap_ms, anomaly) = fold (cover_symbol interval) secs_by_symbol ([], 1, 0, False)
      in \<lparr>cv_by_symbol = by_symbol, cv_min_completeness = round6 min_c, cv_max_gap_ms = max_gap_ms,
          cv_symbol_count = length by_symbol, cv_anomaly = anomaly\<rparr>)"

section \<open>Profiles\<close>

datatype warning = LenientCompleteness rat | LenientGap int | StrictViolated rat int

definition apply_profile :: "string \<Rightarrow> coverage \<Rightarrow> (bool \<times> warning list) option" where
  "apply_profile profile cv =
     (let c = cv_min_completeness cv; g = cv_max_gap_ms cv
      in if profile = PROFILE_LEGACY then Some (False, [])
         else if profile = PROFILE_LENIENT
         then Some (False, (if c < LENIENT_MIN_COMPLETENESS then [LenientCompleteness c] else [])
                           @ (if LENIENT_MAX_GAP_MS < g then [LenientGap g] else []))
         else if profile = PROFILE_STRICT
         then (if c < STRICT_MIN_COMPLETENESS \<or> STRICT_MAX_GAP_MS < g then Some (True, [StrictViolated c g]) else Some (False, []))
         else None)"

record data_quality =
  dq_profile :: string
  dq_coverage :: coverage
  dq_warnings :: "warning list"
  dq_fail_fast :: bool

definition data_quality_report :: "coverage \<Rightarrow> string \<Rightarrow> warning list \<Rightarrow> bool \<Rightarrow> data_quality" where
  "data_quality_report cv profile warnings ff = \<lparr>dq_profile = profile, dq_coverage = cv, dq_warnings = warnings, dq_fail_fast = ff\<rparr>"

section \<open>Dropped entries, claim, excluded symbols\<close>

record drop_item =
  di_reason :: "string option"
  di_symbol :: "string option"

definition or_unknown :: "string option \<Rightarrow> string" where
  "or_unknown x = (case x of None \<Rightarrow> ''unknown'' | Some s \<Rightarrow> s)"

definition bump_count :: "string \<Rightarrow> (string, nat) dict \<Rightarrow> (string, nat) dict" where
  "bump_count k d = dset d k ((case dget d k of None \<Rightarrow> 0 | Some n \<Rightarrow> n) + 1)"

definition dropped_aggregation :: "drop_item list \<Rightarrow> (string, nat) dict \<times> (string, nat) dict" where
  "dropped_aggregation ds =
     fold (\<lambda>d (by_reason, by_symbol). (bump_count (or_unknown (di_reason d)) by_reason, bump_count (or_unknown (di_symbol d)) by_symbol)) ds ([], [])"

definition compute_claim :: "bool \<Rightarrow> bool \<Rightarrow> bool \<Rightarrow> bool \<Rightarrow> claim" where
  "compute_claim multi_symbol_capable synthetic_validated single_symbol_real multi_symbol_real =
     (if multi_symbol_real then CLAIM_MULTI_SYMBOL_REAL
      else if single_symbol_real then CLAIM_SINGLE_SYMBOL_REAL
      else if synthetic_validated then CLAIM_SYNTHETIC_VALIDATED
      else if multi_symbol_capable then CLAIM_CAPABLE
      else CLAIM_CAPABLE)"

record excluded_report =
  ex_all :: "string list"
  ex_effective :: "string list"
  ex_version :: int

definition excluded_of :: "string list option \<Rightarrow> int \<Rightarrow> string list option \<Rightarrow> excluded_report" where
  "excluded_of all_excluded version requested =
     (let all_set = set (case all_excluded of None \<Rightarrow> [] | Some l \<Rightarrow> l); req = set (case requested of None \<Rightarrow> [] | Some l \<Rightarrow> l)
      in \<lparr>ex_all = sorted_list_of_set all_set, ex_effective = sorted_list_of_set (req \<inter> all_set), ex_version = version\<rparr>)"

section \<open>The report\<close>

record payload =
  pl_mode :: "string option"
  pl_dropped :: "drop_item list"
  pl_combined_dropped :: "drop_item list"
  pl_trades :: "string option list"
  pl_combined_trades :: "string option list"
  pl_folds :: "(fold_window option \<times> string option list) list"
  pl_fold_count :: int
  pl_single_fold :: bool

record report_args =
  ra_schema_version :: int
  ra_profile :: string
  ra_symbols :: "string list option"
  ra_synthetic :: bool
  ra_excluded :: "string list option"
  ra_excluded_version :: int
  ra_requested :: "string list option"
  ra_ohlcv_secs :: "(string, int list) dict"
  ra_ticker_secs :: "(string, int list) dict"
  ra_depth_secs :: "(string, int list) dict"

definition default_report_args :: report_args where
  "default_report_args = \<lparr>ra_schema_version = SCHEMA_VERSION, ra_profile = PROFILE_LEGACY, ra_symbols = None, ra_synthetic = False,
     ra_excluded = None, ra_excluded_version = 0, ra_requested = None, ra_ohlcv_secs = [], ra_ticker_secs = [], ra_depth_secs = []\<rparr>"

record multi_report =
  mp_schema_version :: int
  mp_mode :: string
  mp_profile :: string
  mp_multi_symbol_capable :: bool
  mp_synthetic_validated :: bool
  mp_real_multi_validated :: bool
  mp_single_real_walkforward :: bool
  mp_real_symbols :: "string list"
  mp_data_quality :: data_quality
  mp_ticker_coverage :: coverage
  mp_depth_coverage :: coverage
  mp_global_limit_exercised :: bool
  mp_dropped_count :: nat
  mp_dropped :: "drop_item list"
  mp_by_reason :: "(string, nat) dict"
  mp_by_symbol :: "(string, nat) dict"
  mp_excluded :: excluded_report
  mp_fold_count :: int
  mp_single_fold :: bool
  mp_claim :: claim
  mp_fold_windows :: "fold_window option list"

datatype report_error = UnknownProfile | UnknownMode | StrictProfileViolated "warning list"

text \<open>\<^verbatim>\<open>if s:\<close> leaves out missing and empty symbols.\<close>

definition named_symbols :: "string option list \<Rightarrow> string list" where
  "named_symbols xs = filter (\<lambda>s. s \<noteq> '''') (List.map_filter (\<lambda>x. x) xs)"

definition real_symbols :: "report_args \<Rightarrow> payload \<Rightarrow> bool \<Rightarrow> string list" where
  "real_symbols args pl walk =
     (case ra_symbols args of
        Some (s # ss) \<Rightarrow> sorted_list_of_set (set (s # ss))
      | _ \<Rightarrow> sorted_list_of_set (set (named_symbols (pl_trades pl) @ named_symbols (pl_combined_trades pl)
               @ concat (map (\<lambda>(w, ts). named_symbols ts) (if walk then pl_folds pl else [])))))"

definition build_multi_report :: "payload \<Rightarrow> report_args \<Rightarrow> report_error + multi_report" where
  "build_multi_report pl args =
     (let profile = ra_profile args; mode = (case pl_mode pl of None \<Rightarrow> ''single'' | Some m \<Rightarrow> m)
      in if profile \<notin> set PROFILE_CHOICES then Inl UnknownProfile
         else if mode \<notin> {''single'', ''multi'', ''walkforward''} then Inl UnknownMode
         else
           let walk = (mode = ''walkforward'');
               dq_ohlcv = coverage_report (ra_ohlcv_secs args) OHLCV_INTERVAL_SEC;
               ticker_cov = coverage_report (ra_ticker_secs args) TICKER_INTERVAL_SEC;
               depth_cov = coverage_report (ra_depth_secs args) DEPTH_INTERVAL_SEC
           in case apply_profile profile dq_ohlcv of
                None \<Rightarrow> Inl UnknownProfile
              | Some (True, warnings) \<Rightarrow> Inl (StrictProfileViolated warnings)
              | Some (False, warnings) \<Rightarrow>
                  (let dropped = (if walk then pl_combined_dropped pl else pl_dropped pl);
                       (by_reason, by_symbol) = dropped_aggregation dropped;
                       real = real_symbols args pl walk;
                       capable = (mode \<in> {''multi'', ''walkforward''});
                       single_real = (walk \<and> length real = 1);
                       multi_real = (walk \<and> 4 \<le> length real)
                   in Inr \<lparr>mp_schema_version = ra_schema_version args, mp_mode = mode, mp_profile = profile,
                           mp_multi_symbol_capable = capable, mp_synthetic_validated = ra_synthetic args,
                           mp_real_multi_validated = multi_real, mp_single_real_walkforward = single_real, mp_real_symbols = real,
                           mp_data_quality = data_quality_report dq_ohlcv profile warnings False,
                           mp_ticker_coverage = ticker_cov, mp_depth_coverage = depth_cov,
                           mp_global_limit_exercised = (0 < (case dget by_reason ''global_limit_full'' of None \<Rightarrow> 0 | Some n \<Rightarrow> n)),
                           mp_dropped_count = length dropped, mp_dropped = dropped, mp_by_reason = by_reason, mp_by_symbol = by_symbol,
                           mp_excluded = excluded_of (ra_excluded args) (ra_excluded_version args) (ra_requested args),
                           mp_fold_count = (if walk then pl_fold_count pl else 0), mp_single_fold = (walk \<and> pl_single_fold pl),
                           mp_claim = compute_claim capable (ra_synthetic args) single_real multi_real,
                           mp_fold_windows = (if walk then map fst (pl_folds pl) else [])\<rparr>))"

section \<open>The verdict\<close>

text \<open>What the loop over the symbols computes: the least completeness, starting from one, and the longest gap, over the sets of seconds.\<close>

definition completeness_of :: "int \<Rightarrow> string \<times> int list \<Rightarrow> rat" where
  "completeness_of interval item = q_completeness (analyze_secs (fst item) (sorted_list_of_set (set (snd item))) interval)"

definition gap_ms_of :: "int \<Rightarrow> string \<times> int list \<Rightarrow> int" where
  "gap_ms_of interval item = q_max_gap_sec (analyze_secs (fst item) (sorted_list_of_set (set (snd item))) interval) * 1000"

definition worst_completeness :: "int \<Rightarrow> (string, int list) dict \<Rightarrow> rat" where
  "worst_completeness interval d = foldl min 1 (map (completeness_of interval) d)"

definition longest_gap_ms :: "int \<Rightarrow> (string, int list) dict \<Rightarrow> int" where
  "longest_gap_ms interval d = foldl max 0 (map (gap_ms_of interval) d)"

lemma gap_max_nonneg: "0 \<le> m \<Longrightarrow> 0 \<le> snd (gap_loop interval secs gaps m)"
  by (induction interval secs gaps m rule: gap_loop.induct) auto

lemma completeness_nonneg: "0 \<le> completeness_of interval item"
  by (simp add: completeness_of_def analyze_secs_def Let_def split_beta fdiv_nonneg)

lemma gap_ms_nonneg: "0 \<le> gap_ms_of interval item"
  using gap_max_nonneg [of 0] by (simp add: gap_ms_of_def analyze_secs_def Let_def split_beta)

lemma cover_fold:
  assumes "0 \<le> c" and "0 \<le> g"
  shows "\<exists>by an. fold (cover_symbol interval) d (by0, c, g, an0)
     = (by, foldl min c (map (completeness_of interval) d), foldl max g (map (gap_ms_of interval) d), an)"
  using assms
proof (induction d arbitrary: by0 c g an0)
  case (Cons item d)
  obtain by1 an1 where step: "cover_symbol interval item (by0, c, g, an0) = (by1, min c (completeness_of interval item), max g (gap_ms_of interval item), an1)"
  proof (cases "snd item = []")
    case True
    then show ?thesis
      using that [of "dset by0 (fst item) no_coverage" an0] Cons.prems
      by (simp add: cover_symbol_def completeness_of_def gap_ms_of_def analyze_secs_def split_beta)
  next
    case False
    let ?ds = "sorted_list_of_set (set (snd item))"
    show ?thesis
      using that [of "dset by0 (fst item) (coverage_of (analyze_secs (fst item) ?ds interval))" "an0 \<or> length ?ds \<noteq> length (snd item)"] False
      by (simp add: cover_symbol_def Let_def split_beta completeness_of_def gap_ms_of_def min_def max_def)
  qed
  show ?case
    using Cons.IH [of "min c (completeness_of interval item)" "max g (gap_ms_of interval item)" by1 an1]
      Cons.prems completeness_nonneg [of interval item] by (simp add: step max_def)
qed simp

lemma coverage_worst:
  "cv_min_completeness (coverage_report d interval) = round6 (worst_completeness interval d)"
  "cv_max_gap_ms (coverage_report d interval) = longest_gap_ms interval d"
proof -
  obtain by0 an where f: "fold (cover_symbol interval) d ([], 1, 0, False) =
      (by0, foldl min 1 (map (completeness_of interval) d), foldl max 0 (map (gap_ms_of interval) d), an)"
    using cover_fold [of 1 0 interval d "[]" False] by (metis order_refl zero_le_one)
  show "cv_min_completeness (coverage_report d interval) = round6 (worst_completeness interval d)"
    "cv_max_gap_ms (coverage_report d interval) = longest_gap_ms interval d"
    by (simp_all add: coverage_report_def f worst_completeness_def longest_gap_ms_def)
qed

definition known_mode :: "payload \<Rightarrow> bool" where
  "known_mode pl \<longleftrightarrow> pl_mode pl \<in> {None, Some ''single'', Some ''multi'', Some ''walkforward''}"

definition strictly_bad :: "report_args \<Rightarrow> bool" where
  "strictly_bad args \<longleftrightarrow> ra_profile args = PROFILE_STRICT
     \<and> (round6 (worst_completeness 1 (ra_ohlcv_secs args)) < rnd (95 / 100) \<or> 1800000 < longest_gap_ms 1 (ra_ohlcv_secs args))"

text \<open>Lemma: the report is refused exactly for an unknown profile, then for an unknown mode, then, in the strict profile, when the least
  completeness over the symbols, rounded to a millionth, is below 95 percent or some gap is longer than half an hour; no other profile fails.\<close>

theorem report_verdict:
  "case build_multi_report pl args of
     Inl UnknownProfile \<Rightarrow> ra_profile args \<notin> set PROFILE_CHOICES
   | Inl UnknownMode \<Rightarrow> ra_profile args \<in> set PROFILE_CHOICES \<and> \<not> known_mode pl
   | Inl (StrictProfileViolated ws) \<Rightarrow> ra_profile args \<in> set PROFILE_CHOICES \<and> known_mode pl \<and> strictly_bad args
   | Inr rep \<Rightarrow> ra_profile args \<in> set PROFILE_CHOICES \<and> known_mode pl \<and> \<not> strictly_bad args
       \<and> mp_profile rep = ra_profile args \<and> mp_claim rep = (if 4 \<le> length (mp_real_symbols rep) \<and> mp_mode rep = ''walkforward'' then CLAIM_MULTI_SYMBOL_REAL
           else if length (mp_real_symbols rep) = 1 \<and> mp_mode rep = ''walkforward'' then CLAIM_SINGLE_SYMBOL_REAL
           else if ra_synthetic args then CLAIM_SYNTHETIC_VALIDATED else CLAIM_CAPABLE)"
proof -
  let ?cv = "coverage_report (ra_ohlcv_secs args) OHLCV_INTERVAL_SEC"
  have n: "PROFILE_LEGACY \<noteq> PROFILE_STRICT" "PROFILE_LENIENT \<noteq> PROFILE_STRICT" "PROFILE_LENIENT \<noteq> PROFILE_LEGACY"
    by (simp_all add: PROFILE_LEGACY_def PROFILE_LENIENT_def PROFILE_STRICT_def)
  have m: "(case pl_mode pl of None \<Rightarrow> ''single'' | Some m \<Rightarrow> m) \<in> {''single'', ''multi'', ''walkforward''} \<longleftrightarrow> known_mode pl"
    by (auto simp: known_mode_def split: option.splits)
  have p: "map_option fst (apply_profile (ra_profile args) ?cv) = (if ra_profile args \<in> set PROFILE_CHOICES then Some (strictly_bad args) else None)"
    using n by (auto simp: apply_profile_def PROFILE_CHOICES_def strictly_bad_def coverage_worst OHLCV_INTERVAL_SEC_def
        STRICT_MIN_COMPLETENESS_def STRICT_MAX_GAP_MS_def Let_def)
  show ?thesis
  proof (cases "ra_profile args \<in> set PROFILE_CHOICES \<and> known_mode pl")
    case False
    then show ?thesis using m by (auto simp: build_multi_report_def Let_def)
  next
    case True
    then obtain ws where a: "apply_profile (ra_profile args) ?cv = Some (strictly_bad args, ws)" using p by (auto simp: map_option_eq_Some)
    show ?thesis
      unfolding build_multi_report_def Let_def m a option.case prod.case
      using True by (cases "strictly_bad args") (auto simp: compute_claim_def split_beta)
  qed
qed

text \<open>Without any collected second there is nothing that could violate the strict profile.\<close>

lemma strict_without_data: "ra_ohlcv_secs args = [] \<Longrightarrow> \<not> strictly_bad args"
proof -
  have "round6 1 = 1" using round_half_even_of_int [of "1000000"] by (simp add: round6_def round_digits_def)
  moreover have "rnd (95 / 100) \<le> rnd 1" by (rule rnd_mono) simp
  ultimately show "ra_ohlcv_secs args = [] \<Longrightarrow> ?thesis" by (simp add: strictly_bad_def worst_completeness_def longest_gap_ms_def)
qed

section \<open>Counting what was dropped\<close>

lemma bump_fold:
  assumes "\<And>x. dget d x = (if count_list old x = 0 then None else Some (count_list old x))" and "dsum (\<lambda>_ n. n) d = length old"
  shows "(\<forall>x. dget (fold bump_count ks d) x = (if count_list (old @ ks) x = 0 then None else Some (count_list (old @ ks) x)))
    \<and> dsum (\<lambda>_ n. n) (fold bump_count ks d) = length (old @ ks)"
  using assms
proof (induction ks arbitrary: d old)
  case (Cons k ks)
  have g: "dget (bump_count k d) x = (if count_list (old @ [k]) x = 0 then None else Some (count_list (old @ [k]) x))" for x
    using Cons.prems(1) by (simp add: bump_count_def dict_simps)
  have "dsum (\<lambda>_ n. n) (bump_count k d) = length (old @ [k])"
  proof (cases "dget d k")
    case None
    then show ?thesis using Cons.prems(2) dsum_new [OF None, of "\<lambda>_ n. n" "1 :: nat"] by (simp add: bump_count_def)
  next
    case (Some n)
    then show ?thesis using Cons.prems(2) dsum_old [OF Some, of "\<lambda>_ n. n" "Suc n"] by (simp add: bump_count_def)
  qed
  from Cons.IH [OF g this] show ?case by simp
qed simp

lemma aggregation_split:
  "dropped_aggregation ds = (fold bump_count (map (or_unknown \<circ> di_reason) ds) [], fold bump_count (map (or_unknown \<circ> di_symbol) ds) [])"
proof -
  have "fold (\<lambda>d (by_reason, by_symbol). (bump_count (or_unknown (di_reason d)) by_reason, bump_count (or_unknown (di_symbol d)) by_symbol)) ds (a, b)
      = (fold bump_count (map (or_unknown \<circ> di_reason) ds) a, fold bump_count (map (or_unknown \<circ> di_symbol) ds) b)" for a b
    by (induction ds arbitrary: a b) simp_all
  then show ?thesis by (simp add: dropped_aggregation_def)
qed

text \<open>Lemma: the two tables of dropped entries have one row per reason and per symbol that occurs, with the number of its entries,
  so that each table sums to the reported number of drops; the global limit is reported as exercised exactly when a drop names it.\<close>

theorem report_drops_counted:
  assumes "build_multi_report pl args = Inr rep"
  shows "mp_dropped_count rep = length (mp_dropped rep)
    \<and> dget (mp_by_reason rep) x = (let n = count_list (map (or_unknown \<circ> di_reason) (mp_dropped rep)) x in if n = 0 then None else Some n)
    \<and> dget (mp_by_symbol rep) x = (let n = count_list (map (or_unknown \<circ> di_symbol) (mp_dropped rep)) x in if n = 0 then None else Some n)
    \<and> sum_list (map snd (mp_by_reason rep)) = mp_dropped_count rep \<and> sum_list (map snd (mp_by_symbol rep)) = mp_dropped_count rep
    \<and> (mp_global_limit_exercised rep \<longleftrightarrow> Some ''global_limit_full'' \<in> di_reason ` set (mp_dropped rep))"
proof -
  obtain r where agg: "mp_by_reason rep = fold bump_count (map (or_unknown \<circ> di_reason) (mp_dropped rep)) []"
    "mp_by_symbol rep = fold bump_count (map (or_unknown \<circ> di_symbol) (mp_dropped rep)) []" "mp_dropped_count rep = length (mp_dropped rep)"
    "mp_global_limit_exercised rep = (0 < (case dget (mp_by_reason rep) ''global_limit_full'' of None \<Rightarrow> 0 | Some n \<Rightarrow> n))"
    using assms by (auto simp: build_multi_report_def Let_def aggregation_split split: if_splits option.splits prod.splits bool.splits)
  note b = bump_fold [of "[]" "[]", simplified]
  have s: "dsum (\<lambda>_ n. n) d = sum_list (map snd d)" for d :: "(string, nat) dict" by (simp add: dsum_def case_prod_unfold)
  have ou: "or_unknown x = ''global_limit_full'' \<longleftrightarrow> x = Some ''global_limit_full''" for x
    by (simp add: or_unknown_def split: option.split)
  have u: "count_list (map (or_unknown \<circ> di_reason) ds) ''global_limit_full'' \<noteq> 0 \<longleftrightarrow> Some ''global_limit_full'' \<in> di_reason ` set ds" for ds
  proof -
    have "count_list (map (or_unknown \<circ> di_reason) ds) ''global_limit_full'' \<noteq> 0 \<longleftrightarrow> ''global_limit_full'' \<in> (or_unknown \<circ> di_reason) ` set ds"
      by (simp add: count_list_0_iff)
    also have "\<dots> \<longleftrightarrow> Some ''global_limit_full'' \<in> di_reason ` set ds"
      unfolding image_iff comp_apply eq_commute [of "''global_limit_full''"] eq_commute [of "Some ''global_limit_full''"] ou by (rule refl)
    finally show ?thesis .
  qed
  have t: "dget (fold bump_count ks []) x = (let n = count_list ks x in if n = 0 then None else Some n)"
    "sum_list (map snd (fold bump_count ks [])) = length ks" for ks x
    using b [of ks] by (simp_all add: Let_def s)
  have "mp_global_limit_exercised rep \<longleftrightarrow> Some ''global_limit_full'' \<in> di_reason ` set (mp_dropped rep)"
    unfolding u [symmetric] agg(4) unfolding agg(1) t by (simp add: Let_def)
  then show ?thesis unfolding agg(1-3) t by simp
qed

definition two_drops :: payload where
  "two_drops = \<lparr>pl_mode = Some ''multi'', pl_dropped = [\<lparr>di_reason = Some ''global_limit_full'', di_symbol = Some ''S''\<rparr>, \<lparr>di_reason = None, di_symbol = Some ''S''\<rparr>],
     pl_combined_dropped = [], pl_trades = [], pl_combined_trades = [], pl_folds = [], pl_fold_count = 0, pl_single_fold = False\<rparr>"

lemma report_drops_counted_witness:
  "\<exists>rep. build_multi_report two_drops default_report_args = Inr rep \<and> mp_dropped_count rep = 2 \<and> mp_global_limit_exercised rep
     \<and> dget (mp_by_symbol rep) ''S'' = Some 2"
proof -
  have "\<exists>rep. build_multi_report two_drops default_report_args = Inr rep \<and> mp_dropped rep = pl_dropped two_drops"
    by (auto simp: build_multi_report_def Let_def two_drops_def default_report_args_def apply_profile_def PROFILE_CHOICES_def split_beta)
  then obtain rep where rep: "build_multi_report two_drops default_report_args = Inr rep" "mp_dropped rep = pl_dropped two_drops" by blast
  from report_drops_counted [OF rep(1), of "''S''"] rep show ?thesis
    by (intro exI [of _ rep]) (simp add: two_drops_def or_unknown_def)
qed

end
