(* ===== verification/Universe_Scanner.thy ===== *)
theory Universe_Scanner
  imports Float64
begin

text \<open>
  \<^verbatim>\<open>src/data_layer/universe_scanner.py\<close>: the gate, the score, the two target sets, and the status of every symbol with
  its hysteresis and its count of flaps. The time of a refresh is an argument, and so is the order in which the set of
  symbols is visited, which the language leaves open.
\<close>

section \<open>Configuration and state\<close>

datatype universe_status = IN_TOP5 | IN_TOP10 | OUTSIDE_PENDING | DROPPED | UNKNOWN

record scanner_config =
  max_top :: int
  max_watch :: int
  min_spread_bps :: rat
  max_spread_bps :: rat
  min_oi_usd :: rat
  hysteresis_ms :: int
  max_pending_ms :: int
  flap_threshold :: int
  flap_window_ms :: int
  always_include :: "string list"
  weight_oi_change :: rat
  weight_liq :: rat
  weight_squeeze :: rat
  weight_funding :: rat
  weight_spread :: rat

definition default_scanner_config :: scanner_config where
  "default_scanner_config = \<lparr>max_top = 5, max_watch = 10, min_spread_bps = 5, max_spread_bps = 20, min_oi_usd = 50000000, hysteresis_ms = 300000,
     max_pending_ms = 600000, flap_threshold = 3, flap_window_ms = 300000, always_include = [''BTC_USDT''], weight_oi_change = rnd (3 / 10),
     weight_liq = rnd (3 / 10), weight_squeeze = rnd (2 / 10), weight_funding = rnd (1 / 10), weight_spread = rnd (1 / 10)\<rparr>"

record symbol_metrics =
  sm_symbol :: string
  sm_oi_change :: rat
  sm_liq :: rat
  sm_squeeze :: rat
  sm_funding :: rat
  sm_spread_bps :: rat
  sm_oi_usd :: rat

record symbol_state =
  ss_status :: universe_status
  ss_pending_since_ms :: int
  ss_flap_count :: int
  ss_last_flap_ms :: int
  ss_last_score :: rat

definition new_symbol_state :: symbol_state where
  "new_symbol_state = \<lparr>ss_status = UNKNOWN, ss_pending_since_ms = 0, ss_flap_count = 0, ss_last_flap_ms = 0, ss_last_score = 0\<rparr>"

record scanner =
  sc_states :: "(string, symbol_state) dict"
  sc_last_refresh_ms :: int

definition new_scanner :: scanner where
  "new_scanner = \<lparr>sc_states = [], sc_last_refresh_ms = 0\<rparr>"

section \<open>Gate, score and targets\<close>

definition scanner_score :: "scanner_config \<Rightarrow> symbol_metrics \<Rightarrow> rat" where
  "scanner_score w m =
     fadd (fadd (fadd (fadd (fmul (weight_oi_change w) (sm_oi_change m)) (fmul (weight_liq w) (sm_liq m)))
       (fmul (weight_squeeze w) (sm_squeeze m))) (fmul (weight_funding w) (sm_funding m))) (fmul (weight_spread w) (sm_spread_bps m))"

definition passes_gate :: "scanner_config \<Rightarrow> symbol_metrics \<Rightarrow> bool" where
  "passes_gate c m \<longleftrightarrow> \<not> sm_oi_usd m < min_oi_usd c \<and> \<not> sm_spread_bps m < min_spread_bps c \<and> \<not> max_spread_bps c < sm_spread_bps m"

definition eligible :: "scanner_config \<Rightarrow> symbol_metrics list \<Rightarrow> symbol_metrics list" where
  "eligible c ms = filter (\<lambda>m. sm_symbol m \<in> set (always_include c) \<or> passes_gate c m) ms"

text \<open>A sort in reverse keeps the order of equal scores.\<close>

definition scored :: "scanner_config \<Rightarrow> symbol_metrics list \<Rightarrow> symbol_metrics list" where
  "scored c ms = sort_key (\<lambda>m. - scanner_score c m) (eligible c ms)"

fun add_until :: "int \<Rightarrow> string set \<Rightarrow> symbol_metrics list \<Rightarrow> string set" where
  "add_until cap T [] = T"
| "add_until cap T (m # ms) = (if cap \<le> int (card T) then T else add_until cap (insert (sm_symbol m) T) ms)"

definition target_top5 :: "scanner_config \<Rightarrow> symbol_metrics list \<Rightarrow> string set" where
  "target_top5 c ms = add_until (max_top c) (set (always_include c)) (scored c ms)"

definition target_top10 :: "scanner_config \<Rightarrow> symbol_metrics list \<Rightarrow> string set" where
  "target_top10 c ms = add_until (max_watch c) (set (always_include c)) (scored c ms) \<union> target_top5 c ms"

section \<open>Transitions\<close>

definition record_flap :: "scanner_config \<Rightarrow> int \<Rightarrow> symbol_state \<Rightarrow> symbol_state" where
  "record_flap c now_ms st =
     (let n = (if flap_window_ms c < now_ms - ss_last_flap_ms st then 0 else ss_flap_count st)
      in st\<lparr>ss_flap_count := n + 1, ss_last_flap_ms := now_ms\<rparr>)"

definition is_flapping :: "scanner_config \<Rightarrow> int \<Rightarrow> symbol_state \<Rightarrow> bool" where
  "is_flapping c now_ms st \<longleftrightarrow> \<not> flap_window_ms c < now_ms - ss_last_flap_ms st \<and> flap_threshold c \<le> ss_flap_count st"

definition start_pending :: "int \<Rightarrow> symbol_state \<Rightarrow> symbol_state" where
  "start_pending now_ms st = (if ss_pending_since_ms st = 0 then st\<lparr>ss_pending_since_ms := now_ms\<rparr> else st)"

definition held_back :: "scanner_config \<Rightarrow> int \<Rightarrow> symbol_state \<Rightarrow> bool" where
  "held_back c now_ms st \<longleftrightarrow> now_ms - ss_pending_since_ms st < hysteresis_ms c \<or> is_flapping c now_ms st"

definition scan_symbol :: "scanner_config \<Rightarrow> int \<Rightarrow> string set \<Rightarrow> string set \<Rightarrow> string \<Rightarrow> symbol_state \<Rightarrow> symbol_state" where
  "scan_symbol c now_ms top5 top10 symbol st =
     (let current = ss_status st
      in if symbol \<in> top5 then
           (let st1 = (if current \<noteq> IN_TOP5 then record_flap c now_ms st else st)
            in st1\<lparr>ss_pending_since_ms := 0, ss_status := IN_TOP5\<rparr>)
         else if symbol \<in> top10 then
           (if current = IN_TOP5 then
              (let st1 = start_pending now_ms st
               in if held_back c now_ms st1 then st1\<lparr>ss_status := IN_TOP5\<rparr> else (record_flap c now_ms st1)\<lparr>ss_status := IN_TOP10\<rparr>)
            else if current = OUTSIDE_PENDING then st\<lparr>ss_pending_since_ms := 0, ss_status := IN_TOP10\<rparr>
            else (let st1 = (if current \<noteq> IN_TOP10 then record_flap c now_ms st else st) in st1\<lparr>ss_status := IN_TOP10\<rparr>))
         else
           (if current = IN_TOP5 \<or> current = IN_TOP10 then
              (let st1 = start_pending now_ms st
               in if held_back c now_ms st1 then st1\<lparr>ss_status := current\<rparr> else (record_flap c now_ms st1)\<lparr>ss_status := OUTSIDE_PENDING\<rparr>)
            else if current = OUTSIDE_PENDING then
              (if max_pending_ms c \<le> now_ms - ss_pending_since_ms st then st\<lparr>ss_status := DROPPED\<rparr> else st\<lparr>ss_status := OUTSIDE_PENDING\<rparr>)
            else st\<lparr>ss_status := DROPPED\<rparr>))"

definition state_of :: "(string, symbol_state) dict \<Rightarrow> string \<Rightarrow> symbol_state" where
  "state_of d symbol = (case dget d symbol of None \<Rightarrow> new_symbol_state | Some st \<Rightarrow> st)"

definition all_symbols :: "scanner_config \<Rightarrow> symbol_metrics list \<Rightarrow> scanner \<Rightarrow> string set" where
  "all_symbols c ms s = set (keys (sc_states s)) \<union> sm_symbol ` set ms \<union> set (always_include c)"

text \<open>\<^verbatim>\<open>refresh\<close> over the symbols in the order they are visited; the second component is the returned map.\<close>

definition refresh :: "scanner_config \<Rightarrow> int \<Rightarrow> symbol_metrics list \<Rightarrow> string list \<Rightarrow> scanner \<Rightarrow> scanner \<times> (string, universe_status) dict" where
  "refresh c now_ms ms order s =
     (let top5 = target_top5 c ms; top10 = target_top10 c ms;
          states = fold (\<lambda>symbol d. dset d symbol (scan_symbol c now_ms top5 top10 symbol (state_of d symbol))) order (sc_states s)
      in (\<lparr>sc_states = states, sc_last_refresh_ms = now_ms\<rparr>, map (\<lambda>symbol. (symbol, ss_status (state_of states symbol))) order))"

definition get_status :: "scanner \<Rightarrow> string \<Rightarrow> universe_status" where
  "get_status s symbol = (case dget (sc_states s) symbol of None \<Rightarrow> UNKNOWN | Some st \<Rightarrow> ss_status st)"

definition get_active_symbols :: "scanner \<Rightarrow> string list" where
  "get_active_symbols s = map fst (filter (\<lambda>(symbol, st). ss_status st \<in> {IN_TOP5, IN_TOP10}) (sc_states s))"

definition get_top5 :: "scanner \<Rightarrow> string list" where
  "get_top5 s = map fst (filter (\<lambda>(symbol, st). ss_status st = IN_TOP5) (sc_states s))"

definition status_counts :: "scanner \<Rightarrow> (universe_status, nat) dict" where
  "status_counts s = fold (\<lambda>(symbol, st) d. dset d (ss_status st) ((case dget d (ss_status st) of None \<Rightarrow> 0 | Some n \<Rightarrow> n) + 1)) (sc_states s) []"

section \<open>One refresh\<close>

lemma refresh_states:
  assumes "distinct order"
  shows "dget (sc_states (fst (refresh c now ms order s))) symbol =
    (if symbol \<in> set order then Some (scan_symbol c now (target_top5 c ms) (target_top10 c ms) symbol (state_of (sc_states s) symbol))
     else dget (sc_states s) symbol)"
proof -
  have "distinct order \<Longrightarrow> dget (fold (\<lambda>symbol d. dset d symbol (f symbol (state_of d symbol))) order d) symbol
      = (if symbol \<in> set order then Some (f symbol (state_of d symbol)) else dget d symbol)" for f d
    by (induction order arbitrary: d) (auto simp: dict_simps state_of_def)
  from this [OF assms] show ?thesis by (simp add: refresh_def Let_def)
qed

lemma refresh_keys: "set (keys (sc_states (fst (refresh c now ms order s)))) = set order \<union> set (keys (sc_states s))"
proof -
  have "set (keys (fold (\<lambda>symbol d. dset d symbol (f symbol d)) order d)) = set order \<union> set (keys d)" for f :: "string \<Rightarrow> _" and d
    by (induction order arbitrary: d) (auto simp: dict_simps)
  then show ?thesis by (simp add: refresh_def Let_def)
qed

lemma add_until_sub: "T \<subseteq> add_until cap T ms"
proof (induction ms arbitrary: T)
  case (Cons m ms)
  from Cons.IH [of "insert (sm_symbol m) T"] show ?case by auto
qed simp

lemma add_until_from: "add_until cap T ms \<subseteq> T \<union> sm_symbol ` set ms"
proof (induction ms arbitrary: T)
  case (Cons m ms)
  from Cons.IH [of "insert (sm_symbol m) T"] show ?case by auto
qed simp

lemma finite_add_until: "finite T \<Longrightarrow> finite (add_until cap T ms)"
  by (rule finite_subset [OF add_until_from]) simp

lemma add_until_card: "finite T \<Longrightarrow> int (card T) \<le> cap \<Longrightarrow> int (card (add_until cap T ms)) \<le> cap"
proof (induction ms arbitrary: T)
  case (Cons m ms)
  have "int (card (insert (sm_symbol m) T)) \<le> cap" if "\<not> cap \<le> int (card T)"
    using that Cons.prems(1) by (simp add: card_insert_if)
  then show ?case using Cons by simp
qed simp

text \<open>Who is taken is at least as good as who is not.\<close>

lemma add_until_best:
  assumes "sorted_wrt (\<lambda>m n. r n \<le> (r m :: rat)) ms" and "n \<in> set ms" and "sm_symbol n \<notin> add_until cap T ms" and "y \<in> add_until cap T ms - T"
  shows "\<exists>m \<in> set ms. sm_symbol m = y \<and> r n \<le> r m"
  using assms
proof (induction ms arbitrary: T)
  case (Cons m ms)
  have open_cap: "\<not> cap \<le> int (card T)" using Cons.prems(4) by (auto split: if_splits)
  have n: "n \<in> set ms" using Cons.prems(2,3) open_cap add_until_sub [of "insert (sm_symbol m) T" cap ms] by auto
  show ?case
  proof (cases "y = sm_symbol m")
    case True
    then show ?thesis using Cons.prems(1) n by auto
  next
    case False
    then have "\<exists>m \<in> set ms. sm_symbol m = y \<and> r n \<le> r m"
      using Cons.IH [of "insert (sm_symbol m) T"] Cons.prems n open_cap by auto
    then show ?thesis by auto
  qed
qed simp

lemma scored_sorted: "sorted_wrt (\<lambda>m n. scanner_score c n \<le> scanner_score c m) (scored c ms)"
  using sorted_sort_key [of "\<lambda>m. - scanner_score c m" "eligible c ms"] by (simp add: scored_def sorted_map sorted_wrt_iff_nth_less)

text \<open>Lemma: after a refresh every symbol of the top-five target is traded; the target holds the symbols that are always included,
  otherwise only symbols that passed the gate, none of them with a lower score than an eligible one that was left out, and at most
  the configured number.\<close>

theorem scanner_targets:
  fixes c now ms order s
  defines "T \<equiv> target_top5 c ms" and "s' \<equiv> fst (refresh c now ms order s)"
  assumes "distinct order" and "set order = all_symbols c ms s" and "int (card (set (always_include c))) \<le> max_top c"
  shows "(\<forall>x \<in> T. get_status s' x = IN_TOP5) \<and> set (always_include c) \<subseteq> T \<and> int (card T) \<le> max_top c
    \<and> (\<forall>x \<in> T - set (always_include c). \<exists>m \<in> set ms. sm_symbol m = x \<and> passes_gate c m
         \<and> (\<forall>n \<in> set (eligible c ms). sm_symbol n \<notin> T \<longrightarrow> (\<exists>m' \<in> set ms. sm_symbol m' = x \<and> scanner_score c n \<le> scanner_score c m')))"
proof -
  let ?A = "set (always_include c)"
  have sc: "set (scored c ms) = set (eligible c ms)" by (simp add: scored_def)
  have A: "?A \<subseteq> T" unfolding T_def target_top5_def by (rule add_until_sub)
  have from_ms: "T \<subseteq> ?A \<union> sm_symbol ` set (eligible c ms)"
    using add_until_from [of "max_top c" ?A "scored c ms"] unfolding T_def target_top5_def sc .
  have card: "int (card T) \<le> max_top c" unfolding T_def target_top5_def by (rule add_until_card) (use assms(5) in auto)
  have "get_status s' x = IN_TOP5" if "x \<in> T" for x
  proof -
    have "x \<in> set order" using that from_ms assms(4) by (auto simp: all_symbols_def eligible_def)
    then show ?thesis using that refresh_states [OF assms(3), of c now ms s x]
      by (simp add: get_status_def s'_def scan_symbol_def T_def Let_def)
  qed
  moreover have "\<exists>m \<in> set ms. sm_symbol m = x \<and> passes_gate c m
         \<and> (\<forall>n \<in> set (eligible c ms). sm_symbol n \<notin> T \<longrightarrow> (\<exists>m' \<in> set ms. sm_symbol m' = x \<and> scanner_score c n \<le> scanner_score c m'))"
    if x: "x \<in> T - ?A" for x
  proof -
    obtain m where m: "m \<in> set (eligible c ms)" "sm_symbol m = x" using x from_ms by auto
    then have "m \<in> set ms" "passes_gate c m" using x by (auto simp: eligible_def)
    moreover have "\<exists>m' \<in> set ms. sm_symbol m' = x \<and> scanner_score c n \<le> scanner_score c m'" if "n \<in> set (eligible c ms)" "sm_symbol n \<notin> T" for n
    proof -
      have "\<exists>m' \<in> set (scored c ms). sm_symbol m' = x \<and> scanner_score c n \<le> scanner_score c m'"
        using add_until_best [OF scored_sorted, of n c ms "max_top c" ?A x] that x sc by (simp add: T_def target_top5_def)
      then show ?thesis unfolding sc by (auto simp: eligible_def)
    qed
    ultimately show ?thesis using m(2) by blast
  qed
  ultimately show ?thesis using A card by blast
qed

section \<open>Hysteresis\<close>

text \<open>Refreshes in sequence, with the time and the top-five target of each.\<close>

inductive scanner_run :: "scanner_config \<Rightarrow> (int \<times> string set) list \<Rightarrow> scanner \<Rightarrow> bool" for c where
  start: "scanner_run c [] new_scanner"
| refreshed: "scanner_run c h s \<Longrightarrow> 0 < now \<Longrightarrow> distinct order \<Longrightarrow> set order = all_symbols c ms s \<Longrightarrow>
    scanner_run c (h @ [(now, target_top5 c ms)]) (fst (refresh c now ms order s))"

text \<open>A symbol has been out of the target at every refresh from a time on.\<close>

definition out_since :: "(int \<times> string set) list \<Rightarrow> string \<Rightarrow> int \<Rightarrow> bool" where
  "out_since h symbol p \<longleftrightarrow> (\<exists>h1 h2. h = h1 @ h2 \<and> h2 \<noteq> [] \<and> fst (hd h2) = p \<and> list_all (\<lambda>(t, T). symbol \<notin> T) h2)"

lemma out_since_new: "symbol \<notin> T \<Longrightarrow> out_since (h @ [(now, T)]) symbol now"
  unfolding out_since_def by (intro exI [of _ h] exI [of _ "[(now, T)]"]) simp

lemma out_since_more: "out_since h symbol p \<Longrightarrow> symbol \<notin> T \<Longrightarrow> out_since (h @ [(now, T)]) symbol p"
proof -
  assume "out_since h symbol p" "symbol \<notin> T"
  then obtain h1 h2 where "h = h1 @ h2" "h2 \<noteq> []" "fst (hd h2) = p" "list_all (\<lambda>(t, T). symbol \<notin> T) h2" by (auto simp: out_since_def)
  then show ?thesis unfolding out_since_def using \<open>symbol \<notin> T\<close> by (intro exI [of _ h1] exI [of _ "h2 @ [(now, T)]"]) simp
qed

definition top_sound :: "(int \<times> string set) list \<Rightarrow> string \<Rightarrow> symbol_state \<Rightarrow> bool" where
  "top_sound h symbol st \<longleftrightarrow> ss_status st = IN_TOP5 \<longrightarrow> ss_pending_since_ms st = 0 \<or> out_since h symbol (ss_pending_since_ms st)"

lemma scan_top_sound:
  assumes "top_sound h symbol st"
  shows "top_sound (h @ [(now, T)]) symbol (scan_symbol c now T T10 symbol st)
    \<and> (ss_status st = IN_TOP5 \<and> ss_status (scan_symbol c now T T10 symbol st) \<noteq> IN_TOP5 \<longrightarrow>
        (let p = (if ss_pending_since_ms st = 0 then now else ss_pending_since_ms st)
         in hysteresis_ms c \<le> now - p \<and> out_since (h @ [(now, T)]) symbol p))"
  using assms
  by (auto simp: top_sound_def scan_symbol_def start_pending_def held_back_def record_flap_def Let_def
      intro: out_since_new out_since_more split: if_splits)

lemma scanner_run_sound:
  assumes "scanner_run c h s"
  shows "top_sound h symbol (state_of (sc_states s) symbol)"
  using assms
proof (induction rule: scanner_run.induct)
  case start
  then show ?case by (simp add: top_sound_def state_of_def new_scanner_def new_symbol_state_def)
next
  case (refreshed h s now order ms)
  let ?s' = "fst (refresh c now ms order s)"
  note r = refresh_states [OF refreshed.hyps(3), of c now ms s symbol]
  show ?case
  proof (cases "symbol \<in> set order")
    case True
    then show ?thesis using r scan_top_sound [OF refreshed.IH] by (simp add: state_of_def)
  next
    case False
    then have "dget (sc_states s) symbol = None" using refreshed.hyps(4) by (auto simp: all_symbols_def dget_None_iff)
    then show ?thesis using r False by (simp add: state_of_def top_sound_def new_symbol_state_def)
  qed
qed

text \<open>Lemma: a refresh takes a symbol out of the traded status only when it has been outside the top-five target at every refresh for
  at least the hysteresis time, this one included.\<close>

theorem scanner_hysteresis:
  assumes "scanner_run c h s" and "0 < now" and "distinct order" and "set order = all_symbols c ms s"
    and "get_status s symbol = IN_TOP5" and "get_status (fst (refresh c now ms order s)) symbol \<noteq> IN_TOP5"
  shows "\<exists>p. hysteresis_ms c \<le> now - p \<and> out_since (h @ [(now, target_top5 c ms)]) symbol p"
proof -
  obtain st where st: "dget (sc_states s) symbol = Some st" "ss_status st = IN_TOP5"
    using assms(5) by (auto simp: get_status_def split: option.splits)
  then have "symbol \<in> set order" using assms(4) by (auto simp: all_symbols_def dest: dget_keys)
  then have "ss_status (scan_symbol c now (target_top5 c ms) (target_top10 c ms) symbol st) \<noteq> IN_TOP5"
    using assms(6) refresh_states [OF assms(3), of c now ms s symbol] st by (simp add: get_status_def state_of_def)
  then show ?thesis
    using scan_top_sound [of h symbol st now "target_top5 c ms" c "target_top10 c ms"] scanner_run_sound [OF assms(1), of symbol] st
    unfolding Let_def state_of_def by auto
qed

text \<open>Lemma: there is no such hysteresis one level down. A symbol that was taken from the top five to the top ten keeps the start of its
  old waiting time, so the first refresh that finds it outside the top ten, however soon, makes it pending at once unless it is
  flapping; and the pending time is counted from the same old start.\<close>

theorem scanner_stale_pending:
  assumes "ss_status st = IN_TOP5" and "symbol \<notin> T1" and "symbol \<in> U1" and "st1 = scan_symbol c t1 T1 U1 symbol st" and "ss_status st1 = IN_TOP10"
    and "0 < hysteresis_ms c" and "symbol \<notin> T2" and "symbol \<notin> U2" and "t1 \<le> t2" and "\<not> is_flapping c t2 st1"
  shows "ss_status (scan_symbol c t2 T2 U2 symbol st1) = OUTSIDE_PENDING
    \<and> ss_pending_since_ms (scan_symbol c t2 T2 U2 symbol st1) = ss_pending_since_ms st"
proof -
  have p: "ss_pending_since_ms st \<noteq> 0" "hysteresis_ms c \<le> t1 - ss_pending_since_ms st" "ss_pending_since_ms st1 = ss_pending_since_ms st"
    using assms(1-6) by (auto simp: scan_symbol_def start_pending_def held_back_def record_flap_def Let_def split: if_splits)
  then show ?thesis using assms(5,7-10)
    by (auto simp: scan_symbol_def start_pending_def held_back_def record_flap_def Let_def)
qed

section \<open>A symbol that comes and goes\<close>

definition good_metrics :: symbol_metrics where
  "good_metrics = \<lparr>sm_symbol = ''B'', sm_oi_change = 0, sm_liq = 0, sm_squeeze = 0, sm_funding = 0, sm_spread_bps = 10, sm_oi_usd = 60000000\<rparr>"

lemma good_target:
  "target_top5 default_scanner_config [good_metrics] = {''B'', ''BTC_USDT''}" "target_top10 default_scanner_config [good_metrics] = {''B'', ''BTC_USDT''}"
  "target_top5 default_scanner_config [] = {''BTC_USDT''}" "target_top10 default_scanner_config [] = {''BTC_USDT''}"
  by (simp_all add: target_top5_def target_top10_def scored_def eligible_def default_scanner_config_def good_metrics_def passes_gate_def)

lemma scanner_targets_witness:
  "get_status (fst (refresh default_scanner_config 1000 [good_metrics] [''B'', ''BTC_USDT''] new_scanner)) ''B'' = IN_TOP5"
proof -
  let ?c = default_scanner_config and ?o = "[''B'', ''BTC_USDT'']"
  have "set ?o = all_symbols ?c [good_metrics] new_scanner" by (auto simp: all_symbols_def new_scanner_def keys_def good_metrics_def default_scanner_config_def)
  moreover have "int (card (set (always_include ?c))) \<le> max_top ?c" "distinct ?o" by (simp_all add: default_scanner_config_def)
  ultimately show ?thesis using scanner_targets [of ?o ?c "[good_metrics]" new_scanner 1000] unfolding good_target by blast
qed

definition two_refreshes :: scanner where
  "two_refreshes = fst (refresh default_scanner_config 2000 [] [''B'', ''BTC_USDT'']
     (fst (refresh default_scanner_config 1000 [good_metrics] [''B'', ''BTC_USDT''] new_scanner)))"

lemma scanner_hysteresis_witness:
  "\<exists>p. 300000 \<le> 302000 - p \<and> out_since [(1000, {''B'', ''BTC_USDT''}), (2000, {''BTC_USDT''}), (302000, {''BTC_USDT''})] ''B'' p"
proof -
  let ?c = default_scanner_config and ?o = "[''B'', ''BTC_USDT'']"
  have d: "distinct ?o" by simp
  have k: "set ?o = all_symbols ?c [good_metrics] new_scanner" by (auto simp: all_symbols_def new_scanner_def keys_def good_metrics_def default_scanner_config_def)
  let ?s1 = "fst (refresh ?c 1000 [good_metrics] ?o new_scanner)"
  have r1: "scanner_run ?c [(1000, {''B'', ''BTC_USDT''})] ?s1"
    using scanner_run.refreshed [OF scanner_run.start _ d k, of 1000] by (simp add: good_target)
  have k1: "set ?o = all_symbols ?c [] ?s1"
    by (auto simp: all_symbols_def refresh_keys) (auto simp: new_scanner_def default_scanner_config_def keys_def)
  have r2: "scanner_run ?c [(1000, {''B'', ''BTC_USDT''}), (2000, {''BTC_USDT''})] two_refreshes"
    using scanner_run.refreshed [OF r1 _ d k1, of 2000] by (simp add: good_target two_refreshes_def)
  have k2: "set ?o = all_symbols ?c [] two_refreshes"
    by (auto simp: two_refreshes_def all_symbols_def refresh_keys) (auto simp: new_scanner_def default_scanner_config_def keys_def)
  have c: "hysteresis_ms ?c = 300000" "flap_window_ms ?c = 300000" "flap_threshold ?c = 3" by (simp_all add: default_scanner_config_def)
  have b1: "dget (sc_states ?s1) ''B'' = Some (new_symbol_state\<lparr>ss_status := IN_TOP5, ss_flap_count := 1, ss_last_flap_ms := 1000\<rparr>)"
    unfolding refresh_states [OF d] good_target
    by (simp add: state_of_def new_scanner_def scan_symbol_def record_flap_def new_symbol_state_def c)
  have b2: "dget (sc_states two_refreshes) ''B'' =
      Some (new_symbol_state\<lparr>ss_status := IN_TOP5, ss_flap_count := 1, ss_last_flap_ms := 1000, ss_pending_since_ms := 2000\<rparr>)"
    unfolding two_refreshes_def refresh_states [OF d, of _ _ _ ?s1] good_target
    by (simp add: state_of_def b1 scan_symbol_def start_pending_def held_back_def new_symbol_state_def c)
  have s: "get_status two_refreshes ''B'' = IN_TOP5" "get_status (fst (refresh ?c 302000 [] ?o two_refreshes)) ''B'' \<noteq> IN_TOP5"
    unfolding get_status_def refresh_states [OF d] good_target
    by (simp_all add: b2 state_of_def scan_symbol_def start_pending_def held_back_def is_flapping_def record_flap_def new_symbol_state_def c)
  from scanner_hysteresis [OF r2 _ d k2 s] show ?thesis by (simp add: good_target) (simp add: default_scanner_config_def)
qed

lemma scanner_stale_pending_witness:
  "ss_status (scan_symbol default_scanner_config 1301000 {} {} ''B''
     (scan_symbol default_scanner_config 1300000 {} {''B''} ''B'' (new_symbol_state\<lparr>ss_status := IN_TOP5, ss_pending_since_ms := 1000000\<rparr>))) = OUTSIDE_PENDING"
proof -
  let ?st = "new_symbol_state\<lparr>ss_status := IN_TOP5, ss_pending_since_ms := 1000000\<rparr>" and ?c = default_scanner_config
  let ?st1 = "scan_symbol ?c 1300000 {} {''B''} ''B'' ?st"
  have "ss_status ?st1 = IN_TOP10" "\<not> is_flapping ?c 1301000 ?st1" "0 < hysteresis_ms ?c"
    by (simp_all add: scan_symbol_def start_pending_def held_back_def is_flapping_def record_flap_def new_symbol_state_def Let_def default_scanner_config_def)
  then show ?thesis using scanner_stale_pending [of ?st "''B''" "{}" "{''B''}" ?st1 ?c 1300000 "{}" "{}" 1301000] by simp
qed

end
