(* ===== verification/Decimals.thy ===== *)
theory Decimals
  imports Float64
begin

text \<open>
  Decimal arithmetic and \<^verbatim>\<open>src/utils/decimal.py\<close>. A finite \<^verbatim>\<open>Decimal\<close> is a coefficient and an exponent; where only its value matters
  it is a rational. Every arithmetic operation of the default context rounds its exact result to 28 significant digits, ties to even
  (\<open>dec\<close>). The text of a float and the parsing of a text are parameters.
\<close>

section \<open>Rounding to 28 digits\<close>

fun decimal_length :: "nat \<Rightarrow> nat" where
  "decimal_length n = (if n < 10 then 1 else Suc (decimal_length (n div 10)))"

declare decimal_length.simps [simp del]

text \<open>The power of ten just above a positive value.\<close>

definition decimal_exponent :: "rat \<Rightarrow> int" where
  "decimal_exponent x =
     (let (a, b) = quotient_of \<bar>x\<bar>; e = int (decimal_length (nat a)) - int (decimal_length (nat b))
      in if \<bar>x\<bar> < power_int 10 e then e else e + 1)"

definition dec :: "rat \<Rightarrow> rat" where
  "dec x = (if x = 0 then 0 else let q = power_int 10 (decimal_exponent x - 28) in of_int (round_half_even (x / q)) * q)"

text \<open>\<^verbatim>\<open>int(x)\<close> cuts towards zero.\<close>

definition py_int :: "rat \<Rightarrow> int" where
  "py_int x = (if 0 \<le> x then \<lfloor>x\<rfloor> else \<lceil>x\<rceil>)"

section \<open>Decimals as coefficient and exponent\<close>

datatype decimal = Dec (dec_coeff: int) (dec_exp: int)

definition dval :: "decimal \<Rightarrow> rat" where
  "dval d = of_int (dec_coeff d) * power_int 10 (dec_exp d)"

datatype decimal_like = DFinite decimal | DNonFinite | FFinite rat | FNonFinite | PyInt int | PyText string
datatype parsed_text = Finite decimal | NonFinite | Malformed
datatype dec_error = NanOrInf | InvalidOperation | LeverageZero
datatype precision_like = PrecDecimal decimal | PrecInt int | PrecText string

definition resolve_precision :: "(string \<Rightarrow> decimal option) \<Rightarrow> precision_like \<Rightarrow> dec_error + decimal" where
  "resolve_precision parse_precision p =
     (case p of
        PrecDecimal d \<Rightarrow> Inr d
      | PrecInt n \<Rightarrow> Inr (Dec 1 (- n))
      | PrecText s \<Rightarrow> (case parse_precision s of None \<Rightarrow> Inl InvalidOperation | Some d \<Rightarrow> Inr d))"

definition to_decimal :: "(rat \<Rightarrow> decimal) \<Rightarrow> (string \<Rightarrow> parsed_text) \<Rightarrow> decimal_like \<Rightarrow> dec_error + decimal" where
  "to_decimal repr parse v =
     (case v of
        DFinite d \<Rightarrow> Inr d
      | DNonFinite \<Rightarrow> Inl NanOrInf
      | FFinite x \<Rightarrow> Inr (repr x)
      | FNonFinite \<Rightarrow> Inl NanOrInf
      | PyInt n \<Rightarrow> Inr (Dec n 0)
      | PyText s \<Rightarrow> (case parse s of Finite d \<Rightarrow> Inr d | NonFinite \<Rightarrow> Inl NanOrInf | Malformed \<Rightarrow> Inl InvalidOperation))"

text \<open>\<^verbatim>\<open>d.quantize(q, ROUND_DOWN)\<close> takes the exponent of \<open>q\<close>, whatever its coefficient, and refuses results of more than 28 digits.\<close>

definition quantize_down :: "decimal \<Rightarrow> decimal \<Rightarrow> dec_error + decimal" where
  "quantize_down d q =
     (let n = py_int (dval d / power_int 10 (dec_exp q)) in if 10 ^ 28 \<le> \<bar>n\<bar> then Inl InvalidOperation else Inr (Dec n (dec_exp q)))"

definition quantize_price ::
  "(rat \<Rightarrow> decimal) \<Rightarrow> (string \<Rightarrow> parsed_text) \<Rightarrow> (string \<Rightarrow> decimal option) \<Rightarrow> decimal_like \<Rightarrow> precision_like \<Rightarrow> dec_error + decimal" where
  "quantize_price repr parse parse_precision price precision =
     (case to_decimal repr parse price of
        Inl e \<Rightarrow> Inl e
      | Inr d \<Rightarrow> (case resolve_precision parse_precision precision of Inl e \<Rightarrow> Inl e | Inr q \<Rightarrow> quantize_down d q))"

definition quantize_qty ::
  "(rat \<Rightarrow> decimal) \<Rightarrow> (string \<Rightarrow> parsed_text) \<Rightarrow> (string \<Rightarrow> decimal option) \<Rightarrow> decimal_like \<Rightarrow> precision_like \<Rightarrow> dec_error + decimal" where
  "quantize_qty repr parse parse_precision qty precision =
     (case to_decimal repr parse qty of
        Inl e \<Rightarrow> Inl e
      | Inr d \<Rightarrow> (case resolve_precision parse_precision precision of Inl e \<Rightarrow> Inl e | Inr q \<Rightarrow> quantize_down d q))"

text \<open>\<^verbatim>\<open>p % t = 0\<close>: the remainder of a division that cuts towards zero, refused when the quotient has more than 28 digits.\<close>

definition divides_decimal :: "decimal \<Rightarrow> decimal \<Rightarrow> dec_error + bool" where
  "divides_decimal p t =
     (let n = py_int (dval p / dval t) in if 10 ^ 28 \<le> \<bar>n\<bar> then Inl InvalidOperation else Inr (dval p - of_int n * dval t = 0))"

definition is_valid_price_precision ::
  "(rat \<Rightarrow> decimal) \<Rightarrow> (string \<Rightarrow> parsed_text) \<Rightarrow> decimal_like \<Rightarrow> decimal_like \<Rightarrow> dec_error + bool" where
  "is_valid_price_precision repr parse price tick_size =
     (case to_decimal repr parse price of
        Inl e \<Rightarrow> Inl e
      | Inr p \<Rightarrow> (case to_decimal repr parse tick_size of Inl e \<Rightarrow> Inl e | Inr t \<Rightarrow> if dval t = 0 then Inr False else divides_decimal p t))"

definition is_valid_qty_precision ::
  "(rat \<Rightarrow> decimal) \<Rightarrow> (string \<Rightarrow> parsed_text) \<Rightarrow> decimal_like \<Rightarrow> decimal_like \<Rightarrow> dec_error + bool" where
  "is_valid_qty_precision repr parse qty step_size =
     (case to_decimal repr parse qty of
        Inl e \<Rightarrow> Inl e
      | Inr p \<Rightarrow> (case to_decimal repr parse step_size of Inl e \<Rightarrow> Inl e | Inr t \<Rightarrow> if dval t = 0 then Inr False else divides_decimal p t))"

definition compute_slippage_pct :: "(rat \<Rightarrow> decimal) \<Rightarrow> (string \<Rightarrow> parsed_text) \<Rightarrow> decimal_like \<Rightarrow> dec_error + rat" where
  "compute_slippage_pct repr parse leverage =
     (case to_decimal repr parse leverage of
        Inl e \<Rightarrow> Inl e
      | Inr lev \<Rightarrow> if dval lev = 0 then Inl LeverageZero else let ratio = dec (1 / 10 / dval lev) in Inr (if 3 / 100 < ratio then 3 / 100 else ratio))"

section \<open>The rounding\<close>

lemma decimal_length_bounds: "0 < n \<Longrightarrow> 10 ^ (decimal_length n - 1) \<le> n \<and> n < 10 ^ decimal_length n"
proof (induction n rule: decimal_length.induct)
  case (1 n)
  show ?case
  proof (cases "n < 10")
    case True
    then show ?thesis using 1 by (simp add: decimal_length.simps)
  next
    case False
    then have "0 < n div 10" by (simp add: div_greater_zero_iff)
    then have ih: "10 ^ (decimal_length (n div 10) - 1) \<le> n div 10 \<and> n div 10 < 10 ^ decimal_length (n div 10)" using 1 False by blast
    have "0 < decimal_length (n div 10)" by (simp add: decimal_length.simps)
    then obtain k where k: "decimal_length (n div 10) = Suc k" by (cases "decimal_length (n div 10)") auto
    have "decimal_length n = Suc (Suc k)" using False k by (simp add: decimal_length.simps [of n])
    moreover have "10 ^ Suc k \<le> n" "n < 10 ^ Suc (Suc k)" using ih unfolding k by (simp_all add: div_less_iff_less_mult less_eq_div_iff_mult_less_eq mult.commute)
    ultimately show ?thesis by simp
  qed
qed

lemma decimal_length_pos: "0 < decimal_length n"
  by (simp add: decimal_length.simps)

lemma ten_int [simp]: "(0::rat) < power_int 10 e" "power_int 10 e \<noteq> (0::rat)"
  by simp_all

lemma decimal_exponent_ge:
  assumes "x \<noteq> 0" shows "power_int 10 (decimal_exponent x - 1) \<le> \<bar>x\<bar>"
proof -
  obtain a b where ab: "quotient_of \<bar>x\<bar> = (a, b)" by fastforce
  have x: "\<bar>x\<bar> = of_int a / of_int b" "0 < b" using quotient_of_div [OF ab] quotient_of_denom_pos [OF ab] by simp_all
  then have a: "0 < a" using assms by (metis abs_zero zero_less_abs_iff of_int_0_less_iff zero_less_divide_iff less_asym)
  let ?la = "decimal_length (nat a)" and ?lb = "decimal_length (nat b)"
  let ?e = "int ?la - int ?lb"
  have na: "(10::int) ^ (?la - 1) \<le> a" using decimal_length_bounds [of "nat a"] a by (metis int_nat_eq less_imp_le of_nat_le_iff of_nat_power of_nat_numeral zero_less_nat_eq)
  have nb: "b < (10::int) ^ ?lb" using decimal_length_bounds [of "nat b"] x(2) by (metis int_nat_eq less_imp_le of_nat_less_iff of_nat_power of_nat_numeral zero_less_nat_eq)
  have A: "power_int (10::rat) (int ?la - 1) \<le> of_int a"
  proof -
    have "power_int (10::rat) (int ?la - 1) = of_int (10 ^ (?la - 1))"
      using decimal_length_pos [of "nat a"] by (simp add: power_int_def nat_diff_distrib)
    then show ?thesis using na by (simp only: of_int_le_iff)
  qed
  have B: "of_int b \<le> power_int (10::rat) (int ?lb)" using nb by (simp add: power_int_def)
  have low: "power_int 10 (?e - 1) \<le> \<bar>x\<bar>"
  proof -
    have "power_int (10::rat) (?e - 1) * of_int b \<le> power_int 10 (?e - 1) * power_int 10 (int ?lb)" using B by (intro mult_left_mono) simp_all
    also have "\<dots> = power_int 10 (?e - 1 + int ?lb)" by (rule power_int_add [symmetric]) simp
    also have "\<dots> = power_int 10 (int ?la - 1)" by (rule arg_cong [of _ _ "power_int 10"]) simp
    also have "\<dots> \<le> of_int a" by (rule A)
    finally show ?thesis using x by (simp add: pos_le_divide_eq)
  qed
  show ?thesis using low by (auto simp: decimal_exponent_def ab Let_def)
qed

text \<open>A value of at most 28 digits is not changed.\<close>

lemma dec_exact:
  assumes "x = of_int n * power_int 10 e" and "\<bar>n\<bar> < 10 ^ 28"
  shows "dec x = x"
proof (cases "x = 0")
  case False
  let ?E = "decimal_exponent x"
  have "e + 28 > ?E - 1"
  proof (rule ccontr)
    assume "\<not> e + 28 > ?E - 1"
    then have "power_int (10::rat) (e + 28) \<le> power_int 10 (?E - 1)" by (intro power_int_increasing) simp_all
    also have "\<dots> \<le> \<bar>x\<bar>" by (rule decimal_exponent_ge [OF False])
    also have "\<dots> = of_int \<bar>n\<bar> * power_int 10 e" by (simp add: assms(1) abs_mult)
    also have "\<dots> < of_int (10 ^ 28) * power_int 10 e" using assms(2) by (intro mult_strict_right_mono) (simp_all only: of_int_less_iff ten_int)
    also have "\<dots> = power_int 10 (e + 28)" by (simp add: power_int_add)
    finally show False by simp
  qed
  then have k: "e = ?E - 28 + int (nat (e - (?E - 28)))" by simp
  define k where "k = nat (e - (?E - 28))"
  note k = k [folded k_def]
  have "x = of_int (n * 10 ^ k) * power_int 10 (?E - 28)"
  proof -
    have "power_int (10::rat) e = 10 ^ k * power_int 10 (?E - 28)" by (subst k) (simp add: power_int_add)
    then show ?thesis using assms(1) by simp
  qed
  note x = this
  then have q: "x / power_int 10 (?E - 28) = of_int (n * 10 ^ k)" by (subst nonzero_divide_eq_eq) (simp_all only: ten_int not_False_eq_True)
  show ?thesis using False by (simp only: dec_def Let_def q round_half_even_of_int if_False flip: x)
qed (simp add: dec_def)

text \<open>Rounding twice is rounding once, and keeps the sign.\<close>

lemma decimal_exponent_less:
  assumes "x \<noteq> 0" shows "\<bar>x\<bar> < power_int 10 (decimal_exponent x)"
proof -
  obtain a b where ab: "quotient_of \<bar>x\<bar> = (a, b)" by fastforce
  have x: "\<bar>x\<bar> = of_int a / of_int b" "0 < b" using quotient_of_div [OF ab] quotient_of_denom_pos [OF ab] by simp_all
  then have a: "0 < a" using assms by (metis abs_zero zero_less_abs_iff of_int_0_less_iff zero_less_divide_iff less_asym)
  let ?la = "decimal_length (nat a)" and ?lb = "decimal_length (nat b)"
  let ?e = "int ?la - int ?lb"
  have "\<bar>x\<bar> < power_int 10 (?e + 1)"
  proof -
    have "of_int a < power_int (10::rat) (int ?la)"
      using decimal_length_bounds [of "nat a"] a by (simp add: power_int_def)
    moreover have "power_int (10::rat) (int ?lb - 1) \<le> of_int b"
    proof -
      have "(10::int) ^ (?lb - 1) \<le> b"
        using decimal_length_bounds [of "nat b"] x(2) by (metis int_nat_eq less_imp_le of_nat_le_iff of_nat_power of_nat_numeral zero_less_nat_eq)
      moreover have "power_int (10::rat) (int ?lb - 1) = of_int (10 ^ (?lb - 1))"
        using decimal_length_pos [of "nat b"] by (simp add: power_int_def nat_diff_distrib)
      ultimately show ?thesis by (simp only: of_int_le_iff)
    qed
    then have "power_int (10::rat) (?e + 1) * power_int 10 (int ?lb - 1) \<le> power_int 10 (?e + 1) * of_int b" by (intro mult_left_mono) simp_all
    moreover have "power_int (10::rat) (?e + 1) * power_int 10 (int ?lb - 1) = power_int 10 (int ?la)"
      by (subst power_int_add [symmetric]) (simp_all add: algebra_simps)
    ultimately have "of_int a < power_int (10::rat) (?e + 1) * of_int b" by linarith
    then show ?thesis using x by (simp add: pos_divide_less_eq)
  qed
  then show ?thesis by (auto simp: decimal_exponent_def ab Let_def)
qed

lemma dec_dec [simp]: "dec (dec x) = dec x"
proof (cases "x = 0")
  case False
  let ?q = "power_int (10::rat) (decimal_exponent x - 28)"
  define n where "n = round_half_even (x / ?q)"
  have d: "dec x = of_int n * ?q" using False by (simp add: dec_def n_def Let_def)
  have "power_int (10::rat) (decimal_exponent x) = 10 ^ 28 * ?q" by (simp add: power_int_diff)
  then have "\<bar>x / ?q\<bar> < 10 ^ 28" using decimal_exponent_less [OF False] by (simp add: abs_divide pos_divide_less_eq)
  then have "x / ?q \<le> of_int (10 ^ 28)" "of_int (- (10 ^ 28)) \<le> x / ?q" unfolding of_int_minus of_int_power of_int_numeral by linarith+
  then have n: "\<bar>n\<bar> \<le> 10 ^ 28" using round_half_even_le_int round_half_even_ge_int unfolding n_def by (metis abs_le_iff minus_le_iff)
  show ?thesis
  proof (cases "\<bar>n\<bar> = 10 ^ 28")
    case True
    have "of_int n * ?q = of_int (sgn n) * power_int 10 (decimal_exponent x)"
    proof -
      have "n = sgn n * 10 ^ 28" using True by (metis sgn_mult_abs)
      then have "of_int n = (of_int (sgn n) * 10 ^ 28 :: rat)" by (metis of_int_mult of_int_power of_int_numeral)
      then show ?thesis by (simp add: power_int_diff)
    qed
    then show ?thesis unfolding d by (rule dec_exact) (simp add: abs_sgn_eq)
  next
    case False
    then have "\<bar>n\<bar> < 10 ^ 28" using n by (simp only: order.strict_iff_order simp_thms)
    then show ?thesis unfolding d by (rule dec_exact [OF refl])
  qed
qed (simp add: dec_def)

lemma decimal_exponent_minus [simp]: "decimal_exponent (- x) = decimal_exponent x"
  by (simp add: decimal_exponent_def)

lemma dec_minus: "dec (- x) = - dec x"
  by (simp add: dec_def Let_def round_half_even_minus)

lemma dec_nonneg: "0 \<le> x \<Longrightarrow> 0 \<le> dec x"
  using round_half_even_ge_int [of 0] by (simp add: dec_def Let_def)

section \<open>Quantizing\<close>

lemma py_int_of_int [simp]: "py_int (of_int n) = n"
  by (simp add: py_int_def)

lemma py_int_minus: "py_int (- x) = - py_int x"
  by (simp add: py_int_def ceiling_def)

lemma py_int_within: "\<bar>of_int (py_int x)\<bar> \<le> \<bar>x\<bar> \<and> \<bar>x - of_int (py_int x)\<bar> < 1 \<and> 0 \<le> x * of_int (py_int x)"
proof (cases "0 \<le> x")
  case True
  then show ?thesis using floor_correct [of x] by (simp add: py_int_def)
next
  case False
  then have "of_int \<lceil>x\<rceil> \<le> (0::rat)" by simp
  then show ?thesis using False ceiling_correct [of x] by (simp add: py_int_def mult_nonpos_nonpos)
qed

text \<open>Lemma: quantizing gives the multiple of the unit of the precision next to the value on the side of zero, less than one unit away; it is
  refused only when that multiple has more than 28 digits; doing it twice changes nothing more; and the result passes the
  check against a step that is a power of ten.\<close>

theorem quantize_toward_zero:
  "case quantize_down d q of
     Inl e \<Rightarrow> 10 ^ 28 \<le> \<bar>py_int (dval d / power_int 10 (dec_exp q))\<bar>
   | Inr r \<Rightarrow> dec_exp r = dec_exp q \<and> \<bar>dval r\<bar> \<le> \<bar>dval d\<bar> \<and> \<bar>dval d - dval r\<bar> < power_int 10 (dec_exp q) \<and> 0 \<le> dval d * dval r
       \<and> quantize_down r q = Inr r \<and> divides_decimal r (Dec 1 (dec_exp q)) = Inr True"
proof (cases "quantize_down d q")
  case (Inl e)
  then show ?thesis by (simp add: quantize_down_def Let_def split: if_splits)
next
  case (Inr r)
  let ?u = "power_int (10::rat) (dec_exp q)"
  define n where "n = py_int (dval d / ?u)"
  have r: "r = Dec n (dec_exp q)" "\<bar>n\<bar> < 10 ^ 28" using Inr by (auto simp: quantize_down_def n_def Let_def split: if_splits)
  have v: "dval r = of_int n * ?u" "dval r / ?u = of_int n" by (simp_all add: r(1) dval_def)
  have w: "\<bar>of_int n\<bar> \<le> \<bar>dval d / ?u\<bar>" "\<bar>dval d / ?u - of_int n\<bar> < 1" "0 \<le> dval d / ?u * of_int n"
    unfolding n_def using py_int_within [of "dval d / ?u"] by simp_all
  have d: "dval d = dval d / ?u * ?u" by simp
  have "\<bar>dval r\<bar> \<le> \<bar>dval d\<bar>" using mult_right_mono [OF w(1), of ?u] by (simp add: v(1) abs_mult)
  moreover have "\<bar>dval d - dval r\<bar> < ?u"
  proof -
    have "\<bar>dval d - dval r\<bar> = \<bar>dval d / ?u - of_int n\<bar> * ?u" by (subst d) (simp only: v(1) abs_mult abs_of_pos ten_int flip: left_diff_distrib)
    then show ?thesis using mult_strict_right_mono [OF w(2), of ?u] by simp
  qed
  moreover have "0 \<le> dval d * dval r"
  proof -
    have "dval d * dval r = dval d / ?u * of_int n * (?u * ?u)" by (subst d) (simp add: v(1) mult_ac)
    moreover have "0 \<le> dval d / ?u * of_int n * (?u * ?u)" by (rule mult_nonneg_nonneg [OF w(3)]) simp
    ultimately show ?thesis by (simp only:)
  qed
  moreover have "quantize_down r q = Inr r" using r(2) by (simp add: quantize_down_def v Let_def) (simp add: r(1))
  moreover have "divides_decimal r (Dec 1 (dec_exp q)) = Inr True"
    using r(2) v by (simp add: divides_decimal_def Let_def) (simp add: dval_def)
  ultimately show ?thesis by (simp add: Inr r(1))
qed

text \<open>Against any other step it need not: quantized to a step of \<^verbatim>\<open>0.05\<close>, \<^verbatim>\<open>1.13\<close> stays as it is.\<close>

lemma quantize_ignores_step:
  "quantize_down (Dec 113 (- 2)) (Dec 5 (- 2)) = Inr (Dec 113 (- 2)) \<and> divides_decimal (Dec 113 (- 2)) (Dec 5 (- 2)) = Inr False"
proof -
  have v: "dval (Dec 113 (- 2)) = 113 / 100" "dval (Dec 5 (- 2)) = 5 / 100" "power_int 10 (- 2) = (1 / 100 :: rat)"
    by (simp_all add: dval_def power_int_def power2_eq_square)
  have p: "py_int 113 = 113" "py_int (113 / 5) = 22" using py_int_of_int [of 113] by (simp_all add: py_int_def floor_eq_iff)
  show ?thesis by (simp add: quantize_down_def divides_decimal_def Let_def v p)
qed

end
