(* ===== verification/Risk.thy ===== *)
theory Risk
  imports Sqlite_Writer Decimals
begin

text \<open>
  \<^verbatim>\<open>src/risk/portfolio_risk.py\<close>, \<^verbatim>\<open>funding.py\<close> and \<^verbatim>\<open>whale_radar.py\<close> over the database writer. The lock that every method holds
  makes each one atomic. \<^verbatim>\<open>Decimal\<close> values are rationals rounded to 28 significant digits after every operation, as the default
  context does. The exponential of the C library is a parameter, the clock an argument.
\<close>

section \<open>Portfolio risk\<close>

definition is_test :: "string \<Rightarrow> bool" where "is_test env \<longleftrightarrow> env = ''TEST''"

definition risk_per_trade :: "string \<Rightarrow> rat" where
  "risk_per_trade env = (if is_test env then rnd (8 / 1000) else rnd (6 / 1000))"

definition max_positions :: "string \<Rightarrow> int" where
  "max_positions env = (if is_test env then 3 else 2)"

definition max_daily_loss :: "string \<Rightarrow> rat" where
  "max_daily_loss env = (if is_test env then rnd (- 4 / 100) else rnd (- 2 / 100))"

definition compute_rr :: "rat \<Rightarrow> rat \<Rightarrow> rat \<Rightarrow> rat \<Rightarrow> rat \<Rightarrow> rat" where
  "compute_rr entry tp sl fee_taker fee_maker =
     (let gross_profit = (if entry < tp then dec (tp - entry) else dec (entry - tp));
          gross_loss = (if entry < tp then dec (entry - sl) else dec (sl - entry))
      in if gross_loss \<le> 0 then 0
         else let total_fee = dec (dec (entry * fee_taker) + dec (tp * fee_maker));
                  net_profit = dec (gross_profit - total_fee);
                  net_loss = dec (gross_loss + total_fee)
              in if net_loss \<le> 0 then 0 else dec (net_profit / net_loss))"

text \<open>\<^verbatim>\<open>SELECT COUNT(*) FROM positions WHERE emergency_pending=0\<close>; no rows and a failing query count as zero.\<close>

definition position_count :: "tables \<Rightarrow> nat" where
  "position_count t = length (filter (\<lambda>r. col r ''emergency_pending'' = SInt 0) (tb_positions t))"

definition counted_positions :: "bool \<Rightarrow> writer \<Rightarrow> int" where
  "counted_positions ok w =
     (case fetch ok (\<lambda>t. [[SInt (int (position_count t))]]) w of
        Some ((SInt n # _) # _) \<Rightarrow> n
      | _ \<Rightarrow> 0)"

definition check_new_position :: "string \<Rightarrow> bool \<Rightarrow> writer \<Rightarrow> bool \<times> string" where
  "check_new_position env ok w =
     (if max_positions env \<le> counted_positions ok w then (False, ''MAX_POSITIONS_EXCEEDED'') else (True, ''OK''))"

definition check_second_entry :: "bool \<Rightarrow> string \<Rightarrow> bool \<Rightarrow> writer \<Rightarrow> bool" where
  "check_second_entry ok pid correlation_same_id w =
     (correlation_same_id
      \<and> (case fetch ok (\<lambda>t. project [''position_id''] (filter (same_key ''position_id'' (SText pid)) (tb_positions t))) w of
           None \<Rightarrow> False
         | Some rows \<Rightarrow> rows \<noteq> []))"

text \<open>The daily result of this class is set once, to zero, and its limit is \<^verbatim>\<open>Decimal(str(...))\<close>, the decimal literal of the source.\<close>

definition portfolio_daily_pnl :: rat where "portfolio_daily_pnl = 0"

definition check_daily_loss :: "string \<Rightarrow> bool \<times> rat" where
  "check_daily_loss env = (\<not> portfolio_daily_pnl \<le> (if is_test env then - 4 / 100 else - 2 / 100), portfolio_daily_pnl)"

section \<open>Funding monitor\<close>

record funding_state =
  f_rates :: "string \<rightharpoonup> rat \<times> int"
  f_daily_pnl :: rat
  f_last_reset_ms :: int

definition new_funding_state :: "int \<Rightarrow> funding_state" where
  "new_funding_state now = \<lparr>f_rates = Map.empty, f_daily_pnl = 0, f_last_reset_ms = now\<rparr>"

definition risk_budget :: "string \<Rightarrow> rat" where
  "risk_budget env = \<bar>max_daily_loss env\<bar>"

definition check_funding_time :: "int list \<Rightarrow> int \<Rightarrow> bool" where
  "check_funding_time hours hour \<longleftrightarrow> hour \<in> set hours"

text \<open>The row that funding rates and trades of whales are written with: its identifier is the symbol.\<close>

definition marker_payload :: "string \<Rightarrow> rat \<Rightarrow> sql_payload" where
  "marker_payload symbol v = [(''position_id'', SText symbol), (''avg'', SReal v), (''original_planned_entry'', SReal v), (''version'', SInt 0)]"

definition record_funding_rate :: "sql_fault \<Rightarrow> int \<Rightarrow> string \<Rightarrow> rat \<Rightarrow> int \<Rightarrow> funding_state \<times> writer \<Rightarrow> funding_state \<times> writer" where
  "record_funding_rate flt now symbol rate ts s =
     ((fst s)\<lparr>f_rates := (f_rates (fst s))(symbol \<mapsto> (rate, ts))\<rparr>, fst (execute_wal flt now (marker_payload symbol rate) (snd s)))"

definition get_funding_rate :: "string \<Rightarrow> funding_state \<Rightarrow> rat option" where
  "get_funding_rate symbol f = map_option fst (f_rates f symbol)"

definition funding_check_daily_loss :: "string \<Rightarrow> funding_state \<Rightarrow> bool \<times> rat" where
  "funding_check_daily_loss env f = (\<not> f_daily_pnl f \<le> max_daily_loss env, f_daily_pnl f)"

definition update_daily_pnl :: "rat \<Rightarrow> funding_state \<Rightarrow> funding_state" where
  "update_daily_pnl pnl f = f\<lparr>f_daily_pnl := fadd (f_daily_pnl f) pnl\<rparr>"

definition reset_daily :: "int \<Rightarrow> funding_state \<Rightarrow> funding_state" where
  "reset_daily now f = f\<lparr>f_daily_pnl := 0, f_last_reset_ms := now\<rparr>"

section \<open>Whale radar\<close>

record radar_config =
  big_order_usd :: rat
  oi_delta_usd_min :: rat
  real_min_lifetime_ms :: int
  real_min_fill_ratio :: rat
  spoof_max_ratio :: rat
  taker_buy_ratio_min :: rat

definition default_radar_config :: radar_config where
  "default_radar_config = \<lparr>big_order_usd = 100000, oi_delta_usd_min = 50000, real_min_lifetime_ms = 3000, real_min_fill_ratio = rnd (30 / 100),
     spoof_max_ratio = rnd (10 / 100), taker_buy_ratio_min = rnd (6 / 10)\<rparr>"

record whale_trade =
  wt_price :: rat
  wt_tick_size :: rat
  wt_band :: int
  wt_lifetime :: int
  wt_fill_ratio :: rat
  wt_oi_delta_usd :: rat
  wt_exchange_ts :: int
  wt_is_big :: bool
  wt_is_real :: bool
  wt_is_spoof :: bool
  wt_decay_weight :: "rat option"

record radar =
  rd_bands :: "string \<rightharpoonup> (int \<rightharpoonup> nat)"
  rd_trades :: "(string, whale_trade list) dict"

definition new_radar :: radar where
  "new_radar = \<lparr>rd_bands = Map.empty, rd_trades = []\<rparr>"

text \<open>The fingerprint that \<^verbatim>\<open>_band_key\<close> also computes is not used by the source.\<close>

definition band_key :: "rat \<Rightarrow> rat \<Rightarrow> int" where
  "band_key price tick_size =
     (let tick = (if tick_size \<le> 0 then rnd (1 / 100) else tick_size); d = fmul tick 5
      in if d = 0 then 0 else py_int (fdiv price d))"

definition band_count :: "radar \<Rightarrow> string \<Rightarrow> int \<Rightarrow> nat" where
  "band_count r symbol k = (case rd_bands r symbol of None \<Rightarrow> 0 | Some m \<Rightarrow> (case m k of None \<Rightarrow> 0 | Some n \<Rightarrow> n))"

definition trades_of :: "radar \<Rightarrow> string \<Rightarrow> whale_trade list" where
  "trades_of r symbol = (case dget (rd_trades r) symbol of None \<Rightarrow> [] | Some l \<Rightarrow> l)"

definition make_trade :: "radar_config \<Rightarrow> rat \<Rightarrow> rat \<Rightarrow> int \<Rightarrow> rat \<Rightarrow> rat \<Rightarrow> int \<Rightarrow> whale_trade" where
  "make_trade cfg price tick lifetime fill_ratio oi ts =
     \<lparr>wt_price = price, wt_tick_size = tick, wt_band = band_key price tick, wt_lifetime = lifetime, wt_fill_ratio = fill_ratio,
      wt_oi_delta_usd = oi, wt_exchange_ts = ts, wt_is_big = (big_order_usd cfg \<le> \<bar>oi\<bar>),
      wt_is_real = (real_min_lifetime_ms cfg \<le> lifetime \<and> real_min_fill_ratio cfg \<le> fill_ratio),
      wt_is_spoof = (fill_ratio \<le> spoof_max_ratio cfg), wt_decay_weight = None\<rparr>"

definition record_trade ::
  "radar_config \<Rightarrow> sql_fault \<Rightarrow> int \<Rightarrow> string \<Rightarrow> rat \<Rightarrow> rat \<Rightarrow> int \<Rightarrow> rat \<Rightarrow> rat \<Rightarrow> int \<Rightarrow> radar \<times> writer \<Rightarrow> radar \<times> writer" where
  "record_trade cfg flt now symbol price tick lifetime fill_ratio oi ts s =
     (if \<bar>oi\<bar> < oi_delta_usd_min cfg then s
      else let r = fst s; t = make_trade cfg price tick lifetime fill_ratio oi ts;
               m = (case rd_bands r symbol of None \<Rightarrow> Map.empty | Some m \<Rightarrow> m)
           in (r\<lparr>rd_trades := dset (rd_trades r) symbol (trades_of r symbol @ [t]),
                 rd_bands := (rd_bands r)(symbol \<mapsto> m(wt_band t \<mapsto> band_count r symbol (wt_band t) + 1))\<rparr>,
               fst (execute_wal flt now (marker_payload symbol price) (snd s))))"

definition get_trust_score :: "string \<Rightarrow> rat \<Rightarrow> rat \<Rightarrow> radar \<Rightarrow> rat" where
  "get_trust_score symbol price tick r =
     (let trades = trades_of r symbol; n = of_nat (length trades); bands = band_count r symbol (band_key price tick);
          real_count = of_nat (length (filter wt_is_real trades)); spoof_count = of_nat (length (filter wt_is_spoof trades))
      in if trades = [] then 1 / 2
         else let base = fsub (fadd (1 / 2) (fmul (fdiv real_count n) (1 / 2))) (fmul (fdiv spoof_count n) (rnd (3 / 10)));
                  base1 = (if 0 < bands then fadd base (min (rnd (2 / 10)) (fmul (of_nat bands) (rnd (2 / 100)))) else base);
                  base2 = (if base1 < 0 then 0 else base1)
              in if 1 < base2 then 1 else base2)"

definition check_wash :: "radar_config \<Rightarrow> bool \<Rightarrow> bool \<Rightarrow> rat \<Rightarrow> bool" where
  "check_wash cfg cvd_up oi_up ratio \<longleftrightarrow>
     \<not> (cvd_up \<and> oi_up \<and> taker_buy_ratio_min cfg \<le> ratio) \<and> \<not> (\<not> cvd_up \<and> \<not> oi_up \<and> ratio \<le> fsub 1 (taker_buy_ratio_min cfg))"

text \<open>\<^verbatim>\<open>cleanup_old\<close>: the trades of each symbol that still weigh at least a hundredth, with their weight, and how many went.\<close>

definition age_weight :: "(rat \<Rightarrow> rat) \<Rightarrow> int \<Rightarrow> whale_trade \<Rightarrow> rat" where
  "age_weight fexp now t =
     (let hours = fdiv (of_int (now - wt_exchange_ts t)) 3600000 in fexp (- (if hours < 0 then 0 else hours)))"

definition cleanup_old :: "(rat \<Rightarrow> rat) \<Rightarrow> int \<Rightarrow> radar \<Rightarrow> radar \<times> nat" where
  "cleanup_old fexp now r =
     (let keep = (\<lambda>t. \<not> age_weight fexp now t < rnd (1 / 100))
      in (r\<lparr>rd_trades := map (\<lambda>(s, ts). (s, map (\<lambda>t. t\<lparr>wt_decay_weight := Some (age_weight fexp now t)\<rparr>) (filter keep ts))) (rd_trades r)\<rparr>,
          sum_list (map (\<lambda>(s, ts). length (filter (\<lambda>t. \<not> keep t) ts)) (rd_trades r))))"

section \<open>What fills the slots\<close>

definition counts_open :: "sql_row \<Rightarrow> bool" where
  "counts_open r \<longleftrightarrow> col r ''emergency_pending'' = SInt 0"

lemma counts_open_filter: "filter (\<lambda>r. col r ''emergency_pending'' = SInt 0) t = filter counts_open t"
  by (simp add: counts_open_def cong: filter_cong)

lemma check_new_position_connected:
  "connected w \<Longrightarrow> check_new_position env True w =
     (if max_positions env \<le> int (length (filter counts_open (tb_positions (live w)))) then (False, ''MAX_POSITIONS_EXCEEDED'') else (True, ''OK''))"
  by (simp add: check_new_position_def counted_positions_def fetch_def position_count_def counts_open_filter)

lemma marker_row:
  "col (new_row positions_schema (stored cv (position_values (marker_payload symbol v)))) ''position_id'' = SText symbol"
  "counts_open (new_row positions_schema (stored cv (position_values (marker_payload symbol v))))"
  by (simp_all add: counts_open_def col_new_row positions_schema_def)
     (simp_all add: position_values_def payload_get_def payload_flag_def dget_Cons marker_payload_def)

lemma marker_rows:
  assumes "connected w"
  shows "tb_positions (live (fst (execute_wal NoFault now (marker_payload symbol v) w))) =
      insert_or_replace ''position_id'' (new_row positions_schema (stored (w_conv w) (position_values (marker_payload symbol v)))) (tb_positions (live w))"
    and "connected (fst (execute_wal flt now (marker_payload symbol v) w))"
  using assms by (cases flt; simp add: execute_wal_def sql_write_def marker_payload_def dget_Cons)+

lemma has_marker_replace:
  assumes "col r ''position_id'' = SText symbol" and "counts_open r"
  shows "SText s \<in> (\<lambda>x. col x ''position_id'') ` set (filter counts_open (insert_or_replace ''position_id'' r t))
       \<longleftrightarrow> s = symbol \<or> SText s \<in> (\<lambda>x. col x ''position_id'') ` set (filter counts_open t)"
  using assms by (auto simp: insert_or_replace_def same_key_def)

definition record_rates :: "int \<Rightarrow> (string \<times> rat \<times> int) list \<Rightarrow> funding_state \<times> writer \<Rightarrow> funding_state \<times> writer" where
  "record_rates now rates s = fold (\<lambda>(symbol, rate, ts). record_funding_rate NoFault now symbol rate ts) rates s"

lemma rates_marked:
  assumes "connected (snd s)"
  shows "connected (snd (record_rates now rates s))
       \<and> SText ` (fst ` set rates) \<subseteq> (\<lambda>x. col x ''position_id'') ` set (filter counts_open (tb_positions (live (snd (record_rates now rates s)))))"
proof (induction rates rule: rev_induct)
  case Nil
  then show ?case using assms by (simp add: record_rates_def)
next
  case (snoc q rates)
  obtain symbol rate ts where q: "q = (symbol, rate, ts)" by (cases q)
  let ?s = "record_rates now rates s"
  have step: "record_rates now (rates @ [q]) s = record_funding_rate NoFault now symbol rate ts ?s" by (simp add: record_rates_def q)
  have c: "connected (snd ?s)" using snoc by simp
  have "SText ` (fst ` set (rates @ [q])) \<subseteq> (\<lambda>x. col x ''position_id'') ` set (filter counts_open (tb_positions (live (snd (record_rates now (rates @ [q]) s)))))"
    using snoc unfolding step record_funding_rate_def snd_conv marker_rows(1) [OF c]
    by (simp only: image_subset_iff has_marker_replace [OF marker_row]) (auto simp: q)
  then show ?case using marker_rows(2) [OF c] by (simp only: step record_funding_rate_def snd_conv simp_thms)
qed

text \<open>Lemma: writing the funding rates of as many different symbols as there are slots makes the portfolio check refuse every new
  position, with no position ever having been opened.\<close>

theorem risk_phantom_positions:
  assumes "connected (snd s)" and "max_positions env \<le> int (length rates)" and "distinct (map fst rates)"
  shows "check_new_position env True (snd (record_rates now rates s)) = (False, ''MAX_POSITIONS_EXCEEDED'')"
proof -
  let ?rows = "filter counts_open (tb_positions (live (snd (record_rates now rates s))))"
  have "length rates = card (SText ` (fst ` set rates))"
    using assms(3) by (simp add: card_image inj_on_def distinct_card [of "map fst rates", simplified])
  also have "\<dots> \<le> card ((\<lambda>x. col x ''position_id'') ` set ?rows)"
    using rates_marked [OF assms(1), of now rates] by (intro card_mono) simp_all
  also have "\<dots> \<le> length ?rows" by (metis card_length length_map set_map)
  finally show ?thesis
    using assms(2) rates_marked [OF assms(1), of now rates] by (simp add: check_new_position_connected)
qed

definition two_rates :: "(string \<times> rat \<times> int) list" where
  "two_rates = [(''BTC_USDT'', 1, 5), (''ETH_USDT'', 2, 5)]"

lemma risk_phantom_positions_witness:
  "check_new_position ''PROD'' True (connect (init_writer simple_conv empty_tables)) = (True, ''OK'')
   \<and> check_new_position ''PROD'' True (snd (record_rates 7 two_rates (new_funding_state 0, connect (init_writer simple_conv empty_tables))))
     = (False, ''MAX_POSITIONS_EXCEEDED'')"
proof -
  have "connected (connect (init_writer simple_conv empty_tables))" by (simp add: connect_def)
  moreover have "tb_positions (live (connect (init_writer simple_conv empty_tables))) = []" by (simp add: connect_def init_writer_def empty_tables_def)
  ultimately show ?thesis
    using risk_phantom_positions [of "(new_funding_state 0, connect (init_writer simple_conv empty_tables))" "''PROD''" two_rates 7]
    by (simp add: two_rates_def max_positions_def is_test_def check_new_position_connected)
qed

section \<open>What empties them\<close>

text \<open>The events that reach the table of positions through the writer, the funding monitor and the radar.\<close>

datatype ledger_event =
    LOpen sql_fault int sql_payload
  | LClose sql_fault int string string rat rat "rat option"
  | LVersion sql_fault string rat rat rat int
  | LFunding sql_fault int string rat int
  | LTrade sql_fault int string rat rat int rat rat int

type_synonym ledger = "radar \<times> funding_state \<times> writer"

fun ledger_step :: "radar_config \<Rightarrow> ledger_event \<Rightarrow> ledger \<Rightarrow> ledger" where
  "ledger_step cfg (LOpen flt now p) (r, f, w) = (r, f, fst (open_position flt now p w))"
| "ledger_step cfg (LClose flt now pid reason pnl fee rm) (r, f, w) = (r, f, fst (sql_close_position flt now pid reason pnl fee rm w))"
| "ledger_step cfg (LVersion flt pid a tp sl e) (r, f, w) = (r, f, fst (update_position_versioned flt pid a tp sl e w))"
| "ledger_step cfg (LFunding flt now symbol rate ts) (r, f, w) = (let (f', w') = record_funding_rate flt now symbol rate ts (f, w) in (r, f', w'))"
| "ledger_step cfg (LTrade flt now symbol price tick lifetime ratio oi ts) (r, f, w) =
     (let (r', w') = record_trade cfg flt now symbol price tick lifetime ratio oi ts (r, w) in (r', f, w'))"

definition open_count :: "writer \<Rightarrow> nat" where
  "open_count w = length (filter counts_open (tb_positions (live w)))"

text \<open>What every event keeps: the writer stays connected and well formed, and the count does not fall.\<close>

definition count_kept :: "writer \<Rightarrow> writer \<Rightarrow> bool" where
  "count_kept w w' \<longleftrightarrow> connected w' \<and> writer_ok w' \<and> open_count w \<le> open_count w'"

lemma count_kept_trans: "count_kept w w' \<Longrightarrow> count_kept w' w'' \<Longrightarrow> count_kept w w''"
  by (auto simp: count_kept_def)

lemma count_set_cols:
  assumes "map_of upd ''emergency_pending'' = None"
  shows "length (filter counts_open (fst (update_where p upd t))) = length (filter counts_open t)"
proof -
  have "counts_open (if p r then set_cols upd r else r) = counts_open r" for r using assms by (simp add: counts_open_def col_set_cols_other)
  then show ?thesis by (simp add: update_where_def filter_map comp_def)
qed

lemma count_replace:
  assumes "keys_unique ''position_id'' t" and "counts_open r"
  shows "length (filter counts_open t) \<le> length (filter counts_open (insert_or_replace ''position_id'' r t))"
proof -
  let ?k = "same_key ''position_id'' (col r ''position_id'')"
  have "length (filter counts_open t) = length (filter counts_open (filter ?k t)) + length (filter counts_open (filter (\<lambda>x. \<not> ?k x) t))"
    by (induction t) auto
  moreover have "length (filter counts_open (filter ?k t)) \<le> length (filter ?k t)" by (rule length_filter_le)
  moreover have "length (filter ?k t) \<le> 1" using unique_key_filter [OF assms(1), of "col r ''position_id''"] by auto
  ultimately show ?thesis using assms(2) by (simp add: insert_or_replace_def)
qed

lemma write_keeps:
  assumes "connected w" and "writer_ok w" and "\<And>t. tables_typed t \<Longrightarrow> tables_typed (f t)"
    and "\<And>t. tables_typed t \<Longrightarrow> length (filter counts_open (tb_positions t)) \<le> length (filter counts_open (tb_positions (f t)))"
  shows "count_kept w (fst (sql_write flt f w))"
proof -
  have "writer_ok (fst (sql_write flt f w))" by (rule sql_write_ok [OF assms(2,3)])
  moreover have "tables_typed (live w)" using assms(2) by (simp add: writer_ok_def)
  ultimately show ?thesis using assms(1) assms(4) [of "live w"] by (cases flt) (simp_all add: count_kept_def sql_write_def open_count_def)
qed

lemma ledger_step_keeps:
  assumes "connected w" and "writer_ok w"
  shows "count_kept w (snd (snd (ledger_step cfg e (r, f, w))))"
proof -
  have marker: "count_kept w (fst (execute_wal flt now (marker_payload symbol v) w))" for flt now symbol v
    unfolding execute_wal_def using count_replace [OF _ marker_row(2)]
    by (intro write_keeps [OF assms]) (simp_all add: tables_typed_def replace_typed marker_payload_def dget_Cons)
  show ?thesis
  proof (cases e)
    case (LOpen flt now p)
    have "count_kept w (fst (open_position flt now p w))"
    proof (cases "dget p ''position_id''")
      case None
      then show ?thesis using assms by (simp add: open_position_def count_kept_def)
    next
      case (Some pid)
      show ?thesis unfolding open_position_def Some option.case
        by (intro write_keeps [OF assms]) (simp_all add: tables_typed_def ignore_typed, simp add: insert_or_ignore_def)
    qed
    then show ?thesis by (simp add: LOpen)
  next
    case (LClose flt now pid reason pnl fee rm)
    have "map_of (close_cols now reason pnl fee rm) ''position_id'' = None" "map_of (close_cols now reason pnl fee rm) ''emergency_pending'' = None"
      by (simp_all add: close_cols_def)
    then show ?thesis unfolding LClose ledger_step.simps snd_conv sql_close_position_def
      by (intro write_keeps [OF assms]) (simp_all add: tables_typed_def update_typed [where s = positions_schema and k = "''position_id''"] count_set_cols)
  next
    case (LVersion flt pid a tp sl v)
    have "count_kept w (fst (update_position_versioned flt pid a tp sl v w))"
      using assms(1) versioned_ok [OF assms(2), of flt pid a tp sl v]
      by (simp add: count_kept_def open_count_def update_position_versioned_def Let_def split_beta version_cols_def count_set_cols)
    then show ?thesis by (simp add: LVersion)
  next
    case (LFunding flt now symbol rate ts)
    then show ?thesis by (simp add: record_funding_rate_def marker)
  next
    case (LTrade flt now symbol price tick lifetime ratio oi ts)
    then show ?thesis using assms marker by (simp add: record_trade_def Let_def count_kept_def)
  qed
qed

lemma ledger_keeps:
  assumes "connected (snd (snd s))" and "writer_ok (snd (snd s))"
  shows "count_kept (snd (snd s)) (snd (snd (fold (ledger_step cfg) es s)))"
proof (induction es rule: rev_induct)
  case Nil
  then show ?case using assms by (simp add: count_kept_def)
next
  case (snoc e es)
  obtain r f w where s: "fold (ledger_step cfg) es s = (r, f, w)" by (cases "fold (ledger_step cfg) es s")
  then have "connected w" "writer_ok w" using snoc by (simp_all add: count_kept_def)
  from ledger_step_keeps [OF this, of cfg e r f] show ?case using snoc s by (auto intro: count_kept_trans)
qed

text \<open>Lemma: once the portfolio check refuses a new position it refuses every later one: nothing that opens, closes or updates a
  position or writes a funding rate or a trade frees a slot, whichever statements fail.\<close>

theorem risk_slots_leak:
  fixes s :: ledger
  assumes "connected (snd (snd s))" and "writer_ok (snd (snd s))" and "\<not> fst (check_new_position env True (snd (snd s)))"
  shows "check_new_position env True (snd (snd (fold (ledger_step cfg) es s))) = (False, ''MAX_POSITIONS_EXCEEDED'')"
  using assms(3) ledger_keeps [OF assms(1,2), of cfg es] check_new_position_connected [OF assms(1), of env]
  by (auto simp: count_kept_def check_new_position_connected open_count_def split: if_splits)

definition two_opened :: writer where
  "two_opened = fst (open_position NoFault 5 [(''position_id'', SText ''Q'')] (fst (open_position NoFault 5 [(''position_id'', SText ''P'')]
     (connect (init_writer simple_conv empty_tables)))))"

lemma risk_slots_leak_witness:
  "check_new_position ''PROD'' True (snd (snd (fold (ledger_step default_radar_config)
      [LClose NoFault 9 ''P'' ''TP'' 1 0 None, LClose NoFault 9 ''Q'' ''SL'' 0 0 None] (new_radar, new_funding_state 0, two_opened))))
    = (False, ''MAX_POSITIONS_EXCEEDED'')"
proof -
  have "writer_reach empty_tables two_opened" unfolding two_opened_def by (intro writer_reach.intros)
  from writer_reach_ok [OF this empty_typed] have ok: "writer_ok two_opened" .
  have c: "connected two_opened" by (simp add: two_opened_def open_position_def sql_write_def connect_def dget_Cons)
  have "tb_positions (live two_opened) = [opened_row simple_conv 5 (SText ''P'') [(''position_id'', SText ''P'')], opened_row simple_conv 5 (SText ''Q'') [(''position_id'', SText ''Q'')]]"
    by (simp add: two_opened_def open_position_def sql_write_def connect_def init_writer_def empty_tables_def dget_Cons insert_or_ignore_def
        same_key_def opened_row_id flip: opened_row_def)
  moreover have "counts_open (opened_row cv 5 pid p)" for cv pid p by (simp add: counts_open_def opened_row_col positions_schema_def open_values_def)
  ultimately have "\<not> fst (check_new_position ''PROD'' True two_opened)"
    by (simp add: check_new_position_connected [OF c] max_positions_def is_test_def)
  then show ?thesis by (intro risk_slots_leak) (simp_all add: ok c)
qed

end
