(* ===== verification/Fill_Model.thy ===== *)
theory Fill_Model
  imports Risk
begin

text \<open>
  \<^verbatim>\<open>src/backtest/fill_model.py\<close>: a market order taken from a list of price levels, its average price, slippage, fee and latency, and the
  check of the ratio of reward to risk. Floats of the configuration reach decimal arithmetic through their text, \<^verbatim>\<open>Decimal(str(x))\<close>,
  whose value is the parameter \<open>dstr\<close>; the sample of the normal distribution is an argument.
\<close>

datatype fill_status = FILLED | PARTIAL_CLOSED | REJECTED | EXPIRED

record fill_config =
  fc_fee_taker :: rat
  fc_fee_maker :: rat
  fc_fee_fallback :: rat
  fc_leverage :: int
  fc_latency_mean_ms :: rat
  fc_latency_std_ms :: rat
  fc_sealed_ttl_ms :: int
  fc_rr_min :: rat
  fc_depth_levels :: int

definition default_fill_config :: fill_config where
  "default_fill_config = \<lparr>fc_fee_taker = rnd (2 / 10000), fc_fee_maker = 0, fc_fee_fallback = rnd (3 / 10000), fc_leverage = 5,
     fc_latency_mean_ms = 100, fc_latency_std_ms = 50, fc_sealed_ttl_ms = 300000, fc_rr_min = rnd (14999 / 10000), fc_depth_levels = 10\<rparr>"

text \<open>A leverage of zero raises.\<close>

definition slippage_pct :: "fill_config \<Rightarrow> rat option" where
  "slippage_pct cfg = (if fc_leverage cfg = 0 then None else Some (min (rnd (3 / 100)) (fdiv (rnd (1 / 10)) (of_int (fc_leverage cfg)))))"

record fill_result =
  fill_status :: fill_status
  filled_qty :: rat
  filled_price :: rat
  fill_fee :: rat
  fill_latency_ms :: int
  fill_reason :: string

definition rejected :: "string \<Rightarrow> fill_result" where
  "rejected reason = \<lparr>fill_status = REJECTED, filled_qty = 0, filled_price = 0, fill_fee = 0, fill_latency_ms = 0, fill_reason = reason\<rparr>"

text \<open>\<^verbatim>\<open>xs[:n]\<close>, which counts from the end when \<open>n\<close> is negative.\<close>

definition slice_to :: "int \<Rightarrow> 'a list \<Rightarrow> 'a list" where
  "slice_to n xs = take (nat (if n < 0 then int (length xs) + n else n)) xs"

fun take_levels :: "(rat \<times> rat) list \<Rightarrow> rat \<Rightarrow> rat \<Rightarrow> rat \<Rightarrow> rat \<times> rat \<times> rat" where
  "take_levels [] remaining cost filled = (remaining, cost, filled)"
| "take_levels ((p, q) # ls) remaining cost filled =
     (if remaining \<le> 0 then (remaining, cost, filled)
      else if q \<le> 0 then take_levels ls remaining cost filled
      else let t = min remaining q in take_levels ls (dec (remaining - t)) (dec (cost + dec (t * p))) (dec (filled + t)))"

definition lower_case :: "string \<Rightarrow> string" where
  "lower_case s = map (\<lambda>c. if 65 \<le> (of_char c :: nat) \<and> of_char c \<le> (90 :: nat) then char_of ((of_char c :: nat) + 32) else c) s"

definition apply_slippage :: "(rat \<Rightarrow> rat) \<Rightarrow> fill_config \<Rightarrow> rat \<Rightarrow> string \<Rightarrow> rat option" where
  "apply_slippage dstr cfg price side =
     map_option (\<lambda>x. if lower_case side \<in> {''buy'', ''long'', ''bid''} then dec (price * dec (1 + dstr x)) else dec (price * dec (1 - dstr x))) (slippage_pct cfg)"

text \<open>\<^verbatim>\<open>_quantize\<close> at eight digits after the point; a coefficient of more than 28 digits raises.\<close>

definition quantize8 :: "rat \<Rightarrow> rat option" where
  "quantize8 x = (let n = py_int (x / power_int 10 (- 8)) in if 10 ^ 28 \<le> \<bar>n\<bar> then None else Some (of_int n * power_int 10 (- 8)))"

definition sample_latency :: "fill_config \<Rightarrow> rat option \<Rightarrow> int" where
  "sample_latency cfg v = max 0 (py_int (case v of None \<Rightarrow> fc_latency_mean_ms cfg | Some x \<Rightarrow> x))"

definition is_sealed_expired :: "fill_config \<Rightarrow> int \<Rightarrow> int \<Rightarrow> bool" where
  "is_sealed_expired cfg sealed_at_ms now_ms \<longleftrightarrow> fc_sealed_ttl_ms cfg < now_ms - sealed_at_ms"

definition compute_fill ::
  "(rat \<Rightarrow> rat) \<Rightarrow> fill_config \<Rightarrow> string \<Rightarrow> rat \<Rightarrow> rat \<Rightarrow> (rat \<times> rat) list \<Rightarrow> rat option \<Rightarrow> fill_result option" where
  "compute_fill dstr cfg side qty price depth sample =
     (if qty \<le> 0 then Some (rejected ''ZERO_QTY'')
      else if depth = [] then Some (rejected ''EMPTY_DEPTH'')
      else
        let (remaining, cost, filled) = take_levels (slice_to (fc_depth_levels cfg) depth) qty 0 0
        in if filled = 0 then Some (rejected ''NO_LIQUIDITY'')
           else case apply_slippage dstr cfg (dec (cost / filled)) side of
                  None \<Rightarrow> None
                | Some p \<Rightarrow>
                    (case quantize8 p of
                       None \<Rightarrow> None
                     | Some avg \<Rightarrow>
                         (case quantize8 (dec (dec (avg * filled) * dstr (fc_fee_taker cfg))) of
                            None \<Rightarrow> None
                          | Some fee \<Rightarrow>
                              Some \<lparr>fill_status = (if 0 < remaining then PARTIAL_CLOSED else FILLED), filled_qty = filled, filled_price = avg,
                                    fill_fee = fee, fill_latency_ms = sample_latency cfg sample,
                                    fill_reason = (if 0 < remaining then ''INSUFFICIENT_DEPTH'' else '''')\<rparr>)))"

definition check_rr :: "(rat \<Rightarrow> rat) \<Rightarrow> fill_config \<Rightarrow> rat \<Rightarrow> rat \<Rightarrow> rat \<Rightarrow> rat \<Rightarrow> rat \<Rightarrow> bool \<times> rat" where
  "check_rr dstr cfg entry tp sl fee_taker fee_maker =
     (let total_fee = dec (dec (entry * fee_taker) + dec (tp * fee_maker));
          gross_profit = dec \<bar>dec (tp - entry)\<bar>;
          gross_loss = dec \<bar>dec (entry - sl)\<bar>
      in if gross_loss \<le> 0 then (False, 0)
         else let net_profit = dec (gross_profit - total_fee); net_loss = dec (gross_loss + total_fee)
              in if net_loss \<le> 0 then (False, 0)
                 else let rr = dec (net_profit / net_loss) in (dstr (fc_rr_min cfg) \<le> rr, rr))"

section \<open>What is taken\<close>

text \<open>The quantity on offer at the levels that are looked at.\<close>

definition liquidity :: "(rat \<times> rat) list \<Rightarrow> rat" where
  "liquidity ls = sum_list (map (\<lambda>(p, q). max 0 q) ls)"

lemma liquidity_nonneg: "0 \<le> liquidity ls"
  by (induction ls) (auto simp: liquidity_def)

lemma liquidity_simps [simp]: "liquidity [] = 0" "liquidity ((p, q) # ls) = max 0 q + liquidity ls"
  by (simp_all add: liquidity_def)

text \<open>A quantity in units of a power of ten.\<close>

definition in_units :: "int \<Rightarrow> rat \<Rightarrow> bool" where
  "in_units e x \<longleftrightarrow> x = of_int (py_int (x / power_int 10 e)) * power_int 10 e"

lemma in_units_iff: "in_units e x \<longleftrightarrow> (\<exists>n. x = of_int n * power_int 10 e)"
proof
  assume "\<exists>n. x = of_int n * power_int 10 e"
  then obtain n where "x = of_int n * power_int 10 e" by blast
  then show "in_units e x" by (simp add: in_units_def)
qed (auto simp: in_units_def)

lemma dec_units:
  assumes "in_units e x" and "0 \<le> x" and "x < 10 ^ 28 * power_int 10 e"
  shows "dec x = x"
proof -
  obtain n where n: "x = of_int n * power_int 10 e" using assms(1) by (auto simp: in_units_iff)
  have "of_int n < (10 ^ 28 :: rat)" using assms(3) by (simp add: n)
  moreover have "0 \<le> (of_int n :: rat)"
  proof (rule ccontr)
    assume "\<not> 0 \<le> (of_int n :: rat)"
    then have "of_int n * power_int (10::rat) e < 0" by (intro mult_neg_pos) simp_all
    then show False using assms(2) n by linarith
  qed
  ultimately have "\<bar>n\<bar> < 10 ^ 28" by (metis abs_of_nonneg of_int_0_le_iff of_int_less_iff of_int_numeral of_int_power)
  then show ?thesis using n by (rule dec_exact [rotated])
qed

lemma in_units_diff: "in_units e x \<Longrightarrow> in_units e y \<Longrightarrow> in_units e (x - y)"
  unfolding in_units_iff by (metis left_diff_distrib of_int_diff)

lemma in_units_add: "in_units e x \<Longrightarrow> in_units e y \<Longrightarrow> in_units e (x + y)"
  unfolding in_units_iff by (metis distrib_right of_int_add)

lemma take_levels_qty:
  assumes "in_units e remaining" and "in_units e filled" and "list_all (\<lambda>(p, q). in_units e q) ls"
    and "0 \<le> remaining" and "0 \<le> filled" and "remaining + filled < 10 ^ 28 * power_int 10 e"
  shows "fst (take_levels ls remaining cost filled) = remaining - min remaining (liquidity ls)
       \<and> snd (snd (take_levels ls remaining cost filled)) = filled + min remaining (liquidity ls)"
  using assms
proof (induction ls remaining cost filled rule: take_levels.induct)
  case (2 p q ls remaining cost filled)
  show ?case
  proof (cases "remaining \<le> 0 \<or> q \<le> 0")
    case True
    then show ?thesis using "2.IH"(1) "2.prems" liquidity_nonneg [of ls] by (auto simp: min_def max_def)
  next
    case False
    let ?t = "min remaining q"
    have t: "in_units e ?t" "0 \<le> ?t" "?t \<le> remaining" using "2.prems" False by (auto simp: min_def)
    have u: "in_units e (remaining - ?t)" "in_units e (filled + ?t)" using "2.prems"(1,2) t(1) by (simp_all only: in_units_diff in_units_add)
    have b: "0 \<le> remaining - ?t" "remaining - ?t < 10 ^ 28 * power_int 10 e" "0 \<le> filled + ?t" "filled + ?t < 10 ^ 28 * power_int 10 e"
      using t(2,3) "2.prems"(4-6) by linarith+
    have d: "dec (remaining - ?t) = remaining - ?t" "dec (filled + ?t) = filled + ?t"
      using u b by (simp_all only: dec_units)
    have "fst (take_levels ls (dec (remaining - ?t)) (dec (cost + dec (?t * p))) (dec (filled + ?t))) = (remaining - ?t) - min (remaining - ?t) (liquidity ls)
       \<and> snd (snd (take_levels ls (dec (remaining - ?t)) (dec (cost + dec (?t * p))) (dec (filled + ?t)))) = (filled + ?t) + min (remaining - ?t) (liquidity ls)"
      using "2.IH"(2) [OF _ _ refl] u t "2.prems"(3-) False unfolding d by simp
    then show ?thesis using False liquidity_nonneg [of ls] by (auto simp: Let_def min_def max_def)
  qed
qed (simp add: min_def)

text \<open>C39: with quantities in units of a common power of ten that fit into 28 digits, a market order takes exactly what the levels that are
  looked at offer, up to its quantity: it is filled when that is enough, partly filled when it is not, and rejected when there is nothing.\<close>

theorem fill_takes_depth:
  assumes "compute_fill dstr cfg side qty price depth sample = Some r" and "0 < qty" and "in_units e qty" and "qty < 10 ^ 28 * power_int 10 e"
    and "list_all (\<lambda>(p, q). in_units e q) depth"
  defines "offered \<equiv> liquidity (slice_to (fc_depth_levels cfg) depth)"
  shows "filled_qty r = min qty offered
    \<and> fill_status r = (if offered = 0 then REJECTED else if offered < qty then PARTIAL_CLOSED else FILLED)"
proof (cases "depth = []")
  case True
  then show ?thesis using assms(1,2) by (auto simp: compute_fill_def rejected_def offered_def slice_to_def liquidity_def min_def)
next
  case False
  let ?ls = "slice_to (fc_depth_levels cfg) depth"
  have ls: "list_all (\<lambda>(p, q). in_units e q) ?ls" using assms(5) by (auto simp: list_all_iff slice_to_def dest: in_set_takeD)
  obtain remaining cost filled where t: "take_levels ?ls qty 0 0 = (remaining, cost, filled)" using prod_cases3 by blast
  have z: "in_units e 0" using py_int_of_int [of 0] by (simp add: in_units_def)
  have q: "remaining = qty - min qty offered" "filled = min qty offered"
    using take_levels_qty [OF assms(3) z ls, of 0] assms(2,4) by (simp_all add: t offered_def)
  have "0 \<le> offered" by (simp add: offered_def liquidity_nonneg)
  then show ?thesis using assms(1,2) False q
    by (auto simp: compute_fill_def t rejected_def min_def split: if_splits option.splits)
qed

definition two_levels :: "(rat \<times> rat) list" where "two_levels = [(100, 2), (100, 1)]"

definition no_costs :: fill_config where
  "no_costs = default_fill_config\<lparr>fc_fee_taker := 0\<rparr>"

lemma dec_int: "\<bar>n\<bar> < 10 ^ 28 \<Longrightarrow> dec (of_int n) = of_int n"
  using dec_exact [of "of_int n" n 0] by simp

lemma partial_fill:
  "\<exists>r. compute_fill (\<lambda>x. 0) no_costs ''BUY'' 5 100 two_levels None = Some r \<and> filled_price r = 100"
proof -
  have d: "dec 1 = 1" "dec 2 = 2" "dec 3 = 3" "dec 5 = 5" "dec 100 = 100" "dec 200 = 200" "dec 300 = 300" "dec 0 = 0"
    using dec_int [of 1] dec_int [of 2] dec_int [of 3] dec_int [of 5] dec_int [of 100] dec_int [of 200] dec_int [of 300] dec_int [of 0] by simp_all
  have q: "quantize8 100 = Some 100" "quantize8 0 = Some 0"
  proof -
    have "(100::rat) / power_int 10 (- 8) = of_int (10 ^ 10)" by (simp add: power_int_def power_divide)
    then have "py_int (100 / power_int 10 (- 8)) = 10 ^ 10" by (simp only: py_int_of_int)
    then show "quantize8 100 = Some 100" by (simp add: quantize8_def Let_def power_int_def power_divide)
    show "quantize8 0 = Some 0" by (simp add: quantize8_def py_int_def)
  qed
  have ls: "slice_to (fc_depth_levels no_costs) two_levels = two_levels" by (simp add: slice_to_def no_costs_def default_fill_config_def two_levels_def)
  have t: "take_levels two_levels 5 0 0 = (2, 300, 3)" by (simp add: two_levels_def d Let_def)
  have s: "apply_slippage (\<lambda>x. 0) no_costs 100 ''BUY'' = Some 100"
    by (simp add: apply_slippage_def slippage_pct_def no_costs_def default_fill_config_def d)
  show ?thesis by (simp add: compute_fill_def ls t s q d) (simp add: two_levels_def)
qed

lemma fill_takes_depth_witness:
  "\<exists>r. compute_fill (\<lambda>x. 0) no_costs ''BUY'' 5 100 two_levels None = Some r \<and> filled_qty r = 3 \<and> fill_status r = PARTIAL_CLOSED"
proof -
  obtain r where r: "compute_fill (\<lambda>x. 0) no_costs ''BUY'' 5 100 two_levels None = Some r" using partial_fill by blast
  have p: "py_int 5 = 5" "py_int 2 = 2" "py_int 1 = 1" by (simp_all add: py_int_def)
  have u: "in_units 0 5" "list_all (\<lambda>(p, q). in_units 0 q) two_levels" by (simp_all add: in_units_def two_levels_def p)
  have ls: "slice_to (fc_depth_levels no_costs) two_levels = two_levels" by (simp add: slice_to_def no_costs_def default_fill_config_def two_levels_def)
  have "liquidity two_levels = 3" by (simp add: two_levels_def)
  then show ?thesis using fill_takes_depth [OF r _ u(1) _ u(2)] r by (simp add: ls)
qed

section \<open>Reward to risk\<close>

text \<open>Lemma: with the stop on the losing side the fill model computes the same ratio as the portfolio risk, and lets the trade pass exactly when it reaches
  the minimum.\<close>

theorem rr_agrees:
  assumes "if entry < tp then sl \<le> entry else entry \<le> sl" and "0 < dstr (fc_rr_min cfg)"
  shows "check_rr dstr cfg entry tp sl fee_taker fee_maker
    = (dstr (fc_rr_min cfg) \<le> compute_rr entry tp sl fee_taker fee_maker, compute_rr entry tp sl fee_taker fee_maker)"
proof -
  have a: "dec \<bar>dec x\<bar> = dec \<bar>x\<bar>" for x
    using dec_nonneg [of x] dec_nonneg [of "- x"] by (cases "0 \<le> x") (simp_all add: dec_minus)
  have "dec \<bar>dec (tp - entry)\<bar> = (if entry < tp then dec (tp - entry) else dec (entry - tp))" by (simp only: a) simp
  moreover have "dec \<bar>dec (entry - sl)\<bar> = (if entry < tp then dec (entry - sl) else dec (sl - entry))"
    using assms(1) by (simp only: a) (simp split: if_splits)
  ultimately show ?thesis using assms(2) by (simp only: check_rr_def compute_rr_def Let_def) auto
qed

text \<open>With the stop on the wrong side the portfolio risk gives zero, and the fill model a ratio as if it were on the right one.\<close>

lemma rr_wrong_stop:
  assumes "entry < tp" and "entry < sl"
  shows "compute_rr entry tp sl fee_taker fee_maker = 0
       \<and> check_rr dstr cfg entry tp sl fee_taker fee_maker = check_rr dstr cfg entry tp (entry - (sl - entry)) fee_taker fee_maker"
proof -
  have "dec (entry - sl) \<le> 0" using assms(2) dec_nonneg [of "sl - entry"] dec_minus [of "sl - entry"] by simp
  moreover have "entry - (entry - (sl - entry)) = - (entry - sl)" by simp
  ultimately show ?thesis using assms by (simp only: compute_rr_def check_rr_def Let_def dec_minus abs_minus_cancel) simp
qed

lemma rr_agrees_witness:
  "snd (check_rr (\<lambda>x. x) default_fill_config 100 110 95 0 0) = compute_rr 100 110 95 0 0"
proof -
  have "0 < fc_rr_min default_fill_config" using rnd_mono [of 1 "14999 / 10000"] by (simp add: default_fill_config_def)
  then show ?thesis using rr_agrees [of 100 110 95 "\<lambda>x. x" default_fill_config 0 0] by simp
qed

end
