(* ===== verification/Queues.thy ===== *)
theory Queues
  imports Prelude "HOL-Library.Sublist"
begin

text \<open>
  \<^verbatim>\<open>src/data_layer/queues/async_state_queue.py\<close> and \<^verbatim>\<open>async_telemetry_queue.py\<close>: two bridges to a \<^verbatim>\<open>multiprocessing.Queue\<close>, one that must not drop
  and one that drops the oldest item. The queue of the other process is a bounded list; its feeder thread is not modelled.
  Coroutines and threads are cut into the steps between which others may run, and the runs are all the interleavings.
  An item is never \<^verbatim>\<open>None\<close>, which the bridge thread would take for an empty deque.
  The history of what was put and of what reached the other process is kept beside the state, by the runs only.
\<close>

section \<open>The state queue\<close>

record 'i state_queue =
  sq_maxsize :: nat
  sq_mp_maxsize :: nat
  sq_queue :: "'i list"
  sq_unfinished :: nat
  sq_in_hand :: "'i option"
  sq_running :: bool
  sq_writer :: bool
  sq_mp :: "'i list"

definition new_state_queue :: "nat \<Rightarrow> nat \<Rightarrow> 'i state_queue" where
  "new_state_queue maxsize mp_maxsize =
     \<lparr>sq_maxsize = maxsize, sq_mp_maxsize = mp_maxsize, sq_queue = [], sq_unfinished = 0, sq_in_hand = None, sq_running = False,
      sq_writer = False, sq_mp = []\<rparr>"

text \<open>A size of zero is no bound, for both kinds of queue.\<close>

definition has_room :: "nat \<Rightarrow> 'i list \<Rightarrow> bool" where
  "has_room maxsize q \<longleftrightarrow> maxsize = 0 \<or> length q < maxsize"

definition sq_start :: "'i state_queue \<Rightarrow> 'i state_queue" where
  "sq_start s = (if sq_running s then s else s\<lparr>sq_running := True, sq_writer := True, sq_in_hand := None\<rparr>)"

text \<open>\<^verbatim>\<open>put\<close> waits while the queue is full: \<open>None\<close>.\<close>

definition sq_put :: "'i \<Rightarrow> 'i state_queue \<Rightarrow> 'i state_queue option" where
  "sq_put i s =
     (if has_room (sq_maxsize s) (sq_queue s) then Some (s\<lparr>sq_queue := sq_queue s @ [i], sq_unfinished := sq_unfinished s + 1\<rparr>) else None)"

text \<open>\<^verbatim>\<open>task_done\<close> raises at zero, which the callers swallow.\<close>

definition task_done :: "'i state_queue \<Rightarrow> 'i state_queue" where
  "task_done s = s\<lparr>sq_unfinished := sq_unfinished s - 1\<rparr>"

text \<open>The writer task: it gets an item, tries to put it until there is room, and calls \<^verbatim>\<open>task_done\<close> twice.\<close>

definition writer_get :: "'i state_queue \<Rightarrow> 'i state_queue option" where
  "writer_get s =
     (if sq_writer s \<and> sq_running s \<and> sq_in_hand s = None
      then (case sq_queue s of [] \<Rightarrow> None | i # q \<Rightarrow> Some (s\<lparr>sq_queue := q, sq_in_hand := Some i\<rparr>)) else None)"

definition writer_put :: "'i state_queue \<Rightarrow> 'i state_queue option" where
  "writer_put s =
     (case sq_in_hand s of
        None \<Rightarrow> None
      | Some i \<Rightarrow>
          if sq_writer s \<and> sq_running s \<and> has_room (sq_mp_maxsize s) (sq_mp s)
          then Some (task_done (task_done (s\<lparr>sq_mp := sq_mp s @ [i], sq_in_hand := None\<rparr>))) else None)"

text \<open>\<^verbatim>\<open>stop\<close> clears the flag and cancels the writer, whose item goes with it; then what is queued is moved over as far as it fits.\<close>

fun drain_remaining :: "nat \<Rightarrow> 'i list \<Rightarrow> 'i list \<Rightarrow> 'i list" where
  "drain_remaining cap [] mp = mp"
| "drain_remaining cap (i # q) mp = drain_remaining cap q (if has_room cap mp then mp @ [i] else mp)"

definition sq_stop :: "'i state_queue \<Rightarrow> 'i state_queue" where
  "sq_stop s =
     (if \<not> sq_running s then s
      else s\<lparr>sq_running := False, sq_writer := False, sq_in_hand := None, sq_mp := drain_remaining (sq_mp_maxsize s) (sq_queue s) (sq_mp s),
             sq_queue := [], sq_unfinished := sq_unfinished s - length (sq_queue s)\<rparr>)"

definition qsize_async :: "'i state_queue \<Rightarrow> nat" where
  "qsize_async s = length (sq_queue s)"

text \<open>Runs without a stop, with what was put and what the other process has taken.\<close>

inductive sq_run :: "nat \<Rightarrow> nat \<Rightarrow> 'i list \<Rightarrow> 'i list \<Rightarrow> 'i state_queue \<Rightarrow> bool" for cap mp_cap where
  new: "sq_run cap mp_cap [] [] (new_state_queue cap mp_cap)"
| start: "sq_run cap mp_cap ps cs s \<Longrightarrow> sq_run cap mp_cap ps cs (sq_start s)"
| put: "sq_run cap mp_cap ps cs s \<Longrightarrow> sq_put i s = Some s' \<Longrightarrow> sq_run cap mp_cap (ps @ [i]) cs s'"
| get: "sq_run cap mp_cap ps cs s \<Longrightarrow> writer_get s = Some s' \<Longrightarrow> sq_run cap mp_cap ps cs s'"
| forward: "sq_run cap mp_cap ps cs s \<Longrightarrow> writer_put s = Some s' \<Longrightarrow> sq_run cap mp_cap ps cs s'"
| consume: "sq_run cap mp_cap ps cs s \<Longrightarrow> sq_mp s = i # q \<Longrightarrow> sq_run cap mp_cap ps (cs @ [i]) (s\<lparr>sq_mp := q\<rparr>)"

definition in_hand_list :: "'i option \<Rightarrow> 'i list" where
  "in_hand_list x = (case x of None \<Rightarrow> [] | Some i \<Rightarrow> [i])"

lemma in_hand_list_simps [simp]: "in_hand_list None = []" "in_hand_list (Some i) = [i]"
  by (simp_all add: in_hand_list_def)

definition bounded :: "nat \<Rightarrow> 'i list \<Rightarrow> bool" where
  "bounded cap q \<longleftrightarrow> cap = 0 \<or> length q \<le> cap"

lemma sq_run_sound:
  "sq_run cap mp_cap ps cs s \<Longrightarrow>
     ps = cs @ sq_mp s @ in_hand_list (sq_in_hand s) @ sq_queue s \<and> (\<not> sq_running s \<longrightarrow> sq_in_hand s = None)
     \<and> sq_maxsize s = cap \<and> sq_mp_maxsize s = mp_cap \<and> bounded cap (sq_queue s) \<and> bounded mp_cap (sq_mp s) \<and> sq_writer s = sq_running s"
proof (induction rule: sq_run.induct)
  case new
  then show ?case by (simp add: new_state_queue_def bounded_def)
next
  case (start ps cs s)
  then show ?case by (auto simp: sq_start_def)
next
  case (put ps cs s i s')
  then show ?case by (auto simp: sq_put_def has_room_def bounded_def split: if_splits)
next
  case (get ps cs s s')
  then show ?case by (auto simp: writer_get_def bounded_def split: if_splits list.splits)
next
  case (forward ps cs s s')
  then show ?case by (auto simp: writer_put_def task_done_def has_room_def bounded_def split: if_splits option.splits)
next
  case (consume ps cs s i q)
  then show ?case by (auto simp: bounded_def)
qed

lemma drain_remaining_take: "drain_remaining cap q mp = mp @ (if cap = 0 then q else take (cap - length mp) q)"
proof (induction q arbitrary: mp)
  case (Cons i q)
  show ?case
  proof (cases "has_room cap mp")
    case True
    then show ?thesis using Cons [of "mp @ [i]"] by (auto simp: has_room_def take_Cons' Suc_diff_Suc)
  next
    case False
    then show ?thesis using Cons [of mp] by (simp add: has_room_def)
  qed
qed simp

text \<open>C14: until it is stopped the bridge loses nothing and keeps the order: what was put is what the other process has taken, what it has
  yet to take, the item in the writer's hand and what is queued; both queues stay within their bounds. A stop loses the item in the
  writer's hand and what does not fit, and nothing else.\<close>

theorem state_queue_lossless:
  assumes "sq_run cap mp_cap ps cs s"
  shows "ps = cs @ sq_mp s @ in_hand_list (sq_in_hand s) @ sq_queue s \<and> bounded cap (sq_queue s) \<and> bounded mp_cap (sq_mp s)
    \<and> sq_mp (sq_stop s) = sq_mp s @ (if \<not> sq_running s then [] else if mp_cap = 0 then sq_queue s else take (mp_cap - length (sq_mp s)) (sq_queue s))"
  using sq_run_sound [OF assms] by (simp add: sq_stop_def drain_remaining_take)

text \<open>Some run ends with a full queue on the other side and an item in the writer's hand, which a stop then loses.\<close>

lemma stop_drops_item:
  "\<exists>s. sq_run 2 1 [''a'', ''b''] [] s \<and> sq_mp (sq_stop s) = [''a''] \<and> sq_queue (sq_stop s) = [] \<and> sq_in_hand (sq_stop s) = None"
proof -
  let ?s0 = "sq_start (new_state_queue 2 1) :: string state_queue"
  have "sq_run 2 1 [] [] ?s0" by (intro sq_run.new sq_run.start)
  from sq_run.put [OF this, of "''a''"] have "sq_run 2 1 [''a''] [] (?s0\<lparr>sq_queue := [''a''], sq_unfinished := 1\<rparr>)"
    by (simp add: sq_put_def has_room_def sq_start_def new_state_queue_def)
  from sq_run.get [OF this] have "sq_run 2 1 [''a''] [] (?s0\<lparr>sq_queue := [], sq_unfinished := 1, sq_in_hand := Some ''a''\<rparr>)"
    by (simp add: writer_get_def sq_start_def new_state_queue_def)
  from sq_run.forward [OF this] have "sq_run 2 1 [''a''] [] (?s0\<lparr>sq_mp := [''a'']\<rparr>)"
    by (simp add: writer_put_def sq_start_def new_state_queue_def has_room_def task_done_def)
  from sq_run.put [OF this, of "''b''"] have "sq_run 2 1 [''a'', ''b''] [] (?s0\<lparr>sq_mp := [''a''], sq_queue := [''b''], sq_unfinished := 1\<rparr>)"
    by (simp add: sq_put_def has_room_def sq_start_def new_state_queue_def)
  from sq_run.get [OF this] have "sq_run 2 1 [''a'', ''b''] [] (?s0\<lparr>sq_mp := [''a''], sq_queue := [], sq_unfinished := 1, sq_in_hand := Some ''b''\<rparr>)"
    by (simp add: writer_get_def sq_start_def new_state_queue_def)
  then show ?thesis
    by (intro exI [of _ "?s0\<lparr>sq_mp := [''a''], sq_queue := [], sq_unfinished := 1, sq_in_hand := Some ''b''\<rparr>"] conjI)
       (simp_all add: sq_stop_def sq_start_def new_state_queue_def)
qed

lemma state_queue_lossless_witness:
  "\<exists>s. sq_run 2 1 [''a'', ''b''] [] s \<and> [''a'', ''b''] = [] @ sq_mp s @ in_hand_list (sq_in_hand s) @ sq_queue s"
proof -
  obtain s where "sq_run 2 1 [''a'', ''b''] [] s" using stop_drops_item by blast
  from this state_queue_lossless [OF this] show ?thesis by blast
qed

section \<open>The telemetry queue\<close>

record 'i telemetry_queue =
  tq_maxsize :: nat
  tq_mp :: "'i list"
  tq_dropped :: nat
  tq_deque :: "'i list"
  tq_in_hand :: "'i option"

definition new_telemetry_queue :: "nat \<Rightarrow> 'i telemetry_queue" where
  "new_telemetry_queue maxsize = \<lparr>tq_maxsize = maxsize, tq_mp = [], tq_dropped = 0, tq_deque = [], tq_in_hand = None\<rparr>"

text \<open>\<^verbatim>\<open>deque(maxlen)\<close>: an append evicts on the left (\<open>deque_append\<close>), an \<^verbatim>\<open>appendleft\<close> on the right.\<close>

definition deque_appendleft :: "nat \<Rightarrow> 'i \<Rightarrow> 'i list \<Rightarrow> 'i list" where
  "deque_appendleft maxlen i d = (if maxlen = 0 then [] else if length d = maxlen then i # butlast d else i # d)"

text \<open>\<^verbatim>\<open>put_nowait\<close> with the bridge thread, and its synchronous mode.\<close>

definition tq_put :: "'i \<Rightarrow> 'i telemetry_queue \<Rightarrow> 'i telemetry_queue" where
  "tq_put i s =
     s\<lparr>tq_deque := deque_append (tq_maxsize s) (tq_deque s) i,
       tq_dropped := (if length (tq_deque s) = tq_maxsize s then tq_dropped s + 1 else tq_dropped s)\<rparr>"

definition tq_put_sync :: "'i \<Rightarrow> 'i telemetry_queue \<Rightarrow> 'i telemetry_queue" where
  "tq_put_sync i s =
     (if has_room (tq_maxsize s) (tq_mp s) then s\<lparr>tq_mp := tq_mp s @ [i]\<rparr>
      else let mp = tl (tq_mp s); evicted = (tq_mp s \<noteq> [])
           in if has_room (tq_maxsize s) mp then s\<lparr>tq_mp := mp @ [i], tq_dropped := (if evicted then tq_dropped s + 1 else tq_dropped s)\<rparr>
              else s\<lparr>tq_mp := mp, tq_dropped := tq_dropped s + 1\<rparr>)"

definition tq_get :: "'i telemetry_queue \<Rightarrow> 'i telemetry_queue \<times> 'i option" where
  "tq_get s = (case tq_mp s of [] \<Rightarrow> (s, None) | i # q \<Rightarrow> (s\<lparr>tq_mp := q\<rparr>, Some i))"

definition tq_qsize :: "bool \<Rightarrow> 'i telemetry_queue \<Rightarrow> nat" where
  "tq_qsize threaded s = length (tq_mp s) + (if threaded then length (tq_deque s) else 0)"

text \<open>The bridge thread takes an item, and then puts it, gives it back after half a second without room, or drops it.\<close>

definition bridge_pop :: "'i telemetry_queue \<Rightarrow> 'i telemetry_queue option" where
  "bridge_pop s = (case (tq_in_hand s, tq_deque s) of (None, i # d) \<Rightarrow> Some (s\<lparr>tq_deque := d, tq_in_hand := Some i\<rparr>) | _ \<Rightarrow> None)"

datatype bridge_answer = Put_ok | Put_full | Put_broken

definition bridge_put :: "bridge_answer \<Rightarrow> 'i telemetry_queue \<Rightarrow> 'i telemetry_queue option" where
  "bridge_put a s =
     (case tq_in_hand s of
        None \<Rightarrow> None
      | Some i \<Rightarrow>
          (case a of
             Put_ok \<Rightarrow> if has_room (tq_maxsize s) (tq_mp s) then Some (s\<lparr>tq_mp := tq_mp s @ [i], tq_in_hand := None\<rparr>) else None
           | Put_full \<Rightarrow>
               (let d = deque_appendleft (tq_maxsize s) i (tq_deque s)
                in Some (s\<lparr>tq_deque := d, tq_in_hand := None, tq_dropped := (if length d = tq_maxsize s then tq_dropped s + 1 else tq_dropped s)\<rparr>))
           | Put_broken \<Rightarrow> Some (s\<lparr>tq_in_hand := None, tq_dropped := tq_dropped s + 1\<rparr>)))"

text \<open>The flush of \<^verbatim>\<open>close\<close> stops at the first item that does not fit.\<close>

fun close_flush :: "nat \<Rightarrow> 'i list \<Rightarrow> 'i list \<Rightarrow> nat \<Rightarrow> 'i list \<times> 'i list \<times> nat" where
  "close_flush cap [] mp n = ([], mp, n)"
| "close_flush cap (i # d) mp n = (if has_room cap mp then close_flush cap d (mp @ [i]) n else (d, mp, n + 1))"

definition tq_close :: "'i telemetry_queue \<Rightarrow> 'i telemetry_queue" where
  "tq_close s = (let (d, mp, n) = close_flush (tq_maxsize s) (tq_deque s) (tq_mp s) (tq_dropped s) in s\<lparr>tq_deque := d, tq_mp := mp, tq_dropped := n\<rparr>)"

inductive tq_run :: "nat \<Rightarrow> 'i list \<Rightarrow> 'i list \<Rightarrow> 'i telemetry_queue \<Rightarrow> bool" for cap where
  new: "tq_run cap [] [] (new_telemetry_queue cap)"
| put: "tq_run cap ps cs s \<Longrightarrow> tq_run cap (ps @ [i]) cs (tq_put i s)"
| pop: "tq_run cap ps cs s \<Longrightarrow> bridge_pop s = Some s' \<Longrightarrow> tq_run cap ps cs s'"
| bridge: "tq_run cap ps cs s \<Longrightarrow> bridge_put a s = Some s' \<Longrightarrow> tq_run cap ps cs s'"
| get: "tq_run cap ps cs s \<Longrightarrow> tq_get s = (s', Some i) \<Longrightarrow> tq_run cap ps (cs @ [i]) s'"

definition tq_held :: "'i telemetry_queue \<Rightarrow> 'i list" where
  "tq_held s = tq_mp s @ in_hand_list (tq_in_hand s) @ tq_deque s"

lemma deque_append_sub: "subseq (deque_append n d i) (d @ [i])"
  unfolding deque_append_def take_last_def by (metis append_take_drop_id subseq_drop_many subseq_order.refl)

lemma deque_appendleft_sub: "subseq (deque_appendleft n i d) (i # d)"
proof -
  have "subseq (butlast d) d" by (metis append_butlast_last_id butlast.simps(1) subseq_order.refl subseq_rev_drop_many)
  then show ?thesis by (simp add: deque_appendleft_def)
qed

lemma subseq_tail: "subseq (a @ x) ps \<Longrightarrow> subseq y x \<Longrightarrow> subseq (a @ y) ps"
  by (metis subseq_append' subseq_order.trans)

lemma tq_run_sound:
  "tq_run cap ps cs s \<Longrightarrow>
     subseq (cs @ tq_held s) ps \<and> length ps \<le> length cs + length (tq_held s) + tq_dropped s \<and> tq_maxsize s = cap \<and> length (tq_deque s) \<le> cap"
proof (induction rule: tq_run.induct)
  case new
  then show ?case by (simp add: new_telemetry_queue_def tq_held_def)
next
  case (put ps cs s i)
  have "subseq ((cs @ tq_mp s @ in_hand_list (tq_in_hand s)) @ tq_deque s @ [i]) (ps @ [i])"
    using put.IH by (simp add: tq_held_def flip: append_assoc)
  from subseq_tail [OF this deque_append_sub] have "subseq (cs @ tq_held (tq_put i s)) (ps @ [i])" by (simp add: tq_held_def tq_put_def)
  moreover have "length (tq_deque s) + 1 \<le> length (deque_append cap (tq_deque s) i) + (if length (tq_deque s) = cap then 1 else 0)"
    "length (deque_append cap (tq_deque s) i) \<le> cap"
    using put.IH by (auto simp: deque_append_def)
  ultimately show ?case using put.IH by (simp add: tq_held_def tq_put_def split: if_splits)
next
  case (pop ps cs s s')
  then show ?case by (auto simp: bridge_pop_def tq_held_def split: option.splits list.splits)
next
  case (bridge ps cs s a s')
  obtain i where i: "tq_in_hand s = Some i" using bridge.hyps(2) by (auto simp: bridge_put_def split: option.splits)
  have sub: "subseq ((cs @ tq_mp s) @ i # tq_deque s) ps" using bridge.IH i by (simp add: tq_held_def)
  show ?case
  proof (cases a)
    case Put_ok
    then show ?thesis using bridge i by (auto simp: bridge_put_def tq_held_def split: if_splits)
  next
    case Put_full
    have "length (tq_deque s) + 1 \<le> length (deque_appendleft cap i (tq_deque s)) + (if length (deque_appendleft cap i (tq_deque s)) = cap then 1 else 0)"
      "length (deque_appendleft cap i (tq_deque s)) \<le> cap"
      using bridge.IH by (auto simp: deque_appendleft_def)
    then show ?thesis using bridge i Put_full subseq_tail [OF sub deque_appendleft_sub]
      by (auto simp: bridge_put_def tq_held_def Let_def split: if_splits)
  next
    case Put_broken
    have "subseq (tq_deque s) (i # tq_deque s)" by auto
    from subseq_tail [OF sub this] show ?thesis using bridge i Put_broken by (auto simp: bridge_put_def tq_held_def)
  qed
next
  case (get ps cs s s' i)
  then show ?case by (auto simp: tq_get_def tq_held_def split: list.splits)
qed

text \<open>C29: whatever the bridge and the consumer do and whenever the other side is full or gone, what has been consumed and what is still
  held is, in order, part of what was put, the local backlog stays within its bound, and no loss is uncounted: the counter of drops is at
  least the number of items that are missing.\<close>

theorem telemetry_order:
  assumes "tq_run cap ps cs s"
  shows "subseq (cs @ tq_mp s @ in_hand_list (tq_in_hand s) @ tq_deque s) ps \<and> length (tq_deque s) \<le> cap
    \<and> length ps - length (cs @ tq_mp s @ in_hand_list (tq_in_hand s) @ tq_deque s) \<le> tq_dropped s"
  using tq_run_sound [OF assms] by (simp add: tq_held_def) linarith

lemma two_put: "tq_run 1 [''a'', ''b''] [] \<lparr>tq_maxsize = 1, tq_mp = [], tq_dropped = 1, tq_deque = [''b''], tq_in_hand = None\<rparr>"
proof -
  have "tq_run 1 ([] @ [''a'']) [] (tq_put ''a'' (new_telemetry_queue 1))" by (intro tq_run.put tq_run.new)
  from tq_run.put [OF this, of "''b''"] show ?thesis by (simp add: tq_put_def new_telemetry_queue_def deque_append_def take_last_def)
qed

lemma telemetry_order_witness: "subseq [''b''] [''a'', ''b''] \<and> length [''a'', ''b''] - length [''b''] \<le> (1::nat)"
  using telemetry_order [OF two_put] by simp

text \<open>An item that is given back is counted as dropped when it only fills the backlog, and the newest one goes when it is full.\<close>

lemma bridge_counts_returned:
  "bridge_put Put_full \<lparr>tq_maxsize = 1, tq_mp = mp, tq_dropped = n, tq_deque = [], tq_in_hand = Some i\<rparr>
     = Some \<lparr>tq_maxsize = 1, tq_mp = mp, tq_dropped = n + 1, tq_deque = [i], tq_in_hand = None\<rparr>"
  "bridge_put Put_full \<lparr>tq_maxsize = 1, tq_mp = mp, tq_dropped = n, tq_deque = [j], tq_in_hand = Some i\<rparr>
     = Some \<lparr>tq_maxsize = 1, tq_mp = mp, tq_dropped = n + 1, tq_deque = [i], tq_in_hand = None\<rparr>"
  by (simp_all add: bridge_put_def deque_appendleft_def)

end
