(* ===== verification/Observation.thy ===== *)
theory Observation
  imports Sqlite_Writer
begin

text \<open>
  \<^verbatim>\<open>src/observation/migration.py\<close> and \<^verbatim>\<open>src/observation/state.py\<close>: the table with the single row that the observation phase keeps, its
  constraints, and the functions that create, read and update it. What SQLite makes of a value in a column of another type is
  the parameter \<open>aff\<close>.
\<close>

section \<open>Schema\<close>

definition OBSERVATION_SCHEMA_VERSION :: int where "OBSERVATION_SCHEMA_VERSION = 1"

definition observation_schema :: schema where
  "observation_schema =
     [(''observation_stop'', SInt 0), (''observation_started_at_ms'', SInt 0), (''last_refresh_attempt_ms'', SInt 0),
      (''last_refresh_success_ms'', SInt 0), (''last_valid_timestamp_ms'', SInt 0), (''checkpoint_due_ms'', SInt 0),
      (''checkpoint_due_emitted'', SInt 0), (''outage_count'', SInt 0), (''outage_total_ms'', SInt 0), (''last_outage_start_ms'', SInt 0),
      (''last_outage_end_ms'', SInt 0), (''retention_mode'', SText ''normal''), (''retention_transition_ms'', SInt 0),
      (''last_transition_ms'', SInt 0), (''last_transition_reason'', SText ''''), (''clean_shutdown_marker'', SText ''''),
      (''clean_shutdown_marker_ms'', SInt 0), (''target_days'', SInt 60), (''auto_finalize_done'', SInt 0), (''observation_completed_ms'', SInt 0)]"

definition ALLOWED_FIELDS :: "string list" where
  "ALLOWED_FIELDS = map fst observation_schema"

definition BOOL_FIELDS :: "string list" where
  "BOOL_FIELDS = [''observation_stop'', ''checkpoint_due_emitted'', ''auto_finalize_done'']"

definition text_column :: "string \<Rightarrow> bool" where
  "text_column c \<longleftrightarrow> c \<in> {''retention_mode'', ''last_transition_reason'', ''clean_shutdown_marker''}"

text \<open>\<^verbatim>\<open>NOT NULL\<close> and \<^verbatim>\<open>CHECK\<close>.\<close>

definition column_ok :: "string \<Rightarrow> sql \<Rightarrow> bool" where
  "column_ok c v \<longleftrightarrow> v \<noteq> SNull
     \<and> (c \<in> set BOOL_FIELDS \<longrightarrow> v \<in> {SInt 0, SInt 1})
     \<and> (c = ''retention_mode'' \<longrightarrow> v \<in> {SText ''normal'', SText ''degraded''})
     \<and> (c = ''clean_shutdown_marker'' \<longrightarrow> v \<in> {SText '''', SText ''clean'', SText ''unclean''})"

record obs_db =
  ob_table :: bool
  ob_row :: "sql_row option"
  ob_version :: int

definition fresh_obs_db :: obs_db where
  "fresh_obs_db = \<lparr>ob_table = False, ob_row = None, ob_version = 0\<rparr>"

datatype obs_error = VersionTooNew | NoTable | RowMissing | UnknownFields "string list" | ConstraintFailed

text \<open>\<^verbatim>\<open>INSERT OR IGNORE ... (id) VALUES (1)\<close>.\<close>

definition ensure_row :: "obs_db \<Rightarrow> obs_db" where
  "ensure_row db = (if ob_row db = None then db\<lparr>ob_row := Some observation_schema\<rparr> else db)"

section \<open>Operations\<close>

definition migrate_observation :: "obs_db \<Rightarrow> obs_error + obs_db \<times> int" where
  "migrate_observation db =
     (if OBSERVATION_SCHEMA_VERSION < ob_version db then Inl VersionTooNew
      else Inr ((ensure_row (db\<lparr>ob_table := True\<rparr>))\<lparr>ob_version := OBSERVATION_SCHEMA_VERSION\<rparr>, OBSERVATION_SCHEMA_VERSION))"

definition raw_row :: "obs_db \<Rightarrow> obs_error + sql_row" where
  "raw_row db = (if \<not> ob_table db then Inl NoTable else case ob_row db of None \<Rightarrow> Inl RowMissing | Some r \<Rightarrow> Inr r)"

datatype obs_value = Flag bool | Value sql

definition typed_field :: "string \<Rightarrow> sql \<Rightarrow> obs_value" where
  "typed_field c v = (if c \<in> set BOOL_FIELDS then Flag (sql_truthy v) else Value v)"

definition load_state :: "obs_db \<Rightarrow> obs_error + (string \<times> obs_value) list" where
  "load_state db = (case raw_row db of Inl e \<Rightarrow> Inl e | Inr r \<Rightarrow> Inr (map (\<lambda>c. (c, typed_field c (col r c))) ALLOWED_FIELDS))"

text \<open>The connection after the call, and the error if there is one; a statement that fails leaves the row as it is.\<close>

definition update_state :: "(bool \<Rightarrow> sql \<Rightarrow> sql) \<Rightarrow> (string, sql) dict \<Rightarrow> obs_db \<Rightarrow> obs_db \<times> obs_error option" where
  "update_state aff ups db =
     (if ups = [] then (db, None)
      else let unknown = filter (\<lambda>c. c \<notin> set ALLOWED_FIELDS) (keys ups)
           in if unknown \<noteq> [] then (db, Some (UnknownFields (sort unknown)))
              else if \<not> ob_table db then (db, Some NoTable)
              else let db1 = ensure_row db; stored = map (\<lambda>(c, v). (c, aff (text_column c) v)) ups
                   in if list_all (\<lambda>(c, v). column_ok c v) stored then (db1\<lparr>ob_row := map_option (set_cols stored) (ob_row db1)\<rparr>, None)
                      else (db1, Some ConstraintFailed))"

definition poll_stop_flag :: "obs_db \<Rightarrow> obs_error + bool" where
  "poll_stop_flag db = (case raw_row db of Inl e \<Rightarrow> Inl e | Inr r \<Rightarrow> Inr (sql_truthy (col r ''observation_stop'')))"

definition set_stop_flag :: "bool \<Rightarrow> obs_db \<Rightarrow> obs_db \<times> obs_error option" where
  "set_stop_flag b db =
     (if \<not> ob_table db then (db, Some NoTable)
      else let db1 = ensure_row db
           in (db1\<lparr>ob_row := map_option (set_cols [(''observation_stop'', SInt (if b then 1 else 0))]) (ob_row db1)\<rparr>, None))"

section \<open>The row stays well formed\<close>

definition row_ok :: "sql_row \<Rightarrow> bool" where
  "row_ok r \<longleftrightarrow> map fst r = ALLOWED_FIELDS \<and> list_all (\<lambda>c. column_ok c (col r c)) ALLOWED_FIELDS"

definition obs_ok :: "obs_db \<Rightarrow> bool" where
  "obs_ok db \<longleftrightarrow> (case ob_row db of None \<Rightarrow> True | Some r \<Rightarrow> row_ok r)"

lemma schema_row_ok: "row_ok observation_schema"
  by (simp add: row_ok_def ALLOWED_FIELDS_def) (simp add: observation_schema_def col_def column_ok_def BOOL_FIELDS_def)

lemma ensure_row_ok: "obs_ok db \<Longrightarrow> \<exists>r. ob_row (ensure_row db) = Some r \<and> row_ok r"
  by (cases "ob_row db") (simp_all add: ensure_row_def obs_ok_def schema_row_ok)

lemma set_cols_ok:
  assumes "row_ok r" and "list_all (\<lambda>(c, v). column_ok c v) upd"
  shows "row_ok (set_cols upd r)"
proof -
  have "column_ok c (col (set_cols upd r) c)" if "c \<in> set ALLOWED_FIELDS" for c
  proof -
    have "column_ok c (col r c)" "c \<in> set (map fst r)" using assms(1) that by (auto simp: row_ok_def list_all_iff)
    moreover have "column_ok c v" if "map_of upd c = Some v" for v using assms(2) map_of_SomeD [OF that] by (auto simp: list_all_iff)
    ultimately show ?thesis by (simp add: col_set_cols split: option.split)
  qed
  then show ?thesis using assms(1) by (simp add: row_ok_def list_all_iff)
qed

inductive obs_run :: "(bool \<Rightarrow> sql \<Rightarrow> sql) \<Rightarrow> obs_db \<Rightarrow> bool" for aff where
  fresh: "obs_run aff fresh_obs_db"
| migrated: "obs_run aff db \<Longrightarrow> migrate_observation db = Inr (db', n) \<Longrightarrow> obs_run aff db'"
| updated: "obs_run aff db \<Longrightarrow> obs_run aff (fst (update_state aff ups db))"
| flagged: "obs_run aff db \<Longrightarrow> obs_run aff (fst (set_stop_flag b db))"

lemma obs_run_ok: "obs_run aff db \<Longrightarrow> obs_ok db \<and> (ob_table db \<longrightarrow> ob_row db \<noteq> None)"
proof (induction rule: obs_run.induct)
  case fresh
  then show ?case by (simp add: fresh_obs_db_def obs_ok_def)
next
  case (migrated db db' n)
  then show ?case using ensure_row_ok [of "db\<lparr>ob_table := True\<rparr>"] by (auto simp: migrate_observation_def obs_ok_def split: if_splits)
next
  case (updated db ups)
  from ensure_row_ok [of db] updated.IH obtain r where r: "ob_row (ensure_row db) = Some r" "row_ok r" by blast
  then show ?case using updated.IH set_cols_ok [OF r(2)] by (simp add: update_state_def Let_def obs_ok_def)
next
  case (flagged db b)
  from ensure_row_ok [of db] flagged.IH obtain r where r: "ob_row (ensure_row db) = Some r" "row_ok r" by blast
  have "column_ok ''observation_stop'' (SInt (if b then 1 else 0))" by (simp add: column_ok_def)
  then show ?case using flagged.IH r set_cols_ok [OF r(2), of "[(''observation_stop'', SInt (if b then 1 else 0))]"]
    by (simp add: set_stop_flag_def obs_ok_def)
qed

text \<open>What a successful update leaves to be read.\<close>

lemma load_after_update:
  assumes "obs_ok db" and "update_state aff ups db = (db', None)" and "ups \<noteq> []" and "c \<in> set ALLOWED_FIELDS"
  obtains r where "ob_row (ensure_row db) = Some r" and "ob_table db'"
    and "raw_row db' = Inr (set_cols (map (\<lambda>(c, v). (c, aff (text_column c) v)) ups) r)"
    and "col (set_cols (map (\<lambda>(c, v). (c, aff (text_column c) v)) ups) r) c
       = (case map_of ups c of None \<Rightarrow> col r c | Some v \<Rightarrow> aff (text_column c) v)"
proof -
  obtain r where r: "ob_row (ensure_row db) = Some r" "row_ok r" using ensure_row_ok [OF assms(1)] by blast
  have t: "ob_table (ensure_row db) = ob_table db" by (simp add: ensure_row_def)
  let ?u = "map (\<lambda>(c, v). (c, aff (text_column c) v)) ups"
  have db': "db' = (ensure_row db)\<lparr>ob_row := Some (set_cols ?u r)\<rparr>" "ob_table db"
    using assms(2,3) r(1) by (auto simp: update_state_def Let_def split: if_splits)
  have "c \<in> set (map fst r)" using r(2) assms(4) by (simp add: row_ok_def)
  then have "col (set_cols ?u r) c = (case map_of ups c of None \<Rightarrow> col r c | Some v \<Rightarrow> aff (text_column c) v)"
    by (simp add: col_set_cols map_of_map_val split: option.split)
  then show thesis using that [OF r(1)] db' t by (simp add: raw_row_def)
qed

text \<open>C31: in every database that the migration, the updates and the stop flag can bring about, reading the state after the table exists never fails and
  finds the flags of the row as truth values; and after a successful update it reads back the updated fields as they were stored, and every
  other field as it was before.\<close>

theorem observation_roundtrip:
  assumes "obs_run aff db" and "ob_table db"
  shows "(case load_state db of Inl e \<Rightarrow> False | Inr st \<Rightarrow> map fst st = ALLOWED_FIELDS
           \<and> list_all (\<lambda>(c, v). case v of Flag b \<Rightarrow> c \<in> set BOOL_FIELDS | Value x \<Rightarrow> column_ok c x) st)
    \<and> (case update_state aff ups db of
         (db', Some e) \<Rightarrow> load_state db' = load_state db \<and> e \<in> {ConstraintFailed, UnknownFields (sort (filter (\<lambda>c. c \<notin> set ALLOWED_FIELDS) (keys ups)))}
       | (db', None) \<Rightarrow>
           load_state db' = map_sum id (map (\<lambda>(c, old). (c, case map_of ups c of None \<Rightarrow> old | Some v \<Rightarrow> typed_field c (aff (text_column c) v)))) (load_state db))"
proof -
  obtain r where r: "ob_row db = Some r" "row_ok r" using obs_run_ok [OF assms(1)] assms(2) by (auto simp: obs_ok_def split: option.splits)
  have load: "load_state db = Inr (map (\<lambda>c. (c, typed_field c (col r c))) ALLOWED_FIELDS)" by (simp add: load_state_def raw_row_def assms(2) r(1))
  have "case typed_field c (col r c) of Flag b \<Rightarrow> c \<in> set BOOL_FIELDS | Value x \<Rightarrow> column_ok c x" if "c \<in> set ALLOWED_FIELDS" for c
    using r(2) that by (simp add: typed_field_def row_ok_def list_all_iff)
  then have 1: "case load_state db of Inl e \<Rightarrow> False | Inr st \<Rightarrow> map fst st = ALLOWED_FIELDS
           \<and> list_all (\<lambda>(c, v). case v of Flag b \<Rightarrow> c \<in> set BOOL_FIELDS | Value x \<Rightarrow> column_ok c x) st"
    by (simp add: load list_all_iff comp_def)
  have e: "ensure_row db = db" by (simp add: ensure_row_def r(1))
  obtain db' err where u: "update_state aff ups db = (db', err)" by fastforce
  show ?thesis
  proof (cases err)
    case (Some x)
    then have "db' = db \<and> x \<in> {ConstraintFailed, UnknownFields (sort (filter (\<lambda>c. c \<notin> set ALLOWED_FIELDS) (keys ups)))}"
      using u by (auto simp: update_state_def Let_def e assms(2) split: if_splits)
    then show ?thesis using 1 by (simp add: u Some)
  next
    case None
    have "load_state db' = Inr (map (\<lambda>c. (c, case map_of ups c of None \<Rightarrow> typed_field c (col r c) | Some v \<Rightarrow> typed_field c (aff (text_column c) v))) ALLOWED_FIELDS)"
    proof (cases "ups = []")
      case True
      then have "db' = db" using u by (simp add: update_state_def)
      then show ?thesis by (simp add: load True)
    next
      case False
      let ?u = "map (\<lambda>(c, v). (c, aff (text_column c) v)) ups"
      have ok: "obs_ok db" using r by (simp add: obs_ok_def)
      have raw: "raw_row db' = Inr (set_cols ?u r) \<and> col (set_cols ?u r) c = (case map_of ups c of None \<Rightarrow> col r c | Some v \<Rightarrow> aff (text_column c) v)"
        if "c \<in> set ALLOWED_FIELDS" for c
        using load_after_update [OF ok, of aff ups db' c] u None False that e r(1) by auto
      have "''target_days'' \<in> set ALLOWED_FIELDS" by (simp add: ALLOWED_FIELDS_def observation_schema_def)
      then have "raw_row db' = Inr (set_cols ?u r)" using raw by blast
      then show ?thesis using raw by (simp add: load_state_def) (simp split: option.split)
    qed
    then show ?thesis using 1 by (simp add: u None load comp_def)
  qed
qed

definition migrated_db :: obs_db where
  "migrated_db = \<lparr>ob_table = True, ob_row = Some observation_schema, ob_version = 1\<rparr>"

lemma observation_roundtrip_witness:
  "load_state (fst (update_state (\<lambda>t v. v) [(''retention_mode'', SText ''paused'')] migrated_db)) = load_state migrated_db"
proof -
  have "migrate_observation fresh_obs_db = Inr (migrated_db, 1)"
    by (simp add: migrate_observation_def fresh_obs_db_def ensure_row_def OBSERVATION_SCHEMA_VERSION_def migrated_db_def)
  from obs_run.migrated [OF obs_run.fresh this] have run: "obs_run (\<lambda>t v. v) migrated_db" .
  have "update_state (\<lambda>t v. v) [(''retention_mode'', SText ''paused'')] migrated_db = (migrated_db, Some ConstraintFailed)"
    by (simp add: update_state_def ALLOWED_FIELDS_def observation_schema_def migrated_db_def ensure_row_def column_ok_def Let_def keys_def)
  then show ?thesis using observation_roundtrip [OF run, of "[(''retention_mode'', SText ''paused'')]"] by (simp add: migrated_db_def)
qed

end
