(* ===== verification/Parquet_Store.thy ===== *)
theory Parquet_Store
  imports Sqlite_Writer Decimals "HOL-Library.Sublist"
begin

text \<open>
  \<^verbatim>\<open>src/storage/orderbook_store.py\<close> and \<^verbatim>\<open>src/storage/archiver.py\<close>: a buffer of records that is flushed into files, and the two directories
  between which the files age. A directory is a dictionary of names, a file its modification time and the rows that reading it gives; the
  temporary files, which no glob finds, are left out. What the library makes of records and rows (columns that some records miss, numbers of
  different types) is a parameter. Which system calls succeed, the clock and the usage of the disk are inputs; times are
  compared in milliseconds. Each operation is one step: a flush writes the batch it has taken after it released its lock, but what others
  do in between touches neither the batch nor its file.
\<close>

section \<open>Files\<close>

type_synonym pq_row = "(string, sql) dict"

text \<open>The data frame library: the rows that reading gives of a file that was written from records, and of one that was written from a frame with
  these rows; and the rows of frames put together. It may raise.\<close>

record pandas =
  pd_write :: "pq_row list \<Rightarrow> pq_row list option"
  pd_rewrite :: "pq_row list \<Rightarrow> pq_row list option"
  pd_concat :: "pq_row list list \<Rightarrow> pq_row list option"

record pq_file =
  pf_mtime_ms :: int
  pf_rows :: "pq_row list"

type_synonym directory = "(string, pq_file) dict"

record store =
  bs_buffer :: "pq_row list"
  bs_live :: directory
  bs_archive :: directory

record store_config =
  live_days :: int
  archive_days :: int
  batch_size :: int
  flush_threshold :: int

definition default_store_config :: store_config where
  "default_store_config = \<lparr>live_days = 7, archive_days = 365, batch_size = 500, flush_threshold = 5000\<rparr>"

definition ORPHAN_CLOSED_MS :: int where "ORPHAN_CLOSED_MS = 300000"
definition ORPHAN_DELETED_MS :: int where "ORPHAN_DELETED_MS = 3600000"
definition DISK_FULL_PCT :: int where "DISK_FULL_PCT = 90"

definition empty_store :: store where
  "empty_store = \<lparr>bs_buffer = [], bs_live = [], bs_archive = []\<rparr>"

definition parquet :: string where "parquet = ''.parquet''"

definition glob :: "string \<Rightarrow> directory \<Rightarrow> string list" where
  "glob ending d = filter (suffix ending) (keys d)"

section \<open>Buffer and flush\<close>

text \<open>What the counter of suspensions may be: an object with a counter, one with a value, a list, a number, or something unreadable.\<close>

datatype suspension = CounterObject int | ValueObject int | CountList "int list" | Number int | Unreadable

fun store_suspended :: "suspension \<Rightarrow> bool" where
  "store_suspended (CounterObject n) = (0 < n)"
| "store_suspended (ValueObject n) = (0 < n)"
| "store_suspended (CountList ns) = (case ns of [] \<Rightarrow> False | n # _ \<Rightarrow> 0 < n)"
| "store_suspended (Number n) = (0 < n)"
| "store_suspended Unreadable = False"

definition file_name :: "int \<Rightarrow> string" where
  "file_name ts_ms = ''orderbook_'' @ str_of_int ts_ms @ parquet"

text \<open>Without the library for the format, or when the write fails, the records are gone.\<close>

definition store_flush :: "pandas \<Rightarrow> bool \<Rightarrow> int \<Rightarrow> store \<Rightarrow> store \<times> nat" where
  "store_flush pd write_ok ts_ms s =
     (if bs_buffer s = [] then (s, 0)
      else case (if write_ok then pd_write pd (bs_buffer s) else None) of
             None \<Rightarrow> (s\<lparr>bs_buffer := []\<rparr>, 0)
           | Some rs \<Rightarrow>
               (s\<lparr>bs_buffer := [], bs_live := dset (bs_live s) (file_name ts_ms) \<lparr>pf_mtime_ms = ts_ms, pf_rows = rs\<rparr>\<rparr>, length (bs_buffer s)))"

definition store_append :: "pandas \<Rightarrow> store_config \<Rightarrow> suspension \<Rightarrow> bool \<Rightarrow> int \<Rightarrow> pq_row \<Rightarrow> store \<Rightarrow> store" where
  "store_append pd cfg c write_ok ts_ms row s =
     (if store_suspended c then s
      else let s1 = s\<lparr>bs_buffer := bs_buffer s @ [row]\<rparr>
           in if batch_size cfg \<le> int (length (bs_buffer s1)) then fst (store_flush pd write_ok ts_ms s1) else s1)"

section \<open>Ageing\<close>

record file_calls =
  fc_convert :: "string \<Rightarrow> bool"
  fc_unlink :: "string \<Rightarrow> bool"
  fc_move :: "string \<Rightarrow> bool"

definition move_file :: "string \<Rightarrow> pq_file \<Rightarrow> store \<Rightarrow> store" where
  "move_file n f s = s\<lparr>bs_live := ddel (bs_live s) n, bs_archive := dset (bs_archive s) n f\<rparr>"

text \<open>One file: it is rewritten into the archive and unlinked; if any of that fails, or the library is missing, it is moved. The flag is
  \<open>False\<close> when the move fails as well.\<close>

definition archive_one :: "pandas \<Rightarrow> file_calls \<Rightarrow> int \<Rightarrow> string \<Rightarrow> store \<Rightarrow> store \<times> bool" where
  "archive_one pd env now n s =
     (case dget (bs_live s) n of
        None \<Rightarrow> (s, True)
      | Some f \<Rightarrow>
          let copied = (case (if fc_convert env n then pd_rewrite pd (pf_rows f) else None) of
                          None \<Rightarrow> s
                        | Some rs \<Rightarrow> s\<lparr>bs_archive := dset (bs_archive s) n \<lparr>pf_mtime_ms = now, pf_rows = rs\<rparr>\<rparr>)
          in if fc_convert env n \<and> pd_rewrite pd (pf_rows f) \<noteq> None \<and> fc_unlink env n then (copied\<lparr>bs_live := ddel (bs_live s) n\<rparr>, True)
             else if fc_move env n then (move_file n f s, True)
             else (copied, False))"

definition older_than :: "int \<Rightarrow> directory \<Rightarrow> string \<Rightarrow> bool" where
  "older_than cutoff d n = (case dget d n of None \<Rightarrow> False | Some f \<Rightarrow> pf_mtime_ms f < cutoff)"

definition archive_task :: "pandas \<Rightarrow> store_config \<Rightarrow> file_calls \<Rightarrow> int \<Rightarrow> store \<Rightarrow> store" where
  "archive_task pd cfg env now s =
     fold (\<lambda>n s. fst (archive_one pd env now n s)) (filter (older_than (now - live_days cfg * 86400000) (bs_live s)) (glob parquet (bs_live s))) s"

text \<open>\<^verbatim>\<open>Archiver.run_daily\<close> is the same loop; \<^verbatim>\<open>archive_file\<close> raises when nothing works.\<close>

definition run_daily :: "pandas \<Rightarrow> store_config \<Rightarrow> file_calls \<Rightarrow> int \<Rightarrow> store \<Rightarrow> store" where
  "run_daily pd cfg env now s =
     fold (\<lambda>n s. fst (archive_one pd env now n s)) (filter (older_than (now - live_days cfg * 86400000) (bs_live s)) (glob parquet (bs_live s))) s"

definition archive_file :: "pandas \<Rightarrow> file_calls \<Rightarrow> int \<Rightarrow> string \<Rightarrow> store \<Rightarrow> store \<times> bool" where
  "archive_file pd env now n s = archive_one pd env now n s"

definition unlink_where :: "(string \<Rightarrow> bool) \<Rightarrow> string list \<Rightarrow> directory \<Rightarrow> directory \<times> nat" where
  "unlink_where unlink_ok ns d = (fold (\<lambda>n d. if unlink_ok n then ddel d n else d) ns d, length (filter unlink_ok ns))"

definition orphans :: "int \<Rightarrow> directory \<Rightarrow> string list" where
  "orphans now d = filter (older_than (now - ORPHAN_CLOSED_MS) d) (glob (parquet @ ''._closed'') d)
     @ filter (older_than (now - ORPHAN_DELETED_MS) d) (glob (parquet @ ''.deleted'') d)"

definition store_rotate :: "(string \<Rightarrow> bool) \<Rightarrow> int \<Rightarrow> store \<Rightarrow> store" where
  "store_rotate unlink_ok now s = s\<lparr>bs_live := fst (unlink_where unlink_ok (orphans now (bs_live s)) (bs_live s))\<rparr>"

definition recover_orphans :: "(string \<Rightarrow> bool) \<Rightarrow> int \<Rightarrow> store \<Rightarrow> store \<times> nat" where
  "recover_orphans unlink_ok now s =
     (let (l, i) = unlink_where unlink_ok (orphans now (bs_live s)) (bs_live s); (a, j) = unlink_where unlink_ok (orphans now (bs_archive s)) (bs_archive s)
      in (s\<lparr>bs_live := l, bs_archive := a\<rparr>, i + j))"

definition trim_old :: "store_config \<Rightarrow> (string \<Rightarrow> bool) \<Rightarrow> int \<Rightarrow> store \<Rightarrow> store \<times> nat" where
  "trim_old cfg unlink_ok now s =
     (let (a, n) = unlink_where unlink_ok (filter (older_than (now - archive_days cfg * 86400000) (bs_archive s)) (glob parquet (bs_archive s))) (bs_archive s)
      in (s\<lparr>bs_archive := a\<rparr>, n))"

section \<open>The disk limit\<close>

text \<open>\<^verbatim>\<open>int(used * 100 / total)\<close>.\<close>

definition used_pct :: "int \<times> int \<Rightarrow> int" where
  "used_pct u = (case u of (used, capacity) \<Rightarrow> if capacity = 0 then 0 else py_int (rnd (of_int (used * 100) / of_int capacity)))"

text \<open>The files of both directories, oldest first; which directory a file is in comes with its name.\<close>

definition by_age :: "store \<Rightarrow> (bool \<times> string) list" where
  "by_age s = sort_key (\<lambda>(archived, n). case dget (if archived then bs_archive s else bs_live s) n of None \<Rightarrow> 0 | Some f \<Rightarrow> pf_mtime_ms f)
     (map (Pair True) (glob parquet (bs_archive s)) @ map (Pair False) (glob parquet (bs_live s)))"

definition unlink_one :: "bool \<times> string \<Rightarrow> store \<Rightarrow> store" where
  "unlink_one p s = (if fst p then s\<lparr>bs_archive := ddel (bs_archive s) (snd p)\<rparr> else s\<lparr>bs_live := ddel (bs_live s) (snd p)\<rparr>)"

text \<open>A call that fails, the unlinking or the question for the usage, is logged and the loop goes on.\<close>

fun enforce_loop :: "(bool \<times> string \<Rightarrow> bool) \<Rightarrow> (store \<Rightarrow> (int \<times> int) option) \<Rightarrow> (bool \<times> string) list \<Rightarrow> nat \<Rightarrow> store \<Rightarrow> store \<times> nat" where
  "enforce_loop unlink_ok usage [] n s = (s, n)"
| "enforce_loop unlink_ok usage (p # ps) n s =
     (if \<not> unlink_ok p then enforce_loop unlink_ok usage ps n s
      else let s1 = unlink_one p s
           in case usage s1 of
                None \<Rightarrow> enforce_loop unlink_ok usage ps (n + 1) s1
              | Some u \<Rightarrow> if used_pct u < DISK_FULL_PCT then (s1, n + 1) else enforce_loop unlink_ok usage ps (n + 1) s1)"

definition enforce_disk_limit :: "(bool \<times> string \<Rightarrow> bool) \<Rightarrow> (store \<Rightarrow> (int \<times> int) option) \<Rightarrow> store \<Rightarrow> store \<times> nat" where
  "enforce_disk_limit unlink_ok usage s =
     (case usage s of
        None \<Rightarrow> (s, 0)
      | Some u \<Rightarrow> if used_pct u < DISK_FULL_PCT then (s, 0) else enforce_loop unlink_ok usage (by_age s) 0 s)"

section \<open>Reading\<close>

text \<open>An integer that is compared with a column of reals is converted; NULL compares with nothing.\<close>

fun between :: "int \<Rightarrow> int \<Rightarrow> sql \<Rightarrow> bool" where
  "between a b (SInt t) = (a \<le> t \<and> t \<le> b)"
| "between a b (SReal x) = (rnd (of_int a) \<le> x \<and> x \<le> rnd (of_int b))"
| "between a b _ = False"

fun is_text :: "sql \<Rightarrow> bool" where
  "is_text (SText _) = True"
| "is_text _ = False"

text \<open>A file without the column is not filtered by it. Comparing a text with a number raises, which skips the file.\<close>

definition read_file :: "string \<Rightarrow> int \<Rightarrow> int \<Rightarrow> pq_file \<Rightarrow> pq_row list" where
  "read_file symbol ts_from ts_to f =
     (let has = (\<lambda>c. list_ex (\<lambda>r. dget r c \<noteq> None) (pf_rows f));
          rows1 = (if has ''symbol'' then filter (\<lambda>r. dget r ''symbol'' = Some (SText symbol)) (pf_rows f) else pf_rows f);
          ts = (\<lambda>r. case dget r ''ts_ms'' of None \<Rightarrow> SNull | Some v \<Rightarrow> v)
      in if \<not> has ''ts_ms'' then rows1
         else if list_ex (\<lambda>r. is_text (ts r)) rows1 then []
         else filter (\<lambda>r. between ts_from ts_to (ts r)) rows1)"

definition read_snapshot :: "pandas \<Rightarrow> (bool \<times> string \<Rightarrow> bool) \<Rightarrow> string \<Rightarrow> int \<Rightarrow> int \<Rightarrow> store \<Rightarrow> pq_row list" where
  "read_snapshot pd readable symbol ts_from ts_to s =
     (let part = (\<lambda>archived d. map (\<lambda>(n, f). if suffix parquet n \<and> readable (archived, n) then read_file symbol ts_from ts_to f else []) d);
          frames = filter (\<lambda>rs. rs \<noteq> []) (part False (bs_live s) @ part True (bs_archive s))
      in if frames = [] then []
         else case pd_concat pd frames of None \<Rightarrow> hd frames | Some rs \<Rightarrow> rs)"

section \<open>Uniform records\<close>

text \<open>What the library is relied on for: records with the same columns, none of them missing and each of one type, are what is read back, and
  what frames of such rows put together have.\<close>

datatype cell_type = IntCell | RealCell | TextCell

fun cell_type_of :: "sql \<Rightarrow> cell_type option" where
  "cell_type_of SNull = None"
| "cell_type_of (SInt n) = (if - (2 ^ 63) \<le> n \<and> n < 2 ^ 63 then Some IntCell else None)"
| "cell_type_of (SReal r) = Some RealCell"
| "cell_type_of (SText s) = Some TextCell"

definition row_type :: "pq_row \<Rightarrow> (string \<times> cell_type option) list" where
  "row_type r = map (\<lambda>(c, v). (c, cell_type_of v)) r"

definition uniform :: "pq_row list \<Rightarrow> bool" where
  "uniform rs \<longleftrightarrow> list_all (\<lambda>r. row_type r = row_type (hd rs) \<and> distinct (keys r) \<and> None \<notin> snd ` set (row_type r)) rs"

definition keeps_uniform :: "pandas \<Rightarrow> bool" where
  "keeps_uniform pd \<longleftrightarrow>
     (\<forall>rs. rs \<noteq> [] \<and> uniform rs \<longrightarrow> pd_write pd rs = Some rs \<and> pd_rewrite pd rs = Some rs)
     \<and> (\<forall>frames. concat frames \<noteq> [] \<and> uniform (concat frames) \<longrightarrow> pd_concat pd frames = Some (concat frames))"

lemma uniform_subset:
  assumes "uniform rs" and "set ss \<subseteq> set rs"
  shows "uniform ss"
proof (cases ss)
  case (Cons x xs)
  then have "row_type (hd ss) = row_type (hd rs)" using assms by (auto simp: uniform_def list_all_iff)
  then show ?thesis using assms by (auto simp: uniform_def list_all_iff)
qed (simp add: uniform_def)

section \<open>Nothing is lost on the way\<close>

text \<open>The files of both directories; a name in both stands for the same rows.\<close>

definition on_disk :: "store \<Rightarrow> string \<Rightarrow> pq_file \<Rightarrow> bool" where
  "on_disk s n f \<longleftrightarrow> dget (bs_live s) n = Some f \<or> dget (bs_archive s) n = Some f"

definition names :: "store \<Rightarrow> string set" where
  "names s = set (keys (bs_live s)) \<union> set (keys (bs_archive s))"

text \<open>The rows under a name, and the rows of all names, each name once.\<close>

definition rows_at :: "store \<Rightarrow> string \<Rightarrow> pq_row list" where
  "rows_at s n = (case dget (bs_archive s) n of Some f \<Rightarrow> pf_rows f | None \<Rightarrow> (case dget (bs_live s) n of Some f \<Rightarrow> pf_rows f | None \<Rightarrow> []))"

definition disk_rows :: "store \<Rightarrow> pq_row multiset" where
  "disk_rows s = (\<Sum>n \<in> names s. mset (rows_at s n))"

definition store_ok :: "store \<Rightarrow> bool" where
  "store_ok s \<longleftrightarrow> wf_dict (bs_live s) \<and> wf_dict (bs_archive s)
     \<and> (\<forall>n f. on_disk s n f \<longrightarrow> suffix parquet n \<and> pf_rows f \<noteq> [])
     \<and> (\<forall>n f g. on_disk s n f \<longrightarrow> on_disk s n g \<longrightarrow> pf_rows f = pf_rows g)"

lemma store_okD:
  assumes "store_ok s"
  shows "wf_dict (bs_live s)" and "wf_dict (bs_archive s)" and "on_disk s n f \<Longrightarrow> suffix parquet n" and "on_disk s n f \<Longrightarrow> pf_rows f \<noteq> []"
    and "on_disk s n f \<Longrightarrow> on_disk s n g \<Longrightarrow> pf_rows f = pf_rows g"
  using assms unfolding store_ok_def by blast+

lemma names_iff: "n \<in> names s \<longleftrightarrow> (\<exists>f. on_disk s n f)"
  using dget_None_iff [of "bs_live s" n] dget_None_iff [of "bs_archive s" n] by (auto simp: names_def on_disk_def)

lemma finite_names [simp]: "finite (names s)"
  by (simp add: names_def)

lemma rows_at_on_disk: "store_ok s \<Longrightarrow> on_disk s n f \<Longrightarrow> rows_at s n = pf_rows f"
  using store_okD(5) [of s n f] by (fastforce simp: rows_at_def on_disk_def split: option.splits)

lemma on_disk_rows:
  assumes "store_ok s" and "on_disk s n f"
  shows "set (pf_rows f) \<subseteq> set_mset (disk_rows s)"
proof -
  have "mset (rows_at s n) \<subseteq># disk_rows s"
    unfolding disk_rows_def using sum.remove [OF finite_names, of n s "\<lambda>n. mset (rows_at s n)"] assms(2)
    by (metis mset_subset_eq_add_left names_iff)
  then show ?thesis using rows_at_on_disk [OF assms] by (metis set_mset_mono set_mset_mset)
qed

text \<open>Two stores that hold, under every name, the same rows.\<close>

definition same_rows :: "store \<Rightarrow> store \<Rightarrow> bool" where
  "same_rows s t \<longleftrightarrow> bs_buffer t = bs_buffer s \<and> store_ok t \<and> (\<forall>n. (\<lambda>f. pf_rows f) ` {f. on_disk t n f} = (\<lambda>f. pf_rows f) ` {f. on_disk s n f})"

lemma same_rows_disk:
  assumes "store_ok s" and "same_rows s t" shows "disk_rows t = disk_rows s"
proof -
  have im: "pf_rows ` {f. on_disk t n f} = pf_rows ` {f. on_disk s n f}" and ok: "store_ok t" for n
    using assms(2) by (simp_all add: same_rows_def)
  have "on_disk t n f \<Longrightarrow> \<exists>g. on_disk s n g \<and> pf_rows g = pf_rows f" "on_disk s n f \<Longrightarrow> \<exists>g. on_disk t n g" for n f
    using im [of n] by (metis (mono_tags, lifting) imageE imageI mem_Collect_eq)+
  then have "names t = names s" "\<And>n. n \<in> names t \<Longrightarrow> rows_at t n = rows_at s n"
    using rows_at_on_disk [OF assms(1)] rows_at_on_disk [OF ok] by (auto simp: names_iff) metis+
  then show ?thesis unfolding disk_rows_def by (intro sum.cong) simp_all
qed

text \<open>Rewriting its files gives the same rows.\<close>

definition rewritable :: "pandas \<Rightarrow> store \<Rightarrow> bool" where
  "rewritable pd s \<longleftrightarrow> (\<forall>n f. on_disk s n f \<longrightarrow> pd_rewrite pd (pf_rows f) = Some (pf_rows f))"

lemma same_rows_rewritable: "same_rows s t \<Longrightarrow> rewritable pd s \<Longrightarrow> rewritable pd t"
proof -
  assume "same_rows s t" "rewritable pd s"
  moreover have "on_disk t n f \<Longrightarrow> \<exists>g. on_disk s n g \<and> pf_rows g = pf_rows f" if "same_rows s t" for n f
    using that unfolding same_rows_def by (metis (mono_tags, lifting) imageE imageI mem_Collect_eq)
  ultimately show ?thesis unfolding rewritable_def by metis
qed

lemma same_rows_refl: "store_ok s \<Longrightarrow> same_rows s s"
  by (simp add: same_rows_def)

lemma same_rows_trans: "same_rows s t \<Longrightarrow> same_rows t u \<Longrightarrow> same_rows s u"
  by (simp add: same_rows_def)

lemma same_rows_by:
  assumes "store_ok s" and "bs_buffer t = bs_buffer s" and "wf_dict (bs_live t)" and "wf_dict (bs_archive t)"
    and "\<And>m g. on_disk t m g \<Longrightarrow> \<exists>f. on_disk s m f \<and> pf_rows f = pf_rows g" and "\<And>m f. on_disk s m f \<Longrightarrow> \<exists>g. on_disk t m g"
  shows "same_rows s t"
proof -
  have ok: "\<forall>m f. on_disk s m f \<longrightarrow> suffix parquet m \<and> pf_rows f \<noteq> []" "\<forall>m f g. on_disk s m f \<longrightarrow> on_disk s m g \<longrightarrow> pf_rows f = pf_rows g"
    using assms(1) unfolding store_ok_def by blast+
  have "suffix parquet m \<and> pf_rows g \<noteq> []" if g: "on_disk t m g" for m g
  proof -
    obtain f where "on_disk s m f" "pf_rows f = pf_rows g" using assms(5) [OF g] by blast
    then show ?thesis using ok(1) by auto
  qed
  moreover have "pf_rows g = pf_rows g'" if g: "on_disk t m g" "on_disk t m g'" for m g g'
  proof -
    obtain f f' where "on_disk s m f" "pf_rows f = pf_rows g" "on_disk s m f'" "pf_rows f' = pf_rows g'"
      using assms(5) [OF g(1)] assms(5) [OF g(2)] by blast
    then show ?thesis using ok(2) by metis
  qed
  ultimately have "store_ok t" using assms(3,4) unfolding store_ok_def by blast
  moreover have "pf_rows ` {f. on_disk t m f} = pf_rows ` {f. on_disk s m f}" for m
  proof -
    have "pf_rows f \<in> pf_rows ` {f. on_disk t m f}" if f: "on_disk s m f" for f
    proof -
      obtain g where g: "on_disk t m g" using assms(6) [OF f] by blast
      obtain f' where "on_disk s m f'" "pf_rows f' = pf_rows g" using assms(5) [OF g] by blast
      then have "pf_rows f = pf_rows g" using ok(2) f by metis
      then show ?thesis using g by auto
    qed
    moreover have "pf_rows g \<in> pf_rows ` {f. on_disk s m f}" if "on_disk t m g" for g using assms(5) [OF that] by (metis image_eqI mem_Collect_eq)
    ultimately show ?thesis by blast
  qed
  ultimately show ?thesis using assms(2) by (simp add: same_rows_def)
qed

lemma archive_one_same:
  assumes "store_ok s" and "rewritable pd s" shows "same_rows s (fst (archive_one pd env now n s))"
proof (cases "dget (bs_live s) n")
  case None
  then show ?thesis by (simp add: archive_one_def same_rows_refl assms(1))
next
  case (Some f)
  have wf: "wf_dict (bs_live s)" "wf_dict (bs_archive s)" using store_okD [OF assms(1)] by blast+
  have w: "pd_rewrite pd (pf_rows f) = Some (pf_rows f)" using assms(2) Some by (simp add: rewritable_def on_disk_def)
  let ?t = "fst (archive_one pd env now n s)"
  show ?thesis
  proof (rule same_rows_by [OF assms(1)])
    show "bs_buffer ?t = bs_buffer s" "wf_dict (bs_live ?t)" "wf_dict (bs_archive ?t)"
      using wf Some w by (simp_all add: archive_one_def move_file_def Let_def)
    show "\<exists>h. on_disk s m h \<and> pf_rows h = pf_rows g" if "on_disk ?t m g" for m g
    proof (cases "m = n")
      case True
      then have "pf_rows g = pf_rows f \<or> on_disk s m g"
        using that Some w by (auto simp: archive_one_def move_file_def on_disk_def Let_def dict_simps split: if_splits)
      moreover have "on_disk s m f" using True Some by (simp add: on_disk_def)
      ultimately show ?thesis by metis
    next
      case False
      then have "on_disk s m g"
        using that Some w by (auto simp: archive_one_def move_file_def on_disk_def Let_def dict_simps split: if_splits)
      then show ?thesis by blast
    qed
    show "\<exists>g. on_disk ?t m g" if "on_disk s m h" for m h
    proof (cases "m = n")
      case True
      have "dget (bs_live ?t) n \<noteq> None \<or> dget (bs_archive ?t) n \<noteq> None"
        using Some w by (simp add: archive_one_def move_file_def Let_def dict_simps)
      then show ?thesis using True by (auto simp: on_disk_def)
    next
      case False
      then have "on_disk ?t m h"
        using that Some w by (simp add: archive_one_def move_file_def on_disk_def Let_def dict_simps)
      then show ?thesis by blast
    qed
  qed
qed

lemma archive_loop_same:
  "store_ok s \<Longrightarrow> rewritable pd s \<Longrightarrow> same_rows s (fold (\<lambda>n s. fst (archive_one pd env now n s)) ns s)"
proof (induction ns arbitrary: s)
  case (Cons n ns)
  have a: "same_rows s (fst (archive_one pd env now n s))" by (rule archive_one_same [OF Cons.prems])
  then have "store_ok (fst (archive_one pd env now n s))" by (simp add: same_rows_def)
  from same_rows_trans [OF a Cons.IH [OF this same_rows_rewritable [OF a Cons.prems(2)]]] show ?case by simp
qed (simp add: same_rows_refl)

text \<open>No file of rows carries the name of an orphan.\<close>

lemma orphans_none: "(\<And>n. n \<in> set (keys d) \<Longrightarrow> suffix parquet n) \<Longrightarrow> orphans now d = []"
proof -
  have "\<not> suffix (parquet @ ''._closed'') n \<and> \<not> suffix (parquet @ ''.deleted'') n" if "suffix parquet n" for n
  proof -
    have "last n = CHR ''t''" using that by (auto simp: suffix_def parquet_def)
    then show ?thesis by (auto simp: suffix_def parquet_def)
  qed
  then show "(\<And>n. n \<in> set (keys d) \<Longrightarrow> suffix parquet n) \<Longrightarrow> ?thesis" by (auto simp: orphans_def glob_def filter_empty_conv)
qed

lemma rotation_keeps:
  assumes "store_ok s" shows "store_rotate unlink_ok now s = s" and "fst (recover_orphans unlink_ok now s) = s"
proof -
  have "suffix parquet n" if "n \<in> set (keys (bs_live s)) \<or> n \<in> set (keys (bs_archive s))" for n
    using that store_okD(3) [OF assms] dget_None_iff [of _ n] by (metis not_None_eq on_disk_def)
  then have "orphans now (bs_live s) = []" "orphans now (bs_archive s) = []" by (simp_all add: orphans_none)
  then show "store_rotate unlink_ok now s = s" "fst (recover_orphans unlink_ok now s) = s"
    by (simp_all add: store_rotate_def recover_orphans_def unlink_where_def)
qed

definition fresh_name :: "int \<Rightarrow> store \<Rightarrow> bool" where
  "fresh_name ts_ms s \<longleftrightarrow> dget (bs_live s) (file_name ts_ms) = None \<and> dget (bs_archive s) (file_name ts_ms) = None"

text \<open>Runs in which no record is refused and no system call of a write fails, with the records that were appended.\<close>

inductive store_run :: "pandas \<Rightarrow> pq_row list \<Rightarrow> store \<Rightarrow> bool" for pd where
  start: "store_run pd [] empty_store"
| append: "store_run pd rs s \<Longrightarrow> \<not> store_suspended c \<Longrightarrow> fresh_name ts s \<Longrightarrow> store_run pd (rs @ [row]) (store_append pd cfg c True ts row s)"
| flush: "store_run pd rs s \<Longrightarrow> fresh_name ts s \<Longrightarrow> store_run pd rs (fst (store_flush pd True ts s))"
| archive: "store_run pd rs s \<Longrightarrow> store_run pd rs (archive_task pd cfg env now s)"
| daily: "store_run pd rs s \<Longrightarrow> store_run pd rs (run_daily pd cfg env now s)"
| one_file: "store_run pd rs s \<Longrightarrow> store_run pd rs (fst (archive_file pd env now n s))"
| rotate: "store_run pd rs s \<Longrightarrow> store_run pd rs (store_rotate unlink_ok now s)"
| recover: "store_run pd rs s \<Longrightarrow> store_run pd rs (fst (recover_orphans unlink_ok now s))"

lemma flush_keeps:
  assumes "store_ok s" and "fresh_name ts s" and "pd_write pd (bs_buffer s) = Some (bs_buffer s)"
  defines "t \<equiv> fst (store_flush pd True ts s)"
  shows "store_ok t \<and> mset (bs_buffer t) + disk_rows t = mset (bs_buffer s) + disk_rows s"
proof (cases "bs_buffer s = []")
  case True
  then show ?thesis using assms(1) by (simp add: t_def store_flush_def)
next
  case False
  let ?f = "\<lparr>pf_mtime_ms = ts, pf_rows = bs_buffer s\<rparr>" and ?n = "file_name ts"
  have t: "bs_buffer t = []" "bs_live t = dset (bs_live s) ?n ?f" "bs_archive t = bs_archive s"
    using False assms(3) by (simp_all add: t_def store_flush_def)
  have d: "on_disk t n f \<longleftrightarrow> (n = ?n \<and> f = ?f) \<or> on_disk s n f" for n f
    using assms(2) t by (auto simp: on_disk_def fresh_name_def dict_simps)
  have new: "\<not> on_disk s ?n f" for f using assms(2) by (simp add: on_disk_def fresh_name_def)
  have suf: "suffix parquet ?n" by (simp add: file_name_def suffix_def)
  have wf: "wf_dict (bs_live t)" "wf_dict (bs_archive t)" using store_okD(1,2) [OF assms(1)] t by simp_all
  have ok: "store_ok t"
    unfolding store_ok_def
  proof (intro conjI allI impI wf)
    show "suffix parquet n" "pf_rows f \<noteq> []" if "on_disk t n f" for n f
      using that suf False store_okD(3,4) [OF assms(1)] by (auto simp: d)
    show "pf_rows f = pf_rows g" if "on_disk t n f" "on_disk t n g" for n f g
      using that new store_okD(5) [OF assms(1)] unfolding d by metis
  qed
  have "names t = insert ?n (names s)" "?n \<notin> names s" using new by (auto simp: names_iff d)
  moreover have "rows_at t ?n = bs_buffer s" using rows_at_on_disk [OF ok, of ?n ?f] by (simp add: d)
  moreover have "rows_at t n = rows_at s n" if "n \<in> names s" for n
    using that rows_at_on_disk [OF ok] rows_at_on_disk [OF assms(1)] by (auto simp: names_iff d)
  ultimately have "disk_rows t = mset (bs_buffer s) + disk_rows s" unfolding disk_rows_def by simp
  then show ?thesis using ok t(1) by simp
qed

lemma append_same: "store_ok (s\<lparr>bs_buffer := b\<rparr>) = store_ok s" "disk_rows (s\<lparr>bs_buffer := b\<rparr>) = disk_rows s"
proof -
  have "on_disk (s\<lparr>bs_buffer := b\<rparr>) = on_disk s" by (intro ext) (simp add: on_disk_def)
  then show "store_ok (s\<lparr>bs_buffer := b\<rparr>) = store_ok s" by (simp add: store_ok_def)
  have "rows_at (s\<lparr>bs_buffer := b\<rparr>) = rows_at s" by (intro ext) (simp add: rows_at_def split: option.split)
  then show "disk_rows (s\<lparr>bs_buffer := b\<rparr>) = disk_rows s" by (simp add: disk_rows_def names_def)
qed

lemma sound_rewritable:
  assumes "keeps_uniform pd" and "store_ok s" and "uniform rs" and "set_mset (disk_rows s) \<subseteq> set rs"
  shows "rewritable pd s"
  unfolding rewritable_def
proof (intro allI impI)
  fix n f assume "on_disk s n f"
  then have "uniform (pf_rows f)" "pf_rows f \<noteq> []"
    using uniform_subset [OF assms(3)] on_disk_rows [OF assms(2)] assms(4) store_okD(4) [OF assms(2)] by blast+
  then show "pd_rewrite pd (pf_rows f) = Some (pf_rows f)" using assms(1) by (simp add: keeps_uniform_def)
qed

lemma store_run_sound:
  "store_run pd rs s \<Longrightarrow> keeps_uniform pd \<Longrightarrow> uniform rs \<Longrightarrow> store_ok s \<and> mset rs = mset (bs_buffer s) + disk_rows s"
proof (induction rule: store_run.induct)
  case start
  then show ?case by (simp add: empty_store_def store_ok_def disk_rows_def names_def on_disk_def keys_def)
next
  case (append rs s c ts row cfg)
  let ?s = "s\<lparr>bs_buffer := bs_buffer s @ [row]\<rparr>"
  have "uniform rs" using uniform_subset [OF append.prems(2), of rs] by auto
  then have ih: "store_ok s" "mset rs = mset (bs_buffer s) + disk_rows s" using append by simp_all
  then have "set (bs_buffer s) \<subseteq> set rs" using mset_subset_eq_add_left [of "mset (bs_buffer s)" "disk_rows s"] by (metis mset_subset_eqD set_mset_mset subsetI)
  then have "uniform (bs_buffer ?s)" using uniform_subset [OF append.prems(2), of "bs_buffer ?s"] by auto
  then have "pd_write pd (bs_buffer ?s) = Some (bs_buffer ?s)" using append.prems(1) by (simp add: keeps_uniform_def)
  moreover have "store_ok ?s" "fresh_name ts ?s" using ih append by (simp_all add: append_same fresh_name_def)
  ultimately show ?case
    using ih append.hyps flush_keeps [of ?s ts pd] by (auto simp: store_append_def Let_def append_same)
next
  case (flush rs s ts)
  then have ih: "store_ok s" "mset rs = mset (bs_buffer s) + disk_rows s" by simp_all
  then have "set (bs_buffer s) \<subseteq> set rs" using mset_subset_eq_add_left [of "mset (bs_buffer s)" "disk_rows s"] by (metis mset_subset_eqD set_mset_mset subsetI)
  then have "bs_buffer s \<noteq> [] \<Longrightarrow> pd_write pd (bs_buffer s) = Some (bs_buffer s)"
    using uniform_subset [OF flush.prems(2)] flush.prems(1) by (simp add: keeps_uniform_def)
  then show ?case using ih flush_keeps [OF ih(1) flush.hyps(2), of pd] by (cases "bs_buffer s = []") (simp_all add: store_flush_def)
next
  case (archive rs s cfg env now)
  then have ih: "store_ok s" "mset rs = mset (bs_buffer s) + disk_rows s" by simp_all
  then have "rewritable pd s" using sound_rewritable [OF archive.prems(1) ih(1) archive.prems(2)] by (metis mset_subset_eq_add_right set_mset_mono set_mset_mset)
  then have a: "same_rows s (archive_task pd cfg env now s)" using ih(1) by (simp add: archive_task_def archive_loop_same)
  then show ?case using ih same_rows_disk [OF ih(1) a] by (simp add: same_rows_def)
next
  case (daily rs s cfg env now)
  then have ih: "store_ok s" "mset rs = mset (bs_buffer s) + disk_rows s" by simp_all
  then have "rewritable pd s" using sound_rewritable [OF daily.prems(1) ih(1) daily.prems(2)] by (metis mset_subset_eq_add_right set_mset_mono set_mset_mset)
  then have a: "same_rows s (run_daily pd cfg env now s)" using ih(1) by (simp add: run_daily_def archive_loop_same)
  then show ?case using ih same_rows_disk [OF ih(1) a] by (simp add: same_rows_def)
next
  case (one_file rs s env now n)
  then have ih: "store_ok s" "mset rs = mset (bs_buffer s) + disk_rows s" by simp_all
  then have "rewritable pd s" using sound_rewritable [OF one_file.prems(1) ih(1) one_file.prems(2)] by (metis mset_subset_eq_add_right set_mset_mono set_mset_mset)
  then have a: "same_rows s (fst (archive_file pd env now n s))" using ih(1) by (simp add: archive_file_def archive_one_same)
  then show ?case using ih same_rows_disk [OF ih(1) a] by (simp add: same_rows_def)
qed (simp_all add: rotation_keeps)

text \<open>The rows a reader asks for.\<close>

definition asked_for :: "string \<Rightarrow> int \<Rightarrow> int \<Rightarrow> pq_row \<Rightarrow> bool" where
  "asked_for symbol a b r \<longleftrightarrow> dget r ''symbol'' = Some (SText symbol) \<and> (case dget r ''ts_ms'' of None \<Rightarrow> False | Some t \<Rightarrow> between a b t)"

definition has_columns :: "pq_row \<Rightarrow> bool" where
  "has_columns r \<longleftrightarrow> dget r ''symbol'' \<noteq> None \<and> (case dget r ''ts_ms'' of None \<Rightarrow> False | Some t \<Rightarrow> \<not> is_text t)"

lemma read_file_asked:
  assumes "list_all has_columns (pf_rows f)" and "pf_rows f \<noteq> []"
  shows "read_file symbol a b f = filter (asked_for symbol a b) (pf_rows f)"
proof -
  have ex: "list_ex (\<lambda>r. dget r ''symbol'' \<noteq> None) (pf_rows f)" "list_ex (\<lambda>r. dget r ''ts_ms'' \<noteq> None) (pf_rows f)"
  proof -
    obtain r where r: "r \<in> set (pf_rows f)" using assms(2) by (meson last_in_set)
    then have "has_columns r" using assms(1) by (simp add: list_all_iff)
    then have "dget r ''symbol'' \<noteq> None" "dget r ''ts_ms'' \<noteq> None" by (auto simp: has_columns_def split: option.splits)
    then show "list_ex (\<lambda>r. dget r ''symbol'' \<noteq> None) (pf_rows f)" "list_ex (\<lambda>r. dget r ''ts_ms'' \<noteq> None) (pf_rows f)"
      using r by (auto simp only: list_ex_iff)
  qed
  have nt: "\<not> list_ex (\<lambda>r. is_text (case dget r ''ts_ms'' of None \<Rightarrow> SNull | Some v \<Rightarrow> v)) (filter P (pf_rows f))" for P
    using assms(1) by (fastforce simp: list_ex_iff list_all_iff has_columns_def split: option.splits)
  have e: "filter P (filter Q xs) = filter (\<lambda>x. Q x \<and> P x) xs" for P Q :: "pq_row \<Rightarrow> bool" and xs by simp
  have a: "between a b (case dget r ''ts_ms'' of None \<Rightarrow> SNull | Some v \<Rightarrow> v) \<longleftrightarrow> (case dget r ''ts_ms'' of None \<Rightarrow> False | Some t \<Rightarrow> between a b t)" for r
    by (simp split: option.split)
  show ?thesis unfolding read_file_def Let_def if_P [OF ex(1)] by (simp only: ex(2) nt not_True_eq_False if_False e a asked_for_def [abs_def])
qed

text \<open>The concatenation over a directory as a sum over its names.\<close>

lemma mset_directory:
  "wf_dict d \<Longrightarrow> mset (concat (map (\<lambda>(n, f). g n f) d)) = (\<Sum>n \<in> set (keys d). case dget d n of None \<Rightarrow> {#} | Some f \<Rightarrow> mset (g n f))"
proof (induction d)
  case (Cons x d)
  obtain n f where x: "x = (n, f)" by (cases x)
  have n: "n \<notin> set (keys d)" "wf_dict d" using Cons.prems by (simp_all add: x wf_dict_def keys_def)
  have "(\<Sum>m \<in> set (keys d). case dget (x # d) m of None \<Rightarrow> {#} | Some f \<Rightarrow> mset (g m f))
      = (\<Sum>m \<in> set (keys d). case dget d m of None \<Rightarrow> {#} | Some f \<Rightarrow> mset (g m f))"
    using n(1) by (intro sum.cong) (auto simp: x dget_Cons)
  then show ?case using Cons.IH [OF n(2)] n(1) by (simp add: x keys_def dget_Cons)
qed (simp add: keys_def)

lemma filter_mset_sum: "finite A \<Longrightarrow> filter_mset P (sum f A) = (\<Sum>x \<in> A. filter_mset P (f x))"
  by (induction A rule: finite_induct) simp_all

text \<open>What a reader gets: the parts of all files, one after the other.\<close>

definition parts_read :: "string \<Rightarrow> int \<Rightarrow> int \<Rightarrow> directory \<Rightarrow> pq_row list" where
  "parts_read symbol a b d = concat (map (\<lambda>(n, f). filter (asked_for symbol a b) (pf_rows f)) d)"

lemma read_snapshot_parts:
  assumes "keeps_uniform pd" and "uniform rs" and "list_all has_columns rs"
    and files: "\<And>n f. (n, f) \<in> set (bs_live s @ bs_archive s) \<Longrightarrow> suffix parquet n \<and> pf_rows f \<noteq> [] \<and> set (pf_rows f) \<subseteq> set rs"
  shows "read_snapshot pd (\<lambda>p. True) symbol a b s = parts_read symbol a b (bs_live s) @ parts_read symbol a b (bs_archive s)"
proof -
  let ?part = "\<lambda>d. map (\<lambda>(n, f). if suffix parquet n \<and> True then read_file symbol a b f else []) d"
  let ?asked = "\<lambda>d. map (\<lambda>(n, f :: pq_file). filter (asked_for symbol a b) (pf_rows f)) d"
  have f: "read_file symbol a b f = filter (asked_for symbol a b) (pf_rows f)" if "(n, f) \<in> set (bs_live s @ bs_archive s)" for n f
  proof (rule read_file_asked)
    show "list_all has_columns (pf_rows f)" using assms(3) files [OF that] by (auto simp: list_all_iff)
    show "pf_rows f \<noteq> []" using files [OF that] by blast
  qed
  have p: "?part d = ?asked d" if d: "set d \<subseteq> set (bs_live s @ bs_archive s)" for d
  proof (intro map_cong refl, clarify)
    fix n f assume "(n, f) \<in> set d"
    with d have m: "(n, f) \<in> set (bs_live s @ bs_archive s)" by blast
    show "(if suffix parquet n \<and> True then read_file symbol a b f else []) = filter (asked_for symbol a b) (pf_rows f)"
      using f [OF m] files [OF m] by simp
  qed
  define frames where "frames = filter (\<lambda>rs. rs \<noteq> []) (?asked (bs_live s) @ ?asked (bs_archive s))"
  have c: "concat frames = parts_read symbol a b (bs_live s) @ parts_read symbol a b (bs_archive s)"
  proof -
    have "concat (filter (\<lambda>rs. rs \<noteq> []) xs) = concat xs" for xs :: "pq_row list list" by (induction xs) auto
    then show ?thesis by (simp only: frames_def parts_read_def concat_append)
  qed
  have "set (concat frames) \<subseteq> set rs" using files by (fastforce simp: frames_def)
  then have u: "uniform (concat frames)" by (rule uniform_subset [OF assms(2)])
  have r: "read_snapshot pd (\<lambda>p. True) symbol a b s = (if frames = [] then [] else case pd_concat pd frames of None \<Rightarrow> hd frames | Some rs \<Rightarrow> rs)"
    unfolding read_snapshot_def Let_def using p [of "bs_live s"] p [of "bs_archive s"] by (simp only: frames_def set_append Un_upper1 Un_upper2)
  show ?thesis
  proof (cases "frames = []")
    case True
    then show ?thesis using c r by simp
  next
    case False
    then obtain x xs where x: "frames = x # xs" by (cases frames) auto
    then have "x \<in> set frames" by simp
    then have "x \<noteq> []" by (auto simp: frames_def)
    then have "concat frames \<noteq> []" using x by simp
    then have "pd_concat pd frames = Some (concat frames)" using assms(1) u unfolding keeps_uniform_def by blast
    then show ?thesis using False c r by simp
  qed
qed

text \<open>C16: with a library that gives uniform records back as they are, however files were archived, moved, copied twice or left behind by
  calls that failed, a reader finds for a symbol and a time range exactly the records that were appended for it and have been
  flushed, each as often as it was appended, and once more where the file it is in lies in both directories, as a copy
  whose original could not be removed does; provided the records are uniform and carry a symbol and a numeric time, no two flushes shared a
  millisecond, no system call of a write failed and nothing was trimmed.\<close>

theorem store_reads_back:
  assumes "keeps_uniform pd" and "store_run pd rs s" and "uniform rs" and "list_all has_columns rs"
  shows "mset (read_snapshot pd (\<lambda>p. True) symbol a b s) + mset (filter (asked_for symbol a b) (bs_buffer s))
    = mset (filter (asked_for symbol a b) rs)
      + mset (concat (map (\<lambda>(n, f). if dget (bs_archive s) n = None then [] else filter (asked_for symbol a b) (pf_rows f)) (bs_live s)))"
proof -
  let ?q = "\<lambda>n. filter_mset (asked_for symbol a b) (mset (rows_at s n))"
  let ?L = "set (keys (bs_live s))" and ?A = "set (keys (bs_archive s))"
  have ok: "store_ok s" and rs: "mset rs = mset (bs_buffer s) + disk_rows s" using store_run_sound [OF assms(2,1,3)] by simp_all
  note wf = store_okD(1,2) [OF ok]
  have sub: "set_mset (disk_rows s) \<subseteq> set rs" using rs by (metis mset_subset_eq_add_right set_mset_mono set_mset_mset)
  have disk: "on_disk s n f" if "(n, f) \<in> set (bs_live s @ bs_archive s)" for n f
    using that wf by (auto simp: on_disk_def dest: in_dget)
  have "suffix parquet n \<and> pf_rows f \<noteq> [] \<and> set (pf_rows f) \<subseteq> set rs" if "(n, f) \<in> set (bs_live s @ bs_archive s)" for n f
    using on_disk_rows [OF ok disk [OF that]] sub store_okD(3,4) [OF ok disk [OF that]] by blast
  from read_snapshot_parts [OF assms(1,3,4) this]
  have r: "read_snapshot pd (\<lambda>p. True) symbol a b s = parts_read symbol a b (bs_live s) @ parts_read symbol a b (bs_archive s)" by simp
  have parts: "mset (parts_read symbol a b d) = (\<Sum>n \<in> set (keys d). ?q n)" if "wf_dict d" "\<And>n f. dget d n = Some f \<Longrightarrow> on_disk s n f" for d
    unfolding parts_read_def mset_directory [OF that(1)]
    using rows_at_on_disk [OF ok that(2)] dget_None_iff [of d] by (intro sum.cong) (auto split: option.split)
  have live: "mset (parts_read symbol a b (bs_live s)) = (\<Sum>n \<in> ?L. ?q n)" by (rule parts [OF wf(1)]) (simp add: on_disk_def)
  have archived: "mset (parts_read symbol a b (bs_archive s)) = (\<Sum>n \<in> ?A. ?q n)" by (rule parts [OF wf(2)]) (simp add: on_disk_def)
  have twice: "mset (concat (map (\<lambda>(n, f). if dget (bs_archive s) n = None then [] else filter (asked_for symbol a b) (pf_rows f)) (bs_live s)))
      = (\<Sum>n \<in> ?L \<inter> ?A. ?q n)"
  proof -
    have "(case dget (bs_live s) n of None \<Rightarrow> {#} | Some f \<Rightarrow> mset (if dget (bs_archive s) n = None then [] else filter (asked_for symbol a b) (pf_rows f)))
        = (if n \<in> ?A then ?q n else {#})" if n: "n \<in> ?L" for n
    proof -
      obtain f where f: "dget (bs_live s) n = Some f" using n dget_None_iff [of "bs_live s" n] by auto
      then have "rows_at s n = pf_rows f" using rows_at_on_disk [OF ok] by (simp add: on_disk_def)
      then show ?thesis using f dget_None_iff [of "bs_archive s" n] by simp
    qed
    then show ?thesis unfolding mset_directory [OF wf(1)] sum.inter_restrict [OF finite_set] by (rule sum.cong [OF refl])
  qed
  have "(\<Sum>n \<in> ?L. ?q n) + (\<Sum>n \<in> ?A. ?q n) = (\<Sum>n \<in> names s. ?q n) + (\<Sum>n \<in> ?L \<inter> ?A. ?q n)"
    unfolding names_def by (rule sum.union_inter [symmetric]) simp_all
  then have "mset (read_snapshot pd (\<lambda>p. True) symbol a b s) = filter_mset (asked_for symbol a b) (disk_rows s) + (\<Sum>n \<in> ?L \<inter> ?A. ?q n)"
    by (simp only: r mset_append live archived disk_rows_def filter_mset_sum [OF finite_names])
  then show ?thesis by (simp add: twice rs ac_simps)
qed

definition tick_row :: pq_row where
  "tick_row = [(''symbol'', SText ''S''), (''ts_ms'', SInt 5)]"

definition failing_unlink :: file_calls where
  "failing_unlink = \<lparr>fc_convert = (\<lambda>n. True), fc_unlink = (\<lambda>n. False), fc_move = (\<lambda>n. False)\<rparr>"

text \<open>A library that refuses what is not uniform.\<close>

definition strict_pandas :: pandas where
  "strict_pandas = (let same = (\<lambda>rs. if uniform rs then Some rs else None) in \<lparr>pd_write = same, pd_rewrite = same, pd_concat = (\<lambda>fs. same (concat fs))\<rparr>)"

text \<open>A copy whose original stays: the record is read twice.\<close>

lemma store_reads_back_witness:
  "mset (read_snapshot strict_pandas (\<lambda>p. True) ''S'' 0 9 (fst (archive_file strict_pandas failing_unlink 8 (file_name 7)
      (store_append strict_pandas (default_store_config\<lparr>batch_size := 1\<rparr>) (Number 0) True 7 tick_row empty_store)))) = {#tick_row, tick_row#}"
proof -
  let ?s1 = "store_append strict_pandas (default_store_config\<lparr>batch_size := 1\<rparr>) (Number 0) True 7 tick_row empty_store"
  let ?s = "fst (archive_file strict_pandas failing_unlink 8 (file_name 7) ?s1)"
  have k: "keeps_uniform strict_pandas" by (simp add: keeps_uniform_def strict_pandas_def Let_def)
  have u: "uniform [tick_row]" by (simp add: uniform_def tick_row_def row_type_def keys_def)
  have "store_run strict_pandas ([] @ [tick_row]) ?s1"
    by (intro store_run.append store_run.start) (simp_all add: fresh_name_def empty_store_def)
  then have run: "store_run strict_pandas [tick_row] ?s" using store_run.one_file by simp
  have "?s1 = \<lparr>bs_buffer = [], bs_live = [(file_name 7, \<lparr>pf_mtime_ms = 7, pf_rows = [tick_row]\<rparr>)], bs_archive = []\<rparr>"
    using u by (simp add: store_append_def store_flush_def empty_store_def default_store_config_def strict_pandas_def Let_def dset_def)
  then have s: "bs_buffer ?s = []" "bs_live ?s = [(file_name 7, \<lparr>pf_mtime_ms = 7, pf_rows = [tick_row]\<rparr>)]" "dget (bs_archive ?s) (file_name 7) \<noteq> None"
    using u by (simp_all add: archive_file_def archive_one_def failing_unlink_def strict_pandas_def Let_def dget_Cons dict_simps)
  have "list_all has_columns [tick_row]" "asked_for ''S'' 0 9 tick_row" by (simp_all add: has_columns_def asked_for_def tick_row_def dget_Cons)
  then show ?thesis using store_reads_back [OF k run u, of "''S''" 0 9] s by simp
qed

text \<open>Two flushes within a millisecond write the same file, and the first one is gone.\<close>

lemma flush_overwrites:
  assumes "bs_buffer s \<noteq> []" and "rows \<noteq> []" and "pd_write pd (bs_buffer s) \<noteq> None" and "pd_write pd rows = Some rs"
  shows "dget (bs_live (fst (store_flush pd True ts ((fst (store_flush pd True ts s))\<lparr>bs_buffer := rows\<rparr>)))) (file_name ts) = Some \<lparr>pf_mtime_ms = ts, pf_rows = rs\<rparr>"
  using assms by (auto simp: store_flush_def dict_simps)

end
