(* ===== verification/Reporting.thy ===== *)
theory Reporting
  imports Position_Sim
begin

text \<open>
  \<^verbatim>\<open>src/backtest/reporting.py\<close>: the metrics and the equity curve that are derived from a list of trades. The square root and the square,
  \<^verbatim>\<open>math.sqrt\<close> and \<^verbatim>\<open>** 2\<close>, are parameters; the CSV file is left out.
\<close>

section \<open>Metrics\<close>

record extended_metrics =
  sharpe_annualized :: rat
  profit_factor :: "rat option"
  expectancy_r :: rat
  avg_holding_sec :: rat
  max_consecutive_losses :: nat

definition metrics_to_dict :: "extended_metrics \<Rightarrow> extended_metrics" where
  "metrics_to_dict m =
     \<lparr>sharpe_annualized = round_digits 4 (sharpe_annualized m), profit_factor = map_option (round_digits 4) (profit_factor m),
      expectancy_r = round_digits 4 (expectancy_r m), avg_holding_sec = round_digits 2 (avg_holding_sec m),
      max_consecutive_losses = max_consecutive_losses m\<rparr>"

definition SECONDS_PER_YEAR :: rat where
  "SECONDS_PER_YEAR = 365 * 24 * 3600"

text \<open>The returns per trade, unless the equity is not positive before one of them.\<close>

fun trade_returns :: "rat \<Rightarrow> sim_trade list \<Rightarrow> rat list option" where
  "trade_returns eq [] = Some []"
| "trade_returns eq (t # ts) =
     (if eq \<le> 0 then None else map_option (Cons (fdiv (st_pnl_net t) eq)) (trade_returns (fadd eq (st_pnl_net t)) ts))"

definition calc_sharpe_annualized :: "(rat \<Rightarrow> rat) \<Rightarrow> (rat \<Rightarrow> rat) \<Rightarrow> sim_trade list \<Rightarrow> rat \<Rightarrow> rat" where
  "calc_sharpe_annualized sqrt_of square_of trades eq0 =
     (let n = length trades
      in if n < 2 then 0
         else case trade_returns eq0 trades of
                None \<Rightarrow> 0
              | Some rets \<Rightarrow>
                  (let avg = fdiv (fsum rets) (of_nat n);
                       var = fdiv (fsum (map (\<lambda>r. square_of (fsub r avg)) rets)) (of_nat (n - 1));
                       std = (if 0 < var then sqrt_of var else 0);
                       span_ms = Max (set (map st_exit_ts_ms trades)) - Min (set (map st_entry_ts_ms trades));
                       span_years = fdiv (fdiv (of_int span_ms) 1000) SECONDS_PER_YEAR
                   in if std = 0 then 0
                      else if span_ms \<le> 0 then 0
                      else if span_years \<le> 0 then 0
                      else fmul (fdiv avg std) (sqrt_of (fdiv (of_nat n) span_years))))"

text \<open>The longest streak of losses, with the current one and the longest so far.\<close>

fun streak_loop :: "sim_trade list \<Rightarrow> nat \<Rightarrow> nat \<Rightarrow> nat" where
  "streak_loop [] cur longest = longest"
| "streak_loop (t # ts) cur longest =
     (if st_pnl_net t < 0 then streak_loop ts (cur + 1) (if longest < cur + 1 then cur + 1 else longest) else streak_loop ts 0 longest)"

definition compute_metrics :: "(rat \<Rightarrow> rat) \<Rightarrow> (rat \<Rightarrow> rat) \<Rightarrow> sim_trade list \<Rightarrow> rat \<Rightarrow> extended_metrics" where
  "compute_metrics sqrt_of square_of trades eq0 =
     (let n = length trades
      in if n = 0 then \<lparr>sharpe_annualized = 0, profit_factor = None, expectancy_r = 0, avg_holding_sec = 0, max_consecutive_losses = 0\<rparr>
         else
           (let gross_win = fsum (map st_pnl_net (filter (\<lambda>t. 0 < st_pnl_net t) trades));
                gross_loss = fsum (map (\<lambda>t. - st_pnl_net t) (filter (\<lambda>t. st_pnl_net t < 0) trades));
                holds = map (\<lambda>t. st_exit_ts_ms t - st_entry_ts_ms t) trades
            in \<lparr>sharpe_annualized = calc_sharpe_annualized sqrt_of square_of trades eq0,
                profit_factor = (if 0 < gross_loss then Some (fdiv gross_win gross_loss) else None),
                expectancy_r = fdiv (fsum (map st_r_multiple trades)) (of_nat n),
                avg_holding_sec = fdiv (fdiv (of_int (sum_list holds)) (of_nat n)) 1000,
                max_consecutive_losses = streak_loop trades 0 0\<rparr>))"

section \<open>Equity curve\<close>

record equity_point =
  ep_ts_ms :: int
  ep_equity :: rat

definition point_to_dict :: "equity_point \<Rightarrow> equity_point" where
  "point_to_dict p = p\<lparr>ep_equity := round_digits 4 (ep_equity p)\<rparr>"

fun curve_points :: "rat \<Rightarrow> sim_trade list \<Rightarrow> equity_point list" where
  "curve_points eq [] = []"
| "curve_points eq (t # ts) =
     (let eq' = fadd eq (st_pnl_net t) in \<lparr>ep_ts_ms = st_exit_ts_ms t, ep_equity = eq'\<rparr> # curve_points eq' ts)"

definition build_equity_curve :: "sim_trade list \<Rightarrow> rat \<Rightarrow> equity_point list" where
  "build_equity_curve trades eq0 =
     (case trades of
        [] \<Rightarrow> []
      | t # ts \<Rightarrow> \<lparr>ep_ts_ms = st_entry_ts_ms t, ep_equity = eq0\<rparr> # curve_points eq0 trades)"

section \<open>The longest streak\<close>

definition losing :: "sim_trade \<Rightarrow> bool" where
  "losing t \<longleftrightarrow> st_pnl_net t < 0"

definition losing_streaks :: "sim_trade list \<Rightarrow> nat set" where
  "losing_streaks ts = {length ys | xs ys zs. ts = xs @ ys @ zs \<and> list_all losing ys}"

lemma streaks_0 [simp]: "0 \<in> losing_streaks ts"
  by (force simp: losing_streaks_def)

lemma streaks_bound: "n \<in> losing_streaks ts \<Longrightarrow> n \<le> length ts"
  by (auto simp: losing_streaks_def)

lemma streaks_finite [simp]: "finite (losing_streaks ts)"
  by (rule finite_subset [of _ "{..length ts}"]) (auto dest: streaks_bound)

text \<open>The streak that the list starts with, after \<open>cur\<close> losses just before it.\<close>

definition first_streak :: "nat \<Rightarrow> sim_trade list \<Rightarrow> nat" where
  "first_streak cur ts = cur + length (takeWhile losing ts)"

lemma streaks_Cons_win:
  assumes "\<not> losing t" shows "losing_streaks (t # ts) = losing_streaks ts"
proof
  show "losing_streaks ts \<subseteq> losing_streaks (t # ts)"
    by (auto simp: losing_streaks_def) (metis append_Cons)
  show "losing_streaks (t # ts) \<subseteq> losing_streaks ts"
  proof
    fix n
    assume "n \<in> losing_streaks (t # ts)"
    then obtain xs ys zs where e: "n = length ys" "t # ts = xs @ ys @ zs" "list_all losing ys" by (auto simp: losing_streaks_def)
    show "n \<in> losing_streaks ts"
    proof (cases xs)
      case Nil
      then have "ys = []" using e assms by (cases ys) auto
      then show ?thesis using e(1) by simp
    next
      case (Cons x xs')
      then show ?thesis using e by (auto simp: losing_streaks_def)
    qed
  qed
qed

lemma prefix_streak: "length (takeWhile losing ts) \<in> losing_streaks ts"
  unfolding losing_streaks_def
  by (rule CollectI, rule exI [of _ "[]"], rule exI [of _ "takeWhile losing ts"], rule exI [of _ "dropWhile losing ts"])
    (auto simp: list_all_iff dest: set_takeWhileD)

lemma streaks_Cons_loss:
  assumes "losing t" shows "Max (losing_streaks (t # ts)) = max (1 + length (takeWhile losing ts)) (Max (losing_streaks ts))"
proof (rule Max_eqI)
  fix n
  assume "n \<in> losing_streaks (t # ts)"
  then obtain xs ys zs where e: "n = length ys" "t # ts = xs @ ys @ zs" "list_all losing ys" by (auto simp: losing_streaks_def)
  show "n \<le> max (1 + length (takeWhile losing ts)) (Max (losing_streaks ts))"
  proof (cases xs)
    case Nil
    then have "takeWhile losing (t # ts) = ys @ takeWhile losing zs" using e(2,3) by (simp add: takeWhile_append2 list_all_iff)
    then have "length ys \<le> length (takeWhile losing (t # ts))" by simp
    then show ?thesis using e(1) assms by simp
  next
    case (Cons x xs')
    then have "n \<in> losing_streaks ts" using e by (auto simp: losing_streaks_def)
    then have "n \<le> Max (losing_streaks ts)" by simp
    then show ?thesis by linarith
  qed
next
  have "losing_streaks ts \<subseteq> losing_streaks (t # ts)" by (auto simp: losing_streaks_def) (metis append_Cons)
  moreover have "Max (losing_streaks ts) \<in> losing_streaks ts" by (metis Max_in empty_iff streaks_0 streaks_finite)
  ultimately show "max (1 + length (takeWhile losing ts)) (Max (losing_streaks ts)) \<in> losing_streaks (t # ts)"
    using prefix_streak [of "t # ts"] assms by (auto simp: max_def)
qed simp

lemma max_streaks: "max (max a (c + 1)) (max (c + 1 + l) m) = max a (max (c + (1 + l)) (max (1 + l) m))" for a c l m :: nat
  by arith

lemma streak_loop_Max:
  "cur \<le> longest \<Longrightarrow> streak_loop ts cur longest = max longest (max (first_streak cur ts) (Max (losing_streaks ts)))"
proof (induction ts arbitrary: cur longest)
  case Nil
  have "losing_streaks [] = {0}" using streaks_bound [of _ "[]"] streaks_0 [of "[]"] by auto
  then show ?case using Nil by (simp add: first_streak_def)
next
  case (Cons t ts)
  show ?case
  proof (cases "losing t")
    case True
    have m: "(if longest < cur + 1 then cur + 1 else longest) = max longest (cur + 1)" by (simp add: max_def)
    have "streak_loop (t # ts) cur longest = streak_loop ts (cur + 1) (max longest (cur + 1))"
      using True m by (simp only: streak_loop.simps losing_def if_True)
    also have "\<dots> = max (max longest (cur + 1)) (max (cur + 1 + length (takeWhile losing ts)) (Max (losing_streaks ts)))"
      using Cons.IH [of "cur + 1" "max longest (cur + 1)"] by (simp add: first_streak_def)
    also have "\<dots> = max longest (max (first_streak cur (t # ts)) (Max (losing_streaks (t # ts))))"
      unfolding max_streaks streaks_Cons_loss [OF True] using True by (simp add: first_streak_def)
    finally show ?thesis .
  next
    case False
    have "length (takeWhile losing ts) \<le> Max (losing_streaks ts)" using prefix_streak by (intro Max_ge) simp_all
    then show ?thesis using Cons.IH [of 0 longest] Cons.prems False
      by (simp add: streaks_Cons_win [OF False] losing_def first_streak_def)
  qed
qed

text \<open>Lemma: the number of consecutive losses that is reported is the length of the longest block of losing trades.\<close>

theorem metrics_streak:
  "max_consecutive_losses (compute_metrics sqrt_of square_of trades eq0) = Max (losing_streaks trades)"
proof -
  have "length (takeWhile losing trades) \<le> Max (losing_streaks trades)" using prefix_streak by (intro Max_ge) simp_all
  then have "streak_loop trades 0 0 = Max (losing_streaks trades)" by (simp add: streak_loop_Max first_streak_def)
  then show ?thesis by (cases trades) (simp_all add: compute_metrics_def Let_def)
qed

section \<open>The curve and the simulator\<close>

text \<open>The calls that the simulator serves.\<close>

datatype sim_call =
    Feed ohlcv_event
  | Rate string "rat option"
  | Enter string int rat string
  | Finish int "string \<rightharpoonup> rat"

fun serve :: "sim_config \<Rightarrow> sim_call \<Rightarrow> sim_state \<Rightarrow> sim_state" where
  "serve cfg (Feed ev) s = sim_on_ohlcv cfg ev s"
| "serve cfg (Rate symbol r) s = sim_on_ticker symbol r s"
| "serve cfg (Enter dir ts_ms close symbol) s = fst (sim_on_entry cfg dir ts_ms close symbol s)"
| "serve cfg (Finish ts_ms prices) s = sim_finalize cfg ts_ms prices s"

definition booked :: "sim_config \<Rightarrow> sim_state \<Rightarrow> bool" where
  "booked cfg s \<longleftrightarrow> s_realized_equity s = foldl fadd (s_initial_equity cfg) (map st_pnl_net (s_trades s))"

lemma booked_close: "booked cfg s \<Longrightarrow> booked cfg (sim_close_position cfg symbol ts px reason s)"
  by (simp add: booked_def sim_close_position_def Let_def split: option.split)

lemma booked_exits: "booked cfg s \<Longrightarrow> booked cfg (sim_check_exits cfg c symbol s)"
  by (simp add: sim_check_exits_def Let_def booked_close split: option.split)

lemma booked_frame:
  "booked cfg (s\<lparr>s_active := a\<rparr>) = booked cfg s" "booked cfg (s\<lparr>s_candles := k\<rparr>) = booked cfg s" "booked cfg (s\<lparr>s_positions := p\<rparr>) = booked cfg s"
  "booked cfg (s\<lparr>s_last_price := l\<rparr>) = booked cfg s" "booked cfg (s\<lparr>s_last_funding_rate := r\<rparr>) = booked cfg s"
  "booked cfg (s\<lparr>s_next_funding_ms := n\<rparr>) = booked cfg s" "booked cfg (s\<lparr>s_last_rejection_reason := x\<rparr>) = booked cfg s"
  by (simp_all add: booked_def)

lemma booked_active: "booked cfg s \<Longrightarrow> booked cfg (sim_finalize_active cfg symbol s)"
  by (simp add: sim_finalize_active_def Let_def booked_frame booked_exits split: option.split)

lemma booked_funding: "booked cfg s \<Longrightarrow> booked cfg (fst (sim_funding_loop incl symbol ts nf s))"
proof (induction incl symbol ts nf s rule: sim_funding_loop.induct)
  case (1 incl symbol ts nf s)
  then show ?case
    by (subst sim_funding_loop.simps) (simp add: sim_apply_funding_def booked_frame Let_def split: option.split)
qed

lemma booked_finalize:
  assumes "booked cfg s" shows "booked cfg (sim_finalize cfg ts prices s)" and "s_positions (sim_finalize cfg ts prices s) = []"
proof -
  let ?s1 = "foldl (\<lambda>s symbol. sim_finalize_active cfg symbol s) s (keys (s_active s))"
  let ?close = "\<lambda>s symbol. sim_close_position cfg symbol ts (sim_final_price prices symbol s) END_OF_BACKTEST s"
  have "booked cfg (foldl (\<lambda>s symbol. sim_finalize_active cfg symbol s) s ks)" for ks
    using assms by (induction ks arbitrary: s) (simp_all add: booked_active)
  moreover have "booked cfg (foldl ?close s ks)" if "booked cfg s" for ks s
    using that by (induction ks arbitrary: s) (simp_all add: booked_close)
  ultimately show "booked cfg (sim_finalize cfg ts prices s)" by (simp add: sim_finalize_def Let_def)
  have one: "s_positions (sim_close_position cfg k ts px reason s) = filter (\<lambda>(k', v). k' \<noteq> k) (s_positions s)" for s k px reason
  proof (cases "dget (s_positions s) k")
    case None
    then have "filter (\<lambda>(k', v). k' \<noteq> k) (s_positions s) = s_positions s"
      unfolding dget_None_iff keys_def by (intro filter_True) force
    then show ?thesis using None by (simp add: sim_close_position_def)
  qed (simp add: sim_close_position_def Let_def ddel_filter)
  have "s_positions (foldl ?close s ks) = filter (\<lambda>(k', v). k' \<notin> set ks) (s_positions s)" for ks s
    by (induction ks arbitrary: s) (auto simp: one intro: filter_cong)
  then show "s_positions (sim_finalize cfg ts prices s) = []"
    by (simp add: sim_finalize_def Let_def) (auto simp: filter_empty_conv keys_def rev_image_eqI)
qed

lemma booked_candle: "booked cfg s \<Longrightarrow> booked cfg (sim_candle_step cfg ev s)"
  by (simp add: sim_candle_step_def Let_def booked_frame booked_active split: option.split)

lemma booked_ohlcv: "booked cfg s \<Longrightarrow> booked cfg (sim_on_ohlcv cfg ev s)"
  using booked_funding [OF booked_candle]
  by (simp add: sim_on_ohlcv_def sim_funding_step_def Let_def booked_frame case_prod_beta)

lemma booked_entry: "booked cfg s \<Longrightarrow> booked cfg (fst (sim_on_entry cfg dir ts_ms close symbol s))"
  by (simp add: sim_on_entry_def Let_def booked_frame split: option.split)

lemma booked_serve: "booked cfg s \<Longrightarrow> booked cfg (serve cfg c s)"
  by (cases c) (simp_all add: booked_ohlcv booked_entry booked_finalize sim_on_ticker_def booked_frame)

lemma curve_last: "ep_equity (last (\<lparr>ep_ts_ms = t, ep_equity = eq\<rparr> # curve_points eq ts)) = foldl fadd eq (map st_pnl_net ts)"
proof (induction ts arbitrary: eq t)
  case (Cons x ts)
  show ?case using Cons.IH [of "st_exit_ts_ms x" "fadd eq (st_pnl_net x)"] by (simp add: Let_def)
qed simp

lemma curve_times: "map ep_ts_ms (curve_points eq ts) = map st_exit_ts_ms ts"
  by (induction ts arbitrary: eq) (simp_all add: Let_def)

text \<open>C26: after any calls and the end of the stream, the equity curve that is drawn from the trades has one point for each of
  them, at the time it was closed, and ends at the simulator's realized equity, which is the final equity of its report; without
  trades there is no curve and the equity is the initial one.\<close>

theorem curve_ends_at_equity:
  fixes cfg :: sim_config and calls :: "sim_call list" and ts_ms wid fid :: int and prices :: "string \<rightharpoonup> rat"
  defines "s \<equiv> sim_finalize cfg ts_ms prices (fold (serve cfg) calls (sim_init cfg wid fid))"
  shows "(case build_equity_curve (s_trades s) (s_initial_equity cfg) of
            [] \<Rightarrow> s_trades s = [] \<and> s_realized_equity s = s_initial_equity cfg
          | p # ps \<Rightarrow> ep_equity p = s_initial_equity cfg \<and> map ep_ts_ms ps = map st_exit_ts_ms (s_trades s)
              \<and> ep_equity (last ps) = s_realized_equity s)
    \<and> rep_final_equity (sim_build_report cfg s) = s_realized_equity s"
proof -
  have "booked cfg (sim_init cfg wid fid)" by (simp add: booked_def sim_init_def)
  then have "booked cfg (fold (serve cfg) calls (sim_init cfg wid fid))"
    by (rule fold_invariant [where Q = "\<lambda>c. True", rotated]) (simp_all add: booked_serve)
  then have b: "booked cfg s" "s_positions s = []" by (simp_all add: s_def booked_finalize)
  then have "rep_final_equity (sim_build_report cfg s) = s_realized_equity s" by (simp add: sim_build_report_def sim_equity_def Let_def)
  moreover have "ep_equity (last (curve_points (s_initial_equity cfg) (s_trades s))) = s_realized_equity s" if "s_trades s \<noteq> []"
    using b(1) curve_last [of 0 "s_initial_equity cfg" "s_trades s"] that by (cases "s_trades s") (simp_all add: booked_def Let_def)
  moreover have "s_realized_equity s = s_initial_equity cfg" if "s_trades s = []" using b(1) that by (simp add: booked_def)
  ultimately show ?thesis
    using curve_times [of "s_initial_equity cfg" "s_trades s"] by (cases "s_trades s") (simp_all add: build_equity_curve_def)
qed

end
