(* ===== verification/Mexc_Rest.thy ===== *)
theory Mexc_Rest
  imports Decimals
begin

text \<open>
  \<^verbatim>\<open>src/data_layer/mexc_rest.py\<close>: what the client makes of the answers of the exchange. The answer to a request, its status and the
  decoded body, is an input; so are \<^verbatim>\<open>float\<close> and \<^verbatim>\<open>int\<close> of a text. Numbers are finite, and no symbol is a number.
\<close>

section \<open>Decoded bodies\<close>

datatype json = JNull | JBool bool | JInt int | JFloat rat | JStr string | JList "json list" | JDict "(string \<times> json) list"

fun truthy :: "json \<Rightarrow> bool" where
  "truthy JNull = False"
| "truthy (JBool b) = b"
| "truthy (JInt n) = (n \<noteq> 0)"
| "truthy (JFloat x) = (x \<noteq> 0)"
| "truthy (JStr s) = (s \<noteq> [])"
| "truthy (JList xs) = (xs \<noteq> [])"
| "truthy (JDict d) = (d \<noteq> [])"

text \<open>\<^verbatim>\<open>d.get(k)\<close>: the last of repeated keys counts, an absent one gives \<^verbatim>\<open>None\<close>.\<close>

definition jget :: "(string \<times> json) list \<Rightarrow> string \<Rightarrow> json option" where
  "jget d k = map_of (rev d) k"

definition jget_null :: "(string \<times> json) list \<Rightarrow> string \<Rightarrow> json" where
  "jget_null d k = (case jget d k of None \<Rightarrow> JNull | Some v \<Rightarrow> v)"

text \<open>\<^verbatim>\<open>float(x)\<close> and \<^verbatim>\<open>int(x)\<close>; \<open>None\<close> is a \<^verbatim>\<open>TypeError\<close> or a \<^verbatim>\<open>ValueError\<close>.\<close>

record texts =
  float_text :: "string \<Rightarrow> rat option"
  int_text :: "string \<Rightarrow> int option"

fun to_float :: "texts \<Rightarrow> json \<Rightarrow> rat option" where
  "to_float p (JInt n) = Some (rnd (of_int n))"
| "to_float p (JFloat x) = Some x"
| "to_float p (JBool b) = Some (if b then 1 else 0)"
| "to_float p (JStr s) = float_text p s"
| "to_float p _ = None"

fun to_int :: "texts \<Rightarrow> json \<Rightarrow> int option" where
  "to_int p (JInt n) = Some n"
| "to_int p (JFloat x) = Some (py_int x)"
| "to_int p (JBool b) = Some (if b then 1 else 0)"
| "to_int p (JStr s) = int_text p s"
| "to_int p _ = None"

section \<open>Requests\<close>

text \<open>The errors of the class \<^verbatim>\<open>MEXCRestError\<close>, by what raises them, and those that escape as something else.\<close>

datatype rest_error =
    HttpStatus int | TimedOut | RequestFailed | NonDict | NotSuccess json | MissingData | MissingVersion | NotAList | NoContractSize
  | SymbolNotFound | Uncaught

datatype http_reply = ReplyTimeout | ReplyError | Reply int "json option"

definition get_json :: "http_reply \<Rightarrow> rest_error + (string \<times> json) list" where
  "get_json r =
     (case r of
        ReplyTimeout \<Rightarrow> Inl TimedOut
      | ReplyError \<Rightarrow> Inl RequestFailed
      | Reply status body \<Rightarrow>
          if status \<noteq> 200 then Inl (HttpStatus status)
          else case body of
                 None \<Rightarrow> Inl RequestFailed
               | Some (JDict d) \<Rightarrow>
                   if \<not> truthy (case jget d ''success'' of None \<Rightarrow> JBool False | Some v \<Rightarrow> v) then Inl (NotSuccess (jget_null d ''code''))
                   else Inr d
               | Some _ \<Rightarrow> Inl NonDict)"

text \<open>\<^verbatim>\<open>_to_pairs\<close>: rows that are no list of two numbers are skipped; something that is no sequence raises.\<close>

definition to_pair :: "texts \<Rightarrow> json \<Rightarrow> (rat \<times> rat) option" where
  "to_pair p row =
     (case row of
        JList (a # b # rest) \<Rightarrow> (case (to_float p a, to_float p b) of (Some x, Some y) \<Rightarrow> Some (x, y) | _ \<Rightarrow> None)
      | _ \<Rightarrow> None)"

definition to_pairs :: "texts \<Rightarrow> json \<Rightarrow> rest_error + (rat \<times> rat) list" where
  "to_pairs p raw =
     (if \<not> truthy raw then Inr []
      else case raw of
             JList rows \<Rightarrow> Inr (List.map_filter (to_pair p) rows)
           | JStr s \<Rightarrow> Inr []
           | JDict d \<Rightarrow> Inr []
           | _ \<Rightarrow> Inl Uncaught)"

record depth_reply =
  dr_bids :: "(rat \<times> rat) list"
  dr_asks :: "(rat \<times> rat) list"
  dr_version :: int
  dr_ts :: int

definition MAX_DEPTH_LIMIT :: int where "MAX_DEPTH_LIMIT = 1000"

text \<open>The path and the limit of a request, and what is made of its answer.\<close>

definition snapshot_request :: "string \<Rightarrow> int \<Rightarrow> string \<times> int" where
  "snapshot_request symbol limit = (''/api/v1/contract/depth/'' @ symbol, if MAX_DEPTH_LIMIT < limit then MAX_DEPTH_LIMIT else limit)"

definition rest_fetch_snapshot :: "texts \<Rightarrow> http_reply \<Rightarrow> rest_error + depth_reply" where
  "rest_fetch_snapshot p r =
     (case get_json r of
        Inl e \<Rightarrow> Inl e
      | Inr payload \<Rightarrow>
          (case jget_null payload ''data'' of
             JDict data \<Rightarrow>
               if jget_null data ''version'' = JNull then Inl MissingVersion
               else (case (to_pairs p (jget_null data ''bids''), to_pairs p (jget_null data ''asks''), to_int p (jget_null data ''version''),
                           if jget_null data ''timestamp'' = JNull then Some 0 else to_int p (jget_null data ''timestamp'')) of
                       (Inr bids, Inr asks, Some version, Some ts) \<Rightarrow> Inr \<lparr>dr_bids = bids, dr_asks = asks, dr_version = version, dr_ts = ts\<rparr>
                     | _ \<Rightarrow> Inl Uncaught)
           | _ \<Rightarrow> Inl MissingData))"

text \<open>A commit without a version is skipped, one with unreadable levels raises.\<close>

definition commit_of :: "texts \<Rightarrow> json \<Rightarrow> (rest_error + depth_reply) option" where
  "commit_of p item =
     (case item of
        JDict d \<Rightarrow>
          (case to_int p (jget_null d ''version'') of
             None \<Rightarrow> None
           | Some version \<Rightarrow>
               Some (case (to_pairs p (jget_null d ''bids''), to_pairs p (jget_null d ''asks'')) of
                       (Inr bids, Inr asks) \<Rightarrow>
                         Inr \<lparr>dr_bids = bids, dr_asks = asks, dr_version = version,
                              dr_ts = (case to_int p (jget_null d ''cts'') of None \<Rightarrow> 0 | Some n \<Rightarrow> n)\<rparr>
                     | _ \<Rightarrow> Inl Uncaught))
      | _ \<Rightarrow> None)"

fun commits_of :: "texts \<Rightarrow> json list \<Rightarrow> rest_error + depth_reply list" where
  "commits_of p [] = Inr []"
| "commits_of p (item # items) =
     (case commit_of p item of
        None \<Rightarrow> commits_of p items
      | Some (Inl e) \<Rightarrow> Inl e
      | Some (Inr c) \<Rightarrow> (case commits_of p items of Inl e \<Rightarrow> Inl e | Inr cs \<Rightarrow> Inr (c # cs)))"

definition MAX_COMMITS_LIMIT :: int where "MAX_COMMITS_LIMIT = 1000"

definition commits_limit :: "int \<Rightarrow> int" where
  "commits_limit limit = (if MAX_COMMITS_LIMIT < limit then MAX_COMMITS_LIMIT else limit)"

text \<open>\<^verbatim>\<open>payload.get("data") or []\<close>.\<close>

definition data_list :: "(string \<times> json) list \<Rightarrow> rest_error + json list" where
  "data_list payload =
     (let v = jget_null payload ''data'' in if \<not> truthy v then Inr [] else case v of JList items \<Rightarrow> Inr items | _ \<Rightarrow> Inl NotAList)"

definition fetch_commits :: "texts \<Rightarrow> http_reply \<Rightarrow> rest_error + depth_reply list" where
  "fetch_commits p r =
     (case get_json r of
        Inl e \<Rightarrow> Inl e
      | Inr payload \<Rightarrow>
          (case data_list payload of
             Inl e \<Rightarrow> Inl e
           | Inr items \<Rightarrow> (case commits_of p items of Inl e \<Rightarrow> Inl e | Inr cs \<Rightarrow> Inr (sort_key dr_version cs))))"

section \<open>Contracts and tickers\<close>

fun contract_size_in :: "texts \<Rightarrow> string \<Rightarrow> json list \<Rightarrow> rest_error + rat" where
  "contract_size_in p symbol [] = Inl SymbolNotFound"
| "contract_size_in p symbol (item # items) =
     (case item of
        JDict d \<Rightarrow>
          if jget_null d ''symbol'' = JStr symbol
          then (if jget_null d ''contractSize'' = JNull then Inl NoContractSize
                else case to_float p (jget_null d ''contractSize'') of None \<Rightarrow> Inl Uncaught | Some x \<Rightarrow> Inr x)
          else contract_size_in p symbol items
      | _ \<Rightarrow> contract_size_in p symbol items)"

definition fetch_contract_size :: "texts \<Rightarrow> string \<Rightarrow> http_reply \<Rightarrow> rest_error + rat" where
  "fetch_contract_size p symbol r =
     (case get_json r of
        Inl e \<Rightarrow> Inl e
      | Inr payload \<Rightarrow> (case data_list payload of Inl e \<Rightarrow> Inl e | Inr items \<Rightarrow> contract_size_in p symbol items))"

text \<open>An unreadable size and a symbol that is a list or a dictionary are skipped.\<close>

definition contract_detail :: "texts \<Rightarrow> json \<Rightarrow> (string, rat) dict \<Rightarrow> (string, rat) dict" where
  "contract_detail p item out =
     (case item of
        JDict d \<Rightarrow>
          (case (jget_null d ''symbol'', to_float p (jget_null d ''contractSize'')) of
             (JStr name, Some x) \<Rightarrow> if name = [] then out else dset out name x
           | _ \<Rightarrow> out)
      | _ \<Rightarrow> out)"

definition fetch_all_contract_details :: "texts \<Rightarrow> http_reply \<Rightarrow> rest_error + (string, rat) dict" where
  "fetch_all_contract_details p r =
     (case get_json r of
        Inl e \<Rightarrow> Inl e
      | Inr payload \<Rightarrow> (case data_list payload of Inl e \<Rightarrow> Inl e | Inr items \<Rightarrow> Inr (fold (contract_detail p) items [])))"

text \<open>\<^verbatim>\<open>float(d.get(k, 0.0))\<close>: the default is for an absent key only.\<close>

definition float_field :: "texts \<Rightarrow> (string \<times> json) list \<Rightarrow> string \<Rightarrow> rat option" where
  "float_field p d k = (case jget d k of None \<Rightarrow> Some 0 | Some v \<Rightarrow> to_float p v)"

definition int_field :: "texts \<Rightarrow> (string \<times> json) list \<Rightarrow> string \<Rightarrow> int option" where
  "int_field p d k = (case jget d k of None \<Rightarrow> Some 0 | Some v \<Rightarrow> to_int p v)"

record number_row =
  nr_symbol :: json
  nr_floats :: "rat list"
  nr_ints :: "int list"

definition number_row :: "texts \<Rightarrow> string list \<Rightarrow> string list \<Rightarrow> (string \<times> json) list \<Rightarrow> rest_error + number_row" where
  "number_row p fs is d =
     (case (those (map (float_field p d) fs), those (map (int_field p d) is)) of
        (Some xs, Some ns) \<Rightarrow> Inr \<lparr>nr_symbol = jget_null d ''symbol'', nr_floats = xs, nr_ints = ns\<rparr>
      | _ \<Rightarrow> Inl Uncaught)"

definition ticker_fields :: "string list" where
  "ticker_fields = [''lastPrice'', ''fairPrice'', ''indexPrice'', ''holdVol'', ''fundingRate'']"

definition bulk_fields :: "string list" where
  "bulk_fields = [''lastPrice'', ''bid1'', ''ask1'', ''holdVol'', ''amount24'', ''fundingRate'']"

definition fetch_ticker :: "texts \<Rightarrow> http_reply \<Rightarrow> rest_error + number_row" where
  "fetch_ticker p r =
     (case get_json r of
        Inl e \<Rightarrow> Inl e
      | Inr payload \<Rightarrow> (case jget_null payload ''data'' of JDict d \<Rightarrow> number_row p ticker_fields [''timestamp''] d | _ \<Rightarrow> Inl MissingData))"

fun tickers_of :: "texts \<Rightarrow> json list \<Rightarrow> rest_error + number_row list" where
  "tickers_of p [] = Inr []"
| "tickers_of p (item # items) =
     (case item of
        JDict d \<Rightarrow>
          if \<not> truthy (jget_null d ''symbol'') then tickers_of p items
          else (case number_row p bulk_fields [''timestamp''] d of
                  Inl e \<Rightarrow> Inl e
                | Inr t \<Rightarrow> (case tickers_of p items of Inl e \<Rightarrow> Inl e | Inr ts \<Rightarrow> Inr (t # ts)))
      | _ \<Rightarrow> tickers_of p items)"

definition fetch_all_tickers :: "texts \<Rightarrow> http_reply \<Rightarrow> rest_error + number_row list" where
  "fetch_all_tickers p r =
     (case get_json r of
        Inl e \<Rightarrow> Inl e
      | Inr payload \<Rightarrow> (case data_list payload of Inl e \<Rightarrow> Inl e | Inr items \<Rightarrow> tickers_of p items))"

definition fetch_funding_rate :: "texts \<Rightarrow> http_reply \<Rightarrow> rest_error + number_row" where
  "fetch_funding_rate p r =
     (case get_json r of
        Inl e \<Rightarrow> Inl e
      | Inr payload \<Rightarrow>
          (case jget_null payload ''data'' of
             JDict d \<Rightarrow> number_row p [''fundingRate''] [''nextSettleTime'', ''collectCycle'', ''timestamp''] d
           | _ \<Rightarrow> Inl MissingData))"

section \<open>Round trip\<close>

text \<open>The exchange's own encoding of a depth message: every level is a triple, the versions come in any order.\<close>

definition level_json :: "rat \<times> rat \<times> int \<Rightarrow> json" where
  "level_json l = (case l of (price, vol, count) \<Rightarrow> JList [JFloat price, JFloat vol, JInt count])"

definition commit_json :: "string \<Rightarrow> (rat \<times> rat \<times> int) list \<Rightarrow> (rat \<times> rat \<times> int) list \<Rightarrow> int \<Rightarrow> int \<Rightarrow> json" where
  "commit_json time_key bids asks version ts =
     JDict [(''bids'', JList (map level_json bids)), (''asks'', JList (map level_json asks)), (''version'', JInt version), (time_key, JInt ts)]"

definition ok_reply :: "json \<Rightarrow> http_reply" where
  "ok_reply data = Reply 200 (Some (JDict [(''success'', JBool True), (''code'', JInt 0), (''data'', data)]))"

definition pair_of :: "rat \<times> rat \<times> int \<Rightarrow> rat \<times> rat" where
  "pair_of l = (fst l, fst (snd l))"

lemma to_pairs_levels: "to_pairs p (JList (map level_json ls)) = Inr (map pair_of ls)"
proof -
  have "List.map_filter (to_pair p) (map level_json ls) = map pair_of ls"
    by (induction ls) (auto simp: to_pair_def level_json_def pair_of_def map_filter_simps split: prod.split)
  then show ?thesis by (cases ls) (simp_all add: to_pairs_def map_filter_simps)
qed

lemma get_json_ok: "get_json (ok_reply data) = Inr [(''success'', JBool True), (''code'', JInt 0), (''data'', data)]"
  by (simp add: get_json_def ok_reply_def jget_def)

record commit_msg =
  cm_bids :: "(rat \<times> rat \<times> int) list"
  cm_asks :: "(rat \<times> rat \<times> int) list"
  cm_version :: int
  cm_time :: int

definition read_commit :: "commit_msg \<Rightarrow> depth_reply" where
  "read_commit m = \<lparr>dr_bids = map pair_of (cm_bids m), dr_asks = map pair_of (cm_asks m), dr_version = cm_version m, dr_ts = cm_time m\<rparr>"

definition message :: "string \<Rightarrow> commit_msg \<Rightarrow> json" where
  "message k m = commit_json k (cm_bids m) (cm_asks m) (cm_version m) (cm_time m)"

lemma commits_of_messages: "commits_of p (map (message ''cts'') ms) = Inr (map read_commit ms)"
  by (induction ms)
    (simp_all add: commit_of_def message_def commit_json_def jget_null_def jget_def to_pairs_levels read_commit_def)

lemma insort_key_map: "insort_key f (g x) (map g xs) = map g (insort_key (\<lambda>x. f (g x)) x xs)"
  by (induction xs) simp_all

lemma sort_key_map: "sort_key f (map g xs) = map g (sort_key (\<lambda>x. f (g x)) xs)"
  by (induction xs) (simp_all add: insort_key_map)

text \<open>Lemma: a snapshot and a list of commits in the format of the exchange are read back with all their levels, in their order, less the
  counts; the commits come out in the order of their versions, those of one version in the order they came.\<close>

theorem rest_decodes:
  "rest_fetch_snapshot p (ok_reply (commit_json ''timestamp'' bids asks version ts)) =
     Inr \<lparr>dr_bids = map pair_of bids, dr_asks = map pair_of asks, dr_version = version, dr_ts = ts\<rparr>
   \<and> fetch_commits p (ok_reply (JList (map (message ''cts'') ms))) = Inr (map read_commit (sort_key cm_version ms))"
proof
  show "rest_fetch_snapshot p (ok_reply (commit_json ''timestamp'' bids asks version ts)) =
     Inr \<lparr>dr_bids = map pair_of bids, dr_asks = map pair_of asks, dr_version = version, dr_ts = ts\<rparr>"
    by (simp add: rest_fetch_snapshot_def get_json_ok commit_json_def jget_null_def jget_def to_pairs_levels)
  have "data_list [(''success'', JBool True), (''code'', JInt 0), (''data'', JList (map (message ''cts'') ms))] = Inr (map (message ''cts'') ms)"
    by (simp add: data_list_def jget_null_def jget_def Let_def)
  moreover have "sort_key dr_version (map read_commit ms) = map read_commit (sort_key cm_version ms)"
    by (simp add: sort_key_map read_commit_def)
  ultimately show "fetch_commits p (ok_reply (JList (map (message ''cts'') ms))) = Inr (map read_commit (sort_key cm_version ms))"
    by (simp add: fetch_commits_def get_json_ok commits_of_messages)
qed

text \<open>A single listed symbol with an unreadable price makes the request for all tickers raise, and not as a \<^verbatim>\<open>MEXCRestError\<close>, while the
  contract sizes skip such an entry.\<close>

lemma tickers_bad:
  assumes "JDict d \<in> set items" and "truthy (jget_null d ''symbol'')" and "float_field p d ''lastPrice'' = None"
  shows "tickers_of p items = Inl Uncaught"
proof -
  have bad: "number_row p bulk_fields [''timestamp''] d = Inl Uncaught" using assms(3) by (simp add: number_row_def bulk_fields_def)
  have other: "number_row p fs is d' = Inl e \<Longrightarrow> e = Uncaught" for fs "is" d' e by (simp add: number_row_def split: option.splits)
  show ?thesis using assms(1) by (induction items) (auto simp: assms(2) bad split: json.split sum.split dest: other)
qed

lemma bulk_ticker_lost:
  assumes "JDict d \<in> set items" and "truthy (jget_null d ''symbol'')" and "float_field p d ''lastPrice'' = None"
  shows "fetch_all_tickers p (ok_reply (JList items)) = Inl Uncaught"
proof -
  have "data_list [(''success'', JBool True), (''code'', JInt 0), (''data'', JList items)] = Inr items"
    by (simp add: data_list_def jget_null_def jget_def Let_def)
  then show ?thesis using tickers_bad [OF assms] by (simp add: fetch_all_tickers_def get_json_ok)
qed

lemma contract_details_total: "\<exists>out. fetch_all_contract_details p (ok_reply (JList items)) = Inr out"
  by (simp add: fetch_all_contract_details_def get_json_ok data_list_def jget_null_def jget_def Let_def)

end
