(* ===== verification/Mexc_WS.thy ===== *)
theory Mexc_WS
  imports Float64
begin

text \<open>
  \<^verbatim>\<open>src/data_layer/mexc_ws.py\<close>: the WebSocket client of the exchange, its subscriptions and its two watchdogs. The frames it sends are
  logged per connection; how many of the next ones the socket takes before a send raises is an input, and so are the messages that
  arrive and the clock. What the callbacks do is not modelled, only that they are called; what they raise is swallowed.
\<close>

section \<open>Client\<close>

datatype ws_frame = SubDepth string | SubDeal string | UnsubDepth string | UnsubDeal string | PingFrame

datatype ws_call = OnDepth string | OnDeal string

record ws_client =
  wc_symbols :: "string list"
  wc_has_deal :: bool
  wc_dead_timeout :: rat
  wc_subscribed :: "string set"
  wc_socket :: bool
  wc_sent :: "ws_frame list"
  wc_reading :: bool
  wc_pinging :: bool
  wc_last_msg :: rat
  wc_last_data :: rat
  wc_running :: bool
  wc_calls :: "ws_call list"

definition DEFAULT_DEAD_TIMEOUT_S :: rat where "DEFAULT_DEAD_TIMEOUT_S = 30"

definition new_client :: "string list \<Rightarrow> bool \<Rightarrow> rat \<Rightarrow> ws_client" where
  "new_client symbols has_deal dead_timeout_s =
     \<lparr>wc_symbols = symbols, wc_has_deal = has_deal, wc_dead_timeout = dead_timeout_s, wc_subscribed = {}, wc_socket = False, wc_sent = [],
      wc_reading = False, wc_pinging = False, wc_last_msg = 0, wc_last_data = 0, wc_running = False, wc_calls = []\<rparr>"

text \<open>\<^verbatim>\<open>send_json\<close>: with the number of sends the socket still takes; \<open>None\<close> when it has raised.\<close>

definition send_frame :: "ws_frame \<Rightarrow> ws_client \<times> nat option \<Rightarrow> ws_client \<times> nat option" where
  "send_frame f x =
     (case x of
        (c, Some (Suc n)) \<Rightarrow> (c\<lparr>wc_sent := wc_sent c @ [f]\<rparr>, Some n)
      | (c, _) \<Rightarrow> (c, None))"

definition on_ok :: "(ws_client \<Rightarrow> ws_client) \<Rightarrow> ws_client \<times> nat option \<Rightarrow> ws_client \<times> nat option" where
  "on_ok g x = (case x of (c, Some n) \<Rightarrow> (g c, Some n) | (c, None) \<Rightarrow> (c, None))"

definition note_subscribed :: "string \<Rightarrow> ws_client \<Rightarrow> ws_client" where
  "note_subscribed s c = c\<lparr>wc_subscribed := insert s (wc_subscribed c)\<rparr>"

text \<open>The flag is \<open>False\<close> when the call raised.\<close>

definition ws_client_connect :: "nat \<Rightarrow> rat \<Rightarrow> ws_client \<Rightarrow> ws_client \<times> bool" where
  "ws_client_connect budget now c =
     (let c0 = c\<lparr>wc_socket := True, wc_sent := []\<rparr>;
          x1 = fold (\<lambda>s x. on_ok (note_subscribed s) (send_frame (SubDepth s) x)) (wc_symbols c) (c0, Some budget);
          x2 = (if wc_has_deal c then fold (\<lambda>s x. send_frame (SubDeal s) x) (wc_symbols c) x1 else x1)
      in case x2 of
           (c2, None) \<Rightarrow> (c2, False)
         | (c2, Some n) \<Rightarrow> (c2\<lparr>wc_running := True, wc_last_msg := now, wc_reading := True, wc_pinging := True\<rparr>, True))"

section \<open>Reading\<close>

text \<open>What can arrive: a text that is no JSON or no dictionary, a push with its symbol, if it has one that is not empty, and whether its data have
  the right shape, another channel, the closing of the socket, or a message of another type.\<close>

datatype ws_msg =
    NoJson | NoDict | PushDepth "string option" bool | PushDeal "string option" bool | OtherChannel | CloseMsg | OtherType

text \<open>A dictionary is handled; the flag is \<open>False\<close> when the handling raises.\<close>

definition ws_handle_message :: "rat \<Rightarrow> ws_msg \<Rightarrow> ws_client \<Rightarrow> ws_client \<times> bool" where
  "ws_handle_message now m c =
     (case m of
        PushDepth name ok \<Rightarrow>
          (let c1 = c\<lparr>wc_last_data := now\<rparr>
           in (case name of Some s \<Rightarrow> if ok then c1\<lparr>wc_calls := wc_calls c1 @ [OnDepth s]\<rparr> else c1 | None \<Rightarrow> c1, True))
      | PushDeal name ok \<Rightarrow>
          (let c1 = c\<lparr>wc_last_data := now\<rparr>
           in (case name of Some s \<Rightarrow> if ok \<and> wc_has_deal c then c1\<lparr>wc_calls := wc_calls c1 @ [OnDeal s]\<rparr> else c1 | None \<Rightarrow> c1, True))
      | NoDict \<Rightarrow> (c, False)
      | _ \<Rightarrow> (c, True))"

text \<open>One turn of the read loop, and the check of its condition before the next one.\<close>

definition read_step :: "rat \<Rightarrow> ws_msg \<Rightarrow> ws_client \<Rightarrow> ws_client" where
  "read_step now m c =
     (if \<not> wc_reading c \<or> \<not> wc_socket c then c
      else let c1 = c\<lparr>wc_last_msg := now, wc_last_data := (if wc_last_data c = 0 then now else wc_last_data c)\<rparr>
           in case m of
                CloseMsg \<Rightarrow> c1\<lparr>wc_reading := False\<rparr>
              | OtherType \<Rightarrow> c1\<lparr>wc_reading := wc_running c1\<rparr>
              | _ \<Rightarrow> (case ws_handle_message now m c1 of
                        (c2, False) \<Rightarrow> c2\<lparr>wc_reading := False\<rparr>
                      | (c2, True) \<Rightarrow> c2\<lparr>wc_reading := wc_running c2\<rparr>))"

section \<open>Watchdogs\<close>

definition ping_step :: "bool \<Rightarrow> rat \<Rightarrow> ws_client \<Rightarrow> ws_client" where
  "ping_step send_ok now c =
     (if \<not> wc_pinging c then c
      else if 0 < wc_last_data c \<and> 60 < fsub now (wc_last_data c) then c\<lparr>wc_running := False, wc_pinging := False\<rparr>
      else if wc_dead_timeout c < fsub now (wc_last_msg c) then c\<lparr>wc_pinging := False\<rparr>
      else if send_ok then c\<lparr>wc_sent := wc_sent c @ [PingFrame], wc_pinging := wc_running c\<rparr>
      else c\<lparr>wc_pinging := False\<rparr>)"

section \<open>Dynamic subscriptions\<close>

datatype sub_result = Done bool | SendRaised

definition ws_subscribe :: "nat \<Rightarrow> string \<Rightarrow> ws_client \<Rightarrow> ws_client \<times> sub_result" where
  "ws_subscribe budget s c =
     (if \<not> wc_socket c \<or> \<not> wc_running c then (c, Done False)
      else if s \<in> wc_subscribed c then (c, Done False)
      else let x1 = send_frame (SubDepth s) (c, Some budget);
               x2 = (if wc_has_deal c then send_frame (SubDeal s) x1 else x1)
           in case x2 of
                (c2, None) \<Rightarrow> (c2, SendRaised)
              | (c2, Some n) \<Rightarrow>
                  ((note_subscribed s c2)\<lparr>wc_symbols := (if s \<in> set (wc_symbols c2) then wc_symbols c2 else wc_symbols c2 @ [s])\<rparr>, Done True))"

definition ws_unsubscribe :: "nat \<Rightarrow> string \<Rightarrow> ws_client \<Rightarrow> ws_client \<times> sub_result" where
  "ws_unsubscribe budget s c =
     (if \<not> wc_socket c \<or> \<not> wc_running c then (c, Done False)
      else if s \<notin> wc_subscribed c then (c, Done False)
      else let x1 = send_frame (UnsubDepth s) (c, Some budget);
               x2 = (if wc_has_deal c then send_frame (UnsubDeal s) x1 else x1)
           in case x2 of
                (c2, None) \<Rightarrow> (c2, SendRaised)
              | (c2, Some n) \<Rightarrow> (c2\<lparr>wc_subscribed := wc_subscribed c2 - {s}, wc_symbols := remove1 s (wc_symbols c2)\<rparr>, Done True))"

definition ws_client_close :: "ws_client \<Rightarrow> ws_client" where
  "ws_client_close c = c\<lparr>wc_running := False, wc_reading := False, wc_pinging := False, wc_socket := False, wc_sent := [], wc_subscribed := {}\<rparr>"

section \<open>The exchange's view\<close>

text \<open>The feeds that are open after a sequence of frames.\<close>

fun feed :: "ws_frame \<Rightarrow> string set \<times> string set \<Rightarrow> string set \<times> string set" where
  "feed (SubDepth s) (d, t) = (insert s d, t)"
| "feed (SubDeal s) (d, t) = (d, insert s t)"
| "feed (UnsubDepth s) (d, t) = (d - {s}, t)"
| "feed (UnsubDeal s) (d, t) = (d, t - {s})"
| "feed PingFrame (d, t) = (d, t)"

definition open_feeds :: "ws_frame list \<Rightarrow> string set \<times> string set" where
  "open_feeds fs = fold feed fs ({}, {})"

lemma open_feeds_snoc: "open_feeds (fs @ [f]) = feed f (open_feeds fs)" "open_feeds (fs @ [f, g]) = feed g (feed f (open_feeds fs))"
  by (simp_all add: open_feeds_def)

text \<open>Runs in which no send of a subscription raises.\<close>

inductive ws_client_run :: "ws_client \<Rightarrow> bool" where
  new: "ws_client_run (new_client symbols has_deal timeout)"
| connect: "ws_client_run c \<Longrightarrow> wc_subscribed c = {} \<Longrightarrow> ws_client_connect budget now c = (c', True) \<Longrightarrow> ws_client_run c'"
| read: "ws_client_run c \<Longrightarrow> ws_client_run (read_step now m c)"
| ping: "ws_client_run c \<Longrightarrow> ws_client_run (ping_step send_ok now c)"
| subscribe: "ws_client_run c \<Longrightarrow> ws_subscribe budget s c = (c', Done b) \<Longrightarrow> ws_client_run c'"
| unsubscribe: "ws_client_run c \<Longrightarrow> ws_unsubscribe budget s c = (c', Done b) \<Longrightarrow> ws_client_run c'"
| close: "ws_client_run c \<Longrightarrow> ws_client_run (ws_client_close c)"

definition wire_ok :: "ws_client \<Rightarrow> bool" where
  "wire_ok c \<longleftrightarrow> open_feeds (wc_sent c) = (wc_subscribed c, if wc_has_deal c then wc_subscribed c else {}) \<and> wc_subscribed c \<subseteq> set (wc_symbols c)"

lemma wire_frame:
  "wire_ok (c\<lparr>wc_last_msg := a\<rparr>) = wire_ok c" "wire_ok (c\<lparr>wc_last_data := a\<rparr>) = wire_ok c" "wire_ok (c\<lparr>wc_calls := cs\<rparr>) = wire_ok c"
  "wire_ok (c\<lparr>wc_reading := b\<rparr>) = wire_ok c" "wire_ok (c\<lparr>wc_pinging := b\<rparr>) = wire_ok c" "wire_ok (c\<lparr>wc_running := b\<rparr>) = wire_ok c"
  by (simp_all add: wire_ok_def)

lemma wire_read: "wire_ok c \<Longrightarrow> wire_ok (read_step now m c)"
  by (simp add: read_step_def ws_handle_message_def wire_frame Let_def split: ws_msg.split option.split)

lemma wire_ping: "wire_ok c \<Longrightarrow> wire_ok (ping_step send_ok now c)"
  by (auto simp: ping_step_def wire_frame) (auto simp: wire_ok_def open_feeds_snoc split_paired_all)

lemma send_frame_Some: "send_frame f (c, b) = (c', Some n) \<longleftrightarrow> b = Some (Suc n) \<and> c' = c\<lparr>wc_sent := wc_sent c @ [f]\<rparr>"
  by (auto simp: send_frame_def split: option.splits nat.splits)

lemma send_frame_simps [simp]:
  "send_frame f (c, None) = (c, None)" "send_frame f (c, Some 0) = (c, None)"
  "send_frame f (c, Some (Suc k)) = (c\<lparr>wc_sent := wc_sent c @ [f]\<rparr>, Some k)"
  by (simp_all add: send_frame_def)

lemma fold_raised: "fold (\<lambda>s x. send_frame (g s) x) ss (c, None) = (c, None)"
  by (induction ss) simp_all

lemma fold_raised_depth: "fold (\<lambda>s x. on_ok (note_subscribed s) (send_frame (g s) x)) ss (c, None) = (c, None)"
  by (induction ss) (simp_all add: on_ok_def)

lemma connect_depths:
  "fold (\<lambda>s x. on_ok (note_subscribed s) (send_frame (SubDepth s) x)) ss (c, Some b) = (c', Some n) \<Longrightarrow>
   open_feeds (wc_sent c) = (wc_subscribed c, D) \<Longrightarrow>
   open_feeds (wc_sent c') = (wc_subscribed c', D) \<and> wc_subscribed c' = wc_subscribed c \<union> set ss \<and> wc_symbols c' = wc_symbols c \<and> wc_has_deal c' = wc_has_deal c"
proof (induction ss arbitrary: c b)
  case (Cons s ss)
  show ?case
  proof (cases b)
    case 0
    then show ?thesis using Cons.prems(1) by (simp add: on_ok_def [of _ "(c, None)"] fold_raised_depth)
  next
    case (Suc k)
    let ?c = "note_subscribed s (c\<lparr>wc_sent := wc_sent c @ [SubDepth s]\<rparr>)"
    have "open_feeds (wc_sent ?c) = (wc_subscribed ?c, D)" using Cons.prems(2) by (simp add: note_subscribed_def open_feeds_snoc)
    moreover have "fold (\<lambda>s x. on_ok (note_subscribed s) (send_frame (SubDepth s) x)) ss (?c, Some k) = (c', Some n)"
      using Cons.prems(1) Suc by (simp add: on_ok_def [of _ "(_, Some k)"])
    ultimately show ?thesis using Cons.IH by (fastforce simp: note_subscribed_def)
  qed
qed simp

lemma connect_deals:
  "fold (\<lambda>s x. send_frame (SubDeal s) x) ss (c, Some b) = (c', Some n) \<Longrightarrow> open_feeds (wc_sent c) = (D, T) \<Longrightarrow>
   open_feeds (wc_sent c') = (D, T \<union> set ss) \<and> wc_subscribed c' = wc_subscribed c \<and> wc_symbols c' = wc_symbols c \<and> wc_has_deal c' = wc_has_deal c"
proof (induction ss arbitrary: c b T)
  case (Cons s ss)
  show ?case
  proof (cases b)
    case 0
    then show ?thesis using Cons.prems(1) by (simp add: fold_raised)
  next
    case (Suc k)
    let ?c = "c\<lparr>wc_sent := wc_sent c @ [SubDeal s]\<rparr>"
    have "open_feeds (wc_sent ?c) = (D, insert s T)" using Cons.prems(2) by (simp add: open_feeds_snoc)
    moreover have "fold (\<lambda>s x. send_frame (SubDeal s) x) ss (?c, Some k) = (c', Some n)"
      using Cons.prems(1) Suc by simp
    ultimately show ?thesis using Cons.IH [of ?c k "insert s T"] by simp
  qed
qed simp

lemma wire_connect:
  assumes "ws_client_connect budget now c = (c', True)" and "wc_subscribed c = {}"
  shows "wire_ok c'"
proof -
  let ?c0 = "c\<lparr>wc_socket := True, wc_sent := []\<rparr>"
  obtain c1 b1 where x1: "fold (\<lambda>s x. on_ok (note_subscribed s) (send_frame (SubDepth s) x)) (wc_symbols c) (?c0, Some budget) = (c1, b1)" by force
  show ?thesis
  proof (cases b1)
    case None
    then show ?thesis using assms(1) x1 by (simp add: ws_client_connect_def Let_def fold_raised split: if_splits)
  next
    case (Some n1)
    have "open_feeds (wc_sent ?c0) = (wc_subscribed ?c0, {})" using assms(2) by (simp add: open_feeds_def)
    from connect_depths [OF x1 [unfolded Some] this] have c1: "open_feeds (wc_sent c1) = (set (wc_symbols c), {})"
      "wc_subscribed c1 = set (wc_symbols c)" "wc_symbols c1 = wc_symbols c" "wc_has_deal c1 = wc_has_deal c" using assms(2) by simp_all
    show ?thesis
    proof (cases "wc_has_deal c")
      case False
      then show ?thesis using assms(1) x1 Some c1 by (auto simp: ws_client_connect_def Let_def wire_ok_def)
    next
      case True
      obtain c2 b2 where x2: "fold (\<lambda>s x. send_frame (SubDeal s) x) (wc_symbols c) (c1, Some n1) = (c2, b2)" by force
      then obtain n2 where n2: "b2 = Some n2" using assms(1) x1 Some True by (cases b2) (simp_all add: ws_client_connect_def Let_def)
      from connect_deals [OF x2 [unfolded n2] c1(1)] have c2: "open_feeds (wc_sent c2) = (set (wc_symbols c), set (wc_symbols c))"
        "wc_subscribed c2 = set (wc_symbols c)" "wc_symbols c2 = wc_symbols c" "wc_has_deal c2 = wc_has_deal c"
        using c1 by simp_all
      then show ?thesis using assms(1) x1 x2 Some n2 True by (auto simp: ws_client_connect_def Let_def wire_ok_def)
    qed
  qed
qed

lemma wire_subscribe: "wire_ok c \<Longrightarrow> ws_subscribe budget s c = (c', Done b) \<Longrightarrow> wire_ok c'"
  by (auto simp: ws_subscribe_def wire_ok_def note_subscribed_def open_feeds_snoc send_frame_def Let_def split: if_splits option.splits nat.splits)

lemma wire_unsubscribe: "wire_ok c \<Longrightarrow> ws_unsubscribe budget s c = (c', Done b) \<Longrightarrow> wire_ok c'"
  by (auto simp: ws_unsubscribe_def wire_ok_def open_feeds_snoc send_frame_def Let_def split: if_splits option.splits nat.splits)

lemma wire_run: "ws_client_run c \<Longrightarrow> wire_ok c"
proof (induction rule: ws_client_run.induct)
  case (new symbols has_deal timeout)
  then show ?case by (simp add: wire_ok_def new_client_def open_feeds_def)
next
  case (connect c budget now c')
  then show ?case using wire_connect by blast
next
  case (close c)
  then show ?case by (simp add: wire_ok_def ws_client_close_def open_feeds_def)
qed (blast intro: wire_read wire_ping wire_subscribe wire_unsubscribe)+

text \<open>C25: as long as no send of a subscription raises and a client is closed before it is connected again, the depth feeds that the
  exchange has been asked for on the current connection, and with a callback for trades the trade feeds, are exactly those of the
  symbols the client counts as subscribed, all of which it would ask for again after a reconnection.\<close>

theorem ws_wire_matches:
  assumes "ws_client_run c"
  shows "open_feeds (wc_sent c) = (wc_subscribed c, if wc_has_deal c then wc_subscribed c else {}) \<and> wc_subscribed c \<subseteq> set (wc_symbols c)"
  using wire_run [OF assms] by (simp add: wire_ok_def)

lemma ws_wire_matches_witness:
  "let c = fst (ws_unsubscribe 2 ''A'' (fst (ws_subscribe 2 ''B'' (fst (ws_client_connect 2 0 (new_client [''A''] True 30))))))
   in open_feeds (wc_sent c) = ({''B''}, {''B''})"
proof -
  let ?c1 = "fst (ws_client_connect 2 0 (new_client [''A''] True 30))"
  let ?c2 = "fst (ws_subscribe 2 ''B'' ?c1)"
  let ?c3 = "fst (ws_unsubscribe 2 ''A'' ?c2)"
  have c1: "ws_client_connect 2 0 (new_client [''A''] True 30) = (?c1, True)" "wc_socket ?c1" "wc_running ?c1" "wc_has_deal ?c1" "wc_subscribed ?c1 = {''A''}"
    by (simp_all add: ws_client_connect_def new_client_def on_ok_def note_subscribed_def numeral_2_eq_2)
  have c2: "ws_subscribe 2 ''B'' ?c1 = (?c2, Done True)" "wc_socket ?c2" "wc_running ?c2" "wc_has_deal ?c2" "wc_subscribed ?c2 = {''A'', ''B''}"
    using c1(2-) by (auto simp: ws_subscribe_def note_subscribed_def numeral_2_eq_2)
  have c3: "ws_unsubscribe 2 ''A'' ?c2 = (?c3, Done True)" "wc_has_deal ?c3" "wc_subscribed ?c3 = {''B''}"
    using c2(2-) by (auto simp: ws_unsubscribe_def numeral_2_eq_2)
  have "ws_client_run ?c1" by (rule ws_client_run.connect [OF ws_client_run.new _ c1(1)]) (simp add: new_client_def)
  from ws_client_run.unsubscribe [OF ws_client_run.subscribe [OF this c2(1)] c3(1)] have "ws_client_run ?c3" .
  from ws_wire_matches [OF this] show ?thesis using c3(2,3) by (simp add: Let_def)
qed

section \<open>What goes wrong\<close>

text \<open>An \<^verbatim>\<open>unsubscribe\<close> whose second frame cannot be sent leaves a symbol without depth that still counts as subscribed and is not subscribed
  again.\<close>

lemma ws_dark_symbol:
  assumes "wire_ok c" and "wc_socket c" and "wc_running c" and "wc_has_deal c" and "s \<in> wc_subscribed c"
  defines "c' \<equiv> fst (ws_unsubscribe 1 s c)"
  shows "ws_unsubscribe 1 s c = (c', SendRaised) \<and> s \<notin> fst (open_feeds (wc_sent c')) \<and> s \<in> wc_subscribed c' \<and> ws_subscribe n s c' = (c', Done False)"
  using assms(2-5) unfolding c'_def by (simp add: ws_unsubscribe_def ws_subscribe_def open_feeds_snoc wire_ok_def) (use assms(1) in \<open>simp add: wire_ok_def\<close>)

text \<open>A message that is no dictionary ends the read loop of a client that goes on counting as running.\<close>

lemma ws_deaf:
  assumes "wc_socket c" and "wc_reading c" shows "\<not> wc_reading (read_step now NoDict c) \<and> wc_running (read_step now NoDict c) = wc_running c"
  using assms by (simp add: read_step_def ws_handle_message_def)

definition is_push :: "ws_msg \<Rightarrow> bool" where
  "is_push m = (case m of PushDepth s ok \<Rightarrow> True | PushDeal s ok \<Rightarrow> True | _ \<Rightarrow> False)"

lemma read_no_push:
  "list_all (\<lambda>(t, m). \<not> is_push m) ms \<Longrightarrow> wc_last_data c \<noteq> 0 \<Longrightarrow>
   wc_last_data (fold (\<lambda>(t, m). read_step t m) ms c) = wc_last_data c \<and> wc_pinging (fold (\<lambda>(t, m). read_step t m) ms c) = wc_pinging c"
proof (induction ms arbitrary: c)
  case (Cons x ms)
  obtain t m where x: "x = (t, m)" by force
  have "wc_last_data (read_step t m c) = wc_last_data c" "wc_pinging (read_step t m c) = wc_pinging c"
    using Cons.prems x by (cases m; simp add: read_step_def ws_handle_message_def is_push_def)+
  then show ?case using Cons x by simp
qed simp

text \<open>Lemma: the time of the last data outlives a connection: a client that is closed and connected again more than a minute after
  its last push shuts itself down at its first check, whatever else it has received, unless a push came before it; from then on
  it refuses every subscription.\<close>

theorem ws_starves_again:
  fixes send_ok :: bool and now t :: rat and c :: ws_client
  assumes "0 < wc_last_data c" and "ws_client_connect budget now (ws_client_close c) = (c1, True)"
    and "list_all (\<lambda>(t, m). \<not> is_push m) ms" and "60 < fsub t (wc_last_data c)"
  defines "c2 \<equiv> ping_step send_ok t (fold (\<lambda>(t, m). read_step t m) ms c1)"
  shows "\<not> wc_running c2 \<and> \<not> wc_pinging c2 \<and> ws_subscribe n s c2 = (c2, Done False)"
proof -
  have k: "wc_last_data (fst (fold (\<lambda>s x. on_ok (note_subscribed s) (send_frame (SubDepth s) x)) ss x)) = wc_last_data (fst x)" for ss x
  proof (induction ss arbitrary: x)
    case (Cons s ss)
    have "wc_last_data (fst (on_ok (note_subscribed s) (send_frame (SubDepth s) x))) = wc_last_data (fst x)"
      by (cases x) (simp add: on_ok_def send_frame_def note_subscribed_def split: option.split nat.split)
    then show ?case using Cons by simp
  qed simp
  have k2: "wc_last_data (fst (fold (\<lambda>s x. send_frame (SubDeal s) x) ss x)) = wc_last_data (fst x)" for ss x
  proof (induction ss arbitrary: x)
    case (Cons s ss)
    have "wc_last_data (fst (send_frame (SubDeal s) x)) = wc_last_data (fst x)"
      by (cases x) (simp add: send_frame_def split: option.split nat.split)
    then show ?case using Cons by simp
  qed simp
  have "wc_last_data c1 = wc_last_data c \<and> wc_pinging c1"
  proof -
    let ?x1 = "fold (\<lambda>s x. on_ok (note_subscribed s) (send_frame (SubDepth s) x)) (wc_symbols (ws_client_close c)) ((ws_client_close c)\<lparr>wc_socket := True, wc_sent := []\<rparr>, Some budget)"
    let ?x2 = "if wc_has_deal (ws_client_close c) then fold (\<lambda>s x. send_frame (SubDeal s) x) (wc_symbols (ws_client_close c)) ?x1 else ?x1"
    obtain d n where x2: "?x2 = (d, Some n)" "c1 = d\<lparr>wc_running := True, wc_last_msg := now, wc_reading := True, wc_pinging := True\<rparr>"
      using assms(2) unfolding ws_client_connect_def Let_def by (auto split: prod.splits option.splits)
    have "wc_last_data (fst ?x2) = wc_last_data c" by (simp add: k k2 ws_client_close_def)
    then show ?thesis using x2 by simp
  qed
  then have c1: "wc_last_data c1 = wc_last_data c" "wc_pinging c1" by simp_all
  then show ?thesis using read_no_push [OF assms(3), of c1] assms(1,4) unfolding c2_def by (simp add: ping_step_def ws_subscribe_def)
qed

lemma ws_starves_again_witness:
  "\<not> wc_running (ping_step True 100 (fst (ws_client_connect 1 95 (ws_client_close (read_step 1 (PushDepth (Some ''A'') True)
     (fst (ws_client_connect 1 0 (new_client [''A''] False 30))))))))"
proof -
  let ?c = "read_step 1 (PushDepth (Some ''A'') True) (fst (ws_client_connect 1 0 (new_client [''A''] False 30)))"
  have d: "wc_last_data ?c = 1" and s: "wc_symbols ?c = [''A'']" "\<not> wc_has_deal ?c"
    by (simp_all add: read_step_def ws_client_connect_def new_client_def on_ok_def note_subscribed_def ws_handle_message_def)
  have "ws_client_connect 1 95 (ws_client_close ?c) = (fst (ws_client_connect 1 95 (ws_client_close ?c)), True)"
    using s by (simp add: ws_client_connect_def ws_client_close_def on_ok_def note_subscribed_def)
  moreover have "60 < fsub 100 (wc_last_data ?c)" by (simp add: d) code_simp
  ultimately show ?thesis using ws_starves_again [of ?c 1 95 _ "[]" 100 True] d by simp
qed

end
