(* ===== verification/Dashboard.thy ===== *)
theory Dashboard
  imports Sqlite_Writer Observation Alert_Agent Equity_Tracker
begin

text \<open>
  \<^verbatim>\<open>src/dashboard/routes.py\<close> and \<^verbatim>\<open>src/dashboard/app.py\<close>: what the endpoints answer from the databases of the writer, the observation phase
  and the alert agent, the buffer of server-sent events, and who is let in. Requests are records of what the code reads of
  them; clocks, the outcome of queries, \<^verbatim>\<open>int\<close> of a text and \<^verbatim>\<open>json.dumps\<close> are inputs. The web server itself is left out.
\<close>

section \<open>Configuration and state\<close>

record routes_config =
  auth_token :: string
  sse_throttle_normal_ms :: int
  sse_throttle_emergency_ms :: int
  replay_buffer_size :: int
  alive_threshold_pct :: rat
  equity_window_ms :: int
  equity_max_points :: int

definition default_routes_config :: routes_config where
  "default_routes_config = \<lparr>auth_token = '''', sse_throttle_normal_ms = 1000, sse_throttle_emergency_ms = 100, replay_buffer_size = 100,
     alive_threshold_pct = 8 / 10, equity_window_ms = 24 * 3600 * 1000, equity_max_points = 2000\<rparr>"

datatype sse_data = Pushed string | KeepaliveTs int

record sse_event =
  se_id :: int
  se_event :: string
  se_data :: sse_data

record dash =
  ds_buffer :: "sse_event list"
  ds_counter :: int

definition new_dash :: dash where "new_dash = \<lparr>ds_buffer = [], ds_counter = 0\<rparr>"

definition validate_token :: "routes_config \<Rightarrow> string \<Rightarrow> bool" where
  "validate_token cfg token = (if auth_token cfg = [] then True else token = auth_token cfg)"

section \<open>Answers\<close>

text \<open>\<^verbatim>\<open>is_observation_stopped\<close> and the poll of \<^verbatim>\<open>health\<close>: an error counts as not stopped.\<close>

definition is_observation_stopped :: "obs_db option \<Rightarrow> bool" where
  "is_observation_stopped conn =
     (case conn of None \<Rightarrow> False | Some db \<Rightarrow> (case poll_stop_flag db of Inl e \<Rightarrow> False | Inr b \<Rightarrow> b))"

record health_body =
  hb_status :: string
  hb_open_positions :: int
  hb_uptime_s :: rat
  hb_alive_pct :: rat

definition open_row :: "sql_row \<Rightarrow> bool" where
  "open_row r \<longleftrightarrow> col r ''status'' \<in> {SText ''open'', SText ''partial''}"

definition count_rows :: "(sql_row \<Rightarrow> bool) \<Rightarrow> tables \<Rightarrow> sql list list" where
  "count_rows p t = [[SInt (int (length (filter p (tb_positions t))))]]"

text \<open>\<^verbatim>\<open>int(rows[0][0]) if rows else 0\<close>.\<close>

definition first_int :: "sql list list \<Rightarrow> int" where
  "first_int q = (case q of (SInt n # _) # _ \<Rightarrow> n | _ \<Rightarrow> 0)"

text \<open>The status and the body; \<open>None\<close> is the body of an error.\<close>

definition health :: "bool \<Rightarrow> rat \<Rightarrow> obs_db option \<Rightarrow> writer \<Rightarrow> int \<times> health_body option" where
  "health ok uptime conn w =
     (case fetch ok (count_rows open_row) w of
        None \<Rightarrow> (503, None)
      | Some q \<Rightarrow> (200, Some \<lparr>hb_status = (if is_observation_stopped conn then ''observation_stopped'' else ''ok''),
                             hb_open_positions = first_int q, hb_uptime_s = round_digits 1 uptime, hb_alive_pct = 1\<rparr>))"

text \<open>A row as a dictionary: the names of its columns, and which of them become truth values. A row that is too short raises.\<close>

definition dash_row :: "(string \<times> bool) list \<Rightarrow> sql list \<Rightarrow> (string \<times> obs_value) list option" where
  "dash_row fs r =
     (if length r < length fs then None else Some (map2 (\<lambda>(n, b) v. (n, if b then Flag (sql_truthy v) else Value v)) fs r))"

definition open_fields :: "(string \<times> bool) list" where
  "open_fields = [(''position_id'', False), (''symbol'', False), (''side'', False), (''opened_at_ms'', False), (''avg'', False), (''qty_open'', False),
     (''qty_remaining'', False), (''current_tp_shifted'', False), (''current_sl_shifted'', False), (''be_active'', True),
     (''trailing_active'', True), (''whale_trust_score'', False), (''universe_status'', False), (''version'', False), (''emergency_pending'', True)]"

definition closed_fields :: "(string \<times> bool) list" where
  "closed_fields = [(''position_id'', False), (''symbol'', False), (''side'', False), (''opened_at_ms'', False), (''closed_at_ms'', False),
     (''close_reason'', False), (''avg'', False), (''realized_pnl'', False), (''fee_total'', False), (''r_multiple'', False)]"

definition row_to_position :: "sql list \<Rightarrow> bool \<Rightarrow> (string \<times> obs_value) list option" where
  "row_to_position r is_open = dash_row (if is_open then open_fields else closed_fields) r"

definition dash_positions ::
  "bool \<Rightarrow> bool \<Rightarrow> int \<Rightarrow> writer \<Rightarrow> ((string \<times> obs_value) list list \<times> (string \<times> obs_value) list list) option" where
  "dash_positions ok1 ok2 limit w =
     (case (list_open_positions ok1 w, list_closed_positions ok2 limit w) of
        (Some os, Some cs) \<Rightarrow>
          (case (those (map (\<lambda>r. row_to_position r True) os), those (map (\<lambda>r. row_to_position r False) cs)) of
             (Some ol, Some cl) \<Rightarrow> Some (ol, cl)
           | _ \<Rightarrow> None)
      | _ \<Rightarrow> None)"

definition whale_fields :: "(string \<times> bool) list" where
  "whale_fields = [(''id'', False), (''symbol'', False), (''band_key'', False), (''price'', False), (''oi_delta_usd'', False), (''fill_ratio'', False),
     (''order_lifetime_ms'', False), (''is_real'', True), (''is_spoof'', True), (''trust_score'', False), (''exchange_ts_ms'', False),
     (''created_at_ms'', False)]"

definition whales :: "bool \<Rightarrow> int \<Rightarrow> writer \<Rightarrow> (string \<times> obs_value) list list option" where
  "whales ok limit w =
     (case list_recent_whales ok limit w of None \<Rightarrow> None | Some q \<Rightarrow> those (map (dash_row whale_fields) q))"

definition equity_fields :: "(string \<times> bool) list" where
  "equity_fields = [(''ts_ms'', False), (''balance'', False), (''equity'', False), (''unrealized_pnl'', False), (''realized_today'', False),
     (''drawdown_pct'', False), (''open_positions'', False)]"

text \<open>The points and the latest of them.\<close>

definition dash_equity ::
  "routes_config \<Rightarrow> bool \<Rightarrow> int \<Rightarrow> writer \<Rightarrow> ((string \<times> obs_value) list list \<times> (string \<times> obs_value) list option) option" where
  "dash_equity cfg ok now_ms w =
     (case list_equity_snapshots ok (now_ms - equity_window_ms cfg) (equity_max_points cfg) w of
        None \<Rightarrow> None
      | Some q \<Rightarrow> map_option (\<lambda>ps. (ps, if ps = [] then None else Some (last ps))) (those (map (dash_row equity_fields) q)))"

section \<open>Profit and loss\<close>

record pnl_sums =
  ps_wins :: int
  ps_losses :: int
  ps_pnl :: rat
  ps_fees :: rat
  ps_r_sum :: rat
  ps_r_count :: int

definition no_pnl :: pnl_sums where
  "no_pnl = \<lparr>ps_wins = 0, ps_losses = 0, ps_pnl = 0, ps_fees = 0, ps_r_sum = 0, ps_r_count = 0\<rparr>"

text \<open>\<^verbatim>\<open>float(x)\<close> of a value that is not \<^verbatim>\<open>None\<close>; a text is taken to be no number.\<close>

definition float_value :: "sql \<Rightarrow> rat option" where
  "float_value v = (case v of SInt n \<Rightarrow> Some (rnd (of_int n)) | SReal r \<Rightarrow> Some r | _ \<Rightarrow> None)"

definition add_closed :: "sql list \<Rightarrow> pnl_sums \<Rightarrow> pnl_sums option" where
  "add_closed r s =
     (case (float_or_zero (r ! 7), float_or_zero (r ! 8)) of
        (Some pnl, Some fee) \<Rightarrow>
          (let s1 = s\<lparr>ps_pnl := fadd (ps_pnl s) pnl, ps_fees := fadd (ps_fees s) fee,
                      ps_wins := (if 0 < pnl then ps_wins s + 1 else ps_wins s), ps_losses := (if pnl < 0 then ps_losses s + 1 else ps_losses s)\<rparr>
           in Some (case float_value (r ! 9) of
                      None \<Rightarrow> s1
                    | Some x \<Rightarrow> s1\<lparr>ps_r_sum := fadd (ps_r_sum s1) x, ps_r_count := ps_r_count s1 + 1\<rparr>))
      | _ \<Rightarrow> None)"

fun sum_closed :: "sql list list \<Rightarrow> pnl_sums \<Rightarrow> pnl_sums option" where
  "sum_closed [] s = Some s"
| "sum_closed (r # rs) s = (case add_closed r s of None \<Rightarrow> None | Some s' \<Rightarrow> sum_closed rs s')"

definition daily_fields :: "(string \<times> bool) list" where
  "daily_fields = [(''date_utc'', False), (''start_equity'', False), (''end_equity'', False), (''realized_pnl'', False), (''fees'', False),
     (''trades_count'', False), (''win_count'', False), (''loss_count'', False)]"

record pnl_body =
  pb_today :: "(string \<times> obs_value) list option"
  pb_total_pnl :: rat
  pb_total_fees :: rat
  pb_wins :: int
  pb_losses :: int
  pb_trades :: int
  pb_win_rate :: rat
  pb_avg_r_multiple :: rat

definition pnl :: "bool \<Rightarrow> bool \<Rightarrow> string \<Rightarrow> writer \<Rightarrow> pnl_body option" where
  "pnl ok1 ok2 today w =
     (case (get_daily_stats ok1 today w, list_closed_positions ok2 500 w) of
        (Some day, Some cs) \<Rightarrow>
          (case sum_closed cs no_pnl of
             None \<Rightarrow> None
           | Some s \<Rightarrow>
               (let trades = ps_wins s + ps_losses s;
                    win_rate = (if 0 < trades then rnd (of_int (ps_wins s) / of_int trades) else 0);
                    avg_r = (if 0 < ps_r_count s then fdiv (ps_r_sum s) (of_int (ps_r_count s)) else 0);
                    body = (\<lambda>d. \<lparr>pb_today = d, pb_total_pnl = ps_pnl s, pb_total_fees = ps_fees s, pb_wins = ps_wins s, pb_losses = ps_losses s,
                       pb_trades = trades, pb_win_rate = round_digits 4 win_rate, pb_avg_r_multiple = round_digits 3 avg_r\<rparr>)
                in case day of
                     None \<Rightarrow> Some (body None)
                   | Some r \<Rightarrow> (case dash_row daily_fields r of None \<Rightarrow> None | Some d \<Rightarrow> Some (body (Some d)))))
      | _ \<Rightarrow> None)"

text \<open>The uptime and the number of positions; the other numbers of the answer are constant.\<close>

definition dash_metrics :: "bool \<Rightarrow> rat \<Rightarrow> writer \<Rightarrow> (rat \<times> int) option" where
  "dash_metrics ok uptime w =
     map_option (\<lambda>q. (round_digits 1 uptime, first_int q)) (fetch ok (count_rows (\<lambda>r. True)) w)"

section \<open>Server-sent events\<close>

text \<open>\<^verbatim>\<open>xs[-n:]\<close>.\<close>

definition slice_last :: "int \<Rightarrow> 'a list \<Rightarrow> 'a list" where
  "slice_last n xs = (if 0 < n then take_last (nat n) xs else drop (nat (- n)) xs)"

definition push_event :: "routes_config \<Rightarrow> string \<Rightarrow> string \<Rightarrow> dash \<Rightarrow> dash" where
  "push_event cfg event_type d s =
     (let i = ds_counter s + 1; b = ds_buffer s @ [\<lparr>se_id = i, se_event = event_type, se_data = Pushed d\<rparr>]
      in \<lparr>ds_buffer = (if replay_buffer_size cfg < int (length b) then slice_last (replay_buffer_size cfg) b else b), ds_counter = i\<rparr>)"

fun replay_loop :: "int \<Rightarrow> int \<Rightarrow> sse_event list \<Rightarrow> nat \<Rightarrow> sse_event list" where
  "replay_loop limit last_id [] n = []"
| "replay_loop limit last_id (ev # evs) n =
     (if last_id < se_id ev then (if limit \<le> int (n + 1) then [ev] else ev # replay_loop limit last_id evs (n + 1))
      else replay_loop limit last_id evs n)"

definition replay_events :: "routes_config \<Rightarrow> int \<Rightarrow> dash \<Rightarrow> sse_event list" where
  "replay_events cfg last_id s = replay_loop (replay_buffer_size cfg) last_id (ds_buffer s) 0"

text \<open>What a client gets when it connects; \<open>None\<close> is the \<^verbatim>\<open>PermissionError\<close>. Afterwards it gets one event per turn of the loop.\<close>

definition sse_connect :: "routes_config \<Rightarrow> int option \<Rightarrow> string \<Rightarrow> dash \<Rightarrow> sse_event list option" where
  "sse_connect cfg last_id token s =
     (if \<not> validate_token cfg token then None
      else Some (case last_id of None \<Rightarrow> [] | Some n \<Rightarrow> replay_events cfg n s))"

definition sse_keepalive :: "int \<Rightarrow> dash \<Rightarrow> dash \<times> sse_event" where
  "sse_keepalive now_ms s =
     (s\<lparr>ds_counter := ds_counter s + 1\<rparr>, \<lparr>se_id = ds_counter s + 1, se_event = ''keepalive'', se_data = KeepaliveTs now_ms\<rparr>)"

section \<open>Alerts and observation\<close>

record alert_view =
  av_id :: nat
  av_ts_ms :: int
  av_event_type :: string
  av_severity :: severity
  av_symbol :: "string option"
  av_delivery_status :: status
  av_correlation_id :: string
  av_attempts :: int
  av_last_error :: "string option"

definition view_alert :: "alert_row \<Rightarrow> alert_view" where
  "view_alert r = \<lparr>av_id = ar_id r, av_ts_ms = ar_ts_ms r, av_event_type = ar_event_type r, av_severity = ar_severity r, av_symbol = ar_symbol r,
     av_delivery_status = ar_status r, av_correlation_id = ar_correlation_id r, av_attempts = ar_attempts r, av_last_error = ar_last_error r\<rparr>"

definition alert_history :: "bool \<Rightarrow> int \<Rightarrow> agent option \<Rightarrow> alert_view list option" where
  "alert_history ok limit ag =
     (case ag of
        None \<Rightarrow> None
      | Some a \<Rightarrow> if ok then Some (map view_alert (sql_limit limit (rev (sort_key ar_id (rows a))))) else None)"

record alert_status_body =
  as_breaker_state :: breaker
  as_breaker_consecutive_fails :: int
  as_pending :: int
  as_channels :: "bool \<times> bool"
  as_metrics :: alert_metrics

definition alert_status :: "bool \<Rightarrow> alert_config \<Rightarrow> agent option \<Rightarrow> alert_status_body option" where
  "alert_status ok cfg ag =
     map_option (\<lambda>a. \<lparr>as_breaker_state = breaker_state a, as_breaker_consecutive_fails = breaker_consecutive_fails a,
       as_pending = (if ok then int (length (filter (\<lambda>r. ar_status r = Pending) (rows a))) else 0),
       as_channels = (telegram_enabled cfg, discord_enabled cfg), as_metrics = metrics a\<rparr>) ag"

definition test_payload :: "int \<Rightarrow> payload" where
  "test_payload now_ms = \<lparr>pl_symbol = Some ''TEST'', pl_reason = Some ''manual_test_button'', pl_ts_ms = Some now_ms, pl_source = Some ''dashboard'',
     pl_source_seq = None, pl_correlation_id = None, pl_exchange_ts_ms = None\<rparr>"

definition alert_test :: "alert_config \<Rightarrow> int \<Rightarrow> agent option \<Rightarrow> agent option \<times> nat option" where
  "alert_test cfg now_ms ag =
     (case ag of
        None \<Rightarrow> (None, None)
      | Some a \<Rightarrow> (let (a', i) = emit_alert cfg ''CRITICAL_ALERT'' (test_payload now_ms) now_ms a in (Some a', Some i)))"

text \<open>The status and the fields; \<open>None\<close> is an error.\<close>

definition flag_of :: "(string \<times> obs_value) list \<Rightarrow> string \<Rightarrow> bool" where
  "flag_of st c = (map_of st c = Some (Flag True))"

definition observation :: "obs_db option \<Rightarrow> (string \<times> (string \<times> obs_value) list) option" where
  "observation conn =
     (case conn of
        None \<Rightarrow> None
      | Some db \<Rightarrow>
          (case load_state db of
             Inl e \<Rightarrow> None
           | Inr st \<Rightarrow> Some (if flag_of st ''observation_stop'' then ''stopped''
                             else if flag_of st ''auto_finalize_done'' then ''completed'' else ''active'', st)))"

section \<open>Requests\<close>

record request =
  rq_method :: string
  rq_path :: string
  rq_authorization :: string
  rq_query :: "(string, string) dict"

definition lower :: "char \<Rightarrow> char" where
  "lower c = (if CHR ''A'' \<le> c \<and> c \<le> CHR ''Z'' then char_of (of_char c + 32 :: nat) else c)"

definition blank :: "char \<Rightarrow> bool" where
  "blank c \<longleftrightarrow> c \<in> {CHR '' '', CHR 0x09, CHR 0x0A, CHR 0x0B, CHR 0x0C, CHR 0x0D, CHR 0x1C, CHR 0x1D, CHR 0x1E, CHR 0x1F, CHR 0x85, CHR 0xA0}"

definition strip :: "string \<Rightarrow> string" where
  "strip s = rev (dropWhile blank (rev (dropWhile blank s)))"

definition sse_path :: string where "sse_path = ''/api/v2/sse''"

definition query :: "request \<Rightarrow> string \<Rightarrow> string \<Rightarrow> string" where
  "query rq k d = (case dget (rq_query rq) k of None \<Rightarrow> d | Some v \<Rightarrow> v)"

definition extract_token :: "request \<Rightarrow> string" where
  "extract_token rq =
     (let auth = rq_authorization rq
      in if auth \<noteq> [] then (if map lower (take 7 auth) = ''bearer '' then strip (drop 7 auth) else strip auth)
         else if rq_path rq = sse_path then query rq ''token'' '''' else '''')"

datatype gate = Handled | Unauthorized | Stopped

definition auth_middleware :: "routes_config \<Rightarrow> obs_db option \<Rightarrow> request \<Rightarrow> gate" where
  "auth_middleware cfg conn rq =
     (if rq_path rq = ''/'' \<or> take 8 (rq_path rq) = ''/static/'' then Handled
      else if rq_path rq = sse_path then Handled
      else if \<not> validate_token cfg (extract_token rq) then Unauthorized
      else if rq_method rq \<noteq> ''GET'' \<and> is_observation_stopped conn then Stopped
      else Handled)"

text \<open>\<^verbatim>\<open>int(request.query.get("limit", default))\<close>, with the default for a text that is no number.\<close>

definition limit_of :: "(string \<Rightarrow> int option) \<Rightarrow> int \<Rightarrow> request \<Rightarrow> int" where
  "limit_of parse d rq =
     (case dget (rq_query rq) ''limit'' of None \<Rightarrow> d | Some s \<Rightarrow> (case parse s of None \<Rightarrow> d | Some n \<Rightarrow> n))"

definition handle_alerts :: "(string \<Rightarrow> int option) \<Rightarrow> bool \<Rightarrow> request \<Rightarrow> agent option \<Rightarrow> alert_view list option" where
  "handle_alerts parse ok rq ag = alert_history ok (max 1 (min (limit_of parse 100 rq) 500)) ag"

definition handle_positions ::
  "(string \<Rightarrow> int option) \<Rightarrow> bool \<Rightarrow> bool \<Rightarrow> request \<Rightarrow> writer
   \<Rightarrow> ((string \<times> obs_value) list list \<times> (string \<times> obs_value) list list) option" where
  "handle_positions parse ok1 ok2 rq w = dash_positions ok1 ok2 (limit_of parse 100 rq) w"

definition handle_whales :: "(string \<Rightarrow> int option) \<Rightarrow> bool \<Rightarrow> request \<Rightarrow> writer \<Rightarrow> (string \<times> obs_value) list list option" where
  "handle_whales parse ok rq w = whales ok (limit_of parse 50 rq) w"

definition handle_sse :: "routes_config \<Rightarrow> (string \<Rightarrow> int option) \<Rightarrow> request \<Rightarrow> dash \<Rightarrow> sse_event list option" where
  "handle_sse cfg parse rq s =
     sse_connect cfg (case dget (rq_query rq) ''last_event_id'' of None \<Rightarrow> None | Some t \<Rightarrow> parse t) (query rq ''token'' '''') s"

definition format_sse :: "sse_event \<Rightarrow> string" where
  "format_sse ev =
     ''id: '' @ str_of_int (se_id ev) @ [CHR 0x0A] @ ''event: '' @ se_event ev @ [CHR 0x0A] @ ''data: ''
     @ (case se_data ev of Pushed json \<Rightarrow> json | KeepaliveTs n \<Rightarrow> ''{'' @ [CHR 0x22] @ ''ts'' @ [CHR 0x22] @ '': '' @ str_of_int n @ ''}'')
     @ [CHR 0x0A, CHR 0x0A]"

text \<open>The endpoints: a handler that is added for \<^verbatim>\<open>GET\<close> answers \<^verbatim>\<open>HEAD\<close> too.\<close>

definition routes :: "(string \<times> string) list" where
  "routes = concat (map (\<lambda>p. [(''GET'', p), (''HEAD'', p)]) [''/'', ''/api/v2/health'', ''/api/v2/positions'', ''/api/v2/whales'', ''/api/v2/equity'',
     ''/api/v2/pnl'', ''/api/v2/metrics'', ''/api/v2/alerts'', ''/api/v2/alerts/status'', ''/api/v2/observation'', ''/api/v2/sse'']) @ [(''POST'', ''/api/v2/alert_test'')]"

text \<open>The application as far as requests can change it: the alert agent, the events with their counter, and the event streams that are open,
  each with the request that opened it.\<close>

record server =
  sv_agent :: "agent option"
  sv_dash :: dash
  sv_streams :: "request list"

definition serve_request ::
  "routes_config \<Rightarrow> alert_config \<Rightarrow> (string \<Rightarrow> int option) \<Rightarrow> int \<Rightarrow> obs_db option \<Rightarrow> request \<Rightarrow> server \<Rightarrow> gate \<times> server" where
  "serve_request cfg acfg parse now_ms conn rq sv =
     (case auth_middleware cfg conn rq of
        Handled \<Rightarrow>
          (Handled,
           if (rq_method rq, rq_path rq) \<notin> set routes then sv
           else if rq_path rq = ''/api/v2/alert_test'' then sv\<lparr>sv_agent := fst (alert_test acfg now_ms (sv_agent sv))\<rparr>
           else if rq_path rq = sse_path \<and> handle_sse cfg parse rq (sv_dash sv) \<noteq> None then sv\<lparr>sv_streams := sv_streams sv @ [rq]\<rparr>
           else sv)
      | g \<Rightarrow> (g, sv))"

text \<open>A request, the end of an interval of an open stream, which sends a keepalive, and the end of a stream.\<close>

datatype server_event = Request request int "obs_db option" | Interval nat int | Disconnect nat

fun server_step :: "routes_config \<Rightarrow> alert_config \<Rightarrow> (string \<Rightarrow> int option) \<Rightarrow> server_event \<Rightarrow> server \<Rightarrow> server" where
  "server_step cfg acfg parse (Request rq now_ms conn) sv = snd (serve_request cfg acfg parse now_ms conn rq sv)"
| "server_step cfg acfg parse (Interval i now_ms) sv =
     (if i < length (sv_streams sv) then sv\<lparr>sv_dash := fst (sse_keepalive now_ms (sv_dash sv))\<rparr> else sv)"
| "server_step cfg acfg parse (Disconnect i) sv = sv\<lparr>sv_streams := take i (sv_streams sv) @ drop (Suc i) (sv_streams sv)\<rparr>"

text \<open>Any history of requests and streams; the agent works and telemetry is pushed at any time.\<close>

inductive server_reach :: "routes_config \<Rightarrow> alert_config \<Rightarrow> (string \<Rightarrow> int option) \<Rightarrow> server \<Rightarrow> bool" for cfg acfg parse where
  start: "server_reach cfg acfg parse \<lparr>sv_agent = ag, sv_dash = new_dash, sv_streams = []\<rparr>"
| event: "server_reach cfg acfg parse sv \<Longrightarrow> server_reach cfg acfg parse (server_step cfg acfg parse e sv)"
| works: "server_reach cfg acfg parse sv \<Longrightarrow> server_reach cfg acfg parse (sv\<lparr>sv_agent := ag\<rparr>)"
| telemetry: "server_reach cfg acfg parse sv \<Longrightarrow> server_reach cfg acfg parse (sv\<lparr>sv_dash := push_event cfg t d (sv_dash sv)\<rparr>)"

section \<open>Starting and stopping\<close>

record app_state =
  da_started :: bool
  da_app :: bool
  da_runner :: bool
  da_site :: bool

definition new_app :: app_state where "new_app = \<lparr>da_started = False, da_app = False, da_runner = False, da_site = False\<rparr>"

text \<open>The set-up of the runner and the start of the site may raise.\<close>

definition dash_start :: "bool \<Rightarrow> bool \<Rightarrow> app_state \<Rightarrow> app_state \<times> bool" where
  "dash_start setup_ok site_ok s =
     (if da_started s then (s, True)
      else let s1 = s\<lparr>da_app := True, da_runner := True\<rparr>
           in if \<not> setup_ok then (s1, False)
              else let s2 = s1\<lparr>da_site := True\<rparr> in if \<not> site_ok then (s2, False) else (s2\<lparr>da_started := True\<rparr>, True))"

definition dash_stop :: "app_state \<Rightarrow> app_state" where
  "dash_stop s = (if \<not> da_started s then s else new_app)"

section \<open>Who is let in\<close>

definition stream_admitted :: "routes_config \<Rightarrow> request \<Rightarrow> bool" where
  "stream_admitted cfg rq \<longleftrightarrow> rq_path rq = sse_path \<and> (auth_token cfg = [] \<or> query rq ''token'' '''' = auth_token cfg)"

lemma handle_sse_admitted: "handle_sse cfg parse rq s = Some evs \<Longrightarrow> auth_token cfg = [] \<or> query rq ''token'' '''' = auth_token cfg"
  by (auto simp: handle_sse_def sse_connect_def validate_token_def split: if_splits)

lemma streams_admitted: "server_reach cfg acfg parse sv \<Longrightarrow> list_all (stream_admitted cfg) (sv_streams sv)"
proof (induction rule: server_reach.induct)
  case (event sv e)
  then show ?case
    by (cases e) (auto simp: serve_request_def stream_admitted_def list_all_iff split: gate.split dest: in_set_takeD in_set_dropD handle_sse_admitted)
qed simp_all

text \<open>What the alert test stores.\<close>

lemma alert_test_stores:
  assumes "fst (alert_test acfg now_ms (Some a)) = Some a'"
  shows "rows a' = rows a @ [last (rows a')] \<and> ar_severity (last (rows a')) = Critical \<and> ar_status (last (rows a')) = Pending
    \<and> map fst (critical_queue a') = map fst (critical_queue a) @ [next_id a]"
proof -
  have "get_severity ''CRITICAL_ALERT'' r = Critical" for r
    by (simp add: get_severity_def REASON_AWARE_SEVERITY_def EVENT_SEVERITY_def)
  then show ?thesis using assms by (auto simp: alert_test_def emit_alert_def insert_event_def count_metric_def Let_def)
qed

text \<open>C20: whatever requests came before, a request changes the alert store only when it is a \<^verbatim>\<open>POST\<close> with the configured token in its
  header, or with any when none is configured, and the observation phase is not known to be stopped; what it does then is to store one critical alert.
  The only other thing that requests change is the counter of events: each interval of an open event stream adds one to it, also while
  the observation phase is stopped, and such a stream was opened with the configured token in its query.\<close>

theorem dashboard_gate:
  assumes "server_reach cfg acfg parse sv" and "sv' = server_step cfg acfg parse e sv"
  shows "(sv_agent sv' = sv_agent sv \<or>
           (\<exists>rq now_ms conn a a'. e = Request rq now_ms conn \<and> sv_agent sv = Some a \<and> sv_agent sv' = Some a'
              \<and> serve_request cfg acfg parse now_ms conn rq sv = (Handled, sv')
              \<and> rq_method rq = ''POST'' \<and> (auth_token cfg = [] \<or> extract_token rq = auth_token cfg)
              \<and> (case conn of None \<Rightarrow> True | Some db \<Rightarrow> poll_stop_flag db \<noteq> Inr True)
              \<and> rows a' = rows a @ [last (rows a')] \<and> ar_severity (last (rows a')) = Critical \<and> ar_status (last (rows a')) = Pending
              \<and> map fst (critical_queue a') = map fst (critical_queue a) @ [next_id a]))
    \<and> (sv_dash sv' = sv_dash sv \<or>
           (\<exists>i now_ms. e = Interval i now_ms \<and> i < length (sv_streams sv)
              \<and> (auth_token cfg = [] \<or> query (sv_streams sv ! i) ''token'' '''' = auth_token cfg)
              \<and> sv_dash sv' = (sv_dash sv)\<lparr>ds_counter := ds_counter (sv_dash sv) + 1\<rparr>))"
proof (cases e)
  case (Request rq now_ms conn)
  have d: "sv_dash sv' = sv_dash sv" using assms(2) by (simp add: Request serve_request_def split: gate.split)
  show ?thesis
  proof (cases "sv_agent sv' = sv_agent sv")
    case False
    then have h: "auth_middleware cfg conn rq = Handled" "rq_path rq = ''/api/v2/alert_test''" "(rq_method rq, rq_path rq) \<in> set routes"
      "sv_agent sv' = fst (alert_test acfg now_ms (sv_agent sv))"
      using assms(2) by (auto simp: Request serve_request_def split: gate.splits if_splits)
    obtain a a' where a: "sv_agent sv = Some a" "sv_agent sv' = Some a'"
      using h(4) False by (cases "sv_agent sv") (simp_all add: alert_test_def split: prod.splits)
    have g: "serve_request cfg acfg parse now_ms conn rq sv = (Handled, sv')" using assms(2) h(1) by (simp add: Request serve_request_def)
    have p: "rq_method rq = ''POST''" using h(2,3) by (simp add: routes_def)
    have "validate_token cfg (extract_token rq) \<and> \<not> is_observation_stopped conn"
      using h(1,2) p by (simp add: auth_middleware_def sse_path_def split: if_splits)
    then have "(auth_token cfg = [] \<or> extract_token rq = auth_token cfg) \<and> (case conn of None \<Rightarrow> True | Some db \<Rightarrow> poll_stop_flag db \<noteq> Inr True)"
      by (auto simp: validate_token_def is_observation_stopped_def split: if_splits option.splits sum.splits)
    moreover have "fst (alert_test acfg now_ms (Some a)) = Some a'" using h(4) a by simp
    ultimately show ?thesis using Request a g p d alert_test_stores by blast
  qed (use d in simp)
next
  case (Interval i now_ms)
  have "stream_admitted cfg (sv_streams sv ! i)" if "i < length (sv_streams sv)"
    using streams_admitted [OF assms(1)] that by (auto simp: list_all_length)
  then show ?thesis using assms(2) by (auto simp: Interval sse_keepalive_def stream_admitted_def)
qed (use assms(2) in simp)

definition test_button :: "string \<Rightarrow> request" where
  "test_button header = \<lparr>rq_method = ''POST'', rq_path = ''/api/v2/alert_test'', rq_authorization = header, rq_query = []\<rparr>"

definition guarded :: routes_config where
  "guarded = default_routes_config\<lparr>auth_token := ''k''\<rparr>"

definition one_agent :: server where
  "one_agent = \<lparr>sv_agent = Some (new_agent [] 1 0), sv_dash = new_dash, sv_streams = []\<rparr>"

lemma dashboard_gate_witness:
  "ar_severity (last (rows (the (sv_agent (server_step guarded default_alert_config (\<lambda>_. None) (Request (test_button ''Bearer k'') 7 None) one_agent))))) = Critical"
proof -
  let ?a = "new_agent [] 1 0"
  let ?e = "Request (test_button ''Bearer k'') 7 None" and ?p = "\<lambda>_ :: string. None :: int option"
  let ?sv' = "server_step guarded default_alert_config ?p ?e one_agent"
  have m: "auth_middleware guarded None (test_button ''Bearer k'') = Handled" by code_simp
  have s: "sv_agent ?sv' = fst (alert_test default_alert_config 7 (Some ?a))"
    using m by (simp add: serve_request_def test_button_def routes_def one_agent_def)
  have "rows (the (fst (alert_test default_alert_config 7 (Some ?a)))) \<noteq> rows ?a"
    by (simp add: alert_test_def emit_alert_def insert_event_def get_severity_def REASON_AWARE_SEVERITY_def EVENT_SEVERITY_def count_metric_def
        Let_def new_agent_def)
  then have "sv_agent ?sv' \<noteq> sv_agent one_agent" unfolding s by (metis one_agent_def option.sel server.select_convs(1))
  moreover have "server_reach guarded default_alert_config ?p one_agent" unfolding one_agent_def by (rule server_reach.start)
  ultimately show ?thesis using dashboard_gate [of guarded default_alert_config ?p one_agent ?sv' ?e] by auto
qed

text \<open>The event stream ignores the header, so a client that sends its token there, which every other endpoint asks for, is refused.\<close>

lemma sse_header_ignored:
  assumes "auth_token cfg \<noteq> []" and "dget (rq_query rq) ''token'' = None"
  shows "handle_sse cfg parse rq s = None"
  using assms by (simp add: handle_sse_def sse_connect_def validate_token_def query_def)

text \<open>When the site cannot be started, a \<^verbatim>\<open>stop\<close> does not clean the runner up.\<close>

lemma dash_start_leaks: "da_runner (dash_stop (fst (dash_start True False new_app)))"
  by (simp add: dash_start_def dash_stop_def new_app_def)

section \<open>Which events reach a client\<close>

datatype dash_op = Push string string | Keepalive int

text \<open>The state, and the events that were pushed.\<close>

fun dash_run :: "routes_config \<Rightarrow> dash_op list \<Rightarrow> dash \<times> sse_event list \<Rightarrow> dash \<times> sse_event list" where
  "dash_run cfg [] x = x"
| "dash_run cfg (Push t d # ops) (s, h) =
     dash_run cfg ops (push_event cfg t d s, h @ [\<lparr>se_id = ds_counter s + 1, se_event = t, se_data = Pushed d\<rparr>])"
| "dash_run cfg (Keepalive now # ops) (s, h) = dash_run cfg ops (fst (sse_keepalive now s), h)"

definition buffer_ok :: "routes_config \<Rightarrow> dash \<times> sse_event list \<Rightarrow> bool" where
  "buffer_ok cfg x \<longleftrightarrow> ds_buffer (fst x) = take_last (nat (replay_buffer_size cfg)) (snd x)
     \<and> sorted_wrt (<) (map se_id (snd x)) \<and> (\<forall>e \<in> set (snd x). se_id e \<le> ds_counter (fst x))"

lemma take_last_snoc_last: "0 < n \<Longrightarrow> take_last n (take_last n xs @ [x]) = take_last n (xs @ [x])"
  by (cases "n \<le> length xs") (simp_all add: take_last_def Suc_diff_le)

lemma push_counter [simp]: "ds_counter (push_event cfg t d s) = ds_counter s + 1"
  by (simp add: push_event_def Let_def)

lemma push_buffer:
  assumes "0 < replay_buffer_size cfg" and b: "ds_buffer s = take_last (nat (replay_buffer_size cfg)) h"
  shows "ds_buffer (push_event cfg t d s)
    = take_last (nat (replay_buffer_size cfg)) (h @ [\<lparr>se_id = ds_counter s + 1, se_event = t, se_data = Pushed d\<rparr>])" (is "_ = take_last _ (h @ [?e])")
proof (cases "replay_buffer_size cfg < int (length (ds_buffer s @ [?e]))")
  case True
  then have "ds_buffer (push_event cfg t d s) = take_last (nat (replay_buffer_size cfg)) (ds_buffer s @ [?e])"
    using assms(1) by (simp add: push_event_def slice_last_def Let_def)
  then show ?thesis using assms by (simp add: take_last_snoc_last)
next
  case False
  then have "length h < nat (replay_buffer_size cfg)" using assms by simp
  then have "ds_buffer s = h" "length (h @ [?e]) \<le> nat (replay_buffer_size cfg)" using b by (simp_all add: take_last_def)
  then show ?thesis using False by (simp add: push_event_def take_last_def Let_def)
qed

lemma buffer_ok_push:
  assumes "0 < replay_buffer_size cfg" and "buffer_ok cfg (s, h)"
  shows "buffer_ok cfg (push_event cfg t d s, h @ [\<lparr>se_id = ds_counter s + 1, se_event = t, se_data = Pushed d\<rparr>])"
  using assms push_buffer [OF assms(1), of s h t d] by (fastforce simp: buffer_ok_def sorted_wrt_append)

lemma buffer_ok_keepalive: "buffer_ok cfg (s, h) \<Longrightarrow> buffer_ok cfg (fst (sse_keepalive now s), h)"
  by (fastforce simp: buffer_ok_def sse_keepalive_def)

lemma buffer_ok_run: "0 < replay_buffer_size cfg \<Longrightarrow> buffer_ok cfg (s, h) \<Longrightarrow> buffer_ok cfg (dash_run cfg ops (s, h))"
proof (induction ops arbitrary: s h)
  case (Cons op ops)
  then show ?case by (cases op) (simp_all add: buffer_ok_push buffer_ok_keepalive)
qed simp

lemma replay_loop_filter:
  "int (n + length evs) \<le> limit \<Longrightarrow> replay_loop limit last_id evs n = filter (\<lambda>e. last_id < se_id e) evs"
proof (induction evs arbitrary: n)
  case (Cons e evs)
  have "replay_loop limit last_id evs n = filter (\<lambda>e. last_id < se_id e) evs" using Cons.IH [of n] Cons.prems by simp
  moreover have "evs = []" if "limit \<le> int (n + 1)" using that Cons.prems by (cases evs) auto
  ultimately show ?case using Cons.IH [of "n + 1"] Cons.prems by auto
qed simp

lemma dash_run_prefix: "\<exists>h'. snd (dash_run cfg ops (s, h)) = h @ h'"
proof (induction ops arbitrary: s h)
  case (Cons op ops)
  then show ?case by (cases op) (auto, metis append.assoc)
qed simp

text \<open>C34: a client that connects with the id of the last event it has seen gets exactly the later ones among the last events that were
  pushed, as many as the buffer holds, in order. While it is connected it gets only keepalives, whose ids grow with the same
  counter: so whatever was pushed before a keepalive that it has seen is never sent to it.\<close>

theorem sse_replay:
  assumes "0 < replay_buffer_size cfg" and "dash_run cfg ops (new_dash, []) = (s, h)"
  shows "replay_events cfg n s = filter (\<lambda>e. n < se_id e) (take_last (nat (replay_buffer_size cfg)) h)
    \<and> (case sse_keepalive now s of (s1, k) \<Rightarrow>
       list_all (\<lambda>e. e \<notin> set (replay_events cfg (se_id k) (fst (dash_run cfg later (s1, h))))) h)"
proof -
  have ok: "buffer_ok cfg (s, h)"
    using buffer_ok_run [OF assms(1), of new_dash "[]" ops] assms(2) by (simp add: buffer_ok_def new_dash_def take_last_def)
  then have now: "replay_events cfg n s = filter (\<lambda>e. n < se_id e) (take_last (nat (replay_buffer_size cfg)) h)"
    using assms(1) by (simp add: replay_events_def replay_loop_filter buffer_ok_def)
  let ?k = "snd (sse_keepalive now s)" and ?x = "dash_run cfg later (fst (sse_keepalive now s), h)"
  have "buffer_ok cfg (fst (sse_keepalive now s), h)" using ok by (rule buffer_ok_keepalive)
  from buffer_ok_run [OF assms(1) this] have "buffer_ok cfg ?x" .
  then have "replay_events cfg (se_id ?k) (fst ?x) = filter (\<lambda>e. se_id ?k < se_id e) (take_last (nat (replay_buffer_size cfg)) (snd ?x))"
    using assms(1) by (simp add: replay_events_def replay_loop_filter buffer_ok_def)
  moreover have "\<not> se_id ?k < se_id e" if "e \<in> set h" for e using ok that by (fastforce simp: buffer_ok_def sse_keepalive_def)
  ultimately show ?thesis
    using now by (auto simp: list_all_iff split: prod.split)
qed

text \<open>A fill and a stop are pushed around a keepalive: after the keepalive, the client that saw it gets the stop, and never the fill.\<close>

definition small_buffer :: routes_config where
  "small_buffer = default_routes_config\<lparr>replay_buffer_size := 2\<rparr>"

lemma sse_replay_witness:
  "case dash_run small_buffer [Push ''fill'' ''1''] (new_dash, []) of (s, h) \<Rightarrow>
     map se_event (replay_events small_buffer 0 s) = [''fill'']
     \<and> hd h \<notin> set (replay_events small_buffer 2 (fst (dash_run small_buffer [Push ''stop'' ''2''] (fst (sse_keepalive 9 s), h))))"
proof -
  let ?s = "fst (dash_run small_buffer [Push ''fill'' ''1''] (new_dash, []))" and ?h = "snd (dash_run small_buffer [Push ''fill'' ''1''] (new_dash, []))"
  have "0 < replay_buffer_size small_buffer" by (simp add: small_buffer_def)
  from sse_replay [OF this, where ops = "[Push ''fill'' ''1'']" and s = ?s and h = ?h and n = 0 and now = 9 and later = "[Push ''stop'' ''2'']"]
  show ?thesis
    by (simp add: small_buffer_def push_event_def new_dash_def sse_keepalive_def take_last_def)
qed

end
