(* ===== verification/Formatter.thy ===== *)
theory Formatter
  imports Float64
begin

text \<open>
  \<^verbatim>\<open>src/alerting/formatter.py\<close>: the texts of alerts for Telegram and Discord, and the masking of secrets in them. A text is the list of its
  code points. The regular expressions are matched as Python's \<^verbatim>\<open>re\<close> does, by backtracking with greedy repetition; which characters outside
  ASCII are digits or letters is a parameter, and so is whether \<^verbatim>\<open>time.gmtime\<close> accepts a time.
\<close>

type_synonym utext = "nat list"

definition u :: "string \<Rightarrow> utext" where "u s = map of_char s"

section \<open>Regular expressions\<close>

text \<open>One character, \<^verbatim>\<open>{n,}\<close>, and \<^verbatim>\<open>\b\<close>. A pattern is the list of its alternatives, the preferred one first.\<close>

datatype atom = One "nat \<Rightarrow> bool" | Many nat "nat \<Rightarrow> bool" | Edge

type_synonym pattern = "atom list list"

text \<open>The length of the match at the start of a text; the flag tells whether a word character is in front of it.\<close>

fun match_at :: "(nat \<Rightarrow> bool) \<Rightarrow> atom list \<Rightarrow> bool \<Rightarrow> utext \<Rightarrow> nat option" where
  "match_at w [] before s = Some 0"
| "match_at w (One p # r) before [] = None"
| "match_at w (One p # r) before (c # s) = (if p c then map_option Suc (match_at w r (w c) s) else None)"
| "match_at w (Edge # r) before s = (if before \<noteq> (case s of [] \<Rightarrow> False | c # s' \<Rightarrow> w c) then match_at w r before s else None)"
| "match_at w (Many n p # r) before [] = (if n = 0 then match_at w r before [] else None)"
| "match_at w (Many n p # r) before (c # s) =
     (case (if p c then map_option Suc (match_at w (Many (n - 1) p # r) (w c) s) else None) of
        Some k \<Rightarrow> Some k
      | None \<Rightarrow> if n = 0 then match_at w r before (c # s) else None)"

fun match_any :: "(nat \<Rightarrow> bool) \<Rightarrow> pattern \<Rightarrow> bool \<Rightarrow> utext \<Rightarrow> nat option" where
  "match_any w [] before s = None"
| "match_any w (r # rs) before s = (case match_at w r before s of Some k \<Rightarrow> Some k | None \<Rightarrow> match_any w rs before s)"

text \<open>\<^verbatim>\<open>pattern.sub\<close>, for patterns that match no empty text.\<close>

function re_sub :: "(nat \<Rightarrow> bool) \<Rightarrow> pattern \<Rightarrow> (utext \<Rightarrow> utext) \<Rightarrow> bool \<Rightarrow> utext \<Rightarrow> utext" where
  "re_sub w pat repl before [] = []"
| "re_sub w pat repl before (c # s) =
     (case match_any w pat before (c # s) of
        Some (Suc k) \<Rightarrow> repl (take (Suc k) (c # s)) @ re_sub w pat repl (w (last (take (Suc k) (c # s)))) (drop k s)
      | _ \<Rightarrow> c # re_sub w pat repl (w c) s)"
  by pat_completeness auto
termination by (relation "measure (\<lambda>(w, pat, repl, before, s). length s)") auto

definition in_turn :: "pattern list \<Rightarrow> pattern" where
  "in_turn ps = foldr (\<lambda>p rest. concat (map (\<lambda>a. map (\<lambda>r. a @ r) rest) p)) ps [[]]"

definition lit :: "string \<Rightarrow> atom list" where
  "lit s = map (\<lambda>c. One (\<lambda>x. x = c)) (u s)"

section \<open>The patterns\<close>

text \<open>The characters that \<^verbatim>\<open>\d\<close> and \<^verbatim>\<open>\w\<close> accept outside ASCII.\<close>

record charset =
  other_digit :: "nat \<Rightarrow> bool"
  other_word :: "nat \<Rightarrow> bool"

definition between :: "char \<Rightarrow> char \<Rightarrow> nat \<Rightarrow> bool" where
  "between a b x \<longleftrightarrow> of_char a \<le> x \<and> x \<le> of_char b"

definition digit :: "charset \<Rightarrow> nat \<Rightarrow> bool" where
  "digit cs x \<longleftrightarrow> between (CHR ''0'') (CHR ''9'') x \<or> (128 \<le> x \<and> other_digit cs x)"

definition letter :: "nat \<Rightarrow> bool" where
  "letter x \<longleftrightarrow> between (CHR ''A'') (CHR ''Z'') x \<or> between (CHR ''a'') (CHR ''z'') x"

definition word :: "charset \<Rightarrow> nat \<Rightarrow> bool" where
  "word cs x \<longleftrightarrow> letter x \<or> between (CHR ''0'') (CHR ''9'') x \<or> x = of_char (CHR ''_'') \<or> (128 \<le> x \<and> other_word cs x)"

definition token_char :: "nat \<Rightarrow> bool" where
  "token_char x \<longleftrightarrow> letter x \<or> between (CHR ''0'') (CHR ''9'') x \<or> x \<in> {of_char (CHR ''_''), of_char (CHR ''-'')}"

definition space :: "nat \<Rightarrow> bool" where
  "space x \<longleftrightarrow> (9 \<le> x \<and> x \<le> 13) \<or> (28 \<le> x \<and> x \<le> 32) \<or> (0x2000 \<le> x \<and> x \<le> 0x200A)
     \<or> x \<in> {0x85, 0xA0, 0x1680, 0x2028, 0x2029, 0x202F, 0x205F, 0x3000}"

text \<open>With \<^verbatim>\<open>IGNORECASE\<close> the dotted and the dotless i, the long s and the Kelvin sign count as letters too.\<close>

definition lit_ci :: "string \<Rightarrow> atom list" where
  "lit_ci s = map (\<lambda>c. One (\<lambda>x. x = c \<or> (between (CHR ''a'') (CHR ''z'') c \<and> x + 32 = c)
     \<or> (c = of_char (CHR ''i'') \<and> x \<in> {0x130, 0x131}) \<or> (c = of_char (CHR ''s'') \<and> x = 0x17F) \<or> (c = of_char (CHR ''k'') \<and> x = 0x212A))) (u s)"

definition bearer_char :: "nat \<Rightarrow> bool" where
  "bearer_char x \<longleftrightarrow> token_char x \<or> x = of_char (CHR ''.'') \<or> x \<in> {0x130, 0x131, 0x17F, 0x212A}"

definition value_char :: "nat \<Rightarrow> bool" where
  "value_char x \<longleftrightarrow> x \<noteq> of_char (CHR ''&'') \<and> \<not> space x \<and> x \<notin> {0x22, 0x27, of_char (CHR ''<''), of_char (CHR ''>'')}"

definition DISCORD_WEBHOOK_RE :: "charset \<Rightarrow> pattern" where
  "DISCORD_WEBHOOK_RE cs = in_turn [[lit ''https://''], [lit ''ptb.'', lit ''canary.'', []], [lit ''discord''], [lit ''app'', []],
     [lit ''.com/api/webhooks/'' @ [Many 1 (digit cs)] @ lit ''/'' @ [Many 1 token_char]]]"

definition TELEGRAM_TOKEN_RE :: "charset \<Rightarrow> pattern" where
  "TELEGRAM_TOKEN_RE cs = [[Edge, Many 6 (digit cs)] @ lit '':'' @ [Many 30 token_char, Edge]]"

definition QUERY_TOKEN_RE :: pattern where
  "QUERY_TOKEN_RE = in_turn [[[One (\<lambda>x. x \<in> {of_char (CHR ''?''), of_char (CHR ''&'')})]],
     [lit_ci ''token'', lit_ci ''access_token'', lit_ci ''api_key'', lit_ci ''apikey''], [lit ''='' @ [Many 1 value_char]]]"

definition BEARER_RE :: pattern where
  "BEARER_RE = in_turn [[[Edge]], [lit_ci ''bearer'', lit_ci ''bot''], [[Many 1 space, Many 20 bearer_char]]]"

definition REDACTED :: utext where "REDACTED = u ''[REDACTED]''"

text \<open>\<^verbatim>\<open>m.group(1)\<close> is the match up to the first equals sign.\<close>

definition group1 :: "utext \<Rightarrow> utext" where
  "group1 m = takeWhile (\<lambda>x. x \<noteq> of_char (CHR ''='')) m @ u ''=''"

definition mask_secrets :: "charset \<Rightarrow> utext \<Rightarrow> utext" where
  "mask_secrets cs s =
     (let whole = (\<lambda>m. REDACTED); w = word cs;
          s1 = re_sub w (DISCORD_WEBHOOK_RE cs) whole False s;
          s2 = re_sub w (TELEGRAM_TOKEN_RE cs) whole False s1;
          s3 = re_sub w QUERY_TOKEN_RE (\<lambda>m. group1 m @ REDACTED) False s2
      in re_sub w BEARER_RE whole False s3)"

section \<open>One event\<close>

text \<open>A key of the event that is missing is \<open>None\<close>.\<close>

record fmt_event =
  fe_event_type :: "utext option"
  fe_severity :: "utext option"
  fe_symbol :: "utext option"
  fe_ts_ms :: "int option"
  fe_reason :: "utext option"

definition two_digits :: "int \<Rightarrow> utext" where
  "two_digits n = u (if n < 10 then ''0'' @ str_of_int n else str_of_int n)"

definition fmt_time :: "(int \<Rightarrow> bool) \<Rightarrow> int \<Rightarrow> utext option" where
  "fmt_time gmtime_ok ts_ms =
     (let t = \<lfloor>fdiv (rnd (of_int ts_ms)) 1000\<rfloor>; d = t mod 86400
      in if gmtime_ok t then Some (two_digits (d div 3600) @ u '':'' @ two_digits (d div 60 mod 60) @ u '':'' @ two_digits (d mod 60)) else None)"

definition dup_suffix :: "int \<Rightarrow> int option \<Rightarrow> utext" where
  "dup_suffix dup_count window_s =
     (case window_s of
        None \<Rightarrow> []
      | Some ws \<Rightarrow> if dup_count \<le> 1 then []
                  else u '' [x'' @ u (str_of_int dup_count) @ u '' son '' @ u (str_of_int (max 1 (ws div 60))) @ u ''dk]'')"

record parts =
  pt_event_type :: utext
  pt_severity :: utext
  pt_symbol :: utext
  pt_ts_ms :: int
  pt_reason :: "utext option"

definition event_parts :: "fmt_event \<Rightarrow> parts option" where
  "event_parts ev =
     (case (fe_event_type ev, fe_severity ev, fe_ts_ms ev) of
        (Some t, Some sev, Some ts) \<Rightarrow>
          Some \<lparr>pt_event_type = t, pt_severity = sev, pt_symbol = (case fe_symbol ev of None \<Rightarrow> u ''-'' | Some s \<Rightarrow> if s = [] then u ''-'' else s),
                pt_ts_ms = ts, pt_reason = fe_reason ev\<rparr>
      | _ \<Rightarrow> None)"

definition replace_char :: "char \<Rightarrow> string \<Rightarrow> utext \<Rightarrow> utext" where
  "replace_char c r s = concat (map (\<lambda>x. if x = of_char c then u r else [x]) s)"

text \<open>\<^verbatim>\<open>html.escape(s, quote=False)\<close>.\<close>

definition html_escape :: "utext \<Rightarrow> utext" where
  "html_escape s = replace_char (CHR ''>'') ''&gt;'' (replace_char (CHR ''<'') ''&lt;'' (replace_char (CHR ''&'') ''&amp;'' s))"

definition dash :: utext where "dash = [0x20, 0x2014, 0x20]"

definition render_one_telegram :: "(int \<Rightarrow> bool) \<Rightarrow> fmt_event \<Rightarrow> int \<Rightarrow> int option \<Rightarrow> utext option" where
  "render_one_telegram ok ev dup_count window_s =
     (case event_parts ev of
        None \<Rightarrow> None
      | Some p \<Rightarrow>
          (case fmt_time ok (pt_ts_ms p) of
             None \<Rightarrow> None
           | Some t \<Rightarrow>
               (let head = u ''<b>['' @ html_escape (pt_severity p) @ u '']</b> '' @ html_escape (pt_event_type p) @ u '' '' @ html_escape (pt_symbol p);
                    tm = u ''<code>'' @ html_escape t @ u ''</code>'';
                    body = (case pt_reason p of
                              None \<Rightarrow> head @ u '' '' @ tm
                            | Some r \<Rightarrow> if r = [] then head @ u '' '' @ tm else head @ u '' '' @ tm @ dash @ html_escape r)
                in Some (body @ dup_suffix dup_count window_s))))"

definition render_one_discord :: "(int \<Rightarrow> bool) \<Rightarrow> fmt_event \<Rightarrow> int \<Rightarrow> int option \<Rightarrow> utext option" where
  "render_one_discord ok ev dup_count window_s =
     (case event_parts ev of
        None \<Rightarrow> None
      | Some p \<Rightarrow>
          (case fmt_time ok (pt_ts_ms p) of
             None \<Rightarrow> None
           | Some tm \<Rightarrow>
               (let head = u ''['' @ pt_severity p @ u ''] '' @ pt_event_type p @ u '' '' @ pt_symbol p;
                    body = (case pt_reason p of
                              None \<Rightarrow> head @ u '' '' @ tm
                            | Some r \<Rightarrow> if r = [] then head @ u '' '' @ tm else head @ u '' '' @ tm @ dash @ r)
                in Some (body @ dup_suffix dup_count window_s))))"

record rendered_message =
  rm_text :: utext
  rm_parse_mode :: "utext option"

definition TELEGRAM_PARSE_MODE :: utext where "TELEGRAM_PARSE_MODE = u ''HTML''"

definition render_telegram :: "charset \<Rightarrow> (int \<Rightarrow> bool) \<Rightarrow> fmt_event \<Rightarrow> int \<Rightarrow> int option \<Rightarrow> rendered_message" where
  "render_telegram cs ok ev dup_count window_s =
     (case render_one_telegram ok ev dup_count window_s of
        Some s \<Rightarrow> \<lparr>rm_text = mask_secrets cs s, rm_parse_mode = Some TELEGRAM_PARSE_MODE\<rparr>
      | None \<Rightarrow>
          \<lparr>rm_text = mask_secrets cs (case render_one_discord ok ev dup_count window_s of Some s \<Rightarrow> s | None \<Rightarrow> u ''[format error]''),
           rm_parse_mode = None\<rparr>)"

definition render_discord :: "charset \<Rightarrow> (int \<Rightarrow> bool) \<Rightarrow> fmt_event \<Rightarrow> int \<Rightarrow> int option \<Rightarrow> utext" where
  "render_discord cs ok ev dup_count window_s =
     mask_secrets cs (case render_one_discord ok ev dup_count window_s of Some s \<Rightarrow> s | None \<Rightarrow> u ''[format error]'')"

section \<open>Batches\<close>

definition SEVERITY_ORDER :: "utext list" where
  "SEVERITY_ORDER = map u [''CRITICAL'', ''WARNING'', ''INFO'']"

definition severity_counts :: "(fmt_event \<times> int) list \<Rightarrow> (utext \<times> int) list" where
  "severity_counts items =
     (let key = (\<lambda>(ev, n). case fe_severity ev of None \<Rightarrow> u ''UNKNOWN'' | Some s \<Rightarrow> if s = [] then u ''UNKNOWN'' else s);
          counts = foldl (\<lambda>d it. dset d (key it) ((case dget d (key it) of None \<Rightarrow> 0 | Some n \<Rightarrow> n) + 1)) [] items
      in List.map_filter (\<lambda>k. map_option (Pair k) (dget counts k)) SEVERITY_ORDER @ filter (\<lambda>(k, v). k \<notin> set SEVERITY_ORDER) counts)"

fun join :: "utext \<Rightarrow> utext list \<Rightarrow> utext" where
  "join sep [] = []"
| "join sep [x] = x"
| "join sep (x # y # xs) = x @ sep @ join sep (y # xs)"

text \<open>\<^verbatim>\<open>MikoV2 Uyar\<close>, a dotless i, \<^verbatim>\<open> Grubu\<close>.\<close>

definition title :: utext where "title = u ''MikoV2 Uyar'' @ [0x131] @ u '' Grubu ''"

definition batch_header :: "(fmt_event \<times> int) list \<Rightarrow> utext \<times> utext" where
  "batch_header items =
     (title @ u ''(N='' @ u (str_of_int (int (length items))) @ u '')'',
      join (u '' | '') (map (\<lambda>(k, v). k @ u '': '' @ u (str_of_int v)) (severity_counts items)))"

text \<open>The lines of the events, numbered from \<open>i\<close>.\<close>

fun numbered :: "(fmt_event \<Rightarrow> int \<Rightarrow> utext option) \<Rightarrow> int \<Rightarrow> (fmt_event \<times> int) list \<Rightarrow> utext list option" where
  "numbered render i [] = Some []"
| "numbered render i ((ev, cnt) # items) =
     (case render ev cnt of
        None \<Rightarrow> None
      | Some body \<Rightarrow> map_option (\<lambda>ls. (u ''#'' @ u (str_of_int i) @ u '' '' @ body) # ls) (numbered render (i + 1) items))"

definition render_discord_batch :: "charset \<Rightarrow> (int \<Rightarrow> bool) \<Rightarrow> (fmt_event \<times> int) list \<Rightarrow> int \<Rightarrow> utext" where
  "render_discord_batch cs ok items window_s =
     (if items = [] then mask_secrets cs (title @ u ''(N=0)'')
      else let (header, summary) = batch_header items
           in case numbered (\<lambda>ev n. render_one_discord ok ev n (Some window_s)) 1 items of
                Some ls \<Rightarrow> mask_secrets cs (join [10] ([header] @ (if summary = [] then [] else [summary]) @ ls))
              | None \<Rightarrow> mask_secrets cs (title @ u ''(format error)''))"

definition render_telegram_batch :: "charset \<Rightarrow> (int \<Rightarrow> bool) \<Rightarrow> (fmt_event \<times> int) list \<Rightarrow> int \<Rightarrow> rendered_message" where
  "render_telegram_batch cs ok items window_s =
     (if items = [] then \<lparr>rm_text = mask_secrets cs (title @ u ''(N=0)''), rm_parse_mode = Some TELEGRAM_PARSE_MODE\<rparr>
      else let (header, summary) = batch_header items
           in case numbered (\<lambda>ev n. render_one_telegram ok ev n (Some window_s)) 1 items of
                Some ls \<Rightarrow> \<lparr>rm_text = mask_secrets cs (join [10] ([u ''<b>'' @ html_escape header @ u ''</b>'']
                                 @ (if summary = [] then [] else [html_escape summary]) @ ls)),
                            rm_parse_mode = Some TELEGRAM_PARSE_MODE\<rparr>
              | None \<Rightarrow> \<lparr>rm_text = mask_secrets cs (render_discord_batch cs ok items window_s), rm_parse_mode = None\<rparr>)"

section \<open>Markup survives the masking\<close>

definition LT :: nat where "LT = of_char (CHR ''<'')"
definition GT :: nat where "GT = of_char (CHR ''>'')"

text \<open>The tags of a text, from \<^verbatim>\<open><\<close> to \<^verbatim>\<open>>\<close>, and that each is closed within five characters.\<close>

fun tags_of :: "bool \<Rightarrow> utext \<Rightarrow> utext" where
  "tags_of inside [] = []"
| "tags_of False (c # s) = (if c = LT then c # tags_of True s else tags_of False s)"
| "tags_of True (c # s) = c # tags_of (c \<noteq> GT) s"

fun tidy :: "nat option \<Rightarrow> utext \<Rightarrow> bool" where
  "tidy m [] \<longleftrightarrow> m = None"
| "tidy None (c # s) \<longleftrightarrow> tidy (if c = LT then Some 5 else None) s"
| "tidy (Some k) (c # s) \<longleftrightarrow> (if c = GT then tidy None s else k \<noteq> 0 \<and> tidy (Some (k - 1)) s)"

definition plain :: "utext \<Rightarrow> bool" where
  "plain s \<longleftrightarrow> LT \<notin> set s \<and> GT \<notin> set s"

lemma plain_simps [simp]: "plain []" "plain (c # s) \<longleftrightarrow> c \<noteq> LT \<and> c \<noteq> GT \<and> plain s" "plain (r @ s) \<longleftrightarrow> plain r \<and> plain s"
  by (auto simp: plain_def)

lemma plain_prefix [simp]: "plain r \<Longrightarrow> tags_of False (r @ s) = tags_of False s" "plain r \<Longrightarrow> tidy None (r @ s) = tidy None s"
  by (induction r) simp_all

lemma plain_text [simp]: "plain s \<Longrightarrow> tags_of False s = []" "plain s \<Longrightarrow> tidy None s"
  by (induction s) simp_all

text \<open>What an atom accepts is never a bracket; the least length of its matches.\<close>

fun plain_atom :: "atom \<Rightarrow> bool" where
  "plain_atom (One p) \<longleftrightarrow> \<not> p LT \<and> \<not> p GT"
| "plain_atom (Many n p) \<longleftrightarrow> \<not> p LT \<and> \<not> p GT"
| "plain_atom Edge \<longleftrightarrow> True"

fun min_len :: "atom \<Rightarrow> nat" where
  "min_len (One p) = 1"
| "min_len (Many n p) = n"
| "min_len Edge = 0"

definition plain_pattern :: "pattern \<Rightarrow> bool" where
  "plain_pattern pat \<longleftrightarrow> list_all (\<lambda>r. list_all plain_atom r \<and> 5 < sum_list (map min_len r)) pat"

lemma match_at_plain:
  "match_at w r before s = Some k \<Longrightarrow> list_all plain_atom r
     \<Longrightarrow> k \<le> length s \<and> plain (take k s) \<and> sum_list (map min_len r) \<le> k"
proof (induction w r before s arbitrary: k rule: match_at.induct)
  case (6 w n p r before c s)
  show ?case
  proof (cases "p c \<and> match_at w (Many (n - 1) p # r) (w c) s \<noteq> None")
    case True
    then obtain j where "p c" "match_at w (Many (n - 1) p # r) (w c) s = Some j" "k = Suc j" using 6 by auto
    then show ?thesis using 6 by force
  next
    case False
    then have "n = 0" "match_at w r before (c # s) = Some k" using 6(3) by (auto split: if_splits option.splits)
    then show ?thesis using 6 False by auto
  qed
qed (auto split: if_splits)

lemma match_any_plain:
  "match_any w pat before s = Some k \<Longrightarrow> plain_pattern pat \<Longrightarrow> 5 < k \<and> k \<le> length s \<and> plain (take k s)"
proof (induction pat)
  case (Cons r pat)
  then show ?case
    using match_at_plain [of w r before s] by (fastforce simp: plain_pattern_def split: option.splits)
qed simp

text \<open>Inside a tag there is no room for a match.\<close>

lemma tidy_inside: "tidy (Some k) s \<Longrightarrow> k < j \<Longrightarrow> j \<le> length s \<Longrightarrow> \<not> plain (take j s)"
proof (induction s arbitrary: k j)
  case (Cons c s)
  then show ?case by (cases j) (auto split: if_splits)
qed simp

lemma re_sub_tags:
  "plain_pattern pat \<Longrightarrow> \<forall>m. plain m \<longrightarrow> plain (repl m) \<Longrightarrow> tidy m s \<Longrightarrow> (case m of None \<Rightarrow> True | Some k \<Rightarrow> k \<le> 5)
     \<Longrightarrow> tags_of (m \<noteq> None) (re_sub w pat repl before s) = tags_of (m \<noteq> None) s \<and> tidy m (re_sub w pat repl before s)"
proof (induction w pat repl before s arbitrary: m rule: re_sub.induct)
  case (2 w pat repl before c s)
  show ?case
  proof (cases "\<exists>k. match_any w pat before (c # s) = Some (Suc k)")
    case True
    then obtain k where k: "match_any w pat before (c # s) = Some (Suc k)" by blast
    then have m: "5 < Suc k" "Suc k \<le> length (c # s)" "plain (take (Suc k) (c # s))" using match_any_plain 2(4) by blast+
    have "m = None"
    proof (rule ccontr)
      assume "m \<noteq> None"
      then obtain j where "m = Some j" "j < Suc k" using 2(7) m(1) by (auto split: option.splits)
      then show False using tidy_inside [of j "c # s" "Suc k"] 2(6) m(2,3) by blast
    qed
    moreover have "c # s = take (Suc k) (c # s) @ drop k s" by simp
    then have "tidy None (drop k s)" "tags_of False (c # s) = tags_of False (drop k s)"
      using 2(6) m(3) \<open>m = None\<close> plain_prefix [of "take (Suc k) (c # s)" "drop k s"] by metis+
    moreover have "plain (repl (take (Suc k) (c # s)))" using 2(5) m(3) by blast
    ultimately show ?thesis using 2(3) [OF k refl, of None] 2(4,5) k by simp
  next
    case False
    then have r: "re_sub w pat repl before (c # s) = c # re_sub w pat repl (w c) s"
      by (auto split: option.splits nat.splits)
    have ih: "tags_of (m' \<noteq> None) (re_sub w pat repl (w c) s) = tags_of (m' \<noteq> None) s \<and> tidy m' (re_sub w pat repl (w c) s)"
      if "tidy m' s" "case m' of None \<Rightarrow> True | Some k \<Rightarrow> k \<le> 5" for m'
    proof (cases "match_any w pat before (c # s)")
      case None
      then show ?thesis using 2(1) 2(4,5) that by blast
    next
      case (Some k)
      then have "k = 0" using False by (cases k) auto
      then show ?thesis using 2(2) [OF Some] 2(4,5) that by blast
    qed
    show ?thesis
    proof (cases m)
      case None
      then show ?thesis using ih [of "if c = LT then Some 5 else None"] 2(6) unfolding r by (auto split: if_splits)
    next
      case (Some k)
      then show ?thesis using ih [of "if c = GT then None else Some (k - 1)"] 2(6,7) unfolding r by (auto split: if_splits)
    qed
  qed
qed simp

lemma patterns_plain:
  "plain_pattern (DISCORD_WEBHOOK_RE cs)" "plain_pattern (TELEGRAM_TOKEN_RE cs)" "plain_pattern QUERY_TOKEN_RE" "plain_pattern BEARER_RE"
  by (simp_all add: plain_pattern_def DISCORD_WEBHOOK_RE_def TELEGRAM_TOKEN_RE_def QUERY_TOKEN_RE_def BEARER_RE_def in_turn_def lit_def lit_ci_def u_def
      LT_def GT_def digit_def token_char_def value_char_def bearer_char_def space_def between_def letter_def)

lemma plain_redacted [simp]: "plain REDACTED" "plain m \<Longrightarrow> plain (group1 m)"
  by (auto simp: REDACTED_def group1_def u_def LT_def GT_def plain_def dest: set_takeWhileD)

lemma mask_tags:
  assumes "tidy None s"
  shows "tags_of False (mask_secrets cs s) = tags_of False s"
proof -
  have keep: "tags_of False (re_sub w pat repl before s) = tags_of False s \<and> tidy None (re_sub w pat repl before s)"
    if "plain_pattern pat" "\<forall>m. plain m \<longrightarrow> plain (repl m)" "tidy None s" for w pat repl before s
    using re_sub_tags [of pat repl None s w before] that by simp
  show ?thesis
    using assms by (simp add: mask_secrets_def Let_def keep patterns_plain)
qed

section \<open>What a message may contain\<close>

lemma plain_digits: "set (dec_nonneg n) \<subseteq> set ''0123456789''"
proof (induction n rule: dec_nonneg.induct)
  case (1 n)
  have "digit_char d \<in> set ''0123456789''" if "d < 10" for d
    unfolding digit_char_def by (rule nth_mem) (use that in simp)
  then show ?case using 1 by (subst dec_nonneg.simps) (simp add: pos_mod_bound)
qed

lemma plain_u: "CHR ''<'' \<notin> set s \<Longrightarrow> CHR ''>'' \<notin> set s \<Longrightarrow> plain (u s)"
  unfolding plain_def u_def LT_def GT_def set_map by (simp add: inj_image_mem_iff [OF inj_of_char] del: of_char_Char)

lemma plain_number [simp]: "plain (u (str_of_int n))"
proof -
  have d: "x \<notin> set (dec_nonneg m)" if "x \<notin> set ''0123456789''" for x m
    using that plain_digits by blast
  have "CHR ''<'' \<notin> set (dec_nonneg m)" "CHR ''>'' \<notin> set (dec_nonneg m)" for m by (rule d, simp)+
  then show ?thesis by (intro plain_u) (simp_all add: str_of_int_def)
qed

lemma set_replace_char: "set (replace_char c r s) \<subseteq> set (u r) \<union> (set s - {of_char c})"
  by (auto simp: replace_char_def split: if_splits)

lemma plain_escape [simp]: "plain (html_escape s)"
proof -
  let ?l = "replace_char (CHR ''<'') ''&lt;'' (replace_char (CHR ''&'') ''&amp;'' s)"
  have e: "LT \<notin> set (u ''&lt;'')" "LT \<notin> set (u ''&gt;'')" "GT \<notin> set (u ''&gt;'')" by (simp_all add: u_def LT_def GT_def)
  have "LT \<notin> set ?l" using set_replace_char [of "CHR ''<''" "''&lt;''"] e(1) unfolding LT_def by blast
  then have "LT \<notin> set (html_escape s)" using set_replace_char [of "CHR ''>''" "''&gt;''" ?l] e(2) unfolding html_escape_def by blast
  moreover have "GT \<notin> set (html_escape s)"
    using set_replace_char [of "CHR ''>''" "''&gt;''" ?l] e(3) unfolding html_escape_def GT_def by blast
  ultimately show ?thesis by (simp add: plain_def)
qed

lemma plain_suffix [simp]: "plain (dup_suffix n w)"
  by (auto simp: dup_suffix_def plain_u split: option.splits)

definition event_tags :: utext where "event_tags = u ''<b></b><code></code>''"

lemma tags_event:
  assumes "render_one_telegram ok ev n w = Some s"
  shows "tags_of False (s @ r) = event_tags @ tags_of False r \<and> tidy None (s @ r) = tidy None r"
proof -
  have tags: "tags_of False (u ''<b>['' @ x) = u ''<b>'' @ tags_of False x" "tags_of False (u '']</b> '' @ x) = u ''</b>'' @ tags_of False x"
    "tags_of False (u ''<code>'' @ x) = u ''<code>'' @ tags_of False x" "tags_of False (u ''</code>'' @ x) = u ''</code>'' @ tags_of False x"
    "tidy None (u ''<b>['' @ x) = tidy None x" "tidy None (u '']</b> '' @ x) = tidy None x"
    "tidy None (u ''<code>'' @ x) = tidy None x" "tidy None (u ''</code>'' @ x) = tidy None x" for x
    by (simp_all add: u_def LT_def GT_def)
  have sp: "plain dash" "plain (u '' '')" by (simp_all add: dash_def u_def LT_def GT_def)
  have "\<exists>(p :: parts) t rest. s = u ''<b>['' @ html_escape (pt_severity p) @ u '']</b> '' @ html_escape (pt_event_type p) @ u '' ''
      @ html_escape (pt_symbol p) @ u '' '' @ u ''<code>'' @ html_escape t @ u ''</code>'' @ rest \<and> plain rest"
  proof -
    obtain p t where pt: "event_parts ev = Some p" "fmt_time ok (pt_ts_ms p) = Some t"
      using assms by (auto simp: render_one_telegram_def split: option.splits)
    let ?rest = "(case pt_reason p of None \<Rightarrow> [] | Some q \<Rightarrow> if q = [] then [] else dash @ html_escape q) @ dup_suffix n w"
    have "s = u ''<b>['' @ html_escape (pt_severity p) @ u '']</b> '' @ html_escape (pt_event_type p) @ u '' '' @ html_escape (pt_symbol p)
        @ u '' '' @ u ''<code>'' @ html_escape t @ u ''</code>'' @ ?rest"
      using assms pt by (auto simp: render_one_telegram_def Let_def split: option.splits if_splits)
    moreover have "plain ?rest" using sp by (simp split: option.split)
    ultimately show ?thesis by blast
  qed
  moreover have "event_tags = u ''<b>'' @ u ''</b>'' @ u ''<code>'' @ u ''</code>''" by (simp add: event_tags_def u_def)
  ultimately show ?thesis using sp by (elim exE conjE) (simp add: tags)
qed

lemma tags_numbered:
  "numbered (\<lambda>ev n. render_one_telegram ok ev n w) i items = Some ls
     \<Longrightarrow> length ls = length items \<and> (\<forall>l \<in> set ls. \<forall>r. tags_of False (l @ r) = event_tags @ tags_of False r \<and> tidy None (l @ r) = tidy None r)"
proof (induction items arbitrary: i ls)
  case (Cons it items)
  obtain ev n where it: "it = (ev, n)" by force
  obtain body ls' where b: "render_one_telegram ok ev n w = Some body"
    "numbered (\<lambda>ev n. render_one_telegram ok ev n w) (i + 1) items = Some ls'"
    "ls = (u ''#'' @ u (str_of_int i) @ u '' '' @ body) # ls'"
    using Cons.prems it by (auto split: option.splits)
  have "plain (u ''#'')" "plain (u '' '')" by (simp_all add: u_def LT_def GT_def)
  then have "tags_of False ((u ''#'' @ u (str_of_int i) @ u '' '' @ body) @ r) = event_tags @ tags_of False r
      \<and> tidy None ((u ''#'' @ u (str_of_int i) @ u '' '' @ body) @ r) = tidy None r" for r
    using tags_event [OF b(1), of r] by simp
  then show ?case using Cons.IH [OF b(2)] b(3) by simp
qed simp

lemma tags_join:
  "\<forall>l \<in> set ls. \<forall>r. tags_of False (l @ r) = t @ tags_of False r \<and> tidy None (l @ r) = tidy None r
     \<Longrightarrow> tags_of False (join [10] ls) = concat (replicate (length ls) t) \<and> tidy None (join [10] ls)"
proof (induction "[10] :: utext" ls rule: join.induct)
  case (2 x)
  then have "tags_of False (x @ []) = t @ tags_of False [] \<and> tidy None (x @ []) = tidy None []" by (meson list.set_intros(1))
  then show ?case by simp
next
  case (3 x y xs)
  then show ?case by (simp add: LT_def)
qed simp

lemma numbered_none: "numbered render i items = None \<Longrightarrow> list_ex (\<lambda>(ev, cnt). render ev cnt = None) items"
  by (induction render i items rule: numbered.induct) (auto split: option.splits)

lemma join_cons: "ls \<noteq> [] \<Longrightarrow> join sep (x # ls) = x @ sep @ join sep ls"
  by (cases ls) simp_all

lemma tags_batch:
  assumes "numbered (\<lambda>ev n. render_one_telegram ok ev n w) i items = Some ls" and "items \<noteq> []" and "plain header" and "plain (concat summary)"
  shows "tags_of False (join [10] ([u ''<b>'' @ header @ u ''</b>''] @ summary @ ls))
      = u ''<b></b>'' @ concat (replicate (length items) event_tags)
    \<and> tidy None (join [10] ([u ''<b>'' @ header @ u ''</b>''] @ summary @ ls))"
proof -
  have len: "length ls = length items" and each: "\<forall>l \<in> set ls. \<forall>r. tags_of False (l @ r) = event_tags @ tags_of False r \<and> tidy None (l @ r) = tidy None r"
    using tags_numbered [OF assms(1)] by auto
  have ls: "tags_of False (join [10] ls) = concat (replicate (length items) event_tags)" "tidy None (join [10] ls)"
    using tags_join [OF each] len by simp_all
  have ne: "ls \<noteq> []" using len assms(2) by auto
  have rest: "tags_of False (join [10] (xs @ ls)) = tags_of False (join [10] ls) \<and> tidy None (join [10] (xs @ ls))" if "plain (concat xs)" for xs
    using that by (induction xs) (use ls ne in \<open>auto simp: join_cons LT_def\<close>)
  have open_b: "tags_of False (u ''<b>'' @ x) = u ''<b>'' @ tags_of False x" "tidy None (u ''<b>'' @ x) = tidy None x" for x
    by (simp_all add: u_def LT_def GT_def)
  have close_b: "tags_of False (u ''</b>'' @ x) = u ''</b>'' @ tags_of False x" "tidy None (u ''</b>'' @ x) = tidy None x" for x
    by (simp_all add: u_def LT_def GT_def)
  have "u ''<b></b>'' = u ''<b>'' @ u ''</b>''" by (simp add: u_def)
  then show ?thesis using rest [OF assms(4)] ls ne assms(3) by (simp add: join_cons open_b close_b LT_def)
qed

text \<open>C21: a message with the HTML parse mode holds exactly the tags of the template, one pair \<^verbatim>\<open>b\<close> and one pair \<^verbatim>\<open>code\<close> for
  each event, whatever the texts of the events hold and whatever is masked; a message that could not be formatted has no
  parse mode.\<close>

theorem telegram_markup:
  "(case rm_parse_mode (render_telegram cs ok ev n w) of
      None \<Rightarrow> render_one_telegram ok ev n w = None
    | Some mode \<Rightarrow> mode = TELEGRAM_PARSE_MODE \<and> tags_of False (rm_text (render_telegram cs ok ev n w)) = event_tags)
   \<and> (case rm_parse_mode (render_telegram_batch cs ok items window_s) of
        None \<Rightarrow> list_ex (\<lambda>(ev, cnt). render_one_telegram ok ev cnt (Some window_s) = None) items
      | Some mode \<Rightarrow> mode = TELEGRAM_PARSE_MODE \<and> tags_of False (rm_text (render_telegram_batch cs ok items window_s))
          = (if items = [] then [] else u ''<b></b>'' @ concat (replicate (length items) event_tags)))"
proof
  show "case rm_parse_mode (render_telegram cs ok ev n w) of
      None \<Rightarrow> render_one_telegram ok ev n w = None
    | Some mode \<Rightarrow> mode = TELEGRAM_PARSE_MODE \<and> tags_of False (rm_text (render_telegram cs ok ev n w)) = event_tags"
  proof (cases "render_one_telegram ok ev n w")
    case (Some s)
    have "tags_of False s = event_tags" "tidy None s" using tags_event [OF Some, of "[]"] by simp_all
    then show ?thesis by (simp add: render_telegram_def Some mask_tags)
  qed (simp add: render_telegram_def)
  let ?lines = "numbered (\<lambda>ev n. render_one_telegram ok ev n (Some window_s)) 1 items"
  have empty: "plain (title @ u ''(N=0)'')" by (simp add: title_def u_def LT_def GT_def)
  show "case rm_parse_mode (render_telegram_batch cs ok items window_s) of
      None \<Rightarrow> list_ex (\<lambda>(ev, cnt). render_one_telegram ok ev cnt (Some window_s) = None) items
    | Some mode \<Rightarrow> mode = TELEGRAM_PARSE_MODE \<and> tags_of False (rm_text (render_telegram_batch cs ok items window_s))
        = (if items = [] then [] else u ''<b></b>'' @ concat (replicate (length items) event_tags))"
  proof (cases "items = []")
    case True
    then show ?thesis using empty by (simp add: render_telegram_batch_def mask_tags)
  next
    case False
    obtain header summary where h: "batch_header items = (header, summary)" by force
    show ?thesis
    proof (cases ?lines)
      case None
      then show ?thesis using False numbered_none [OF None] by (simp add: render_telegram_batch_def h)
    next
      case (Some ls)
      have "plain (concat (if summary = [] then [] else [html_escape summary]))" by simp
      from tags_batch [OF Some False plain_escape this, of header] show ?thesis
        using False by (simp add: render_telegram_batch_def h Some mask_tags)
    qed
  qed
qed

text \<open>The masking runs after the escaping, which turns \<^verbatim>\<open>&\<close> into \<^verbatim>\<open>&amp;\<close>: a secret in a second query parameter is masked for Discord and
  not for Telegram.\<close>

definition ascii_only :: charset where "ascii_only = \<lparr>other_digit = \<lambda>x. False, other_word = \<lambda>x. False\<rparr>"

lemma escaped_token_leaks:
  "mask_secrets ascii_only (u ''/x?a=1&token=s3'') = u ''/x?a=1&token=[REDACTED]''"
  "mask_secrets ascii_only (html_escape (u ''/x?a=1&token=s3'')) = u ''/x?a=1&amp;token=s3''"
  by (simp_all add: mask_secrets_def html_escape_def replace_char_def ascii_only_def u_def REDACTED_def group1_def Let_def DISCORD_WEBHOOK_RE_def
      TELEGRAM_TOKEN_RE_def QUERY_TOKEN_RE_def BEARER_RE_def in_turn_def lit_def lit_ci_def digit_def token_char_def value_char_def bearer_char_def
      space_def between_def letter_def word_def)

end
