(* ===== verification/Alert_Migration.thy ===== *)
theory Alert_Migration
  imports Observation
begin

text \<open>
  \<^verbatim>\<open>src/alerting/migration.py\<close>: the creation of the alert tables, guarded by \<^verbatim>\<open>PRAGMA user_version\<close>, and the deletion of old rows in
  chunks. The statements create tables and indexes by name; a statement may fail, and then what was not committed is
  rolled back. Which of the old rows a \<^verbatim>\<open>SELECT .. LIMIT\<close> lists first is unspecified: an order is a parameter.
\<close>

definition SCHEMA_VERSION :: int where "SCHEMA_VERSION = 1"

definition MICRO_TRIGGER_RETENTION_MS :: int where "MICRO_TRIGGER_RETENTION_MS = 3 * 24 * 3600 * 1000"
definition ALERT_EVENTS_RETENTION_MS :: int where "ALERT_EVENTS_RETENTION_MS = 7 * 24 * 3600 * 1000"

definition ALLOWED_TABLES :: "string list" where
  "ALLOWED_TABLES = [''alert_events'', ''micro_trigger_events'']"

definition DDL_INDEXES :: "string list" where
  "DDL_INDEXES = [''idx_alert_events_status_ts'', ''idx_alert_events_ts'', ''idx_micro_trigger_symbol_ts'', ''idx_micro_trigger_ts'']"

text \<open>The names in the schema, the version, and the identifiers and times of the rows of each table.\<close>

record alert_db =
  ad_objects :: "string list"
  ad_version :: int
  ad_rows :: "(string, (nat \<times> int) list) dict"

definition create_if_not_exists :: "string \<Rightarrow> alert_db \<Rightarrow> alert_db" where
  "create_if_not_exists n db = (if n \<in> set (ad_objects db) then db else db\<lparr>ad_objects := ad_objects db @ [n]\<rparr>)"

definition migration_objects :: "string list" where
  "migration_objects = ALLOWED_TABLES @ DDL_INDEXES"

definition create_all :: "string list \<Rightarrow> alert_db \<Rightarrow> alert_db" where
  "create_all ns db = foldl (\<lambda>d n. create_if_not_exists n d) db ns"

text \<open>The number of the statement that fails, if one does: the tables and indexes, the version, the commit. Outside a transaction each
  statement takes effect at once, and the rollback undoes nothing. \<open>None\<close> is the error.\<close>

definition run_migration :: "bool \<Rightarrow> nat option \<Rightarrow> alert_db \<Rightarrow> alert_db \<times> int option" where
  "run_migration in_transaction fault db =
     (let done_db = (create_all migration_objects db)\<lparr>ad_version := SCHEMA_VERSION\<rparr>
      in if SCHEMA_VERSION \<le> ad_version db then (db, Some (ad_version db))
         else case fault of
                None \<Rightarrow> (done_db, Some SCHEMA_VERSION)
              | Some n \<Rightarrow> (if in_transaction then db
                           else if n \<le> length migration_objects then create_all (take n migration_objects) db
                           else done_db, None))"

section \<open>Retention\<close>

datatype migration_error = UnknownTable string | ChunkOutOfRange

type_synonym stamped = "nat \<times> int"

text \<open>One \<^verbatim>\<open>DELETE\<close>: the rows that stay, and the number of those that went.\<close>

definition delete_chunk :: "(stamped list \<Rightarrow> stamped list) \<Rightarrow> int \<Rightarrow> nat \<Rightarrow> stamped list \<Rightarrow> stamped list \<times> nat" where
  "delete_chunk order cutoff_ms chunk rs =
     (let ids = map fst (take chunk (order (filter (\<lambda>r. snd r < cutoff_ms) rs))); rest = filter (\<lambda>r. fst r \<notin> set ids) rs
      in (rest, length rs - length rest))"

function delete_loop :: "(stamped list \<Rightarrow> stamped list) \<Rightarrow> int \<Rightarrow> nat \<Rightarrow> stamped list \<Rightarrow> nat \<Rightarrow> stamped list \<times> nat" where
  "delete_loop order cutoff_ms chunk rs sofar =
     (case delete_chunk order cutoff_ms chunk rs of
        (rest, n) \<Rightarrow> if n = 0 then (rest, sofar) else delete_loop order cutoff_ms chunk rest (sofar + n))"
  by pat_completeness auto
termination
  by (relation "measure (\<lambda>(order, cutoff, chunk, rs, sofar). length rs)") (auto simp: delete_chunk_def Let_def)

declare delete_loop.simps [simp del]

definition chunked_delete_older_than ::
  "(stamped list \<Rightarrow> stamped list) \<Rightarrow> string \<Rightarrow> int \<Rightarrow> int \<Rightarrow> alert_db \<Rightarrow> migration_error + alert_db \<times> nat" where
  "chunked_delete_older_than order table cutoff_ms chunk db =
     (if table \<notin> set ALLOWED_TABLES then Inl (UnknownTable table)
      else if chunk \<le> 0 \<or> 50000 < chunk then Inl ChunkOutOfRange
      else let (rest, n) = delete_loop order cutoff_ms (nat chunk) (case dget (ad_rows db) table of None \<Rightarrow> [] | Some rs \<Rightarrow> rs) 0
           in Inr (db\<lparr>ad_rows := dset (ad_rows db) table rest\<rparr>, n))"

section \<open>What they do\<close>

lemma create_all_objects:
  "distinct ns \<Longrightarrow> create_all ns db = db\<lparr>ad_objects := ad_objects db @ filter (\<lambda>n. n \<notin> set (ad_objects db)) ns\<rparr>"
proof (induction ns rule: rev_induct)
  case (snoc n ns)
  then show ?case by (auto simp: create_all_def create_if_not_exists_def)
qed (simp add: create_all_def)

lemma create_twice: "distinct ns \<Longrightarrow> create_all ns (create_all (take k ns) db) = create_all ns db"
proof -
  assume d: "distinct ns"
  let ?old = "set (ad_objects db)"
  have "filter (\<lambda>n. n \<notin> set (take k ns)) ns = drop k ns"
  proof -
    have "set (take k ns) \<inter> set (drop k ns) = {}" using d by (metis append_take_drop_id distinct_append)
    then have "filter (\<lambda>n. n \<notin> set (take k ns)) (take k ns @ drop k ns) = drop k ns"
      by (auto simp only: filter_append) (auto simp: filter_empty_conv filter_id_conv)
    then show ?thesis by (simp only: append_take_drop_id)
  qed
  moreover have "filter (\<lambda>n. n \<notin> ?old \<union> set (filter (\<lambda>n. n \<notin> ?old) (take k ns))) ns
      = filter (\<lambda>n. n \<notin> ?old) (filter (\<lambda>n. n \<notin> set (take k ns)) ns)"
    unfolding filter_filter by (intro filter_cong) auto
  ultimately have "filter (\<lambda>n. n \<notin> ?old \<union> set (filter (\<lambda>n. n \<notin> ?old) (take k ns))) ns = filter (\<lambda>n. n \<notin> ?old) (drop k ns)"
    by simp
  moreover have "filter (\<lambda>n. n \<notin> ?old) ns = filter (\<lambda>n. n \<notin> ?old) (take k ns) @ filter (\<lambda>n. n \<notin> ?old) (drop k ns)"
    by (metis append_take_drop_id filter_append)
  ultimately show ?thesis using d by (simp add: create_all_objects)
qed

text \<open>Lemma: a migration that failed at any statement, in a transaction or outside, can be run again, and the database is then
  the one that a first run without failure makes.\<close>

theorem migration_resumes:
  assumes "run_migration txn (Some n) db = (db', None)" and "n \<le> length migration_objects"
  shows "run_migration txn' None db' = run_migration txn' None db"
proof -
  have "distinct migration_objects" by (simp add: migration_objects_def ALLOWED_TABLES_def DDL_INDEXES_def)
  then have "create_all migration_objects (create_all (take n migration_objects) db) = create_all migration_objects db" by (rule create_twice)
  moreover have "ad_version (create_all (take n migration_objects) db) = ad_version db"
    using \<open>distinct migration_objects\<close> by (simp add: create_all_objects)
  ultimately show ?thesis using assms by (auto simp: run_migration_def Let_def split: if_splits)
qed

definition empty_db :: alert_db where "empty_db = \<lparr>ad_objects = [], ad_version = 0, ad_rows = []\<rparr>"

lemma migration_resumes_witness:
  "run_migration True None (fst (run_migration False (Some 3) empty_db)) = run_migration True None empty_db
   \<and> ad_objects (fst (run_migration False (Some 3) empty_db)) = take 3 migration_objects"
proof -
  have r: "run_migration False (Some 3) empty_db = (fst (run_migration False (Some 3) empty_db), None)"
    by (simp add: run_migration_def empty_db_def SCHEMA_VERSION_def Let_def)
  have "(3 :: nat) \<le> length migration_objects" by (simp add: migration_objects_def ALLOWED_TABLES_def DDL_INDEXES_def)
  from migration_resumes [OF r this] show ?thesis
    by (simp add: run_migration_def empty_db_def create_all_def create_if_not_exists_def migration_objects_def ALLOWED_TABLES_def DDL_INDEXES_def
        SCHEMA_VERSION_def Let_def)
qed

text \<open>The observation phase sets the version of its database to the same number: in one database with it, the alert tables are never
  created.\<close>

lemma migration_skipped:
  assumes "migrate_observation odb = Inr (odb', v)" and "ad_version db = ob_version odb'"
  shows "run_migration txn fault db = (db, Some 1)"
  using assms by (auto simp: migrate_observation_def run_migration_def SCHEMA_VERSION_def OBSERVATION_SCHEMA_VERSION_def split: if_splits)

lemma delete_chunk_spec:
  assumes "\<And>xs. mset (order xs) = mset xs" and "distinct (map fst rs)" and "0 < chunk" and "delete_chunk order cutoff chunk rs = (rest, n)"
  shows "filter (\<lambda>r. \<not> snd r < cutoff) rest = filter (\<lambda>r. \<not> snd r < cutoff) rs" and "distinct (map fst rest)"
    and "n = 0 \<longleftrightarrow> filter (\<lambda>r. snd r < cutoff) rs = []" and "length rest + n = length rs"
proof -
  let ?old = "filter (\<lambda>r. snd r < cutoff) rs"
  let ?gone = "take chunk (order ?old)"
  have set_order: "set (order ?old) = set ?old" by (metis assms(1) set_mset_mset)
  have rest: "rest = filter (\<lambda>r. fst r \<notin> set (map fst ?gone)) rs" and n: "n = length rs - length rest"
    using assms(4) by (auto simp: delete_chunk_def Let_def)
  have "fst r \<notin> set (map fst ?gone)" if r: "r \<in> set rs" "\<not> snd r < cutoff" for r
  proof
    assume "fst r \<in> set (map fst ?gone)"
    then obtain q where q: "q \<in> set ?gone" "fst q = fst r" by auto
    then have "q \<in> set ?old" using set_order in_set_takeD by fast
    then have "q = r" using r(1) q(2) assms(2) by (metis distinct_map filter_is_subset inj_on_def subsetD)
    then show False using \<open>q \<in> set ?old\<close> r(2) by simp
  qed
  then show "filter (\<lambda>r. \<not> snd r < cutoff) rest = filter (\<lambda>r. \<not> snd r < cutoff) rs"
    unfolding rest filter_filter by (intro filter_cong) auto
  show "distinct (map fst rest)" unfolding rest using assms(2) by (rule distinct_map_filter)
  show len: "length rest + n = length rs" by (simp add: rest n)
  show "n = 0 \<longleftrightarrow> ?old = []"
  proof
    assume "n = 0"
    then have "rest = rs" using len rest by (metis add_0_right filter_True length_filter_less nat_neq_iff)
    then have "\<forall>r \<in> set rs. fst r \<notin> set (map fst ?gone)" using rest by (metis filter_id_conv)
    moreover have "set ?gone \<subseteq> set rs" using set_order by (metis filter_is_subset set_take_subset subset_trans)
    ultimately have "?gone = []" by (metis image_eqI last_in_set set_map subsetD)
    then have "set ?old = {}" using set_order assms(3) by (metis list.set(1) not_less_iff_gr_or_eq take_eq_Nil)
    then show "?old = []" by (simp only: set_empty)
  next
    assume "?old = []"
    then have "order ?old = []" using set_order by simp
    then show "n = 0" by (simp add: n rest)
  qed
qed

lemma delete_loop_spec:
  assumes "\<And>xs. mset (order xs) = mset xs" and "0 < chunk"
  shows "distinct (map fst rs) \<Longrightarrow> delete_loop order cutoff chunk rs sofar
    = (filter (\<lambda>r. \<not> snd r < cutoff) rs, sofar + length (filter (\<lambda>r. snd r < cutoff) rs))"
proof (induction "length rs" arbitrary: rs sofar rule: less_induct)
  case less
  obtain rest n where c: "delete_chunk order cutoff chunk rs = (rest, n)" by force
  note spec = delete_chunk_spec [OF assms(1) less.prems assms(2) c]
  have count: "length (filter (\<lambda>r. snd r < cutoff) xs) + length (filter (\<lambda>r. \<not> snd r < cutoff) xs) = length xs" for xs :: "stamped list"
    by (rule sum_length_filter_compl)
  show ?case
  proof (cases "n = 0")
    case True
    then have "filter (\<lambda>r. snd r < cutoff) rs = []" using spec(3) by simp
    moreover from this have "filter (\<lambda>r. \<not> snd r < cutoff) rs = rs" by (simp add: filter_empty_conv)
    moreover have "rest = rs"
      using c True spec(4) by (auto simp: delete_chunk_def Let_def) (metis filter_True length_filter_less nat_neq_iff)
    ultimately show ?thesis using c True by (simp add: delete_loop.simps)
  next
    case False
    then have "length rest < length rs" using spec(4) by simp
    from less.hyps [OF this spec(2)] have "delete_loop order cutoff chunk rs sofar
      = (filter (\<lambda>r. \<not> snd r < cutoff) rs, sofar + n + length (filter (\<lambda>r. snd r < cutoff) rest))"
      using c False spec(1) by (simp add: delete_loop.simps [of _ _ _ rs])
    moreover have "n + length (filter (\<lambda>r. snd r < cutoff) rest) = length (filter (\<lambda>r. snd r < cutoff) rs)"
      using count [of rs] count [of rest] spec(1,4) by simp
    ultimately show ?thesis by simp
  qed
qed

text \<open>C33: the deletion ends, whatever rows each statement picks; it removes exactly the rows older than the cut-off, keeps the
  others in place, and returns how many it removed.\<close>

theorem chunked_delete:
  assumes "\<And>xs. mset (order xs) = mset xs" and "table \<in> set ALLOWED_TABLES" and "0 < chunk" and "chunk \<le> 50000"
    and "dget (ad_rows db) table = Some rs" and "distinct (map fst rs)"
  shows "chunked_delete_older_than order table cutoff_ms chunk db
    = Inr (db\<lparr>ad_rows := dset (ad_rows db) table (filter (\<lambda>r. \<not> snd r < cutoff_ms) rs)\<rparr>, length (filter (\<lambda>r. snd r < cutoff_ms) rs))"
  using delete_loop_spec [OF assms(1), of "nat chunk" rs cutoff_ms 0] assms(2-6) by (simp add: chunked_delete_older_than_def)

definition stored_alerts :: "stamped list" where "stored_alerts = [(1, 10), (2, 90), (3, 20), (4, 30)]"

lemma chunked_delete_witness:
  "case chunked_delete_older_than rev ''alert_events'' 50 2 (empty_db\<lparr>ad_rows := [(''alert_events'', stored_alerts)]\<rparr>) of
     Inl e \<Rightarrow> False | Inr (db, n) \<Rightarrow> dget (ad_rows db) ''alert_events'' = Some [(2, 90)] \<and> n = 3"
  using chunked_delete [of rev "''alert_events''" 2 "empty_db\<lparr>ad_rows := [(''alert_events'', stored_alerts)]\<rparr>" stored_alerts 50]
  by (simp add: ALLOWED_TABLES_def stored_alerts_def dget_Cons dict_simps)

end
