(* ===== verification/Sealed_Store.thy ===== *)
theory Sealed_Store
  imports Prelude
begin

text \<open>
  \<^verbatim>\<open>src/storage/sealed.py\<close>: the orders that were sealed, with the time of the seal, in the order of their insertion. The operations run under
  one lock, so each is one step; the clock of \<^verbatim>\<open>cleanup_expired\<close> is an input.
\<close>

record sealed_config =
  seal_ttl_ms :: int
  exchange_ts_tolerance_ms :: int

definition default_sealed_config :: sealed_config where
  "default_sealed_config = \<lparr>seal_ttl_ms = 300000, exchange_ts_tolerance_ms = 2000\<rparr>"

record seal_entry =
  sealed_at_local_ms :: int
  seal_exchange_ts_ms :: "int option"
  seal_version :: int

type_synonym sealed_orders = "(string, seal_entry) dict"

definition seal :: "string \<Rightarrow> int \<Rightarrow> int option \<Rightarrow> int \<Rightarrow> sealed_orders \<Rightarrow> sealed_orders" where
  "seal order_id t exch v m = dset m order_id \<lparr>sealed_at_local_ms = t, seal_exchange_ts_ms = exch, seal_version = v\<rparr>"

definition is_sealed :: "sealed_config \<Rightarrow> string \<Rightarrow> int \<Rightarrow> sealed_orders \<Rightarrow> bool" where
  "is_sealed cfg order_id incoming_exchange_ts m =
     (case dget m order_id of
        None \<Rightarrow> False
      | Some entry \<Rightarrow>
          (case seal_exchange_ts_ms entry of
             None \<Rightarrow> True
           | Some exch_ts \<Rightarrow> if incoming_exchange_ts < exch_ts - exchange_ts_tolerance_ms cfg then True else True))"

definition expired :: "sealed_config \<Rightarrow> int \<Rightarrow> seal_entry \<Rightarrow> bool" where
  "expired cfg now_ms entry \<longleftrightarrow>
     seal_ttl_ms cfg < now_ms - sealed_at_local_ms entry
     \<or> (case seal_exchange_ts_ms entry of None \<Rightarrow> False | Some exch_ts \<Rightarrow> seal_ttl_ms cfg < now_ms - exch_ts)"

text \<open>The scan over the keys as they were at the start.\<close>

fun cleanup_loop :: "sealed_config \<Rightarrow> int \<Rightarrow> string list \<Rightarrow> sealed_orders \<times> nat \<Rightarrow> sealed_orders \<times> nat" where
  "cleanup_loop cfg now_ms [] x = x"
| "cleanup_loop cfg now_ms (oid # oids) (m, removed) =
     cleanup_loop cfg now_ms oids
       (case dget m oid of None \<Rightarrow> (m, removed) | Some e \<Rightarrow> if expired cfg now_ms e then (ddel m oid, removed + 1) else (m, removed))"

definition cleanup_expired :: "sealed_config \<Rightarrow> int \<Rightarrow> sealed_orders \<Rightarrow> sealed_orders \<times> nat" where
  "cleanup_expired cfg now_ms m = cleanup_loop cfg now_ms (keys m) (m, 0)"

definition sealed_size :: "sealed_orders \<Rightarrow> nat" where "sealed_size m = length m"

definition sealed_clear :: "sealed_orders \<Rightarrow> sealed_orders" where "sealed_clear m = []"

section \<open>The scan\<close>

lemma dsum_length: "dsum (\<lambda>k e. (1 :: nat)) d = length d"
  by (induction d) (auto simp: dsum_def)

lemma cleanup_loop_spec:
  "wf_dict m \<Longrightarrow> distinct oids \<Longrightarrow>
     (\<forall>oid. dget (fst (cleanup_loop cfg now_ms oids (m, n))) oid
        = (case dget m oid of None \<Rightarrow> None | Some e \<Rightarrow> if oid \<in> set oids \<and> expired cfg now_ms e then None else Some e))
     \<and> wf_dict (fst (cleanup_loop cfg now_ms oids (m, n)))
     \<and> snd (cleanup_loop cfg now_ms oids (m, n)) + length (fst (cleanup_loop cfg now_ms oids (m, n))) = n + length m"
proof (induction oids arbitrary: m n)
  case (Cons oid oids)
  show ?case
  proof (cases "dget m oid")
    case None
    then show ?thesis using Cons by (auto split: option.splits)
  next
    case (Some e)
    show ?thesis
    proof (cases "expired cfg now_ms e")
      case True
      have "length (ddel m oid) + 1 = length m"
        using dsum_del [OF Cons.prems(1) Some, of "\<lambda>k e. 1 :: nat"] unfolding dsum_length by simp
      then show ?thesis using Cons.IH [of "ddel m oid" "n + 1"] Cons.prems Some True by (auto simp: dict_simps split: option.splits)
    next
      case False
      then show ?thesis using Cons Some by (auto split: option.splits)
    qed
  qed
qed (auto split: option.split)

lemma cleanup_spec:
  assumes "wf_dict m"
  shows "dget (fst (cleanup_expired cfg now_ms m)) oid = (case dget m oid of None \<Rightarrow> None | Some e \<Rightarrow> if expired cfg now_ms e then None else Some e)"
    and "wf_dict (fst (cleanup_expired cfg now_ms m))"
    and "snd (cleanup_expired cfg now_ms m) + sealed_size (fst (cleanup_expired cfg now_ms m)) = sealed_size m"
  using cleanup_loop_spec [of m "keys m" cfg now_ms 0] assms dget_keys [of m oid]
  by (auto simp: cleanup_expired_def sealed_size_def wf_dict_def split: option.splits)

text \<open>A history of the store, and what it says of one order: the entry of its last seal, unless a later clean-up found that expired.\<close>

datatype seal_op = Seal string int "int option" int | Cleanup int | Clear

fun seal_step :: "sealed_config \<Rightarrow> sealed_orders \<Rightarrow> seal_op \<Rightarrow> sealed_orders" where
  "seal_step cfg m (Seal oid t exch v) = seal oid t exch v m"
| "seal_step cfg m (Cleanup now_ms) = fst (cleanup_expired cfg now_ms m)"
| "seal_step cfg m Clear = sealed_clear m"

fun entry_after :: "sealed_config \<Rightarrow> string \<Rightarrow> seal_entry option \<Rightarrow> seal_op \<Rightarrow> seal_entry option" where
  "entry_after cfg oid e (Seal oid' t exch v) =
     (if oid' = oid then Some \<lparr>sealed_at_local_ms = t, seal_exchange_ts_ms = exch, seal_version = v\<rparr> else e)"
| "entry_after cfg oid e (Cleanup now_ms) = (case e of None \<Rightarrow> None | Some x \<Rightarrow> if expired cfg now_ms x then None else e)"
| "entry_after cfg oid e Clear = None"

lemma seal_run: "wf_dict m \<Longrightarrow> wf_dict (foldl (seal_step cfg) m ops) \<and> dget (foldl (seal_step cfg) m ops) oid = foldl (entry_after cfg oid) (dget m oid) ops"
proof (induction ops arbitrary: m)
  case (Cons op ops)
  have "wf_dict (seal_step cfg m op) \<and> dget (seal_step cfg m op) oid = entry_after cfg oid (dget m oid) op"
    using Cons.prems cleanup_spec [OF Cons.prems]
    by (cases op) (auto simp: seal_def sealed_clear_def dict_simps split: option.splits)
  then show ?case using Cons.IH [of "seal_step cfg m op"] by simp
qed simp

text \<open>C32: an order is reported sealed exactly when its last seal is not expired at any later clean-up, whatever time of the
  exchange the question carries.\<close>

theorem sealed_history:
  "is_sealed cfg oid incoming (foldl (seal_step cfg) [] ops) \<longleftrightarrow> foldl (entry_after cfg oid) None ops \<noteq> None"
  using seal_run [of "[]" cfg ops oid] by (auto simp: is_sealed_def split: option.splits)

end
