(* ===== verification/Scheduling.thy ===== *)
theory Scheduling
  imports Float64
begin

text \<open>
  \<^verbatim>\<open>src/supervisor.py\<close>, \<^verbatim>\<open>src/ws_manager/funding_scheduler.py\<close>, \<^verbatim>\<open>src/utils/time.py\<close> and \<^verbatim>\<open>src/utils/events.py\<close>: restarting with
  back-off, the clean-up of tasks, the task of the funding scheduler as the steps between which other coroutines run, and
  the small functions on times and events. How a coroutine ends, clocks and random numbers are inputs.
\<close>

section \<open>Restarting with back-off\<close>

record supervisor_config =
  backoff_ms :: "int list"
  sigterm_grace_s :: int
  funding_times_utc :: "int list"

definition default_supervisor_config :: supervisor_config where
  "default_supervisor_config = \<lparr>backoff_ms = [5000, 10000, 30000, 60000], sigterm_grace_s = 30, funding_times_utc = [0, 8, 16]\<rparr>"

datatype outcome = Returned | Cancelled | Raised

text \<open>One turn of the loop: whether the shutdown is set at its head, how the coroutine ends, and whether the sleep is cancelled.\<close>

record turn =
  tn_shutdown :: bool
  tn_outcome :: outcome
  tn_sleep_cancelled :: bool

datatype backoff_end = Done | Reraised | Running

text \<open>The delays slept, and how the loop ended; \<open>Running\<close> when the turns that are given are over.\<close>

fun backoff_loop :: "int list \<Rightarrow> nat \<Rightarrow> turn list \<Rightarrow> int list \<times> backoff_end" where
  "backoff_loop backoff attempt [] = ([], Running)"
| "backoff_loop backoff attempt (t # ts) =
     (if tn_shutdown t then ([], Done)
      else case tn_outcome t of
             Returned \<Rightarrow> ([], Done)
           | Cancelled \<Rightarrow> ([], Reraised)
           | Raised \<Rightarrow>
               (let delay_ms = backoff ! min attempt (length backoff - 1)
                in if tn_sleep_cancelled t then ([delay_ms], Done)
                   else let (ds, e) = backoff_loop backoff (attempt + 1) ts in (delay_ms # ds, e)))"

definition run_with_backoff :: "supervisor_config \<Rightarrow> turn list \<Rightarrow> int list \<times> backoff_end" where
  "run_with_backoff cfg ts = backoff_loop (backoff_ms cfg) 0 ts"

text \<open>A task: whether it was done and how awaiting it ends. The clean-up cancels those that are not, awaits all, and stops the dashboard.\<close>

record task =
  tk_done :: bool
  tk_outcome :: outcome

record supervisor =
  sv_shutdown :: bool
  sv_tasks :: "task list"
  sv_cancelled :: "task list"
  sv_dashboard_stops :: nat

definition supervisor_stop :: "supervisor \<Rightarrow> supervisor" where
  "supervisor_stop s = s\<lparr>sv_shutdown := True\<rparr>"

definition supervisor_cleanup :: "supervisor \<Rightarrow> supervisor" where
  "supervisor_cleanup s =
     s\<lparr>sv_cancelled := sv_cancelled s @ filter (\<lambda>t. \<not> tk_done t) (sv_tasks s), sv_tasks := [], sv_dashboard_stops := sv_dashboard_stops s + 1\<rparr>"

text \<open>The delays between restarts follow the schedule and stay at its last entry, and there are as many as failures: one
  for each turn that raises before the first that returns, is cancelled, finds the shutdown set, or is cancelled in its sleep.\<close>

definition retried :: "turn \<Rightarrow> bool" where
  "retried t \<longleftrightarrow> \<not> tn_shutdown t \<and> tn_outcome t = Raised \<and> \<not> tn_sleep_cancelled t"

lemma backoff_loop_delays:
  "let n = length (takeWhile retried ts); rest = dropWhile retried ts;
       extra = (case rest of [] \<Rightarrow> 0 | t # _ \<Rightarrow> if \<not> tn_shutdown t \<and> tn_outcome t = Raised then 1 else 0)
   in fst (backoff_loop backoff k ts) = map (\<lambda>i. backoff ! min i (length backoff - 1)) [k..<k + n + extra]
      \<and> (snd (backoff_loop backoff k ts) = Running \<longleftrightarrow> rest = [])"
proof (induction ts arbitrary: k)
  case (Cons t ts)
  show ?case
  proof (cases "retried t")
    case True
    then have b: "backoff_loop backoff k (t # ts)
        = (backoff ! min k (length backoff - 1) # fst (backoff_loop backoff (k + 1) ts), snd (backoff_loop backoff (k + 1) ts))"
      by (simp add: retried_def Let_def split: prod.split)
    have up: "k \<le> n \<Longrightarrow> [k..<Suc n] = k # [Suc k..<Suc n]" for n by (simp add: upt_conv_Cons del: upt_Suc)
    show ?thesis using Cons.IH [of "k + 1"] True unfolding b by (simp add: Let_def up del: upt_Suc)
  next
    case False
    then show ?thesis by (cases "tn_outcome t") (auto simp: retried_def Let_def split: prod.split)
  qed
qed simp

section \<open>The funding scheduler\<close>

record funding_scheduler_config =
  fs_interval_ms :: int
  fs_jitter_pct :: int

definition default_funding_scheduler_config :: funding_scheduler_config where
  "default_funding_scheduler_config = \<lparr>fs_interval_ms = 28800000, fs_jitter_pct = 20\<rparr>"

text \<open>The seconds of one sleep, for a random number in \<open>[0, 1)\<close>.\<close>

definition loop_sleep_s :: "funding_scheduler_config \<Rightarrow> rat \<Rightarrow> rat" where
  "loop_sleep_s cfg random =
     fmul (fdiv (of_int (fs_interval_ms cfg)) 1000)
       (fadd 1 (fmul (fsub (fmul random 2) 1) (fdiv (of_int (fs_jitter_pct cfg)) 100)))"

text \<open>Tasks are numbered; \<open>fs_live\<close> are those that still run.\<close>

record funding_scheduler =
  fs_running :: bool
  fs_task :: "nat option"
  fs_live :: "nat list"
  fs_created :: nat

definition new_funding_scheduler :: funding_scheduler where
  "new_funding_scheduler = \<lparr>fs_running = False, fs_task = None, fs_live = [], fs_created = 0\<rparr>"

definition fs_start :: "funding_scheduler \<Rightarrow> funding_scheduler" where
  "fs_start s =
     (if fs_running s then s
      else s\<lparr>fs_running := True, fs_task := Some (fs_created s), fs_live := fs_live s @ [fs_created s], fs_created := fs_created s + 1\<rparr>)"

text \<open>\<^verbatim>\<open>stop\<close> up to its \<^verbatim>\<open>await\<close>, with the task that it waits for, and after it.\<close>

definition fs_stop_begin :: "funding_scheduler \<Rightarrow> funding_scheduler \<times> nat option" where
  "fs_stop_begin s = (if \<not> fs_running s then (s, None) else (s\<lparr>fs_running := False\<rparr>, fs_task s))"

definition fs_stop_end :: "nat \<Rightarrow> funding_scheduler \<Rightarrow> funding_scheduler" where
  "fs_stop_end t s = s\<lparr>fs_live := removeAll t (fs_live s), fs_task := None\<rparr>"

definition fs_stop :: "funding_scheduler \<Rightarrow> funding_scheduler" where
  "fs_stop s = (case fs_stop_begin s of (s', None) \<Rightarrow> s' | (s', Some t) \<Rightarrow> fs_stop_end t s')"

inductive fs_reach :: "funding_scheduler \<Rightarrow> bool" where
  created: "fs_reach new_funding_scheduler"
| started: "fs_reach s \<Longrightarrow> fs_reach (fs_start s)"
| stopped: "fs_reach s \<Longrightarrow> fs_reach (fs_stop s)"

text \<open>When no call runs during a \<^verbatim>\<open>stop\<close>, there is one task while the scheduler runs, and none otherwise; a \<^verbatim>\<open>start\<close> while a \<^verbatim>\<open>stop\<close> waits
  makes a task that the scheduler forgets: no later \<^verbatim>\<open>stop\<close> cancels it, and it sleeps on until it wakes by itself.\<close>

lemma fs_one_task: "fs_reach s \<Longrightarrow> fs_live s = (case fs_task s of None \<Rightarrow> [] | Some t \<Rightarrow> [t]) \<and> (fs_running s \<longleftrightarrow> fs_task s \<noteq> None)"
  by (induction rule: fs_reach.induct)
    (auto simp: new_funding_scheduler_def fs_start_def fs_stop_def fs_stop_begin_def fs_stop_end_def split: option.splits)

lemma fs_start_during_stop:
  assumes "fs_reach s" and "fs_running s" and "fs_stop_begin s = (s1, Some t)"
  defines "s2 \<equiv> fs_stop_end t (fs_start s1)"
  shows "fs_running s2 \<and> fs_task s2 = None \<and> fs_live (fs_stop s2) = fs_live s2 \<and> fs_stop s2 = s2\<lparr>fs_running := False\<rparr>"
  using assms by (auto simp: fs_stop_begin_def fs_stop_end_def fs_start_def fs_stop_def)

section \<open>Times\<close>

text \<open>What an exchange may send as a time.\<close>

datatype stamp = BoolStamp bool | IntStamp int | FloatStamp rat | NaN | Infinite | OtherStamp

text \<open>\<open>None\<close> is the \<^verbatim>\<open>ValueError\<close>; \<^verbatim>\<open>int\<close> of a float cuts toward zero.\<close>

definition to_exchange_ms :: "stamp \<Rightarrow> int option" where
  "to_exchange_ms x =
     (let positive = (\<lambda>n. if n \<le> 0 then None else Some n)
      in case x of
           IntStamp n \<Rightarrow> positive n
         | FloatStamp r \<Rightarrow> positive (if 0 \<le> r then \<lfloor>r\<rfloor> else - \<lfloor>- r\<rfloor>)
         | _ \<Rightarrow> None)"

definition extrapolate_next_candle_ms :: "int \<Rightarrow> int \<Rightarrow> int \<Rightarrow> int \<Rightarrow> int" where
  "extrapolate_next_candle_ms now_mono last_candle_ms last_mono_ms interval_ms =
     (let lag = now_mono - last_mono_ms; lag = (if lag < 0 then 0 else lag) in last_candle_ms + interval_ms + lag + 5000)"

definition is_stale_tick :: "int \<Rightarrow> int \<Rightarrow> int \<Rightarrow> bool" where
  "is_stale_tick last_tick_ms now_ms threshold_ms \<longleftrightarrow> threshold_ms < now_ms - last_tick_ms"

definition utc_hour_ms :: "int \<Rightarrow> int \<Rightarrow> int option" where
  "utc_hour_ms now_ms hour =
     (if hour < 0 \<or> 23 < hour then None else Some (now_ms div 86400000 * 86400000 + hour * 3600 * 1000))"

text \<open>The instants of one day: the hours are in order, and the one that holds now is the last that is not later.\<close>

lemma utc_hour_bounds:
  "utc_hour_ms now_ms h = Some t \<Longrightarrow> now_ms - 86400000 < t \<and> t < now_ms + 86400000 \<and> (t \<le> now_ms \<longleftrightarrow> h \<le> now_ms div 3600000 mod 24)"
proof -
  assume t: "utc_hour_ms now_ms h = Some t"
  define n where "n = now_ms div 3600000"
  have "now_ms div 86400000 = n div 24" using zdiv_zmult2_eq [of 24 now_ms 3600000] by (simp add: n_def)
  moreover have "3600000 * n \<le> now_ms" "now_ms < 3600000 * n + 3600000" unfolding n_def by linarith+
  moreover obtain q r where "n div 24 = q" "n mod 24 = r" "n = 24 * q + r" "0 \<le> r" "r < 24" by (metis mult_div_mod_eq pos_mod_bound pos_mod_sign zero_less_numeral)
  moreover have "0 \<le> h" "h < 24" "t = now_ms div 86400000 * 86400000 + h * 3600000" using t by (auto simp: utc_hour_ms_def split: if_splits)
  ultimately show ?thesis unfolding n_def [symmetric] by (cases "h \<le> r") simp_all
qed

lemma exchange_ms_positive: "to_exchange_ms x = Some n \<Longrightarrow> 0 < n"
  by (auto simp: to_exchange_ms_def Let_def split: stamp.splits if_splits)

lemma next_candle_later: "last_candle_ms + interval_ms + 5000 \<le> extrapolate_next_candle_ms now_mono last_candle_ms last_mono_ms interval_ms"
  by (simp add: extrapolate_next_candle_ms_def)

section \<open>Events\<close>

definition CRITICAL_EVENTS :: "string list" where
  "CRITICAL_EVENTS = [''CRITICAL_ALERT'', ''FVG_EXPIRED_HARD_DEADLINE'']"

datatype 'p emission = LogWarning string 'p | TelemetryPut string 'p | SendDirect string 'p

definition emit_event :: "string \<Rightarrow> 'p \<Rightarrow> 'p emission list" where
  "emit_event event_type p = (if event_type \<in> set CRITICAL_EVENTS then [LogWarning event_type p] else [TelemetryPut event_type p])"

definition emit_event_async :: "string \<Rightarrow> 'p \<Rightarrow> 'p emission list" where
  "emit_event_async event_type p =
     (if event_type \<in> set CRITICAL_EVENTS then [LogWarning event_type p, SendDirect event_type p] else [TelemetryPut event_type p])"

end
