(* ===== verification/Spec2Isabelle.thy ===== *)
theory Spec2Isabelle
  imports Sim_Properties Sim_Report L2_Properties Seq_Validator Token_Bucket Rest_Gateway Micro_Trigger
    Backtest_Engine Universe_Service Alert_Agent Locks Order_Manager WS_Manager Emergency Emergency_Journal Equity_Tracker
    Multi_Report Universe_Scanner Fill_Model Queues Observation Parquet_Store
    Reporting Mexc_Rest Mexc_WS Dashboard Formatter Alert_Migration Sealed_Store Scheduling
begin

text \<open>
  Verification library of MikoV2, a trading system for futures written in Python: it records market data, replays it, finds
  entries, follows paper positions, executes and closes orders, limits risk, stores everything in SQLite and Parquet files,
  and tells people about it. Paths below are under \<^verbatim>\<open>src/src/\<close>.

  \<^bold>\<open>Conventions.\<close> A class is a record of its attributes and each method is a function on it, with the branches and early returns
  of the source; a dictionary is an association list (\<open>dict\<close> in Prelude) where its order matters and a map otherwise. An
  exception is \<open>None\<close>, \<open>Inl\<close> or a constructor of a result type. Python's integers are \<open>int\<close>. A float is a rational, and each
  operation is rounded to binary64 (\<open>rnd\<close> in Float64: half to even, with subnormals and without overflow), in the order
  in which Python evaluates; \<^verbatim>\<open>sum\<close> is the naive fold of Python up to 3.11; infinities and NaN are left out. Clocks, random
  numbers, replies of servers, failing statements and the like are arguments. A coroutine is cut into the steps between
  which others can run, wherever a property depends on what may come between; properties then speak of every sequence of
  steps, as an inductive predicate or a list of operations. What the program takes from libraries is an argument or a locale: a
  priority queue (Pacer), a sorted search (L2\_Invariants), a store with an optimistic update (Sqlite\_Writer). What SQLite makes of numbers
  and texts in a column of another type (\<open>conversions\<close> in Sqlite\_Writer) and what pandas and Parquet make of records (\<open>pandas\<close> in
  Parquet\_Store) are functions that the definitions take; a property that relies on them names what it relies on.

  \<^bold>\<open>Trading on paper and in simulation.\<close> Paper\_Math: \<^verbatim>\<open>trading/paper_math.py\<close>, the formulas. Paper\_Manager:
  \<^verbatim>\<open>execution/paper_position_manager.py\<close>, with the rows that it writes and loads and with faults of the database. Paper\_Invariants has one
  locale for invariants of the manager, with four interpretations; Paper\_Properties shows the accounting, the limits of the book and
  the recovery at a start, Paper\_Lifecycle the decision of an entry, the exit rule and the funding. Position\_Sim:
  \<^verbatim>\<open>backtest/position_sim.py\<close>; Sim\_Refinement is an abstraction from the manager to the simulator and one lemma per operation,
  from which Sim\_Properties concludes that both do the same on a stream; Sim\_Report is about the report of the simulator.
  Reporting: \<^verbatim>\<open>backtest/reporting.py\<close>, whose curve ends at the equity of the simulator. Fill\_Model: \<^verbatim>\<open>backtest/fill_model.py\<close> over
  Decimals (\<^verbatim>\<open>utils/decimal.py\<close>).

  \<^bold>\<open>Backtests.\<close> Replay\_Transport (\<^verbatim>\<open>backtest/replay_transport.py\<close>) merges the recorded events; Signal\_Detector, Strategy and
  Backtest\_Engine (\<^verbatim>\<open>backtest/signal_detector.py\<close>, \<^verbatim>\<open>strategy.py\<close>, \<^verbatim>\<open>engine.py\<close>) turn them into candles, signals and entries. Multi\_Runner and
  Walk\_Forward (\<^verbatim>\<open>backtest/multi_symbol_runner.py\<close>) run many symbols and many windows: they are compared with the engine for each symbol, every
  entry is accounted for, and what is reported for a window was entered in it. Data\_Quality and Multi\_Report
  (\<^verbatim>\<open>backtest/data_quality.py\<close>, \<^verbatim>\<open>multi_report.py\<close>) judge the data and the run. Per\_Symbol has the locale of steps that touch one symbol only.

  \<^bold>\<open>Market data.\<close> L2\_Buffer, L2\_Invariants and L2\_Properties: \<^verbatim>\<open>data_layer/l2_buffer.py\<close> and \<^verbatim>\<open>obi.py\<close> on arrays, refined by a map from
  prices to quantities. Seq\_Validator: \<^verbatim>\<open>data_layer/seq.py\<close>. Mexc\_WS and Mexc\_Rest: \<^verbatim>\<open>data_layer/mexc_ws.py\<close> and \<^verbatim>\<open>mexc_rest.py\<close>, the feeds that are
  open and the decoding of replies. WS\_Manager: \<^verbatim>\<open>ws_manager/manager.py\<close> and \<^verbatim>\<open>snapshot.py\<close>, with the buffer and the validator. Queues:
  \<^verbatim>\<open>data_layer/queues/\<close>. Micro\_Trigger: \<^verbatim>\<open>features/micro_trigger.py\<close>. Metrics\_Fetcher, Universe\_Service and Universe\_Scanner:
  \<^verbatim>\<open>data_layer/metrics_fetcher.py\<close>, \<^verbatim>\<open>universe_service.py\<close>, \<^verbatim>\<open>universe_scanner.py\<close>, which symbols are followed. Parquet\_Store:
  \<^verbatim>\<open>storage/orderbook_store.py\<close> and \<^verbatim>\<open>archiver.py\<close>.

  \<^bold>\<open>Execution and risk.\<close> Token\_Bucket (\<^verbatim>\<open>data_layer/token_bucket.py\<close>), Pacer and Rest\_Gateway (\<^verbatim>\<open>execution/pacer.py\<close>, \<^verbatim>\<open>rest_gateway.py\<close>) limit requests.
  Order\_Manager (\<^verbatim>\<open>execution/order_manager.py\<close>) records fills through Sqlite\_Writer (\<^verbatim>\<open>storage/sqlite_writer.py\<close>); the
  retries of one event are a run with fuel \<open>max_retry + 4\<close>, which is enough whenever the two do not share a lock (\<open>event_effect\<close> is about
  finished events); with a shared lock the event waits for itself. Locks: \<^verbatim>\<open>utils/locks.py\<close>. Flush\_Controller, Emergency and
  Emergency\_Journal: \<^verbatim>\<open>execution/flush_controller.py\<close>, \<^verbatim>\<open>emergency/close.py\<close>, \<^verbatim>\<open>journal.py\<close> and \<^verbatim>\<open>persist.py\<close>. Risk: \<^verbatim>\<open>risk/\<close>, all three monitors on the
  tables of the writer. Equity\_Tracker: \<^verbatim>\<open>storage/equity_tracker.py\<close> and \<^verbatim>\<open>mark_price_cache.py\<close>. Sealed\_Store: \<^verbatim>\<open>storage/sealed.py\<close>.

  \<^bold>\<open>Operation.\<close> Alert\_Agent: \<^verbatim>\<open>alerting/agent.py\<close> and \<^verbatim>\<open>event_catalog.py\<close>; Formatter: \<^verbatim>\<open>alerting/formatter.py\<close>; Alert\_Migration:
  \<^verbatim>\<open>alerting/migration.py\<close>; Observation: \<^verbatim>\<open>observation/\<close>; Dashboard: \<^verbatim>\<open>dashboard/routes.py\<close> and \<^verbatim>\<open>app.py\<close> on the databases of the writer,
  the agent and the observation phase; Scheduling: \<^verbatim>\<open>supervisor.py\<close>, \<^verbatim>\<open>ws_manager/funding_scheduler.py\<close>, \<^verbatim>\<open>utils/time.py\<close> and \<^verbatim>\<open>events.py\<close>.

  \<^bold>\<open>Loops.\<close> Two loops of the source may run forever and are partial functions into \<open>option\<close>: the trimming of the buffer
  (\<open>trim_loop\<close>) and the generation of folds (\<open>fold_loop\<close>); it is shown when they return and when they do not. All other loops
  are structural or come with a measure. Loops that only sleep are the sequence of their passes.

  \<^bold>\<open>Where the code does not do what it means to.\<close> Several lemmas state a defect as a theorem about the code as it is, such as
  \<open>l2_batch_never_returns\<close>, \<open>ws_gap_livelock\<close>, \<open>om_shared_lock_deadlock\<close>, \<open>detector_wedged\<close>, \<open>strict_without_data\<close> or \<open>migration_skipped\<close>; the text before each
  says what happens.

  \<^bold>\<open>Not modelled.\<close> \<^verbatim>\<open>config/\<close> declares settings whose loaders and validators raise \<^verbatim>\<open>NotImplementedError\<close>; \<^verbatim>\<open>utils/logging.py\<close> only decides about log
  lines; \<^verbatim>\<open>main.py\<close> is a stub. Left out elsewhere: log lines, the text of SQL, JSON and CSV, the bytes of Parquet, sockets and the web
  server, and the conversion of results to dictionaries.
\<close>

end
